(* ===== verification/Go_Prelude.thy ===== *)
theory Go_Prelude
  imports Main "HOL-Library.Code_Target_Nat"
begin

text \<open>
  The prelude of the development: Go's byte strings, its 64-bit integers and the
  functions of the packages \<^verbatim>\<open>strings\<close>, \<^verbatim>\<open>bytes\<close> and \<^verbatim>\<open>strconv\<close> that the
  modelled code calls, with the generic lemmas on lists the components share. A Go
  \<^verbatim>\<open>string\<close> or \<^verbatim>\<open>[]byte\<close> is a list of \<open>char\<close>s, one per byte; a \<^verbatim>\<open>rune\<close>
  is a natural number (theory \<open>Utf8\<close>).
\<close>

type_synonym rune = nat

named_theorems go_list "facts on Go's slice and string functions, as rewrite rules"
named_theorems inv_intro "preservation of the components' invariants"

subsection \<open>Bytes and machine integers\<close>

definition byte_of :: "char \<Rightarrow> nat" where
  "byte_of c = of_char c"

definition chr_of :: "nat \<Rightarrow> char" where
  "chr_of n = char_of n"

text \<open>A 64-bit signed result of Go's \<^verbatim>\<open>int\<close> arithmetic, which wraps.\<close>

definition wrap64 :: "int \<Rightarrow> int" where
  "wrap64 x = (x + 2 ^ 63) mod 2 ^ 64 - 2 ^ 63"

definition is_digit :: "char \<Rightarrow> bool" where
  "is_digit c = (48 \<le> byte_of c \<and> byte_of c \<le> 57)"

definition digit_val :: "char \<Rightarrow> int" where
  "digit_val c = int (byte_of c) - 48"

lemma byte_of_bound [simp]: "byte_of c < 256"
  by (simp add: byte_of_def)

lemma byte_of_Char [simp]:
  "byte_of (Char b0 b1 b2 b3 b4 b5 b6 b7) = horner_sum of_bool 2 [b0, b1, b2, b3, b4, b5, b6, b7]"
  by (simp add: byte_of_def)

lemma byte_of_inject [simp]: "byte_of c = byte_of d \<longleftrightarrow> c = d"
  by (simp add: byte_of_def)

lemma byte_of_chr_of [simp]: "n < 256 \<Longrightarrow> byte_of (chr_of n) = n"
  by (simp add: byte_of_def chr_of_def)

lemma chr_of_byte_of [simp]: "chr_of (byte_of c) = c"
  by (simp add: byte_of_def chr_of_def)

lemma wrap64_id [simp]: "\<lbrakk>- (2 ^ 63) \<le> x; x < 2 ^ 63\<rbrakk> \<Longrightarrow> wrap64 x = x"
  by (simp add: wrap64_def)

lemma wrap64_bounds: "- (2 ^ 63) \<le> wrap64 x" "wrap64 x < 2 ^ 63"
proof -
  have "0 \<le> (x + 2 ^ 63) mod 2 ^ 64" "(x + 2 ^ 63) mod 2 ^ 64 < 2 ^ 64"
    by (simp_all only: pos_mod_sign pos_mod_bound zero_less_power zero_less_numeral)
  then show "- (2 ^ 63) \<le> wrap64 x" "wrap64 x < 2 ^ 63"
    by (simp_all add: wrap64_def)
qed

lemma digit_val_range: "is_digit c \<Longrightarrow> 0 \<le> digit_val c \<and> digit_val c \<le> 9"
  by (simp add: is_digit_def digit_val_def)

subsection \<open>Prefixes, suffixes and search\<close>

definition has_prefix :: "'a list \<Rightarrow> 'a list \<Rightarrow> bool" where
  "has_prefix s p = (take (length p) s = p)"

definition has_suffix :: "'a list \<Rightarrow> 'a list \<Rightarrow> bool" where
  "has_suffix s p = (length p \<le> length s \<and> drop (length s - length p) s = p)"

definition trim_prefix :: "'a list \<Rightarrow> 'a list \<Rightarrow> 'a list" where
  "trim_prefix s p = (if has_prefix s p then drop (length p) s else s)"

definition trim_suffix :: "'a list \<Rightarrow> 'a list \<Rightarrow> 'a list" where
  "trim_suffix s p = (if has_suffix s p then take (length s - length p) s else s)"

text \<open>\<^verbatim>\<open>strings.IndexByte\<close>, with \<open>None\<close> for Go's -1.\<close>

fun index_byte :: "'a list \<Rightarrow> 'a \<Rightarrow> nat option" where
  "index_byte [] c = None"
| "index_byte (x # xs) c = (if x = c then Some 0 else map_option Suc (index_byte xs c))"

text \<open>\<^verbatim>\<open>strings.Index\<close> and \<^verbatim>\<open>bytes.Index\<close>.\<close>

fun index_of :: "'a list \<Rightarrow> 'a list \<Rightarrow> nat option" where
  "index_of [] p = (if p = [] then Some 0 else None)"
| "index_of (x # xs) p =
     (if has_prefix (x # xs) p then Some 0 else map_option Suc (index_of xs p))"

definition last_index_byte :: "'a list \<Rightarrow> 'a \<Rightarrow> nat option" where
  "last_index_byte s c = map_option (\<lambda>i. length s - 1 - i) (index_byte (rev s) c)"

text \<open>\<^verbatim>\<open>strings.Cut\<close> at a one-byte separator: before, after, found.\<close>

definition cut_byte :: "'a list \<Rightarrow> 'a \<Rightarrow> 'a list \<times> 'a list \<times> bool" where
  "cut_byte s c = (case index_byte s c of
     None \<Rightarrow> (s, [], False)
   | Some i \<Rightarrow> (take i s, drop (Suc i) s, True))"

definition trim_right :: "'a list \<Rightarrow> 'a list \<Rightarrow> 'a list" where
  "trim_right s cs = rev (dropWhile (\<lambda>c. c \<in> set cs) (rev s))"

definition trim_left :: "'a list \<Rightarrow> 'a list \<Rightarrow> 'a list" where
  "trim_left s cs = dropWhile (\<lambda>c. c \<in> set cs) s"

definition trim_chars :: "'a list \<Rightarrow> 'a list \<Rightarrow> 'a list" where
  "trim_chars s cs = trim_right (trim_left s cs) cs"

definition contains_any :: "'a list \<Rightarrow> 'a list \<Rightarrow> bool" where
  "contains_any s cs = list_ex (\<lambda>c. c \<in> set cs) s"

text \<open>\<^verbatim>\<open>strings.Split\<close> at a one-byte separator.\<close>

fun split_byte :: "'a list \<Rightarrow> 'a \<Rightarrow> 'a list list" where
  "split_byte [] c = [[]]"
| "split_byte (x # xs) c =
     (if x = c then [] # split_byte xs c
      else (case split_byte xs c of [] \<Rightarrow> [[x]] | p # ps \<Rightarrow> (x # p) # ps))"

text \<open>\<^verbatim>\<open>strings.Join\<close>.\<close>

fun join_with :: "'a list list \<Rightarrow> 'a list \<Rightarrow> 'a list" where
  "join_with [] sep = []"
| "join_with [x] sep = x"
| "join_with (x # y # ys) sep = x @ sep @ join_with (y # ys) sep"

text \<open>\<^verbatim>\<open>strings.ReplaceAll\<close> of one byte by a string.\<close>

definition replace_byte :: "'a list \<Rightarrow> 'a \<Rightarrow> 'a list \<Rightarrow> 'a list" where
  "replace_byte s c r = concat (map (\<lambda>x. if x = c then r else [x]) s)"

subsection \<open>Numbers in text\<close>

text \<open>\<^verbatim>\<open>strconv.Itoa\<close>.\<close>

fun itoa_nat :: "nat \<Rightarrow> string" where
  "itoa_nat n = (if n < 10 then [chr_of (48 + n)]
     else itoa_nat (n div 10) @ [chr_of (48 + n mod 10)])"

declare itoa_nat.simps [simp del]

definition itoa :: "int \<Rightarrow> string" where
  "itoa i = (if i < 0 then CHR ''-'' # itoa_nat (nat (- i)) else itoa_nat (nat i))"

fun digits_val :: "int \<Rightarrow> string \<Rightarrow> int" where
  "digits_val acc [] = acc"
| "digits_val acc (c # cs) = digits_val (acc * 10 + digit_val c) cs"

text \<open>
  \<^verbatim>\<open>strconv.ParseUint\<close> in base 10 within a bound, and \<^verbatim>\<open>strconv.Atoi\<close>: \<open>None\<close> is
  Go's error, for a syntax error and for a value out of range alike.
\<close>

definition parse_uint :: "string \<Rightarrow> int \<Rightarrow> int option" where
  "parse_uint s lim =
     (if s \<noteq> [] \<and> list_all is_digit s \<and> digits_val 0 s < lim then Some (digits_val 0 s)
      else None)"

definition atoi :: "string \<Rightarrow> int option" where
  "atoi s = (case s of
     [] \<Rightarrow> None
   | c # cs \<Rightarrow>
       if c = CHR ''-'' then map_option uminus (parse_uint cs (2 ^ 63 + 1))
       else if c = CHR ''+'' then parse_uint cs (2 ^ 63)
       else parse_uint s (2 ^ 63))"

subsection \<open>Lemmas on the string functions\<close>

lemma has_prefix_append [simp, go_list]: "has_prefix (p @ s) p"
  by (simp add: has_prefix_def)

lemma has_prefix_Nil [simp]: "has_prefix s []"
  by (simp add: has_prefix_def)

lemma has_prefix_iff: "has_prefix s p \<longleftrightarrow> (\<exists>t. s = p @ t)"
  by (metis append_eq_conv_conj has_prefix_def)

lemma has_prefix_Cons [simp]: "has_prefix (x # s) (y # p) \<longleftrightarrow> x = y \<and> has_prefix s p"
  by (simp add: has_prefix_def)

lemma has_prefix_Nil_left [simp]: "has_prefix [] p \<longleftrightarrow> p = []"
  by (auto simp: has_prefix_def)

lemma has_suffix_iff: "has_suffix s p \<longleftrightarrow> (\<exists>t. s = t @ p)"
proof
  assume "has_suffix s p"
  then show "\<exists>t. s = t @ p"
    unfolding has_suffix_def by (metis append_take_drop_id)
next
  assume "\<exists>t. s = t @ p"
  then show "has_suffix s p" by (auto simp: has_suffix_def)
qed

lemma trim_suffix_append [simp, go_list]: "trim_suffix (s @ p) p = s"
  by (simp add: trim_suffix_def has_suffix_def)

lemma trim_prefix_append [simp, go_list]: "trim_prefix (p @ s) p = s"
  by (simp add: trim_prefix_def)

lemma trim_suffix_None [go_list]: "\<not> has_suffix s p \<Longrightarrow> trim_suffix s p = s"
  by (simp add: trim_suffix_def)

lemma index_byte_None: "index_byte s c = None \<longleftrightarrow> c \<notin> set s"
  by (induction s) auto

lemma index_byte_SomeD:
  "index_byte s c = Some i \<Longrightarrow> i < length s \<and> s ! i = c \<and> c \<notin> set (take i s)"
  by (induction s arbitrary: i) (auto split: if_splits)

lemma index_byte_split: "index_byte s c = Some i \<Longrightarrow> s = take i s @ c # drop (Suc i) s"
  by (metis id_take_nth_drop index_byte_SomeD)

lemma index_byte_append: "c \<notin> set a \<Longrightarrow> index_byte (a @ c # b) c = Some (length a)"
  by (induction a) auto

lemma index_of_SomeD:
  "index_of s p = Some i \<Longrightarrow> s = take i s @ p @ drop (i + length p) s \<and> i \<le> length s"
proof (induction s arbitrary: i)
  case Nil
  then show ?case by (simp split: if_splits)
next
  case (Cons x xs)
  show ?case
  proof (cases "has_prefix (x # xs) p")
    case True
    with Cons.prems show ?thesis by (auto simp: has_prefix_iff)
  next
    case False
    with Cons.prems obtain j where "index_of xs p = Some j" "i = Suc j" by auto
    with Cons.IH show ?thesis by force
  qed
qed

lemma index_of_bound: "index_of s p = Some i \<Longrightarrow> i + length p \<le> length s"
proof -
  assume a: "index_of s p = Some i"
  have "length s = length (take i s) + length p + length (drop (i + length p) s)"
    using arg_cong [OF conjunct1 [OF index_of_SomeD [OF a]], of length] by simp
  moreover have "length (take i s) = i"
    using index_of_SomeD [OF a] by simp
  ultimately show ?thesis by linarith
qed

lemma cut_byte_found: "c \<notin> set a \<Longrightarrow> cut_byte (a @ c # b) c = (a, b, True)"
  by (simp add: cut_byte_def index_byte_append)

lemma cut_byte_not_found: "c \<notin> set s \<Longrightarrow> cut_byte s c = (s, [], False)"
  using index_byte_None [of s c] by (simp add: cut_byte_def)

lemma split_byte_nonempty [simp]: "split_byte s c \<noteq> []"
  by (induction s) (auto split: list.splits)

lemma split_byte_no_sep: "c \<notin> set s \<Longrightarrow> split_byte s c = [s]"
  by (induction s) auto

lemma split_byte_append: "c \<notin> set a \<Longrightarrow> split_byte (a @ c # b) c = a # split_byte b c"
  by (induction a) auto

lemma split_byte_parts: "p \<in> set (split_byte s c) \<Longrightarrow> c \<notin> set p"
  by (induction s arbitrary: p) (auto split: if_splits list.splits)

lemma join_split_byte: "join_with (split_byte s c) [c] = s"
proof (induction s)
  case Nil
  then show ?case by simp
next
  case (Cons x xs)
  obtain p ps where "split_byte xs c = p # ps"
    using split_byte_nonempty [of xs c] by (cases "split_byte xs c") auto
  with Cons show ?case by (cases ps) auto
qed

lemma split_join_byte:
  "\<lbrakk>ls \<noteq> []; \<forall>l \<in> set ls. c \<notin> set l\<rbrakk> \<Longrightarrow> split_byte (join_with ls [c]) c = ls"
  by (induction ls "[c]" rule: join_with.induct)
    (auto simp: split_byte_no_sep split_byte_append)

lemma itoa_nat_digits: "list_all is_digit (itoa_nat n) \<and> itoa_nat n \<noteq> []"
proof (induction n rule: itoa_nat.induct)
  case (1 n)
  have "n mod 10 \<le> 9"
    using mod_less_divisor [of 10 n] by linarith
  with 1 show ?case
    by (simp add: itoa_nat.simps [of n] is_digit_def)
qed

lemma digits_val_append: "digits_val acc (a @ b) = digits_val (digits_val acc a) b"
  by (induction a arbitrary: acc) auto

lemma digits_val_nonneg: "\<lbrakk>list_all is_digit s; 0 \<le> acc\<rbrakk> \<Longrightarrow> 0 \<le> digits_val acc s"
proof (induction s arbitrary: acc)
  case (Cons c s)
  then have "0 \<le> acc * 10 + digit_val c" using digit_val_range [of c] by simp
  with Cons show ?case by simp
qed simp

lemma digits_val_itoa_nat: "digits_val 0 (itoa_nat n) = int n"
proof (induction n rule: itoa_nat.induct)
  case (1 n)
  show ?case
  proof (cases "n < 10")
    case True
    then show ?thesis by (simp add: itoa_nat.simps [of n] digit_val_def)
  next
    case False
    have "int (n div 10) * 10 + int (n mod 10) = int n"
      by (metis div_mult_mod_eq of_nat_add of_nat_mult of_nat_numeral)
    with False 1 show ?thesis
      by (simp add: itoa_nat.simps [of n] digits_val_append digit_val_def)
  qed
qed

lemma parse_uint_itoa: "int n < lim \<Longrightarrow> parse_uint (itoa_nat n) lim = Some (int n)"
  using itoa_nat_digits [of n] by (simp add: parse_uint_def digits_val_itoa_nat)

lemma drop_nth_Cons: "i < length s \<Longrightarrow> drop i s = s ! i # drop (Suc i) s"
  by (rule Cons_nth_drop_Suc [symmetric])

text \<open>Case analysis on a chain of conditions, for the handlers.\<close>

lemma ifE: "\<lbrakk>(if b then x else y) = z; \<lbrakk>b; x = z\<rbrakk> \<Longrightarrow> R; \<lbrakk>\<not> b; y = z\<rbrakk> \<Longrightarrow> R\<rbrakk> \<Longrightarrow> R"
  by (cases b) auto

end
