(* ===== verification/Utf8.thy ===== *)
theory Utf8
  imports Go_Prelude
begin

text \<open>
  Go's UTF-8: \<^verbatim>\<open>utf8.DecodeRune\<close>, \<^verbatim>\<open>utf8.EncodeRune\<close>, the conversions
  between \<^verbatim>\<open>string\<close> and \<^verbatim>\<open>[]rune\<close> and the range loop over a string, with their
  round trips.
\<close>

subsection \<open>Decoding and encoding one rune\<close>

definition rune_error :: rune where
  "rune_error = 65533"

definition valid_rune :: "rune \<Rightarrow> bool" where
  "valid_rune r = (r < 55296 \<or> 57343 < r \<and> r \<le> 1114111)"

text \<open>
  The lead byte's table: how many bytes the sequence has and the range of its second
  byte; a byte that starts no sequence is \<open>None\<close>.
\<close>

definition lead :: "nat \<Rightarrow> (nat \<times> nat \<times> nat) option" where
  "lead b =
     (if b < 128 then Some (1, 0, 0)
      else if 194 \<le> b \<and> b \<le> 223 then Some (2, 128, 191)
      else if b = 224 then Some (3, 160, 191)
      else if b = 237 then Some (3, 128, 159)
      else if 225 \<le> b \<and> b \<le> 239 then Some (3, 128, 191)
      else if b = 240 then Some (4, 144, 191)
      else if 241 \<le> b \<and> b \<le> 243 then Some (4, 128, 191)
      else if b = 244 then Some (4, 128, 143)
      else None)"

definition is_cont :: "nat \<Rightarrow> bool" where
  "is_cont b = (128 \<le> b \<and> b \<le> 191)"

definition decode_rune :: "string \<Rightarrow> rune \<times> nat" where
  "decode_rune s = (case map byte_of s of
     [] \<Rightarrow> (rune_error, 0)
   | b0 # bs \<Rightarrow>
      (case lead b0 of
        None \<Rightarrow> (rune_error, 1)
      | Some (n, lo, hi) \<Rightarrow>
         if n = 1 then (b0, 1)
         else if length bs + 1 < n \<or> bs ! 0 < lo \<or> hi < bs ! 0 then (rune_error, 1)
         else if n = 2 then ((b0 mod 32) * 64 + bs ! 0 mod 64, 2)
         else if \<not> is_cont (bs ! 1) then (rune_error, 1)
         else if n = 3 then ((b0 mod 16) * 4096 + (bs ! 0 mod 64) * 64 + bs ! 1 mod 64, 3)
         else if \<not> is_cont (bs ! 2) then (rune_error, 1)
         else ((b0 mod 8) * 262144 + (bs ! 0 mod 64) * 4096 + (bs ! 1 mod 64) * 64
                + bs ! 2 mod 64, 4)))"

definition encode_rune :: "rune \<Rightarrow> string" where
  "encode_rune r0 =
     (let r = (if valid_rune r0 then r0 else rune_error) in
      if r < 128 then [chr_of r]
      else if r < 2048 then [chr_of (192 + r div 64), chr_of (128 + r mod 64)]
      else if r < 65536 then
        [chr_of (224 + r div 4096), chr_of (128 + r div 64 mod 64), chr_of (128 + r mod 64)]
      else [chr_of (240 + r div 262144), chr_of (128 + r div 4096 mod 64),
            chr_of (128 + r div 64 mod 64), chr_of (128 + r mod 64)])"

lemma lead_size: "lead b = Some (n, lo, hi) \<Longrightarrow> 1 \<le> n \<and> n \<le> 4"
  by (auto simp: lead_def split: if_splits)

lemma decode_rune_size:
  assumes "s \<noteq> []"
  shows "1 \<le> snd (decode_rune s) \<and> snd (decode_rune s) \<le> length s"
proof -
  obtain c cs where s: "s = c # cs" using assms by (cases s) auto
  show ?thesis
  proof (cases "lead (byte_of c)")
    case None
    then show ?thesis by (simp add: s decode_rune_def)
  next
    case (Some t)
    obtain n lo hi where t: "t = (n, lo, hi)" by (cases t) auto
    from Some t lead_size have "1 \<le> n \<and> n \<le> 4" by blast
    then show ?thesis
      by (cases cs) (auto simp: s decode_rune_def Some t Suc_le_eq)
  qed
qed

lemma encode_rune_nonempty [simp]: "encode_rune r \<noteq> []"
  by (simp add: encode_rune_def Let_def)

lemma encode_rune_ascii: "r < 128 \<Longrightarrow> encode_rune r = [chr_of r]"
  by (simp add: encode_rune_def Let_def valid_rune_def)

lemma valid_rune_error [simp]: "valid_rune rune_error"
  by (simp add: valid_rune_def rune_error_def)

lemma decode_ascii: "byte_of c < 128 \<Longrightarrow> decode_rune (c # s) = (byte_of c, 1)"
  by (simp add: decode_rune_def lead_def)

lemma offset_mod: "(a::nat) < m \<Longrightarrow> (k * m + a) mod m = a"
  by simp

lemma lead_bits:
  "(a::nat) < 32 \<Longrightarrow> (192 + a) mod 32 = a"
  "(a::nat) < 16 \<Longrightarrow> (224 + a) mod 16 = a"
  "(a::nat) < 8 \<Longrightarrow> (240 + a) mod 8 = a"
  "(b::nat) < 64 \<Longrightarrow> (128 + b) mod 64 = b"
  using offset_mod [of a 32 6] offset_mod [of a 16 14] offset_mod [of a 8 30] offset_mod [of b 64 2]
  by simp_all

text \<open>The payload of a sequence in base 64, most significant digit first.\<close>

lemma base64_digits:
  fixes r :: nat
  obtains a b c d where "r = a * 262144 + b * 4096 + c * 64 + d" "b < 64" "c < 64" "d < 64"
    "r div 262144 = a" "r div 4096 = a * 64 + b" "r div 4096 mod 64 = b"
    "r div 64 = a * 4096 + b * 64 + c" "r div 64 mod 64 = c" "r mod 64 = d"
proof -
  let ?q = "r div 64"
  let ?p = "?q div 64"
  have p: "r div 4096 = ?p" and o: "r div 262144 = ?p div 64"
    by (simp_all add: div_mult2_eq [symmetric])
  have q: "?q = ?p * 64 + ?q mod 64" and r: "r = ?q * 64 + r mod 64"
    and pp: "?p = ?p div 64 * 64 + ?p mod 64"
    by simp_all
  show thesis
  proof (rule that [of "?p div 64" "?p mod 64" "?q mod 64" "r mod 64"])
    show "r = ?p div 64 * 262144 + ?p mod 64 * 4096 + ?q mod 64 * 64 + r mod 64"
      using q r pp by linarith
    show "?q = ?p div 64 * 4096 + ?p mod 64 * 64 + ?q mod 64"
      using q pp by linarith
  qed (use p o pp in simp_all)
qed

lemma decode_encode2:
  assumes "128 \<le> r" "r < 2048"
  shows "decode_rune (encode_rune r @ s) = (r, 2)"
proof -
  obtain a b c d where d: "r = a * 262144 + b * 4096 + c * 64 + d" "b < 64" "c < 64" "d < 64"
    "r div 64 = a * 4096 + b * 64 + c" "r mod 64 = d"
    by (rule base64_digits [of r])
  have ab: "a = 0" "b = 0" using assms d by linarith+
  with assms d have c: "c < 32" "2 \<le> c" by linarith+
  note ab = ab c
  have e: "encode_rune r = [chr_of (192 + c), chr_of (128 + d)]"
    using assms d ab by (simp add: encode_rune_def valid_rune_def)
  have "lead (192 + c) = Some (2, 128, 191)"
    using ab by (simp add: lead_def)
  then show ?thesis
    unfolding e using d ab by (simp add: decode_rune_def lead_bits)
qed

lemma decode_encode3:
  assumes "2048 \<le> r" "r < 65536" "valid_rune r"
  shows "decode_rune (encode_rune r @ s) = (r, 3)"
proof -
  obtain a b c d where d: "r = a * 262144 + b * 4096 + c * 64 + d" "b < 64" "c < 64" "d < 64"
    "r div 4096 = a * 64 + b" "r div 64 mod 64 = c" "r mod 64 = d"
    by (rule base64_digits [of r])
  have ab: "a = 0" "b < 16" using assms d by linarith+
  have lo: "b = 0 \<Longrightarrow> 32 \<le> c" using assms(1) d ab by linarith
  have hi: "b = 13 \<Longrightarrow> c < 32"
    using assms(3) d ab unfolding valid_rune_def by linarith
  have e: "encode_rune r = [chr_of (224 + b), chr_of (128 + c), chr_of (128 + d)]"
    using assms d ab by (simp add: encode_rune_def)
  obtain l h where l: "lead (224 + b) = Some (3, l, h)" and lh: "l \<le> 128 + c" "128 + c \<le> h"
    using ab(2) lo hi d(3) by (cases "b = 0"; cases "b = 13") (auto simp: lead_def)
  have "(224 + b) mod 16 = b" "(128 + c) mod 64 = c" "(128 + d) mod 64 = d"
    using d ab by (simp_all only: lead_bits)
  then show ?thesis
    unfolding e using ab d(3-4) l lh d(1) by (simp add: decode_rune_def is_cont_def)
qed

lemma decode_encode4:
  assumes "65536 \<le> r" "r \<le> 1114111"
  shows "decode_rune (encode_rune r @ s) = (r, 4)"
proof -
  obtain a b c d where d: "r = a * 262144 + b * 4096 + c * 64 + d" "b < 64" "c < 64" "d < 64"
    "r div 262144 = a" "r div 4096 mod 64 = b" "r div 64 mod 64 = c" "r mod 64 = d"
    by (rule base64_digits [of r])
  have a: "a \<le> 4" using assms d by linarith
  have lo: "a = 0 \<Longrightarrow> 16 \<le> b" and hi: "a = 4 \<Longrightarrow> b < 16" using assms d by linarith+
  have v: "valid_rune r" using assms by (simp add: valid_rune_def)
  have e: "encode_rune r
      = [chr_of (240 + a), chr_of (128 + b), chr_of (128 + c), chr_of (128 + d)]"
    using assms d v by (simp add: encode_rune_def)
  obtain l h where l: "lead (240 + a) = Some (4, l, h)" and lh: "l \<le> 128 + b" "128 + b \<le> h"
    using a lo hi d(2) by (cases "a = 0"; cases "a = 4") (auto simp: lead_def)
  have "(240 + a) mod 8 = a" "(128 + b) mod 64 = b" "(128 + c) mod 64 = c" "(128 + d) mod 64 = d"
    using d a by (simp_all only: lead_bits)
  then show ?thesis
    unfolding e using a d(2-4) l lh by (simp add: decode_rune_def is_cont_def d(1) [symmetric])
qed

text \<open>Decoding what was encoded gives the rune and its length, whatever follows.\<close>

lemma decode_encode:
  assumes "valid_rune r"
  shows "decode_rune (encode_rune r @ s) = (r, length (encode_rune r))"
proof -
  consider "r < 128" | "128 \<le> r" "r < 2048" | "2048 \<le> r" "r < 65536" | "65536 \<le> r"
    by linarith
  then show ?thesis
  proof cases
    case 1
    then show ?thesis by (simp add: encode_rune_ascii decode_ascii)
  next
    case 2
    moreover from this have "length (encode_rune r) = 2"
      by (simp add: encode_rune_def valid_rune_def)
    ultimately show ?thesis by (simp add: decode_encode2)
  next
    case 3
    with assms have "length (encode_rune r) = 3" by (simp add: encode_rune_def)
    with 3 assms show ?thesis by (simp add: decode_encode3)
  next
    case 4
    with assms have "r \<le> 1114111" "length (encode_rune r) = 4"
      by (auto simp: encode_rune_def valid_rune_def)
    with 4 show ?thesis by (simp add: decode_encode4)
  qed
qed
subsection \<open>Strings and rune slices\<close>

text \<open>\<^verbatim>\<open>[]rune(s)\<close>, and the runes a range loop over \<open>s\<close> visits.\<close>

function runes :: "string \<Rightarrow> rune list" where
  "runes s = (if s = [] then []
     else fst (decode_rune s) # runes (drop (snd (decode_rune s)) s))"
  by pat_completeness auto
termination
  by (relation "measure length") (use decode_rune_size in \<open>auto simp: Suc_le_eq\<close>)

declare runes.simps [simp del]

text \<open>\<^verbatim>\<open>string(rs)\<close>.\<close>

definition string_of_runes :: "rune list \<Rightarrow> string" where
  "string_of_runes rs = concat (map encode_rune rs)"

lemma runes_Nil [simp]: "runes [] = []"
  by (simp add: runes.simps)

lemma string_of_runes_simps [simp]:
  "string_of_runes [] = []"
  "string_of_runes (r # rs) = encode_rune r @ string_of_runes rs"
  "string_of_runes (rs @ qs) = string_of_runes rs @ string_of_runes qs"
  by (simp_all add: string_of_runes_def)

lemma runes_encode: "valid_rune r \<Longrightarrow> runes (encode_rune r @ s) = r # runes s"
  by (subst runes.simps) (simp add: decode_encode)

lemma runes_of_string_append:
  "list_all valid_rune rs \<Longrightarrow> runes (string_of_runes rs @ s) = rs @ runes s"
  by (induction rs) (simp_all add: runes_encode)

lemma runes_of_string: "list_all valid_rune rs \<Longrightarrow> runes (string_of_runes rs) = rs"
  using runes_of_string_append [of rs "[]"] by simp

lemma runes_ascii:
  "list_all (\<lambda>c. byte_of c < 128) s \<Longrightarrow> runes s = map byte_of s"
  by (induction s) (simp_all add: runes.simps [of "_ # _"] decode_ascii)

lemma lead_cases:
  assumes "lead b = Some (n, lo, hi)"
  obtains "n = 1" "b < 128"
  | "n = 2" "192 \<le> b" "b < 224"
  | "n = 3" "224 \<le> b" "b < 240" "128 \<le> lo" "hi \<le> 191" "b = 237 \<Longrightarrow> hi \<le> 159"
  | "n = 4" "240 \<le> b" "b \<le> 244" "128 \<le> lo" "hi \<le> 191" "b = 244 \<Longrightarrow> hi \<le> 143"
proof -
  consider "b < 128" | "194 \<le> b" "b \<le> 223" | "b = 224" | "225 \<le> b" "b \<le> 236" | "b = 237"
    | "b = 238" | "b = 239" | "b = 240" | "241 \<le> b" "b \<le> 243" | "b = 244"
    using assms by (simp add: lead_def split: if_splits) linarith+
  then show thesis
    using that assms by cases (simp_all add: lead_def)
qed

lemma cont_bits: "\<lbrakk>128 \<le> (y::nat); y \<le> 191\<rbrakk> \<Longrightarrow> y mod 64 = y - 128"
  using offset_mod [of "y - 128" 64 2] by simp

text \<open>Whatever the bytes, a decoded rune is one that encodes to itself.\<close>

lemma decode_rune_valid: "valid_rune (fst (decode_rune s))"
proof (cases s)
  case Nil
  then show ?thesis by (simp add: decode_rune_def)
next
  case (Cons c cs)
  let ?b = "byte_of c" and ?y = "map byte_of cs ! 0"
  show ?thesis
  proof (cases "lead ?b")
    case None
    then show ?thesis by (simp add: Cons decode_rune_def)
  next
    case (Some t)
    obtain n lo hi where t: "t = (n, lo, hi)" by (cases t) auto
    with Some have l: "lead ?b = Some (n, lo, hi)" by simp
    from l show ?thesis
    proof (cases rule: lead_cases)
      case 1
      then show ?thesis by (simp add: Cons decode_rune_def l valid_rune_def)
    next
      case 2
      have b: "?b mod 32 * 64 + z mod 64 < 2048" for z
        using mod_less_divisor [of 32 ?b] mod_less_divisor [of 64 z] by linarith
      have "valid_rune (?b mod 32 * 64 + z mod 64)" for z
        using b [of z] unfolding valid_rune_def by linarith
      with 2 show ?thesis by (simp add: Cons decode_rune_def l)
    next
      case 3
      have v: "valid_rune (?b mod 16 * 4096 + ?y mod 64 * 64 + z mod 64)"
        if y: "\<not> ?y < lo" "\<not> hi < ?y" for z
      proof -
        have "?b mod 16 = ?b - 224" using 3 offset_mod [of "?b - 224" 16 14] by simp
        moreover have "?y mod 64 = ?y - 128" using 3 y by (intro cont_bits) linarith+
        moreover have "z mod 64 < 64" by simp
        ultimately show ?thesis
          using 3 y by (cases "?b < 237"; cases "?b = 237") (simp_all add: valid_rune_def, linarith+)
      qed
      with 3 show ?thesis by (auto simp: Cons decode_rune_def l)
    next
      case 4
      have v: "valid_rune (?b mod 8 * 262144 + ?y mod 64 * 4096 + w mod 64 * 64 + z mod 64)"
        if y: "\<not> ?y < lo" "\<not> hi < ?y" and nz: "?b = 240 \<longrightarrow> 144 \<le> ?y" for w z
      proof -
        have "?b mod 8 = ?b - 240" using 4 offset_mod [of "?b - 240" 8 30] by simp
        moreover have "?y mod 64 = ?y - 128" using 4 y by (intro cont_bits) linarith+
        moreover have "z mod 64 < 64" "w mod 64 < 64" by simp_all
        ultimately show ?thesis
          using 4 y nz by (cases "?b = 240"; cases "?b = 244") (simp_all add: valid_rune_def, linarith+)
      qed
      have "?b = 240 \<longrightarrow> lo = 144" using l by (auto simp: lead_def)
      with v 4 show ?thesis by (auto simp: Cons decode_rune_def l)
    qed
  qed
qed

lemma runes_valid: "list_all valid_rune (runes s)"
proof (induction s rule: runes.induct)
  case (1 s)
  then show ?case by (simp add: runes.simps [of s] decode_rune_valid)
qed

lemma encode_rune_high: "128 \<le> r \<Longrightarrow> c \<in> set (encode_rune r) \<Longrightarrow> 128 \<le> byte_of c"
proof -
  have small: "192 + r div 64 < 256" if "r < 2048" for r :: nat using that by simp
  have mid: "224 + r div 4096 < 256" if "r < 65536" for r :: nat using that by simp
  have big: "240 + r div 262144 < 256" if "valid_rune r" for r
    using that div_le_mono [of r 1114111 262144] by (auto simp: valid_rune_def)
  have low: "128 + x mod 64 < 256" for x :: nat
    using mod_less_divisor [of 64 x] by linarith
  have err: "128 \<le> (if valid_rune r then r else rune_error)" "valid_rune (if valid_rune r then r else rune_error)"
    if "128 \<le> r" for r using that by simp (simp add: rune_error_def, simp)
  assume "128 \<le> r" "c \<in> set (encode_rune r)"
  with err [OF this(1)] small mid big low show ?thesis
    unfolding encode_rune_def Let_def by (auto split: if_splits)
qed

end
