(* ===== verification/Regexp_Lib.thy ===== *)
theory Regexp_Lib
  imports Utf8
begin

text \<open>
  The interface through which the code uses Go's package \<^verbatim>\<open>regexp\<close> and the tables of
  package \<^verbatim>\<open>unicode\<close>. Neither is under \<^verbatim>\<open>src/\<close>: the definitions that use them take
  them as the argument \<open>L\<close> of type \<open>'re go_lib\<close>, and what they rely on is the locale
  \<open>go_regexp\<close>: the matches of \<^verbatim>\<open>FindAllStringSubmatchIndex\<close> lie inside the text, in
  order and without overlap, as the package's documentation says. The second half of the
  theory is an engine for the syntax the code emits (literals, classes, groups, alternation,
  repetition, anchors), on which the locale is interpreted and the witnesses evaluate.
\<close>

subsection \<open>The interface\<close>

text \<open>
  A match is the list of its groups' byte ranges, the whole match first; a group that took
  no part is \<open>None\<close> (Go's pair of -1).
\<close>

type_synonym gomatch = "(nat \<times> nat) option list"

record 're go_lib =
  lib_compile :: "string \<Rightarrow> string + 're"
  lib_find_all :: "'re \<Rightarrow> string \<Rightarrow> gomatch list"
  lib_upper :: "rune \<Rightarrow> rune"
  lib_lower :: "rune \<Rightarrow> rune"

text \<open>\<^verbatim>\<open>MatchString\<close>: there is a match.\<close>

definition match_string :: "'re go_lib \<Rightarrow> 're \<Rightarrow> string \<Rightarrow> bool" where
  "match_string L re s = (lib_find_all L re s \<noteq> [])"

definition group_ok :: "nat \<Rightarrow> (nat \<times> nat) option \<Rightarrow> bool" where
  "group_ok n g = (case g of None \<Rightarrow> True | Some (a, b) \<Rightarrow> a \<le> b \<and> b \<le> n)"

fun matches_from :: "nat \<Rightarrow> nat \<Rightarrow> gomatch list \<Rightarrow> bool" where
  "matches_from n p [] = True"
| "matches_from n p (m # ms) =
     (case m of
        Some (a, b) # gs \<Rightarrow>
          p \<le> a \<and> a \<le> b \<and> b \<le> n \<and> list_all (group_ok n) gs \<and> matches_from n b ms
      | _ \<Rightarrow> False)"

lemma matches_from_mono: "matches_from n p ms \<Longrightarrow> q \<le> p \<Longrightarrow> matches_from n q ms"
  by (cases ms) (auto split: list.splits option.splits)

text \<open>\<^verbatim>\<open>regexp.QuoteMeta\<close>.\<close>

definition is_meta :: "char \<Rightarrow> bool" where
  "is_meta c = (c = CHR 0x5C \<or> c \<in> set ''.+*?()|[]{}^$'')"

definition quote_meta :: "string \<Rightarrow> string" where
  "quote_meta s = concat (map (\<lambda>c. if is_meta c then [CHR 0x5C, c] else [c]) s)"

locale go_regexp =
  fixes L :: "'re go_lib"
  assumes find_all_ok: "matches_from (length s) 0 (lib_find_all L re s)"
begin

lemma find_all_head:
  assumes "lib_find_all L re s = m # ms"
  shows "\<exists>a b gs. m = Some (a, b) # gs \<and> a \<le> b \<and> b \<le> length s"
  using find_all_ok [of s re] assms by (auto split: list.splits option.splits)

lemma find_all_groups:
  assumes "m \<in> set (lib_find_all L re s)" "Some (a, b) \<in> set m"
  shows "a \<le> b \<and> b \<le> length s"
proof -
  have "\<lbrakk>matches_from n p ms; m \<in> set ms; Some (a, b) \<in> set m\<rbrakk> \<Longrightarrow> a \<le> b \<and> b \<le> n"
    for n p ms
    by (induction n p ms rule: matches_from.induct)
      (auto simp: list_all_iff group_ok_def split: list.splits option.splits)
  then show ?thesis using find_all_ok assms by blast
qed

end

subsection \<open>An engine: syntax trees and their matches in order of preference\<close>

datatype rx =
    RSet "(rune \<times> rune) list" bool bool \<comment> \<open>ranges, negated, ignoring case\<close>
  | RBegin | REnd | RLineBegin | RLineEnd | RWord bool
  | REmpty
  | RCat rx rx
  | RAlt rx rx
  | RRep rx nat "nat option" bool \<comment> \<open>least, most, greedy\<close>
  | RGroup nat rx

definition ascii_swap :: "rune \<Rightarrow> rune" where
  "ascii_swap r =
     (if 65 \<le> r \<and> r \<le> 90 then r + 32 else if 97 \<le> r \<and> r \<le> 122 then r - 32 else r)"

definition in_ranges :: "(rune \<times> rune) list \<Rightarrow> rune \<Rightarrow> bool" where
  "in_ranges rs r = list_ex (\<lambda>(a, b). a \<le> r \<and> r \<le> b) rs"

definition is_word :: "rune \<Rightarrow> bool" where
  "is_word r = in_ranges [(48, 57), (65, 90), (95, 95), (97, 122)] r"

definition word_at :: "string \<Rightarrow> nat \<Rightarrow> bool" where
  "word_at s p = (p < length s \<and> is_word (byte_of (s ! p)))"

definition word_boundary :: "string \<Rightarrow> nat \<Rightarrow> bool" where
  "word_boundary s p = ((0 < p \<and> word_at s (p - 1)) \<noteq> word_at s p)"

text \<open>
  \<open>rep_iter\<close> iterates a matcher; an iteration past the least number that consumes nothing
  is not taken, so the fuel, the bytes left and the least number, is never the reason it stops.
\<close>

type_synonym rstate = "nat \<times> gomatch"

fun rep_iter ::
  "(rstate \<Rightarrow> rstate list) \<Rightarrow> nat \<Rightarrow> nat \<Rightarrow> nat option \<Rightarrow> bool \<Rightarrow> rstate \<Rightarrow> rstate list" where
  "rep_iter m 0 lo hi greedy st = (if lo = 0 then [st] else [])"
| "rep_iter m (Suc f) lo hi greedy st =
     (let more = (if hi = Some 0 then [] else concat (map (\<lambda>st'.
         if lo = 0 \<and> fst st' \<le> fst st then []
         else rep_iter m f (lo - 1) (map_option (\<lambda>h. h - 1) hi) greedy st') (m st)))
      in if 0 < lo then more else if greedy then more @ [st] else st # more)"

primrec rx_match :: "rx \<Rightarrow> string \<Rightarrow> rstate \<Rightarrow> rstate list" where
  "rx_match (RSet rs neg ic) s st =
     (if fst st < length s then
        (let d = decode_rune (drop (fst st) s) in
         if (in_ranges rs (fst d) \<or> ic \<and> in_ranges rs (ascii_swap (fst d))) \<noteq> neg
         then [(fst st + snd d, snd st)] else [])
      else [])"
| "rx_match RBegin s st = (if fst st = 0 then [st] else [])"
| "rx_match REnd s st = (if fst st = length s then [st] else [])"
| "rx_match RLineBegin s st =
     (if fst st = 0 \<or> s ! (fst st - 1) = CHR 0x0A then [st] else [])"
| "rx_match RLineEnd s st =
     (if fst st = length s \<or> s ! fst st = CHR 0x0A then [st] else [])"
| "rx_match (RWord b) s st = (if word_boundary s (fst st) = b then [st] else [])"
| "rx_match REmpty s st = [st]"
| "rx_match (RCat a b) s st = concat (map (rx_match b s) (rx_match a s st))"
| "rx_match (RAlt a b) s st = rx_match a s st @ rx_match b s st"
| "rx_match (RRep a lo hi greedy) s st =
     rep_iter (rx_match a s) (Suc (lo + length s)) lo hi greedy st"
| "rx_match (RGroup n a) s st =
     map (\<lambda>(q, c). (q, c[n := Some (fst st, q)])) (rx_match a s st)"

text \<open>The leftmost match at or after \<open>p\<close>, preferred as the syntax orders it.\<close>

function find_from :: "rx \<Rightarrow> nat \<Rightarrow> string \<Rightarrow> nat \<Rightarrow> gomatch option" where
  "find_from r n s p =
     (case rx_match r s (p, replicate (Suc n) None) of
        (q, c) # _ \<Rightarrow> Some (c[0 := Some (p, q)])
      | [] \<Rightarrow>
         if length s \<le> p then None
         else find_from r n s (p + max 1 (snd (decode_rune (drop p s)))))"
  by pat_completeness auto
termination
  by (relation "measure (\<lambda>(r, n, s, p). length s - p)") auto

declare find_from.simps [simp del]

text \<open>
  \<^verbatim>\<open>FindAll\<close>: a match that is empty and touches the one before is skipped, and after an
  empty match the search moves one rune on.
\<close>

function find_all_from :: "rx \<Rightarrow> nat \<Rightarrow> string \<Rightarrow> nat \<Rightarrow> nat option \<Rightarrow> gomatch list" where
  "find_all_from r n s pos prev =
     (if length s < pos then [] else
      (case find_from r n s pos of
         Some (Some (a, b) # gs) \<Rightarrow>
           (let rest = find_all_from r n s
                  (if b = pos then pos + max 1 (snd (decode_rune (drop pos s)))
                   else max (Suc pos) b) (Some b)
            in if b = pos \<and> prev = Some a then rest else (Some (a, b) # gs) # rest)
       | _ \<Rightarrow> []))"
  by pat_completeness auto
termination
  by (relation "measure (\<lambda>(r, n, s, pos, prev). Suc (length s) - pos)") auto

declare find_all_from.simps [simp del]

definition rx_find_all :: "rx \<times> nat \<Rightarrow> string \<Rightarrow> gomatch list" where
  "rx_find_all re s = find_all_from (fst re) (snd re) s 0 None"

subsection \<open>The engine keeps the interface's promise\<close>

definition st_ok :: "string \<Rightarrow> nat \<Rightarrow> rstate \<Rightarrow> bool" where
  "st_ok s p st =
     (p \<le> fst st \<and> fst st \<le> length s \<and> list_all (group_ok (length s)) (snd st))"

lemma st_ok_mono: "\<lbrakk>st_ok s q st; p \<le> q\<rbrakk> \<Longrightarrow> st_ok s p st"
  by (auto simp: st_ok_def)

lemma st_ok_self: "st_ok s p st \<Longrightarrow> st_ok s (fst st) st"
  by (auto simp: st_ok_def)

lemma st_ok_trans: "\<lbrakk>st_ok s p st; st_ok s (fst st) st'\<rbrakk> \<Longrightarrow> st_ok s p st'"
  by (auto simp: st_ok_def)

lemma rep_iter_step:
  assumes "st' \<in> set (rep_iter m (Suc f) lo hi g st)" "st' \<noteq> st"
  obtains st1 where "st1 \<in> set (m st)" "hi \<noteq> Some 0" "\<not> (lo = 0 \<and> fst st1 \<le> fst st)"
    "st' \<in> set (rep_iter m f (lo - 1) (map_option (\<lambda>h. h - 1) hi) g st1)"
  using assms by (auto simp: Let_def split: if_splits)

text \<open>A reflexive and transitive relation between states that the matcher keeps, iteration keeps.\<close>

lemma rep_iter_induct:
  assumes m: "\<And>st st'. \<lbrakk>P st st; st' \<in> set (m st)\<rbrakk> \<Longrightarrow> P st st'"
    and self: "\<And>st st'. P st st' \<Longrightarrow> P st' st'"
    and trans: "\<And>st st1 st'. \<lbrakk>P st st1; P st1 st'\<rbrakk> \<Longrightarrow> P st st'"
  shows "\<lbrakk>P st st; st' \<in> set (rep_iter m f lo hi g st)\<rbrakk> \<Longrightarrow> P st st'"
proof (induction f arbitrary: lo hi st)
  case 0
  then show ?case by (simp split: if_splits)
next
  case (Suc f)
  show ?case
  proof (cases "st' = st")
    case True
    with Suc.prems show ?thesis by simp
  next
    case False
    with Suc.prems(2) obtain st1 where st1: "st1 \<in> set (m st)"
      and st': "st' \<in> set (rep_iter m f (lo - 1) (map_option (\<lambda>h. h - 1) hi) g st1)"
      by (rule rep_iter_step)
    have "P st st1" by (rule m [OF Suc.prems(1) st1])
    moreover have "P st1 st'" by (rule Suc.IH [OF self [OF calculation] st'])
    ultimately show ?thesis by (rule trans)
  qed
qed

lemma list_all_update: "\<lbrakk>list_all P xs; P x\<rbrakk> \<Longrightarrow> list_all P (xs[n := x])"
  using set_update_subset_insert [of xs n x] by (auto simp: list_all_iff)

lemma rx_match_ok:
  "\<lbrakk>st_ok s (fst st) st; st' \<in> set (rx_match r s st)\<rbrakk> \<Longrightarrow> st_ok s (fst st) st'"
proof (induction r arbitrary: st st')
  case (RSet rs neg ic)
  have "snd (decode_rune (drop (fst st) s)) \<le> length s - fst st" if "fst st < length s"
    using that decode_rune_size [of "drop (fst st) s"] by simp
  with RSet show ?case
    by (auto simp: st_ok_def Let_def split: if_splits)
next
  case (RCat a b)
  from RCat.prems(2) obtain st1
    where a: "st1 \<in> set (rx_match a s st)" and b: "st' \<in> set (rx_match b s st1)"
    by auto
  have ok1: "st_ok s (fst st) st1" by (rule RCat.IH(1) [OF RCat.prems(1) a])
  have "st_ok s (fst st1) st'" by (rule RCat.IH(2) [OF st_ok_self [OF ok1] b])
  with ok1 show ?case by (auto simp: st_ok_def)
next
  case (RRep r lo hi g)
  from RRep.prems(2) have it: "st' \<in> set (rep_iter (rx_match r s) (Suc (lo + length s)) lo hi g st)"
    by (simp only: rx_match.simps)
  show ?case
  proof (rule rep_iter_induct [where P = "\<lambda>st st'. st_ok s (fst st) st'", OF _ _ _ RRep.prems(1) it])
    show "\<And>st st'. st_ok s (fst st) st \<Longrightarrow> st' \<in> set (rx_match r s st) \<Longrightarrow> st_ok s (fst st) st'"
      by (rule RRep.IH)
    show "\<And>st st'. st_ok s (fst st) st' \<Longrightarrow> st_ok s (fst st') st'"
      by (rule st_ok_self)
    show "\<And>st st1 st'. st_ok s (fst st) st1 \<Longrightarrow> st_ok s (fst st1) st' \<Longrightarrow> st_ok s (fst st) st'"
      by (rule st_ok_trans)
  qed
next
  case (RGroup n r)
  from RGroup.prems(2) obtain q c
    where qc: "(q, c) \<in> set (rx_match r s st)" "st' = (q, c[n := Some (fst st, q)])"
    by auto
  with RGroup.IH [OF RGroup.prems(1) qc(1)] show ?case
    by (auto simp: st_ok_def group_ok_def intro!: list_all_update)
next
  case (RAlt a b)
  from RAlt.prems(2) have "st' \<in> set (rx_match a s st) \<or> st' \<in> set (rx_match b s st)" by simp
  with RAlt.IH RAlt.prems(1) show ?case by blast
qed (simp_all split: if_splits)

lemma rx_match_length:
  "(q, c) \<in> set (rx_match r s (p, c0)) \<Longrightarrow> length c = length c0"
proof -
  have "st' \<in> set (rx_match r s st) \<Longrightarrow> length (snd st') = length (snd st)" for st st'
  proof (induction r arbitrary: st st')
    case (RRep r lo hi g)
    have "st' \<in> set (rep_iter (rx_match r s) (Suc (lo + length s)) lo hi g st)"
      using RRep.prems by (simp only: rx_match.simps)
    then show ?case
      by (rule rep_iter_induct [where P = "\<lambda>st st'. length (snd st') = length (snd st)", rotated 4])
        (use RRep.IH in auto)
  qed (auto simp: Let_def split: if_splits)
  then show "(q, c) \<in> set (rx_match r s (p, c0)) \<Longrightarrow> length c = length c0" by fastforce
qed

lemma find_from_ok:
  "\<lbrakk>find_from r n s p = Some m; p \<le> length s\<rbrakk> \<Longrightarrow>
   \<exists>a b gs. m = Some (a, b) # gs \<and> p \<le> a \<and> a \<le> b \<and> b \<le> length s \<and>
     list_all (group_ok (length s)) gs"
proof (induction r n s p rule: find_from.induct)
  case (1 r n s p)
  let ?st = "(p, replicate (Suc n) None) :: rstate"
  have ok0: "st_ok s (fst ?st) ?st"
    using "1.prems"(2) by (auto simp: st_ok_def list_all_length group_ok_def nth_Cons split: nat.split)
  show ?case
  proof (cases "rx_match r s ?st")
    case Nil
    with "1.prems" have lt: "p < length s"
      by (simp add: find_from.simps [of r n s p] split: if_splits)
    let ?p = "p + max 1 (snd (decode_rune (drop p s)))"
    have "?p \<le> length s"
      using lt decode_rune_size [of "drop p s"] by auto
    moreover have "find_from r n s ?p = Some m"
      using "1.prems"(1) Nil lt by (simp add: find_from.simps [of r n s p])
    ultimately obtain a b gs where "m = Some (a, b) # gs" "?p \<le> a" "a \<le> b" "b \<le> length s"
        "list_all (group_ok (length s)) gs"
      using "1.IH" [OF Nil] lt by (meson linorder_not_le)
    moreover from this have "p \<le> a" by linarith
    ultimately show ?thesis by blast
  next
    case (Cons st' sts)
    obtain q c where st': "st' = (q, c)" by (cases st')
    have "st' \<in> set (rx_match r s ?st)" using Cons by simp
    from rx_match_ok [OF ok0 this] st' have ok: "p \<le> q" "q \<le> length s"
      "list_all (group_ok (length s)) c" by (auto simp: st_ok_def)
    have "length c = Suc n"
      using rx_match_length [of q c r s p] Cons st' by (metis length_replicate list.set_intros(1))
    then obtain c0 gs where c: "c = c0 # gs" by (cases c) auto
    have "m = c[0 := Some (p, q)]"
      using "1.prems"(1) Cons st' by (simp add: find_from.simps [of r n s p])
    with c ok show ?thesis by auto
  qed
qed

lemma find_all_from_ok:
  "p \<le> pos \<Longrightarrow> matches_from (length s) p (find_all_from r n s pos prev)"
proof (induction r n s pos prev arbitrary: p rule: find_all_from.induct)
  case (1 r n s pos prev)
  show ?case
  proof (cases "pos \<le> length s \<and> find_from r n s pos \<noteq> None")
    case False
    then show ?thesis by (auto simp: find_all_from.simps [of r n s pos prev])
  next
    case True
    then obtain m where m: "find_from r n s pos = Some m" by auto
    with find_from_ok [OF m] True obtain a b gs where ab: "m = Some (a, b) # gs" "pos \<le> a"
      "a \<le> b" "b \<le> length s" "list_all (group_ok (length s)) gs" by auto
    let ?pos = "if b = pos then pos + max 1 (snd (decode_rune (drop pos s))) else max (Suc pos) b"
    have "b \<le> ?pos" by simp
    moreover have "\<not> length s < pos" using True by simp
    ultimately have "matches_from (length s) b (find_all_from r n s ?pos (Some b))"
      using m ab by (intro "1.IH") auto
    moreover from this have "matches_from (length s) p (find_all_from r n s ?pos (Some b))"
      using ab(2,3) "1.prems" by (elim matches_from_mono) linarith
    moreover have "p \<le> a" using "1.prems" ab(2) by linarith
    moreover have "find_all_from r n s pos prev =
        (if b = pos \<and> prev = Some a then find_all_from r n s ?pos (Some b)
         else (Some (a, b) # gs) # find_all_from r n s ?pos (Some b))"
      using m ab(1) True by (subst find_all_from.simps) (simp add: Let_def)
    ultimately show ?thesis using ab(3,4,5)
      by (cases "b = pos \<and> prev = Some a")
        (simp_all only: matches_from.simps list.case option.case prod.case simp_thms if_True if_False)
  qed
qed

subsection \<open>Reading the syntax\<close>

text \<open>
  A recursive-descent reader of RE2 syntax. Each call spends fuel and the fuel given is
  three times the pattern's length, more than the calls a pattern can make. What it does
  not read (named groups, Unicode classes, flags inside the pattern) is an error.
\<close>

record rx_flags =
  fl_icase :: bool
  fl_multi :: bool

definition posix_class :: "string \<Rightarrow> (rune \<times> rune) list option" where
  "posix_class n = map_of
    [(''alpha'', [(65, 90), (97, 122)]), (''digit'', [(48, 57)]), (''lower'', [(97, 122)]),
     (''upper'', [(65, 90)]), (''alnum'', [(48, 57), (65, 90), (97, 122)]),
     (''space'', [(9, 13), (32, 32)]), (''blank'', [(9, 9), (32, 32)]),
     (''punct'', [(33, 47), (58, 64), (91, 96), (123, 126)]),
     (''xdigit'', [(48, 57), (65, 70), (97, 102)]), (''word'', [(48, 57), (65, 90), (95, 95), (97, 122)]),
     (''cntrl'', [(0, 31), (127, 127)]), (''print'', [(32, 126)]), (''graph'', [(33, 126)])] n"

definition escape_rune :: "char \<Rightarrow> rune option" where
  "escape_rune c =
     (if c = CHR ''n'' then Some 10 else if c = CHR ''t'' then Some 9
      else if c = CHR ''a'' then Some 7 else if c = CHR ''f'' then Some 12
      else if c = CHR ''v'' then Some 11 else if c = CHR ''r'' then Some 13
      else if byte_of c < 128 \<and> \<not> is_word (byte_of c) then Some (byte_of c)
      else None)"

definition perl_class :: "char \<Rightarrow> ((rune \<times> rune) list \<times> bool) option" where
  "perl_class c =
     (if c = CHR ''d'' then Some ([(48, 57)], False) else if c = CHR ''D'' then Some ([(48, 57)], True)
      else if c = CHR ''s'' then Some ([(9, 10), (12, 13), (32, 32)], False)
      else if c = CHR ''S'' then Some ([(9, 10), (12, 13), (32, 32)], True)
      else if c = CHR ''w'' then Some ([(48, 57), (65, 90), (95, 95), (97, 122)], False)
      else if c = CHR ''W'' then Some ([(48, 57), (65, 90), (95, 95), (97, 122)], True)
      else None)"

definition class_rune :: "string \<Rightarrow> (rune \<times> string) option" where
  "class_rune s = (case s of
     [] \<Rightarrow> None
   | c # cs \<Rightarrow>
      if c = CHR 0x5C then
        (case cs of [] \<Rightarrow> None | e # es \<Rightarrow> map_option (\<lambda>r. (r, es)) (escape_rune e))
      else Some (fst (decode_rune s), drop (snd (decode_rune s)) s))"

fun class_items :: "nat \<Rightarrow> string \<Rightarrow> (rune \<times> rune) list \<Rightarrow> ((rune \<times> rune) list \<times> string) option" where
  "class_items 0 s acc = None"
| "class_items (Suc f) s acc =
     (if s = [] then None
      else if hd s = CHR '']'' \<and> acc \<noteq> [] then Some (acc, tl s)
      else if has_prefix s ''[:'' then
        (case index_of (drop 2 s) '':]'' of
           None \<Rightarrow> None
         | Some i \<Rightarrow> (case posix_class (take i (drop 2 s)) of
              None \<Rightarrow> None
            | Some rs \<Rightarrow> class_items f (drop (i + 4) s) (rs @ acc)))
      else (case class_rune s of
         None \<Rightarrow> None
       | Some (lo, s1) \<Rightarrow>
          if has_prefix s1 ''-'' \<and> s1 \<noteq> ''-'' \<and> s1 ! 1 \<noteq> CHR '']'' then
            (case class_rune (tl s1) of
               Some (hi, s2) \<Rightarrow> if hi < lo then None else class_items f s2 ((lo, hi) # acc)
             | None \<Rightarrow> None)
          else class_items f s1 ((lo, lo) # acc)))"

fun take_count :: "string \<Rightarrow> (nat \<times> nat option \<times> string) option" where
  "take_count s =
     (let d1 = takeWhile is_digit s; s1 = dropWhile is_digit s in
      if d1 = [] then None
      else if has_prefix s1 ''}'' then
        Some (nat (digits_val 0 d1), Some (nat (digits_val 0 d1)), tl s1)
      else if has_prefix s1 '','' then
        (let d2 = takeWhile is_digit (tl s1); s2 = dropWhile is_digit (tl s1) in
         if \<not> has_prefix s2 ''}'' then None
         else Some (nat (digits_val 0 d1),
                    if d2 = [] then None else Some (nat (digits_val 0 d2)), tl s2))
      else None)"

definition quantifier :: "string \<Rightarrow> (nat \<times> nat option \<times> string) option" where
  "quantifier s = (case s of
     [] \<Rightarrow> None
   | c # cs \<Rightarrow>
      if c = CHR ''*'' then Some (0, None, cs)
      else if c = CHR ''+'' then Some (1, None, cs)
      else if c = CHR ''?'' then Some (0, Some 1, cs)
      else if c = CHR ''{'' then take_count cs
      else None)"

definition quantified :: "rx \<Rightarrow> string \<Rightarrow> string + rx \<times> string" where
  "quantified a s = (case quantifier s of
     None \<Rightarrow> Inr (a, s)
   | Some (lo, hi, s1) \<Rightarrow>
      let greedy = (\<not> has_prefix s1 ''?''); s2 = (if greedy then s1 else tl s1) in
      if quantifier s2 \<noteq> None then Inl ''invalid nested repetition operator''
      else if lo > 1000 \<or> (case hi of Some h \<Rightarrow> h > 1000 \<or> h < lo | None \<Rightarrow> False)
      then Inl ''invalid repeat count''
      else Inr (RRep a lo hi greedy, s2))"

fun re_alt :: "nat \<Rightarrow> rx_flags \<Rightarrow> nat \<Rightarrow> string \<Rightarrow> string + rx \<times> nat \<times> string"
and re_seq :: "nat \<Rightarrow> rx_flags \<Rightarrow> nat \<Rightarrow> string \<Rightarrow> string + rx \<times> nat \<times> string"
and re_atom :: "nat \<Rightarrow> rx_flags \<Rightarrow> nat \<Rightarrow> string \<Rightarrow> string + rx \<times> nat \<times> string" where
  "re_alt 0 fl n s = Inl ''out of fuel''"
| "re_alt (Suc f) fl n s = (case re_seq f fl n s of
     Inl e \<Rightarrow> Inl e
   | Inr (a, n1, s1) \<Rightarrow>
      if has_prefix s1 ''|'' then
        (case re_alt f fl n1 (tl s1) of
           Inl e \<Rightarrow> Inl e
         | Inr (b, n2, s2) \<Rightarrow> Inr (RAlt a b, n2, s2))
      else Inr (a, n1, s1))"
| "re_seq 0 fl n s = Inl ''out of fuel''"
| "re_seq (Suc f) fl n s =
     (if s = [] \<or> hd s \<in> set ''|)'' then Inr (REmpty, n, s)
      else (case re_atom f fl n s of
        Inl e \<Rightarrow> Inl e
      | Inr (a, n1, s1) \<Rightarrow> (case quantified a s1 of
          Inl e \<Rightarrow> Inl e
        | Inr (q, s2) \<Rightarrow> (case re_seq f fl n1 s2 of
            Inl e \<Rightarrow> Inl e
          | Inr (b, n2, s3) \<Rightarrow> Inr (RCat q b, n2, s3)))))"
| "re_atom 0 fl n s = Inl ''out of fuel''"
| "re_atom (Suc f) fl n s = (case s of
     [] \<Rightarrow> Inl ''missing atom''
   | c # cs \<Rightarrow>
      if c = CHR ''('' then
        (if has_prefix cs ''?'' \<and> \<not> has_prefix cs ''?:'' then Inl ''unsupported group''
         else
          (let cap = (\<not> has_prefix cs ''?:'') in
           case re_alt f fl (if cap then Suc n else n) (if cap then cs else drop 2 cs) of
             Inl e \<Rightarrow> Inl e
           | Inr (a, n1, s1) \<Rightarrow>
              if has_prefix s1 '')'' then Inr (if cap then RGroup (Suc n) a else a, n1, tl s1)
              else Inl ''missing closing )''))
      else if c \<in> set ''*+?'' then Inl ''missing argument to repetition operator''
      else if c = CHR ''.'' then Inr (RSet [] True False, n, cs)
      else if c = CHR ''^'' then Inr (if fl_multi fl then RLineBegin else RBegin, n, cs)
      else if c = CHR ''$'' then Inr (if fl_multi fl then RLineEnd else REnd, n, cs)
      else if c = CHR ''['' then
        (let neg = has_prefix cs ''^'' in
         case class_items (length cs) (if neg then tl cs else cs) [] of
           None \<Rightarrow> Inl ''bad character class''
         | Some (rs, s1) \<Rightarrow> Inr (RSet rs neg (fl_icase fl), n, s1))
      else if c = CHR 0x5C then
        (case cs of
           [] \<Rightarrow> Inl ''trailing backslash''
         | e # es \<Rightarrow>
            if e = CHR ''A'' then Inr (RBegin, n, es)
            else if e = CHR ''z'' then Inr (REnd, n, es)
            else if e = CHR ''b'' then Inr (RWord True, n, es)
            else if e = CHR ''B'' then Inr (RWord False, n, es)
            else (case perl_class e of
                Some (rs, neg) \<Rightarrow> Inr (RSet rs neg False, n, es)
              | None \<Rightarrow> (case escape_rune e of
                  Some r \<Rightarrow> Inr (RSet [(r, r)] False (fl_icase fl), n, es)
                | None \<Rightarrow> Inl ''invalid escape sequence'')))
      else
        (let (r, w) = decode_rune s in
         if r = rune_error \<and> w = 1 then Inl ''invalid UTF-8''
         else Inr (RSet [(r, r)] False (fl_icase fl), n, drop w s)))"

definition rx_compile :: "string \<Rightarrow> string + rx \<times> nat" where
  "rx_compile p =
     (let hasf = has_prefix p ''(?''; i = index_byte p (CHR '')'') in
      case (if hasf then i else None) of
        None \<Rightarrow> Inl ''missing flags''
      | Some k \<Rightarrow>
         (let fs = drop 2 (take k p); body = drop (Suc k) p;
              fl = \<lparr>fl_icase = CHR ''i'' \<in> set fs, fl_multi = CHR ''m'' \<in> set fs\<rparr> in
          case re_alt (Suc (3 * length body)) fl 0 body of
            Inl e \<Rightarrow> Inl e
          | Inr (r, n, rest) \<Rightarrow>
             if rest = [] then Inr (r, n) else Inl ''unexpected )''))"

definition rx_lib :: "(rx \<times> nat) go_lib" where
  "rx_lib = \<lparr>lib_compile = rx_compile, lib_find_all = rx_find_all,
     lib_upper = (\<lambda>r. if 97 \<le> r \<and> r \<le> 122 then r - 32 else r),
     lib_lower = (\<lambda>r. if 65 \<le> r \<and> r \<le> 90 then r + 32 else r)\<rparr>"

interpretation rxlib: go_regexp rx_lib
  by unfold_locales (simp add: rx_lib_def rx_find_all_def find_all_from_ok)

end
