(* ===== verification/Sed_Regex.thy ===== *)
theory Sed_Regex
  imports Regexp_Lib
begin

text \<open>
  The regular expressions of the sed package, \<^verbatim>\<open>src/shell/sed/regex.go\<close>: \<open>translate\<close> and
  \<open>bracket\<close> turn a POSIX basic or extended expression into RE2 syntax and \<open>compile_regex\<close>
  gives the result to the library. A position in the source is the list of bytes left, the
  builder is the list of bytes returned. The lemmas show that what comes out keeps its
  escapes whole, that an expression without operators comes out as its literal, and that
  groups are neither lost nor gained, so \<^verbatim>\<open>\1\<close> in a replacement names the group the
  script's author counted.
\<close>

text \<open>
  The package's errors: one that the parser places at a character, one without a place, the
  duplicate label (printed with \<^verbatim>\<open>%q\<close>) and one of package \<^verbatim>\<open>regexp\<close>.
\<close>

datatype sed_error =
    Msg string
  | At nat string
  | Duplicate_Label string
  | Rx_Error string

definition emit_to :: "'a list \<Rightarrow> 'e + 'a list \<Rightarrow> 'e + 'a list" where
  "emit_to out r = (case r of Inl e \<Rightarrow> Inl e | Inr t \<Rightarrow> Inr (out @ t))"

lemma emit_to_simps [simp]:
  "emit_to out (Inl e) = Inl e"
  "emit_to out (Inr t) = Inr (out @ t)"
  by (simp_all add: emit_to_def)

lemma emit_to_Inr: "emit_to out r = Inr t \<longleftrightarrow> (\<exists>u. r = Inr u \<and> t = out @ u)"
  by (cases r) auto

definition emit_fst :: "'a list \<Rightarrow> 'e + 'a list \<times> 'b \<Rightarrow> 'e + 'a list \<times> 'b" where
  "emit_fst out r = (case r of Inl e \<Rightarrow> Inl e | Inr (t, x) \<Rightarrow> Inr (out @ t, x))"

lemma emit_fst_simps [simp]:
  "emit_fst out (Inl e) = Inl e"
  "emit_fst out (Inr (t, x)) = Inr (out @ t, x)"
  by (simp_all add: emit_fst_def)

lemma emit_fst_Inr: "emit_fst out r = Inr (t, x) \<longleftrightarrow> (\<exists>u. r = Inr (u, x) \<and> t = out @ u)"
  by (cases r) auto

subsection \<open>Bracket expressions\<close>

text \<open>
  The loop of \<^verbatim>\<open>bracket\<close>, from the character after the opening and its \<open>^\<close> and \<open>]\<close>:
  what it writes and what is left after the closing \<open>]\<close>.
\<close>

function bracket_items :: "string \<Rightarrow> sed_error + string \<times> string" where
  "bracket_items [] = Inl (Msg ''unterminated address regex'')"
| "bracket_items (c # s) =
     (if c = CHR '']'' then Inr ('']'', s)
      else if c = CHR ''['' then
        (if has_prefix s '':'' then
           (case index_of (tl s) '':]'' of
              None \<Rightarrow> Inl (Msg ''unterminated character class'')
            | Some e \<Rightarrow> emit_fst (take (e + 4) (c # s)) (bracket_items (drop (e + 3) s)))
         else if has_prefix s ''.'' \<or> has_prefix s ''='' then
           Inl (Msg ''collating elements and equivalence classes are not supported'')
         else emit_fst [CHR 0x5C, c] (bracket_items s))
      else if c = CHR 0x5C then
        (case s of
           [] \<Rightarrow> emit_fst [c, c] (bracket_items s)
         | d # s' \<Rightarrow>
            if d = CHR ''n'' then emit_fst [c, CHR ''n''] (bracket_items s')
            else if d = CHR ''t'' then emit_fst [c, CHR ''t''] (bracket_items s')
            else if d = CHR '']'' then Inr ([c, c, CHR '']''], s')
            else if d = c then emit_fst [c, c] (bracket_items s')
            else emit_fst [c, c] (bracket_items s))
      else emit_fst [c] (bracket_items s))"
  by pat_completeness auto
termination by (relation "measure length") auto

definition bracket_open :: "string \<Rightarrow> string \<times> string" where
  "bracket_open s =
     (let (b1, s1) = (if has_prefix s ''^'' then (''^'', tl s) else ([], s));
          (b2, s2) = (if has_prefix s1 '']'' then ([CHR 0x5C, CHR '']''], tl s1) else ([], s1))
      in (CHR ''['' # b1 @ b2, s2))"

definition bracket :: "string \<Rightarrow> sed_error + string \<times> string" where
  "bracket s = (let (b, s') = bracket_open s in emit_fst b (bracket_items s'))"

declare bracket_items.simps(2) [simp del]

lemma bracket_items_shorter:
  "bracket_items s = Inr (out, rest) \<Longrightarrow> length rest < length s"
proof (induction s arbitrary: out rule: measure_induct_rule [where f = length])
  case (less s)
  show ?case
  proof (cases s)
    case Nil
    with less.prems show ?thesis by simp
  next
    case (Cons c t)
    have IH: "length rest < length u" if "bracket_items u = Inr (o', rest)" "length u \<le> length t" for o' u
      using less.IH [OF _ that(1)] that(2) Cons by simp
    from less.prems show ?thesis
      unfolding Cons bracket_items.simps(2) [of c t]
      by (auto simp: emit_fst_Inr split: if_splits option.splits list.splits dest!: IH)
  qed
qed

lemma bracket_shorter: "bracket s = Inr (out, rest) \<Longrightarrow> length rest < length s"
  using bracket_items_shorter [of "snd (bracket_open s)"]
  by (auto simp: bracket_def bracket_open_def Let_def emit_fst_Inr split: if_splits prod.splits
      dest: order.strict_trans2)

subsection \<open>The translation\<close>

text \<open>
  The escape after a backslash: what is written and the new \<open>atStart\<close>. \<^verbatim>\<open>string(c)\<close> of a byte
  is the encoding of the rune of that number.
\<close>

definition translate_escape :: "bool \<Rightarrow> char \<Rightarrow> bool \<Rightarrow> char \<Rightarrow> sed_error + string \<times> bool" where
  "translate_escape ere delim atStart c =
     (if c = delim \<and> delim \<noteq> CHR ''n'' \<and> delim \<noteq> CHR 0x0A then
        Inr (quote_meta (encode_rune (byte_of c)), False)
      else if \<not> ere \<and> (c = CHR ''('' \<or> c = CHR ''|'') then Inr ([c], True)
      else if \<not> ere \<and> c \<in> set '')}+?{'' then
        (if atStart \<and> (c = CHR ''+'' \<or> c = CHR ''?'') then Inr ([CHR 0x5C, c], False)
         else Inr ([c], False))
      else if c = CHR ''n'' then Inr ([CHR 0x5C, CHR ''n''], False)
      else if c = CHR ''t'' then Inr ([CHR 0x5C, CHR ''t''], False)
      else if c = CHR ''<'' \<or> c = CHR ''>'' then Inr ([CHR 0x5C, CHR ''b''], False)
      else if c = CHR 0x60 then Inr ([CHR 0x5C, CHR ''A''], False)
      else if c = CHR 0x27 then Inr ([CHR 0x5C, CHR ''z''], False)
      else if 49 \<le> byte_of c \<and> byte_of c \<le> 57 then
        Inl (Msg (''back-references in a pattern ('' @ [CHR 0x5C, c] @ '') are not supported''))
      else if c \<in> set ''wWsSbBafvr'' then Inr ([CHR 0x5C, c], False)
      else Inr (quote_meta (encode_rune (byte_of c)), False))"

function translate_from :: "bool \<Rightarrow> char \<Rightarrow> bool \<Rightarrow> string \<Rightarrow> sed_error + string" where
  "translate_from ere delim atStart [] = Inr []"
| "translate_from ere delim atStart (c # s) =
     (if c = CHR 0x5C then
        (case s of
           [] \<Rightarrow> Inl (Msg (''trailing backslash ('' @ [CHR 0x5C, CHR '')'']))
         | d # s' \<Rightarrow>
            (case translate_escape ere delim atStart d of
               Inl e \<Rightarrow> Inl e
             | Inr (out, start) \<Rightarrow> emit_to out (translate_from ere delim start s')))
      else if c = CHR ''['' then
        (case bracket s of
           Inl e \<Rightarrow> Inl e
         | Inr (out, s') \<Rightarrow> emit_to out (translate_from ere delim False s'))
      else if c = CHR ''*'' then
        emit_to (if atStart then [CHR 0x5C, c] else [c]) (translate_from ere delim False s)
      else if c = CHR ''^'' then
        (if ere \<or> atStart then emit_to [c] (translate_from ere delim atStart s)
         else emit_to [CHR 0x5C, c] (translate_from ere delim False s))
      else if c = CHR ''$'' then
        emit_to (if ere \<or> s = [] \<or> has_prefix s [CHR 0x5C, CHR '')''] \<or>
                    has_prefix s [CHR 0x5C, CHR ''|''] then [c] else [CHR 0x5C, c])
          (translate_from ere delim False s)
      else if \<not> ere \<and> c \<in> set ''(){}+?|'' then
        emit_to [CHR 0x5C, c] (translate_from ere delim False s)
      else if ere \<and> (c = CHR ''('' \<or> c = CHR ''|'') then
        emit_to [c] (translate_from ere delim True s)
      else if ere \<and> (c = CHR ''+'' \<or> c = CHR ''?'' \<or> c = CHR ''{'') \<and> atStart then
        emit_to [CHR 0x5C, c] (translate_from ere delim False s)
      else emit_to [c] (translate_from ere delim False s))"
  by pat_completeness auto
termination
  by (relation "measure (\<lambda>(ere, delim, atStart, s). length s)") (auto dest: bracket_shorter)

declare translate_from.simps(2) [simp del]

definition translate :: "string \<Rightarrow> bool \<Rightarrow> char \<Rightarrow> sed_error + string" where
  "translate src ere delim = translate_from ere delim True src"

definition compile_regex ::
  "'re go_lib \<Rightarrow> string \<Rightarrow> bool \<Rightarrow> char \<Rightarrow> bool \<Rightarrow> bool \<Rightarrow> sed_error + 're" where
  "compile_regex L src ere delim icase multiline =
     (case translate src ere delim of
        Inl e \<Rightarrow> Inl e
      | Inr re \<Rightarrow>
         (case lib_compile L (''(?s'' @ (if icase then ''i'' else []) @
                 (if multiline then ''m'' else []) @ '')'' @ re) of
            Inl e \<Rightarrow> Inl (Rx_Error e)
          | Inr r \<Rightarrow> Inr r))"

subsection \<open>What comes out\<close>

text \<open>
  A reader of RE2 syntax that knows escapes, classes and groups only: the number of groups,
  or \<open>None\<close> where an escape is cut short or a class is not closed. Beside it, the groups of
  the POSIX source.
\<close>

function skip_class :: "string \<Rightarrow> string option" where
  "skip_class [] = None"
| "skip_class (c # s) =
     (if c = CHR '']'' then Some s
      else if c = CHR ''['' \<and> has_prefix s '':'' then
        (case index_of (tl s) '':]'' of
           None \<Rightarrow> None
         | Some e \<Rightarrow> skip_class (drop (e + 3) s))
      else if c = CHR 0x5C then (case s of [] \<Rightarrow> None | d # s' \<Rightarrow> skip_class s')
      else skip_class s)"
  by pat_completeness auto
termination by (relation "measure length") auto

declare skip_class.simps(2) [simp del]

lemma skip_class_shorter: "skip_class s = Some t \<Longrightarrow> length t < length s"
proof (induction s rule: measure_induct_rule [where f = length])
  case (less s)
  show ?case
  proof (cases s)
    case Nil
    with less.prems show ?thesis by simp
  next
    case (Cons c u)
    have IH: "length t < length v" if "skip_class v = Some t" "length v \<le> length u" for v
      using less.IH [OF _ that(1)] that(2) Cons by simp
    from less.prems show ?thesis
      unfolding Cons skip_class.simps(2) [of c u]
      by (auto split: if_splits option.splits list.splits dest!: IH)
  qed
qed

function re2_groups :: "string \<Rightarrow> nat option" where
  "re2_groups [] = Some 0"
| "re2_groups (c # s) =
     (if c = CHR 0x5C then (case s of [] \<Rightarrow> None | d # s' \<Rightarrow> re2_groups s')
      else if c = CHR ''['' then
        (case skip_class s of None \<Rightarrow> None | Some s' \<Rightarrow> re2_groups s')
      else map_option (\<lambda>n. (if c = CHR ''('' then 1 else 0) + n) (re2_groups s))"
  by pat_completeness auto
termination by (relation "measure length") (auto dest: skip_class_shorter)

declare re2_groups.simps(2) [simp del]

function sed_groups :: "bool \<Rightarrow> char \<Rightarrow> string \<Rightarrow> nat" where
  "sed_groups ere delim [] = 0"
| "sed_groups ere delim (c # s) =
     (if c = CHR 0x5C then
        (case s of
           [] \<Rightarrow> 0
         | d # s' \<Rightarrow> (if \<not> ere \<and> d = CHR ''('' \<and> d \<noteq> delim then 1 else 0) + sed_groups ere delim s')
      else if c = CHR ''['' then
        (case bracket s of Inl e \<Rightarrow> 0 | Inr (out, s') \<Rightarrow> sed_groups ere delim s')
      else (if ere \<and> c = CHR ''('' then 1 else 0) + sed_groups ere delim s)"
  by pat_completeness auto
termination
  by (relation "measure (\<lambda>(ere, delim, s). length s)") (auto dest: bracket_shorter)

declare sed_groups.simps(2) [simp del]

lemma index_of_self: "index_of (p @ t) p = Some 0"
proof (cases "p @ t")
  case (Cons x xs)
  then have "has_prefix (x # xs) p" by (metis has_prefix_append)
  with Cons show ?thesis by simp
qed auto

lemma index_of_prefix:
  "index_of s p = Some e \<Longrightarrow> index_of (take (e + length p) s @ t) p = Some e"
proof (induction s arbitrary: e)
  case Nil
  then show ?case by (cases t) (auto split: if_splits)
next
  case (Cons x xs)
  show ?case
  proof (cases "has_prefix (x # xs) p")
    case True
    with Cons.prems have "e = 0" "take (length p) (x # xs) = p" by (auto simp: has_prefix_def)
    then show ?thesis using index_of_self [of p t] by simp
  next
    case False
    with Cons.prems obtain d where d: "index_of xs p = Some d" "e = Suc d" by auto
    have "take (length p) (x # take (d + length p) xs @ t) = take (length p) (x # xs)"
    proof -
      have "length (x # take (d + length p) xs) \<ge> length p"
        using index_of_bound [OF d(1)] by simp
      then have "take (length p) (x # take (d + length p) xs @ t)
          = take (length p) (x # take (d + length p) xs)"
        by (metis append_Cons append_Nil2 diff_is_0_eq' take0 take_append)
      also have "\<dots> = take (length p) (take (Suc (d + length p)) (x # xs))" by simp
      also have "\<dots> = take (length p) (x # xs)" by (simp only: take_take min_def) simp
      finally show ?thesis .
    qed
    with False have "\<not> has_prefix (x # take (d + length p) xs @ t) p"
      by (simp add: has_prefix_def)
    with d Cons.IH [OF d(1)] show ?thesis by simp
  qed
qed

text \<open>What \<open>bracket\<close> writes is one closed class.\<close>

lemma skip_class_plain [simp]:
  "c \<noteq> CHR 0x5C \<Longrightarrow> c \<noteq> CHR ''['' \<Longrightarrow> c \<noteq> CHR '']'' \<Longrightarrow> skip_class (c # s) = skip_class s"
  by (simp add: skip_class.simps(2))

lemma skip_class_escape [simp]: "skip_class (CHR 0x5C # d # s) = skip_class s"
  by (simp add: skip_class.simps(2))

lemma skip_class_close [simp]: "skip_class (CHR '']'' # s) = Some s"
  by (simp add: skip_class.simps(2))

lemma skip_class_named:
  assumes "has_prefix s '':''" "index_of (tl s) '':]'' = Some e"
  shows "skip_class (take (e + 4) (CHR ''['' # s) @ t) = skip_class t"
proof -
  obtain s' where s: "s = CHR '':'' # s'"
    using assms(1) by (auto simp: has_prefix_iff)
  have e: "index_of s' '':]'' = Some e" using assms(2) s by simp
  have len: "e + 2 \<le> length s'" using index_of_bound [OF e] by simp
  have "index_of (take (e + 2) s' @ t) '':]'' = Some e"
    using index_of_prefix [OF e, of t] by simp
  with s len show ?thesis
    by (simp add: skip_class.simps(2) numeral_eq_Suc)
qed

lemma bracket_items_class:
  "bracket_items s = Inr (out, rest) \<Longrightarrow> skip_class (out @ t) = Some t"
proof (induction s arbitrary: out rule: measure_induct_rule [where f = length])
  case (less s)
  show ?case
  proof (cases s)
    case Nil
    with less.prems show ?thesis by simp
  next
    case (Cons c u)
    have IH: "skip_class (o' @ t) = Some t"
      if "bracket_items v = Inr (o', rest)" "length v \<le> length u" for o' v
      using less.IH [OF _ that(1)] that(2) Cons by simp
    from less.prems show ?thesis
      unfolding Cons bracket_items.simps(2) [of c u]
      by (auto simp: emit_fst_Inr skip_class_named [simplified] split: if_splits option.splits list.splits
          dest!: IH)
  qed
qed

lemma bracket_class:
  "bracket s = Inr (out, rest) \<Longrightarrow> \<exists>b. out = CHR ''['' # b \<and> skip_class (b @ t) = Some t"
  by (auto simp: bracket_def bracket_open_def Let_def emit_fst_Inr bracket_items_class
      split: if_splits prod.splits)

lemma re2_groups_escape [simp]: "re2_groups (CHR 0x5C # d # s) = re2_groups s"
  by (simp add: re2_groups.simps(2))

lemma re2_groups_plain [simp]:
  "c \<noteq> CHR 0x5C \<Longrightarrow> c \<noteq> CHR ''['' \<Longrightarrow> c \<noteq> CHR ''('' \<Longrightarrow> re2_groups (c # s) = re2_groups s"
  by (cases "re2_groups s") (simp_all add: re2_groups.simps(2))

lemma re2_groups_open [simp]: "re2_groups (CHR ''('' # s) = map_option Suc (re2_groups s)"
  by (cases "re2_groups s") (simp_all add: re2_groups.simps(2))

lemma re2_groups_quoted [simp]: "re2_groups (quote_meta x @ t) = re2_groups t"
  by (induction x) (auto simp: quote_meta_def is_meta_def)

lemma translate_escape_groups:
  assumes "translate_escape ere delim start c = Inr (out, start')"
  shows "re2_groups (out @ t) =
     map_option ((+) (if \<not> ere \<and> c = CHR ''('' \<and> c \<noteq> delim then 1 else 0)) (re2_groups t)"
proof (cases "c = CHR ''(''")
  case True
  with assms show ?thesis
    unfolding translate_escape_def by (cases "re2_groups t") (auto split: if_splits)
next
  case False
  then have "re2_groups (out @ t) = re2_groups t"
    using assms unfolding translate_escape_def
    by (elim ifE) (simp_all, (elim conjE disjE; clarsimp)+)
  with False show ?thesis by (cases "re2_groups t") simp_all
qed

lemma translate_from_groups:
  "translate_from ere delim start s = Inr out \<Longrightarrow> re2_groups out = Some (sed_groups ere delim s)"
proof (induction s arbitrary: start out rule: measure_induct_rule [where f = length])
  case (less s)
  show ?case
  proof (cases s)
    case Nil
    with less.prems show ?thesis by simp
  next
    case (Cons c u)
    have IH: "re2_groups o' = Some (sed_groups ere delim v)"
      if "translate_from ere delim st v = Inr o'" "length v \<le> length u" for st v o'
      using less.IH [OF _ that(1)] that(2) Cons by simp
    consider (esc) "c = CHR 0x5C" | (br) "c = CHR ''[''" | (other) "c \<noteq> CHR 0x5C" "c \<noteq> CHR ''[''"
      by blast
    then show ?thesis
    proof cases
      case esc
      with less.prems Cons obtain d v e st o' where u: "u = d # v"
        and e: "translate_escape ere delim start d = Inr (e, st)"
        and o': "translate_from ere delim st v = Inr o'" and out: "out = e @ o'"
        by (auto simp: translate_from.simps(2) [of _ _ _ "CHR 0x5C" u] emit_to_Inr
            split: list.splits sum.splits)
      have "re2_groups o' = Some (sed_groups ere delim v)" using IH [OF o'] u by simp
      with esc u Cons out translate_escape_groups [OF e, of o'] show ?thesis
        by (simp add: sed_groups.simps(2))
    next
      case br
      with less.prems Cons obtain b s' o' where b: "bracket u = Inr (b, s')"
        and o': "translate_from ere delim False s' = Inr o'" and out: "out = b @ o'"
        by (auto simp: translate_from.simps(2) [of _ _ _ "CHR ''[''" u] emit_to_Inr
            split: sum.splits)
      obtain b' where b': "b = CHR ''['' # b'" "skip_class (b' @ o') = Some o'"
        using bracket_class [OF b] by blast
      have "re2_groups o' = Some (sed_groups ere delim s')"
        using IH [OF o'] bracket_shorter [OF b] by simp
      with b b' out br Cons show ?thesis
        by (simp add: re2_groups.simps(2) sed_groups.simps(2))
    next
      case other
      have "\<exists>st o'. translate_from ere delim st u = Inr o' \<and>
          (out = CHR 0x5C # c # o' \<and> \<not> (ere \<and> c = CHR ''('') \<or>
           out = c # o' \<and> (c = CHR ''('' \<longrightarrow> ere))"
        using less.prems other unfolding Cons translate_from.simps(2) [of _ _ _ c u]
        by (simp only: if_False simp_thms)
          (elim ifE; clarsimp simp: emit_to_Inr split: if_splits; intro exI conjI, assumption; auto)
      then obtain st o' where o': "translate_from ere delim st u = Inr o'"
        and p: "out = CHR 0x5C # c # o' \<and> \<not> (ere \<and> c = CHR ''('') \<or>
          out = c # o' \<and> (c = CHR ''('' \<longrightarrow> ere)"
        by blast
      show ?thesis
        using p IH [OF o'] other Cons
        by (cases "c = CHR ''(''") (auto simp: sed_groups.simps(2))
    qed
  qed
qed

text \<open>
  C12. The RE2 expression \<open>translate\<close> returns has no escape cut short and no class left open,
  and as many capture groups as the sed expression: \<^verbatim>\<open>\(\<close> in a basic, \<^verbatim>\<open>(\<close> in an extended
  one, outside brackets and where it is not the delimiter.
\<close>

theorem translate_groups:
  assumes "translate src ere delim = Inr out"
  shows "re2_groups out = Some (sed_groups ere delim src)"
  using translate_from_groups assms unfolding translate_def by blast

theorem translate_groups_witness:
  "re2_groups ''([[:alpha:]]*)[(]b'' =
     Some (sed_groups False (CHR ''/'') ([CHR 0x5C] @ ''([[:alpha:]]*'' @ [CHR 0x5C] @ '')[(]b''))"
  by (rule translate_groups) code_simp

lemma quote_meta_Cons: "quote_meta (c # s) = (if is_meta c then [CHR 0x5C, c] else [c]) @ quote_meta s"
  by (simp add: quote_meta_def)

lemma translate_from_literal:
  assumes "\<forall>c \<in> set s. c \<notin> set (CHR 0x5C # ''[]*^$.'')"
  shows "translate_from False delim start s = Inr (quote_meta s)"
  using assms
proof (induction s arbitrary: start)
  case Nil
  then show ?case by (simp add: quote_meta_def)
next
  case (Cons c s)
  then show ?case
    by (simp add: translate_from.simps(2) quote_meta_Cons is_meta_def)
qed

text \<open>
  A basic expression without the characters POSIX gives a meaning is its own literal:
  the parentheses, braces, bars, pluses and question marks in it are quoted.
\<close>

lemma translate_literal:
  assumes "\<forall>c \<in> set src. c \<notin> set (CHR 0x5C # ''[]*^$.'')"
  shows "translate src False delim = Inr (quote_meta src)"
  using translate_from_literal [OF assms] by (simp add: translate_def)

lemma translate_literal_witness:
  "translate ''f(x|y){2}+?'' False (CHR ''/'') = Inr (quote_meta ''f(x|y){2}+?'')"
  by (rule translate_literal) code_simp

end
