(* ===== verification/Sed_Parse.thy ===== *)
theory Sed_Parse
  imports Sed_Regex
begin

text \<open>
  The script parser of the sed package, \<^verbatim>\<open>src/shell/sed/parse.go\<close>. The parser's \<^verbatim>\<open>src\<close>
  and \<^verbatim>\<open>pos\<close> are the arguments \<open>src\<close> and \<open>pos\<close>, each method returns the new position
  with its result, and \<^verbatim>\<open>cmds\<close> and the stack of open blocks are arguments of the main loop.
  Numbers are Go's \<^verbatim>\<open>int\<close>s and wrap. The lemmas at the end show that a script that parses
  is a well-formed program: every block knows its end, every branch its target.
\<close>

subsection \<open>Addresses and commands\<close>

datatype addr_kind = AddrNone | AddrLine | AddrLast | AddrRegex | AddrStep | AddrPlus | AddrZero

record 're address =
  a_kind :: addr_kind
  a_line :: int
  a_step :: int
  a_re :: "'re option"
  a_empty :: bool

definition no_address :: "'re address" where
  "no_address = \<lparr>a_kind = AddrNone, a_line = 0, a_step = 0, a_re = None, a_empty = False\<rparr>"

text \<open>A piece of a replacement: literal text, a group (0 is \<open>&\<close>) or a case conversion.\<close>

datatype repl_part = Lit string | Group nat | CaseOp char

record 're command =
  c_a1 :: "'re address"
  c_a2 :: "'re address"
  c_negate :: bool
  c_name :: char
  c_active :: bool
  c_end_line :: int
  c_text :: string
  c_fname :: string
  c_block :: nat
  c_re :: "'re option"
  c_re_empty :: bool
  c_repl :: "repl_part list"
  c_global :: bool
  c_nth :: int
  c_print :: bool
  c_wfile :: string
  c_ymap :: "rune \<rightharpoonup> rune"
  c_code :: int

definition new_command :: "'re command" where
  "new_command = \<lparr>c_a1 = no_address, c_a2 = no_address, c_negate = False, c_name = CHR 0x00,
     c_active = False, c_end_line = 0, c_text = [], c_fname = [], c_block = 0, c_re = None,
     c_re_empty = False, c_repl = [], c_global = False, c_nth = 0, c_print = False,
     c_wfile = [], c_ymap = Map.empty, c_code = 0\<rparr>"

subsection \<open>The scanner\<close>

definition at_eof :: "string \<Rightarrow> nat \<Rightarrow> bool" where
  "at_eof src pos = (length src \<le> pos)"

definition peek :: "string \<Rightarrow> nat \<Rightarrow> char" where
  "peek src pos = (if at_eof src pos then CHR 0x00 else src ! pos)"

text \<open>A loop \<^verbatim>\<open>for !p.eof() && P(p.peek()) { p.pos++ }\<close>.\<close>

definition scan_while :: "(char \<Rightarrow> bool) \<Rightarrow> string \<Rightarrow> nat \<Rightarrow> nat" where
  "scan_while P src pos = pos + length (takeWhile P (drop pos src))"

definition skip_space :: "string \<Rightarrow> nat \<Rightarrow> nat" where
  "skip_space = scan_while (\<lambda>c. c = CHR '' '' \<or> c = CHR 0x09)"

definition errorf :: "nat \<Rightarrow> string \<Rightarrow> sed_error + 'a" where
  "errorf pos m = Inl (At pos m)"

fun number_val :: "int \<Rightarrow> string \<Rightarrow> int" where
  "number_val n [] = n"
| "number_val n (d # ds) = number_val (wrap64 (n * 10 + digit_val d)) ds"

definition number :: "string \<Rightarrow> nat \<Rightarrow> int \<times> nat" where
  "number src pos = (number_val 0 (takeWhile is_digit (drop pos src)), scan_while is_digit src pos)"

text \<open>\<^verbatim>\<open>delimited\<close>, over the bytes left.\<close>

fun delimited_loop :: "char \<Rightarrow> nat \<Rightarrow> string \<Rightarrow> sed_error + string \<times> nat" where
  "delimited_loop delim pos [] = errorf pos (''unterminated `s'' @ [CHR 0x27] @ '' command'')"
| "delimited_loop delim pos (c # s) =
     (if c = CHR 0x5C \<and> s \<noteq> [] then
        emit_fst (if hd s = CHR 0x0A then [CHR 0x0A] else [CHR 0x5C, hd s])
          (delimited_loop delim (pos + 2) (tl s))
      else if c = delim then Inr ([], pos + 1)
      else if c = CHR 0x0A \<and> delim \<noteq> CHR 0x0A then errorf pos ''unterminated address regex''
      else emit_fst [c] (delimited_loop delim (pos + 1) s))"

definition delimited :: "char \<Rightarrow> string \<Rightarrow> nat \<Rightarrow> sed_error + string \<times> nat" where
  "delimited delim src pos = delimited_loop delim pos (drop pos src)"

definition to_end :: "bool \<Rightarrow> string \<Rightarrow> nat \<Rightarrow> string \<times> nat" where
  "to_end semicolon src pos0 =
     (let pos = skip_space src pos0;
          pos' = scan_while (\<lambda>c. c \<noteq> CHR 0x0A \<and>
                   \<not> (semicolon \<and> (c = CHR '';'' \<or> c = CHR ''}''))) src pos
      in (trim_right (take (pos' - pos) (drop pos src)) [CHR '' '', CHR 0x09], pos'))"

definition end_command :: "string \<Rightarrow> nat \<Rightarrow> sed_error + nat" where
  "end_command src pos0 =
     (let pos = skip_space src pos0 in
      if at_eof src pos \<or> peek src pos \<in> {CHR '';'', CHR 0x0A, CHR ''}'', CHR ''#''} then Inr pos
      else errorf pos ''extra characters after command'')"

definition with_at :: "nat \<Rightarrow> sed_error \<Rightarrow> sed_error" where
  "with_at pos e = (case e of Msg m \<Rightarrow> At pos m | Rx_Error m \<Rightarrow> At pos m | _ \<Rightarrow> e)"

definition address_regex ::
  "'re go_lib \<Rightarrow> bool \<Rightarrow> char \<Rightarrow> string \<Rightarrow> nat \<Rightarrow> sed_error + 're address \<times> nat" where
  "address_regex L ere delim src pos0 =
     (case delimited delim src pos0 of
        Inl e \<Rightarrow> Inl e
      | Inr (raw, pos) \<Rightarrow>
         (let pos' = scan_while (\<lambda>c. c = CHR ''I'' \<or> c = CHR ''M'') src pos;
              fl = take (pos' - pos) (drop pos src);
              a = no_address\<lparr>a_kind := AddrRegex\<rparr>
          in if raw = [] then Inr (a\<lparr>a_empty := True\<rparr>, pos')
             else (case compile_regex L raw ere delim (CHR ''I'' \<in> set fl) (CHR ''M'' \<in> set fl) of
                     Inl e \<Rightarrow> Inl (with_at pos' e)
                   | Inr re \<Rightarrow> Inr (a\<lparr>a_re := Some re\<rparr>, pos'))))"

definition parse_address ::
  "'re go_lib \<Rightarrow> bool \<Rightarrow> bool \<Rightarrow> string \<Rightarrow> nat \<Rightarrow> sed_error + 're address \<times> nat" where
  "parse_address L ere first src pos =
     (let c = peek src pos in
      if is_digit c then
        (let (n, pos) = number src pos in
         if peek src pos = CHR ''~'' \<and> first then
           (let (k, pos) = number src (pos + 1)
            in Inr (no_address\<lparr>a_kind := AddrStep, a_line := n, a_step := k\<rparr>, pos))
         else if n = 0 then
           (if \<not> first then errorf pos ''invalid usage of line address 0''
            else Inr (no_address\<lparr>a_kind := AddrZero\<rparr>, pos))
         else Inr (no_address\<lparr>a_kind := AddrLine, a_line := n\<rparr>, pos))
      else if c = CHR ''$'' then Inr (no_address\<lparr>a_kind := AddrLast\<rparr>, pos + 1)
      else if c = CHR ''+'' \<and> \<not> first then
        (let (n, pos) = number src (pos + 1)
         in Inr (no_address\<lparr>a_kind := AddrPlus, a_line := n\<rparr>, pos))
      else if c = CHR ''~'' \<and> \<not> first then
        (let (n, pos) = number src (pos + 1)
         in Inr (no_address\<lparr>a_kind := AddrStep, a_step := n\<rparr>, pos))
      else if c = CHR ''/'' then address_regex L ere (CHR ''/'') src (pos + 1)
      else if c = CHR 0x5C then
        (if at_eof src (pos + 1) then errorf (pos + 1) ''unexpected end of script''
         else address_regex L ere (src ! (pos + 1)) src (pos + 2))
      else Inr (no_address, pos))"

subsection \<open>The arguments of the commands\<close>

text \<open>\<^verbatim>\<open>text\<close>: the argument of a, i and c.\<close>

fun text_loop :: "nat \<Rightarrow> string \<Rightarrow> string \<times> nat" where
  "text_loop pos [] = ([], pos)"
| "text_loop pos (c # s) =
     (if c = CHR 0x0A then ([], pos + 1)
      else if c = CHR 0x5C \<and> s \<noteq> [] then
        (let (b, p) = text_loop (pos + 2) (tl s) in (hd s # b, p))
      else (let (b, p) = text_loop (pos + 1) s in (c # b, p)))"

definition parse_text :: "string \<Rightarrow> 're command \<Rightarrow> nat \<Rightarrow> sed_error + 're command \<times> nat" where
  "parse_text src cmd pos0 =
     (let pos = skip_space src pos0;
          pos1 = (if peek src pos = CHR 0x5C then
                    (if peek src (pos + 1) = CHR 0x0A then pos + 2 else pos + 1)
                  else skip_space src pos)
      in if at_eof src pos1 then
           errorf pos1 (''expected '' @ [CHR 0x5C] @ '' after `a'' @ [CHR 0x27] @ '', `c'' @
             [CHR 0x27] @ '' or `i'' @ [CHR 0x27])
         else (let (b, pos2) = text_loop pos1 (drop pos1 src) in Inr (cmd\<lparr>c_text := b\<rparr>, pos2)))"

text \<open>
  \<^verbatim>\<open>parseReplacement\<close>: \<open>lit\<close> is the literal text being collected, \<open>flush_lit\<close> the closure
  \<^verbatim>\<open>flush\<close>.
\<close>

definition flush_lit :: "string \<Rightarrow> repl_part list" where
  "flush_lit lit = (if lit = [] then [] else [Lit lit])"

fun parse_replacement_from :: "string \<Rightarrow> string \<Rightarrow> repl_part list" where
  "parse_replacement_from lit [] = flush_lit lit"
| "parse_replacement_from lit (c # s) =
     (if c = CHR ''&'' then flush_lit lit @ Group 0 # parse_replacement_from [] s
      else if c = CHR 0x5C \<and> s \<noteq> [] then
        (let d = hd s; s' = tl s in
         if is_digit d then
           flush_lit lit @ Group (nat (digit_val d)) # parse_replacement_from [] s'
         else if d = CHR ''n'' then parse_replacement_from (lit @ [CHR 0x0A]) s'
         else if d = CHR ''t'' then parse_replacement_from (lit @ [CHR 0x09]) s'
         else if d \<in> set ''ULulE'' then flush_lit lit @ CaseOp d # parse_replacement_from [] s'
         else parse_replacement_from (lit @ [d]) s')
      else parse_replacement_from (lit @ [c]) s)"

definition parse_replacement :: "string \<Rightarrow> repl_part list" where
  "parse_replacement s = parse_replacement_from [] s"

lemma number_advances: "is_digit (peek src pos) \<Longrightarrow> pos < snd (number src pos)"
  by (cases "drop pos src")
    (auto simp: number_def scan_while_def peek_def at_eof_def is_digit_def drop_nth_Cons byte_of_def split: if_splits)

text \<open>The flags of \<open>s\<close>: the command, \<^verbatim>\<open>icase\<close>, \<^verbatim>\<open>multi\<close> and the position.\<close>

function subst_flags ::
  "string \<Rightarrow> 're command \<Rightarrow> bool \<Rightarrow> bool \<Rightarrow> nat \<Rightarrow> sed_error + 're command \<times> bool \<times> bool \<times> nat"
where
  "subst_flags src cmd icase multi pos =
     (if at_eof src pos then Inr (cmd, icase, multi, pos)
      else
       (let c = peek src pos in
        if c = CHR ''g'' then subst_flags src (cmd\<lparr>c_global := True\<rparr>) icase multi (pos + 1)
        else if c = CHR ''p'' then subst_flags src (cmd\<lparr>c_print := True\<rparr>) icase multi (pos + 1)
        else if c = CHR ''i'' \<or> c = CHR ''I'' then subst_flags src cmd True multi (pos + 1)
        else if c = CHR ''m'' \<or> c = CHR ''M'' then subst_flags src cmd icase True (pos + 1)
        else if 49 \<le> byte_of c \<and> byte_of c \<le> 57 then
          subst_flags src (cmd\<lparr>c_nth := fst (number src pos)\<rparr>) icase multi (snd (number src pos))
        else if c = CHR ''w'' then
          (let (f, pos') = to_end False src (pos + 1) in
           if f = [] then errorf pos' ''missing filename in r/R/w/W commands''
           else Inr (cmd\<lparr>c_wfile := f\<rparr>, icase, multi, pos'))
        else if c = CHR ''e'' then errorf pos ''the e flag is not supported''
        else Inr (cmd, icase, multi, pos)))"
  by pat_completeness auto

termination
proof (relation "measure (\<lambda>(src, cmd, icase, multi, pos). length src - pos)", goal_cases)
  case (6 src cmd icase multi pos c)
  then have "is_digit (peek src pos)" by (auto simp: is_digit_def)
  from number_advances [OF this] 6 show ?case by (auto simp: at_eof_def)
qed (auto simp: at_eof_def)

declare subst_flags.simps [simp del]

definition parse_substitute ::
  "'re go_lib \<Rightarrow> bool \<Rightarrow> string \<Rightarrow> 're command \<Rightarrow> nat \<Rightarrow> sed_error + 're command \<times> nat" where
  "parse_substitute L ere src cmd pos =
     (if at_eof src pos then errorf pos (''unterminated `s'' @ [CHR 0x27] @ '' command'')
      else
       (let delim = src ! pos in
        if delim = CHR 0x5C \<or> delim = CHR 0x0A then
          errorf pos ''delimiter cannot be a backslash or newline''
        else (case delimited delim src (pos + 1) of
          Inl e \<Rightarrow> Inl e
        | Inr (pat, pos1) \<Rightarrow> (case delimited delim src pos1 of
            Inl e \<Rightarrow> Inl e
          | Inr (replacement, pos2) \<Rightarrow> (case subst_flags src cmd False False pos2 of
              Inl e \<Rightarrow> Inl e
            | Inr (cmd1, icase, multi, pos3) \<Rightarrow>
               (let cmd2 = (if c_nth cmd1 = 0 then cmd1\<lparr>c_nth := 1\<rparr> else cmd1) in
                case (if pat = [] then Inr (cmd2\<lparr>c_re_empty := True\<rparr>)
                      else (case compile_regex L pat ere delim icase multi of
                              Inl e \<Rightarrow> Inl (with_at pos3 e)
                            | Inr re \<Rightarrow> Inr (cmd2\<lparr>c_re := Some re\<rparr>))) of
                  Inl e \<Rightarrow> Inl e
                | Inr cmd3 \<Rightarrow>
                   (let cmd4 = cmd3\<lparr>c_repl := parse_replacement replacement\<rparr> in
                    if c_wfile cmd4 \<noteq> [] then Inr (cmd4, pos3)
                    else map_sum id (Pair cmd4) (end_command src pos3))))))))"

text \<open>\<^verbatim>\<open>translit\<close>: y/source/dest/.\<close>

fun unescape_runes :: "rune list \<Rightarrow> rune list" where
  "unescape_runes [] = []"
| "unescape_runes (r # rs) =
     (if r = 92 \<and> rs \<noteq> [] then
        (if hd rs = 110 then 10 else if hd rs = 116 then 9 else hd rs) # unescape_runes (tl rs)
      else r # unescape_runes rs)"

definition parse_translit ::
  "string \<Rightarrow> 're command \<Rightarrow> nat \<Rightarrow> sed_error + 're command \<times> nat" where
  "parse_translit src cmd pos =
     (if at_eof src pos then errorf pos (''unterminated `y'' @ [CHR 0x27] @ '' command'')
      else
       (let delim = src ! pos in
        (case delimited delim src (pos + 1) of
          Inl e \<Rightarrow> Inl e
        | Inr (sr, pos1) \<Rightarrow> (case delimited delim src pos1 of
            Inl e \<Rightarrow> Inl e
          | Inr (dst, pos2) \<Rightarrow>
             (let a = unescape_runes (runes sr); b = unescape_runes (runes dst) in
              if length a \<noteq> length b then
                errorf pos2 (''strings for `y'' @ [CHR 0x27] @ '' command are different lengths'')
              else map_sum id (Pair (cmd\<lparr>c_ymap := map_of (rev (zip a b))\<rparr>))
                     (end_command src pos2))))))"

definition parse_command ::
  "'re go_lib \<Rightarrow> bool \<Rightarrow> string \<Rightarrow> 're command \<Rightarrow> nat \<Rightarrow> sed_error + 're command \<times> nat" where
  "parse_command L ere src cmd pos =
     (let n = c_name cmd in
      if n = CHR ''{'' then Inr (cmd, pos)
      else if n \<in> set ''}=dDgGhHnNpPxz'' then map_sum id (Pair cmd) (end_command src pos)
      else if n \<in> set ''qQ'' then
        (let pos1 = skip_space src pos;
             (cmd1, pos2) = (if is_digit (peek src pos1)
                then (cmd\<lparr>c_code := fst (number src pos1)\<rparr>, snd (number src pos1))
                else (cmd, pos1))
         in map_sum id (Pair cmd1) (end_command src pos2))
      else if n = CHR '':'' then
        (if a_kind (c_a1 cmd) \<noteq> AddrNone then
           errorf pos (CHR '':'' # '' doesn'' @ [CHR 0x27] @ ''t want any addresses'')
         else (let (l, pos') = to_end True src pos in
           if l = [] then errorf pos' ([CHR 0x22, CHR '':'', CHR 0x22] @ '' lacks a label'')
           else Inr (cmd\<lparr>c_text := l\<rparr>, pos')))
      else if n \<in> set ''btT'' then
        (let (l, pos') = to_end True src pos in Inr (cmd\<lparr>c_text := l\<rparr>, pos'))
      else if n \<in> set ''rw'' then
        (let (f, pos') = to_end False src pos in
         if f = [] then errorf pos' ''missing filename in r/R/w/W commands''
         else Inr (cmd\<lparr>c_fname := f\<rparr>, pos'))
      else if n \<in> set ''aic'' then parse_text src cmd pos
      else if n = CHR ''s'' then parse_substitute L ere src cmd pos
      else if n = CHR ''y'' then parse_translit src cmd pos
      else errorf pos (''unknown command: `'' @ encode_rune (byte_of n) @ [CHR 0x27]))"

subsection \<open>The main loop\<close>

text \<open>One command with its addresses: the body of the loop of \<^verbatim>\<open>parse\<close> up to \<^verbatim>\<open>p.command\<close>.\<close>

definition parse_addresses ::
  "'re go_lib \<Rightarrow> bool \<Rightarrow> string \<Rightarrow> nat \<Rightarrow> sed_error + 're command \<times> nat" where
  "parse_addresses L ere src pos =
     (case parse_address L ere True src pos of
        Inl e \<Rightarrow> Inl e
      | Inr (a1, pos1) \<Rightarrow>
         (case (if a_kind a1 \<noteq> AddrNone \<and> peek src pos1 = CHR '','' then
                  (case parse_address L ere False src (skip_space src (pos1 + 1)) of
                     Inl e \<Rightarrow> Inl e
                   | Inr (a2, pos2) \<Rightarrow>
                      if a_kind a2 = AddrNone then
                        errorf pos2 (''unexpected `,'' @ [CHR 0x27])
                      else Inr (a2, pos2))
                else Inr (no_address, pos1)) of
            Inl e \<Rightarrow> Inl e
          | Inr (a2, pos2) \<Rightarrow>
             if a_kind a1 = AddrZero \<and> a_kind a2 \<noteq> AddrRegex then
               errorf pos2 ''invalid usage of line address 0''
             else Inr (new_command\<lparr>c_a1 := a1, c_a2 := a2\<rparr>, pos2)))"

text \<open>The loop over \<open>!\<close>: whether there was one, and the position.\<close>

function parse_bangs :: "string \<Rightarrow> nat \<Rightarrow> bool \<times> nat" where
  "parse_bangs src pos =
     (if \<not> at_eof src pos \<and> peek src pos = CHR ''!''
      then (True, snd (parse_bangs src (skip_space src (pos + 1)))) else (False, pos))"
  by pat_completeness auto
termination
  by (relation "measure (\<lambda>(src, pos). length src - pos)")
    (auto simp: at_eof_def skip_space_def scan_while_def)

declare parse_bangs.simps [simp del]

definition parse_one ::
  "'re go_lib \<Rightarrow> bool \<Rightarrow> string \<Rightarrow> nat \<Rightarrow> sed_error + 're command \<times> nat" where
  "parse_one L ere src pos =
     (case parse_addresses L ere src pos of
        Inl e \<Rightarrow> Inl e
      | Inr (cmd, pos1) \<Rightarrow>
         (let (neg, pos2) = parse_bangs src (skip_space src pos1) in
          if at_eof src pos2 then errorf pos2 ''missing command''
          else parse_command L ere src (cmd\<lparr>c_negate := neg, c_name := src ! pos2\<rparr>) (pos2 + 1)))"

text \<open>The stack of open blocks and the list of commands after one more command.\<close>

definition push_command ::
  "nat \<Rightarrow> 're command \<Rightarrow> nat list \<Rightarrow> 're command list \<Rightarrow> sed_error + nat list \<times> 're command list"
where
  "push_command pos cmd opn cmds =
     (if c_name cmd = CHR ''{'' then Inr (length cmds # opn, cmds @ [cmd])
      else if c_name cmd = CHR ''}'' then
        (if a_kind (c_a1 cmd) \<noteq> AddrNone then
           errorf pos (''} doesn'' @ [CHR 0x27] @ ''t want any addresses'')
         else (case opn of
             [] \<Rightarrow> errorf pos (''unexpected `}'' @ [CHR 0x27])
           | i # opn' \<Rightarrow>
              Inr (opn', cmds[i := (cmds ! i)\<lparr>c_block := length cmds\<rparr>] @ [cmd])))
      else Inr (opn, cmds @ [cmd]))"

definition skip_separators :: "string \<Rightarrow> nat \<Rightarrow> nat" where
  "skip_separators = scan_while (\<lambda>c. c \<in> {CHR '' '', CHR 0x09, CHR 0x0A, CHR '';''})"

definition skip_comment :: "string \<Rightarrow> nat \<Rightarrow> nat" where
  "skip_comment = scan_while (\<lambda>c. c \<noteq> CHR 0x0A)"

subsection \<open>Every scanner moves forward\<close>

lemma scan_while_ge: "pos \<le> scan_while P src pos"
  by (simp add: scan_while_def)

lemma skip_space_ge: "pos \<le> skip_space src pos"
  by (simp add: skip_space_def scan_while_ge)

lemma number_ge: "pos \<le> snd (number src pos)"
  by (simp add: number_def scan_while_ge)

lemma delimited_loop_ge: "delimited_loop delim pos s = Inr (b, pos') \<Longrightarrow> pos < pos'"
proof (induction delim pos s arbitrary: b rule: delimited_loop.induct)
  case (2 delim pos c s)
  then show ?case by (fastforce simp: emit_fst_Inr errorf_def split: if_splits)
qed (simp add: errorf_def)

lemma delimited_ge: "delimited delim src pos = Inr (b, pos') \<Longrightarrow> pos < pos'"
  by (auto simp: delimited_def dest: delimited_loop_ge)

lemma to_end_ge: "to_end semi src pos = (b, pos') \<Longrightarrow> pos \<le> pos'"
  by (auto simp: to_end_def Let_def intro: order.trans [OF skip_space_ge scan_while_ge])

lemma end_command_ge: "end_command src pos = Inr pos' \<Longrightarrow> pos \<le> pos'"
  by (auto simp: end_command_def Let_def errorf_def skip_space_ge split: if_splits)

lemma text_loop_ge: "text_loop pos s = (b, pos') \<Longrightarrow> pos \<le> pos'"
  by (induction pos s arbitrary: b rule: text_loop.induct)
    (fastforce split: if_splits prod.splits)+

lemma subst_flags_ge:
  "subst_flags src cmd icase multi pos = Inr (cmd', icase', multi', pos') \<Longrightarrow> pos \<le> pos'"
proof (induction src cmd icase multi pos rule: subst_flags.induct)
  case (1 src cmd icase multi pos)
  show ?case
  proof (cases "at_eof src pos")
    case True
    with "1.prems" show ?thesis by (simp add: subst_flags.simps [of src cmd icase multi pos])
  next
    case False
    note IH = "1.IH" [OF False refl]
    from "1.prems" False show ?thesis
      unfolding subst_flags.simps [of src cmd icase multi pos] Let_def
      apply (simp only: if_False)
      apply (elim ifE)
      subgoal using IH(1) by simp
      subgoal using IH(2) by simp
      subgoal using IH(3) by simp
      subgoal using IH(4) by simp
      subgoal using IH(5) number_ge [of pos src] by simp
      subgoal by (auto simp: errorf_def split: prod.splits if_splits dest: to_end_ge)
      by (simp_all add: errorf_def)
  qed
qed

lemma address_regex_ge: "address_regex L ere delim src pos = Inr (a, pos') \<Longrightarrow> pos \<le> pos'"
  by (auto simp: address_regex_def Let_def split: sum.splits if_splits prod.splits
      dest!: delimited_ge intro: order.trans [OF less_imp_le scan_while_ge])

lemma number_eq_ge: "(n, pos') = number src pos \<Longrightarrow> pos \<le> pos'"
  using number_ge [of pos src] by (metis snd_conv)

lemma parse_address_ge: "parse_address L ere first src pos = Inr (a, pos') \<Longrightarrow> pos \<le> pos'"
  using number_ge [of pos src] number_ge [of "pos + 1" src]
    number_ge [of "snd (number src pos) + 1" src]
  unfolding parse_address_def Let_def case_prod_beta
  by (elim ifE) (auto simp: errorf_def dest!: address_regex_ge)

lemma parse_bangs_ge: "pos \<le> snd (parse_bangs src pos)"
proof (induction src pos rule: parse_bangs.induct)
  case (1 src pos)
  then show ?case
    using skip_space_ge [of "pos + 1" src]
    by (auto simp: parse_bangs.simps [of src pos])
qed

lemma parse_addresses_cases:
  assumes "parse_addresses L ere src pos = Inr (cmd, pos')"
  obtains a1 pos1 a2 where "parse_address L ere True src pos = Inr (a1, pos1)"
    "cmd = new_command\<lparr>c_a1 := a1, c_a2 := a2\<rparr>"
    "a_kind a1 = AddrZero \<Longrightarrow> a_kind a2 = AddrRegex"
    "a2 = no_address \<and> pos' = pos1 \<or>
     a_kind a1 \<noteq> AddrNone \<and> a_kind a2 \<noteq> AddrNone \<and>
       parse_address L ere False src (skip_space src (pos1 + 1)) = Inr (a2, pos')"
proof -
  from assms obtain a1 pos1 where a1: "parse_address L ere True src pos = Inr (a1, pos1)"
    by (auto simp: parse_addresses_def split: sum.splits)
  show ?thesis
  proof (cases "a_kind a1 \<noteq> AddrNone \<and> peek src pos1 = CHR '',''")
    case True
    with assms a1 obtain a2 where "parse_address L ere False src (skip_space src (pos1 + 1)) = Inr (a2, pos')"
      "a_kind a2 \<noteq> AddrNone" "a_kind a1 = AddrZero \<longrightarrow> a_kind a2 = AddrRegex"
      "cmd = new_command\<lparr>c_a1 := a1, c_a2 := a2\<rparr>"
      by (auto simp: parse_addresses_def errorf_def split: sum.splits if_splits)
    with a1 True that show ?thesis by blast
  next
    case False
    with assms a1 have "a_kind a1 \<noteq> AddrZero" "pos' = pos1"
      "cmd = new_command\<lparr>c_a1 := a1, c_a2 := no_address\<rparr>"
      by (auto simp: parse_addresses_def errorf_def no_address_def split: if_splits)
    with a1 that show ?thesis by blast
  qed
qed

lemma parse_addresses_ge:
  assumes "parse_addresses L ere src pos = Inr (cmd, pos')"
  shows "pos \<le> pos'"
proof -
  from assms obtain a1 pos1 a2 where 1: "parse_address L ere True src pos = Inr (a1, pos1)"
    and 2: "pos' = pos1 \<or>
      parse_address L ere False src (skip_space src (pos1 + 1)) = Inr (a2, pos')"
    by (rule parse_addresses_cases) blast
  from 2 show ?thesis
  proof
    assume "parse_address L ere False src (skip_space src (pos1 + 1)) = Inr (a2, pos')"
    from parse_address_ge [OF this] parse_address_ge [OF 1] skip_space_ge [of "pos1 + 1" src]
    show ?thesis by linarith
  qed (use parse_address_ge [OF 1] in simp)
qed

lemma parse_text_ge: "parse_text src cmd pos = Inr (cmd', pos') \<Longrightarrow> pos \<le> pos'"
  using skip_space_ge [of pos src] skip_space_ge [of "skip_space src pos" src]
  by (auto simp: parse_text_def Let_def errorf_def dest!: text_loop_ge split: if_splits prod.splits)

lemma parse_substitute_ge:
  "parse_substitute L ere src cmd pos = Inr (cmd', pos') \<Longrightarrow> pos \<le> pos'"
  by (auto simp: parse_substitute_def Let_def errorf_def map_sum_def
      dest!: delimited_ge subst_flags_ge end_command_ge split: if_splits prod.splits sum.splits)

lemma parse_translit_ge: "parse_translit src cmd pos = Inr (cmd', pos') \<Longrightarrow> pos \<le> pos'"
  by (auto simp: parse_translit_def Let_def errorf_def map_sum_def
      dest!: delimited_ge end_command_ge split: if_splits prod.splits sum.splits)

lemma parse_command_ge:
  "parse_command L ere src cmd pos = Inr (cmd', pos') \<Longrightarrow> pos \<le> pos'"
  using skip_space_ge [of pos src] number_ge [of "skip_space src pos" src]
  unfolding parse_command_def Let_def
  by (elim ifE)
    (auto simp: errorf_def map_sum_def split: prod.splits sum.splits if_splits
      dest!: end_command_ge to_end_ge parse_text_ge parse_substitute_ge parse_translit_ge)

lemma parse_one_gt: "parse_one L ere src pos = Inr (cmd, pos') \<Longrightarrow> pos < pos'"
proof -
  assume one: "parse_one L ere src pos = Inr (cmd, pos')"
  then obtain c pos1 where a: "parse_addresses L ere src pos = Inr (c, pos1)"
    by (auto simp: parse_one_def split: sum.splits)
  obtain neg pos2 where b: "parse_bangs src (skip_space src pos1) = (neg, pos2)"
    by (cases "parse_bangs src (skip_space src pos1)")
  from one a b have "Suc pos2 \<le> pos'"
    by (auto simp: parse_one_def errorf_def split: if_splits dest!: parse_command_ge)
  with parse_addresses_ge [OF a] skip_space_ge [of pos1 src]
    parse_bangs_ge [of "skip_space src pos1" src] b show ?thesis by simp
qed

lemma skip_separators_ge: "pos \<le> skip_separators src pos"
  by (simp add: skip_separators_def scan_while_ge)

lemma skip_comment_gt:
  "\<lbrakk>peek src pos = CHR ''#''; \<not> at_eof src pos\<rbrakk> \<Longrightarrow> pos < skip_comment src pos"
  by (simp add: skip_comment_def scan_while_def peek_def at_eof_def drop_nth_Cons)

function parse_loop ::
  "'re go_lib \<Rightarrow> bool \<Rightarrow> string \<Rightarrow> nat \<Rightarrow> nat list \<Rightarrow> 're command list \<Rightarrow>
   sed_error + 're command list"
where
  "parse_loop L ere src pos0 opn cmds =
     (let pos = skip_separators src pos0 in
      if at_eof src pos then
        (if opn = [] then Inr cmds else Inl (Msg (''unmatched `{'' @ [CHR 0x27])))
      else if peek src pos = CHR ''#'' then
        parse_loop L ere src (skip_comment src pos) opn cmds
      else (case parse_one L ere src pos of
        Inl e \<Rightarrow> Inl e
      | Inr (cmd, pos') \<Rightarrow> (case push_command pos' cmd opn cmds of
          Inl e \<Rightarrow> Inl e
        | Inr (opn', cmds') \<Rightarrow> parse_loop L ere src pos' opn' cmds')))"
  by pat_completeness auto

termination
proof (relation "measure (\<lambda>(L, ere, src, pos, opn, cmds). length src - pos)", goal_cases)
  case (2 L ere src pos0 opn cmds pos)
  then show ?case
    using skip_comment_gt [of src pos] skip_separators_ge [of pos0 src] by (simp add: at_eof_def)
next
  case (3 L ere src pos0 opn cmds pos x cmd pos')
  then show ?case
    using skip_separators_ge [of pos0 src] by (auto simp: at_eof_def dest!: parse_one_gt)
qed simp

declare parse_loop.simps [simp del]

subsection \<open>Branch targets\<close>

fun label_table ::
  "(string \<rightharpoonup> nat) \<Rightarrow> nat \<Rightarrow> 're command list \<Rightarrow> sed_error + (string \<rightharpoonup> nat)"
where
  "label_table m i [] = Inr m"
| "label_table m i (c # cs) =
     (if c_name c = CHR '':'' then
        (if m (c_text c) \<noteq> None then Inl (Duplicate_Label (c_text c))
         else label_table (m(c_text c \<mapsto> i)) (i + 1) cs)
      else label_table m (i + 1) cs)"

fun resolve_branches ::
  "(string \<rightharpoonup> nat) \<Rightarrow> nat \<Rightarrow> 're command list \<Rightarrow> sed_error + 're command list"
where
  "resolve_branches m n [] = Inr []"
| "resolve_branches m n (c # cs) =
     (if c_name c \<in> set ''btT'' then
        (if c_text c = [] then emit_to [c\<lparr>c_block := n\<rparr>] (resolve_branches m n cs)
         else (case m (c_text c) of
             None \<Rightarrow> Inl (Msg (''can'' @ [CHR 0x27] @ ''t find label for jump to `'' @ c_text c @ [CHR 0x27]))
           | Some i \<Rightarrow> emit_to [c\<lparr>c_block := i\<rparr>] (resolve_branches m n cs)))
      else emit_to [c] (resolve_branches m n cs))"

definition sed_parse :: "'re go_lib \<Rightarrow> string \<Rightarrow> bool \<Rightarrow> sed_error + 're command list" where
  "sed_parse L src ere =
     (case parse_loop L ere src 0 [] [] of
        Inl e \<Rightarrow> Inl e
      | Inr cmds \<Rightarrow> (case label_table Map.empty 0 cmds of
          Inl e \<Rightarrow> Inl e
        | Inr labels \<Rightarrow> resolve_branches labels (length cmds) cmds))"

subsection \<open>A script that parses is a well-formed program\<close>

definition regex_present :: "'re address \<Rightarrow> bool" where
  "regex_present a = (a_kind a = AddrRegex \<longrightarrow> a_empty a \<or> a_re a \<noteq> None)"

definition addresses_ok :: "'re command \<Rightarrow> bool" where
  "addresses_ok c =
     (regex_present (c_a1 c) \<and> regex_present (c_a2 c) \<and>
      a_kind (c_a1 c) \<noteq> AddrPlus \<and> a_kind (c_a2 c) \<noteq> AddrZero \<and>
      (a_kind (c_a1 c) = AddrNone \<longrightarrow> a_kind (c_a2 c) = AddrNone) \<and>
      (a_kind (c_a1 c) = AddrZero \<longrightarrow> a_kind (c_a2 c) = AddrRegex))"

definition command_ok :: "'re command \<Rightarrow> bool" where
  "command_ok c =
     (addresses_ok c \<and> c_name c \<in> set ''{}=dDgGhHnNpPxzqQ:btTrwaicsy'' \<and> \<not> c_active c \<and>
      (c_name c = CHR ''s'' \<longrightarrow> c_nth c \<noteq> 0 \<and> (c_re_empty c \<or> c_re c \<noteq> None)) \<and>
      (c_name c = CHR '':'' \<longrightarrow> a_kind (c_a1 c) = AddrNone \<and> c_text c \<noteq> []))"

lemma address_regex_present:
  "address_regex L ere delim src pos = Inr (a, pos') \<Longrightarrow> a_kind a = AddrRegex \<and> regex_present a"
  by (auto simp: address_regex_def Let_def regex_present_def split: sum.splits if_splits)

lemma parse_address_ok:
  "parse_address L ere first src pos = Inr (a, pos') \<Longrightarrow>
   regex_present a \<and> (first \<longrightarrow> a_kind a \<noteq> AddrPlus) \<and> (\<not> first \<longrightarrow> a_kind a \<noteq> AddrZero)"
  unfolding parse_address_def Let_def case_prod_beta
  by (elim ifE)
    (auto simp: errorf_def regex_present_def no_address_def dest!: address_regex_present)

lemma parse_addresses_ok:
  assumes "parse_addresses L ere src pos = Inr (cmd, pos')"
  shows "addresses_ok cmd \<and> \<not> c_active cmd \<and> c_nth cmd = 0"
proof -
  from assms obtain a1 pos1 a2 where 1: "parse_address L ere True src pos = Inr (a1, pos1)"
    and cmd: "cmd = new_command\<lparr>c_a1 := a1, c_a2 := a2\<rparr>"
    and zero: "a_kind a1 = AddrZero \<Longrightarrow> a_kind a2 = AddrRegex"
    and 2: "a2 = no_address \<and> pos' = pos1 \<or>
     a_kind a1 \<noteq> AddrNone \<and> a_kind a2 \<noteq> AddrNone \<and>
       parse_address L ere False src (skip_space src (pos1 + 1)) = Inr (a2, pos')"
    by (rule parse_addresses_cases) blast
  from 2 have "regex_present a2 \<and> a_kind a2 \<noteq> AddrZero \<and> (a_kind a1 = AddrNone \<longrightarrow> a_kind a2 = AddrNone)"
    using parse_address_ok [of L ere False] by (auto simp: no_address_def regex_present_def)
  with parse_address_ok [OF 1] cmd zero show ?thesis
    by (simp add: addresses_ok_def new_command_def)
qed

lemma subst_flags_keeps:
  "subst_flags src cmd icase multi pos = Inr (cmd', icase', multi', pos') \<Longrightarrow>
   c_a1 cmd' = c_a1 cmd \<and> c_a2 cmd' = c_a2 cmd \<and> c_active cmd' = c_active cmd \<and>
   c_name cmd' = c_name cmd"
proof (induction src cmd icase multi pos rule: subst_flags.induct)
  case (1 src cmd icase multi pos)
  show ?case
  proof (cases "at_eof src pos")
    case True
    with "1.prems" show ?thesis by (simp add: subst_flags.simps [of src cmd icase multi pos])
  next
    case False
    note IH = "1.IH" [OF False refl]
    from "1.prems" False show ?thesis
      unfolding subst_flags.simps [of src cmd icase multi pos] Let_def
      apply (simp only: if_False)
      apply (elim ifE)
      subgoal using IH(1) by simp
      subgoal using IH(2) by simp
      subgoal using IH(3) by simp
      subgoal using IH(4) by simp
      subgoal using IH(5) by simp
      subgoal by (auto simp: errorf_def split: prod.splits if_splits)
      by (simp_all add: errorf_def)
  qed
qed

lemma parse_substitute_ok:
  assumes "parse_substitute L ere src cmd pos = Inr (cmd', pos')"
  shows "c_a1 cmd' = c_a1 cmd \<and> c_a2 cmd' = c_a2 cmd \<and> c_active cmd' = c_active cmd \<and>
    c_name cmd' = c_name cmd \<and> c_nth cmd' \<noteq> 0 \<and> (c_re_empty cmd' \<or> c_re cmd' \<noteq> None)"
  using assms
  by (auto simp: parse_substitute_def Let_def errorf_def map_sum_def
      dest!: subst_flags_keeps split: if_splits prod.splits sum.splits)

lemma parse_command_ok:
  assumes "parse_command L ere src cmd pos = Inr (cmd', pos')" "addresses_ok cmd" "\<not> c_active cmd"
  shows "command_ok cmd'"
proof -
  have keep: "c_a1 cmd' = c_a1 cmd \<and> c_a2 cmd' = c_a2 cmd \<and> c_active cmd' = c_active cmd \<and>
      c_name cmd' = c_name cmd \<and> c_name cmd \<in> set ''{}=dDgGhHnNpPxzqQ:btTrwaicsy'' \<and>
      (c_name cmd = CHR ''s'' \<longrightarrow> c_nth cmd' \<noteq> 0 \<and> (c_re_empty cmd' \<or> c_re cmd' \<noteq> None)) \<and>
      (c_name cmd = CHR '':'' \<longrightarrow> a_kind (c_a1 cmd) = AddrNone \<and> c_text cmd' \<noteq> [])"
    using assms(1) unfolding parse_command_def Let_def
    by (elim ifE)
      (auto simp: errorf_def map_sum_def parse_text_def parse_translit_def Let_def
        split: prod.splits sum.splits if_splits dest!: parse_substitute_ok)
  with assms(2,3) show ?thesis by (simp add: command_ok_def addresses_ok_def)
qed

lemma parse_one_ok:
  assumes "parse_one L ere src pos = Inr (cmd, pos')"
  shows "command_ok cmd"
proof -
  from assms obtain c pos1 where a: "parse_addresses L ere src pos = Inr (c, pos1)"
    by (auto simp: parse_one_def split: sum.splits)
  with assms obtain neg pos2 where
    "parse_command L ere src (c\<lparr>c_negate := neg, c_name := src ! pos2\<rparr>) (pos2 + 1) = Inr (cmd, pos')"
    by (auto simp: parse_one_def errorf_def split: if_splits prod.splits)
  then show ?thesis
    by (rule parse_command_ok) (use parse_addresses_ok [OF a] in \<open>simp_all add: addresses_ok_def\<close>)
qed

text \<open>
  Blocks: \<open>block_at cmds i\<close> is the index of the \<open>}\<close> of the block opened at \<open>i\<close>. They are nested:
  a block opened inside another ends inside it.
\<close>

definition block_at :: "'re command list \<Rightarrow> nat \<Rightarrow> bool" where
  "block_at cmds i = (i < length cmds \<and> c_name (cmds ! i) = CHR ''{'')"

definition closed_ok :: "'re command list \<Rightarrow> nat \<Rightarrow> bool" where
  "closed_ok cmds i =
     (i < c_block (cmds ! i) \<and> c_block (cmds ! i) < length cmds \<and>
      c_name (cmds ! c_block (cmds ! i)) = CHR ''}'')"

definition nested :: "nat set \<Rightarrow> 're command list \<Rightarrow> bool" where
  "nested opn cmds =
     (\<forall>i j. block_at cmds i \<and> block_at cmds j \<and> i < j \<and> i \<notin> opn \<longrightarrow>
        c_block (cmds ! i) < j \<or> j \<notin> opn \<and> c_block (cmds ! j) < c_block (cmds ! i))"

definition blocks_inv :: "nat list \<Rightarrow> 're command list \<Rightarrow> bool" where
  "blocks_inv opn cmds =
     (sorted_wrt (>) opn \<and> (\<forall>i \<in> set opn. block_at cmds i) \<and>
      (\<forall>i. block_at cmds i \<and> i \<notin> set opn \<longrightarrow> closed_ok cmds i) \<and> nested (set opn) cmds)"

lemma block_at_append:
  "block_at (cmds @ [c]) i \<longleftrightarrow> block_at cmds i \<or> i = length cmds \<and> c_name c = CHR ''{''"
  by (auto simp: block_at_def nth_append)

lemma blocks_inv_append:
  assumes inv: "blocks_inv opn cmds" and c: "c_name c \<noteq> CHR ''{''"
  shows "blocks_inv opn (cmds @ [c])"
  using assms
  by (auto simp: blocks_inv_def block_at_append closed_ok_def nested_def nth_append block_at_def)

lemma blocks_inv_open:
  assumes inv: "blocks_inv opn cmds" and c: "c_name c = CHR ''{''"
  shows "blocks_inv (length cmds # opn) (cmds @ [c])"
proof -
  have in_range: "i < length cmds" if "i \<in> set opn" for i
    using inv that by (auto simp: blocks_inv_def block_at_def)
  have old: "closed_ok (cmds @ [c]) i" if "block_at cmds i" "i \<notin> set opn" for i
    using inv that by (auto simp: blocks_inv_def closed_ok_def nth_append block_at_def)
  have "nested (insert (length cmds) (set opn)) (cmds @ [c])"
    using inv by (auto simp: blocks_inv_def nested_def block_at_append nth_append closed_ok_def)
  with inv c in_range old show ?thesis
    by (auto simp: blocks_inv_def block_at_append)
qed

lemma blocks_inv_close:
  assumes inv: "blocks_inv (i # opn) cmds" and c: "c_name c = CHR ''}''"
  shows "blocks_inv opn (cmds[i := (cmds ! i)\<lparr>c_block := length cmds\<rparr>] @ [c])"
proof -
  let ?cmds = "cmds[i := (cmds ! i)\<lparr>c_block := length cmds\<rparr>]"
  have i: "block_at cmds i" and top: "\<forall>j \<in> set opn. j < i"
    using inv by (auto simp: blocks_inv_def)
  have at: "block_at (?cmds @ [c]) j \<longleftrightarrow> block_at cmds j" for j
    using c i by (auto simp: block_at_def nth_append nth_list_update)
  have blk: "c_block ((?cmds @ [c]) ! j) = (if j = i then length cmds else c_block (cmds ! j))"
    if "block_at cmds j" for j
    using that i by (auto simp: block_at_def nth_append nth_list_update)
  have below: "c_block (cmds ! j) < length cmds" if "block_at cmds j" "j \<notin> set opn" "j \<noteq> i" for j
    using inv that by (auto simp: blocks_inv_def closed_ok_def)
  have closed: "closed_ok (?cmds @ [c]) j" if j: "block_at cmds j" "j \<notin> set opn" for j
  proof (cases "j = i")
    case True
    with blk [OF j(1)] i c show ?thesis by (simp add: closed_ok_def block_at_def nth_append)
  next
    case False
    with inv j have "closed_ok cmds j" by (auto simp: blocks_inv_def)
    with False blk [OF j(1)] below [OF j] i show ?thesis
      by (simp add: closed_ok_def nth_append nth_list_update block_at_def)
  qed
  have "nested (set opn) (?cmds @ [c])"
    unfolding nested_def
  proof (intro allI impI, elim conjE)
    fix k j assume k: "block_at (?cmds @ [c]) k" "k \<notin> set opn" and j: "block_at (?cmds @ [c]) j" and "k < j"
    note kj = k(1)[unfolded at] j[unfolded at]
    show "c_block ((?cmds @ [c]) ! k) < j \<or>
        j \<notin> set opn \<and> c_block ((?cmds @ [c]) ! j) < c_block ((?cmds @ [c]) ! k)"
    proof (cases "k = i")
      case True
      with top \<open>k < j\<close> have "j \<notin> set opn" "j \<noteq> i" by auto
      with True below [OF kj(2)] blk [OF kj(1)] blk [OF kj(2)] show ?thesis by simp
    next
      case False
      with inv kj k(2) \<open>k < j\<close> have "c_block (cmds ! k) < j \<or>
          j \<notin> insert i (set opn) \<and> c_block (cmds ! j) < c_block (cmds ! k)"
        by (auto simp: blocks_inv_def nested_def)
      with False blk [OF kj(1)] blk [OF kj(2)] show ?thesis by auto
    qed
  qed
  moreover have "\<forall>j \<in> set opn. block_at (?cmds @ [c]) j"
    using inv at by (auto simp: blocks_inv_def)
  ultimately show ?thesis
    using inv closed at by (auto simp: blocks_inv_def)
qed

lemma push_command_inv:
  assumes "push_command pos cmd opn cmds = Inr (opn', cmds')" "blocks_inv opn cmds"
  shows "blocks_inv opn' cmds'"
  using assms blocks_inv_open [of opn cmds cmd] blocks_inv_append [of opn cmds cmd] blocks_inv_close
  by (auto simp: push_command_def errorf_def split: if_splits list.splits)

lemma push_command_all:
  assumes "push_command pos cmd opn cmds = Inr (opn', cmds')" "P cmd" "list_all P cmds"
    "\<And>c n. P c \<Longrightarrow> P (c\<lparr>c_block := n\<rparr>)" "blocks_inv opn cmds"
  shows "list_all P cmds'"
proof -
  have "P ((cmds ! i)\<lparr>c_block := n\<rparr>)" if "opn = i # is" for i n "is"
    using assms(3,4,5) that by (auto simp: blocks_inv_def block_at_def list_all_length)
  with assms(1,2,3) show ?thesis
    by (auto simp: push_command_def errorf_def split: if_splits list.splits intro!: list_all_update)
qed

lemma command_ok_block [simp]: "command_ok (c\<lparr>c_block := n\<rparr>) = command_ok c"
  by (simp add: command_ok_def addresses_ok_def)

lemma parse_loop_ok:
  "\<lbrakk>parse_loop L ere src pos opn cmds = Inr cmds'; blocks_inv opn cmds; list_all command_ok cmds\<rbrakk> \<Longrightarrow>
   blocks_inv [] cmds' \<and> list_all command_ok cmds'"
proof (induction L ere src pos opn cmds rule: parse_loop.induct)
  case (1 L ere src pos0 opn cmds)
  let ?pos = "skip_separators src pos0"
  note unfold = parse_loop.simps [of L ere src pos0 opn cmds]
  show ?case
  proof (cases "at_eof src ?pos")
    case True
    with "1.prems" unfold show ?thesis by (simp add: Let_def split: if_splits)
  next
    case eof: False
    show ?thesis
    proof (cases "peek src ?pos = CHR ''#''")
      case True
      have "parse_loop L ere src (skip_comment src ?pos) opn cmds = Inr cmds'"
        using "1.prems"(1) eof True unfold by (simp add: Let_def)
      then show ?thesis by (rule "1.IH"(1) [OF refl eof True]) (use "1.prems" in auto)
    next
      case False
      with eof "1.prems"(1) unfold obtain cmd pos' opn' cmds1
        where one: "parse_one L ere src ?pos = Inr (cmd, pos')"
          and push: "push_command pos' cmd opn cmds = Inr (opn', cmds1)"
          and loop: "parse_loop L ere src pos' opn' cmds1 = Inr cmds'"
        by (auto simp: Let_def split: sum.splits)
      show ?thesis
      proof (rule "1.IH"(2) [OF refl eof False one refl push refl loop])
        show "blocks_inv opn' cmds1" by (rule push_command_inv [OF push "1.prems"(2)])
        show "list_all command_ok cmds1"
          by (rule push_command_all [OF push parse_one_ok [OF one] "1.prems"(3) _ "1.prems"(2)]) simp
      qed
    qed
  qed
qed

text \<open>A branch knows its target: the end of the script or the label of its name.\<close>

definition branch_ok :: "'re command list \<Rightarrow> 're command \<Rightarrow> bool" where
  "branch_ok cmds c =
     (c_name c \<in> set ''btT'' \<longrightarrow>
        (if c_text c = [] then c_block c = length cmds
         else c_block c < length cmds \<and> c_name (cmds ! c_block c) = CHR '':'' \<and>
              c_text (cmds ! c_block c) = c_text c))"

definition wf_program :: "'re command list \<Rightarrow> bool" where
  "wf_program cmds =
     (list_all command_ok cmds \<and> list_all (branch_ok cmds) cmds \<and>
      (\<forall>i. block_at cmds i \<longrightarrow> closed_ok cmds i) \<and> nested {} cmds)"

lemma label_table_ok:
  assumes "label_table m (length pre) cs = Inr labels"
    "\<forall>l i. m l = Some i \<longrightarrow> i < length pre \<and> c_name (pre ! i) = CHR '':'' \<and> c_text (pre ! i) = l"
  shows "\<forall>l i. labels l = Some i \<longrightarrow> i < length (pre @ cs) \<and>
    c_name ((pre @ cs) ! i) = CHR '':'' \<and> c_text ((pre @ cs) ! i) = l"
  using assms
proof (induction cs arbitrary: m pre)
  case Nil
  then show ?case by simp
next
  case (Cons c cs)
  show ?case
  proof (cases "c_name c = CHR '':''")
    case True
    with Cons.prems have "label_table (m(c_text c \<mapsto> length pre)) (length (pre @ [c])) cs = Inr labels"
      by (simp split: if_splits)
    from Cons.IH [OF this] True Cons.prems(2) show ?thesis
      by (fastforce simp: nth_append split: if_splits)
  next
    case False
    with Cons.prems have "label_table m (length (pre @ [c])) cs = Inr labels" by simp
    from Cons.IH [OF this] Cons.prems(2) show ?thesis
      by (fastforce simp: nth_append)
  qed
qed

definition resolved ::
  "(string \<rightharpoonup> nat) \<Rightarrow> nat \<Rightarrow> 're command \<Rightarrow> 're command \<Rightarrow> bool"
where
  "resolved m n c c' =
     (if c_name c \<in> set ''btT'' then
        \<exists>t. c' = c\<lparr>c_block := t\<rparr> \<and> (if c_text c = [] then t = n else m (c_text c) = Some t)
      else c' = c)"

lemma resolve_branches_all2:
  "resolve_branches m n cs = Inr cs' \<Longrightarrow> list_all2 (resolved m n) cs cs'"
proof (induction cs arbitrary: cs')
  case (Cons c cs)
  let ?R = "resolve_branches m n cs"
  have "\<exists>c' rest. ?R = Inr rest \<and> cs' = c' # rest \<and> resolved m n c c'"
  proof (cases "c_name c \<in> set ''btT''")
    case False
    with Cons.prems have "emit_to [c] ?R = Inr cs'" by (simp only: resolve_branches.simps if_False)
    with False show ?thesis by (auto simp only: emit_to_Inr resolved_def append.simps if_False)
  next
    case branch: True
    show ?thesis
    proof (cases "c_text c = []")
      case True
      with branch Cons.prems have "emit_to [c\<lparr>c_block := n\<rparr>] ?R = Inr cs'"
        by (simp only: resolve_branches.simps if_True simp_thms)
      with branch True show ?thesis
        by (auto simp only: emit_to_Inr resolved_def append.simps if_True simp_thms)
    next
      case False
      with branch Cons.prems obtain t where t: "m (c_text c) = Some t"
        by (simp only: resolve_branches.simps if_True if_False) (auto split: option.splits)
      with branch False Cons.prems have "emit_to [c\<lparr>c_block := t\<rparr>] ?R = Inr cs'"
        by (simp only: resolve_branches.simps if_True if_False option.case)
      with branch False t show ?thesis
        by (auto simp only: emit_to_Inr resolved_def append.simps if_True if_False)
    qed
  qed
  with Cons.IH show ?case by auto
qed simp

lemma resolved_fields:
  "resolved m n c c' \<Longrightarrow> c_name c' = c_name c \<and> c_text c' = c_text c \<and> command_ok c' = command_ok c"
  by (auto simp: resolved_def split: if_splits)

lemma resolved_block:
  "\<lbrakk>resolved m n c c'; c_name c = CHR ''{'' \<rbrakk> \<Longrightarrow> c' = c"
  by (simp add: resolved_def)

text \<open>
  C2. A script that parses is a well-formed program: every command's addresses and regular
  expression are there, every block has its closing brace after it and blocks nest, and every
  branch leads to the end of the script or to the label it names.
\<close>

theorem sed_parse_wf:
  assumes "sed_parse L src ere = Inr cmds"
  shows "wf_program cmds"
proof -
  from assms obtain cmds0 labels where loop: "parse_loop L ere src 0 [] [] = Inr cmds0"
    and tab: "label_table Map.empty 0 cmds0 = Inr labels"
    and res: "resolve_branches labels (length cmds0) cmds0 = Inr cmds"
    by (auto simp: sed_parse_def split: sum.splits)
  have ok: "blocks_inv [] cmds0" "list_all command_ok cmds0"
    using parse_loop_ok [OF loop]
    by (auto simp: blocks_inv_def block_at_def nested_def)
  have all2: "list_all2 (resolved labels (length cmds0)) cmds0 cmds"
    by (rule resolve_branches_all2 [OF res])
  then have len: "length cmds = length cmds0" by (simp add: list_all2_lengthD)
  have nth: "resolved labels (length cmds0) (cmds0 ! i) (cmds ! i)" if "i < length cmds" for i
    using all2 that len by (simp add: list_all2_nthD)
  have names: "c_name (cmds ! i) = c_name (cmds0 ! i)" "c_text (cmds ! i) = c_text (cmds0 ! i)"
    if "i < length cmds" for i
    using resolved_fields [OF nth [OF that]] by simp_all
  have at: "block_at cmds i = block_at cmds0 i" for i
    using names len by (auto simp: block_at_def)
  have same: "cmds ! i = cmds0 ! i" if "block_at cmds0 i" for i
    using resolved_block [OF nth] that len by (simp add: block_at_def)
  have "list_all command_ok cmds"
    using ok(2) len resolved_fields [OF nth] by (simp add: list_all_length)
  moreover have "list_all (branch_ok cmds) cmds"
    unfolding list_all_length
  proof (intro allI impI)
    fix i assume i: "i < length cmds"
    have target: "j < length cmds \<and> c_name (cmds ! j) = CHR '':'' \<and> c_text (cmds ! j) = l"
      if "labels l = Some j" for l j
      using label_table_ok [of Map.empty "[]" cmds0 labels] tab that len names by simp
    show "branch_ok cmds (cmds ! i)"
      using nth [OF i] len target
      by (cases "c_name (cmds0 ! i) \<in> set ''btT''"; cases "c_text (cmds0 ! i) = []")
        (simp_all only: branch_ok_def names [OF i] if_True if_False resolved_def, auto)
  qed
  moreover have "closed_ok cmds i" if "block_at cmds i" for i
  proof -
    from that ok(1) at have "closed_ok cmds0 i" by (auto simp: blocks_inv_def)
    with same names len that at show ?thesis by (simp add: closed_ok_def)
  qed
  moreover have "nested {} cmds"
    using ok(1) by (auto simp: blocks_inv_def nested_def at same)
  ultimately show ?thesis by (simp add: wf_program_def)
qed

theorem sed_parse_wf_witness:
  "wf_program (projr (sed_parse rx_lib ''1,/x/{ s/a/b/g; t end }; $!d; :end'' False))"
proof (rule sed_parse_wf)
  have "\<not> isl (sed_parse rx_lib ''1,/x/{ s/a/b/g; t end }; $!d; :end'' False)" by code_simp
  then show "sed_parse rx_lib ''1,/x/{ s/a/b/g; t end }; $!d; :end'' False =
      Inr (projr (sed_parse rx_lib ''1,/x/{ s/a/b/g; t end }; $!d; :end'' False))"
    by simp
qed

subsection \<open>Quoted text comes back literally\<close>

text \<open>A text written as the replacement of an \<open>s\<close> command, as sed asks for it.\<close>

definition repl_quote :: "char \<Rightarrow> string \<Rightarrow> string" where
  "repl_quote delim s = concat (map (\<lambda>c.
     if c = CHR ''&'' \<or> c = CHR 0x5C \<or> c = delim \<or> c = CHR 0x0A then [CHR 0x5C, c] else [c]) s)"

definition repl_raw :: "char \<Rightarrow> string \<Rightarrow> string" where
  "repl_raw delim s = concat (map (\<lambda>c.
     if c = CHR ''&'' \<or> c = CHR 0x5C \<or> c = delim then [CHR 0x5C, c] else [c]) s)"

lemma delimited_loop_quote:
  "delim \<noteq> CHR 0x0A \<and> delim \<noteq> CHR 0x5C \<Longrightarrow>
   delimited_loop delim pos (repl_quote delim s @ delim # rest) =
     Inr (repl_raw delim s, pos + length (repl_quote delim s) + 1)"
proof (induction s arbitrary: pos)
  case Nil
  then show ?case by (simp add: repl_quote_def repl_raw_def)
next
  case (Cons c s)
  have q: "repl_quote delim (c # s) =
      (if c = CHR ''&'' \<or> c = CHR 0x5C \<or> c = delim \<or> c = CHR 0x0A then [CHR 0x5C, c] else [c]) @
      repl_quote delim s"
    and r: "repl_raw delim (c # s) =
      (if c = CHR ''&'' \<or> c = CHR 0x5C \<or> c = delim then [CHR 0x5C, c] else [c]) @ repl_raw delim s"
    by (simp_all add: repl_quote_def repl_raw_def)
  show ?case
    using Cons unfolding q r by (cases "c = CHR 0x0A") (auto simp: emit_fst_def)
qed

lemma parse_replacement_raw:
  "\<not> is_digit delim \<and> delim \<notin> set ''ntULulE'' \<Longrightarrow>
   parse_replacement_from lit (repl_raw delim s) = flush_lit (lit @ s)"
proof (induction s arbitrary: lit)
  case Nil
  then show ?case by (simp add: repl_raw_def)
next
  case (Cons c s)
  have r: "repl_raw delim (c # s) =
      (if c = CHR ''&'' \<or> c = CHR 0x5C \<or> c = delim then [CHR 0x5C, c] else [c]) @ repl_raw delim s"
    by (simp add: repl_raw_def)
  have "\<not> is_digit (CHR ''&'')" "\<not> is_digit (CHR 0x5C)"
    by (simp_all add: is_digit_def byte_of_def)
  with Cons show ?case unfolding r by auto
qed

text \<open>
  C15. A text in which \<open>&\<close>, the backslash, the delimiter and newlines are escaped, read as the
  replacement of an \<open>s\<close> command, is that text and nothing else, for every delimiter that is
  not a letter or digit an escape gives a meaning to.
\<close>

theorem replacement_roundtrip:
  assumes "delim \<noteq> CHR 0x0A" "delim \<noteq> CHR 0x5C" "\<not> is_digit delim" "delim \<notin> set ''ntULulE''"
  shows "\<exists>raw. delimited delim (pre @ repl_quote delim s @ delim # rest) (length pre) =
      Inr (raw, length (pre @ repl_quote delim s) + 1) \<and>
    parse_replacement raw = (if s = [] then [] else [Lit s])"
  using delimited_loop_quote [of delim "length pre" s rest] parse_replacement_raw [of delim "[]" s] assms
  by (auto simp: delimited_def parse_replacement_def flush_lit_def)

theorem replacement_roundtrip_witness:
  "\<exists>raw. delimited (CHR ''/'') (''s/x/'' @ repl_quote (CHR ''/'') ''a/b&c'' @ ''/g'') 4 = Inr (raw, 12) \<and>
    parse_replacement raw = [Lit ''a/b&c'']"
  using replacement_roundtrip [of "CHR ''/''" "''s/x/''" "''a/b&c''" "''g''"]
  by (simp add: is_digit_def byte_of_def repl_quote_def numeral_eq_Suc)

end
