(* ===== verification/Sed_Exec.thy ===== *)
theory Sed_Exec
  imports Sed_Parse
begin

text \<open>
  The interpreter of the sed package, \<^verbatim>\<open>src/shell/sed/sed.go\<close>: compiling a script, reading
  lines with one line of lookahead, the output that remembers a missing last newline, the
  selection of commands by address and range, the commands and the cycle. The outside
  world is a value \<open>'w\<close> that the functions of \<open>io\<close> read and change; a read or write of
  it is the only effect. A Go panic is the failure \<open>Panics\<close>; loops that a script can keep
  going for ever are partial functions whose value is \<open>None\<close> then.
\<close>

subsection \<open>The program, its input and its output\<close>

record 'w io =
  io_write :: "nat \<Rightarrow> string \<Rightarrow> 'w \<Rightarrow> string option \<times> 'w" \<comment> \<open>a writer, by its handle\<close>
  io_read_file :: "(string \<Rightarrow> 'w \<Rightarrow> string option \<times> 'w) option"
  io_open_write :: "(string \<Rightarrow> 'w \<Rightarrow> (string + nat) \<times> 'w) option"

record 're program =
  p_quiet :: bool
  p_cmds :: "'re command list"
  p_hold :: string
  p_last_rx :: "'re option"
  p_writers :: "string \<rightharpoonup> nat"
  p_code :: int

record sed_input =
  i_readers :: "string list"
  i_cur :: "string option"
  i_next :: string
  i_next_nl :: bool
  i_has_next :: bool
  i_line :: int

record sed_output =
  o_w :: nat
  o_missing_nl :: bool
  o_err :: "string option"

record ('re, 'w) sstate =
  s_p :: "'re program"
  s_in :: sed_input
  s_out :: sed_output
  s_ps :: string
  s_nl :: bool
  s_replaced :: bool
  s_append_q :: "string list"
  s_quit :: bool
  s_code :: int
  s_world :: 'w

datatype sed_fail = Fails sed_error | Panics

definition sed_compile ::
  "'re go_lib \<Rightarrow> string \<Rightarrow> bool \<Rightarrow> bool \<Rightarrow> sed_error + 're program" where
  "sed_compile L script quiet extended =
     (let quiet' = (if has_prefix script [CHR ''#'', CHR ''n'', CHR 0x0A] \<or> script = ''#n''
                    then True else quiet) in
      case sed_parse L script extended of
        Inl e \<Rightarrow> Inl e
      | Inr cmds \<Rightarrow> Inr \<lparr>p_quiet = quiet',
          p_cmds = map (\<lambda>c. if a_kind (c_a1 c) = AddrZero then c\<lparr>c_active := True\<rparr> else c) cmds,
          p_hold = [], p_last_rx = None, p_writers = Map.empty, p_code = 0\<rparr>)"

text \<open>
  \<^verbatim>\<open>advance\<close>: a reader is what it will yield until it fails or ends; \<^verbatim>\<open>ReadString\<close> gives up
  to and including the next newline. The list is what is left of the current reader, if
  there is one, and the readers after it.
\<close>

fun advance_loop :: "string list \<Rightarrow> sed_input \<Rightarrow> sed_input" where
  "advance_loop [] i = i\<lparr>i_cur := None, i_readers := [], i_has_next := False\<rparr>"
| "advance_loop (r # rs) i =
     (if r = [] then advance_loop rs i
      else let s = takeWhile (\<lambda>c. c \<noteq> CHR 0x0A) r; rest = dropWhile (\<lambda>c. c \<noteq> CHR 0x0A) r in
        i\<lparr>i_cur := Some (tl rest), i_readers := rs, i_next := s, i_next_nl := (rest \<noteq> []),
          i_has_next := True\<rparr>)"

definition advance :: "sed_input \<Rightarrow> sed_input" where
  "advance i = advance_loop (case i_cur i of None \<Rightarrow> i_readers i | Some r \<Rightarrow> r # i_readers i) i"

definition new_input :: "string list \<Rightarrow> sed_input" where
  "new_input rs = advance \<lparr>i_readers = rs, i_cur = None, i_next = [], i_next_nl = False,
     i_has_next = False, i_line = 0\<rparr>"

definition read_line :: "sed_input \<Rightarrow> (string \<times> bool) option \<times> sed_input" where
  "read_line i =
     (if \<not> i_has_next i then (None, i)
      else (Some (i_next i, i_next_nl i), (advance i)\<lparr>i_line := wrap64 (i_line i + 1)\<rparr>))"

definition out_write :: "'w io \<Rightarrow> string \<Rightarrow> sed_output \<times> 'w \<Rightarrow> sed_output \<times> 'w" where
  "out_write W s ow =
     (let (out, w) = ow in
      if o_err out \<noteq> None then (out, w)
      else (let (out1, w1) = (if o_missing_nl out
                 then (let (e, w') = io_write W (o_w out) [CHR 0x0A] w
                       in (out\<lparr>o_missing_nl := False, o_err := e\<rparr>, w'))
                 else (out, w))
            in if o_err out1 \<noteq> None then (out1, w1)
               else (let (e, w2) = io_write W (o_w out) s w1 in (out1\<lparr>o_err := e\<rparr>, w2))))"

definition out_line :: "'w io \<Rightarrow> string \<Rightarrow> bool \<Rightarrow> sed_output \<times> 'w \<Rightarrow> sed_output \<times> 'w" where
  "out_line W s nl ow =
     (let ow1 = out_write W s ow in
      if nl then out_write W [CHR 0x0A] ow1
      else ((fst ow1)\<lparr>o_missing_nl := True\<rparr>, snd ow1))"

definition with_out ::
  "(sed_output \<times> 'w \<Rightarrow> sed_output \<times> 'w) \<Rightarrow> ('re, 'w) sstate \<Rightarrow> ('re, 'w) sstate" where
  "with_out f st = (let (out, w) = f (s_out st, s_world st) in st\<lparr>s_out := out, s_world := w\<rparr>)"

definition flush_appends :: "'w io \<Rightarrow> ('re, 'w) sstate \<Rightarrow> ('re, 'w) sstate" where
  "flush_appends W st =
     (fold (\<lambda>a. with_out (out_write W a)) (s_append_q st) st)\<lparr>s_append_q := []\<rparr>"

definition autoprint :: "'w io \<Rightarrow> ('re, 'w) sstate \<Rightarrow> ('re, 'w) sstate" where
  "autoprint W st = (if p_quiet (s_p st) then st else with_out (out_line W (s_ps st) (s_nl st)) st)"

definition last_line :: "('re, 'w) sstate \<Rightarrow> bool" where
  "last_line st = (\<not> i_has_next (s_in st))"

subsection \<open>Selection\<close>

text \<open>The regular expression to use: the address's or the last one used; it becomes the last.\<close>

definition match_regex ::
  "'re go_lib \<Rightarrow> string \<Rightarrow> 're address \<Rightarrow> 're option \<Rightarrow> sed_fail + bool \<times> 're option" where
  "match_regex L ps a lastrx =
     (if a_empty a then
        (case lastrx of
           None \<Rightarrow> Inl (Fails (Msg ''no previous regular expression''))
         | Some re \<Rightarrow> Inr (match_string L re ps, lastrx))
      else (case a_re a of
          None \<Rightarrow> Inl Panics
        | Some re \<Rightarrow> Inr (match_string L re ps, Some re)))"

text \<open>Go's remainder has the sign of the dividend; only whether it is 0 is asked.\<close>

definition divides_line :: "int \<Rightarrow> int \<Rightarrow> bool" where
  "divides_line k n = (n mod k = 0)"

definition match_one ::
  "'re go_lib \<Rightarrow> ('re, 'w) sstate \<Rightarrow> 're address \<Rightarrow> sed_fail + bool \<times> 're option" where
  "match_one L st a =
     (let lastrx = p_last_rx (s_p st); line = i_line (s_in st) in
      case a_kind a of
        AddrLine \<Rightarrow> Inr (line = a_line a, lastrx)
      | AddrLast \<Rightarrow> Inr (last_line st, lastrx)
      | AddrRegex \<Rightarrow> match_regex L (s_ps st) a lastrx
      | AddrStep \<Rightarrow>
          (if a_step a \<le> 0 then Inr (line = a_line a, lastrx)
           else Inr (a_line a \<le> line \<and> divides_line (a_step a) (wrap64 (line - a_line a)), lastrx))
      | _ \<Rightarrow> Inr (False, lastrx))"

text \<open>The first line of a range: whether the range goes on, and its end by count.\<close>

definition enter_range :: "('re, 'w) sstate \<Rightarrow> 're command \<Rightarrow> 're command" where
  "enter_range st c =
     (let ln = i_line (s_in st); a2 = c_a2 c; c1 = c\<lparr>c_active := True\<rparr> in
      case a_kind a2 of
        AddrLine \<Rightarrow> (if a_line a2 \<le> ln then c1\<lparr>c_active := False\<rparr> else c1)
      | AddrPlus \<Rightarrow>
          (let c2 = c1\<lparr>c_end_line := wrap64 (ln + a_line a2)\<rparr>
           in if a_line a2 = 0 then c2\<lparr>c_active := False\<rparr> else c2)
      | AddrStep \<Rightarrow>
          (if a_step a2 \<le> 0 \<or> divides_line (a_step a2) ln then c1\<lparr>c_active := False\<rparr> else c1)
      | AddrLast \<Rightarrow> (if last_line st then c1\<lparr>c_active := False\<rparr> else c1)
      | _ \<Rightarrow> c1)"

text \<open>A later line of a range: whether it is the last one.\<close>

definition in_range ::
  "'re go_lib \<Rightarrow> ('re, 'w) sstate \<Rightarrow> 're command \<Rightarrow> sed_fail + bool \<times> 're option" where
  "in_range L st c =
     (let ln = i_line (s_in st); a2 = c_a2 c; lastrx = p_last_rx (s_p st) in
      case a_kind a2 of
        AddrLine \<Rightarrow> Inr (a_line a2 \<le> ln, lastrx)
      | AddrPlus \<Rightarrow> Inr (c_end_line c \<le> ln, lastrx)
      | AddrStep \<Rightarrow>
          (if a_step a2 = 0 then Inl Panics else Inr (divides_line (a_step a2) ln, lastrx))
      | AddrLast \<Rightarrow> Inr (last_line st, lastrx)
      | AddrRegex \<Rightarrow> match_regex L (s_ps st) a2 lastrx
      | _ \<Rightarrow> Inr (False, lastrx))"

definition selected ::
  "'re go_lib \<Rightarrow> ('re, 'w) sstate \<Rightarrow> 're command \<Rightarrow>
   sed_fail + bool \<times> 're command \<times> 're option"
where
  "selected L st c =
     (if a_kind (c_a1 c) = AddrNone then Inr (True, c, p_last_rx (s_p st))
      else if a_kind (c_a2 c) = AddrNone then
        (case match_one L st (c_a1 c) of
           Inl e \<Rightarrow> Inl e
         | Inr (ok, lastrx) \<Rightarrow> Inr (ok, c, lastrx))
      else if \<not> c_active c then
        (case match_one L st (c_a1 c) of
           Inl e \<Rightarrow> Inl e
         | Inr (ok, lastrx) \<Rightarrow> if ok then Inr (True, enter_range st c, lastrx) else Inr (False, c, lastrx))
      else (case in_range L st c of
           Inl e \<Rightarrow> Inl e
         | Inr (ends, lastrx) \<Rightarrow> Inr (True, if ends then c\<lparr>c_active := False\<rparr> else c, lastrx)))"

subsection \<open>Substitution\<close>

text \<open>\<^verbatim>\<open>emit\<close> with the state of \<^verbatim>\<open>mode\<close> and \<^verbatim>\<open>once\<close>; no conversion is the byte 0.\<close>

fun emit_runes :: "'re go_lib \<Rightarrow> char \<Rightarrow> char \<Rightarrow> rune list \<Rightarrow> string \<times> char" where
  "emit_runes L mode once [] = ([], once)"
| "emit_runes L mode once (r # rs) =
     (let (r', once') =
        (if once = CHR ''u'' then (lib_upper L r, CHR 0x00)
         else if once = CHR ''l'' then (lib_lower L r, CHR 0x00)
         else if mode = CHR ''U'' then (lib_upper L r, once)
         else if mode = CHR ''L'' then (lib_lower L r, once)
         else (r, once));
        (b, once'') = emit_runes L mode once' rs
      in (encode_rune r' @ b, once''))"

definition group_range :: "gomatch \<Rightarrow> nat \<Rightarrow> (nat \<times> nat) option" where
  "group_range m g = (if g < length m then m ! g else None)"

definition slice :: "string \<Rightarrow> nat \<Rightarrow> nat \<Rightarrow> string option" where
  "slice s a b = (if a \<le> b \<and> b \<le> length s then Some (take (b - a) (drop a s)) else None)"

fun expand :: "'re go_lib \<Rightarrow> char \<Rightarrow> char \<Rightarrow> repl_part list \<Rightarrow> string \<Rightarrow> gomatch \<Rightarrow> string option" where
  "expand L mode once [] src m = Some []"
| "expand L mode once (CaseOp k # parts) src m =
     (if k = CHR ''U'' \<or> k = CHR ''L'' then expand L k (CHR 0x00) parts src m
      else if k = CHR ''E'' then expand L (CHR 0x00) (CHR 0x00) parts src m
      else expand L mode k parts src m)"
| "expand L mode once (Group g # parts) src m =
     (case group_range m g of
        None \<Rightarrow> expand L mode once parts src m
      | Some (a, b) \<Rightarrow> (case slice src a b of
          None \<Rightarrow> None
        | Some s \<Rightarrow>
           (let (t, once') = emit_runes L mode once (runes s)
            in map_option ((@) t) (expand L mode once' parts src m))))"
| "expand L mode once (Lit s # parts) src m =
     (let (t, once') = emit_runes L mode once (runes s)
      in map_option ((@) t) (expand L mode once' parts src m))"

text \<open>The loop over the matches: \<open>i\<close> is the index of the first, \<open>prev\<close> the end of the last replaced.\<close>

fun subst_loop ::
  "'re go_lib \<Rightarrow> 're command \<Rightarrow> string \<Rightarrow> int \<Rightarrow> nat \<Rightarrow> gomatch list \<Rightarrow> string option" where
  "subst_loop L c ps i prev [] = slice ps prev (length ps)"
| "subst_loop L c ps i prev (m # ms) =
     (if i + 1 < c_nth c then subst_loop L c ps (i + 1) prev ms
      else if c_nth c < i + 1 \<and> \<not> c_global c then slice ps prev (length ps)
      else (case m of
          Some (a, b) # gs \<Rightarrow>
            (case slice ps prev a of
               None \<Rightarrow> None
             | Some t \<Rightarrow> (case expand L (CHR 0x00) (CHR 0x00) (c_repl c) ps m of
                 None \<Rightarrow> None
               | Some r \<Rightarrow> map_option (\<lambda>u. t @ r @ u) (subst_loop L c ps (i + 1) b ms)))
        | _ \<Rightarrow> None))"

definition write_file ::
  "'w io \<Rightarrow> string \<Rightarrow> string \<Rightarrow> ('re, 'w) sstate \<Rightarrow> sed_error option \<times> ('re, 'w) sstate" where
  "write_file W name s st =
     (case (case p_writers (s_p st) name of
              Some h \<Rightarrow> (Inr h, st)
            | None \<Rightarrow> (case io_open_write W of
                None \<Rightarrow> (Inl (''couldn'' @ [CHR 0x27] @ ''t open file '' @ name), st)
              | Some opn \<Rightarrow> (case opn name (s_world st) of
                  (Inl e, w) \<Rightarrow> (Inl e, st\<lparr>s_world := w\<rparr>)
                | (Inr h, w) \<Rightarrow> (Inr h, st\<lparr>s_world := w,
                    s_p := (s_p st)\<lparr>p_writers := (p_writers (s_p st))(name \<mapsto> h)\<rparr>\<rparr>)))) of
        (Inl e, st') \<Rightarrow> (Some (Msg e), st')
      | (Inr h, st') \<Rightarrow>
         (let (e, w) = io_write W h s (s_world st')
          in (map_option Msg e, st'\<lparr>s_world := w\<rparr>)))"

definition set_last_rx :: "'re option \<Rightarrow> ('re, 'w) sstate \<Rightarrow> ('re, 'w) sstate" where
  "set_last_rx r st = st\<lparr>s_p := (s_p st)\<lparr>p_last_rx := r\<rparr>\<rparr>"

definition sed_substitute ::
  "'re go_lib \<Rightarrow> 'w io \<Rightarrow> 're command \<Rightarrow> ('re, 'w) sstate \<Rightarrow>
   sed_fail option \<times> ('re, 'w) sstate"
where
  "sed_substitute L W c st =
     (case (if c_re_empty c then p_last_rx (s_p st) else c_re c) of
        None \<Rightarrow> (Some (if c_re_empty c then Fails (Msg ''no previous regular expression'') else Panics), st)
      | Some re \<Rightarrow>
         (let st1 = set_last_rx (Some re) st;
              ms = lib_find_all L re (s_ps st) in
          if int (length ms) < c_nth c then (None, st1)
          else (case subst_loop L c (s_ps st) 0 0 ms of
              None \<Rightarrow> (Some Panics, st1)
            | Some ps \<Rightarrow>
               (let st2 = st1\<lparr>s_ps := ps, s_replaced := True\<rparr>;
                    st3 = (if c_print c then with_out (out_line W ps (s_nl st2)) st2 else st2)
                in if c_wfile c \<noteq> [] then
                     (let (e, st4) = write_file W (c_wfile c) (ps @ [CHR 0x0A]) st3
                      in (map_option Fails e, st4))
                   else (None, st3)))))"

subsection \<open>The commands\<close>

datatype act = ActEnd | ActDelete | ActRestart | ActQuit | ActQuitSilent | ActEOF

text \<open>One pass of the loop of \<^verbatim>\<open>exec\<close>: the next index, or what ends the script.\<close>

datatype ('re, 'w) stepped =
    Goto nat "('re, 'w) sstate"
  | Stop "sed_fail + act" "('re, 'w) sstate"

definition set_hold :: "string \<Rightarrow> ('re, 'w) sstate \<Rightarrow> ('re, 'w) sstate" where
  "set_hold h st = st\<lparr>s_p := (s_p st)\<lparr>p_hold := h\<rparr>\<rparr>"

definition first_line :: "string \<Rightarrow> string" where
  "first_line ps = takeWhile (\<lambda>c. c \<noteq> CHR 0x0A) ps"

definition read_into ::
  "(string \<Rightarrow> string \<Rightarrow> string) \<Rightarrow> ('re, 'w) sstate \<Rightarrow> ('re, 'w) sstate" where
  "read_into f st =
     (case read_line (s_in st) of
        (Some (s, nl), i) \<Rightarrow> st\<lparr>s_in := i, s_ps := f (s_ps st) s, s_nl := nl\<rparr>
      | (None, i) \<Rightarrow> st\<lparr>s_in := i, s_ps := f (s_ps st) [], s_nl := False\<rparr>)"

definition queue_file :: "'w io \<Rightarrow> string \<Rightarrow> ('re, 'w) sstate \<Rightarrow> ('re, 'w) sstate" where
  "queue_file W name st =
     (case io_read_file W of
        None \<Rightarrow> st
      | Some rd \<Rightarrow> (case rd name (s_world st) of
          (Some b, w) \<Rightarrow>
            (if b = [] then st\<lparr>s_world := w\<rparr>
             else st\<lparr>s_world := w, s_append_q := s_append_q st @
                    [if has_suffix b [CHR 0x0A] then b else b @ [CHR 0x0A]]\<rparr>)
        | (None, w) \<Rightarrow> st\<lparr>s_world := w\<rparr>))"

definition map_runes :: "(rune \<Rightarrow> rune) \<Rightarrow> string \<Rightarrow> string" where
  "map_runes f s = string_of_runes (List.map f (runes s))"

definition run_command ::
  "'re go_lib \<Rightarrow> 'w io \<Rightarrow> nat \<Rightarrow> 're command \<Rightarrow> ('re, 'w) sstate \<Rightarrow> ('re, 'w) stepped" where
  "run_command L W pc c st =
     (let n = c_name c; ps = s_ps st; hold = p_hold (s_p st); goon = Goto (pc + 1); NL = CHR 0x0A in
      if n = CHR ''='' then goon (with_out (out_write W (itoa (i_line (s_in st)) @ [NL])) st)
      else if n = CHR ''a'' then goon (st\<lparr>s_append_q := s_append_q st @ [c_text c @ [NL]]\<rparr>)
      else if n = CHR ''i'' then goon (with_out (out_write W (c_text c @ [NL])) st)
      else if n = CHR ''c'' then
        Stop (Inr ActDelete)
          (if a_kind (c_a2 c) = AddrNone \<or> c_negate c \<or> \<not> c_active c
           then with_out (out_write W (c_text c @ [NL])) st else st)
      else if n = CHR ''d'' then Stop (Inr ActDelete) st
      else if n = CHR ''D'' then
        (case index_byte ps NL of
           None \<Rightarrow> Stop (Inr ActDelete) st
         | Some i \<Rightarrow> Stop (Inr ActRestart) (flush_appends W (st\<lparr>s_ps := drop (i + 1) ps\<rparr>)))
      else if n = CHR ''g'' then goon (st\<lparr>s_ps := hold\<rparr>)
      else if n = CHR ''G'' then goon (st\<lparr>s_ps := ps @ NL # hold\<rparr>)
      else if n = CHR ''h'' then goon (set_hold ps st)
      else if n = CHR ''H'' then goon (set_hold (hold @ NL # ps) st)
      else if n = CHR ''x'' then goon (set_hold ps (st\<lparr>s_ps := hold\<rparr>))
      else if n = CHR ''z'' then goon (st\<lparr>s_ps := []\<rparr>)
      else if n = CHR ''p'' then goon (with_out (out_line W ps (s_nl st)) st)
      else if n = CHR ''P'' then goon (with_out (out_line W (first_line ps) True) st)
      else if n = CHR ''n'' then
        (if last_line st then Stop (Inr ActEnd) st
         else goon (read_into (\<lambda>_ s. s) (flush_appends W (autoprint W st))))
      else if n = CHR ''N'' then
        (if last_line st then Stop (Inr ActEnd) st
         else goon (read_into (\<lambda>p s. p @ NL # s) (flush_appends W st)))
      else if n = CHR ''q'' then Stop (Inr ActQuit) (st\<lparr>s_code := c_code c\<rparr>)
      else if n = CHR ''Q'' then Stop (Inr ActQuitSilent) (st\<lparr>s_code := c_code c\<rparr>)
      else if n = CHR ''r'' then goon (queue_file W (c_fname c) st)
      else if n = CHR ''w'' then
        (case write_file W (c_fname c) (ps @ [NL]) st of
           (Some e, st') \<Rightarrow> Stop (Inl (Fails e)) st'
         | (None, st') \<Rightarrow> goon st')
      else if n = CHR ''s'' then
        (case sed_substitute L W c st of
           (Some e, st') \<Rightarrow> Stop (Inl e) st'
         | (None, st') \<Rightarrow> goon st')
      else if n = CHR ''y'' then
        goon (st\<lparr>s_ps := map_runes (\<lambda>r. case c_ymap c r of Some m \<Rightarrow> m | None \<Rightarrow> r) ps\<rparr>)
      else if n = CHR ''b'' then Goto (c_block c + 1) st
      else if n = CHR ''t'' then
        (if s_replaced st then Goto (c_block c + 1) (st\<lparr>s_replaced := False\<rparr>) else goon st)
      else if n = CHR ''T'' then
        (if \<not> s_replaced st then Goto (c_block c + 1) st else goon (st\<lparr>s_replaced := False\<rparr>))
      else goon st)"

definition set_command :: "nat \<Rightarrow> 're command \<Rightarrow> ('re, 'w) sstate \<Rightarrow> ('re, 'w) sstate" where
  "set_command pc c st = st\<lparr>s_p := (s_p st)\<lparr>p_cmds := (p_cmds (s_p st))[pc := c]\<rparr>\<rparr>"

definition exec_one ::
  "'re go_lib \<Rightarrow> 'w io \<Rightarrow> nat \<Rightarrow> ('re, 'w) sstate \<Rightarrow> ('re, 'w) stepped" where
  "exec_one L W pc st =
     (let c = p_cmds (s_p st) ! pc in
      if c_name c = CHR ''}'' \<or> c_name c = CHR '':'' then Goto (pc + 1) st
      else (case selected L st c of
          Inl e \<Rightarrow> Stop (Inl e) st
        | Inr (sel, c', lastrx) \<Rightarrow>
           (let st' = set_last_rx lastrx (set_command pc c' st) in
            if sel = c_negate c' then
              Goto (if c_name c' = CHR ''{'' then c_block c' + 1 else pc + 1) st'
            else run_command L W pc c' st')))"

partial_function (option) exec ::
  "'re go_lib \<Rightarrow> 'w io \<Rightarrow> nat \<Rightarrow> ('re, 'w) sstate \<Rightarrow> ((sed_fail + act) \<times> ('re, 'w) sstate) option"
where
  "exec L W pc st =
     (if pc < length (p_cmds (s_p st)) then
        (case exec_one L W pc st of
           Goto pc' st' \<Rightarrow> exec L W pc' st'
         | Stop r st' \<Rightarrow> Some (r, st'))
      else Some (Inr ActEnd, st))"

declare exec.simps [code]

subsection \<open>The cycle\<close>

definition start_cycle :: "('re, 'w) sstate \<Rightarrow> ('re, 'w) sstate option" where
  "start_cycle st =
     (case read_line (s_in st) of
        (None, i) \<Rightarrow> None
      | (Some (s, nl), i) \<Rightarrow> Some (st\<lparr>s_in := i, s_ps := s, s_nl := nl, s_replaced := False\<rparr>))"

text \<open>What follows the script: go on (restarting or not), or the end of the run.\<close>

datatype ('re, 'w) cycled =
    Again bool "('re, 'w) sstate"
  | Finished "sed_fail option" "('re, 'w) sstate"

definition end_cycle ::
  "'w io \<Rightarrow> (sed_fail + act) \<times> ('re, 'w) sstate \<Rightarrow> ('re, 'w) cycled" where
  "end_cycle W rst =
     (let st = snd rst in
      case fst rst of
        Inl e \<Rightarrow> Finished (Some e) st
      | Inr ActEnd \<Rightarrow> Again False (flush_appends W (autoprint W st))
      | Inr ActDelete \<Rightarrow> Again False (flush_appends W st)
      | Inr ActRestart \<Rightarrow> Again True (flush_appends W st)
      | Inr ActQuit \<Rightarrow> Finished None ((flush_appends W (autoprint W st))\<lparr>s_quit := True\<rparr>)
      | Inr ActQuitSilent \<Rightarrow> Finished None (st\<lparr>s_quit := True\<rparr>)
      | Inr ActEOF \<Rightarrow> Finished None (flush_appends W st))"

partial_function (option) run_loop ::
  "'re go_lib \<Rightarrow> 'w io \<Rightarrow> bool \<Rightarrow> ('re, 'w) sstate \<Rightarrow> (sed_fail option \<times> ('re, 'w) sstate) option"
where
  "run_loop L W restart st =
     (case (if restart then Some st else start_cycle st) of
        None \<Rightarrow> Some (None, st)
      | Some st1 \<Rightarrow>
         Option.bind (exec L W 0 st1) (\<lambda>rst.
           case end_cycle W rst of
             Again restart' st' \<Rightarrow> run_loop L W restart' st'
           | Finished e st' \<Rightarrow> Some (e, st')))"

declare run_loop.simps [code]

datatype run_result = RunOk | RunQuit | RunWriteError string | RunFails sed_fail

definition new_state ::
  "'re program \<Rightarrow> nat \<Rightarrow> string list \<Rightarrow> 'w \<Rightarrow> ('re, 'w) sstate" where
  "new_state p w rs world =
     \<lparr>s_p = p\<lparr>p_code := 0\<rparr>, s_in = new_input rs,
      s_out = \<lparr>o_w = w, o_missing_nl = False, o_err = None\<rparr>,
      s_ps = [], s_nl = False, s_replaced = False, s_append_q = [], s_quit = False, s_code = 0,
      s_world = world\<rparr>"

text \<open>
  \<^verbatim>\<open>Program.Run\<close>: its result, the program it leaves and the world. A panic goes through it; else
  a write that failed is what it returns, before the error the script ended with.
\<close>

definition sed_run ::
  "'re go_lib \<Rightarrow> 'w io \<Rightarrow> 're program \<Rightarrow> nat \<Rightarrow> string list \<Rightarrow> 'w \<Rightarrow>
   (run_result \<times> 're program \<times> 'w) option"
where
  "sed_run L W p w rs world =
     map_option (\<lambda>(e, st).
       if e = Some Panics then (RunFails Panics, s_p st, s_world st)
       else (case o_err (s_out st) of
         Some m \<Rightarrow> (RunWriteError m, s_p st, s_world st)
       | None \<Rightarrow>
          (case e of
             Some f \<Rightarrow> (RunFails f, s_p st, s_world st)
           | None \<Rightarrow>
              if s_quit st then (RunQuit, (s_p st)\<lparr>p_code := s_code st\<rparr>, s_world st)
              else (RunOk, s_p st, s_world st))))
       (run_loop L W False (new_state p w rs world))"

subsection \<open>A world of files in memory\<close>

text \<open>
  Handle 0 is the main output; the writer opened for a name appends to the file of that
  name. Writes do not fail.
\<close>

record memio =
  m_out :: string
  m_files :: "(string \<times> string) list"
  m_open :: "string list"

definition mem_append :: "string \<Rightarrow> string \<Rightarrow> (string \<times> string) list \<Rightarrow> (string \<times> string) list" where
  "mem_append n s fs = (n, (case map_of fs n of None \<Rightarrow> s | Some t \<Rightarrow> t @ s)) # filter (\<lambda>f. fst f \<noteq> n) fs"

definition mem_io :: "memio io" where
  "mem_io = \<lparr>io_write = (\<lambda>h s w.
       if h = 0 then (None, w\<lparr>m_out := m_out w @ s\<rparr>)
       else if h \<le> length (m_open w)
       then (None, w\<lparr>m_files := mem_append (m_open w ! (h - 1)) s (m_files w)\<rparr>)
       else (Some ''bad handle'', w)),
     io_read_file = Some (\<lambda>n w. (map_of (m_files w) n, w)),
     io_open_write = Some (\<lambda>n w. (Inr (length (m_open w) + 1),
       w\<lparr>m_open := m_open w @ [n], m_files := (n, []) # filter (\<lambda>f. fst f \<noteq> n) (m_files w)\<rparr>))\<rparr>"

definition no_files :: memio where
  "no_files = \<lparr>m_out = [], m_files = [], m_open = []\<rparr>"

definition sed_mem :: "string \<Rightarrow> string list \<Rightarrow> string option" where
  "sed_mem script rs = (case sed_compile rx_lib script False False of
     Inl e \<Rightarrow> None
   | Inr p \<Rightarrow> map_option (\<lambda>(r, p, w). m_out w) (sed_run rx_lib mem_io p 0 rs no_files))"

end
