(* ===== verification/Sed_Correct.thy ===== *)
theory Sed_Correct
  imports Sed_Exec
begin

text \<open>
  What the sed package promises: a compiled script never panics, whatever its input and
  however often it runs; a script without backward branches and \<^verbatim>\<open>D\<close> ends; the empty
  script copies its input, byte for byte and with a newline only where two files meet; a
  range of line numbers selects exactly those lines; a substitution by \<open>&\<close> changes nothing.
\<close>

subsection \<open>What the effects leave alone\<close>

lemma with_out_keeps [simp]:
  "s_p (with_out f st) = s_p st" "s_in (with_out f st) = s_in st"
  "s_ps (with_out f st) = s_ps st" "s_append_q (with_out f st) = s_append_q st"
  "s_replaced (with_out f st) = s_replaced st" "s_nl (with_out f st) = s_nl st"
  by (simp_all add: with_out_def case_prod_beta)

lemma fold_with_out_keeps [simp]:
  "s_p (fold (\<lambda>a. with_out (g a)) xs st) = s_p st"
  "s_in (fold (\<lambda>a. with_out (g a)) xs st) = s_in st"
  "s_ps (fold (\<lambda>a. with_out (g a)) xs st) = s_ps st"
  by (induction xs arbitrary: st) simp_all

lemma flush_appends_keeps [simp]:
  "s_p (flush_appends W st) = s_p st" "s_in (flush_appends W st) = s_in st"
  "s_ps (flush_appends W st) = s_ps st"
  by (simp_all add: flush_appends_def)

lemma autoprint_keeps [simp]:
  "s_p (autoprint W st) = s_p st" "s_in (autoprint W st) = s_in st"
  "s_ps (autoprint W st) = s_ps st" "s_append_q (autoprint W st) = s_append_q st"
  by (simp_all add: autoprint_def)

lemma queue_file_keeps [simp]:
  "s_p (queue_file W n st) = s_p st" "s_in (queue_file W n st) = s_in st"
  by (auto simp: queue_file_def split: option.splits prod.splits)

lemma read_into_keeps [simp]: "s_p (read_into f st) = s_p st"
  by (auto simp: read_into_def split: option.splits prod.splits)

lemma write_file_keeps:
  "write_file W n s st = (e, st') \<Longrightarrow> p_cmds (s_p st') = p_cmds (s_p st) \<and> s_in st' = s_in st"
  by (auto simp: write_file_def split: option.splits sum.splits prod.splits)

lemma set_last_rx_keeps [simp]:
  "p_cmds (s_p (set_last_rx r st)) = p_cmds (s_p st)" "s_in (set_last_rx r st) = s_in st"
  "s_ps (set_last_rx r st) = s_ps st"
  by (simp_all add: set_last_rx_def)

lemma set_hold_keeps [simp]:
  "p_cmds (s_p (set_hold r st)) = p_cmds (s_p st)" "s_in (set_hold r st) = s_in st"
  by (simp_all add: set_hold_def)

lemma set_command_keeps [simp]:
  "p_cmds (s_p (set_command pc c st)) = (p_cmds (s_p st))[pc := c]"
  "s_in (set_command pc c st) = s_in st"
  by (simp_all add: set_command_def)

lemma sed_substitute_keeps:
  "sed_substitute L W c st = (e, st') \<Longrightarrow> p_cmds (s_p st') = p_cmds (s_p st) \<and> s_in st' = s_in st"
  by (auto simp: sed_substitute_def Let_def split: option.splits if_splits prod.splits
      dest!: write_file_keeps)

fun stepped_state :: "('re, 'w) stepped \<Rightarrow> ('re, 'w) sstate" where
  "stepped_state (Goto pc st) = st"
| "stepped_state (Stop r st) = st"

lemma run_command_cmds:
  "run_command L W pc c st = X \<Longrightarrow> p_cmds (s_p (stepped_state X)) = p_cmds (s_p st)"
  unfolding run_command_def Let_def
  by (elim ifE)
    (auto dest!: sed_substitute_keeps write_file_keeps split: option.splits prod.splits if_splits)

subsection \<open>No panic\<close>

text \<open>A command the interpreter can run: what the parser guarantees, and a range by step that is open has one.\<close>

definition run_ok :: "'re command \<Rightarrow> bool" where
  "run_ok c =
     (addresses_ok c \<and> (c_name c = CHR ''s'' \<longrightarrow> c_re_empty c \<or> c_re c \<noteq> None) \<and>
      (c_active c \<and> a_kind (c_a2 c) = AddrStep \<longrightarrow> 0 < a_step (c_a2 c)))"

lemma match_regex_no_panic:
  "\<lbrakk>regex_present a; a_kind a = AddrRegex\<rbrakk> \<Longrightarrow> match_regex L ps a lst \<noteq> Inl Panics"
  by (auto simp: match_regex_def regex_present_def split: option.splits)

lemma match_one_no_panic: "regex_present a \<Longrightarrow> match_one L st a \<noteq> Inl Panics"
  using match_regex_no_panic [of a L "s_ps st" "p_last_rx (s_p st)"]
  by (auto simp: match_one_def Let_def split: addr_kind.splits)

lemma in_range_no_panic: "\<lbrakk>run_ok c; c_active c\<rbrakk> \<Longrightarrow> in_range L st c \<noteq> Inl Panics"
  using match_regex_no_panic [of "c_a2 c" L "s_ps st" "p_last_rx (s_p st)"]
  by (auto simp: in_range_def Let_def run_ok_def addresses_ok_def split: addr_kind.splits)

lemma selected_no_panic: "run_ok c \<Longrightarrow> selected L st c \<noteq> Inl Panics"
  using match_one_no_panic [of "c_a1 c" L st] in_range_no_panic [of c L st]
  by (auto simp: selected_def run_ok_def addresses_ok_def split: sum.splits)

text \<open>Selection changes the range's state alone.\<close>

definition same_command :: "'re command \<Rightarrow> 're command \<Rightarrow> bool" where
  "same_command c c' = (c' = c\<lparr>c_active := c_active c', c_end_line := c_end_line c'\<rparr>)"

lemma same_command_fields:
  "same_command c c' \<Longrightarrow> c_name c' = c_name c \<and> c_block c' = c_block c \<and> c_negate c' = c_negate c \<and>
     c_a1 c' = c_a1 c \<and> c_a2 c' = c_a2 c \<and> c_text c' = c_text c \<and> c_fname c' = c_fname c \<and>
     c_wfile c' = c_wfile c"
  by (cases c; cases c') (simp add: same_command_def)

lemma same_command_self [simp]: "same_command c c"
  by (cases c) (simp add: same_command_def)

lemma same_command_active [simp]: "same_command c (c\<lparr>c_active := a\<rparr>)"
  by (cases c) (simp add: same_command_def)

lemma enter_range_same: "same_command c (enter_range st c)"
  by (cases c) (simp add: same_command_def enter_range_def Let_def split: addr_kind.split)

lemma enter_range_ok: "run_ok c \<Longrightarrow> run_ok (enter_range st c)"
  by (cases "a_kind (c_a2 c)") (simp_all add: run_ok_def enter_range_def Let_def addresses_ok_def)

lemma selected_same: "selected L st c = Inr (b, c', r) \<Longrightarrow> same_command c c'"
  using enter_range_same [of c st] by (auto simp: selected_def split: if_splits sum.splits)

lemma selected_run_ok: "\<lbrakk>selected L st c = Inr (b, c', r); run_ok c\<rbrakk> \<Longrightarrow> run_ok c'"
  using enter_range_ok [of c st]
  by (auto simp: selected_def split: if_splits sum.splits) (auto simp: run_ok_def addresses_ok_def)

lemma expand_total:
  assumes "list_all (group_ok (length src)) m"
  shows "\<exists>r. expand L mode once parts src m = Some r"
proof (induction parts arbitrary: mode once)
  case (Cons p parts)
  show ?case
  proof (cases p)
    case (Group g)
    show ?thesis
    proof (cases "group_range m g")
      case None
      with Group Cons show ?thesis by simp
    next
      case (Some ab)
      then obtain a b where ab: "group_range m g = Some (a, b)" by (cases ab) auto
      then have "group_ok (length src) (Some (a, b))"
        using assms by (metis group_range_def list_all_length option.distinct(1))
      then have s: "slice src a b = Some (take (b - a) (drop a src))"
        by (simp add: group_ok_def slice_def)
      with Group ab Cons show ?thesis by (simp add: case_prod_beta)
    qed
  qed (use Cons in \<open>auto simp: case_prod_beta\<close>)
qed simp

lemma subst_loop_total:
  "\<lbrakk>matches_from (length ps) prev ms; prev \<le> length ps\<rbrakk> \<Longrightarrow> \<exists>u. subst_loop L c ps i prev ms = Some u"
proof (induction ms arbitrary: i prev)
  case Nil
  then show ?case by (simp add: slice_def)
next
  case (Cons m ms)
  from Cons.prems(1) obtain a b gs where m: "m = Some (a, b) # gs" "prev \<le> a" "a \<le> b" "b \<le> length ps"
    "list_all (group_ok (length ps)) gs" "matches_from (length ps) b ms"
    by (auto split: list.splits option.splits)
  have "\<exists>u. subst_loop L c ps (i + 1) prev ms = Some u"
    using Cons.IH matches_from_mono [OF m(6)] m Cons.prems(2) by auto
  moreover have "\<exists>r. expand L (CHR 0x00) (CHR 0x00) (c_repl c) ps m = Some r"
    using m by (intro expand_total) (simp add: group_ok_def)
  moreover have "\<exists>u. subst_loop L c ps (i + 1) b ms = Some u"
    using Cons.IH m by blast
  ultimately show ?case using m Cons.prems(2) by (auto simp: slice_def)
qed

text \<open>Invariants of the two loops.\<close>

lemma exec_invariant:
  assumes run: "exec L W pc st = Some rst" and I: "I pc st"
    and goto: "\<And>pc st pc' st'. \<lbrakk>I pc st; pc < length (p_cmds (s_p st));
      exec_one L W pc st = Goto pc' st'\<rbrakk> \<Longrightarrow> I pc' st'"
    and stop: "\<And>pc st r st'. \<lbrakk>I pc st; pc < length (p_cmds (s_p st));
      exec_one L W pc st = Stop r st'\<rbrakk> \<Longrightarrow> Q (r, st')"
    and fall: "\<And>pc st. \<lbrakk>I pc st; length (p_cmds (s_p st)) \<le> pc\<rbrakk> \<Longrightarrow> Q (Inr ActEnd, st)"
  shows "Q rst"
proof -
  have "L' = L \<longrightarrow> W' = W \<longrightarrow> I pc' st' \<longrightarrow> Q rst'" if "exec L' W' pc' st' = Some rst'" for L' W' pc' st' rst'
    using that
  proof (rule exec.raw_induct [where P = "\<lambda>L' W' pc' st' rst'. L' = L \<longrightarrow> W' = W \<longrightarrow> I pc' st' \<longrightarrow> Q rst'", rotated])
    fix ex L' W' pc' st' rst'
    assume IH: "\<And>L' W' pc' st' y. ex L' W' pc' st' = Some y \<Longrightarrow> L' = L \<longrightarrow> W' = W \<longrightarrow> I pc' st' \<longrightarrow> Q y"
      and body: "(if pc' < length (p_cmds (s_p st')) then case exec_one L' W' pc' st' of
          Goto pc st \<Rightarrow> ex L' W' pc st | Stop r st \<Rightarrow> Some (r, st) else Some (Inr ActEnd, st')) = Some rst'"
    show "L' = L \<longrightarrow> W' = W \<longrightarrow> I pc' st' \<longrightarrow> Q rst'"
    proof (intro impI)
      assume eq: "L' = L" "W' = W" and I: "I pc' st'"
      show "Q rst'"
      proof (cases "pc' < length (p_cmds (s_p st'))")
        case False
        with body fall [OF I] show ?thesis by auto
      next
        case True
        show ?thesis
        proof (cases "exec_one L W pc' st'")
          case (Goto pc1 st1)
          with body True eq have "ex L W pc1 st1 = Some rst'" by simp
          from IH [OF this] goto [OF I True Goto] show ?thesis by simp
        next
          case (Stop r st1)
          with body True eq stop [OF I True Stop] show ?thesis by simp
        qed
      qed
    qed
  qed
  with run I show ?thesis by blast
qed

lemma run_loop_invariant:
  assumes run: "run_loop L W restart st = Some est" and I: "I restart st"
    and stop: "\<And>st. \<lbrakk>I False st; start_cycle st = None\<rbrakk> \<Longrightarrow> Q (None, st)"
    and again: "\<And>b st st1 rst b' st'. \<lbrakk>I b st; (if b then Some st else start_cycle st) = Some st1;
      exec L W 0 st1 = Some rst; end_cycle W rst = Again b' st'\<rbrakk> \<Longrightarrow> I b' st'"
    and finish: "\<And>b st st1 rst e st'. \<lbrakk>I b st; (if b then Some st else start_cycle st) = Some st1;
      exec L W 0 st1 = Some rst; end_cycle W rst = Finished e st'\<rbrakk> \<Longrightarrow> Q (e, st')"
  shows "Q est"
proof -
  have "L' = L \<longrightarrow> W' = W \<longrightarrow> I b st' \<longrightarrow> Q est'" if "run_loop L' W' b st' = Some est'" for L' W' b st' est'
    using that
  proof (rule run_loop.raw_induct [where P = "\<lambda>L' W' b st' est'. L' = L \<longrightarrow> W' = W \<longrightarrow> I b st' \<longrightarrow> Q est'", rotated])
    fix rl L' W' b st' est'
    assume IH: "\<And>L' W' b st' y. rl L' W' b st' = Some y \<Longrightarrow> L' = L \<longrightarrow> W' = W \<longrightarrow> I b st' \<longrightarrow> Q y"
      and body: "(case if b then Some st' else start_cycle st' of None \<Rightarrow> Some (None, st')
          | Some st1 \<Rightarrow> Option.bind (exec L' W' 0 st1) (\<lambda>rst. case end_cycle W' rst of
              Again b st \<Rightarrow> rl L' W' b st | Finished e st \<Rightarrow> Some (e, st))) = Some est'"
    show "L' = L \<longrightarrow> W' = W \<longrightarrow> I b st' \<longrightarrow> Q est'"
    proof (intro impI)
      assume eq: "L' = L" "W' = W" and I: "I b st'"
      show "Q est'"
      proof (cases "if b then Some st' else start_cycle st'")
        case None
        with body I stop show ?thesis by (auto split: if_splits)
      next
        case (Some st1)
        with body eq obtain rst where rst: "exec L W 0 st1 = Some rst"
          by (auto simp: bind_eq_Some_conv)
        show ?thesis
        proof (cases "end_cycle W rst")
          case (Again b' st2)
          with body Some rst eq have "rl L W b' st2 = Some est'" by simp
          from IH [OF this] again [OF I Some rst Again] show ?thesis by simp
        next
          case (Finished e st2)
          with body Some rst eq finish [OF I Some rst Finished] show ?thesis by simp
        qed
      qed
    qed
  qed
  with run I show ?thesis by blast
qed

context go_regexp
begin

lemma substitute_no_panic:
  "\<lbrakk>run_ok c; c_name c = CHR ''s''\<rbrakk> \<Longrightarrow> fst (sed_substitute L W c st) \<noteq> Some Panics"
proof -
  have tot: "subst_loop L' c ps i 0 (lib_find_all L re ps) \<noteq> None" for L' ps i re
    using subst_loop_total [OF find_all_ok [of ps re], of L' c i] by auto
  then show "run_ok c \<Longrightarrow> c_name c = CHR ''s'' \<Longrightarrow> ?thesis"
    by (auto simp: sed_substitute_def run_ok_def Let_def tot case_prod_beta
        simp del: not_None_eq split: option.splits if_splits)
qed

lemma run_command_no_panic:
  assumes "run_ok c" "run_command L W pc c st = Stop r st'"
  shows "r \<noteq> Inl Panics"
  using assms substitute_no_panic [OF assms(1), of W st]
  unfolding run_command_def Let_def
  by (elim ifE) (auto split: option.splits prod.splits if_splits)

lemma exec_one_no_panic:
  assumes ok: "list_all run_ok (p_cmds (s_p st))" and pc: "pc < length (p_cmds (s_p st))"
    and X: "exec_one L W pc st = X"
  shows "list_all run_ok (p_cmds (s_p (stepped_state X))) \<and> (\<forall>r st'. X = Stop r st' \<longrightarrow> r \<noteq> Inl Panics)"
proof -
  let ?c = "p_cmds (s_p st) ! pc"
  have c: "run_ok ?c" using ok pc by (simp add: list_all_length)
  show ?thesis
  proof (cases "c_name ?c = CHR ''}'' \<or> c_name ?c = CHR '':''")
    case True
    with X ok show ?thesis by (auto simp: exec_one_def Let_def)
  next
    case no: False
    show ?thesis
    proof (cases "selected L st ?c")
      case (Inl e)
      with no X ok selected_no_panic [OF c, of L st] show ?thesis
        by (auto simp: exec_one_def Let_def)
    next
      case (Inr x)
      obtain sel c' r where x: "x = (sel, c', r)" by (cases x)
      have c': "run_ok c'" by (rule selected_run_ok [OF _ c]) (use Inr x in simp)
      let ?st = "set_last_rx r (set_command pc c' st)"
      have st: "list_all run_ok (p_cmds (s_p ?st))"
        using ok c' by (simp add: list_all_update)
      show ?thesis
      proof (cases "sel = c_negate c'")
        case True
        with no X Inr x st show ?thesis by (auto simp: exec_one_def Let_def)
      next
        case False
        with no X Inr x have run: "X = run_command L W pc c' ?st"
          by (auto simp: exec_one_def Let_def)
        with st run_command_cmds [OF run [symmetric]] run_command_no_panic [OF c'] show ?thesis
          by metis
      qed
    qed
  qed
qed

lemma exec_no_panic:
  assumes run: "exec L W pc st = Some rst" and ok: "list_all run_ok (p_cmds (s_p st))"
  shows "list_all run_ok (p_cmds (s_p (snd rst))) \<and> fst rst \<noteq> Inl Panics"
proof (rule exec_invariant [OF run, where I = "\<lambda>pc st. list_all run_ok (p_cmds (s_p st))"])
  fix pc st pc' st'
  assume "list_all run_ok (p_cmds (s_p st))" "pc < length (p_cmds (s_p st))"
    "exec_one L W pc st = Goto pc' st'"
  then show "list_all run_ok (p_cmds (s_p st'))" using exec_one_no_panic [of st pc W] by fastforce
next
  fix pc st r st'
  assume "list_all run_ok (p_cmds (s_p st))" "pc < length (p_cmds (s_p st))"
    "exec_one L W pc st = Stop r st'"
  then show "list_all run_ok (p_cmds (s_p (snd (r, st')))) \<and> fst (r, st') \<noteq> Inl Panics"
    using exec_one_no_panic [of st pc W] by fastforce
qed (use ok in auto)

lemma end_cycle_cmds:
  "end_cycle W rst = X \<Longrightarrow>
   (case X of Again b st \<Rightarrow> p_cmds (s_p st) = p_cmds (s_p (snd rst))
    | Finished e st \<Rightarrow> p_cmds (s_p st) = p_cmds (s_p (snd rst)) \<and> (e = Some f \<longrightarrow> fst rst = Inl f))"
  by (cases rst) (auto simp: end_cycle_def split: sum.splits act.splits)

lemma start_cycle_cmds:
  "(if b then Some st else start_cycle st) = Some st1 \<Longrightarrow> p_cmds (s_p st1) = p_cmds (s_p st)"
  by (auto simp: start_cycle_def split: if_splits option.splits prod.splits)

lemma run_loop_no_panic:
  assumes run: "run_loop L W restart st = Some est" and ok: "list_all run_ok (p_cmds (s_p st))"
  shows "list_all run_ok (p_cmds (s_p (snd est))) \<and> fst est \<noteq> Some Panics"
proof (rule run_loop_invariant [OF run, where I = "\<lambda>b st. list_all run_ok (p_cmds (s_p st))"])
  fix b st st1 rst b' st'
  assume "list_all run_ok (p_cmds (s_p st))" and st1: "(if b then Some st else start_cycle st) = Some st1"
    and rst: "exec L W 0 st1 = Some rst" and e: "end_cycle W rst = Again b' st'"
  then show "list_all run_ok (p_cmds (s_p st'))"
    using exec_no_panic [OF rst] start_cycle_cmds [OF st1] end_cycle_cmds [OF e, of Panics] by simp
next
  fix b st st1 rst e st'
  assume "list_all run_ok (p_cmds (s_p st))" and st1: "(if b then Some st else start_cycle st) = Some st1"
    and rst: "exec L W 0 st1 = Some rst" and e: "end_cycle W rst = Finished e st'"
  then show "list_all run_ok (p_cmds (s_p (snd (e, st')))) \<and> fst (e, st') \<noteq> Some Panics"
    using exec_no_panic [OF rst] start_cycle_cmds [OF st1] end_cycle_cmds [OF e, of Panics] by auto
qed (use ok in auto)

end

text \<open>The programs that can come about: compiled, or left by a run of such a program.\<close>

inductive sed_program :: "'re go_lib \<Rightarrow> 'w io \<Rightarrow> 're program \<Rightarrow> bool" for L W where
  compiled: "sed_compile L script quiet ere = Inr p \<Longrightarrow> sed_program L W p"
| ran: "\<lbrakk>sed_program L W p; sed_run L W p w rs world = Some (r, p', world')\<rbrakk> \<Longrightarrow>
    sed_program L W p'"

lemma command_ok_run: "command_ok c \<Longrightarrow> run_ok c"
  by (simp only: command_ok_def run_ok_def) blast

lemma run_ok_zero: "\<lbrakk>run_ok c; a_kind (c_a1 c) = AddrZero\<rbrakk> \<Longrightarrow> run_ok (c\<lparr>c_active := True\<rparr>)"
  by (simp add: run_ok_def addresses_ok_def)

lemma sed_compile_run_ok:
  assumes "sed_compile L script quiet ere = Inr p"
  shows "list_all run_ok (p_cmds p)"
proof -
  from assms obtain cmds where cmds: "sed_parse L script ere = Inr cmds"
    and p: "p_cmds p = map (\<lambda>c. if a_kind (c_a1 c) = AddrZero then c\<lparr>c_active := True\<rparr> else c) cmds"
    by (auto simp: sed_compile_def Let_def split: sum.splits)
  from sed_parse_wf [OF cmds] have "list_all run_ok cmds"
    by (auto simp: wf_program_def list_all_iff intro: command_ok_run)
  with p run_ok_zero show ?thesis by (auto simp: list_all_iff)
qed

lemma sed_run_cmds:
  assumes "sed_run L W p w rs world = Some (r, p', world')"
  obtains est where "run_loop L W False (new_state p w rs world) = Some est"
    "p_cmds p' = p_cmds (s_p (snd est))" "\<forall>f. r = RunFails f \<longrightarrow> fst est = Some f"
  using assms by (auto simp: sed_run_def split: option.splits if_splits)

lemma sed_program_run_ok:
  assumes "go_regexp L" "sed_program L W p"
  shows "list_all run_ok (p_cmds p)"
  using assms(2)
proof induction
  case (compiled script quiet ere p)
  then show ?case by (rule sed_compile_run_ok)
next
  case (ran p w rs world r p' world')
  from ran.hyps(2) obtain est where est: "run_loop L W False (new_state p w rs world) = Some est"
    and p': "p_cmds p' = p_cmds (s_p (snd est))" by (rule sed_run_cmds)
  have "list_all run_ok (p_cmds (s_p (new_state p w rs world)))"
    using ran.IH by (simp add: new_state_def)
  from go_regexp.run_loop_no_panic [OF assms(1) est this] p' show ?case by simp
qed

text \<open>
  C1. No script panics: whatever compiles runs, over any files, in any world, and again after
  any number of runs with the range state they left, without a nil regular expression, a
  division by zero or a slice out of range.
\<close>

theorem sed_never_panics:
  assumes "go_regexp L" "sed_program L W p"
    and "sed_run L W p w rs world = Some (r, p', world')"
  shows "r \<noteq> RunFails Panics"
proof -
  from assms(3) obtain est where est: "run_loop L W False (new_state p w rs world) = Some est"
    and r: "\<forall>f. r = RunFails f \<longrightarrow> fst est = Some f" by (rule sed_run_cmds)
  have "list_all run_ok (p_cmds (s_p (new_state p w rs world)))"
    using sed_program_run_ok [OF assms(1,2)] by (simp add: new_state_def)
  from go_regexp.run_loop_no_panic [OF assms(1) est this] r show ?thesis by auto
qed

theorem sed_never_panics_witness:
  "fst (the (sed_run rx_lib mem_io (projr (sed_compile rx_lib ''2~3s/./<&>/2;y/b/c/'' False False)) 0
     [''abb''] no_files)) \<noteq> RunFails Panics"
proof -
  let ?c = "sed_compile rx_lib ''2~3s/./<&>/2;y/b/c/'' False False"
  have "\<not> isl ?c" by code_simp
  then have c: "?c = Inr (projr ?c)" by simp
  have "\<not> Option.is_none (sed_run rx_lib mem_io (projr ?c) 0 [''abb''] no_files)" by code_simp
  then obtain r p' w' where run: "sed_run rx_lib mem_io (projr ?c) 0 [''abb''] no_files = Some (r, p', w')"
    by (metis is_none_simps(1) option.exhaust prod_cases3)
  from sed_never_panics [OF rxlib.go_regexp_axioms sed_program.compiled [OF c] run] run
  show ?thesis by simp
qed

subsection \<open>Scripts that end\<close>

text \<open>
  A script all of whose jumps go forward: no branch to a label before it, no \<open>D\<close>, which
  starts the cycle again without reading.
\<close>

definition forward :: "'re command list \<Rightarrow> bool" where
  "forward cmds =
     (\<forall>i < length cmds. c_name (cmds ! i) \<noteq> CHR ''D'' \<and>
        (c_name (cmds ! i) \<in> set ''btT{'' \<longrightarrow> i \<le> c_block (cmds ! i)))"

lemma forward_update:
  assumes "forward cmds" "same_command (cmds ! i) c"
  shows "forward (cmds[i := c])"
proof -
  have "c_name (cmds[i := c] ! j) = c_name (cmds ! j) \<and> c_block (cmds[i := c] ! j) = c_block (cmds ! j)" for j
    using same_command_fields [OF assms(2)]
    by (cases "i = j"; cases "j < length cmds") (simp_all add: list_update_beyond)
  with assms(1) show ?thesis by (simp add: forward_def del: set_simps)
qed

definition bytes_left :: "sed_input \<Rightarrow> nat" where
  "bytes_left i = (if i_has_next i then 1 else 0) +
     length (concat (case i_cur i of None \<Rightarrow> i_readers i | Some r \<Rightarrow> r # i_readers i))"

lemma advance_loop_left: "bytes_left (advance_loop rs i) \<le> length (concat rs)"
proof (induction rs)
  case Nil
  then show ?case by (simp add: bytes_left_def)
next
  case (Cons r rs)
  let ?P = "\<lambda>c. c \<noteq> CHR 0x0A"
  have len: "length (takeWhile ?P r) + length (dropWhile ?P r) = length r"
    by (metis length_append takeWhile_dropWhile_id)
  show ?case
  proof (cases "r = []")
    case True
    with Cons show ?thesis by simp
  next
    case False
    have "Suc (length (tl (dropWhile ?P r))) \<le> length r"
      using len False by (cases "dropWhile ?P r"; cases r) auto
    with False show ?thesis by (simp add: bytes_left_def Let_def)
  qed
qed

lemma read_line_left:
  "read_line i = (x, i') \<Longrightarrow> bytes_left i' \<le> bytes_left i \<and> (x \<noteq> None \<longrightarrow> bytes_left i' < bytes_left i)"
proof -
  have line: "bytes_left (j\<lparr>i_line := n\<rparr>) = bytes_left j" for j n
    by (simp add: bytes_left_def split: option.split)
  have "bytes_left (advance i) < bytes_left i" if "i_has_next i"
    using advance_loop_left [of "case i_cur i of None \<Rightarrow> i_readers i | Some r \<Rightarrow> r # i_readers i" i] that
    by (simp add: bytes_left_def advance_def)
  then show "read_line i = (x, i') \<Longrightarrow> ?thesis"
    by (auto simp: read_line_def line split: if_splits)
qed

lemma read_into_left: "bytes_left (s_in (read_into f st)) \<le> bytes_left (s_in st)"
  using read_line_left [of "s_in st"]
  by (cases "read_line (s_in st)") (auto simp: read_into_def split: option.splits)

lemma run_command_left:
  "run_command L W pc c st = X \<Longrightarrow> bytes_left (s_in (stepped_state X)) \<le> bytes_left (s_in st)"
  using read_into_left [of "\<lambda>_ s. s" "flush_appends W (autoprint W st)"]
    read_into_left [of "\<lambda>p s. p @ CHR 0x0A # s" "flush_appends W st"]
  unfolding run_command_def Let_def
  by (elim ifE)
    (auto dest!: sed_substitute_keeps write_file_keeps split: option.splits prod.splits if_splits)

lemma run_command_forward:
  assumes "run_command L W pc c st = X" "c_name c \<noteq> CHR ''D''"
    "c_name c \<in> set ''btT{'' \<longrightarrow> pc \<le> c_block c"
  shows "(\<forall>pc' st'. X = Goto pc' st' \<longrightarrow> pc < pc') \<and> (\<forall>r st'. X = Stop r st' \<longrightarrow> r \<noteq> Inr ActRestart)"
  using assms unfolding run_command_def Let_def
  by (elim ifE) (auto split: option.splits prod.splits if_splits)

lemma exec_one_forward:
  assumes fwd: "forward (p_cmds (s_p st))" and pc: "pc < length (p_cmds (s_p st))"
    and X: "exec_one L W pc st = X"
  shows "forward (p_cmds (s_p (stepped_state X))) \<and>
    length (p_cmds (s_p (stepped_state X))) = length (p_cmds (s_p st)) \<and>
    bytes_left (s_in (stepped_state X)) \<le> bytes_left (s_in st) \<and>
    (\<forall>pc' st'. X = Goto pc' st' \<longrightarrow> pc < pc') \<and> (\<forall>r st'. X = Stop r st' \<longrightarrow> r \<noteq> Inr ActRestart)"
proof -
  let ?c = "p_cmds (s_p st) ! pc"
  have c: "c_name ?c \<noteq> CHR ''D''" "c_name ?c \<in> set ''btT{'' \<longrightarrow> pc \<le> c_block ?c"
    using fwd pc by (auto simp: forward_def simp del: set_simps)
  show ?thesis
  proof (cases "c_name ?c = CHR ''}'' \<or> c_name ?c = CHR '':''")
    case True
    with X fwd show ?thesis by (auto simp: exec_one_def Let_def)
  next
    case no: False
    show ?thesis
    proof (cases "selected L st ?c")
      case (Inl e)
      with no X fwd show ?thesis by (auto simp: exec_one_def Let_def)
    next
      case (Inr x)
      obtain sel c' r where x: "x = (sel, c', r)" by (cases x)
      have same: "same_command ?c c'" using selected_same Inr x by metis
      note f = same_command_fields [OF same]
      let ?st = "set_last_rx r (set_command pc c' st)"
      have st: "forward (p_cmds (s_p ?st))"
        using forward_update [OF fwd same] by simp
      show ?thesis
      proof (cases "sel = c_negate c'")
        case True
        with no X Inr x st f c(2) show ?thesis by (auto simp: exec_one_def Let_def)
      next
        case False
        with no X Inr x have run: "run_command L W pc c' ?st = X"
          by (auto simp: exec_one_def Let_def)
        have "c_name c' \<noteq> CHR ''D''" "c_name c' \<in> set ''btT{'' \<longrightarrow> pc \<le> c_block c'"
          using c f by (simp_all del: set_simps)
        from run_command_forward [OF run this] run_command_cmds [OF run] run_command_left [OF run] st
        show ?thesis by simp
      qed
    qed
  qed
qed

lemma exec_forward:
  assumes "forward (p_cmds (s_p st))"
  shows "\<exists>r st'. exec L W pc st = Some (r, st') \<and> forward (p_cmds (s_p st')) \<and>
    bytes_left (s_in st') \<le> bytes_left (s_in st) \<and> r \<noteq> Inr ActRestart"
  using assms
proof (induction "length (p_cmds (s_p st)) - pc" arbitrary: pc st rule: less_induct)
  case less
  show ?case
  proof (cases "pc < length (p_cmds (s_p st))")
    case False
    with less.prems show ?thesis by (simp add: exec.simps [of L W pc st])
  next
    case True
    note X = exec_one_forward [OF less.prems True refl, of L W]
    show ?thesis
    proof (cases "exec_one L W pc st")
      case (Stop r st')
      with X True show ?thesis by (simp add: exec.simps [of L W pc st])
    next
      case (Goto pc' st')
      with X True have "length (p_cmds (s_p st')) - pc' < length (p_cmds (s_p st)) - pc"
        by (simp add: diff_less_mono2)
      from less.hyps [OF this] X Goto obtain r st'' where "exec L W pc' st' = Some (r, st'')"
        "forward (p_cmds (s_p st''))" "bytes_left (s_in st'') \<le> bytes_left (s_in st')" "r \<noteq> Inr ActRestart"
        by auto
      with Goto X True show ?thesis by (fastforce simp: exec.simps [of L W pc st])
    qed
  qed
qed

lemma end_cycle_in:
  "end_cycle W rst = Again b st \<Longrightarrow>
   s_in st = s_in (snd rst) \<and> p_cmds (s_p st) = p_cmds (s_p (snd rst)) \<and> (b \<longrightarrow> fst rst = Inr ActRestart)"
  by (cases rst) (auto simp: end_cycle_def split: sum.splits act.splits)

lemma run_loop_forward:
  "forward (p_cmds (s_p st)) \<Longrightarrow> run_loop L W False st \<noteq> None"
proof (induction "bytes_left (s_in st)" arbitrary: st rule: less_induct)
  case less
  show ?case
  proof (cases "start_cycle st")
    case None
    then show ?thesis by (simp add: run_loop.simps [of L W False st])
  next
    case (Some st1)
    then have st1: "forward (p_cmds (s_p st1))" "bytes_left (s_in st1) < bytes_left (s_in st)"
      using less.prems read_line_left [of "s_in st"]
      by (auto simp: start_cycle_def split: option.splits prod.splits)
    from exec_forward [OF st1(1), of L W 0] obtain r st' where rst: "exec L W 0 st1 = Some (r, st')"
      and st': "forward (p_cmds (s_p st'))" "bytes_left (s_in st') \<le> bytes_left (s_in st1)" "r \<noteq> Inr ActRestart"
      by blast
    show ?thesis
    proof (cases "end_cycle W (r, st')")
      case (Finished e st2)
      with Some rst show ?thesis by (simp add: run_loop.simps [of L W False st])
    next
      case (Again b st2)
      with end_cycle_in [OF Again] st' st1 less.hyps [of st2] Some rst show ?thesis
        by (simp add: run_loop.simps [of L W False st])
    qed
  qed
qed

text \<open>
  C3. A script that compiles and whose jumps all go forward ends, whatever its input: every
  call of \<^verbatim>\<open>Run\<close> returns.
\<close>

theorem sed_forward_terminates:
  assumes "forward (p_cmds p)"
  shows "\<exists>r p' world'. sed_run L W p w rs world = Some (r, p', world')"
proof -
  have "run_loop L W False (new_state p w rs world) \<noteq> None"
    by (rule run_loop_forward) (use assms in \<open>simp add: new_state_def\<close>)
  then have "sed_run L W p w rs world \<noteq> None" by (simp add: sed_run_def)
  then show ?thesis by (cases "sed_run L W p w rs world") (auto simp: prod_eq_iff)
qed

theorem sed_forward_terminates_witness:
  "\<exists>r p' world'. sed_run rx_lib mem_io (projr (sed_compile rx_lib ''/x/{s/x/y/;t z};p;:z'' False False))
     0 [''ax'', ''b''] no_files = Some (r, p', world')"
proof (rule sed_forward_terminates)
  let ?c = "sed_compile rx_lib ''/x/{s/x/y/;t z};p;:z'' False False"
  have "list_all (\<lambda>(i, c). c_name c \<noteq> CHR ''D'' \<and> (c_name c \<in> set ''btT{'' \<longrightarrow> i \<le> c_block c))
      (enumerate 0 (p_cmds (projr ?c)))" by code_simp
  then show "forward (p_cmds (projr ?c))"
    by (simp add: forward_def list_all_length nth_enumerate_eq del: set_simps)
qed

subsection \<open>The empty script copies\<close>

text \<open>What sed makes of several files: each as it is, a newline where one without a last newline meets more.\<close>

fun joined :: "string list \<Rightarrow> string" where
  "joined [] = []"
| "joined (r # rs) =
     (if r = [] then joined rs
      else if joined rs = [] \<or> last r = CHR 0x0A then r @ joined rs
      else r @ CHR 0x0A # joined rs)"

definition input_text :: "sed_input \<Rightarrow> string" where
  "input_text i =
     (if i_has_next i then
        i_next i @ (let rest = joined (case i_cur i of None \<Rightarrow> i_readers i | Some r \<Rightarrow> r # i_readers i)
                    in if i_next_nl i \<or> rest \<noteq> [] then CHR 0x0A # rest else [])
      else [])"

definition input_ok :: "sed_input \<Rightarrow> bool" where
  "input_ok i = (i_has_next i \<longrightarrow> i_next i \<noteq> [] \<or> i_next_nl i)"

lemma advance_loop_text: "input_text (advance_loop rs i) = joined rs \<and> input_ok (advance_loop rs i)"
proof (induction rs)
  case Nil
  then show ?case by (simp add: input_text_def input_ok_def)
next
  case (Cons r rs)
  let ?P = "\<lambda>c. c \<noteq> CHR 0x0A"
  show ?case
  proof (cases "r = []")
    case True
    with Cons show ?thesis by simp
  next
    case False
    show ?thesis
    proof (cases "dropWhile ?P r")
      case Nil
      then have "takeWhile ?P r = r" "last r \<noteq> CHR 0x0A"
        using False by (metis append_Nil2 takeWhile_dropWhile_id) (use Nil False in \<open>auto simp: dropWhile_eq_Nil_conv\<close>)
      with False Nil show ?thesis
        by (simp add: input_text_def input_ok_def Let_def del: dropWhile_eq_Nil_conv takeWhile_eq_all_conv)
    next
      case (Cons c t)
      then have c: "c = CHR 0x0A" by (metis (full_types) dropWhile_eq_Cons_conv)
      have r: "takeWhile ?P r @ CHR 0x0A # t = r"
        using takeWhile_dropWhile_id [of ?P r] Cons c by simp
      have "last r = (if t = [] then CHR 0x0A else last t)"
        by (subst r [symmetric]) simp
      moreover have "r @ u = takeWhile ?P r @ CHR 0x0A # t @ u" for u
        by (subst r [symmetric]) simp
      ultimately show ?thesis
        using False Cons r by (cases "t = []") (simp_all add: input_text_def input_ok_def Let_def)
    qed
  qed
qed

lemma read_line_text:
  assumes "i_has_next i" "read_line i = (x, i')"
  shows "x = Some (i_next i, i_next_nl i) \<and> input_ok i' \<and>
    input_text i = i_next i @ (if i_next_nl i \<or> input_text i' \<noteq> [] then CHR 0x0A # input_text i' else [])"
proof -
  have line: "input_text (j\<lparr>i_line := n\<rparr>) = input_text j" "input_ok (j\<lparr>i_line := n\<rparr>) = input_ok j" for j n
    by (simp_all add: input_text_def input_ok_def split: option.split)
  show ?thesis
    using assms advance_loop_text [of "case i_cur i of None \<Rightarrow> i_readers i | Some r \<Rightarrow> r # i_readers i" i]
    by (auto simp: read_line_def line advance_def input_text_def [of i] Let_def)
qed

text \<open>A writer that takes what it is given.\<close>

locale sed_sink =
  fixes W :: "'w io" and h :: nat and shown :: "'w \<Rightarrow> string"
  assumes write_ok: "fst (io_write W h s w) = None"
    and write_shown: "shown (snd (io_write W h s w)) = shown w @ s"
begin

definition clean :: "('re, 'w) sstate \<Rightarrow> bool" where
  "clean st = (o_err (s_out st) = None \<and> o_w (s_out st) = h \<and> s_append_q st = [])"

definition pending :: "('re, 'w) sstate \<Rightarrow> string" where
  "pending st = (if o_missing_nl (s_out st) then [CHR 0x0A] else [])"

lemma out_write_clean:
  assumes "o_err out = None" "o_w out = h"
  shows "\<exists>w'. out_write W s (out, w) = (out\<lparr>o_missing_nl := False\<rparr>, w') \<and>
    shown w' = shown w @ (if o_missing_nl out then [CHR 0x0A] else []) @ s"
proof -
  obtain w1 where w1: "io_write W h [CHR 0x0A] w = (None, w1)" "shown w1 = shown w @ [CHR 0x0A]"
    using write_ok [of "[CHR 0x0A]" w] write_shown [of "[CHR 0x0A]" w]
    by (cases "io_write W h [CHR 0x0A] w") simp
  have s: "\<exists>w'. io_write W h s v = (None, w') \<and> shown w' = shown v @ s" for v
    using write_ok [of s v] write_shown [of s v] by (cases "io_write W h s v") simp
  have out: "out\<lparr>o_err := None\<rparr> = out" using assms by (cases out) simp
  show ?thesis
  proof (cases "o_missing_nl out")
    case True
    with s [of w1] w1 assms show ?thesis by (cases out) (auto simp: out_write_def)
  next
    case False
    with s [of w] assms show ?thesis by (cases out) (auto simp: out_write_def)
  qed
qed

lemma autoprint_clean:
  assumes "clean st" "\<not> p_quiet (s_p st)"
  shows "clean (autoprint W st) \<and> o_missing_nl (s_out (autoprint W st)) = (\<not> s_nl st) \<and>
    shown (s_world (autoprint W st)) =
      shown (s_world st) @ pending st @ s_ps st @ (if s_nl st then [CHR 0x0A] else [])"
proof -
  obtain w1 where w1: "out_write W (s_ps st) (s_out st, s_world st) =
      ((s_out st)\<lparr>o_missing_nl := False\<rparr>, w1)" "shown w1 = shown (s_world st) @ pending st @ s_ps st"
    using out_write_clean [of "s_out st" "s_ps st" "s_world st"] assms(1)
    by (auto simp: clean_def pending_def)
  obtain w2 where w2: "out_write W [CHR 0x0A] ((s_out st)\<lparr>o_missing_nl := False\<rparr>, w1) =
      ((s_out st)\<lparr>o_missing_nl := False\<rparr>, w2)" "shown w2 = shown w1 @ [CHR 0x0A]"
    using out_write_clean [of "(s_out st)\<lparr>o_missing_nl := False\<rparr>" "[CHR 0x0A]" w1] assms(1)
    by (auto simp: clean_def)
  from w1 w2 assms show ?thesis
    by (auto simp: autoprint_def with_out_def out_line_def clean_def)
qed

lemma copy_loop:
  "\<lbrakk>clean st; p_cmds (s_p st) = []; \<not> p_quiet (s_p st); input_ok (s_in st)\<rbrakk> \<Longrightarrow>
   \<exists>st'. run_loop L W False st = Some (None, st') \<and> o_err (s_out st') = None \<and> s_quit st' = s_quit st \<and>
     shown (s_world st') = shown (s_world st) @
       (if input_text (s_in st) = [] then [] else pending st @ input_text (s_in st))"
proof (induction "bytes_left (s_in st)" arbitrary: st rule: less_induct)
  case less
  show ?case
  proof (cases "i_has_next (s_in st)")
    case False
    with less.prems show ?thesis
      by (simp add: run_loop.simps [of L W False st] start_cycle_def read_line_def input_text_def clean_def)
  next
    case True
    obtain x i' where rd: "read_line (s_in st) = (x, i')" by fastforce
    note t = read_line_text [OF True rd]
    let ?st1 = "st\<lparr>s_in := i', s_ps := i_next (s_in st), s_nl := i_next_nl (s_in st), s_replaced := False\<rparr>"
    have st1: "start_cycle st = Some ?st1" using rd t by (simp add: start_cycle_def)
    have ex: "exec L W 0 ?st1 = Some (Inr ActEnd, ?st1)"
      using less.prems(2) by (simp add: exec.simps [of L W 0])
    let ?st2 = "flush_appends W (autoprint W ?st1)"
    have "clean ?st1" "\<not> p_quiet (s_p ?st1)" "pending ?st1 = pending st"
      using less.prems by (simp_all add: clean_def pending_def)
    note ap = autoprint_clean [OF this(1,2)] this(3)
    have q: "s_append_q (autoprint W ?st1) = []" using ap(1) by (simp add: clean_def)
    have st2: "?st2 = autoprint W ?st1"
      using q by (cases "autoprint W ?st1") (simp add: flush_appends_def)
    have quit: "s_quit (autoprint W ?st1) = s_quit st"
      by (simp add: autoprint_def with_out_def case_prod_beta)
    have left: "bytes_left (s_in ?st2) < bytes_left (s_in st)"
      using read_line_left [OF rd] t by simp
    have "clean ?st2 \<and> p_cmds (s_p ?st2) = [] \<and> \<not> p_quiet (s_p ?st2) \<and> input_ok (s_in ?st2)"
      using ap(1) st2 less.prems t by simp
    with less.hyps [OF left] obtain st' where IH: "run_loop L W False ?st2 = Some (None, st')"
      "o_err (s_out st') = None" "s_quit st' = s_quit ?st2"
      "shown (s_world st') = shown (s_world ?st2) @
        (if input_text i' = [] then [] else pending ?st2 @ input_text i')"
      by auto
    have run: "run_loop L W False st = Some (None, st')"
      using st1 ex IH(1) by (simp add: run_loop.simps [of L W False st] end_cycle_def)
    have "pending ?st2 = (if i_next_nl (s_in st) then [] else [CHR 0x0A])"
      using ap(1) by (simp add: st2 pending_def)
    with IH(4) ap(1) have "shown (s_world st') = shown (s_world st) @ pending ?st1 @ i_next (s_in st) @
        (if i_next_nl (s_in st) then [CHR 0x0A] else []) @
        (if input_text i' = [] then [] else (if i_next_nl (s_in st) then [] else [CHR 0x0A]) @ input_text i')"
      by (simp add: st2)
    with ap(2) t less.prems(4) True have "shown (s_world st') = shown (s_world st) @
       (if input_text (s_in st) = [] then [] else pending st @ input_text (s_in st))"
      by (auto simp: input_ok_def)
    with run IH(2,3) quit show ?thesis by (simp add: st2)
  qed
qed

lemma copy_run:
  assumes "p_cmds p = []" "\<not> p_quiet p"
  shows "\<exists>p' world'. sed_run L W p h rs world = Some (RunOk, p', world') \<and>
    shown world' = shown world @ joined rs"
proof -
  let ?st = "new_state p h rs world"
  have t: "input_text (s_in ?st) = joined rs \<and> input_ok (s_in ?st)"
    using advance_loop_text [of rs] by (simp add: new_state_def new_input_def advance_def)
  have "clean ?st" "pending ?st = []"
    by (simp_all add: new_state_def clean_def pending_def)
  with copy_loop [of ?st L] t assms obtain st' where "run_loop L W False ?st = Some (None, st')"
    "o_err (s_out st') = None" "s_quit st' = False" "shown (s_world st') = shown world @ joined rs"
    by (auto simp: new_state_def)
  then show ?thesis by (simp add: sed_run_def)
qed

end

interpretation mem_sink: sed_sink mem_io 0 m_out
  by unfold_locales (simp_all add: mem_io_def)

text \<open>
  C7. A script without commands copies: over any files, into any writer that takes what it is
  given, \<^verbatim>\<open>Run\<close> returns without an error and has written each file byte for byte, a missing
  last newline left missing at the end and put in where more follows.
\<close>

theorem sed_empty_copies:
  assumes "sed_sink W h shown" "p_cmds p = []" "\<not> p_quiet p"
  shows "\<exists>p' world'. sed_run L W p h rs world = Some (RunOk, p', world') \<and>
    shown world' = shown world @ joined rs"
  using sed_sink.copy_run [OF assms(1-3)] .

theorem sed_empty_copies_witness:
  "\<exists>p' world'. sed_run rx_lib mem_io (projr (sed_compile rx_lib ''# nothing'' False False)) 0
      [''ab'', [CHR ''c'', CHR 0x0A], ''d''] no_files = Some (RunOk, p', world') \<and>
    m_out world' = [CHR ''a'', CHR ''b'', CHR 0x0A, CHR ''c'', CHR 0x0A, CHR ''d'']"
proof -
  have "p_cmds (projr (sed_compile rx_lib ''# nothing'' False False)) = []"
    "\<not> p_quiet (projr (sed_compile rx_lib ''# nothing'' False False))" by code_simp+
  from sed_empty_copies [OF mem_sink.sed_sink_axioms this, of rx_lib
      "[''ab'', [CHR ''c'', CHR 0x0A], ''d'']" no_files]
  show ?thesis by (simp add: no_files_def)
qed

subsection \<open>Ranges of lines\<close>

text \<open>What a command selects on \<open>k\<close> lines, the first of them line \<open>ln\<close>, its range state carried along.\<close>

primrec lines_selected ::
  "'re go_lib \<Rightarrow> ('re, 'w) sstate \<Rightarrow> nat \<Rightarrow> 're command \<Rightarrow> int \<Rightarrow> bool list"
where
  "lines_selected L st 0 c ln = []"
| "lines_selected L st (Suc k) c ln =
     (case selected L (st\<lparr>s_in := (s_in st)\<lparr>i_line := ln\<rparr>\<rparr>) c of
        Inl e \<Rightarrow> []
      | Inr (b, c', r) \<Rightarrow> b # lines_selected L st k c' (ln + 1))"

definition range_until :: "int \<Rightarrow> 're address \<Rightarrow> int \<Rightarrow> bool" where
  "range_until n a e =
     (a_kind a = AddrLine \<and> e = max n (a_line a) \<or>
      a_kind a = AddrPlus \<and> 0 \<le> a_line a \<and> e = n + a_line a \<and> e < 2 ^ 63)"

lemma lines_selected_range:
  assumes "a_kind (c_a1 c) = AddrLine" "a_line (c_a1 c) = n" "range_until n (c_a2 c) e" "0 < n"
    "c_active c \<longleftrightarrow> n < ln \<and> ln \<le> e"
    "c_active c \<and> a_kind (c_a2 c) = AddrPlus \<longrightarrow> c_end_line c = e"
  shows "lines_selected L st k c ln = map (\<lambda>i. n \<le> ln + int i \<and> ln + int i \<le> e) [0..<k]"
  using assms
proof (induction k arbitrary: c ln)
  case (Suc k)
  let ?st = "st\<lparr>s_in := (s_in st)\<lparr>i_line := ln\<rparr>\<rparr>"
  have w: "wrap64 (n + a_line (c_a2 c)) = e" if "a_kind (c_a2 c) = AddrPlus"
    using Suc.prems(3,4) that by (auto simp: range_until_def)
  have "\<exists>c' r. selected L ?st c = Inr (n \<le> ln \<and> ln \<le> e, c', r) \<and> c_a1 c' = c_a1 c \<and> c_a2 c' = c_a2 c \<and>
      (c_active c' \<longleftrightarrow> n < ln + 1 \<and> ln + 1 \<le> e) \<and>
      (c_active c' \<and> a_kind (c_a2 c') = AddrPlus \<longrightarrow> c_end_line c' = e)"
  proof (cases "a_kind (c_a2 c) = AddrPlus")
    case True
    with Suc.prems w show ?thesis
      by (cases "c_active c"; cases "ln = n"; cases "a_line (c_a2 c) = 0")
        (auto simp: selected_def match_one_def in_range_def enter_range_def range_until_def Let_def)
  next
    case False
    with Suc.prems have "a_kind (c_a2 c) = AddrLine" by (auto simp: range_until_def)
    with Suc.prems show ?thesis
      by (cases "c_active c"; cases "ln = n"; cases "a_line (c_a2 c) \<le> ln")
        (auto simp: selected_def match_one_def in_range_def enter_range_def range_until_def Let_def)
  qed
  then obtain c' r where sel: "selected L ?st c = Inr (n \<le> ln \<and> ln \<le> e, c', r)"
    and c': "c_a1 c' = c_a1 c" "c_a2 c' = c_a2 c" "c_active c' \<longleftrightarrow> n < ln + 1 \<and> ln + 1 \<le> e"
      "c_active c' \<and> a_kind (c_a2 c') = AddrPlus \<longrightarrow> c_end_line c' = e" by blast
  have IH: "lines_selected L st k c' (ln + 1) =
      map (\<lambda>i. n \<le> ln + 1 + int i \<and> ln + 1 + int i \<le> e) [0..<k]"
    by (rule Suc.IH) (use c' Suc.prems in simp_all)
  have "[0..<Suc k] = 0 # map Suc [0..<k]" by (simp add: map_Suc_upt upt_conv_Cons)
  with sel IH show ?case by (simp add: algebra_simps)
qed simp

text \<open>
  C13. A range \<open>n,m\<close> of line numbers selects exactly the lines from \<open>n\<close> to \<open>m\<close>, or \<open>n\<close> alone
  where \<open>m\<close> is not after it, and \<open>n,+k\<close> the lines from \<open>n\<close> to \<open>n + k\<close>, as long as that is
  a 64-bit number.
\<close>

theorem sed_line_range:
  assumes "a_kind (c_a1 c) = AddrLine" "a_line (c_a1 c) = n" "0 < n" "\<not> c_active c"
    "range_until n (c_a2 c) e"
  shows "lines_selected L st k c 1 = map (\<lambda>i. n \<le> int i \<and> int i \<le> e) [1..<Suc k]"
proof -
  have "lines_selected L st k c 1 = map (\<lambda>i. n \<le> 1 + int i \<and> 1 + int i \<le> e) [0..<k]"
    by (rule lines_selected_range) (use assms in auto)
  also have "\<dots> = map (\<lambda>i. n \<le> int i \<and> int i \<le> e) (map Suc [0..<k])" by simp
  finally show ?thesis by (simp only: map_Suc_upt One_nat_def)
qed

definition line_range :: "int \<Rightarrow> int \<Rightarrow> (rx \<times> nat) command" where
  "line_range n k = new_command\<lparr>c_a1 := no_address\<lparr>a_kind := AddrLine, a_line := n\<rparr>,
     c_a2 := no_address\<lparr>a_kind := AddrPlus, a_line := k\<rparr>\<rparr>"

theorem sed_line_range_witness:
  "lines_selected rx_lib (new_state (projr (sed_compile rx_lib ''p'' False False)) 0 [] no_files) 5 (line_range 2 1) 1 =
     [False, True, True, False, False]"
proof -
  have "lines_selected rx_lib (new_state (projr (sed_compile rx_lib ''p'' False False)) 0 [] no_files) 5 (line_range 2 1) 1 =
      map (\<lambda>i. 2 \<le> int i \<and> int i \<le> 3) [1..<Suc 5]"
    by (rule sed_line_range) (simp_all add: line_range_def new_command_def no_address_def range_until_def)
  then show ?thesis by (simp add: upt_conv_Cons)
qed

subsection \<open>Replacing by the match\<close>

lemma emit_runes_plain: "emit_runes L (CHR 0x00) (CHR 0x00) rs = (string_of_runes rs, CHR 0x00)"
  by (induction rs) (simp_all add: string_of_runes_def)

lemma string_of_runes_ascii: "\<forall>c \<in> set s. byte_of c < 128 \<Longrightarrow> string_of_runes (runes s) = s"
  by (induction s) (auto simp: runes.simps decode_ascii encode_rune_ascii string_of_runes_def)

lemma subst_loop_identity:
  "\<lbrakk>c_repl c = [Group 0]; \<forall>x \<in> set ps. byte_of x < 128; matches_from (length ps) prev ms;
    prev \<le> length ps\<rbrakk> \<Longrightarrow> subst_loop L c ps i prev ms = Some (drop prev ps)"
proof (induction ms arbitrary: i prev)
  case Nil
  then show ?case by (simp add: slice_def)
next
  case (Cons m ms)
  from Cons.prems(3) obtain a b gs where m: "m = Some (a, b) # gs" "prev \<le> a" "a \<le> b" "b \<le> length ps"
    "matches_from (length ps) b ms"
    by (auto split: list.splits option.splits)
  let ?s = "take (b - a) (drop a ps)"
  have "\<forall>x \<in> set ?s. byte_of x < 128"
    using Cons.prems(2) by (meson in_set_dropD in_set_takeD)
  then have ex: "expand L (CHR 0x00) (CHR 0x00) (c_repl c) ps m = Some ?s"
    using m Cons.prems(1) string_of_runes_ascii [of ?s]
    by (simp add: group_range_def slice_def emit_runes_plain)
  have "subst_loop L c ps (i + 1) prev ms = Some (drop prev ps)"
    using Cons m matches_from_mono [of "length ps" b ms prev] by simp
  moreover have "subst_loop L c ps (i + 1) b ms = Some (drop b ps)"
    using Cons m by simp
  moreover have "take (a - prev) (drop prev ps) @ ?s @ drop b ps = drop prev ps"
  proof -
    have "?s @ drop b ps = drop a ps"
      using m(3) append_take_drop_id [of "b - a" "drop a ps"] by (simp add: drop_drop)
    moreover have "take (a - prev) (drop prev ps) @ drop a ps = drop prev ps"
      using m(2) append_take_drop_id [of "a - prev" "drop prev ps"] by (simp add: drop_drop)
    ultimately show ?thesis by simp
  qed
  moreover have "slice ps prev a = Some (take (a - prev) (drop prev ps))"
    "slice ps prev (length ps) = Some (drop prev ps)"
    using m Cons.prems(4) by (simp_all add: slice_def)
  ultimately show ?case using m(1) ex by simp
qed

text \<open>
  C19. Replacing by \<open>&\<close> changes nothing: whatever the regular expression, the number and the
  \<open>g\<close> flag, the pattern space of ASCII text is what it was, and only the last regular
  expression and the flag of \<open>t\<close> may have changed.
\<close>

theorem sed_identity_substitution:
  assumes "go_regexp L" "c_repl c = [Group 0]" "\<forall>x \<in> set (s_ps st). byte_of x < 128"
    "c_re c = Some re" "\<not> c_re_empty c" "\<not> c_print c" "c_wfile c = []"
  shows "\<exists>b. sed_substitute L W c st = (None, (set_last_rx (Some re) st)\<lparr>s_replaced := b\<rparr>)"
proof -
  have "subst_loop L c (s_ps st) 0 0 (lib_find_all L re (s_ps st)) = Some (s_ps st)"
    using subst_loop_identity [OF assms(2,3) go_regexp.find_all_ok [OF assms(1)]] by simp
  with assms(4-7) show ?thesis
    by (cases st) (auto simp: sed_substitute_def set_last_rx_def Let_def)
qed

definition amp_command :: "(rx \<times> nat) command" where
  "amp_command = new_command\<lparr>c_repl := [Group 0], c_re := Some (RSet [(97, 98)] False False, 0),
     c_nth := 1, c_global := True\<rparr>"

definition amp_state :: "(rx \<times> nat, memio) sstate" where
  "amp_state = (new_state \<lparr>p_quiet = False, p_cmds = [], p_hold = [], p_last_rx = None,
     p_writers = Map.empty, p_code = 0\<rparr> 0 [] no_files)\<lparr>s_ps := ''cabbage''\<rparr>"

theorem sed_identity_substitution_witness:
  "\<exists>b. sed_substitute rx_lib mem_io amp_command amp_state =
     (None, (set_last_rx (Some (RSet [(97, 98)] False False, 0)) amp_state)\<lparr>s_replaced := b\<rparr>)"
  by (rule sed_identity_substitution [OF rxlib.go_regexp_axioms])
    (simp_all add: amp_command_def amp_state_def new_command_def byte_of_def)

end
