(* ===== verification/Cells.thy ===== *)
theory Cells
  imports Utf8
begin

text \<open>
  Terminal cells, \<^verbatim>\<open>src/shell/cells.go\<close>: what of a prompt takes cells, where the cursor is
  after a character on a terminal that wraps, and the sequence that moves it. The width of
  a rune is package \<^verbatim>\<open>go-runewidth\<close>'s and a parameter. Positions are relative to where the
  prompt starts. The second half is a terminal, as far as these sequences need one, and the
  lemmas that the cells are where its cursor is.
\<close>

subsection \<open>Prompts\<close>

definition prompt_text :: "string \<Rightarrow> string" where
  "prompt_text p = filter (\<lambda>c. c \<noteq> CHR 0x01 \<and> c \<noteq> CHR 0x02) p"

text \<open>
  \<^verbatim>\<open>skipEscape\<close>: what is left after the escape sequence, from the runes after its \<^verbatim>\<open>ESC\<close>.
\<close>

fun skip_string :: "rune list \<Rightarrow> rune list" where
  "skip_string [] = []"
| "skip_string (r # rs) =
     (if r = 7 then rs
      else if r = 27 \<and> rs \<noteq> [] \<and> hd rs = 92 then tl rs
      else skip_string rs)"

definition skip_escape :: "rune list \<Rightarrow> rune list" where
  "skip_escape rs =
     (case rs of
        [] \<Rightarrow> []
      | r # rs' \<Rightarrow>
         if r = 91 then drop 1 (dropWhile (\<lambda>x. \<not> (64 \<le> x \<and> x \<le> 126)) rs')
         else if r \<in> {93, 80, 88, 94, 95} then skip_string rs'
         else drop 1 (dropWhile (\<lambda>x. 32 \<le> x \<and> x \<le> 47) rs))"

lemma skip_string_length: "length (skip_string rs) \<le> length rs"
  by (induction rs rule: skip_string.induct) auto

lemma drop1_length: "length xs \<le> n \<Longrightarrow> length (drop 1 xs) \<le> n"
  by simp

lemma skip_escape_length: "length (skip_escape rs) \<le> length rs"
proof (cases rs)
  case (Cons r rs')
  have "length (skip_string rs') \<le> length rs"
    "length (drop 1 (dropWhile (\<lambda>x. \<not> (64 \<le> x \<and> x \<le> 126)) rs')) \<le> length rs"
    "length (drop 1 (dropWhile (\<lambda>x. 32 \<le> x \<and> x \<le> 47) rs)) \<le> length rs"
    using skip_string_length [of rs'] Cons length_dropWhile_le [of "\<lambda>x. 32 \<le> x \<and> x \<le> 47" rs]
      length_dropWhile_le [of "\<lambda>x. \<not> (64 \<le> x \<and> x \<le> 126)" rs']
    by (simp_all only: length_drop list.size)
  with Cons show ?thesis by (simp only: skip_escape_def list.case split: if_split) blast
qed (simp add: skip_escape_def)

function prompt_cells :: "rune list \<Rightarrow> rune list" where
  "prompt_cells [] = []"
| "prompt_cells (r # rs) =
     (if r = 1 then prompt_cells (drop 1 (dropWhile (\<lambda>x. x \<noteq> 2) rs))
      else if r = 27 then prompt_cells (skip_escape rs)
      else if r = 10 \<or> 32 \<le> r \<and> r \<noteq> 127 then r # prompt_cells rs
      else prompt_cells rs)"
  by pat_completeness auto
termination
proof (relation "measure length", goal_cases)
  case (2 r rs)
  then show ?case using length_dropWhile_le [of "\<lambda>x. x \<noteq> 2" rs] by simp
next
  case (3 r rs)
  then show ?case using skip_escape_length [of rs] by (simp add: less_Suc_eq_le)
qed auto

subsection \<open>Cells\<close>

type_synonym cell = "int \<times> int"

definition advance_cell :: "(rune \<Rightarrow> int) \<Rightarrow> cell \<Rightarrow> rune \<Rightarrow> int \<Rightarrow> cell" where
  "advance_cell width p r cols =
     (if r = 10 then (fst p + 1, 0)
      else let w = width r in
        if w = 0 then p
        else
          let p1 = (if 0 < cols \<and> cols < snd p + w then (fst p + 1, 0) else p);
              p2 = (fst p1, snd p1 + w)
          in if 0 < cols \<and> cols \<le> snd p2 then (fst p2 + 1, 0) else p2)"

definition esc_seq :: "int \<Rightarrow> char \<Rightarrow> string" where
  "esc_seq n c = CHR 0x1B # CHR ''['' # itoa n @ [c]"

definition move_cursor :: "cell \<Rightarrow> cell \<Rightarrow> string" where
  "move_cursor a b =
     (let d = fst b - fst a in
      (if 0 < d then esc_seq d (CHR ''B'') else if d < 0 then esc_seq (- d) (CHR ''A'') else []) @
      (if snd b \<noteq> snd a then esc_seq (snd b + 1) (CHR ''G'') else []))"

subsection \<open>A terminal\<close>

text \<open>
  The cursor of a terminal \<open>cols\<close> wide, as the ones the code writes to keep it: a row filled
  to its last column leaves the cursor there with the wrap pending, done before the next
  character. It reads runes; \<open>t_seq\<close> is the control sequence under way, its last parameter. A
  sequence that sets colours (\<^verbatim>\<open>m\<close>) leaves the cursor as it is, its pending wrap too.
\<close>

record term_state =
  t_row :: int
  t_col :: int
  t_pending :: bool
  t_seq :: "nat option"  \<comment> \<open>0: after \<open>ESC\<close>; otherwise one more than the parameter so far\<close>

definition put_rune :: "(rune \<Rightarrow> int) \<Rightarrow> int \<Rightarrow> rune \<Rightarrow> term_state \<Rightarrow> term_state" where
  "put_rune width cols r t =
     (let w = width r in
      if w = 0 then t
      else
        let t1 = (if t_pending t \<or> cols < t_col t + w
                  then t\<lparr>t_row := t_row t + 1, t_col := 0, t_pending := False\<rparr> else t)
        in if cols \<le> t_col t1 + w then t1\<lparr>t_col := cols - 1, t_pending := True\<rparr>
           else t1\<lparr>t_col := t_col t1 + w\<rparr>)"

definition csi_final :: "nat \<Rightarrow> rune \<Rightarrow> term_state \<Rightarrow> term_state" where
  "csi_final n r t =
     (let t1 = t\<lparr>t_seq := None, t_pending := False\<rparr>; k = int (max 1 n) in
      if r = 109 then t\<lparr>t_seq := None\<rparr>
      else if r = 65 then t1\<lparr>t_row := t_row t - k\<rparr>
      else if r = 66 then t1\<lparr>t_row := t_row t + k\<rparr>
      else if r = 71 then t1\<lparr>t_col := k - 1\<rparr>
      else t1)"

definition term_rune :: "(rune \<Rightarrow> int) \<Rightarrow> int \<Rightarrow> term_state \<Rightarrow> rune \<Rightarrow> term_state" where
  "term_rune width cols t r =
     (case t_seq t of
        None \<Rightarrow>
          (if r = 27 then t\<lparr>t_seq := Some 0\<rparr>
           else if r = 13 then t\<lparr>t_col := 0, t_pending := False\<rparr>
           else if r = 10 then t\<lparr>t_row := t_row t + 1, t_col := 0, t_pending := False\<rparr>
           else put_rune width cols r t)
      | Some n \<Rightarrow>
          (if n = 0 then t\<lparr>t_seq := (if r = 91 then Some 1 else None)\<rparr>
           else if 48 \<le> r \<and> r \<le> 57 then t\<lparr>t_seq := Some (Suc ((n - 1) * 10 + (r - 48)))\<rparr>
           else if r = 59 then t\<lparr>t_seq := Some 1\<rparr>
           else csi_final (n - 1) r t))"

definition term_runes :: "(rune \<Rightarrow> int) \<Rightarrow> int \<Rightarrow> rune list \<Rightarrow> term_state \<Rightarrow> term_state" where
  "term_runes width cols rs t = foldl (term_rune width cols) t rs"

text \<open>
  The cursor is at a cell: there, or at the end of the row before with the wrap pending;
  \<open>strict\<close> where it is there.
\<close>

definition at_cell :: "int \<Rightarrow> cell \<Rightarrow> term_state \<Rightarrow> bool" where
  "at_cell cols p t =
     (t_seq t = None \<and>
      (if t_pending t then p = (t_row t + 1, 0) \<and> t_col t = cols - 1
       else p = (t_row t, t_col t) \<and> 0 \<le> t_col t \<and> t_col t < cols))"

definition strictly_at :: "int \<Rightarrow> cell \<Rightarrow> term_state \<Rightarrow> bool" where
  "strictly_at cols p t = (at_cell cols p t \<and> \<not> t_pending t)"

lemma term_runes_append: "term_runes w c (a @ b) t = term_runes w c b (term_runes w c a t)"
  by (simp add: term_runes_def)

lemma advance_cell_at:
  assumes "at_cell cols p t" "0 \<le> width r" "width r \<le> cols" "32 \<le> r"
  shows "at_cell cols (advance_cell width p r cols) (term_rune width cols t r)"
  using assms
  by (cases p) (auto simp: at_cell_def advance_cell_def term_rune_def put_rune_def Let_def split: if_splits)

lemma advance_cells_at:
  assumes "at_cell cols p t" "\<forall>r \<in> set rs. 0 \<le> width r \<and> width r \<le> cols \<and> 32 \<le> r"
  shows "at_cell cols (foldl (\<lambda>p r. advance_cell width p r cols) p rs) (term_runes width cols rs t)"
  using assms
  by (induction rs arbitrary: p t) (auto simp: term_runes_def advance_cell_at)

text \<open>A row that is not filled leaves no wrap pending.\<close>

lemma at_cell_strict: "\<lbrakk>at_cell cols p t; snd p \<noteq> 0\<rbrakk> \<Longrightarrow> strictly_at cols p t"
  by (auto simp: at_cell_def strictly_at_def split: if_splits)

text \<open>The space and the carriage return after a filled row make its wrap happen.\<close>

lemma settle_at:
  assumes "at_cell cols (row, 0) t" "width 32 = 1" "1 < cols"
  shows "strictly_at cols (row, 0) (term_runes width cols [32, 13] t)"
  using assms
  by (auto simp: at_cell_def strictly_at_def term_runes_def term_rune_def put_rune_def Let_def
      split: if_splits)

subsection \<open>Moving the cursor\<close>

lemma term_digits:
  assumes "t_seq t = Some (Suc n)" "list_all is_digit ds"
  shows "term_runes w c (map byte_of ds) t =
    t\<lparr>t_seq := Some (Suc (nat (digits_val (int n) ds)))\<rparr>"
  using assms
proof (induction ds arbitrary: n t)
  case Nil
  then show ?case by (cases t) (simp add: term_runes_def)
next
  case (Cons d ds)
  have d: "48 \<le> byte_of d" "byte_of d \<le> 57" using Cons.prems by (simp_all add: is_digit_def)
  let ?n = "n * 10 + (byte_of d - 48)"
  have step: "term_rune w c t (byte_of d) = t\<lparr>t_seq := Some (Suc ?n)\<rparr>"
    using Cons.prems d by (simp add: term_rune_def)
  have "int ?n = int n * 10 + digit_val d" using d by (simp add: digit_val_def of_nat_diff)
  with Cons.IH [of "t\<lparr>t_seq := Some (Suc ?n)\<rparr>" ?n] Cons.prems step show ?case
    by (simp add: term_runes_def)
qed

lemma term_esc_seq:
  assumes "t_seq t = None" "0 < n" "\<not> is_digit ch" "ch \<noteq> CHR '';''"
  shows "term_runes w c (map byte_of (esc_seq n ch)) t =
    csi_final (nat n) (byte_of ch) (t\<lparr>t_seq := Some (Suc (nat n))\<rparr>)"
proof -
  have "term_runes w c [27, 91] t = t\<lparr>t_seq := Some 1\<rparr>"
    using assms by (simp add: term_runes_def term_rune_def)
  moreover have "itoa n = itoa_nat (nat n)" using assms by (simp add: itoa_def)
  moreover have "term_runes w c (map byte_of (itoa_nat (nat n))) (t\<lparr>t_seq := Some 1\<rparr>) =
      t\<lparr>t_seq := Some (Suc (nat n))\<rparr>"
    using term_digits [of "t\<lparr>t_seq := Some 1\<rparr>" 0 "itoa_nat (nat n)" w c] itoa_nat_digits [of "nat n"]
    by (simp add: digits_val_itoa_nat)
  moreover have "byte_of (CHR 0x1B) = 27" "byte_of (CHR ''['') = 91" by (simp_all add: byte_of_def)
  ultimately have "term_runes w c (map byte_of (esc_seq n ch)) t =
      term_rune w c (t\<lparr>t_seq := Some (Suc (nat n))\<rparr>) (byte_of ch)"
    using term_runes_append [of w c "[27, 91]" "map byte_of (itoa_nat (nat n) @ [ch])" t]
      term_runes_append [of w c "map byte_of (itoa_nat (nat n))" "[byte_of ch]" "t\<lparr>t_seq := Some 1\<rparr>"]
    by (simp add: esc_seq_def term_runes_def)
  moreover have "chr_of 59 = CHR '';''" by code_simp
  then have "byte_of ch \<noteq> 59" using assms(4) by (metis chr_of_byte_of)
  ultimately show ?thesis using assms(3) by (auto simp: term_rune_def is_digit_def)
qed

lemma move_cursor_moves:
  assumes "strictly_at cols a t" "0 \<le> snd b" "snd b < cols"
  shows "strictly_at cols b (term_runes w cols (map byte_of (move_cursor a b)) t)"
proof -
  let ?d = "fst b - fst a"
  let ?v = "if 0 < ?d then esc_seq ?d (CHR ''B'') else if ?d < 0 then esc_seq (- ?d) (CHR ''A'') else []"
  have nd: "\<not> is_digit (CHR ''A'')" "\<not> is_digit (CHR ''B'')" "\<not> is_digit (CHR ''G'')"
    and codes: "byte_of (CHR ''A'') = 65" "byte_of (CHR ''B'') = 66" "byte_of (CHR ''G'') = 71"
    by (simp_all add: is_digit_def byte_of_def)
  have t: "t_seq t = None" "\<not> t_pending t" "a = (t_row t, t_col t)" "0 \<le> t_col t" "t_col t < cols"
    using assms(1) by (auto simp: strictly_at_def at_cell_def split: if_splits)
  have v: "term_runes w cols (map byte_of ?v) t = t\<lparr>t_row := fst b\<rparr>"
    using t term_esc_seq [of t ?d "CHR ''B''" w cols] term_esc_seq [of t "- ?d" "CHR ''A''" w cols] nd codes
    by (cases t) (auto simp: csi_final_def term_runes_def Let_def)
  have "term_runes w cols (map byte_of (move_cursor a b)) t =
      term_runes w cols (map byte_of (if snd b \<noteq> snd a then esc_seq (snd b + 1) (CHR ''G'') else []))
        (t\<lparr>t_row := fst b\<rparr>)"
    using v by (simp only: move_cursor_def Let_def map_append term_runes_append)
  also have "\<dots> = t\<lparr>t_row := fst b, t_col := snd b\<rparr>"
    using t assms(2) term_esc_seq [of "t\<lparr>t_row := fst b\<rparr>" "snd b + 1" "CHR ''G''" w cols] nd codes
    by (cases t) (auto simp: csi_final_def term_runes_def Let_def)
  finally show ?thesis
    using t assms by (cases b) (simp add: strictly_at_def at_cell_def)
qed

end
