(* ===== verification/Go_Text.thy ===== *)
theory Go_Text
  imports Utf8
begin

text \<open>
  Functions of Go's \<^verbatim>\<open>strings\<close> package that look at characters: \<^verbatim>\<open>TrimSpace\<close>,
  \<^verbatim>\<open>Fields\<close>, \<^verbatim>\<open>ToLower\<close>, \<^verbatim>\<open>ToUpper\<close> and \<^verbatim>\<open>EqualFold\<close>. On ASCII text the case
  functions are defined here, as Go's fast paths are; what they do with other text comes
  from the Unicode tables, which are a parameter.
\<close>

definition is_space_rune :: "rune \<Rightarrow> bool" where
  "is_space_rune r = (9 \<le> r \<and> r \<le> 13 \<or> 8192 \<le> r \<and> r \<le> 8202 \<or>
     r \<in> set [32, 133, 160, 5760, 8232, 8233, 8239, 8287, 12288])"

text \<open>A string cut into its characters, each with the bytes it was decoded from.\<close>

function segments :: "string \<Rightarrow> (rune \<times> string) list" where
  "segments s = (if s = [] then []
     else (fst (decode_rune s), take (snd (decode_rune s)) s)
       # segments (drop (snd (decode_rune s)) s))"
  by pat_completeness auto
termination
  by (relation "measure length") (use decode_rune_size in \<open>auto simp: Suc_le_eq\<close>)

declare segments.simps [simp del]

definition space_seg :: "rune \<times> string \<Rightarrow> bool" where
  "space_seg p = is_space_rune (fst p)"

definition trim_space :: "string \<Rightarrow> string" where
  "trim_space s =
     concat (map snd (rev (dropWhile space_seg (rev (dropWhile space_seg (segments s))))))"

text \<open>\<^verbatim>\<open>strings.Fields\<close>: the words between runs of white space.\<close>

fun seg_fields :: "string \<Rightarrow> (rune \<times> string) list \<Rightarrow> string list" where
  "seg_fields w [] = (if w = [] then [] else [w])"
| "seg_fields w (p # ps) =
     (if space_seg p then (if w = [] then seg_fields [] ps else w # seg_fields [] ps)
      else seg_fields (w @ snd p) ps)"

definition string_fields :: "string \<Rightarrow> string list" where
  "string_fields s = seg_fields [] (segments s)"

definition is_ascii :: "string \<Rightarrow> bool" where
  "is_ascii s = list_all (\<lambda>c. byte_of c < 128) s"

definition lower_byte :: "char \<Rightarrow> char" where
  "lower_byte c = (if 65 \<le> byte_of c \<and> byte_of c \<le> 90 then chr_of (byte_of c + 32) else c)"

definition upper_byte :: "char \<Rightarrow> char" where
  "upper_byte c = (if 97 \<le> byte_of c \<and> byte_of c \<le> 122 then chr_of (byte_of c - 32) else c)"

text \<open>
  The Unicode tables: what the case functions make of a rune that is not ASCII, and when two
  texts that are not both ASCII fold alike.
\<close>

record unicode =
  y_lower :: "rune \<Rightarrow> rune"
  y_upper :: "rune \<Rightarrow> rune"
  y_fold :: "string \<Rightarrow> string \<Rightarrow> bool"

definition lower_rune :: "unicode \<Rightarrow> rune \<Rightarrow> rune" where
  "lower_rune U r = (if r < 128 then byte_of (lower_byte (chr_of r)) else y_lower U r)"

definition upper_rune :: "unicode \<Rightarrow> rune \<Rightarrow> rune" where
  "upper_rune U r = (if r < 128 then byte_of (upper_byte (chr_of r)) else y_upper U r)"

definition to_lower :: "unicode \<Rightarrow> string \<Rightarrow> string" where
  "to_lower U s = (if is_ascii s then map lower_byte s else string_of_runes (map (lower_rune U) (runes s)))"

definition to_upper :: "unicode \<Rightarrow> string \<Rightarrow> string" where
  "to_upper U s = (if is_ascii s then map upper_byte s else string_of_runes (map (upper_rune U) (runes s)))"

definition equal_fold :: "unicode \<Rightarrow> string \<Rightarrow> string \<Rightarrow> bool" where
  "equal_fold U a b =
     (if is_ascii a \<and> is_ascii b then map lower_byte a = map lower_byte b else y_fold U a b)"

lemma segments_Nil [simp]: "segments [] = []"
  by (simp add: segments.simps)

lemma segments_ascii: "is_ascii s \<Longrightarrow> segments s = map (\<lambda>c. (byte_of c, [c])) s"
  by (induction s) (simp_all add: is_ascii_def segments.simps [of "_ # _"] decode_ascii)

lemma concat_segments: "concat (map snd (segments s)) = s"
proof (induction s rule: segments.induct)
  case (1 s)
  then show ?case
    by (cases "decode_rune s") (simp add: segments.simps [of s])
qed

text \<open>An ASCII text that neither begins nor ends with white space is its own trimming.\<close>

lemma trim_space_id:
  assumes "is_ascii s" "s \<noteq> []" "\<not> is_space_rune (byte_of (hd s))" "\<not> is_space_rune (byte_of (last s))"
  shows "trim_space s = s"
proof -
  let ?f = "\<lambda>c. (byte_of c, [c])"
  have hd: "dropWhile space_seg (map ?f s) = map ?f s"
    using assms by (cases s) (auto simp: space_seg_def)
  have ls: "dropWhile space_seg (rev (map ?f s)) = rev (map ?f s)"
    using assms by (cases s rule: rev_cases) (auto simp: space_seg_def)
  show ?thesis
    using concat_segments [of s] by (simp add: trim_space_def segments_ascii [OF assms(1)] hd ls)
qed

text \<open>An ASCII beginning is cut, and lowered, character by character, whatever follows it.\<close>

lemma segments_ascii_append:
  "is_ascii a \<Longrightarrow> segments (a @ b) = map (\<lambda>c. (byte_of c, [c])) a @ segments b"
  by (induction a) (simp_all add: is_ascii_def segments.simps [of "_ # _"] decode_ascii)

lemma runes_ascii_append: "is_ascii a \<Longrightarrow> runes (a @ b) = map byte_of a @ runes b"
  by (induction a) (simp_all add: is_ascii_def runes.simps [of "_ # _"] decode_ascii)

lemma lower_byte_less: "byte_of c < 128 \<Longrightarrow> byte_of (lower_byte c) < 128"
  by (simp add: lower_byte_def)

lemma valid_rune_small: "r < 128 \<Longrightarrow> valid_rune r"
  by (simp add: valid_rune_def)

lemma string_lower_ascii:
  "is_ascii a \<Longrightarrow> string_of_runes (map (lower_rune U) (map byte_of a)) = map lower_byte a"
  by (induction a) (simp_all add: is_ascii_def lower_rune_def encode_rune_def lower_byte_less valid_rune_small)

lemma to_lower_ascii_prefix: "is_ascii a \<Longrightarrow> \<exists>x. to_lower U (a @ b) = map lower_byte a @ x"
  using string_lower_ascii [of a U] by (simp add: to_lower_def runes_ascii_append comp_def)

lemma dropWhile_rev_stop: "\<not> P z \<Longrightarrow> rev (dropWhile P (rev (xs @ z # ys))) = xs @ z # rev (dropWhile P (rev ys))"
  by (simp add: dropWhile_append)

text \<open>What the trimming leaves begins with the first text that neither begins nor ends with white space.\<close>

lemma trim_space_begins:
  assumes "is_ascii ws" "\<forall>c \<in> set ws. is_space_rune (byte_of c)" "is_ascii a" "a \<noteq> []"
    "\<not> is_space_rune (byte_of (hd a))" "\<not> is_space_rune (byte_of (last a))"
  shows "\<exists>x. trim_space (ws @ a @ b) = a @ x"
proof -
  let ?f = "\<lambda>c. (byte_of c, [c])"
  obtain i z where a: "a = i @ [z]" using assms(4) by (metis rev_exhaust)
  have 1: "dropWhile space_seg (segments (ws @ a @ b)) = map ?f a @ segments b"
  proof -
    have "\<forall>p \<in> set (map ?f ws). space_seg p" using assms(2) by (simp add: space_seg_def)
    then have "dropWhile space_seg (map ?f ws @ map ?f a @ segments b) = dropWhile space_seg (map ?f a @ segments b)"
      by (intro dropWhile_append2) blast
    also have "\<dots> = map ?f a @ segments b"
      using assms(4,5) by (cases a) (simp_all add: space_seg_def)
    finally show ?thesis by (simp add: segments_ascii_append assms(1,3))
  qed
  have "\<not> space_seg (?f z)" using assms(6) by (simp add: a space_seg_def)
  from dropWhile_rev_stop [of space_seg, OF this, of "map ?f i" "segments b"]
  have "rev (dropWhile space_seg (rev (map ?f a @ segments b))) =
      map ?f a @ rev (dropWhile space_seg (rev (segments b)))"
    by (simp add: a)
  then show ?thesis unfolding trim_space_def 1 by (simp add: comp_def)
qed

lemma seg_fields_word:
  "\<forall>c \<in> set w. \<not> is_space_rune (byte_of c) \<Longrightarrow>
   seg_fields v (map (\<lambda>c. (byte_of c, [c])) w @ ps) = seg_fields (v @ w) ps"
  by (induction w arbitrary: v) (simp_all add: space_seg_def)

text \<open>Trimming leaves nothing exactly of a text of those characters.\<close>

lemma trim_chars_Nil: "trim_chars x cs = [] \<longleftrightarrow> set x \<subseteq> set cs"
proof -
  have "set x \<subseteq> set cs" if "set (dropWhile (\<lambda>c. c \<in> set cs) x) \<subseteq> set cs"
    using that by (induction x) (auto split: if_splits)
  then show ?thesis
    unfolding trim_chars_def trim_right_def trim_left_def rev_is_Nil_conv dropWhile_eq_Nil_conv
      set_rev
    by (meson set_dropWhileD subset_code(1) subset_trans)
qed

end
