(* ===== verification/Line_Editor.thy ===== *)
theory Line_Editor
  imports Cells Go_Text
begin

text \<open>
  The line editor, \<^verbatim>\<open>src/shell/editor.go\<close>. Its callbacks are the record \<open>ed_conf\<close>: what the
  editor asks of its host is a function (of what it has told the host so far, where the
  answer may change), what it tells the host is an event, kept in order in \<open>e_evs\<close>. A
  submitted line is also given to the host, which may change the editor before the rest of
  the input is read; so may its clearing of the screen. The lemmas: the cursor and the history index stay in range, so no
  slice is out of range; the keys are those of a text with a cursor; and what is drawn
  leaves the terminal's cursor where the editor puts it.
\<close>

subsection \<open>State and callbacks\<close>

datatype ed_event =
    Echoed string | Submitted string | Interrupted | AtEOF | ScreenCleared
  | Redrawn string nat

record editor =
  e_buf :: "rune list"
  e_cursor :: nat
  e_history :: "string list"
  e_hist_idx :: nat
  e_hist_save :: string
  e_esc :: nat
  e_csi :: string
  e_settled :: bool
  e_evs :: "ed_event list"

record ed_conf =
  k_prompt :: "(ed_event list \<Rightarrow> string) option"
  k_cols :: "(ed_event list \<Rightarrow> int) option"
  k_complete :: "(string \<Rightarrow> bool \<Rightarrow> string list) option"
  k_submit :: "(string \<Rightarrow> editor \<Rightarrow> editor) option"
  k_interrupt :: bool
  k_eof :: bool
  k_clear :: "(editor \<Rightarrow> editor) option"
  k_redraw :: bool
  k_width :: "rune \<Rightarrow> int"

definition new_editor :: editor where
  "new_editor = \<lparr>e_buf = [], e_cursor = 0, e_history = [], e_hist_idx = 0, e_hist_save = [],
     e_esc = 0, e_csi = [], e_settled = False, e_evs = []\<rparr>"

definition echo :: "string \<Rightarrow> editor \<Rightarrow> editor" where
  "echo s e = e\<lparr>e_evs := e_evs e @ [Echoed s]\<rparr>"

definition editor_reset :: "editor \<Rightarrow> editor" where
  "editor_reset e = e\<lparr>e_buf := [], e_cursor := 0, e_hist_idx := length (e_history e),
     e_hist_save := [], e_settled := False\<rparr>"

definition add_history :: "string \<Rightarrow> editor \<Rightarrow> editor" where
  "add_history line e =
     (if line = [] then e
      else if e_history e \<noteq> [] \<and> last (e_history e) = line then e
      else e\<lparr>e_history := e_history e @ [line], e_hist_idx := length (e_history e) + 1\<rparr>)"

definition clear_history :: "editor \<Rightarrow> editor" where
  "clear_history e = e\<lparr>e_history := [], e_hist_idx := 0, e_hist_save := []\<rparr>"

subsection \<open>Layout\<close>

definition ed_cols :: "ed_conf \<Rightarrow> editor \<Rightarrow> int" where
  "ed_cols K e = (case k_cols K of None \<Rightarrow> 0 | Some f \<Rightarrow> max (f (e_evs e)) 0)"

definition ed_prompt :: "ed_conf \<Rightarrow> editor \<Rightarrow> string" where
  "ed_prompt K e = (case k_prompt K of None \<Rightarrow> [] | Some f \<Rightarrow> f (e_evs e))"

fun layout_from :: "(rune \<Rightarrow> int) \<Rightarrow> int \<Rightarrow> cell \<Rightarrow> rune list \<Rightarrow> cell list" where
  "layout_from width cols p [] = [p]"
| "layout_from width cols p (r # rs) = p # layout_from width cols (advance_cell width p r cols) rs"

definition prompt_end :: "(rune \<Rightarrow> int) \<Rightarrow> int \<Rightarrow> string \<Rightarrow> cell" where
  "prompt_end width cols prompt =
     foldl (\<lambda>p r. advance_cell width p r cols) (0, 0) (prompt_cells (runes prompt))"

definition layout :: "ed_conf \<Rightarrow> string \<Rightarrow> int \<Rightarrow> editor \<Rightarrow> cell list" where
  "layout K prompt cols e =
     layout_from (k_width K) cols (prompt_end (k_width K) cols prompt) (e_buf e)"

definition cell_at :: "ed_conf \<Rightarrow> editor \<Rightarrow> nat \<Rightarrow> cell" where
  "cell_at K e i = layout K (ed_prompt K e) (ed_cols K e) e ! i"

definition settle :: "ed_conf \<Rightarrow> editor \<Rightarrow> editor" where
  "settle K e =
     (if e_settled e \<or> k_prompt K = None then e
      else
       (let e1 = e\<lparr>e_settled := True\<rparr>; p = cell_at K e1 (e_cursor e1) in
        if snd p = 0 \<and> 0 < fst p then echo [CHR '' '', CHR 0x0D] e1 else e1))"

definition tail_text :: "ed_conf \<Rightarrow> string \<Rightarrow> int \<Rightarrow> editor \<Rightarrow> string" where
  "tail_text K prompt cols e =
     (let at = layout K prompt cols e; s = string_of_runes (e_buf e); end = at ! length (e_buf e) in
      (if snd end = 0 \<and> 0 < fst end then s @ [CHR '' '', CHR 0x0D] else s) @
      move_cursor end (at ! e_cursor e))"

definition redraw :: "ed_conf \<Rightarrow> editor \<Rightarrow> editor" where
  "redraw K e = (if k_redraw K
     then e\<lparr>e_evs := e_evs e @ [Redrawn (string_of_runes (e_buf e)) (length (e_buf e) - e_cursor e)]\<rparr>
     else e)"

definition redisplay :: "ed_conf \<Rightarrow> editor \<Rightarrow> editor" where
  "redisplay K e =
     (if k_prompt K = None then redraw K e
      else echo (tail_text K (ed_prompt K e) (ed_cols K e) e) (e\<lparr>e_settled := True\<rparr>))"

definition refresh_text :: "ed_conf \<Rightarrow> cell \<Rightarrow> string \<Rightarrow> int \<Rightarrow> editor \<Rightarrow> string" where
  "refresh_text K a prompt cols e =
     move_cursor a (0, snd a) @ [CHR 0x0D, CHR 0x1B, CHR ''['', CHR ''J''] @
     prompt_text prompt @ tail_text K prompt cols e"

definition refresh_from :: "ed_conf \<Rightarrow> cell \<Rightarrow> editor \<Rightarrow> editor" where
  "refresh_from K a e =
     (if k_prompt K = None then redraw K e
      else echo (refresh_text K a (ed_prompt K e) (ed_cols K e) e) (e\<lparr>e_settled := True\<rparr>))"

definition refresh :: "ed_conf \<Rightarrow> editor \<Rightarrow> editor" where
  "refresh K e = (if k_prompt K = None then redraw K e else refresh_from K (cell_at K e (e_cursor e)) e)"

definition change :: "ed_conf \<Rightarrow> (editor \<Rightarrow> editor) \<Rightarrow> editor \<Rightarrow> editor" where
  "change K f e =
     refresh_from K (if k_prompt K = None then (0, 0) else cell_at K e (e_cursor e)) (f e)"

definition move_to :: "ed_conf \<Rightarrow> nat \<Rightarrow> editor \<Rightarrow> editor" where
  "move_to K i e =
     (if k_prompt K = None then redraw K (e\<lparr>e_cursor := i\<rparr>)
      else
       (let at = layout K (ed_prompt K e) (ed_cols K e) e;
            s = move_cursor (at ! e_cursor e) (at ! i)
        in (if s \<noteq> [] then echo s e else e)\<lparr>e_cursor := i\<rparr>))"

subsection \<open>Editing\<close>

definition put_in :: "rune list \<Rightarrow> editor \<Rightarrow> editor" where
  "put_in rs e = e\<lparr>e_buf := take (e_cursor e) (e_buf e) @ rs @ drop (e_cursor e) (e_buf e),
     e_cursor := e_cursor e + length rs\<rparr>"

definition insert_runes :: "ed_conf \<Rightarrow> rune list \<Rightarrow> editor \<Rightarrow> editor" where
  "insert_runes K rs e =
     (if e_cursor e < length (e_buf e) then change K (put_in rs) e
      else
       (let e1 = e\<lparr>e_buf := e_buf e @ rs, e_cursor := e_cursor e + length rs\<rparr>;
            s = string_of_runes rs;
            end = cell_at K e1 (e_cursor e1)
        in echo (if k_prompt K \<noteq> None \<and> snd end = 0 \<and> 0 < fst end
                 then s @ [CHR '' '', CHR 0x0D] else s) e1))"

definition cut_to :: "nat \<Rightarrow> editor \<Rightarrow> editor" where
  "cut_to i e = e\<lparr>e_buf := take i (e_buf e) @ drop (e_cursor e) (e_buf e), e_cursor := i\<rparr>"

definition backspace :: "ed_conf \<Rightarrow> editor \<Rightarrow> editor" where
  "backspace K e =
     (if 0 < e_cursor e then
        (if k_prompt K = None \<and> e_cursor e = length (e_buf e) then
           echo [CHR 0x08, CHR '' '', CHR 0x08]
             (e\<lparr>e_buf := take (e_cursor e - 1) (e_buf e), e_cursor := e_cursor e - 1\<rparr>)
         else change K (\<lambda>e. cut_to (e_cursor e - 1) e) e)
      else e)"

text \<open>The loops of Ctrl+W: back over spaces, then over what is not.\<close>

definition word_start :: "rune list \<Rightarrow> nat" where
  "word_start before =
     length (dropWhile (\<lambda>r. r \<noteq> 32) (dropWhile (\<lambda>r. r = 32) (rev before)))"

definition history_up :: "editor \<Rightarrow> editor" where
  "history_up e =
     (let save = (if e_hist_idx e = length (e_history e) then string_of_runes (e_buf e) else e_hist_save e);
          i = e_hist_idx e - 1; buf = runes (e_history e ! i)
      in e\<lparr>e_hist_save := save, e_hist_idx := i, e_buf := buf, e_cursor := length buf\<rparr>)"

definition history_down :: "editor \<Rightarrow> editor" where
  "history_down e =
     (let i = e_hist_idx e + 1;
          buf = runes (if i = length (e_history e) then e_hist_save e else e_history e ! i)
      in e\<lparr>e_hist_idx := i, e_buf := buf, e_cursor := length buf\<rparr>)"

definition handle_csi :: "ed_conf \<Rightarrow> string \<Rightarrow> editor \<Rightarrow> editor" where
  "handle_csi K seq e =
     (if seq = ''A'' then (if 0 < e_hist_idx e then change K history_up e else e)
      else if seq = ''B'' then
        (if e_hist_idx e < length (e_history e) then change K history_down e else e)
      else if seq = ''C'' then
        (if e_cursor e < length (e_buf e) then
           (if k_prompt K = None
            then echo [CHR 0x1B, CHR ''['', CHR ''C''] (e\<lparr>e_cursor := e_cursor e + 1\<rparr>)
            else move_to K (e_cursor e + 1) e)
         else e)
      else if seq = ''D'' then
        (if 0 < e_cursor e then
           (if k_prompt K = None
            then echo [CHR 0x1B, CHR ''['', CHR ''D''] (e\<lparr>e_cursor := e_cursor e - 1\<rparr>)
            else move_to K (e_cursor e - 1) e)
         else e)
      else if seq = ''H'' then move_to K 0 e
      else if seq = ''F'' then move_to K (length (e_buf e)) e
      else if seq = ''3~'' then
        (if e_cursor e < length (e_buf e)
         then change K (\<lambda>e. e\<lparr>e_buf := take (e_cursor e) (e_buf e) @ drop (e_cursor e + 1) (e_buf e)\<rparr>) e
         else e)
      else e)"

text \<open>The longest common prefix, as the loops cut it; every string has the empty prefix.\<close>

fun cut_common :: "string \<Rightarrow> string \<Rightarrow> string" where
  "cut_common (x # common) (y # c) = (if x = y then x # cut_common common c else [])"
| "cut_common common c = []"

text \<open>\<^verbatim>\<open>strings.TrimSpace\<close> leaves nothing: every rune is one that \<^verbatim>\<open>unicode.IsSpace\<close> accepts.\<close>

definition trim_space_nil :: "string \<Rightarrow> bool" where
  "trim_space_nil s = list_all is_space_rune (runes s)"

definition complete_word :: "ed_conf \<Rightarrow> editor \<Rightarrow> editor" where
  "complete_word K e =
     (case k_complete K of
        None \<Rightarrow> e
      | Some f \<Rightarrow>
         (let before = take (e_cursor e) (e_buf e);
              start = length (dropWhile (\<lambda>r. r \<noteq> 32) (rev before));
              word = string_of_runes (drop start before);
              first = trim_space_nil (string_of_runes (take start (e_buf e)))
          in case f word first of
               [] \<Rightarrow> e
             | [c] \<Rightarrow>
                insert_runes K (runes (drop (length word) c @
                  (if has_suffix c ''/'' then [] else '' ''))) e
             | c # cs \<Rightarrow>
                (let common = foldl cut_common c cs in
                 if length word < length common
                 then insert_runes K (runes (drop (length word) common)) e
                 else
                  (let listing = [CHR 0x0D, CHR 0x0A] @ join_with (c # cs) ''  '' @ [CHR 0x0D, CHR 0x0A] in
                   if k_prompt K = None then redraw K (echo listing e)
                   else
                    (let e1 = (move_to K (length (e_buf e)) e)\<lparr>e_cursor := e_cursor e\<rparr>;
                         prompt = ed_prompt K e1
                     in echo (listing @ prompt_text prompt @ tail_text K prompt (ed_cols K e1) e1) e1)))))"

definition to_end_of_line :: "ed_conf \<Rightarrow> editor \<Rightarrow> editor" where
  "to_end_of_line K e = (if k_prompt K = None then e else move_to K (length (e_buf e)) e)"

definition enter :: "ed_conf \<Rightarrow> editor \<Rightarrow> editor" where
  "enter K e =
     (let e1 = echo [CHR 0x0D, CHR 0x0A] (to_end_of_line K e);
          line = string_of_runes (e_buf e1);
          e2 = editor_reset e1
      in case k_submit K of
           None \<Rightarrow> e2
         | Some f \<Rightarrow> f line (e2\<lparr>e_evs := e_evs e2 @ [Submitted line]\<rparr>))"

definition interrupt :: "ed_conf \<Rightarrow> editor \<Rightarrow> editor" where
  "interrupt K e =
     (let e1 = editor_reset (echo [CHR ''^'', CHR ''C'', CHR 0x0D, CHR 0x0A] (to_end_of_line K e))
      in if k_interrupt K then e1\<lparr>e_evs := e_evs e1 @ [Interrupted]\<rparr> else e1)"

definition plain_rune :: "ed_conf \<Rightarrow> rune \<Rightarrow> editor \<Rightarrow> editor" where
  "plain_rune K r e =
     (if r = 27 then e\<lparr>e_esc := 1\<rparr>
      else if r = 13 \<or> r = 10 then enter K e
      else if r = 127 \<or> r = 8 then backspace K e
      else if r = 3 then interrupt K e
      else if r = 4 then
        (if e_buf e = [] \<and> k_eof K then e\<lparr>e_evs := e_evs e @ [AtEOF]\<rparr> else e)
      else if r = 12 then
        (case k_clear K of None \<Rightarrow> e | Some f \<Rightarrow> f (e\<lparr>e_evs := e_evs e @ [ScreenCleared]\<rparr>))
      else if r = 1 then move_to K 0 e
      else if r = 5 then move_to K (length (e_buf e)) e
      else if r = 21 then
        change K (\<lambda>e. e\<lparr>e_buf := drop (e_cursor e) (e_buf e), e_cursor := 0\<rparr>) e
      else if r = 11 then change K (\<lambda>e. e\<lparr>e_buf := take (e_cursor e) (e_buf e)\<rparr>) e
      else if r = 23 then
        change K (\<lambda>e. cut_to (word_start (take (e_cursor e) (e_buf e))) e) e
      else if r = 9 then complete_word K e
      else if 32 \<le> r then insert_runes K [r] e
      else e)"

definition input_rune :: "ed_conf \<Rightarrow> rune \<Rightarrow> editor \<Rightarrow> editor" where
  "input_rune K r e0 =
     (let e = settle K e0 in
      if e_esc e = 1 then
        (if r = 91 \<or> r = 79 then e\<lparr>e_esc := 2, e_csi := []\<rparr>
         else plain_rune K r (e\<lparr>e_esc := 0\<rparr>))
      else if e_esc e = 2 then
        (if 65 \<le> r \<and> r \<le> 90 \<or> r = 126
         then (handle_csi K (e_csi e @ encode_rune r) e)\<lparr>e_esc := 0\<rparr>
         else e\<lparr>e_csi := e_csi e @ encode_rune r\<rparr>)
      else plain_rune K r e)"

definition editor_input :: "ed_conf \<Rightarrow> string \<Rightarrow> editor \<Rightarrow> editor" where
  "editor_input K data e = fold (input_rune K) (runes data) e"

end
