(* ===== verification/Editor_Correct.thy ===== *)
theory Editor_Correct
  imports Line_Editor
begin

text \<open>
  What the line editor promises. The interface to its host is the locale \<open>line_host\<close>: a
  host that takes a submitted line leaves a well-formed editor; it is interpreted on the
  host that adds the line to the history, as the console does.
\<close>

subsection \<open>Well-formed editors\<close>

definition ed_ok :: "editor \<Rightarrow> bool" where
  "ed_ok e = (e_cursor e \<le> length (e_buf e) \<and> e_hist_idx e \<le> length (e_history e) \<and>
     list_all valid_rune (e_buf e) \<and> e_esc e \<le> 2)"

text \<open>What drawing leaves alone: the text, the cursor, the history and the escape state.\<close>

definition same_text :: "editor \<Rightarrow> editor \<Rightarrow> bool" where
  "same_text e e' = (e_buf e' = e_buf e \<and> e_cursor e' = e_cursor e \<and> e_history e' = e_history e \<and>
     e_hist_idx e' = e_hist_idx e \<and> e_hist_save e' = e_hist_save e \<and> e_esc e' = e_esc e \<and>
     e_csi e' = e_csi e)"

named_theorems drawing "what the drawing operations leave alone"

lemma echo_same [drawing]: "same_text e (echo s e)"
  by (simp add: same_text_def echo_def)

lemma redraw_same [drawing]: "same_text e (redraw K e)"
  by (simp add: same_text_def redraw_def)

lemma settle_same [drawing]: "same_text e (settle K e)"
  by (simp add: same_text_def settle_def echo_def Let_def)

lemma refresh_from_same [drawing]: "same_text e (refresh_from K a e)"
  by (simp add: same_text_def refresh_from_def redraw_def echo_def)

lemma change_same [drawing]: "same_text (f e) (change K f e)"
  by (simp add: change_def refresh_from_same)

lemma move_to_same [drawing]: "same_text (e\<lparr>e_cursor := i\<rparr>) (move_to K i e)"
  by (simp add: same_text_def move_to_def redraw_def echo_def Let_def)

lemma same_text_ok: "same_text e e' \<Longrightarrow> ed_ok e' = ed_ok e"
  by (simp add: same_text_def ed_ok_def)

lemma change_ok: "ed_ok (f e) \<Longrightarrow> ed_ok (change K f e)"
  using same_text_ok [OF change_same] by blast

lemma move_to_ok: "\<lbrakk>ed_ok e; i \<le> length (e_buf e)\<rbrakk> \<Longrightarrow> ed_ok (move_to K i e)"
  using same_text_ok [OF move_to_same] by (auto simp: ed_ok_def)

lemma echo_ok [simp]: "ed_ok (echo s e) = ed_ok e"
  by (rule same_text_ok [OF echo_same])

lemma redraw_ok [simp]: "ed_ok (redraw K e) = ed_ok e"
  by (rule same_text_ok [OF redraw_same])

lemma list_all_take_drop: "list_all P xs \<Longrightarrow> list_all P (take i xs) \<and> list_all P (drop j xs)"
  by (metis append_take_drop_id list_all_append)

lemma insert_runes_ok:
  assumes "ed_ok e" "list_all valid_rune rs"
  shows "ed_ok (insert_runes K rs e)"
proof (cases "e_cursor e < length (e_buf e)")
  case True
  have "ed_ok (put_in rs e)"
    using assms list_all_take_drop [of valid_rune "e_buf e"] by (auto simp: put_in_def ed_ok_def)
  with True show ?thesis by (simp add: insert_runes_def change_ok)
next
  case False
  with assms show ?thesis by (simp add: insert_runes_def Let_def ed_ok_def echo_def)
qed

lemma cut_to_ok: "\<lbrakk>ed_ok e; i \<le> e_cursor e\<rbrakk> \<Longrightarrow> ed_ok (cut_to i e)"
  using list_all_take_drop [of valid_rune "e_buf e"] by (auto simp: cut_to_def ed_ok_def)

lemma backspace_ok: "ed_ok e \<Longrightarrow> ed_ok (backspace K e)"
  using list_all_take_drop [of valid_rune "e_buf e"] cut_to_ok [of e "e_cursor e - 1"]
  by (auto simp: backspace_def intro!: change_ok) (auto simp: ed_ok_def)

lemma word_start_le: "word_start xs \<le> length xs"
  unfolding word_start_def by (metis length_dropWhile_le length_rev order.trans)

lemma history_up_ok: "ed_ok e \<Longrightarrow> ed_ok (history_up e)"
  by (auto simp: history_up_def Let_def ed_ok_def runes_valid)

lemma history_down_ok: "\<lbrakk>ed_ok e; e_hist_idx e < length (e_history e)\<rbrakk> \<Longrightarrow> ed_ok (history_down e)"
  by (auto simp: history_down_def Let_def ed_ok_def runes_valid)

lemma delete_ok:
  "ed_ok e \<Longrightarrow> ed_ok (e\<lparr>e_buf := take (e_cursor e) (e_buf e) @ drop (e_cursor e + 1) (e_buf e)\<rparr>)"
  using list_all_take_drop [of valid_rune "e_buf e"] by (auto simp: ed_ok_def)

lemma cursor_ok: "\<lbrakk>ed_ok e; i \<le> length (e_buf e)\<rbrakk> \<Longrightarrow> ed_ok (e\<lparr>e_cursor := i\<rparr>)"
  by (simp add: ed_ok_def)

lemma ed_ok_cursor: "ed_ok e \<Longrightarrow> e_cursor e \<le> length (e_buf e)"
  by (simp add: ed_ok_def)

lemma ed_ok_if: "\<lbrakk>b \<Longrightarrow> ed_ok x; \<not> b \<Longrightarrow> ed_ok y\<rbrakk> \<Longrightarrow> ed_ok (if b then x else y)"
  by simp

lemma handle_csi_ok: "ed_ok e \<Longrightarrow> ed_ok (handle_csi K seq e)"
  using ed_ok_cursor [of e] unfolding handle_csi_def
  by (intro ed_ok_if change_ok history_up_ok history_down_ok delete_ok move_to_ok
        echo_ok [THEN iffD2] cursor_ok) simp_all

lemma complete_word_ok:
  assumes "ed_ok e"
  shows "ed_ok (complete_word K e)"
proof -
  have m: "ed_ok ((move_to K (length (e_buf e)) e)\<lparr>e_cursor := e_cursor e\<rparr>)"
    using assms move_to_same [where e = e and i = "length (e_buf e)" and K = K] by (simp add: ed_ok_def same_text_def)
  with assms show ?thesis
    by (auto simp: complete_word_def Let_def runes_valid insert_runes_ok split: option.split list.split)
qed

lemma editor_reset_ok [simp]: "ed_ok (editor_reset e) = (e_esc e \<le> 2)"
  by (simp add: ed_ok_def editor_reset_def)

lemma to_end_of_line_ok: "ed_ok e \<Longrightarrow> ed_ok (to_end_of_line K e)"
  by (simp add: to_end_of_line_def move_to_ok)

lemma ed_ok_esc: "ed_ok e \<Longrightarrow> e_esc e \<le> 2"
  by (simp add: ed_ok_def)

lemma ed_ok_evs [simp]: "ed_ok (e\<lparr>e_evs := v\<rparr>) = ed_ok e"
  by (simp add: ed_ok_def)

lemma interrupt_ok: "ed_ok e \<Longrightarrow> ed_ok (interrupt K e)"
  using ed_ok_esc [OF to_end_of_line_ok [of e K]]
  by (auto simp: interrupt_def Let_def echo_def)

lemma settle_ok: "ed_ok (settle K e) = ed_ok e"
  by (rule same_text_ok [OF settle_same])

locale line_host =
  fixes K :: ed_conf
  assumes submit_ok: "\<lbrakk>k_submit K = Some f; ed_ok e\<rbrakk> \<Longrightarrow> ed_ok (f line e)"
    and clear_ok: "\<lbrakk>k_clear K = Some g; ed_ok e\<rbrakk> \<Longrightarrow> ed_ok (g e)"
begin

lemma enter_ok: "ed_ok e \<Longrightarrow> ed_ok (enter K e)"
  using ed_ok_esc [OF to_end_of_line_ok [of e K]] submit_ok
  by (auto simp: enter_def Let_def echo_def split: option.split)

lemma plain_rune_ok:
  assumes e: "ed_ok e" and r: "valid_rune r"
  shows "ed_ok (plain_rune K r e)"
proof -
  have kill: "ed_ok (e\<lparr>e_buf := drop (e_cursor e) (e_buf e), e_cursor := 0\<rparr>)"
    "ed_ok (e\<lparr>e_buf := take (e_cursor e) (e_buf e)\<rparr>)" "ed_ok (e\<lparr>e_esc := 1\<rparr>)"
    using e list_all_take_drop [of valid_rune "e_buf e"] by (auto simp: ed_ok_def)
  have "word_start (take (e_cursor e) (e_buf e)) \<le> e_cursor e"
    using word_start_le [of "take (e_cursor e) (e_buf e)"] by simp
  note word = cut_to_ok [OF e this]
  have clear: "ed_ok (case k_clear K of None \<Rightarrow> e | Some g \<Rightarrow> g (e\<lparr>e_evs := e_evs e @ [ScreenCleared]\<rparr>))"
    using e clear_ok by (simp split: option.split)
  show ?thesis
    unfolding plain_rune_def
    by (intro ed_ok_if change_ok move_to_ok enter_ok backspace_ok interrupt_ok complete_word_ok
        insert_runes_ok kill word clear e) (simp_all add: e r)
qed

lemma input_rune_ok:
  assumes "ed_ok e" "valid_rune r"
  shows "ed_ok (input_rune K r e)"
proof -
  have s: "ed_ok (settle K e)" using assms by (simp add: settle_ok)
  then have "ed_ok ((settle K e)\<lparr>e_esc := 0\<rparr>)" "ed_ok ((settle K e)\<lparr>e_esc := 2, e_csi := []\<rparr>)"
    "ed_ok ((settle K e)\<lparr>e_csi := x\<rparr>)" for x by (simp_all add: ed_ok_def)
  moreover have "ed_ok ((handle_csi K x (settle K e))\<lparr>e_esc := 0\<rparr>)" for x
    using handle_csi_ok [OF s] by (simp add: ed_ok_def)
  ultimately show ?thesis
    using s plain_rune_ok assms(2) by (auto simp: input_rune_def Let_def)
qed

lemma editor_input_ok:
  assumes "ed_ok e"
  shows "ed_ok (editor_input K data e)"
proof -
  have "\<lbrakk>ed_ok e; list_all valid_rune rs\<rbrakk> \<Longrightarrow> ed_ok (fold (input_rune K) rs e)" for rs e
    by (induction rs arbitrary: e) (auto simp: input_rune_ok)
  with assms runes_valid show ?thesis by (simp add: editor_input_def)
qed

end

lemma add_history_ok: "ed_ok e \<Longrightarrow> ed_ok (add_history line e)"
  by (auto simp: add_history_def ed_ok_def)

text \<open>The console's host: an 80-column terminal, a prompt, and a history of what was entered.\<close>

definition console_host :: ed_conf where
  "console_host = \<lparr>k_prompt = Some (\<lambda>_. ''$ ''), k_cols = Some (\<lambda>_. 80), k_complete = None,
     k_submit = Some add_history, k_interrupt = True, k_eof = True, k_clear = Some (\<lambda>e. e),
     k_redraw = False, k_width = (\<lambda>_. 1)\<rparr>"

interpretation console: line_host console_host
  by unfold_locales (auto simp: console_host_def add_history_ok)



subsection \<open>The keys edit a text with a cursor\<close>

datatype edit_key =
  KIns rune | KBack | KLeft | KRight | KHome | KEnd | KDel | KKillStart | KKillEnd | KKillWord

type_synonym text_cursor = "rune list \<times> rune list"

definition drop_word :: "rune list \<Rightarrow> rune list" where
  "drop_word l = rev (dropWhile (\<lambda>r. r \<noteq> 32) (dropWhile (\<lambda>r. r = 32) (rev l)))"

fun key_step :: "edit_key \<Rightarrow> text_cursor \<Rightarrow> text_cursor" where
  "key_step (KIns r) (l, x) = (l @ [r], x)"
| "key_step KBack (l, x) = (butlast l, x)"
| "key_step KLeft (l, x) = (if l = [] then (l, x) else (butlast l, last l # x))"
| "key_step KRight (l, x) = (if x = [] then (l, x) else (l @ [hd x], tl x))"
| "key_step KHome (l, x) = ([], l @ x)"
| "key_step KEnd (l, x) = (l @ x, [])"
| "key_step KDel (l, x) = (l, tl x)"
| "key_step KKillStart (l, x) = ([], x)"
| "key_step KKillEnd (l, x) = (l, [])"
| "key_step KKillWord (l, x) = (drop_word l, x)"

fun key_runes :: "edit_key \<Rightarrow> rune list" where
  "key_runes (KIns r) = [r]"
| "key_runes KBack = [127]"
| "key_runes KLeft = [27, 91, 68]"
| "key_runes KRight = [27, 91, 67]"
| "key_runes KHome = [1]"
| "key_runes KEnd = [5]"
| "key_runes KDel = [27, 91, 51, 126]"
| "key_runes KKillStart = [21]"
| "key_runes KKillEnd = [11]"
| "key_runes KKillWord = [23]"

definition key_ok :: "edit_key \<Rightarrow> bool" where
  "key_ok k = (case k of KIns r \<Rightarrow> valid_rune r \<and> 32 \<le> r \<and> r \<noteq> 127 | _ \<Rightarrow> True)"

definition text_of :: "editor \<Rightarrow> text_cursor" where
  "text_of e = (take (e_cursor e) (e_buf e), drop (e_cursor e) (e_buf e))"

lemma same_text_of: "same_text e e' \<Longrightarrow> text_of e' = text_of e \<and> e_esc e' = e_esc e \<and> e_csi e' = e_csi e"
  by (simp add: same_text_def text_of_def)

lemma change_text: "text_of (change K f e) = text_of (f e) \<and> e_esc (change K f e) = e_esc (f e)"
  by (simp add: same_text_of [OF change_same])

lemma move_to_text:
  "text_of (move_to K i e) = (take i (e_buf e), drop i (e_buf e)) \<and> e_esc (move_to K i e) = e_esc e"
  using same_text_of [OF move_to_same [where e = e and i = i and K = K]] by (simp add: text_of_def)

lemma settle_text: "text_of (settle K e) = text_of e \<and> e_esc (settle K e) = e_esc e \<and>
    e_csi (settle K e) = e_csi e"
  by (simp add: same_text_of [OF settle_same])

lemma echo_text: "text_of (echo s e) = text_of e \<and> e_esc (echo s e) = e_esc e"
  by (simp add: same_text_of [OF echo_same])

lemma insert_text:
  assumes "e_cursor e \<le> length (e_buf e)"
  shows "text_of (insert_runes K [r] e) = key_step (KIns r) (text_of e) \<and> e_esc (insert_runes K [r] e) = e_esc e"
  using assms
  by (simp add: change_text insert_runes_def Let_def echo_text put_in_def) (auto simp: text_of_def)

lemma backspace_text:
  assumes "e_cursor e \<le> length (e_buf e)"
  shows "text_of (backspace K e) = key_step KBack (text_of e) \<and> e_esc (backspace K e) = e_esc e"
  using assms
  by (simp add: change_text backspace_def echo_text cut_to_def) (auto simp: text_of_def butlast_take butlast_conv_take)

lemma left_text:
  assumes "e_cursor e \<le> length (e_buf e)"
  shows "text_of (handle_csi K ''D'' e) = key_step KLeft (text_of e)"
proof (cases "e_cursor e")
  case (Suc n)
  then have n: "n < length (e_buf e)" using assms by simp
  then have "take (Suc n) (e_buf e) = take n (e_buf e) @ [e_buf e ! n]"
    "drop n (e_buf e) = e_buf e ! n # drop (Suc n) (e_buf e)"
    by (simp_all add: take_Suc_conv_app_nth Cons_nth_drop_Suc)
  with Suc show ?thesis
    by (simp add: move_to_text handle_csi_def echo_text) (simp add: text_of_def)
qed (simp add: handle_csi_def text_of_def)

lemma right_text:
  assumes "e_cursor e \<le> length (e_buf e)"
  shows "text_of (handle_csi K ''C'' e) = key_step KRight (text_of e)"
proof (cases "e_cursor e < length (e_buf e)")
  case True
  then have "take (Suc (e_cursor e)) (e_buf e) = take (e_cursor e) (e_buf e) @ [e_buf e ! e_cursor e]"
    "drop (e_cursor e) (e_buf e) = e_buf e ! e_cursor e # drop (Suc (e_cursor e)) (e_buf e)"
    by (simp_all add: take_Suc_conv_app_nth Cons_nth_drop_Suc)
  with True show ?thesis
    by (simp add: move_to_text handle_csi_def echo_text) (auto simp: text_of_def)
qed (use assms in \<open>simp add: handle_csi_def text_of_def\<close>)

lemma delete_text:
  assumes "e_cursor e \<le> length (e_buf e)"
  shows "text_of (handle_csi K ''3~'' e) = key_step KDel (text_of e)"
  using assms
  by (simp add: change_text handle_csi_def) (auto simp: text_of_def tl_drop drop_Suc)

lemma key_codes:
  "encode_rune 68 = ''D''" "encode_rune 67 = ''C''" "encode_rune 51 = ''3''" "encode_rune 126 = ''~''"
  by code_simp+

lemma text_of_esc [simp]: "text_of (e\<lparr>e_esc := n\<rparr>) = text_of e" "text_of (e\<lparr>e_csi := c\<rparr>) = text_of e"
  by (simp_all add: text_of_def)

lemma settle_fields: "e_buf (settle K e) = e_buf e" "e_cursor (settle K e) = e_cursor e"
  using settle_same [of e K] by (simp_all add: same_text_def)

text \<open>An escape sequence of one final rune, and one with a parameter before the tilde.\<close>

lemma csi_key:
  assumes "e_esc e = 0" "65 \<le> r" "r \<le> 90"
  obtains e' where "fold (input_rune K) [27, 91, r] e = (handle_csi K (encode_rune r) e')\<lparr>e_esc := 0\<rparr>"
    "e_buf e' = e_buf e" "e_cursor e' = e_cursor e"
proof -
  let ?e1 = "(settle K e)\<lparr>e_esc := 1\<rparr>"
  let ?e2 = "(settle K ?e1)\<lparr>e_esc := 2, e_csi := []\<rparr>"
  have "input_rune K 27 e = ?e1"
    using assms by (simp add: input_rune_def Let_def settle_text plain_rune_def)
  moreover have "input_rune K 91 ?e1 = ?e2"
    by (simp add: input_rune_def Let_def settle_text)
  moreover have "input_rune K r ?e2 = (handle_csi K (encode_rune r) (settle K ?e2))\<lparr>e_esc := 0\<rparr>"
    using assms by (simp add: input_rune_def Let_def settle_text)
  ultimately have "fold (input_rune K) [27, 91, r] e = (handle_csi K (encode_rune r) (settle K ?e2))\<lparr>e_esc := 0\<rparr>"
    by simp
  moreover have "e_buf (settle K ?e2) = e_buf e" "e_cursor (settle K ?e2) = e_cursor e"
    by (simp_all add: settle_fields)
  ultimately show thesis using that by blast
qed

lemma tilde_key:
  assumes "e_esc e = 0"
  obtains e' where "fold (input_rune K) [27, 91, 51, 126] e = (handle_csi K ''3~'' e')\<lparr>e_esc := 0\<rparr>"
    "e_buf e' = e_buf e" "e_cursor e' = e_cursor e"
proof -
  let ?e1 = "(settle K e)\<lparr>e_esc := 1\<rparr>"
  let ?e2 = "(settle K ?e1)\<lparr>e_esc := 2, e_csi := []\<rparr>"
  let ?e3 = "(settle K ?e2)\<lparr>e_csi := ''3''\<rparr>"
  have "input_rune K 27 e = ?e1"
    using assms by (simp add: input_rune_def Let_def settle_text plain_rune_def)
  moreover have "input_rune K 91 ?e1 = ?e2"
    by (simp add: input_rune_def Let_def settle_text)
  moreover have "input_rune K 51 ?e2 = ?e3"
    by (simp add: input_rune_def Let_def settle_text key_codes)
  moreover have "input_rune K 126 ?e3 = (handle_csi K ''3~'' (settle K ?e3))\<lparr>e_esc := 0\<rparr>"
    by (simp add: input_rune_def Let_def settle_text key_codes)
  ultimately have "fold (input_rune K) [27, 91, 51, 126] e = (handle_csi K ''3~'' (settle K ?e3))\<lparr>e_esc := 0\<rparr>"
    by simp
  moreover have "e_buf (settle K ?e3) = e_buf e" "e_cursor (settle K ?e3) = e_cursor e"
    by (simp_all add: settle_fields)
  ultimately show thesis using that by blast
qed

lemma word_start_take: "take (word_start l) l = drop_word l"
proof -
  let ?w = "dropWhile (\<lambda>r. r \<noteq> 32) (dropWhile (\<lambda>r. r = 32) (rev l))"
  have "\<exists>p. rev l = p @ ?w"
    by (metis append.assoc takeWhile_dropWhile_id)
  then obtain p where "rev l = p @ ?w" by blast
  then have "l = rev ?w @ rev p" by (metis rev_append rev_rev_ident)
  then have "take (length (rev ?w)) l = rev ?w" by (metis append_eq_conv_conj)
  then show ?thesis by (simp add: word_start_def drop_word_def)
qed

lemma word_start_length: "length (drop_word l) = word_start l"
  by (simp add: word_start_def drop_word_def)

lemma plain_text:
  assumes "e_cursor e \<le> length (e_buf e)"
  shows "text_of (plain_rune K 1 e) = key_step KHome (text_of e)"
    "text_of (plain_rune K 5 e) = key_step KEnd (text_of e)"
    "text_of (plain_rune K 21 e) = key_step KKillStart (text_of e)"
    "text_of (plain_rune K 11 e) = key_step KKillEnd (text_of e)"
    "text_of (plain_rune K 23 e) = key_step KKillWord (text_of e)"
    "e_esc (plain_rune K 1 e) = e_esc e" "e_esc (plain_rune K 5 e) = e_esc e"
    "e_esc (plain_rune K 21 e) = e_esc e" "e_esc (plain_rune K 11 e) = e_esc e"
    "e_esc (plain_rune K 23 e) = e_esc e"
proof -
  let ?l = "take (e_cursor e) (e_buf e)"
  have w: "word_start ?l \<le> e_cursor e"
    using word_start_le [of ?l] assms by simp
  have "text_of (cut_to (word_start ?l) e) = (drop_word ?l, drop (e_cursor e) (e_buf e))"
    using w assms word_start_take [of ?l] word_start_length [of ?l]
    by (simp add: text_of_def cut_to_def min_absorb1)
  then show "text_of (plain_rune K 23 e) = key_step KKillWord (text_of e)"
    by (simp add: plain_rune_def change_text) (simp add: text_of_def)
  show "text_of (plain_rune K 1 e) = key_step KHome (text_of e)"
    "text_of (plain_rune K 5 e) = key_step KEnd (text_of e)"
    by (simp_all add: plain_rune_def move_to_text) (simp_all add: text_of_def)
  show "text_of (plain_rune K 21 e) = key_step KKillStart (text_of e)"
    "text_of (plain_rune K 11 e) = key_step KKillEnd (text_of e)"
    using assms by (simp_all add: plain_rune_def change_text) (simp_all add: text_of_def)
qed (simp_all add: plain_rune_def change_text move_to_text cut_to_def)

lemma key_simulation:
  assumes ok: "ed_ok e" and esc: "e_esc e = 0" and k: "key_ok k"
  shows "text_of (fold (input_rune K) (key_runes k) e) = key_step k (text_of e) \<and>
    e_esc (fold (input_rune K) (key_runes k) e) = 0"
proof -
  have one: "input_rune K r e = plain_rune K r (settle K e)" for r
    using esc by (simp add: input_rune_def Let_def settle_text)
  have b: "e_cursor (settle K e) \<le> length (e_buf (settle K e))" "e_cursor e \<le> length (e_buf e)"
    using ok by (simp_all add: settle_fields ed_ok_def)
  have st: "text_of (settle K e) = text_of e" "e_esc (settle K e) = 0"
    using esc by (simp_all add: settle_text)
  show ?thesis
  proof (cases k)
    case (KIns r)
    with k have "plain_rune K r (settle K e) = insert_runes K [r] (settle K e)"
      by (simp add: plain_rune_def key_ok_def)
    with KIns one insert_text [OF b(1)] st show ?thesis by simp
  next
    case KBack
    have "plain_rune K 127 (settle K e) = backspace K (settle K e)" by (simp add: plain_rune_def)
    with KBack one backspace_text [OF b(1)] st show ?thesis by simp
  next
    case KLeft
    obtain e' where "fold (input_rune K) [27, 91, 68] e = (handle_csi K (encode_rune 68) e')\<lparr>e_esc := 0\<rparr>"
      "e_buf e' = e_buf e" "e_cursor e' = e_cursor e"
      by (rule csi_key [OF esc, of 68 K]) (simp, simp, blast)
    with KLeft b left_text [of e' K] show ?thesis by (simp add: key_codes text_of_def)
  next
    case KRight
    obtain e' where "fold (input_rune K) [27, 91, 67] e = (handle_csi K (encode_rune 67) e')\<lparr>e_esc := 0\<rparr>"
      "e_buf e' = e_buf e" "e_cursor e' = e_cursor e"
      by (rule csi_key [OF esc, of 67 K]) (simp, simp, blast)
    with KRight b right_text [of e' K] show ?thesis by (simp add: key_codes text_of_def)
  next
    case KDel
    obtain e' where "fold (input_rune K) [27, 91, 51, 126] e = (handle_csi K ''3~'' e')\<lparr>e_esc := 0\<rparr>"
      "e_buf e' = e_buf e" "e_cursor e' = e_cursor e" by (rule tilde_key [OF esc])
    with KDel b delete_text [of e' K] show ?thesis by (simp add: text_of_def)
  qed (use one plain_text [OF b(1), of K] st in simp_all)
qed

lemma key_runes_valid: "key_ok k \<Longrightarrow> list_all valid_rune (key_runes k)"
  by (cases k) (simp_all add: key_ok_def valid_rune_def)

context line_host
begin

lemma runes_ok: "\<lbrakk>ed_ok e; list_all valid_rune rs\<rbrakk> \<Longrightarrow> ed_ok (fold (input_rune K) rs e)"
  by (induction rs arbitrary: e) (auto simp: input_rune_ok)

lemma keys_simulation:
  "\<lbrakk>ed_ok e; e_esc e = 0; list_all key_ok ks\<rbrakk> \<Longrightarrow>
   text_of (fold (input_rune K) (concat (map key_runes ks)) e) = fold key_step ks (text_of e) \<and>
   e_esc (fold (input_rune K) (concat (map key_runes ks)) e) = 0 \<and>
   ed_ok (fold (input_rune K) (concat (map key_runes ks)) e)"
proof (induction ks arbitrary: e)
  case (Cons k ks)
  then have k: "key_ok k" by simp
  note s = key_simulation [OF Cons.prems(1,2) k, of K]
  have "ed_ok (fold (input_rune K) (key_runes k) e)"
    by (rule runes_ok [OF Cons.prems(1) key_runes_valid [OF k]])
  from Cons.IH [OF this] s Cons.prems show ?case by simp
qed simp

lemma keys_then_enter:
  assumes e: "ed_ok e" "e_esc e = 0" and ks: "list_all key_ok ks" and f: "k_submit K = Some f"
    and lx: "fold key_step ks (text_of e) = (l, x)"
  shows "\<exists>e'. editor_input K (string_of_runes (concat (map key_runes ks) @ [13])) e =
      f (string_of_runes (l @ x)) e' \<and> e_buf e' = [] \<and> e_cursor e' = 0 \<and>
      last (e_evs e') = Submitted (string_of_runes (l @ x))"
proof -
  let ?rs = "concat (map key_runes ks)"
  have "list_all valid_rune (?rs @ [13])"
    using ks key_runes_valid by (auto simp: list_all_iff valid_rune_def)
  then have rs: "runes (string_of_runes (?rs @ [13])) = ?rs @ [13]" by (rule runes_of_string)
  let ?e = "fold (input_rune K) ?rs e"
  note sim = keys_simulation [OF e ks]
  have buf: "e_buf ?e = l @ x"
    using sim lx by (metis append_take_drop_id prod.inject text_of_def)
  let ?s = "settle K ?e"
  have "input_rune K 13 ?e = enter K ?s"
    using sim by (simp add: input_rune_def Let_def settle_text plain_rune_def)
  moreover have "e_buf (to_end_of_line K ?s) = l @ x"
    using buf move_to_same [where e = ?s and K = K and i = "length (e_buf ?s)"]
    by (simp add: to_end_of_line_def settle_fields same_text_def)
  then have "\<exists>e'. enter K ?s = f (string_of_runes (l @ x)) e' \<and> e_buf e' = [] \<and> e_cursor e' = 0 \<and>
      last (e_evs e') = Submitted (string_of_runes (l @ x))"
    using f by (auto simp: enter_def Let_def echo_def editor_reset_def)
  ultimately show ?thesis
    using rs by (simp add: editor_input_def)
qed

end

text \<open>
  C30. The keys are those of a text with a cursor: from any line, whatever keys are typed
  (letters, backspace, delete, the arrows, home and end, the three kills), the text before
  and after the cursor is what the keys make of it; and Enter hands the host that text, once,
  and leaves an empty line.
\<close>

theorem editor_keys:
  assumes "line_host K" "ed_ok e" "e_esc e = 0" "list_all key_ok ks" "k_submit K = Some f"
    "fold key_step ks (text_of e) = (l, x)"
  shows "text_of (editor_input K (string_of_runes (concat (map key_runes ks))) e) = (l, x) \<and>
    (\<exists>e'. editor_input K (string_of_runes (concat (map key_runes ks) @ [13])) e =
      f (string_of_runes (l @ x)) e' \<and> e_buf e' = [] \<and> e_cursor e' = 0 \<and>
      last (e_evs e') = Submitted (string_of_runes (l @ x)))"
proof
  have "runes (string_of_runes (concat (map key_runes ks))) = concat (map key_runes ks)"
    using assms(4) key_runes_valid by (intro runes_of_string) (auto simp: list_all_iff)
  then show "text_of (editor_input K (string_of_runes (concat (map key_runes ks))) e) = (l, x)"
    using line_host.keys_simulation [OF assms(1-4)] assms(6) by (simp add: editor_input_def)
qed (rule line_host.keys_then_enter [OF assms])

theorem editor_keys_witness:
  "text_of (editor_input console_host (string_of_runes (concat (map key_runes
      [KIns 108, KIns 120, KBack, KIns 115, KLeft, KLeft, KDel, KIns 233]))) new_editor) = ([233], [115]) \<and>
    (\<exists>e'. editor_input console_host (string_of_runes (concat (map key_runes
      [KIns 108, KIns 120, KBack, KIns 115, KLeft, KLeft, KDel, KIns 233]) @ [13])) new_editor =
      add_history (string_of_runes ([233] @ [115])) e' \<and> e_buf e' = [] \<and> e_cursor e' = 0 \<and>
      last (e_evs e') = Submitted (string_of_runes ([233] @ [115])))"
  by (rule editor_keys [OF console.line_host_axioms])
    (simp_all add: ed_ok_def new_editor_def key_ok_def valid_rune_def console_host_def text_of_def)

subsection \<open>The cursor is where the editor puts it\<close>

lemma layout_from_nth:
  "i \<le> length rs \<Longrightarrow> layout_from w c p rs ! i = foldl (\<lambda>p r. advance_cell w p r c) p (take i rs)"
  by (induction rs arbitrary: p i) (auto simp: nth_Cons take_Cons split: nat.split)

lemma at_cell_range: "at_cell cols p t \<Longrightarrow> 0 < cols \<Longrightarrow> 0 \<le> snd p \<and> snd p < cols"
  by (auto simp: at_cell_def split: if_splits)

lemma term_row_mono:
  "\<forall>r \<in> set rs. 32 \<le> r \<Longrightarrow> t_seq t = None \<Longrightarrow> t_row t \<le> t_row (term_runes w c rs t)"
proof (induction rs arbitrary: t)
  case (Cons r rs)
  have "t_row t \<le> t_row (term_rune w c t r)" "t_seq (term_rune w c t r) = None"
    using Cons.prems by (auto simp: term_rune_def put_rune_def Let_def)
  with Cons.IH [of "term_rune w c t r"] Cons.prems show ?case
    by (simp add: term_runes_def)
qed (simp add: term_runes_def)

lemma itoa_ascii: "list_all (\<lambda>c. byte_of c < 128) (itoa i)"
proof -
  have "byte_of c < 128" if "c \<in> set (itoa_nat n)" for c n
    using itoa_nat_digits [of n] that by (auto simp: list_all_iff is_digit_def)
  then show ?thesis by (auto simp: itoa_def list_all_iff)
qed

lemma esc_seq_ascii: "byte_of ch < 128 \<Longrightarrow> list_all (\<lambda>c. byte_of c < 128) (esc_seq n ch)"
  using itoa_ascii [of n] by (simp add: esc_seq_def)

lemma move_cursor_ascii: "list_all (\<lambda>c. byte_of c < 128) (move_cursor a b)"
  by (simp add: move_cursor_def Let_def esc_seq_ascii)

lemma runes_append_ascii:
  "list_all (\<lambda>c. byte_of c < 128) a \<Longrightarrow> runes (a @ s) = map byte_of a @ runes s"
  by (induction a) (simp_all add: runes.simps [of "_ # _"] decode_ascii)

definition fits :: "(rune \<Rightarrow> int) \<Rightarrow> int \<Rightarrow> rune list \<Rightarrow> bool" where
  "fits width cols rs = (\<forall>r \<in> set rs. 0 \<le> width r \<and> width r \<le> cols \<and> 32 \<le> r)"

lemma tail_cursor:
  assumes cols: "1 < cols" "k_width K 32 = 1" and buf: "fits (k_width K) cols (e_buf e)" "ed_ok e"
    and t: "at_cell cols (prompt_end (k_width K) cols prompt) t" "0 \<le> t_row t"
  shows "strictly_at cols (layout K prompt cols e ! e_cursor e)
    (term_runes (k_width K) cols (runes (tail_text K prompt cols e)) t)"
proof -
  let ?w = "k_width K" and ?at = "layout K prompt cols e"
  let ?fin = "?at ! length (e_buf e)" and ?to = "?at ! e_cursor e"
  have nth: "?at ! i = foldl (\<lambda>p r. advance_cell ?w p r cols) (prompt_end ?w cols prompt) (take i (e_buf e))"
    if "i \<le> length (e_buf e)" for i
    using that by (simp add: layout_def layout_from_nth)
  have at: "at_cell cols (?at ! i) (term_runes ?w cols (take i (e_buf e)) t)" if "i \<le> length (e_buf e)" for i
    using buf(1) unfolding nth [OF that]
    by (intro advance_cells_at [OF t(1)]) (auto simp: fits_def dest: in_set_takeD)
  have to: "0 \<le> snd ?to" "snd ?to < cols"
    using at_cell_range [OF at] cols buf(2) by (simp_all add: ed_ok_def)
  let ?t1 = "term_runes ?w cols (e_buf e) t"
  have end1: "at_cell cols ?fin ?t1" using at [of "length (e_buf e)"] by simp
  have row: "0 \<le> t_row ?t1"
    using term_row_mono [of "e_buf e" t ?w cols] buf(1) t by (auto simp: fits_def at_cell_def)
  let ?sp = "if snd ?fin = 0 \<and> 0 < fst ?fin then [32, 13] else []"
  have end2: "strictly_at cols ?fin (term_runes ?w cols ?sp ?t1)"
  proof (cases "snd ?fin = 0 \<and> 0 < fst ?fin")
    case True
    then show ?thesis
      using settle_at [of cols "fst ?fin" ?t1 ?w] end1 cols by (cases ?fin) auto
  next
    case False
    then have "\<not> t_pending ?t1"
      using end1 row by (auto simp: at_cell_def split: if_splits)
    with end1 False show ?thesis by (auto simp: strictly_at_def term_runes_def)
  qed
  have "runes (tail_text K prompt cols e) = e_buf e @ ?sp @ map byte_of (move_cursor ?fin ?to)"
  proof -
    have "list_all valid_rune (e_buf e)" using buf(2) by (simp add: ed_ok_def)
    then show ?thesis
      using move_cursor_ascii [of ?fin ?to]
      by (simp add: tail_text_def Let_def runes_of_string_append runes_append_ascii [where s = "[]", simplified]
          runes_append_ascii [where a = "CHR '' '' # CHR 0x0D # move_cursor ?fin ?to" and s = "[]", simplified]
         )
  qed
  then show ?thesis
    using move_cursor_moves [OF end2 to, of ?w] by (simp add: term_runes_append)
qed

text \<open>
  The prompts the hosts write: text, and sequences that set colours, which may stand between the
  bytes 1 and 2 as readline has them.
\<close>

datatype prompt_piece = Shown "rune list" | Colours bool string

definition sgr :: "string \<Rightarrow> string" where
  "sgr ps = CHR 0x1B # CHR ''['' # ps @ ''m''"

fun piece_text :: "prompt_piece \<Rightarrow> string" where
  "piece_text (Shown rs) = string_of_runes rs"
| "piece_text (Colours b ps) = (if b then [CHR 0x01] else []) @ sgr ps @ (if b then [CHR 0x02] else [])"

fun piece_ok :: "(rune \<Rightarrow> int) \<Rightarrow> int \<Rightarrow> prompt_piece \<Rightarrow> bool" where
  "piece_ok width cols (Shown rs) =
     list_all (\<lambda>r. 32 \<le> r \<and> \<not> (127 \<le> r \<and> r < 160) \<and> valid_rune r \<and> 0 \<le> width r \<and> width r \<le> cols) rs"
| "piece_ok width cols (Colours b ps) = list_all (\<lambda>c. is_digit c \<or> c = CHR '';'') ps"

definition prompt_of :: "prompt_piece list \<Rightarrow> string" where
  "prompt_of ps = concat (map piece_text ps)"

lemma param_byte: "is_digit c \<or> c = CHR '';'' \<Longrightarrow> 48 \<le> byte_of c \<and> byte_of c \<le> 59"
  by (auto simp: is_digit_def byte_of_def)

lemma sgr_bytes: "list_all (\<lambda>c. is_digit c \<or> c = CHR '';'') ps \<Longrightarrow>
    list_all (\<lambda>c. byte_of c < 128) (sgr ps) \<and> CHR 0x01 \<notin> set (sgr ps) \<and> CHR 0x02 \<notin> set (sgr ps)"
proof -
  assume ps: "list_all (\<lambda>c. is_digit c \<or> c = CHR '';'') ps"
  have "byte_of c < 128 \<and> c \<noteq> CHR 0x01 \<and> c \<noteq> CHR 0x02" if "c \<in> set ps" for c
    using param_byte [of c] that ps by (auto simp: list_all_iff byte_of_def)
  then show ?thesis by (auto simp: sgr_def list_all_iff byte_of_def)
qed

lemma term_params:
  "\<lbrakk>list_all (\<lambda>c. is_digit c \<or> c = CHR '';'') ps; t_seq t = Some (Suc n)\<rbrakk> \<Longrightarrow>
   \<exists>m. term_runes w cols (map byte_of ps) t = t\<lparr>t_seq := Some (Suc m)\<rparr>"
proof (induction ps arbitrary: n t)
  case Nil
  then have "term_runes w cols (map byte_of []) t = t\<lparr>t_seq := Some (Suc n)\<rparr>"
    by (cases t) (simp add: term_runes_def)
  then show ?case by blast
next
  case (Cons c ps)
  obtain k where k: "term_rune w cols t (byte_of c) = t\<lparr>t_seq := Some (Suc k)\<rparr>"
    using Cons.prems param_byte [of c] by (cases "byte_of c = 59") (auto simp: term_rune_def is_digit_def)
  have "list_all (\<lambda>c. is_digit c \<or> c = CHR '';'') ps" using Cons.prems(1) by simp
  from Cons.IH [OF this, of "t\<lparr>t_seq := Some (Suc k)\<rparr>" k]
  show ?case by (simp add: term_runes_def k)
qed

text \<open>A sequence that sets colours leaves the cursor where it is.\<close>

lemma term_sgr:
  assumes "list_all (\<lambda>c. is_digit c \<or> c = CHR '';'') ps" "t_seq t = None"
  shows "term_runes w cols (map byte_of (sgr ps)) t = t"
proof -
  have b: "byte_of (CHR 0x1B) = 27" "byte_of (CHR ''['') = 91" "byte_of (CHR ''m'') = 109"
    by (simp_all add: byte_of_def)
  obtain m where m: "term_runes w cols (map byte_of ps) (t\<lparr>t_seq := Some 1\<rparr>) = t\<lparr>t_seq := Some (Suc m)\<rparr>"
    using term_params [OF assms(1), of "t\<lparr>t_seq := Some 1\<rparr>" 0] by auto
  have "term_runes w cols (map byte_of (sgr ps)) t =
      term_runes w cols [109] (term_runes w cols (map byte_of ps) (term_runes w cols [27, 91] t))"
    by (simp only: term_runes_append [symmetric]) (simp add: sgr_def b)
  also have "term_runes w cols [27, 91] t = t\<lparr>t_seq := Some 1\<rparr>"
    using assms(2) by (simp add: term_runes_def term_rune_def)
  finally show ?thesis using m assms(2) by (cases t) (simp add: term_runes_def term_rune_def csi_final_def)
qed

lemma prompt_cells_shown: "list_all (\<lambda>r. 32 \<le> r \<and> r \<noteq> 127) rs \<Longrightarrow> prompt_cells (rs @ xs) = rs @ prompt_cells xs"
  by (induction rs) auto

lemma prompt_cells_sgr:
  assumes "list_all (\<lambda>c. is_digit c \<or> c = CHR '';'') ps"
  shows "prompt_cells (map byte_of (sgr ps) @ xs) = prompt_cells xs"
proof -
  have b: "byte_of (CHR 0x1B) = 27" "byte_of (CHR ''['') = 91" "byte_of (CHR ''m'') = 109"
    by (simp_all add: byte_of_def)
  have "\<forall>x \<in> set (map byte_of ps). \<not> (64 \<le> x \<and> x \<le> 126)"
    using assms param_byte by (fastforce simp: list_all_iff)
  then have "dropWhile (\<lambda>x. \<not> (64 \<le> x \<and> x \<le> 126)) (map byte_of ps @ 109 # xs) = 109 # xs"
    by (subst dropWhile_append2) auto
  then show ?thesis by (simp add: sgr_def b skip_escape_def)
qed

text \<open>Between the bytes 1 and 2 nothing takes cells; the terminal is not given the two.\<close>

lemma prompt_cells_hidden:
  assumes "list_all (\<lambda>c. is_digit c \<or> c = CHR '';'') ps"
  shows "prompt_cells (1 # map byte_of (sgr ps) @ 2 # xs) = prompt_cells xs"
proof -
  have "\<forall>c \<in> set (sgr ps). byte_of c \<noteq> 2"
  proof
    fix c assume c: "c \<in> set (sgr ps)"
    have "chr_of 2 = CHR 0x02" by code_simp
    then show "byte_of c \<noteq> 2" using sgr_bytes [OF assms] c by (metis chr_of_byte_of)
  qed
  then have "dropWhile (\<lambda>x. x \<noteq> 2) (map byte_of (sgr ps) @ 2 # xs) = 2 # xs"
    by (subst dropWhile_append2) auto
  then show ?thesis by simp
qed

lemma shown_bytes:
  assumes "list_all (\<lambda>r. 32 \<le> r \<and> \<not> (127 \<le> r \<and> r < 160) \<and> valid_rune r \<and> 0 \<le> width r \<and> width r \<le> cols) rs"
  shows "prompt_text (string_of_runes rs @ s) = string_of_runes rs @ prompt_text s"
proof -
  have "32 \<le> byte_of c" if "c \<in> set (encode_rune r)" "32 \<le> r" for c r
    using that encode_rune_high [of r c] by (cases "r < 128") (auto simp: encode_rune_ascii)
  then have "\<forall>c \<in> set (string_of_runes rs). 32 \<le> byte_of c"
    using assms by (fastforce simp: string_of_runes_def list_all_iff)
  then show ?thesis by (auto simp: prompt_text_def filter_id_conv byte_of_def)
qed

text \<open>A prompt's cells are where the terminal's cursor is after it.\<close>

lemma pieces_at:
  assumes "list_all (piece_ok width cols) ps" "at_cell cols p t"
  shows "\<exists>rs. (\<forall>s. runes (prompt_text (prompt_of ps) @ s) = rs @ runes s) \<and>
    (let t' = term_runes width cols rs t in
      at_cell cols (foldl (\<lambda>p r. advance_cell width p r cols) p (prompt_cells (runes (prompt_of ps)))) t' \<and>
      t_row t \<le> t_row t')"
  using assms
proof (induction ps arbitrary: p t)
  case Nil
  then show ?case
    by (auto simp: prompt_of_def prompt_text_def term_runes_def intro!: exI [of _ "[]"])
next
  case (Cons x ps)
  have ok: "list_all (piece_ok width cols) ps" using Cons.prems(1) by simp
  have seq: "t_seq t = None" using Cons.prems(2) by (simp add: at_cell_def)
  show ?case
  proof (cases x)
    case (Shown us)
    then have us: "list_all (\<lambda>r. 32 \<le> r \<and> \<not> (127 \<le> r \<and> r < 160) \<and> valid_rune r \<and> 0 \<le> width r \<and> width r \<le> cols) us"
      using Cons.prems(1) by simp
    then have v: "list_all valid_rune us" "list_all (\<lambda>r. 32 \<le> r \<and> r \<noteq> 127) us"
      "\<forall>r \<in> set us. 0 \<le> width r \<and> width r \<le> cols \<and> 32 \<le> r" by (auto simp: list_all_iff)
    have at: "at_cell cols (foldl (\<lambda>p r. advance_cell width p r cols) p us) (term_runes width cols us t)"
      by (rule advance_cells_at [OF Cons.prems(2) v(3)])
    have row: "t_row t \<le> t_row (term_runes width cols us t)"
      by (rule term_row_mono [OF _ seq]) (use v(3) in blast)
    from Cons.IH [OF ok at] obtain rs where rs: "\<And>s. runes (prompt_text (prompt_of ps) @ s) = rs @ runes s"
      "let t' = term_runes width cols rs (term_runes width cols us t) in
        at_cell cols (foldl (\<lambda>p r. advance_cell width p r cols)
          (foldl (\<lambda>p r. advance_cell width p r cols) p us) (prompt_cells (runes (prompt_of ps)))) t' \<and>
        t_row (term_runes width cols us t) \<le> t_row t'" by blast
    have "prompt_of (x # ps) = string_of_runes us @ prompt_of ps" by (simp add: prompt_of_def Shown)
    then show ?thesis using rs row
      by (intro exI [of _ "us @ rs"])
        (simp add: shown_bytes [OF us] runes_of_string_append v prompt_cells_shown term_runes_append Let_def)
  next
    case (Colours b qs)
    then have qs: "list_all (\<lambda>c. is_digit c \<or> c = CHR '';'') qs" using Cons.prems(1) by simp
    from Cons.IH [OF ok Cons.prems(2)] obtain rs where rs:
      "\<And>s. runes (prompt_text (prompt_of ps) @ s) = rs @ runes s"
      "let t' = term_runes width cols rs t in
        at_cell cols (foldl (\<lambda>p r. advance_cell width p r cols) p (prompt_cells (runes (prompt_of ps)))) t' \<and>
        t_row t \<le> t_row t'" by blast
    have pt: "prompt_text (prompt_of (x # ps)) = sgr qs @ prompt_text (prompt_of ps)"
      using sgr_bytes [OF qs] by (auto simp: prompt_of_def Colours prompt_text_def filter_id_conv)
    have cs: "prompt_cells (runes (prompt_of (x # ps))) = prompt_cells (runes (prompt_of ps))"
    proof (cases b)
      case True
      have "runes (prompt_of (x # ps)) = 1 # map byte_of (sgr qs) @ 2 # runes (prompt_of ps)"
        using runes_append_ascii [of "CHR 0x01 # sgr qs @ [CHR 0x02]" "prompt_of ps"] sgr_bytes [OF qs] True
        by (simp add: prompt_of_def Colours byte_of_def)
      then show ?thesis by (simp only: prompt_cells_hidden [OF qs])
    next
      case False
      have "runes (prompt_of (x # ps)) = map byte_of (sgr qs) @ runes (prompt_of ps)"
        using runes_append_ascii [of "sgr qs" "prompt_of ps"] sgr_bytes [OF qs] False
        by (simp add: prompt_of_def Colours)
      then show ?thesis by (simp only: prompt_cells_sgr [OF qs])
    qed
    have "runes (prompt_text (prompt_of (x # ps)) @ s) = (map byte_of (sgr qs) @ rs) @ runes s" for s
      using runes_append_ascii [of "sgr qs"] sgr_bytes [OF qs] by (simp add: pt rs(1))
    then show ?thesis using rs(2)
      by (intro exI [of _ "map byte_of (sgr qs) @ rs"]) (simp only: cs term_runes_append term_sgr [OF qs seq], blast)
  qed
qed


text \<open>The default prompt of the hosts, in four columns; a letter, a line of six and the cursor after its first.\<close>

definition default_prompt :: "prompt_piece list" where
  "default_prompt = [Colours False ''1;32'', Shown [119], Colours False ''0'', Shown [58],
     Colours True ''1;34'', Shown [126], Colours True ''0'', Shown [36, 32]]"


subsection \<open>History\<close>

definition browsing :: "nat \<Rightarrow> string \<Rightarrow> string list \<Rightarrow> editor \<Rightarrow> bool" where
  "browsing n save h e = (e_history e = h \<and> e_hist_idx e + n = length h \<and> e_hist_save e = save)"

lemma browsing_up:
  assumes "browsing n save h e" "0 < n" "n < length h"
  shows "browsing (Suc n) save h (handle_csi K ''A'' e)"
  using assms change_same [of history_up e K]
  by (auto simp: browsing_def handle_csi_def same_text_def history_up_def Let_def)

lemma browsing_first:
  assumes "e_hist_idx e = length (e_history e)" "e_history e \<noteq> []"
  shows "browsing 1 (string_of_runes (e_buf e)) (e_history e) (handle_csi K ''A'' e)"
proof -
  obtain k where k: "length (e_history e) = Suc k" using assms(2) by (cases "e_history e") auto
  with assms change_same [of history_up e K] show ?thesis
    by (simp add: browsing_def handle_csi_def same_text_def history_up_def Let_def)
qed

lemma browsing_down:
  assumes "browsing (Suc n) save h e"
  shows "browsing n save h (handle_csi K ''B'' e) \<and>
    (n = 0 \<longrightarrow> text_of (handle_csi K ''B'' e) = (runes save, []))"
  using assms change_same [of history_down e K] change_text [of K history_down e]
  by (auto simp: browsing_def handle_csi_def same_text_def history_down_def Let_def text_of_def)

text \<open>
  A line being written is not lost by looking through the history: the up key any number
  of times, not past the oldest line, and the down key as often give it back, with the
  cursor at its end.
\<close>

lemma editor_history_returns:
  assumes "e_hist_idx e = length (e_history e)" "list_all valid_rune (e_buf e)"
    "0 < n" "n \<le> length (e_history e)"
  shows "text_of ((handle_csi K ''B'' ^^ n) ((handle_csi K ''A'' ^^ n) e)) = (e_buf e, [])"
proof -
  let ?s = "string_of_runes (e_buf e)" and ?h = "e_history e"
  have up: "m < length ?h \<Longrightarrow> browsing (Suc m) ?s ?h ((handle_csi K ''A'' ^^ Suc m) e)" for m
  proof (induction m)
    case 0
    then have "?h \<noteq> []" by auto
    from browsing_first [OF assms(1) this] show ?case by simp
  next
    case (Suc m)
    from browsing_up [OF Suc.IH] Suc.prems show ?case by simp
  qed
  have down: "browsing (Suc m) ?s ?h e' \<Longrightarrow> text_of ((handle_csi K ''B'' ^^ Suc m) e') = (runes ?s, [])" for m e'
  proof (induction m arbitrary: e')
    case 0
    from browsing_down [OF this] show ?case by simp
  next
    case (Suc m)
    from browsing_down [OF Suc.prems] have "browsing (Suc m) ?s ?h (handle_csi K ''B'' e')" by simp
    from Suc.IH [OF this] show ?case by (simp add: funpow_swap1)
  qed
  obtain m where "n = Suc m" using assms(3) by (cases n) auto
  with down [OF up] assms(2,4) runes_of_string show ?thesis by (metis Suc_le_lessD)
qed

lemma editor_history_returns_witness:
  "text_of ((handle_csi console_host ''B'' ^^ 2) ((handle_csi console_host ''A'' ^^ 2)
    (new_editor\<lparr>e_history := [''a'', ''b''], e_hist_idx := 2, e_buf := [233, 108], e_cursor := 1\<rparr>))) =
   ([233, 108], [])"
  using editor_history_returns [of "new_editor\<lparr>e_history := [''a'', ''b''], e_hist_idx := 2,
    e_buf := [233, 108], e_cursor := 1\<rparr>" 2 console_host]
  by (simp add: new_editor_def valid_rune_def)

end
