(* ===== verification/Text_Edit.thy ===== *)
theory Text_Edit
  imports Utf8
begin

text \<open>
  The full-screen applets: \<^verbatim>\<open>edit\<close>, \<^verbatim>\<open>src/shell/edit.go\<close>, and \<^verbatim>\<open>less\<close>,
  \<^verbatim>\<open>src/shell/pager.go\<close>. Both are loops over the bytes of a raw terminal; the bytes left are
  an argument, the end of the input is the reader's error, and \<open>done\<close> says for the bytes
  left whether the context has been cancelled. Writing a file is the argument \<open>wr\<close>, which
  returns the error's text; what was written and what was drawn is kept in order in the state.
  The lemmas: the cursor stays in the text and in the window, the operations are those of a
  text with a cursor, and a file that is opened and saved is what it was.
\<close>

subsection \<open>The editor's state\<close>

record edit_state =
  x_lines :: "rune list list"
  x_cx :: int
  x_cy :: int
  x_top :: int
  x_left :: int
  x_dirty :: bool
  x_file :: string
  x_message :: string
  x_saved :: "string list"
  x_drawn :: "string list"

definition edit_open :: "string \<Rightarrow> string \<Rightarrow> edit_state" where
  "edit_open filename content =
     \<lparr>x_lines = map runes (split_byte (trim_suffix content [CHR 0x0A]) (CHR 0x0A)),
      x_cx = 0, x_cy = 0, x_top = 0, x_left = 0, x_dirty = False, x_file = filename,
      x_message = [], x_saved = [], x_drawn = []\<rparr>"

definition x_line :: "edit_state \<Rightarrow> rune list" where
  "x_line e = x_lines e ! nat (x_cy e)"

definition set_line :: "rune list \<Rightarrow> edit_state \<Rightarrow> edit_state" where
  "set_line l e = e\<lparr>x_lines := (x_lines e)[nat (x_cy e) := l]\<rparr>"

definition file_text :: "rune list list \<Rightarrow> string" where
  "file_text ls = concat (map (\<lambda>l. string_of_runes l @ [CHR 0x0A]) ls)"

definition edit_save :: "(string \<Rightarrow> string \<Rightarrow> string option) \<Rightarrow> edit_state \<Rightarrow> edit_state" where
  "edit_save wr e =
     (if x_file e = ''untitled'' then
        e\<lparr>x_message := ''no filename (start over with: edit <name>)''\<rparr>
      else (let b = file_text (x_lines e) in
        case wr (x_file e) b of
          Some err \<Rightarrow> e\<lparr>x_message := ''save error: '' @ err\<rparr>
        | None \<Rightarrow> e\<lparr>x_dirty := False, x_saved := x_saved e @ [b],
            x_message := ''saved '' @ itoa_nat (length (x_lines e)) @ '' lines''\<rparr>))"

text \<open>\<^verbatim>\<open>clamp\<close>, in the order of its tests; \<open>scroll\<close> is what it does for rows and for columns.\<close>

definition scroll :: "int \<Rightarrow> int \<Rightarrow> int \<Rightarrow> int" where
  "scroll y first rows =
     (let first1 = (if y < first then y else first) in if first1 + rows \<le> y then y - rows + 1 else first1)"

definition edit_clamp :: "int \<Rightarrow> int \<Rightarrow> edit_state \<Rightarrow> edit_state" where
  "edit_clamp cols rows e =
     (let n = int (length (x_lines e));
          cy1 = (if x_cy e < 0 then 0 else x_cy e);
          cy = (if n \<le> cy1 then n - 1 else cy1);
          cx1 = (if x_cx e < 0 then 0 else x_cx e);
          len = int (length (x_lines e ! nat cy));
          cx = (if len < cx1 then len else cx1)
      in e\<lparr>x_cy := cy, x_cx := cx, x_top := scroll cy (x_top e) rows,
           x_left := scroll cx (x_left e) cols\<rparr>)"

definition csi :: "string \<Rightarrow> string" where
  "csi s = CHR 0x1B # CHR ''['' # s"

definition draw_row :: "int \<Rightarrow> edit_state \<Rightarrow> nat \<Rightarrow> string" where
  "draw_row cols e i =
     (let y = x_top e + int i in
      (if y < int (length (x_lines e)) then
         (let l = x_lines e ! nat y in
          if x_left e < int (length l)
          then string_of_runes (take (nat cols) (drop (nat (x_left e)) l)) else [])
       else csi ''2m~'' @ csi ''0m'') @ [CHR 0x0D, CHR 0x0A])"

definition edit_draw :: "int \<Rightarrow> int \<Rightarrow> edit_state \<Rightarrow> string" where
  "edit_draw cols rows e =
     (let status = '' '' @ x_file e @ (if x_dirty e then '' [+]'' else []) @ ''  '' @
            itoa (x_cy e + 1) @ '':'' @ itoa (x_cx e + 1) @ ''  ^S save ^Q quit '' @
            (if x_message e \<noteq> [] then [CHR 0xC2, CHR 0xB7, CHR '' ''] @ x_message e else [])
      in csi ''H'' @ csi ''2J'' @ concat (map (draw_row cols e) [0..<nat rows]) @
         csi ''7m'' @ take (nat cols) status @ csi ''0m'' @
         csi (itoa (x_cy e - x_top e + 1) @ '';'' @ itoa (x_cx e - x_left e + 1) @ ''H''))"

definition insert_rune :: "rune \<Rightarrow> edit_state \<Rightarrow> edit_state" where
  "insert_rune r e =
     (let l = x_line e; i = nat (x_cx e)
      in (set_line (take i l @ r # drop i l) e)\<lparr>x_cx := x_cx e + 1, x_dirty := True\<rparr>)"

subsection \<open>The keys\<close>

text \<open>The next line joined to this one.\<close>

definition join_next :: "edit_state \<Rightarrow> edit_state" where
  "join_next e =
     (let i = nat (x_cy e); ls = x_lines e
      in e\<lparr>x_lines := take i ls @ (ls ! i @ ls ! (i + 1)) # drop (i + 2) ls\<rparr>)"

definition has_next_line :: "edit_state \<Rightarrow> bool" where
  "has_next_line e = (x_cy e + 1 < int (length (x_lines e)))"

definition cut_line :: "edit_state \<Rightarrow> edit_state" where
  "cut_line e =
     (if x_cx e < int (length (x_line e)) then set_line (take (nat (x_cx e)) (x_line e)) e
      else if has_next_line e then join_next e else e)\<lparr>x_dirty := True\<rparr>"

definition split_line :: "edit_state \<Rightarrow> edit_state" where
  "split_line e =
     (let i = nat (x_cy e); ls = x_lines e; l = x_line e; k = nat (x_cx e)
      in e\<lparr>x_lines := take i ls @ take k l # drop k l # drop (i + 1) ls,
           x_cy := x_cy e + 1, x_cx := 0, x_dirty := True\<rparr>)"

definition edit_backspace :: "edit_state \<Rightarrow> edit_state" where
  "edit_backspace e =
     (if 0 < x_cx e then
        (let l = x_line e; k = nat (x_cx e)
         in (set_line (take (k - 1) l @ drop k l) e)\<lparr>x_cx := x_cx e - 1, x_dirty := True\<rparr>)
      else if 0 < x_cy e then
        (let i = nat (x_cy e); ls = x_lines e; prev = ls ! (i - 1)
         in e\<lparr>x_lines := take (i - 1) ls @ (prev @ ls ! i) # drop (i + 1) ls,
              x_cx := int (length prev), x_cy := x_cy e - 1, x_dirty := True\<rparr>)
      else e)"

definition edit_delete :: "edit_state \<Rightarrow> edit_state" where
  "edit_delete e =
     (let l = x_line e; k = nat (x_cx e) in
      if x_cx e < int (length l) then (set_line (take k l @ drop (k + 1) l) e)\<lparr>x_dirty := True\<rparr>
      else if has_next_line e then (join_next e)\<lparr>x_dirty := True\<rparr>
      else e)"

text \<open>
  What one byte and those it needs after it do: the state and the bytes left, or that the
  screen is not drawn again (\<^verbatim>\<open>continue\<close>), or the end.
\<close>

datatype edit_step =
    Drawn edit_state string
  | Skipped edit_state string
  | Quit edit_state

definition csi_key :: "int \<Rightarrow> char \<Rightarrow> string \<Rightarrow> edit_state \<Rightarrow> edit_step" where
  "csi_key rows b s e =
     (if b = CHR ''A'' then Drawn (e\<lparr>x_cy := x_cy e - 1\<rparr>) s
      else if b = CHR ''B'' then Drawn (e\<lparr>x_cy := x_cy e + 1\<rparr>) s
      else if b = CHR ''C'' then Drawn (e\<lparr>x_cx := x_cx e + 1\<rparr>) s
      else if b = CHR ''D'' then Drawn (e\<lparr>x_cx := x_cx e - 1\<rparr>) s
      else if b = CHR ''H'' then Drawn (e\<lparr>x_cx := 0\<rparr>) s
      else if b = CHR ''F'' then Drawn (e\<lparr>x_cx := int (length (x_line e))\<rparr>) s
      else if b = CHR ''3'' then Drawn (edit_delete e) (drop 1 s)
      else if b = CHR ''5'' then Drawn (e\<lparr>x_cy := x_cy e - rows\<rparr>) (drop 1 s)
      else if b = CHR ''6'' then Drawn (e\<lparr>x_cy := x_cy e + rows\<rparr>) (drop 1 s)
      else Drawn e s)"

text \<open>\<^verbatim>\<open>readByte\<close> gives 0 at the end of the input.\<close>

definition read_byte :: "string \<Rightarrow> char \<times> string" where
  "read_byte s = (case s of [] \<Rightarrow> (CHR 0x00, []) | c # cs \<Rightarrow> (c, cs))"

definition utf8_more :: "char \<Rightarrow> nat" where
  "utf8_more c =
     (if 240 \<le> byte_of c then 3 else if 224 \<le> byte_of c then 2
      else if 192 \<le> byte_of c then 1 else 0)"

definition edit_byte ::
  "(string \<Rightarrow> string \<Rightarrow> string option) \<Rightarrow> int \<Rightarrow> char \<Rightarrow> string \<Rightarrow> edit_state \<Rightarrow> edit_step" where
  "edit_byte wr rows c s e0 =
     (let e = e0\<lparr>x_message := []\<rparr>; b = byte_of c in
      if b = 17 then Quit (if x_dirty e then edit_save wr e else e)
      else if b = 19 then Drawn (edit_save wr e) s
      else if b = 3 then Quit e
      else if b = 11 then Drawn (cut_line e) s
      else if b = 13 \<or> b = 10 then Drawn (split_line e) s
      else if b = 127 \<or> b = 8 then Drawn (edit_backspace e) s
      else if b = 9 then Drawn (insert_rune 9 e) s
      else if b = 27 then
        (let (b1, s1) = read_byte s in
         if b1 \<noteq> CHR ''['' \<and> b1 \<noteq> CHR ''O'' then Skipped e s1
         else (let (b2, s2) = read_byte s1 in csi_key rows b2 s2 e))
      else if 32 \<le> b then
        Drawn (fold insert_rune (runes (c # take (utf8_more c) s)) e) (drop (utf8_more c) s)
      else Drawn e s)"

lemma edit_byte_shorter:
  "edit_byte wr rows c s e = Drawn e' s' \<or> edit_byte wr rows c s e = Skipped e' s' \<Longrightarrow>
   length s' \<le> length s"
  unfolding edit_byte_def csi_key_def Let_def read_byte_def
  by (auto split: if_splits list.splits prod.splits)

text \<open>\<^verbatim>\<open>runEdit\<close>'s loop: the exit status and the state.\<close>

function edit_loop ::
  "(string \<Rightarrow> string \<Rightarrow> string option) \<Rightarrow> (string \<Rightarrow> bool) \<Rightarrow> int \<Rightarrow> int \<Rightarrow> string \<Rightarrow>
   edit_state \<Rightarrow> nat \<times> edit_state"
where
  "edit_loop wr ctxdone cols rows s e =
     (if ctxdone s then (130, e)
      else (case s of
          [] \<Rightarrow> (0, e)
        | c # cs \<Rightarrow> (case edit_byte wr rows c cs e of
            Quit e' \<Rightarrow> (0, e')
          | Skipped e' s' \<Rightarrow> edit_loop wr ctxdone cols rows s' e'
          | Drawn e' s' \<Rightarrow>
             (let e2 = edit_clamp cols rows e'
              in edit_loop wr ctxdone cols rows s' (e2\<lparr>x_drawn := x_drawn e2 @ [edit_draw cols rows e2]\<rparr>)))))"
  by pat_completeness auto
termination
  by (relation "measure (\<lambda>(wr, ctxdone, cols, rows, s, e). length s)")
    (auto dest: edit_byte_shorter [OF disjI1] edit_byte_shorter [OF disjI2] simp: less_Suc_eq_le)

declare edit_loop.simps [simp del]

definition run_edit ::
  "(string \<Rightarrow> string \<Rightarrow> string option) \<Rightarrow> (string \<Rightarrow> bool) \<Rightarrow> int \<Rightarrow> int \<Rightarrow> string \<Rightarrow> string \<Rightarrow>
   string \<Rightarrow> nat \<times> edit_state"
where
  "run_edit wr ctxdone cols termrows filename content input =
     (let rows = (if termrows - 1 < 1 then 1 else termrows - 1);
          e = edit_clamp cols rows (edit_open filename content)
      in edit_loop wr ctxdone cols rows input (e\<lparr>x_drawn := [edit_draw cols rows e]\<rparr>))"

subsection \<open>The cursor stays in the text and in the window\<close>

definition in_text :: "edit_state \<Rightarrow> bool" where
  "in_text e = (0 \<le> x_cy e \<and> x_cy e < int (length (x_lines e)) \<and>
     0 \<le> x_cx e \<and> x_cx e \<le> int (length (x_line e)))"

definition in_window :: "int \<Rightarrow> int \<Rightarrow> edit_state \<Rightarrow> bool" where
  "in_window cols rows e = (0 \<le> x_top e \<and> x_top e \<le> x_cy e \<and> x_cy e < x_top e + rows \<and>
     0 \<le> x_left e \<and> x_left e \<le> x_cx e \<and> x_cx e < x_left e + cols)"

definition edit_ok :: "int \<Rightarrow> int \<Rightarrow> edit_state \<Rightarrow> bool" where
  "edit_ok cols rows e = (in_text e \<and> in_window cols rows e)"

definition clampable :: "edit_state \<Rightarrow> bool" where
  "clampable e = (x_lines e \<noteq> [] \<and> 0 \<le> x_top e \<and> 0 \<le> x_left e)"

lemma scroll_ok:
  "\<lbrakk>0 \<le> y; 0 \<le> first; 1 \<le> rows\<rbrakk> \<Longrightarrow>
   0 \<le> scroll y first rows \<and> scroll y first rows \<le> y \<and> y < scroll y first rows + rows"
  by (auto simp: scroll_def Let_def)

lemma clamp_ok:
  assumes "clampable e" "1 \<le> cols" "1 \<le> rows"
  shows "edit_ok cols rows (edit_clamp cols rows e)"
proof -
  have "0 < int (length (x_lines e))" using assms(1) by (simp add: clampable_def)
  then have "in_text (edit_clamp cols rows e)"
    by (simp add: edit_clamp_def Let_def in_text_def x_line_def)
  moreover from this have "in_window cols rows (edit_clamp cols rows e)"
    using assms scroll_ok
    by (simp add: edit_clamp_def Let_def in_text_def in_window_def clampable_def)
  ultimately show ?thesis by (simp add: edit_ok_def)
qed

lemma clampable_fields [simp]:
  "clampable (e\<lparr>x_message := m\<rparr>) = clampable e" "clampable (e\<lparr>x_cy := y\<rparr>) = clampable e"
  "clampable (e\<lparr>x_cx := x\<rparr>) = clampable e" "clampable (e\<lparr>x_dirty := d\<rparr>) = clampable e"
  "clampable (e\<lparr>x_saved := v\<rparr>) = clampable e" "clampable (e\<lparr>x_drawn := v\<rparr>) = clampable e"
  "clampable (set_line l e) = clampable e"
  by (simp_all add: clampable_def set_line_def)

lemma insert_rune_clampable [simp]: "clampable (insert_rune r e) = clampable e"
  by (simp add: insert_rune_def Let_def)

lemma insert_runes_clampable [simp]: "clampable (fold insert_rune rs e) = clampable e"
  by (induction rs arbitrary: e) simp_all

lemma edit_save_same:
  "x_lines (edit_save wr e) = x_lines e \<and> x_cx (edit_save wr e) = x_cx e \<and>
   x_cy (edit_save wr e) = x_cy e \<and> x_top (edit_save wr e) = x_top e \<and> x_left (edit_save wr e) = x_left e"
  by (auto simp: edit_save_def Let_def split: option.split)

lemma keys_clampable:
  assumes "clampable e"
  shows "clampable (edit_save wr e)" "clampable (join_next e)" "clampable (cut_line e)"
    "clampable (split_line e)" "clampable (edit_backspace e)" "clampable (edit_delete e)"
  using assms edit_save_same [of wr e]
  by (auto simp: clampable_def join_next_def cut_line_def split_line_def edit_backspace_def
      edit_delete_def set_line_def Let_def)

lemma csi_key_clampable:
  "\<lbrakk>clampable e; csi_key rows b s e = X\<rbrakk> \<Longrightarrow> \<exists>e' s'. X = Drawn e' s' \<and> clampable e'"
  unfolding csi_key_def by (elim ifE) (auto simp: keys_clampable)

text \<open>A key either leaves a state that can be clamped, or one that needs no clamping.\<close>

lemma edit_byte_ok:
  assumes "edit_ok cols rows e"
  shows "case edit_byte wr rows c s e of Drawn e' s' \<Rightarrow> clampable e'
    | Skipped e' s' \<Rightarrow> edit_ok cols rows e' | Quit e' \<Rightarrow> edit_ok cols rows e'"
proof -
  let ?e = "e\<lparr>x_message := []\<rparr>"
  have ok: "edit_ok cols rows ?e"
    using assms by (simp add: edit_ok_def in_text_def in_window_def x_line_def)
  then have cl: "clampable ?e" by (auto simp: edit_ok_def in_text_def in_window_def clampable_def)
  have sv: "edit_ok cols rows (edit_save wr ?e)"
    using ok edit_save_same [of wr ?e] by (simp add: edit_ok_def in_text_def in_window_def x_line_def)
  have csi: "case csi_key rows b s' ?e of Drawn e' s' \<Rightarrow> clampable e'
    | Skipped e' s' \<Rightarrow> edit_ok cols rows e' | Quit e' \<Rightarrow> edit_ok cols rows e'" for b s'
    using csi_key_clampable [OF cl refl, of rows b s'] by auto
  show ?thesis
    unfolding edit_byte_def Let_def
    by (simp add: case_prod_beta keys_clampable [OF cl] cl [simplified] ok sv csi)
qed

lemma edit_loop_ok:
  "\<lbrakk>edit_ok cols rows e; 1 \<le> cols; 1 \<le> rows\<rbrakk> \<Longrightarrow>
   edit_ok cols rows (snd (edit_loop wr ctxdone cols rows s e))"
proof (induction wr ctxdone cols rows s e rule: edit_loop.induct)
  case (1 wr ctxdone cols rows s e)
  show ?case
  proof (cases "ctxdone s \<or> s = []")
    case True
    with "1.prems" show ?thesis by (auto simp: edit_loop.simps [of wr ctxdone cols rows _ e])
  next
    case False
    then obtain c cs where s: "s = c # cs" "\<not> ctxdone s" by (cases s) auto
    note key = edit_byte_ok [OF "1.prems"(1), of wr c cs]
    show ?thesis
    proof (cases "edit_byte wr rows c cs e")
      case (Quit e')
      with s key show ?thesis by (simp add: edit_loop.simps [of wr ctxdone cols rows _ e])
    next
      case (Skipped e' s')
      with s key "1.IH"(2) [OF s(2,1) Skipped] "1.prems" show ?thesis
        by (simp add: edit_loop.simps [of wr ctxdone cols rows _ e])
    next
      case (Drawn e' s')
      let ?e2 = "edit_clamp cols rows e'"
      have "edit_ok cols rows ?e2"
        using key Drawn "1.prems" by (intro clamp_ok) simp_all
      then have "edit_ok cols rows (?e2\<lparr>x_drawn := x_drawn ?e2 @ [edit_draw cols rows ?e2]\<rparr>)"
        by (simp add: edit_ok_def in_text_def in_window_def x_line_def)
      with s Drawn "1.IH"(1) [OF s(2,1) Drawn refl] "1.prems" show ?thesis
        by (simp add: edit_loop.simps [of wr ctxdone cols rows _ e] Let_def)
    qed
  qed
qed

text \<open>
  Whatever file is opened and whatever keys are pressed, the cursor of \<^verbatim>\<open>edit\<close> is in the
  text and on the screen after every key: in a line, at most at its end, within the rows and
  columns shown.
\<close>

lemma edit_cursor_shown:
  assumes "1 \<le> cols"
  shows "edit_ok cols (max 1 (termrows - 1)) (snd (run_edit wr ctxdone cols termrows filename content input))"
proof -
  let ?rows = "if termrows - 1 < 1 then 1 else termrows - 1"
  have r: "?rows = max 1 (termrows - 1)" "1 \<le> ?rows" by auto
  have "clampable (edit_open filename content)" by (simp add: clampable_def edit_open_def)
  from clamp_ok [OF this assms r(2)]
  have "edit_ok cols ?rows ((edit_clamp cols ?rows (edit_open filename content))\<lparr>x_drawn := d\<rparr>)" for d
    by (simp add: edit_ok_def in_text_def in_window_def x_line_def)
  from edit_loop_ok [OF this assms r(2)] show ?thesis
    unfolding run_edit_def Let_def r(1) by blast
qed

theorem edit_cursor_shown_witness:
  "edit_ok 20 4 (snd (run_edit (\<lambda>_ _. None) (\<lambda>_. False) 20 5 ''f'' ''ab''
     (CHR 0x1B # ''[B'' @ CHR 0x0D # ''xyz'' @ [CHR 0x7F]))) "
  using edit_cursor_shown [of 20 5 "\<lambda>_ _. None" "\<lambda>_. False" "''f''" "''ab''"
      "CHR 0x1B # ''[B'' @ CHR 0x0D # ''xyz'' @ [CHR 0x7F]"] by simp

subsection \<open>The keys edit the text\<close>

text \<open>The text before and after the cursor, the lines joined by newlines.\<close>

definition text_pair :: "edit_state \<Rightarrow> rune list \<times> rune list" where
  "text_pair e =
     (join_with (take (nat (x_cy e)) (x_lines e) @ [take (nat (x_cx e)) (x_line e)]) [10],
      join_with (drop (nat (x_cx e)) (x_line e) # drop (Suc (nat (x_cy e))) (x_lines e)) [10])"

datatype text_op = TInsert rune | TSplit | TBack | TDelete | TCut

fun edit_op :: "text_op \<Rightarrow> edit_state \<Rightarrow> edit_state" where
  "edit_op (TInsert r) e = insert_rune r e"
| "edit_op TSplit e = split_line e"
| "edit_op TBack e = edit_backspace e"
| "edit_op TDelete e = edit_delete e"
| "edit_op TCut e = cut_line e"

fun text_step :: "text_op \<Rightarrow> rune list \<times> rune list \<Rightarrow> rune list \<times> rune list" where
  "text_step (TInsert r) (a, b) = (a @ [r], b)"
| "text_step TSplit (a, b) = (a @ [10], b)"
| "text_step TBack (a, b) = (butlast a, b)"
| "text_step TDelete (a, b) = (a, tl b)"
| "text_step TCut (a, b) = (a, if b \<noteq> [] \<and> hd b = 10 then tl b else dropWhile (\<lambda>r. r \<noteq> 10) b)"

lemma join_snoc_append: "join_with (xs @ [a @ b]) c = join_with (xs @ [a]) c @ b"
  by (induction xs c rule: join_with.induct) auto

lemma join_snoc2: "join_with (xs @ [a, b]) c = join_with (xs @ [a]) c @ c @ b"
  by (induction xs c rule: join_with.induct) auto

lemma join_Cons_append: "join_with ((a @ b) # xs) c = a @ join_with (b # xs) c"
  by (cases xs) auto

lemma edit_parts:
  assumes "in_text e"
  obtains pre a b post where "x_lines e = pre @ (a @ b) # post" "x_cy e = int (length pre)"
    "x_cx e = int (length a)"
proof -
  let ?i = "nat (x_cy e)" and ?k = "nat (x_cx e)"
  have "x_lines e = take ?i (x_lines e) @ (take ?k (x_line e) @ drop ?k (x_line e)) # drop (Suc ?i) (x_lines e)"
    using assms by (simp add: in_text_def x_line_def nat_less_iff id_take_nth_drop [symmetric])
  moreover have "x_cy e = int (length (take ?i (x_lines e)))" "x_cx e = int (length (take ?k (x_line e)))"
    using assms by (auto simp: in_text_def)
  ultimately show thesis by (rule that)
qed

lemma text_pair_parts:
  assumes "x_lines e = pre @ (a @ b) # post" "x_cy e = int (length pre)" "x_cx e = int (length a)"
  shows "text_pair e = (join_with (pre @ [a]) [10], join_with (b # post) [10]) \<and> in_text e"
  using assms by (simp add: text_pair_def x_line_def in_text_def)

lemma dropWhile_join:
  assumes "10 \<notin> set b"
  shows "dropWhile (\<lambda>r. r \<noteq> 10) (join_with (b # post) [10]) = join_with ([] # post) [10]"
  using assms by (cases post) (auto simp: dropWhile_append)

lemma backspace_pair:
  assumes e: "x_lines e = pre @ (a @ b) # post" "x_cy e = int (length pre)" "x_cx e = int (length a)"
  shows "text_pair (edit_backspace e) = text_step TBack (text_pair e) \<and> in_text (edit_backspace e)"
proof -
  note p = text_pair_parts [OF e]
  have l: "x_line e = a @ b" using e by (simp add: x_line_def)
  show ?thesis
  proof (cases "a = []")
    case False
    then have "x_lines (edit_backspace e) = pre @ (butlast a @ b) # post"
      "x_cy (edit_backspace e) = int (length pre)" "x_cx (edit_backspace e) = int (length (butlast a))"
      using e l by (auto simp: edit_backspace_def set_line_def Let_def butlast_conv_take of_nat_diff Suc_leI)
    from text_pair_parts [OF this] p join_snoc_append [of pre "butlast a" "[last a]" "[10]"] False
    show ?thesis by simp
  next
    case a: True
    show ?thesis
    proof (cases pre rule: rev_cases)
      case Nil
      then have "edit_backspace e = e" using e a by (simp add: edit_backspace_def)
      with p a Nil show ?thesis by simp
    next
      case (snoc pre' q)
      then have "x_lines (edit_backspace e) = pre' @ (q @ b) # post"
        "x_cy (edit_backspace e) = int (length pre')" "x_cx (edit_backspace e) = int (length q)"
        using e a by (simp_all add: edit_backspace_def Let_def nth_append nat_add_distrib)
      from text_pair_parts [OF this] p a snoc show ?thesis by (simp add: join_snoc2)
    qed
  qed
qed

lemma delete_pair:
  assumes e: "x_lines e = pre @ (a @ b) # post" "x_cy e = int (length pre)" "x_cx e = int (length a)"
  shows "text_pair (edit_delete e) = text_step TDelete (text_pair e) \<and> in_text (edit_delete e)"
proof -
  note p = text_pair_parts [OF e]
  have l: "x_line e = a @ b" using e by (simp add: x_line_def)
  show ?thesis
  proof (cases b)
    case (Cons x b')
    then have "x_lines (edit_delete e) = pre @ (a @ b') # post"
      "x_cy (edit_delete e) = int (length pre)" "x_cx (edit_delete e) = int (length a)"
      using e l by (simp_all add: edit_delete_def set_line_def Let_def)
    from text_pair_parts [OF this] p Cons show ?thesis
      using join_Cons_append [of "[x]" b' post "[10]"] by simp
  next
    case Nil
    show ?thesis
    proof (cases post)
      case Nil
      with \<open>b = []\<close> e l have "edit_delete e = e" by (simp add: edit_delete_def has_next_line_def)
      with p \<open>b = []\<close> Nil show ?thesis by simp
    next
      case (Cons q post')
      with \<open>b = []\<close> e l have "x_lines (edit_delete e) = pre @ (a @ q) # post'"
        "x_cy (edit_delete e) = int (length pre)" "x_cx (edit_delete e) = int (length a)"
        by (simp_all add: edit_delete_def has_next_line_def join_next_def Let_def nth_append)
      from text_pair_parts [OF this] p \<open>b = []\<close> Cons show ?thesis by simp
    qed
  qed
qed

lemma cut_pair:
  assumes e: "x_lines e = pre @ (a @ b) # post" "x_cy e = int (length pre)" "x_cx e = int (length a)"
    and nl: "10 \<notin> set b"
  shows "text_pair (cut_line e) = text_step TCut (text_pair e) \<and> in_text (cut_line e)"
proof -
  note p = text_pair_parts [OF e]
  have l: "x_line e = a @ b" using e by (simp add: x_line_def)
  show ?thesis
  proof (cases b)
    case (Cons x b')
    then have "x_lines (cut_line e) = pre @ (a @ []) # post"
      "x_cy (cut_line e) = int (length pre)" "x_cx (cut_line e) = int (length a)"
      using e l by (simp_all add: cut_line_def set_line_def)
    moreover have "join_with (b # post) [10] \<noteq> []" "hd (join_with (b # post) [10]) \<noteq> 10"
      using Cons nl by (cases post, auto)+
    ultimately show ?thesis
      using text_pair_parts [of "cut_line e" pre a "[]" post] p dropWhile_join [OF nl, of post] by simp
  next
    case Nil
    show ?thesis
    proof (cases post)
      case Nil
      with \<open>b = []\<close> e l have "x_lines (cut_line e) = x_lines e" "x_cy (cut_line e) = x_cy e" "x_cx (cut_line e) = x_cx e"
        by (simp_all add: cut_line_def has_next_line_def)
      then have "text_pair (cut_line e) = text_pair e" "in_text (cut_line e) = in_text e"
        by (simp_all add: text_pair_def in_text_def x_line_def)
      with p \<open>b = []\<close> Nil show ?thesis by simp
    next
      case (Cons q post')
      with \<open>b = []\<close> e l have "x_lines (cut_line e) = pre @ (a @ q) # post'"
        "x_cy (cut_line e) = int (length pre)" "x_cx (cut_line e) = int (length a)"
        by (simp_all add: cut_line_def has_next_line_def join_next_def Let_def nth_append)
      from text_pair_parts [OF this] p \<open>b = []\<close> Cons show ?thesis by simp
    qed
  qed
qed

text \<open>
  C33. Typing, splitting a line, backspace, delete and cutting to the end of the line are, on
  the whole text, what they are on a text with a cursor: a newline is one character, deleted
  and cut like any other.
\<close>

theorem edit_text_refines:
  assumes "in_text e" "op = TCut \<longrightarrow> 10 \<notin> set (x_line e)"
  shows "text_pair (edit_op op e) = text_step op (text_pair e) \<and> in_text (edit_op op e)"
proof -
  obtain pre a b post where e: "x_lines e = pre @ (a @ b) # post" "x_cy e = int (length pre)"
    "x_cx e = int (length a)" by (rule edit_parts [OF assms(1)])
  note p = text_pair_parts [OF e]
  have l: "x_line e = a @ b" using e by (simp add: x_line_def)
  show ?thesis
  proof (cases op)
    case (TInsert r)
    have "x_lines (insert_rune r e) = pre @ ((a @ [r]) @ b) # post"
      "x_cy (insert_rune r e) = int (length pre)" "x_cx (insert_rune r e) = int (length (a @ [r]))"
      using e l by (simp_all add: insert_rune_def set_line_def Let_def)
    from text_pair_parts [OF this] p TInsert show ?thesis by (simp add: join_snoc_append)
  next
    case TSplit
    have "x_lines (split_line e) = (pre @ [a]) @ ([] @ b) # post"
      "x_cy (split_line e) = int (length (pre @ [a]))" "x_cx (split_line e) = int (length ([] :: rune list))"
      using e l by (simp_all add: split_line_def Let_def)
    from text_pair_parts [OF this] p TSplit show ?thesis by (simp add: join_snoc2)
  next
    case TBack
    with backspace_pair [OF e] show ?thesis by simp
  next
    case TDelete
    with delete_pair [OF e] show ?thesis by simp
  next
    case TCut
    then have "10 \<notin> set b" using assms(2) l by simp
    from cut_pair [OF e this] TCut show ?thesis by simp
  qed
qed

theorem edit_text_refines_witness:
  "text_pair (edit_op TBack (edit_open ''f'' [CHR ''a'', CHR 0x0A, CHR ''b'']\<lparr>x_cy := 1\<rparr>)) = ([97], [98]) \<and>
   in_text (edit_op TBack (edit_open ''f'' [CHR ''a'', CHR 0x0A, CHR ''b'']\<lparr>x_cy := 1\<rparr>))"
proof -
  let ?e = "edit_open ''f'' [CHR ''a'', CHR 0x0A, CHR ''b'']\<lparr>x_cy := 1\<rparr>"
  have "x_lines ?e = [[97], [98]]" by code_simp
  then have e: "in_text ?e" "text_pair ?e = ([97, 10], [98])"
    by (simp_all add: in_text_def text_pair_def x_line_def edit_open_def)
  from edit_text_refines [OF e(1), of TBack] e(2) show ?thesis by simp
qed

subsection \<open>Opening and saving\<close>

lemma split_byte_prefix:
  "c \<notin> set a \<Longrightarrow>
   split_byte (a @ s) c = (case split_byte s c of [] \<Rightarrow> [] | q # ps \<Rightarrow> (a @ q) # ps)"
proof (induction a)
  case Nil
  then show ?case by (simp split: list.split)
next
  case (Cons x a)
  then show ?case by (auto split: list.split)
qed

lemma split_string_of_runes:
  "list_all valid_rune rs \<Longrightarrow>
   split_byte (string_of_runes rs) (CHR 0x0A) = map string_of_runes (split_byte rs 10)"
proof (induction rs)
  case (Cons r rs)
  show ?case
  proof (cases "r = 10")
    case True
    have "encode_rune 10 = [CHR 0x0A]" by code_simp
    with Cons True show ?thesis by simp
  next
    case False
    have "CHR 0x0A \<notin> set (encode_rune r)"
    proof (cases "r < 128")
      case True
      then have "byte_of (chr_of r) \<noteq> byte_of (CHR 0x0A)" using False by simp
      then have "chr_of r \<noteq> CHR 0x0A" by (simp only: byte_of_inject not_False_eq_True)
      with True show ?thesis by (simp add: encode_rune_ascii)
    next
      case False
      then show ?thesis using encode_rune_high [of r "CHR 0x0A"] by auto
    qed
    then have prefix: "split_byte (encode_rune r @ s) (CHR 0x0A) =
        (case split_byte s (CHR 0x0A) of [] \<Rightarrow> [] | q # ps \<Rightarrow> (encode_rune r @ q) # ps)" for s
      by (rule split_byte_prefix)
    from Cons False show ?thesis by (auto simp: prefix split: list.splits)
  qed
qed simp

lemma map_runes_strings:
  "list_all (list_all valid_rune) ls \<Longrightarrow> map runes (map string_of_runes ls) = ls"
  by (induction ls) (simp_all add: runes_of_string)

lemma split_valid: "list_all valid_rune rs \<Longrightarrow> list_all (list_all valid_rune) (split_byte rs c)"
  by (induction rs) (auto split: list.split)

lemma file_text_join:
  "ls \<noteq> [] \<Longrightarrow> file_text ls = join_with (map string_of_runes ls) [CHR 0x0A] @ [CHR 0x0A]"
  by (induction ls rule: induct_list012) (simp_all add: file_text_def)

lemma string_of_runes_snoc_nl:
  assumes "list_all valid_rune rs" "has_suffix (string_of_runes rs) [CHR 0x0A]"
  obtains rs' where "rs = rs' @ [10]"
proof (cases rs rule: rev_cases)
  case Nil
  with assms(2) show ?thesis by (simp add: has_suffix_def)
next
  case (snoc rs' r)
  have "encode_rune r \<noteq> []" by simp
  then have "last (string_of_runes rs) = last (encode_rune r)"
    using snoc by (simp add: string_of_runes_def)
  moreover have "last (string_of_runes rs) = CHR 0x0A" using assms(2) by (auto simp: has_suffix_iff)
  ultimately have nl: "last (encode_rune r) = CHR 0x0A" by simp
  show ?thesis
  proof (cases "r < 128")
    case True
    then have "chr_of r = CHR 0x0A" using nl by (simp add: encode_rune_ascii)
    from arg_cong [OF this, of byte_of] True have "r = 10" by simp
    with snoc that show ?thesis by simp
  next
    case False
    moreover have "last (encode_rune r) \<in> set (encode_rune r)" by (rule last_in_set) simp
    ultimately have "128 \<le> byte_of (last (encode_rune r))" by (intro encode_rune_high [of r]) simp_all
    with nl show ?thesis by simp
  qed
qed

text \<open>
  A file of valid UTF-8 that \<^verbatim>\<open>edit\<close> opens and saves without a change is what it was,
  with a newline added only where the last line had none.
\<close>

lemma edit_save_roundtrip:
  assumes "list_all valid_rune rs"
  shows "file_text (x_lines (edit_open f (string_of_runes rs))) =
    (if has_suffix (string_of_runes rs) [CHR 0x0A] then string_of_runes rs
     else string_of_runes rs @ [CHR 0x0A])"
proof -
  have key: "file_text (map runes (split_byte (string_of_runes qs) (CHR 0x0A))) = string_of_runes qs @ [CHR 0x0A]"
    if "list_all valid_rune qs" for qs
  proof -
    have "map runes (split_byte (string_of_runes qs) (CHR 0x0A)) = split_byte qs 10"
      using that by (simp only: split_string_of_runes map_runes_strings split_valid)
    moreover have "join_with (map string_of_runes (split_byte qs 10)) [CHR 0x0A] = string_of_runes qs"
      using that by (metis join_split_byte split_string_of_runes)
    ultimately show ?thesis by (simp add: file_text_join)
  qed
  show ?thesis
  proof (cases "has_suffix (string_of_runes rs) [CHR 0x0A]")
    case True
    then obtain qs where qs: "rs = qs @ [10]" by (rule string_of_runes_snoc_nl [OF assms])
    have nl: "encode_rune 10 = [CHR 0x0A]" by code_simp
    have "list_all valid_rune qs" using assms qs by simp
    from key [OF this] True qs nl show ?thesis by (simp add: edit_open_def)
  next
    case False
    with key [OF assms] show ?thesis by (simp add: edit_open_def trim_suffix_None)
  qed
qed

lemma edit_save_roundtrip_witness:
  "file_text (x_lines (edit_open ''f'' (string_of_runes [233, 10, 10]))) = string_of_runes [233, 10, 10]"
proof -
  have "has_suffix (string_of_runes [233, 10, 10]) [CHR 0x0A]" by code_simp
  then show ?thesis using edit_save_roundtrip [of "[233, 10, 10]" "''f''"] by (simp add: valid_rune_def)
qed

end
