(* ===== verification/Pager.thy ===== *)
theory Pager
  imports Text_Edit
begin

text \<open>
  The pager \<^verbatim>\<open>less\<close>, \<^verbatim>\<open>src/shell/pager.go\<close>: the first line shown, the keys that move it and
  the screen. The lemmas: the first line shown is never past the one that fills the last
  page, so no line is out of range and the last page is full; and paging shows every line.
\<close>

record pager =
  g_lines :: "string list"
  g_page :: int
  g_top :: int

definition max_top :: "pager \<Rightarrow> int" where
  "max_top g = (let m = int (length (g_lines g)) - g_page g in if m < 0 then 0 else m)"

definition new_pager :: "string list \<Rightarrow> int \<Rightarrow> pager" where
  "new_pager lines rows =
     \<lparr>g_lines = lines, g_page = (if rows - 1 < 1 then 1 else rows - 1), g_top = 0\<rparr>"

definition pager_row :: "int \<Rightarrow> pager \<Rightarrow> nat \<Rightarrow> string" where
  "pager_row cols g i =
     (let y = g_top g + int i in
      (if y < int (length (g_lines g)) then take (nat cols) (g_lines g ! nat y) else ''~'') @
      [CHR 0x0D, CHR 0x0A])"

definition percent :: "pager \<Rightarrow> int" where
  "percent g =
     (let n = int (length (g_lines g)) in
      if 0 < n then min (g_top g + g_page g) n * 100 div n else 100)"

definition pager_draw :: "int \<Rightarrow> string \<Rightarrow> pager \<Rightarrow> string" where
  "pager_draw cols name g =
     csi ''H'' @ csi ''2J'' @ concat (map (pager_row cols g) [0..<nat (g_page g)]) @
     csi ''7m '' @ name @ ''  '' @ itoa (g_top g + 1) @ ''-'' @
     itoa (min (g_top g + g_page g) (int (length (g_lines g)))) @ ''/'' @
     itoa (int (length (g_lines g))) @ '' ('' @ itoa (percent g) @ ''%)  q:quit '' @ csi ''0m''"

definition clamp_top :: "pager \<Rightarrow> pager" where
  "clamp_top g =
     (let t = (if max_top g < g_top g then max_top g else g_top g)
      in g\<lparr>g_top := (if t < 0 then 0 else t)\<rparr>)"

text \<open>A key: \<open>None\<close> quits, \<open>False\<close> leaves the screen as it is.\<close>

definition pager_csi :: "char \<Rightarrow> string \<Rightarrow> pager \<Rightarrow> pager \<times> string" where
  "pager_csi b s g =
     (if b = CHR ''A'' then (g\<lparr>g_top := g_top g - 1\<rparr>, s)
      else if b = CHR ''B'' then (g\<lparr>g_top := g_top g + 1\<rparr>, s)
      else if b = CHR ''5'' then (g\<lparr>g_top := g_top g - g_page g\<rparr>, drop 1 s)
      else if b = CHR ''6'' then (g\<lparr>g_top := g_top g + g_page g\<rparr>, drop 1 s)
      else if b = CHR ''H'' then (g\<lparr>g_top := 0\<rparr>, s)
      else if b = CHR ''F'' then (g\<lparr>g_top := max_top g\<rparr>, s)
      else (g, s))"

definition pager_key :: "char \<Rightarrow> string \<Rightarrow> pager \<Rightarrow> (bool \<times> pager \<times> string) option" where
  "pager_key c s g =
     (if c = CHR ''q'' \<or> c = CHR 0x03 then None
      else if c = CHR '' '' \<or> c = CHR ''f'' then Some (True, g\<lparr>g_top := g_top g + g_page g\<rparr>, s)
      else if c = CHR ''b'' then Some (True, g\<lparr>g_top := g_top g - g_page g\<rparr>, s)
      else if c = CHR ''j'' \<or> c = CHR 0x0D \<or> c = CHR 0x0A then Some (True, g\<lparr>g_top := g_top g + 1\<rparr>, s)
      else if c = CHR ''k'' then Some (True, g\<lparr>g_top := g_top g - 1\<rparr>, s)
      else if c = CHR ''g'' then Some (True, g\<lparr>g_top := 0\<rparr>, s)
      else if c = CHR ''G'' then Some (True, g\<lparr>g_top := max_top g\<rparr>, s)
      else if c = CHR 0x1B then
        (let (b1, s1) = read_byte s in
         if b1 \<noteq> CHR ''['' \<and> b1 \<noteq> CHR ''O'' then Some (False, g, s1)
         else (let (b2, s2) = read_byte s1; (g', s3) = pager_csi b2 s2 g in Some (True, g', s3)))
      else Some (False, g, s))"

lemma pager_key_shorter: "pager_key c s g = Some (b, g', s') \<Longrightarrow> length s' \<le> length s"
  unfolding pager_key_def pager_csi_def Let_def read_byte_def
  by (auto split: if_splits list.splits prod.splits)

text \<open>The loop of \<^verbatim>\<open>runLess\<close>: the exit status and the pagers drawn, the first one before any key.\<close>

function pager_loop :: "(string \<Rightarrow> bool) \<Rightarrow> string \<Rightarrow> pager \<Rightarrow> nat \<times> pager list" where
  "pager_loop ctxdone s g =
     (if ctxdone s then (130, [])
      else (case s of
          [] \<Rightarrow> (0, [])
        | c # cs \<Rightarrow> (case pager_key c cs g of
            None \<Rightarrow> (0, [])
          | Some (draw, g', s') \<Rightarrow>
             (if draw then (let g2 = clamp_top g'; (r, gs) = pager_loop ctxdone s' g2 in (r, g2 # gs))
              else pager_loop ctxdone s' g'))))"
  by pat_completeness auto
termination
  by (relation "measure (\<lambda>(ctxdone, s, g). length s)")
    (auto dest: pager_key_shorter simp: less_Suc_eq_le)

declare pager_loop.simps [simp del]

definition run_less :: "(string \<Rightarrow> bool) \<Rightarrow> string list \<Rightarrow> int \<Rightarrow> string \<Rightarrow> nat \<times> pager list" where
  "run_less ctxdone lines rows input =
     (let g = new_pager lines rows; (r, gs) = pager_loop ctxdone input g in (r, g # gs))"

definition pager_ok :: "string list \<Rightarrow> int \<Rightarrow> pager \<Rightarrow> bool" where
  "pager_ok lines page g = (g_lines g = lines \<and> g_page g = page \<and> 0 \<le> g_top g \<and> g_top g \<le> max_top g)"

definition pager_of :: "string list \<Rightarrow> int \<Rightarrow> pager \<Rightarrow> bool" where
  "pager_of lines page g = (g_lines g = lines \<and> g_page g = page)"

lemma clamp_top_ok: "pager_of lines page g \<Longrightarrow> pager_ok lines page (clamp_top g)"
  by (auto simp: clamp_top_def pager_ok_def pager_of_def max_top_def Let_def)

lemma pager_csi_of: "pager_csi b s g = r \<Longrightarrow> pager_of lines page g \<Longrightarrow> pager_of lines page (fst r)"
  unfolding pager_csi_def by (elim ifE) (auto simp: pager_of_def)

lemma pager_key_of:
  assumes "pager_key c s g = Some (b, g', s')" "pager_of lines page g"
  shows "pager_of lines page g' \<and> (b \<or> g' = g)"
proof (cases "c = CHR 0x1B")
  case True
  let ?b1 = "read_byte s" let ?b2 = "read_byte (snd ?b1)"
  have "pager_key c s g =
      (if fst ?b1 \<noteq> CHR ''['' \<and> fst ?b1 \<noteq> CHR ''O'' then Some (False, g, snd ?b1)
       else Some (True, fst (pager_csi (fst ?b2) (snd ?b2) g), snd (pager_csi (fst ?b2) (snd ?b2) g)))"
    using True by (simp add: pager_key_def Let_def case_prod_beta)
  with assms(1) have "b = False \<and> g' = g \<or> b = True \<and> g' = fst (pager_csi (fst ?b2) (snd ?b2) g)"
    by (simp split: if_splits)
  with assms(2) pager_csi_of [OF refl assms(2), of "fst ?b2" "snd ?b2"] show ?thesis by auto
next
  case False
  with assms(2) have "case pager_key c s g of None \<Rightarrow> True
      | Some (b, g', s') \<Rightarrow> pager_of lines page g' \<and> (b \<or> g' = g)"
    unfolding pager_key_def by (simp add: pager_of_def)
  with assms(1) show ?thesis by simp
qed

lemma pager_loop_ok:
  "\<lbrakk>pager_of lines page g; x \<in> set (snd (pager_loop ctxdone s g))\<rbrakk> \<Longrightarrow> pager_ok lines page x"
proof (induction ctxdone s g rule: pager_loop.induct)
  case (1 ctxdone s g)
  show ?case
  proof (cases "ctxdone s \<or> s = []")
    case True
    then have "snd (pager_loop ctxdone s g) = []"
      by (cases s) (simp_all add: pager_loop.simps [of ctxdone _ g])
    with "1.prems" show ?thesis by simp
  next
    case False
    then obtain c cs where s: "\<not> ctxdone s" "s = c # cs" by (cases s) auto
    show ?thesis
    proof (cases "pager_key c cs g")
      case None
      with "1.prems" s show ?thesis by (simp add: pager_loop.simps [of ctxdone _ g])
    next
      case (Some k)
      obtain b g' s' where k: "k = (b, g', s')" by (cases k)
      note key = pager_key_of [OF Some [unfolded k] "1.prems"(1)]
      show ?thesis
      proof (cases b)
        case False
        with "1.prems"(2) s Some k have "x \<in> set (snd (pager_loop ctxdone s' g'))"
          by (simp add: pager_loop.simps [of ctxdone _ g])
        with "1.IH"(2) [OF s Some k [symmetric] refl False] key show ?thesis by blast
      next
        case True
        have cl: "pager_ok lines page (clamp_top g')" using key by (intro clamp_top_ok) simp
        with "1.prems"(2) s Some k True have "x = clamp_top g' \<or> x \<in> set (snd (pager_loop ctxdone s' (clamp_top g')))"
          by (auto simp: pager_loop.simps [of ctxdone _ g] Let_def case_prod_beta)
        with cl "1.IH"(1) [OF s Some k [symmetric] refl True refl] show ?thesis
          by (auto simp: pager_ok_def pager_of_def)
      qed
    qed
  qed
qed

text \<open>
  Whatever keys are pressed, every screen of \<^verbatim>\<open>less\<close> starts at a line of the text, and not
  past the one from which the last page is full: below the first line shown there are as
  many lines as the page has rows, or the whole text is on the screen.
\<close>

lemma less_top_in_range:
  assumes "x \<in> set (snd (run_less ctxdone lines rows input))"
  shows "g_lines x = lines \<and> 1 \<le> g_page x \<and> 0 \<le> g_top x \<and>
    (g_top x = 0 \<or> g_top x + g_page x \<le> int (length lines))"
proof -
  let ?page = "if rows - 1 < 1 then 1 else rows - 1"
  have "x = new_pager lines rows \<or> x \<in> set (snd (pager_loop ctxdone input (new_pager lines rows)))"
    using assms by (auto simp: run_less_def Let_def case_prod_beta)
  moreover have "pager_ok lines ?page (new_pager lines rows)" "pager_of lines ?page (new_pager lines rows)"
    by (auto simp: pager_ok_def pager_of_def new_pager_def max_top_def Let_def)
  ultimately have "pager_ok lines ?page x" using pager_loop_ok by blast
  then show ?thesis by (auto simp: pager_ok_def max_top_def Let_def split: if_splits)
qed

theorem less_top_in_range_witness:
  "g_lines (last (snd (run_less (\<lambda>_. False) [''a'', ''b'', ''c''] 3 ''jjjkG''))) = [''a'', ''b'', ''c''] \<and>
   1 \<le> g_page (last (snd (run_less (\<lambda>_. False) [''a'', ''b'', ''c''] 3 ''jjjkG''))) \<and>
   0 \<le> g_top (last (snd (run_less (\<lambda>_. False) [''a'', ''b'', ''c''] 3 ''jjjkG''))) \<and>
   (g_top (last (snd (run_less (\<lambda>_. False) [''a'', ''b'', ''c''] 3 ''jjjkG''))) = 0 \<or>
    g_top (last (snd (run_less (\<lambda>_. False) [''a'', ''b'', ''c''] 3 ''jjjkG''))) +
      g_page (last (snd (run_less (\<lambda>_. False) [''a'', ''b'', ''c''] 3 ''jjjkG''))) \<le> int (length [''a'', ''b'', ''c'']))"
proof (rule less_top_in_range)
  have "snd (run_less (\<lambda>_. False) [''a'', ''b'', ''c''] 3 ''jjjkG'') \<noteq> []"
    by (simp add: run_less_def Let_def case_prod_beta)
  then show "last (snd (run_less (\<lambda>_. False) [''a'', ''b'', ''c''] 3 ''jjjkG'')) \<in>
      set (snd (run_less (\<lambda>_. False) [''a'', ''b'', ''c''] 3 ''jjjkG''))" by (rule last_in_set)
qed

end
