(* ===== verification/Key_Escape.thy ===== *)
theory Key_Escape
  imports Go_Prelude
begin

text \<open>
  The keys on their way to another machine: the escape filter of the \<^verbatim>\<open>pty\<close> applet
  (\<^verbatim>\<open>shell/pty/protocol.go\<close>), the key and input loops of \<^verbatim>\<open>ssh\<close> with the exit status
  of a session (\<^verbatim>\<open>shell/ssh/session.go\<close>), and the key loop of \<^verbatim>\<open>mosh\<close>
  (\<^verbatim>\<open>shell/mosh/client.go\<close>). The locale \<open>key_filter\<close> is what the three loops share: a
  filter fed piece by piece, whose result must not depend on how the input was cut.
\<close>

lemma has_prefix_more: "has_prefix t s \<Longrightarrow> has_prefix (t @ u) s"
  by (auto simp: has_prefix_iff)

lemma has_prefix_cong: "has_prefix (u @ t) (u @ s) = has_prefix t s"
  by (auto simp: has_prefix_iff)

definition is_eol :: "char \<Rightarrow> bool" where
  "is_eol c = (c = CHR 0x0D \<or> c = CHR 0x0A)"

subsection \<open>The escape filter of pty\<close>

record esc =
  v_mid :: bool
  v_tilde :: bool

definition fresh_esc :: esc where
  "fresh_esc = \<lparr>v_mid = False, v_tilde = False\<rparr>"

fun esc_loop :: "esc \<Rightarrow> string \<Rightarrow> string \<Rightarrow> esc \<times> string \<times> bool" where
  "esc_loop e out [] = (e, out, False)"
| "esc_loop e out (c # cs) =
     (if v_tilde e \<and> c = CHR ''.'' then (e\<lparr>v_tilde := False\<rparr>, out, True)
      else if v_tilde e \<and> c = CHR ''~''
      then esc_loop (e\<lparr>v_tilde := False, v_mid := True\<rparr>) (out @ ''~'') cs
      else (let out = (if v_tilde e then out @ ''~'' else out);
                e = e\<lparr>v_tilde := False\<rparr>
            in if \<not> v_mid e \<and> c = CHR ''~'' then esc_loop (e\<lparr>v_tilde := True\<rparr>) out cs
               else esc_loop (e\<lparr>v_mid := \<not> is_eol c\<rparr>) (out @ [c]) cs))"

definition esc_filter :: "esc \<Rightarrow> string \<Rightarrow> esc \<times> string \<times> bool" where
  "esc_filter e s = esc_loop e [] s"

subsection \<open>The key loop of ssh\<close>

text \<open>
  One turn of a loop that reads from the terminal: whether the session was over before
  and after the read, what the read gave, whether it gave an error with it, and whether
  the write that follows succeeds.
\<close>

record key_read =
  h_done :: bool
  h_data :: string
  h_err :: bool
  h_done_after :: bool
  h_write_ok :: bool

definition quiet :: "string \<Rightarrow> key_read" where
  "quiet s = \<lparr>h_done = False, h_data = s, h_err = False, h_done_after = False, h_write_ok = True\<rparr>"

text \<open>The body of the loop over one read: line start, pending tilde, what is sent, quit.\<close>

fun ssh_keys :: "bool \<Rightarrow> bool \<Rightarrow> string \<Rightarrow> string \<Rightarrow> bool \<times> bool \<times> string \<times> bool" where
  "ssh_keys ls td sd [] = (ls, td, sd, False)"
| "ssh_keys ls td sd (b # bs) =
     (if td \<and> b = CHR ''.'' then (ls, False, sd, True)
      else if td \<and> b = CHR ''~'' then ssh_keys False False (sd @ ''~'') bs
      else (let sd = (if td then sd @ ''~'' else sd)
            in if ls \<and> b = CHR ''~'' then ssh_keys ls True sd bs
               else ssh_keys (is_eol b) False (sd @ [b]) bs))"

definition when_some :: "string \<Rightarrow> string list" where
  "when_some s = (if s \<noteq> [] then [s] else [])"

text \<open>
  \<^verbatim>\<open>forwardKeys\<close>: the writes to the session, whether its input was closed, and the
  result, which is \<open>None\<close> while the loop waits for the next key.
\<close>

fun forward_keys :: "bool \<Rightarrow> bool \<Rightarrow> key_read list \<Rightarrow> string list \<times> bool \<times> bool option" where
  "forward_keys ls td [] = ([], False, None)"
| "forward_keys ls td (r # rs) =
     (if h_done r then ([], False, Some False)
      else if h_done_after r then ([], False, Some False)
      else (case ssh_keys ls td [] (h_data r) of (ls', td', sd, quit) \<Rightarrow>
        if quit then (when_some sd, False, Some True)
        else if sd \<noteq> [] \<and> \<not> h_write_ok r then ([sd], False, Some False)
        else if h_err r then (when_some sd, True, Some False)
        else (case forward_keys ls' td' rs of (ws, cl, res) \<Rightarrow> (when_some sd @ ws, cl, res))))"

text \<open>\<^verbatim>\<open>copyStdin\<close>: the same without the escape.\<close>

fun copy_stdin :: "key_read list \<Rightarrow> string list \<times> bool \<times> bool" where
  "copy_stdin [] = ([], False, False)"
| "copy_stdin (r # rs) =
     (if h_done r then ([], False, True)
      else if h_done_after r then ([], False, True)
      else if h_data r \<noteq> [] \<and> \<not> h_write_ok r then ([h_data r], False, True)
      else if h_err r then (when_some (h_data r), True, True)
      else (case copy_stdin rs of (ws, cl, fin) \<Rightarrow> (when_some (h_data r) @ ws, cl, fin)))"

subsection \<open>The end of an ssh session\<close>

datatype wait_err =
    Exit_Error (err_signal: string) (err_status: int)
  | Exit_Missing
  | Wait_Failed string

definition exit_status :: "wait_err option \<Rightarrow> int \<times> string option" where
  "exit_status e = (case e of
     None \<Rightarrow> (0, None)
   | Some (Exit_Error sig st) \<Rightarrow>
       if sig \<noteq> [] \<and> st = 0 then (255, Some (''remote command killed by signal '' @ sig))
       else (st, None)
   | Some Exit_Missing \<Rightarrow> (255, None)
   | Some (Wait_Failed m) \<Rightarrow> (255, Some m))"

text \<open>
  \<^verbatim>\<open>Client.Shell\<close> and \<^verbatim>\<open>Client.Run\<close>: the requests that can fail, in their order, then the
  input loop, then the status the session ended with. \<open>None\<close> is a session still waiting
  for keys.
\<close>

definition first_error :: "string option list \<Rightarrow> string option" where
  "first_error es = (case dropWhile (\<lambda>e. e = None) es of [] \<Rightarrow> None | e # _ \<Rightarrow> e)"

record ssh_conn =
  q_session :: "string option"
  q_pty :: "string option"
  q_pipe :: "string option"
  q_start :: "string option"
  q_wait :: "wait_err option"
  q_canceled :: bool

definition ssh_shell :: "ssh_conn \<Rightarrow> key_read list \<Rightarrow> (int \<times> string option) option" where
  "ssh_shell c rs = (case first_error [q_session c, q_pty c, q_pipe c, q_start c] of
     Some m \<Rightarrow> Some (255, Some m)
   | None \<Rightarrow> (case forward_keys True False rs of
       (_, _, None) \<Rightarrow> None
     | (_, _, Some True) \<Rightarrow> Some (255, None)
     | (_, _, Some False) \<Rightarrow> Some (exit_status (q_wait c))))"

definition ssh_run :: "ssh_conn \<Rightarrow> bool \<Rightarrow> key_read list \<Rightarrow> (int \<times> string option) option" where
  "ssh_run c no_stdin rs =
     (case first_error [q_session c, if no_stdin then None else q_pipe c, q_start c] of
       Some m \<Rightarrow> Some (255, Some m)
     | None \<Rightarrow>
         if \<not> no_stdin \<and> \<not> snd (snd (copy_stdin rs)) then None
         else if q_canceled c then Some (130, None)
         else Some (exit_status (q_wait c)))"

text \<open>The window changes sent for the sizes polled, given the size the other side has.\<close>

fun window_changes :: "nat \<times> nat \<Rightarrow> (nat \<times> nat) list \<Rightarrow> (nat \<times> nat) list" where
  "window_changes cur [] = []"
| "window_changes cur (s # ss) =
     (if fst s \<noteq> fst cur \<or> snd s \<noteq> snd cur then s # window_changes s ss
      else window_changes cur ss)"

subsection \<open>The key loop of mosh\<close>

definition mosh_escape :: char where
  "mosh_escape = CHR 0x1E"

fun mosh_keys :: "bool \<Rightarrow> string \<Rightarrow> string \<Rightarrow> bool \<times> string \<times> bool" where
  "mosh_keys pend sd [] = (pend, sd, False)"
| "mosh_keys pend sd (b # bs) =
     (if pend then
        (if b = CHR ''.'' then (False, sd, True)
         else if b = mosh_escape then mosh_keys False (sd @ [mosh_escape]) bs
         else mosh_keys False (sd @ [mosh_escape, b]) bs)
      else if b = mosh_escape then mosh_keys True sd bs
      else mosh_keys pend (sd @ [b]) bs)"

text \<open>\<^verbatim>\<open>readKeys\<close>: what is sent, and whether it has returned.\<close>

fun mosh_read_keys :: "bool \<Rightarrow> key_read list \<Rightarrow> string list \<times> bool" where
  "mosh_read_keys pend [] = ([], False)"
| "mosh_read_keys pend (r # rs) =
     (if h_done_after r then ([], True)
      else (case mosh_keys pend [] (h_data r) of (pend', sd, quit) \<Rightarrow>
        if quit then (when_some sd, True)
        else if h_err r then (when_some sd, True)
        else (case mosh_read_keys pend' rs of (ws, fin) \<Rightarrow> (when_some sd @ ws, fin))))"

subsection \<open>Filters fed in pieces\<close>

fun feed_all :: "('s \<Rightarrow> string \<Rightarrow> 's \<times> string \<times> bool) \<Rightarrow> 's \<Rightarrow> string list \<Rightarrow> 's \<times> string \<times> bool" where
  "feed_all feed s [] = (s, [], False)"
| "feed_all feed s (k # ks) = (case feed s k of (s', out, q) \<Rightarrow>
     if q then (s', out, True)
     else (case feed_all feed s' ks of (s'', out', q') \<Rightarrow> (s'', out @ out', q')))"

locale key_filter =
  fixes feed :: "'s \<Rightarrow> string \<Rightarrow> 's \<times> string \<times> bool"
  assumes feed_Nil: "feed s [] = (s, [], False)"
    and feed_append: "feed s (a @ b) = (case feed s a of (s', out, q) \<Rightarrow>
      if q then (s', out, True)
      else (case feed s' b of (s'', out', q') \<Rightarrow> (s'', out @ out', q')))"
begin

lemma feed_all_concat: "feed_all feed s ks = feed s (concat ks)"
  by (induction ks arbitrary: s) (simp_all add: feed_Nil feed_append split: prod.split)

lemma feed_quit_append: "feed s a = (s', out, True) \<Longrightarrow> feed s (a @ b) = (s', out, True)"
  by (simp add: feed_append)

lemma feed_prefix: "has_prefix (fst (snd (feed s (a @ b)))) (fst (snd (feed s a)))"
  by (cases "feed s a") (simp add: feed_append has_prefix_def split: prod.split)

lemma feed_cut: "concat ks = concat ks' \<Longrightarrow> feed_all feed s ks = feed_all feed s ks'"
  by (simp add: feed_all_concat)

end

definition ssh_feed :: "bool \<times> bool \<Rightarrow> string \<Rightarrow> (bool \<times> bool) \<times> string \<times> bool" where
  "ssh_feed st s = (case ssh_keys (fst st) (snd st) [] s of (ls, td, out, q) \<Rightarrow> ((ls, td), out, q))"

definition mosh_feed :: "bool \<Rightarrow> string \<Rightarrow> bool \<times> string \<times> bool" where
  "mosh_feed p s = mosh_keys p [] s"

lemma esc_loop_out:
  "esc_loop e (o1 @ out) s = (case esc_loop e out s of (e', out', q) \<Rightarrow> (e', o1 @ out', q))"
proof (induction s arbitrary: e out)
  case (Cons c cs)
  then show ?case
    using Cons [of _ "out @ ''~''"] Cons [of _ "out @ [c]"] Cons [of _ "out @ ''~'' @ [c]"]
    by (simp add: Let_def)
qed simp

lemma esc_loop_append:
  "esc_loop e out (a @ b) = (case esc_loop e out a of (e', out', q) \<Rightarrow>
     if q then (e', out', True) else esc_loop e' out' b)"
  by (induction e out a rule: esc_loop.induct) (simp_all add: Let_def)

lemma ssh_keys_out:
  "ssh_keys ls td (o1 @ out) s =
     (case ssh_keys ls td out s of (ls', td', out', q) \<Rightarrow> (ls', td', o1 @ out', q))"
proof (induction s arbitrary: ls td out)
  case (Cons c cs)
  then show ?case
    using Cons [of _ _ "out @ ''~''"] Cons [of _ _ "out @ [c]"] Cons [of _ _ "out @ ''~'' @ [c]"]
    by (simp add: Let_def)
qed simp

lemma ssh_keys_append:
  "ssh_keys ls td out (a @ b) = (case ssh_keys ls td out a of (ls', td', out', q) \<Rightarrow>
     if q then (ls', td', out', True) else ssh_keys ls' td' out' b)"
  by (induction ls td out a rule: ssh_keys.induct) (simp_all add: Let_def)

lemma mosh_keys_out:
  "mosh_keys p (o1 @ out) s = (case mosh_keys p out s of (p', out', q) \<Rightarrow> (p', o1 @ out', q))"
  by (induction p out s rule: mosh_keys.induct) simp_all

lemma mosh_keys_append:
  "mosh_keys p out (a @ b) = (case mosh_keys p out a of (p', out', q) \<Rightarrow>
     if q then (p', out', True) else mosh_keys p' out' b)"
  by (induction p out a rule: mosh_keys.induct) simp_all

interpretation ptyf: key_filter esc_filter
proof
  fix e :: esc and a b :: string
  show "esc_filter e [] = (e, [], False)" by (simp add: esc_filter_def)
  show "esc_filter e (a @ b) = (case esc_filter e a of (s', out, q) \<Rightarrow>
      if q then (s', out, True)
      else (case esc_filter s' b of (s'', out', q') \<Rightarrow> (s'', out @ out', q')))"
    using esc_loop_out [of "fst (esc_loop e [] a)" "fst (snd (esc_loop e [] a))" "[]" b]
    by (cases "esc_loop e [] a") (simp add: esc_filter_def esc_loop_append)
qed

interpretation sshf: key_filter ssh_feed
proof
  fix e :: "bool \<times> bool" and a b :: string
  show "ssh_feed e [] = (e, [], False)" by (simp add: ssh_feed_def)
  show "ssh_feed e (a @ b) = (case ssh_feed e a of (s', out, q) \<Rightarrow>
      if q then (s', out, True)
      else (case ssh_feed s' b of (s'', out', q') \<Rightarrow> (s'', out @ out', q')))"
    using ssh_keys_out [where ?o1.0 = "fst (snd (ssh_feed e a))" and out = "[]" and s = b]
    by (cases "ssh_keys (fst e) (snd e) [] a")
      (simp add: ssh_feed_def ssh_keys_append split: prod.split)
qed

interpretation moshf: key_filter mosh_feed
proof
  fix e :: bool and a b :: string
  show "mosh_feed e [] = (e, [], False)" by (simp add: mosh_feed_def)
  show "mosh_feed e (a @ b) = (case mosh_feed e a of (s', out, q) \<Rightarrow>
      if q then (s', out, True)
      else (case mosh_feed s' b of (s'', out', q') \<Rightarrow> (s'', out @ out', q')))"
    using mosh_keys_out [of "fst (mosh_keys e [] a)" "fst (snd (mosh_keys e [] a))" "[]" b]
    by (cases "mosh_keys e [] a") (simp add: mosh_feed_def mosh_keys_append)
qed

subsection \<open>The escape, line by line\<close>

text \<open>
  What ssh's manual promises, on whole lines: a line that begins with \<^verbatim>\<open>~.\<close> ends the
  session, one that begins with \<^verbatim>\<open>~~\<close> loses one tilde, every other line is sent as it
  is. A tilde alone at the end of the input is kept back.
\<close>

definition tilde_line :: "string \<Rightarrow> string option" where
  "tilde_line l =
     (if has_prefix l ''~.'' then None
      else if has_prefix l ''~~'' then Some (List.tl l)
      else Some l)"

function esc_ref :: "string \<Rightarrow> string \<times> bool" where
  "esc_ref s = (let line = takeWhile (\<lambda>c. \<not> is_eol c) s in
     case tilde_line line of
       None \<Rightarrow> ([], True)
     | Some l \<Rightarrow> (case dropWhile (\<lambda>c. \<not> is_eol c) s of
         [] \<Rightarrow> (if line = ''~'' then [] else l, False)
       | c # cs \<Rightarrow> (case esc_ref cs of (out, q) \<Rightarrow> (l @ c # out, q))))"
  by pat_completeness auto
termination
  by (relation "measure length") (simp_all, metis Suc_le_lessD length_Cons length_dropWhile_le)

declare esc_ref.simps [simp del]

text \<open>A text with the tildes at its line starts doubled, as one types it.\<close>

fun esc_quote :: "bool \<Rightarrow> string \<Rightarrow> string" where
  "esc_quote ls [] = []"
| "esc_quote ls (c # cs) =
     (if ls \<and> c = CHR ''~'' then ''~~'' else [c]) @ esc_quote (is_eol c) cs"

definition mosh_quote :: "string \<Rightarrow> string" where
  "mosh_quote s = replace_byte s mosh_escape [mosh_escape, mosh_escape]"

abbreviation in_line :: esc where
  "in_line \<equiv> \<lparr>v_mid = True, v_tilde = False\<rparr>"

lemma not_eol [simp]: "\<not> is_eol CHR ''~''" "\<not> is_eol CHR ''.''"
  by (simp_all add: is_eol_def)

lemma esc_loop_in_line:
  "\<forall>c \<in> set l. \<not> is_eol c \<Longrightarrow> esc_loop in_line out (l @ s) = esc_loop in_line (out @ l) s"
  by (induction l arbitrary: out) auto

lemma esc_loop_line:
  assumes "\<forall>c \<in> set l. \<not> is_eol c"
  shows "tilde_line l = None \<Longrightarrow> snd (esc_loop fresh_esc out (l @ s)) = (out, True)"
    and "tilde_line l = Some l' \<Longrightarrow>
      snd (esc_loop fresh_esc out l) = (out @ (if l = ''~'' then [] else l'), False)"
    and "\<lbrakk>tilde_line l = Some l'; is_eol c\<rbrakk> \<Longrightarrow>
      esc_loop fresh_esc out (l @ c # s) = esc_loop fresh_esc (out @ l' @ [c]) s"
proof -
  consider "l = []" | "l = ''~''" | r where "l = ''~.'' @ r" | r where "l = ''~~'' @ r"
    | x r where "l = CHR ''~'' # x # r" "x \<noteq> CHR ''~''" "x \<noteq> CHR ''.''"
    | x r where "l = x # r" "x \<noteq> CHR ''~''"
    by (cases l; cases "tl l") auto
  note cs = this
  show "tilde_line l = None \<Longrightarrow> snd (esc_loop fresh_esc out (l @ s)) = (out, True)"
    using cs assms by cases (auto simp: tilde_line_def fresh_esc_def split: if_splits)
  show "tilde_line l = Some l' \<Longrightarrow>
      snd (esc_loop fresh_esc out l) = (out @ (if l = ''~'' then [] else l'), False)"
    using cs assms esc_loop_in_line [of _ _ "[]"]
    by cases (auto simp: tilde_line_def fresh_esc_def split: if_splits)
  show "esc_loop fresh_esc out (l @ c # s) = esc_loop fresh_esc (out @ l' @ [c]) s"
    if "tilde_line l = Some l'" "is_eol c"
  proof -
    have "c \<noteq> CHR ''~''" "c \<noteq> CHR ''.''" using that not_eol by metis+
    with cs that assms show ?thesis
      by cases (auto simp: tilde_line_def fresh_esc_def esc_loop_in_line Let_def split: if_splits)
  qed
qed

lemma esc_loop_ref: "snd (esc_loop fresh_esc out s) = (out @ fst (esc_ref s), snd (esc_ref s))"
proof (induction s arbitrary: out rule: esc_ref.induct)
  case (1 s)
  let ?l = "takeWhile (\<lambda>c. \<not> is_eol c) s" and ?r = "dropWhile (\<lambda>c. \<not> is_eol c) s"
  have l: "\<forall>c \<in> set ?l. \<not> is_eol c" by (auto dest: set_takeWhileD)
  note ln = esc_loop_line [OF l]
  show ?case
  proof (cases "tilde_line ?l")
    case None
    with ln(1) [of out ?r] show ?thesis by (simp add: esc_ref.simps [of s])
  next
    case l': (Some l')
    show ?thesis
    proof (cases ?r)
      case Nil
      then have "?l = s" by (metis append_Nil2 takeWhile_dropWhile_id)
      with ln(2) [of l' out] l' Nil show ?thesis
        by (simp add: esc_ref.simps [of s] del: dropWhile_eq_Nil_conv takeWhile_eq_all_conv)
    next
      case (Cons c cs)
      have "is_eol c" using hd_dropWhile [of "\<lambda>c. \<not> is_eol c" s] Cons by simp
      then have "esc_loop fresh_esc out s = esc_loop fresh_esc (out @ l' @ [c]) cs"
        using ln(3) [of l' c out cs] l' takeWhile_dropWhile_id [of "\<lambda>c. \<not> is_eol c" s] Cons
        by simp
      then show ?thesis
        using "1.IH" [OF refl l' Cons, of "out @ l' @ [c]"] l' Cons
        by (simp add: esc_ref.simps [of s] split: prod.split)
    qed
  qed
qed

lemma esc_filter_ref: "snd (esc_filter fresh_esc s) = esc_ref s"
  by (simp add: esc_filter_def esc_loop_ref)

text \<open>The loop of ssh is the filter of pty with its flag inverted.\<close>

lemma ssh_keys_esc:
  "ssh_keys ls td out s = (case esc_loop \<lparr>v_mid = \<not> ls, v_tilde = td\<rparr> out s of
     (e, out', q) \<Rightarrow> (\<not> v_mid e, v_tilde e, out', q))"
  by (induction ls td out s rule: ssh_keys.induct) (simp_all add: Let_def)

lemma ssh_feed_ref: "snd (ssh_feed (True, False) s) = esc_ref s"
  using esc_filter_ref [of s]
  by (cases "esc_loop fresh_esc [] s")
    (simp add: ssh_feed_def ssh_keys_esc esc_filter_def fresh_esc_def)

lemma concat_when_some [simp]: "concat (when_some s) = s"
  by (simp add: when_some_def)

lemma forward_keys_quiet:
  "(case forward_keys ls td (map quiet ks) of (ws, _, res) \<Rightarrow> (concat ws, res = Some True)) =
   snd (feed_all ssh_feed (ls, td) ks)"
proof (induction ks arbitrary: ls td)
  case (Cons k ks)
  obtain ls' td' out q where k: "ssh_keys ls td [] k = (ls', td', out, q)"
    by (cases "ssh_keys ls td [] k") auto
  with Cons [of ls' td'] show ?case
    by (auto simp: quiet_def ssh_feed_def split: prod.splits)
qed simp

text \<open>On any reads: what was written is a prefix of what the filter sends.\<close>

lemma forward_keys_sound:
  "case forward_keys ls td rs of (ws, cl, res) \<Rightarrow>
     has_prefix (fst (snd (feed_all ssh_feed (ls, td) (map h_data rs)))) (concat ws) \<and>
     (res = Some True \<longrightarrow> snd (snd (feed_all ssh_feed (ls, td) (map h_data rs))))"
proof (induction rs arbitrary: ls td)
  case (Cons r rs)
  obtain ls' td' out q where k: "ssh_keys ls td [] (h_data r) = (ls', td', out, q)"
    by (cases "ssh_keys ls td [] (h_data r)") auto
  with Cons [of ls' td'] show ?case
    by (auto simp: ssh_feed_def has_prefix_def split: prod.splits if_splits)
qed simp

lemma esc_loop_quote:
  "snd (esc_loop \<lparr>v_mid = \<not> ls, v_tilde = False\<rparr> out (esc_quote ls s)) = (out @ s, False)"
proof (induction s arbitrary: ls out)
  case (Cons c s)
  then show ?case
    using Cons [of "is_eol c" "out @ [c]"] Cons [of False "out @ [c]"]
    by (cases "c = CHR ''~''") (simp_all add: Let_def)
qed simp

lemma esc_ref_quote: "esc_ref (esc_quote True s) = (s, False)"
  using esc_loop_quote [of True "[]" s] esc_filter_ref [of "esc_quote True s"]
  by (simp add: esc_filter_def fresh_esc_def)

lemma mosh_keys_quote: "mosh_keys False out (mosh_quote s) = (False, out @ s, False)"
  by (induction s arbitrary: out) (auto simp: mosh_quote_def replace_byte_def mosh_escape_def)

lemma mosh_read_quiet:
  "(case mosh_read_keys p (map quiet ks) of (ws, fin) \<Rightarrow> (concat ws, fin)) =
   snd (feed_all mosh_feed p ks)"
proof (induction ks arbitrary: p)
  case (Cons k ks)
  obtain p' out q where k: "mosh_keys p [] k = (p', out, q)"
    by (cases "mosh_keys p [] k") auto
  with Cons [of p'] show ?case
    by (auto simp: quiet_def mosh_feed_def split: prod.splits)
qed simp

subsection \<open>Properties\<close>

text \<open>
  C35. What ssh sends for the keys typed is what its manual promises line by line, however
  the terminal cut them into reads: a line that starts with tilde-dot ends the session and
  nothing after it is sent, a doubled tilde at a line start is sent once, and every other
  byte is sent as it is.
\<close>

theorem ssh_forwards_by_lines:
  "(case forward_keys True False (map quiet ks) of (ws, _, res) \<Rightarrow> (concat ws, res = Some True)) =
   esc_ref (concat ks)"
  by (simp only: forward_keys_quiet sshf.feed_all_concat ssh_feed_ref)

text \<open>
  Whatever else happens to the session (it ends before or during a read, a write fails,
  the input ends), what was written to it is a prefix of that, and the loop reports an
  escape only where one was typed.
\<close>

lemma ssh_forwards_no_more:
  "has_prefix (fst (esc_ref (concat (map h_data rs)))) (concat (fst (forward_keys True False rs))) \<and>
   (snd (snd (forward_keys True False rs)) = Some True \<longrightarrow> snd (esc_ref (concat (map h_data rs))))"
  using forward_keys_sound [of True False rs]
  by (cases "forward_keys True False rs") (simp add: sshf.feed_all_concat ssh_feed_ref)

lemma ssh_forwards_no_more_witness:
  "(let rs = [quiet ''ls'', quiet [CHR 0x0A], (quiet ''~.'')\<lparr>h_write_ok := False\<rparr>] in
    snd (snd (forward_keys True False rs)) = Some True \<and>
    snd (esc_ref (concat (map h_data rs))))"
proof -
  let ?rs = "[quiet ''ls'', quiet [CHR 0x0A], (quiet ''~.'')\<lparr>h_write_ok := False\<rparr>]"
  have "snd (snd (forward_keys True False ?rs)) = Some True" by code_simp
  with ssh_forwards_no_more [of ?rs] show ?thesis by (simp add: Let_def)
qed

text \<open>
  A text typed with the tilde at each line start doubled reaches the other end of an
  ssh session as it is, and one typed with Ctrl-\<^verbatim>\<open>^\<close> doubled that of a mosh session, in
  whatever pieces it was read; neither session ends.
\<close>

lemma typed_text_arrives:
  assumes "concat ks = esc_quote True s" and "concat ms = mosh_quote s"
  shows "(case forward_keys True False (map quiet ks) of (ws, _, res) \<Rightarrow>
           (concat ws, res = Some True)) = (s, False) \<and>
         (case mosh_read_keys False (map quiet ms) of (ws, fin) \<Rightarrow> (concat ws, fin)) = (s, False)"
  using assms mosh_keys_quote [of "[]" s]
  by (simp add: forward_keys_quiet sshf.feed_all_concat ssh_feed_ref esc_ref_quote
      mosh_read_quiet moshf.feed_all_concat mosh_feed_def)

lemma typed_text_arrives_witness:
  "(case forward_keys True False (map quiet [''~~a'', ''~b'']) of (ws, _, res) \<Rightarrow>
      (concat ws, res = Some True)) = (''~a~b'', False)"
  using typed_text_arrives [of "[''~~a'', ''~b'']" "''~a~b''" "[''~a'', ''~b'']"]
  by (simp add: mosh_quote_def replace_byte_def mosh_escape_def is_eol_def)

end
