(* ===== verification/Pty_Client.thy ===== *)
theory Pty_Client
  imports Key_Escape Go_Text
begin

text \<open>
  The \<^verbatim>\<open>pty\<close> applet: its control messages and addresses (\<^verbatim>\<open>shell/pty/protocol.go\<close>), one
  connection and the loop that reconnects (\<^verbatim>\<open>shell/pty/applet_js.go\<close>, \<^verbatim>\<open>retry.go\<close>), and
  what the server does with a message (\<^verbatim>\<open>handler.go\<close>). The browser is the environment: its
  callbacks post events to the connection's queue at any time, and a schedule says which
  branch of the connection's \<^verbatim>\<open>select\<close> runs next. Packages \<^verbatim>\<open>encoding/json\<close> and
  \<^verbatim>\<open>net/url\<close> are parameters.
\<close>

subsection \<open>Messages and addresses\<close>

record control =
  l_type :: string
  l_cols :: int
  l_rows :: int
  l_id :: string

definition no_control :: control where
  "no_control = \<lparr>l_type = [], l_cols = 0, l_rows = 0, l_id = []\<rparr>"

definition json_field :: "string \<Rightarrow> string \<Rightarrow> string" where
  "json_field k v = '','' @ [CHR 0x22] @ k @ [CHR 0x22, CHR '':''] @ v"

definition resize_message :: "int \<Rightarrow> int \<Rightarrow> string" where
  "resize_message cols rows =
     [CHR ''{'', CHR 0x22] @ ''type'' @ [CHR 0x22, CHR '':'', CHR 0x22] @ ''resize'' @ [CHR 0x22] @
     (if cols \<noteq> 0 then json_field ''cols'' (itoa cols) else []) @
     (if rows \<noteq> 0 then json_field ''rows'' (itoa rows) else []) @ ''}''"

text \<open>\<^verbatim>\<open>ParseControl\<close>; \<open>unmarshal\<close> is \<^verbatim>\<open>json.Unmarshal\<close> into a \<^verbatim>\<open>Control\<close>.\<close>

definition parse_control :: "(string \<Rightarrow> control option) \<Rightarrow> string \<Rightarrow> control option" where
  "parse_control unmarshal b = (case b of
     [] \<Rightarrow> None
   | c # _ \<Rightarrow> if c \<noteq> CHR ''{'' then None
       else (case unmarshal b of
         None \<Rightarrow> None
       | Some m \<Rightarrow> if l_type m = [] then None else Some m))"

record 'u url_lib =
  u_parse :: "string \<Rightarrow> string + 'u"
  u_resolve :: "'u \<Rightarrow> 'u \<Rightarrow> 'u"
  u_scheme :: "'u \<Rightarrow> string"
  u_finish :: "'u \<Rightarrow> string \<Rightarrow> string \<Rightarrow> string"

text \<open>
  \<^verbatim>\<open>WebSocketURL\<close>: \<open>u_finish u scheme sid\<close> is the address with that scheme, no fragment
  and, when the session id is not empty, \<^verbatim>\<open>?sid=\<close>.
\<close>

definition web_socket_url :: "'u url_lib \<Rightarrow> string \<Rightarrow> string \<Rightarrow> string \<Rightarrow> string + string" where
  "web_socket_url U target base sid =
     (if target = [] then Inl ''no address''
      else (case u_parse U base of
        Inl e \<Rightarrow> Inl e
      | Inr b \<Rightarrow> (case u_parse U target of
          Inl e \<Rightarrow> Inl e
        | Inr t \<Rightarrow>
            (let u = u_resolve U b t; s = u_scheme U u
             in if s = ''http'' \<or> s = ''ws'' then Inr (u_finish U u ''ws'' sid)
                else if s = ''https'' \<or> s = ''wss'' then Inr (u_finish U u ''wss'' sid)
                else Inl (''not an http or ws address: '' @ target)))))"

subsection \<open>One connection\<close>

text \<open>\<^verbatim>\<open>result\<close> and \<^verbatim>\<open>event\<close>.\<close>

record pty_result =
  w_opened :: bool
  w_quit :: bool
  w_ended :: bool
  w_sid :: string
  w_err :: "string option"

definition no_result :: pty_result where
  "no_result = \<lparr>w_opened = False, w_quit = False, w_ended = False, w_sid = [], w_err = None\<rparr>"

datatype js_event = Ev_Open | Ev_Data string | Ev_Text string | Ev_Error | Ev_Close int

record pty_conn =
  n_res :: pty_result
  n_esc :: esc
  n_cols :: int
  n_rows :: int
  n_pending :: "string list"
  n_evs :: "js_event list"
  n_wake :: bool

definition new_conn :: pty_conn where
  "new_conn = \<lparr>n_res = no_result, n_esc = fresh_esc, n_cols = 0, n_rows = 0, n_pending = [],
     n_evs = [], n_wake = False\<rparr>"

datatype effect = Send_Text string | Send_Binary string | Show string

definition post :: "js_event \<Rightarrow> pty_conn \<Rightarrow> pty_conn" where
  "post ev k = k\<lparr>n_evs := n_evs k @ [ev], n_wake := True\<rparr>"

definition take_events :: "pty_conn \<Rightarrow> js_event list \<times> pty_conn" where
  "take_events k = (n_evs k, k\<lparr>n_evs := []\<rparr>)"

text \<open>\<open>ready\<close> is whether the socket's \<^verbatim>\<open>readyState\<close> is open; otherwise a send does nothing.\<close>

definition send_text :: "bool \<Rightarrow> string \<Rightarrow> effect list" where
  "send_text ready b = (if ready then [Send_Text b] else [])"

definition send_binary :: "bool \<Rightarrow> string \<Rightarrow> effect list" where
  "send_binary ready b = (if ready then [Send_Binary b] else [])"

definition send_size :: "bool \<Rightarrow> (int \<times> int) option \<Rightarrow> pty_conn \<Rightarrow> pty_conn \<times> effect list" where
  "send_size ready sz k = (case sz of
     None \<Rightarrow> (k, [])
   | Some (c, r) \<Rightarrow>
       if c > 0 \<and> r > 0 \<and> (c \<noteq> n_cols k \<or> r \<noteq> n_rows k)
       then (k\<lparr>n_cols := c, n_rows := r\<rparr>, send_text ready (resize_message c r))
       else (k, []))"

text \<open>What the connection knows of its surroundings: JSON, the address, the terminal's size.\<close>

record pty_env =
  v_json :: "string \<Rightarrow> control option"
  v_addr :: string

text \<open>One event of the queue; the last component is whether the connection is over.\<close>

fun conn_event :: "pty_env \<Rightarrow> bool \<Rightarrow> (int \<times> int) option \<Rightarrow> js_event \<Rightarrow> pty_conn
    \<Rightarrow> pty_conn \<times> effect list \<times> bool" where
  "conn_event V ready sz Ev_Open k =
     (let k1 = k\<lparr>n_res := (n_res k)\<lparr>w_opened := True\<rparr>\<rparr>
      in case send_size ready sz k1 of (k2, es) \<Rightarrow>
        (k2\<lparr>n_pending := []\<rparr>, es @ concat (map (send_binary ready) (n_pending k2)), False))"
| "conn_event V ready sz (Ev_Data b) k = (k, [Show b], False)"
| "conn_event V ready sz (Ev_Text b) k = (case parse_control (v_json V) b of
     Some m \<Rightarrow>
       (if l_type m = ''session'' \<and> l_id m \<noteq> [] then k\<lparr>n_res := (n_res k)\<lparr>w_sid := l_id m\<rparr>\<rparr> else k,
        [], False)
   | None \<Rightarrow> (k, [Show b], False))"
| "conn_event V ready sz Ev_Error k =
     (if \<not> w_opened (n_res k)
      then k\<lparr>n_res := (n_res k)\<lparr>w_err := Some (''could not connect to '' @ v_addr V)\<rparr>\<rparr> else k,
      [], False)"
| "conn_event V ready sz (Ev_Close code) k =
     (k\<lparr>n_res := (n_res k)\<lparr>w_ended := code = 1000\<rparr>\<rparr>, [], True)"

fun conn_events :: "pty_env \<Rightarrow> bool \<Rightarrow> (int \<times> int) option \<Rightarrow> js_event list \<Rightarrow> pty_conn
    \<Rightarrow> pty_conn \<times> effect list \<times> bool" where
  "conn_events V ready sz [] k = (k, [], False)"
| "conn_events V ready sz (ev # evs) k = (case conn_event V ready sz ev k of (k1, es, over) \<Rightarrow>
     if over then (k1, es, True)
     else (case conn_events V ready sz evs k1 of (k2, es', over') \<Rightarrow> (k2, es @ es', over')))"

text \<open>
  What happens next: a browser callback posts an event, or a branch of the \<^verbatim>\<open>select\<close> runs,
  with the terminal's size at that moment. A branch that is not ready does nothing.
\<close>

datatype sched =
    Do_Post js_event
  | Do_Cancel
  | Do_Tick "(int \<times> int) option"
  | Do_Keys string
  | Do_Wake "(int \<times> int) option"

definition conn_keys :: "bool \<Rightarrow> string \<Rightarrow> pty_conn \<Rightarrow> pty_conn \<times> effect list \<times> bool" where
  "conn_keys ready ks k = (case esc_filter (n_esc k) ks of (e, out, quit) \<Rightarrow>
     (let k1 = k\<lparr>n_esc := e\<rparr>;
          (k2, es) = (if out = [] then (k1, [])
            else if w_opened (n_res k) then (k1, send_binary ready out)
            else (k1\<lparr>n_pending := n_pending k1 @ [out]\<rparr>, []))
      in if quit then (k2\<lparr>n_res := (n_res k2)\<lparr>w_quit := True\<rparr>\<rparr>, es, True) else (k2, es, False)))"

definition conn_step :: "pty_env \<Rightarrow> bool \<Rightarrow> sched \<Rightarrow> pty_conn \<Rightarrow> pty_conn \<times> effect list \<times> bool" where
  "conn_step V ready s k = (case s of
     Do_Post ev \<Rightarrow> (post ev k, [], False)
   | Do_Cancel \<Rightarrow> (k, [], True)
   | Do_Tick sz \<Rightarrow> if w_opened (n_res k)
       then (case send_size ready sz k of (k1, es) \<Rightarrow> (k1, es, False)) else (k, [], False)
   | Do_Keys ks \<Rightarrow> conn_keys ready ks k
   | Do_Wake sz \<Rightarrow> if n_wake k
       then (case take_events (k\<lparr>n_wake := False\<rparr>) of (evs, k1) \<Rightarrow> conn_events V ready sz evs k1)
       else (k, [], False))"

text \<open>\<^verbatim>\<open>connect\<close> over a schedule: the state it ends in, what it did, whether it has returned.\<close>

fun conn_run :: "pty_env \<Rightarrow> (bool \<times> sched) list \<Rightarrow> pty_conn \<Rightarrow> pty_conn \<times> effect list \<times> bool" where
  "conn_run V [] k = (k, [], False)"
| "conn_run V ((ready, s) # ss) k = (case conn_step V ready s k of (k1, es, over) \<Rightarrow>
     if over then (k1, es, True)
     else (case conn_run V ss k1 of (k2, es', over') \<Rightarrow> (k2, es @ es', over')))"

subsection \<open>Reconnecting\<close>

text \<open>Waits in seconds.\<close>

definition retry_wait :: "nat \<Rightarrow> nat" where
  "retry_wait n = (if n \<ge> 4 then 10 else min (2 ^ n) 10)"

datatype pty_act = Connect string | Say string | Wait nat

text \<open>
  How one turn of the loop goes: the result of its connection, whether the context was
  cancelled by then, and whether it is during the wait.
\<close>

type_synonym turn = "pty_result \<times> bool \<times> bool"

fun pty_loop :: "nat \<Rightarrow> string \<Rightarrow> turn list \<Rightarrow> pty_act list \<times> int option" where
  "pty_loop attempt sid [] = ([Connect sid], None)"
| "pty_loop attempt sid ((res, canceled, stop) # ts) =
     (let sid' = (if w_sid res \<noteq> [] then w_sid res else sid);
          attempt' = (if w_opened res then 0 else attempt)
      in if w_quit res then ([Connect sid, Say ''[pty: closed]''], Some 0)
         else if canceled then ([Connect sid], Some 130)
         else if sid' = [] \<or> w_ended res then
           (case w_err res of
             Some m \<Rightarrow> ([Connect sid, Say (''pty: '' @ m)], Some 1)
           | None \<Rightarrow> ([Connect sid, Say ''[pty: session ended]''], Some 0))
         else (let pre = [Connect sid] @ (if attempt' = 0 then [Say ''[pty: reconnecting]''] else [])
                 @ [Wait (retry_wait attempt')]
               in if stop then (pre, Some 130)
                  else (case pty_loop (Suc attempt') sid' ts of (acts, code) \<Rightarrow>
                    (pre @ acts, code))))"

definition trim_arg :: "string \<Rightarrow> string" where
  "trim_arg s = trim_chars (trim_space s) [CHR 0x22, CHR 0x27]"

text \<open>\<^verbatim>\<open>run\<close>: the exit status, \<open>None\<close> while the session goes on, and what it did.\<close>

definition pty_run :: "'u url_lib \<Rightarrow> string \<Rightarrow> string list \<Rightarrow> turn list \<Rightarrow> pty_act list \<times> int option" where
  "pty_run U base args ts = (case args of
     [a] \<Rightarrow>
       if a = ''-h'' \<or> a = ''--help'' then ([Say ''usage''], Some 0)
       else (case web_socket_url U (trim_arg a) base [] of
         Inl e \<Rightarrow> ([Say (''pty: '' @ e)], Some 2)
       | Inr _ \<Rightarrow> pty_loop 0 [] ts)
   | _ \<Rightarrow> ([Say ''usage''], Some 2))"

subsection \<open>The server's side\<close>

datatype pty_do = Set_Size nat nat | To_Shell string | Ignore_Message

definition serve_message :: "(string \<Rightarrow> control option) \<Rightarrow> bool \<Rightarrow> string \<Rightarrow> pty_do" where
  "serve_message unmarshal is_text b =
     (case (if is_text then parse_control unmarshal b else None) of
       Some m \<Rightarrow>
         if l_type m = ''resize'' \<and> l_cols m > 0 \<and> l_rows m > 0 \<and> l_cols m \<le> 0xffff \<and> l_rows m \<le> 0xffff
         then Set_Size (nat (l_cols m)) (nat (l_rows m)) else Ignore_Message
     | None \<Rightarrow> To_Shell b)"

subsection \<open>What crosses the connection\<close>

definition typed :: "(bool \<times> sched) list \<Rightarrow> string" where
  "typed ss = concat (map (\<lambda>p. case snd p of Do_Keys ks \<Rightarrow> ks | _ \<Rightarrow> []) ss)"

definition posted :: "(bool \<times> sched) list \<Rightarrow> js_event list" where
  "posted ss = concat (map (\<lambda>p. case snd p of Do_Post ev \<Rightarrow> [ev] | _ \<Rightarrow> []) ss)"

definition sent :: "effect list \<Rightarrow> string" where
  "sent es = concat (map (\<lambda>x. case x of Send_Binary b \<Rightarrow> b | _ \<Rightarrow> []) es)"

definition shown :: "effect list \<Rightarrow> string" where
  "shown es = concat (map (\<lambda>x. case x of Show b \<Rightarrow> b | _ \<Rightarrow> []) es)"

text \<open>The terminal output an event carries.\<close>

definition event_output :: "pty_env \<Rightarrow> js_event \<Rightarrow> string" where
  "event_output V ev = (case ev of
     Ev_Data b \<Rightarrow> b
   | Ev_Text b \<Rightarrow> (case parse_control (v_json V) b of None \<Rightarrow> b | Some _ \<Rightarrow> [])
   | _ \<Rightarrow> [])"

lemma effect_simps [simp]:
  "sent [] = []" "sent (es @ es') = sent es @ sent es'"
  "sent (Send_Binary b # es) = b @ sent es" "sent (Send_Text b # es) = sent es"
  "sent (Show b # es) = sent es"
  "shown [] = []" "shown (es @ es') = shown es @ shown es'"
  "shown (Send_Binary b # es) = shown es" "shown (Send_Text b # es) = shown es"
  "shown (Show b # es) = b @ shown es"
  by (simp_all add: sent_def shown_def)

lemma send_binaries [simp]:
  "sent (concat (map (send_binary True) bs)) = concat bs"
  "shown (concat (map (send_binary ready) bs)) = []"
  by (induction bs) (auto simp: send_binary_def)

lemma send_size_effect:
  "send_size ready sz k = (k', es) \<Longrightarrow>
   sent es = [] \<and> shown es = [] \<and> n_esc k' = n_esc k \<and> n_pending k' = n_pending k \<and>
   n_res k' = n_res k \<and> n_evs k' = n_evs k \<and> n_wake k' = n_wake k"
  by (auto simp: send_size_def send_text_def split: option.splits if_splits)

text \<open>What handling a batch of events does to a connection, apart from the result it keeps.\<close>

definition delivers :: "pty_conn \<Rightarrow> string \<Rightarrow> pty_conn \<times> effect list \<times> bool \<Rightarrow> bool" where
  "delivers k text p = (case p of (k', es, over) \<Rightarrow>
     n_esc k' = n_esc k \<and> n_evs k' = n_evs k \<and> n_wake k' = n_wake k \<and>
     w_quit (n_res k') = w_quit (n_res k) \<and>
     sent es @ concat (n_pending k') = concat (n_pending k) \<and>
     ((w_opened (n_res k) \<longrightarrow> n_pending k = []) \<longrightarrow> w_opened (n_res k') \<longrightarrow> n_pending k' = []) \<and>
     (if over then has_prefix text (shown es) else shown es = text))"

lemma deliversD:
  assumes "delivers k text (k', es, over)"
  shows "n_esc k' = n_esc k" "n_evs k' = n_evs k" "n_wake k' = n_wake k"
    "w_quit (n_res k') = w_quit (n_res k)"
    "sent es @ concat (n_pending k') = concat (n_pending k)"
    "(w_opened (n_res k) \<longrightarrow> n_pending k = []) \<Longrightarrow> w_opened (n_res k') \<longrightarrow> n_pending k' = []"
    "has_prefix text (shown es)" "\<not> over \<Longrightarrow> shown es = text"
  using assms unfolding delivers_def by (auto simp: has_prefix_def split: if_splits)

lemma delivers_open: "delivers k [] (conn_event V True sz Ev_Open k)"
proof -
  let ?k = "k\<lparr>n_res := (n_res k)\<lparr>w_opened := True\<rparr>\<rparr>"
  obtain k2 es where s: "send_size True sz ?k = (k2, es)" by (cases "send_size True sz ?k") auto
  from send_size_effect [OF s] s show ?thesis by (simp add: delivers_def)
qed

lemma delivers_event: "delivers k (event_output V ev) (conn_event V True sz ev k)"
proof (cases ev)
  case Ev_Open
  then show ?thesis using delivers_open by (simp add: event_output_def)
next
  case (Ev_Text b)
  then show ?thesis
    by (cases "parse_control (v_json V) b") (simp_all add: event_output_def delivers_def)
qed (simp_all add: event_output_def delivers_def)

lemma delivers_events:
  "delivers k (concat (map (event_output V) evs)) (conn_events V True sz evs k)"
proof (induction evs arbitrary: k)
  case Nil
  then show ?case by (simp add: delivers_def)
next
  case (Cons ev evs)
  obtain k1 e1 o1 where 1: "conn_event V True sz ev k = (k1, e1, o1)"
    by (cases "conn_event V True sz ev k") auto
  obtain k2 e2 o2 where 2: "conn_events V True sz evs k1 = (k2, e2, o2)"
    by (cases "conn_events V True sz evs k1") auto
  have "delivers k (event_output V ev) (k1, e1, o1)"
    using delivers_event [of k V ev sz] 1 by simp
  note e1 = deliversD [OF this]
  have "delivers k1 (concat (map (event_output V) evs)) (k2, e2, o2)"
    using Cons [of k1] 2 by simp
  note e2 = deliversD [OF this]
  show ?case
  proof (cases o1)
    case True
    with 1 e1 show ?thesis by (simp add: delivers_def has_prefix_more)
  next
    case False
    have "sent e1 @ sent e2 @ concat (n_pending k2) = concat (n_pending k)"
      using e1(5) e2(5) by simp
    with False 1 2 e1 e2 show ?thesis by (simp add: delivers_def has_prefix_cong)
  qed
qed

text \<open>
  A connection seen from outside: given what was typed and what the browser posted so far,
  what was sent and shown.
\<close>

definition outputs :: "pty_env \<Rightarrow> js_event list \<Rightarrow> string" where
  "outputs V evs = concat (map (event_output V) evs)"

definition conn_live :: "pty_env \<Rightarrow> string \<Rightarrow> js_event list \<Rightarrow> string \<Rightarrow> string \<Rightarrow> pty_conn \<Rightarrow> bool" where
  "conn_live V T P S shn k =
     (esc_filter fresh_esc T = (n_esc k, S @ concat (n_pending k), False) \<and>
      \<not> w_quit (n_res k) \<and> (w_opened (n_res k) \<longrightarrow> n_pending k = []) \<and>
      (n_evs k \<noteq> [] \<longrightarrow> n_wake k) \<and> shn @ outputs V (n_evs k) = outputs V P)"

definition conn_done :: "pty_env \<Rightarrow> string \<Rightarrow> js_event list \<Rightarrow> string \<Rightarrow> string \<Rightarrow> pty_conn \<Rightarrow> bool" where
  "conn_done V T P S shn k =
     (snd (esc_filter fresh_esc T) = (S @ concat (n_pending k), w_quit (n_res k)) \<and>
      has_prefix (outputs V P) shn)"

lemma outputs_append [simp]: "outputs V (a @ b) = outputs V a @ outputs V b"
  by (simp add: outputs_def)

lemma outputs_Nil [simp]: "outputs V [] = []"
  by (simp add: outputs_def)

lemma conn_live_done:
  assumes "conn_live V T P S shn k"
  shows "conn_done V T P S shn k"
proof -
  have "outputs V P = shn @ outputs V (n_evs k)" using assms by (simp add: conn_live_def)
  with assms show ?thesis by (simp add: conn_live_def conn_done_def)
qed

lemma conn_keys_view:
  assumes "conn_live V T P S shn k" "conn_keys True ks k = (k', es, over)"
  shows "if over then conn_done V (T @ ks) P (S @ sent es) (shn @ shown es) k'
    else conn_live V (T @ ks) P (S @ sent es) (shn @ shown es) k'"
proof -
  obtain e out quit where f: "esc_filter (n_esc k) ks = (e, out, quit)"
    by (cases "esc_filter (n_esc k) ks") auto
  have t: "esc_filter fresh_esc (T @ ks) = (e, S @ concat (n_pending k) @ out, quit)"
    using assms(1) f ptyf.feed_append [of fresh_esc T ks] by (simp add: conn_live_def)
  have "has_prefix (outputs V P) shn"
    using conn_live_done [OF assms(1)] by (simp add: conn_done_def)
  with assms f t show ?thesis
    by (cases quit; cases "out = []"; cases "w_opened (n_res k)")
      (auto simp: conn_live_def conn_done_def conn_keys_def Let_def send_binary_def)
qed

lemma conn_step_view:
  assumes live: "conn_live V T P S shn k" and step: "conn_step V True s k = (k', es, over)"
  shows "if over then conn_done V (T @ typed [(True, s)]) (P @ posted [(True, s)]) (S @ sent es) (shn @ shown es) k'
    else conn_live V (T @ typed [(True, s)]) (P @ posted [(True, s)]) (S @ sent es) (shn @ shown es) k'"
proof (cases s)
  case (Do_Keys ks)
  then show ?thesis
    using conn_keys_view [OF live, of ks] step by (simp add: conn_step_def typed_def posted_def)
next
  case (Do_Wake sz)
  show ?thesis
  proof (cases "n_wake k")
    case True
    let ?k = "k\<lparr>n_wake := False, n_evs := []\<rparr>"
    have "delivers ?k (outputs V (n_evs k)) (k', es, over)"
      using delivers_events [of ?k V "n_evs k" sz] step True Do_Wake
      by (simp add: conn_step_def take_events_def outputs_def)
    note d = deliversD [OF this]
    have S: "(S @ sent es) @ concat (n_pending k') = S @ concat (n_pending k)"
      using d(5) by simp
    have "has_prefix (outputs V P) (shn @ shown es)"
      using live d(7) by (metis conn_live_def has_prefix_cong)
    with live d S Do_Wake show ?thesis
      by (simp add: conn_live_def conn_done_def typed_def posted_def)
  next
    case False
    with live step Do_Wake show ?thesis by (simp add: conn_step_def typed_def posted_def)
  qed
next
  case (Do_Tick sz)
  obtain k1 es1 where t: "send_size True sz k = (k1, es1)" by (cases "send_size True sz k") auto
  with live step Do_Tick send_size_effect [OF t] show ?thesis
    by (simp add: conn_step_def conn_live_def typed_def posted_def split: if_splits)
next
  case (Do_Post ev)
  with live step show ?thesis
    by (clarsimp simp: conn_step_def conn_live_def post_def typed_def posted_def)
next
  case Do_Cancel
  with step conn_live_done [OF live] show ?thesis
    by (simp add: conn_step_def typed_def posted_def)
qed

lemma conn_run_view:
  assumes "conn_live V T P S shn k" "conn_run V ss k = (k', es, over)" "list_all fst ss"
  shows "if over
    then \<exists>n. conn_done V (T @ typed (take n ss)) (P @ posted (take n ss)) (S @ sent es) (shn @ shown es) k'
    else conn_live V (T @ typed ss) (P @ posted ss) (S @ sent es) (shn @ shown es) k'"
  using assms
proof (induction ss arbitrary: T P S shn k es)
  case Nil
  then show ?case by (simp add: typed_def posted_def)
next
  case (Cons p ss)
  obtain s where p: "p = (True, s)" using Cons.prems(3) by (cases p) auto
  obtain k1 e1 o1 where 1: "conn_step V True s k = (k1, e1, o1)"
    by (cases "conn_step V True s k") auto
  have ty: "typed (p # ss) = typed [(True, s)] @ typed ss" "posted (p # ss) = posted [(True, s)] @ posted ss"
    for ss by (simp_all add: typed_def posted_def p)
  note v = conn_step_view [OF Cons.prems(1) 1]
  show ?case
  proof (cases o1)
    case True
    with Cons.prems 1 p v show ?thesis by (auto intro!: exI [of _ 1])
  next
    case False
    then obtain e2 where 2: "conn_run V ss k1 = (k', e2, over)" "es = e1 @ e2"
      using Cons.prems(2) p 1 by (auto split: prod.splits)
    from False v have "conn_live V (T @ typed [(True, s)]) (P @ posted [(True, s)])
      (S @ sent e1) (shn @ shown e1) k1" by simp
    from Cons.IH [OF this 2(1)] Cons.prems(3) 2 have IH: "if over
      then \<exists>n. conn_done V (T @ typed (take (Suc n) (p # ss))) (P @ posted (take (Suc n) (p # ss)))
        (S @ sent es) (shn @ shown es) k'
      else conn_live V (T @ typed (p # ss)) (P @ posted (p # ss)) (S @ sent es) (shn @ shown es) k'"
      by (cases over) (simp_all add: ty)
    then show ?thesis by (cases over) (simp_all only: if_True if_False, blast)
  qed
qed

lemma conn_live_new: "conn_live V [] [] [] [] new_conn"
  by (simp add: conn_live_def new_conn_def no_result_def esc_filter_def)

lemma conn_run_append:
  "conn_run V (a @ b) k = (case conn_run V a k of (k1, es, over) \<Rightarrow>
     if over then (k1, es, True)
     else (case conn_run V b k1 of (k2, es', over') \<Rightarrow> (k2, es @ es', over')))"
  by (induction V a k rule: conn_run.induct) (simp_all split: prod.split)

text \<open>
  What \<^verbatim>\<open>send\<close> is handed on the way, chunk by chunk, each with whether the socket was open for it:
  the keys typed once the connection is open, and those kept for its opening when it opens.
\<close>

definition binaries :: "effect list \<Rightarrow> string list" where
  "binaries es = concat (map (\<lambda>x. case x of Send_Binary b \<Rightarrow> [b] | _ \<Rightarrow> []) es)"

fun handed :: "pty_env \<Rightarrow> (bool \<times> sched) list \<Rightarrow> pty_conn \<Rightarrow> (bool \<times> string) list" where
  "handed V [] k = []"
| "handed V ((ready, s) # ss) k = (case conn_step V True s k of (k1, es, over) \<Rightarrow>
     map (Pair ready) (binaries es) @ (if over then [] else handed V ss k1))"

text \<open>A socket that is not open takes nothing; all else goes the same way.\<close>

definition if_ready :: "bool \<Rightarrow> effect list \<Rightarrow> effect list" where
  "if_ready ready es = (if ready then es else filter (\<lambda>x. case x of Show b \<Rightarrow> True | _ \<Rightarrow> False) es)"

lemma if_ready_simps [simp]:
  "if_ready r [] = []" "if_ready r (a @ b) = if_ready r a @ if_ready r b" "if_ready r [Show x] = [Show x]"
  "if_ready True es = es" "if_ready r (send_binary True x) = send_binary r x"
  "if_ready r (send_text True x) = send_text r x"
  by (simp_all add: if_ready_def send_binary_def send_text_def)

lemma if_ready_binaries: "if_ready r (concat (map (send_binary True) bs)) = concat (map (send_binary r) bs)"
  by (induction bs) simp_all

lemma send_size_ready:
  "send_size r sz k = (case send_size True sz k of (k1, es) \<Rightarrow> (k1, if_ready r es))"
  by (simp add: send_size_def split: option.split prod.split)

lemma conn_event_ready:
  "conn_event V r sz ev k = (case conn_event V True sz ev k of (k1, es, over) \<Rightarrow> (k1, if_ready r es, over))"
proof (cases ev)
  case Ev_Open
  then show ?thesis by (simp add: send_size_ready [of r] if_ready_binaries split: prod.split)
next
  case (Ev_Text b)
  then show ?thesis by (cases "parse_control (v_json V) b") simp_all
qed simp_all

lemma conn_events_ready:
  "conn_events V r sz evs k = (case conn_events V True sz evs k of (k1, es, over) \<Rightarrow> (k1, if_ready r es, over))"
  by (induction evs arbitrary: k) (simp_all add: conn_event_ready [of V r] split: prod.split)

lemma conn_step_ready:
  "conn_step V r s k = (case conn_step V True s k of (k1, es, over) \<Rightarrow> (k1, if_ready r es, over))"
proof (cases s)
  case (Do_Keys ks)
  then show ?thesis by (simp add: conn_step_def conn_keys_def Let_def split: prod.split)
qed (simp_all add: conn_step_def send_size_ready [of r] conn_events_ready [of V r] split: prod.split)

lemma binaries_append [simp]: "binaries (a @ b) = binaries a @ binaries b"
  by (simp add: binaries_def)

lemma sent_binaries: "sent es = concat (binaries es)"
  by (induction es) (simp_all add: binaries_def sent_def split: effect.split)

lemma if_ready_seen: "shown (if_ready r es) = shown es" "sent (if_ready r es) = (if r then sent es else [])"
proof (induction es)
  case (Cons e es)
  case 1 then show ?case using Cons(1) by (cases e; cases r) (simp_all add: if_ready_def)
  case 2 then show ?case using Cons(2) by (cases e; cases r) (simp_all add: if_ready_def)
qed simp_all

lemma handed_sent:
  "conn_run V ss k = (k', es, over) \<Longrightarrow>
   \<exists>es'. conn_run V (map (\<lambda>p. (True, snd p)) ss) k = (k', es', over) \<and> shown es' = shown es \<and>
     sent es' = concat (map snd (handed V ss k)) \<and> sent es = concat (map snd (filter fst (handed V ss k)))"
proof (induction ss arbitrary: k es)
  case (Cons p ss)
  obtain r s where p: "p = (r, s)" by fastforce
  obtain k1 e1 o1 where 1: "conn_step V True s k = (k1, e1, o1)"
    by (cases "conn_step V True s k") auto
  have r: "conn_step V r s k = (k1, if_ready r e1, o1)" using conn_step_ready [of V r s k] 1 by simp
  have b: "concat (map snd (map (Pair r) (binaries e1))) = sent e1"
    "concat (map snd (filter fst (map (Pair r) (binaries e1)))) = (if r then sent e1 else [])"
    by (simp_all add: comp_def sent_binaries)
  show ?case
  proof (cases o1)
    case True
    with Cons.prems 1 r b show ?thesis by (auto simp: p if_ready_seen)
  next
    case False
    then obtain e2 where 2: "conn_run V ss k1 = (k', e2, over)" "es = if_ready r e1 @ e2"
      using Cons.prems r by (auto simp: p split: prod.splits)
    from Cons.IH [OF 2(1)] obtain e3 where 3: "conn_run V (map (\<lambda>p. (True, snd p)) ss) k1 = (k', e3, over)"
      "shown e3 = shown e2" "sent e3 = concat (map snd (handed V ss k1))"
      "sent e2 = concat (map snd (filter fst (handed V ss k1)))" by blast
    with False 1 2 b show ?thesis by (simp add: p if_ready_seen)
  qed
qed simp

lemma typed_ready: "typed (map (\<lambda>p. (True, snd p)) ss) = typed ss" "posted (map (\<lambda>p. (True, snd p)) ss) = posted ss"
  by (induction ss) (auto simp: typed_def posted_def)

text \<open>A connection that was lost: neither the person nor the server ended it.\<close>

definition lost :: "turn \<Rightarrow> bool" where
  "lost t = (case t of (res, canceled, stop) \<Rightarrow>
     \<not> w_quit res \<and> \<not> w_ended res \<and> \<not> canceled \<and> \<not> stop)"

definition connects :: "pty_act list \<Rightarrow> string list" where
  "connects acts = concat (map (\<lambda>a. case a of Connect sid \<Rightarrow> [sid] | _ \<Rightarrow> []) acts)"

definition waits :: "pty_act list \<Rightarrow> nat list" where
  "waits acts = concat (map (\<lambda>a. case a of Wait n \<Rightarrow> [n] | _ \<Rightarrow> []) acts)"

text \<open>The session id a reconnection uses: the last one the server gave.\<close>

fun session_ids :: "string \<Rightarrow> turn list \<Rightarrow> string list" where
  "session_ids sid [] = [sid]"
| "session_ids sid (t # ts) =
     sid # session_ids (if w_sid (fst t) \<noteq> [] then w_sid (fst t) else sid) ts"

text \<open>How many attempts in a row have failed to open, at each wait.\<close>

fun failures :: "nat \<Rightarrow> turn list \<Rightarrow> nat list" where
  "failures n [] = []"
| "failures n (t # ts) =
     (let n' = (if w_opened (fst t) then 0 else n) in n' # failures (Suc n') ts)"

lemma act_simps [simp]:
  "connects [] = []" "connects (Connect s # as) = s # connects as"
  "connects (Say m # as) = connects as" "connects (Wait n # as) = connects as"
  "waits [] = []" "waits (Connect s # as) = waits as"
  "waits (Say m # as) = waits as" "waits (Wait n # as) = n # waits as"
  by (simp_all add: connects_def waits_def)

lemma retry_wait_bounds: "1 \<le> retry_wait n \<and> retry_wait n \<le> 10 \<and> retry_wait n = min (2 ^ n) 10"
proof (cases "n \<ge> 4")
  case True
  then have "2 ^ 4 \<le> (2 ^ n :: nat)" by (intro power_increasing) auto
  with True show ?thesis by (simp add: retry_wait_def)
next
  case False
  then have "n \<in> {0, 1, 2, 3}" by auto
  then show ?thesis by (auto simp: retry_wait_def)
qed

lemma pty_loop_lost:
  "\<lbrakk>list_all lost ts; sid \<noteq> []\<rbrakk> \<Longrightarrow>
   (case pty_loop n sid ts of (acts, code) \<Rightarrow>
     code = None \<and> connects acts = session_ids sid ts \<and> waits acts = map retry_wait (failures n ts))"
  by (induction n sid ts rule: pty_loop.induct)
    (auto simp: lost_def Let_def split: prod.splits)

subsection \<open>Properties\<close>

text \<open>
  C37. Over any interleaving of keys, browser events, size checks and turns of the select, and
  whatever the socket's state at each: what a connection has handed to its socket together with
  the keys it keeps for its opening is what the escape filter makes of the keys typed, in order,
  each once; what it has sent is that without the chunks handed over while the socket was not
  open, which are lost whole; the connection ends by an escape exactly where one was typed; and
  what it has shown is a prefix of what the server sent.
\<close>

theorem pty_connection_order:
  assumes "conn_run V ss new_conn = (k, es, over)"
  shows "\<exists>n. (over \<or> take n ss = ss) \<and>
    esc_ref (typed (take n ss)) =
      (concat (map snd (handed V ss new_conn)) @ concat (n_pending k), w_quit (n_res k)) \<and>
    sent es = concat (map snd (filter fst (handed V ss new_conn))) \<and>
    has_prefix (outputs V (posted (take n ss))) (shown es)"
proof -
  let ?up = "map (\<lambda>p. (True, snd p)) ss"
  obtain es' where up: "conn_run V ?up new_conn = (k, es', over)" "shown es' = shown es"
    "sent es' = concat (map snd (handed V ss new_conn))" "sent es = concat (map snd (filter fst (handed V ss new_conn)))"
    using handed_sent [OF assms] by blast
  have "if over then \<exists>n. conn_done V (typed (take n ?up)) (posted (take n ?up)) (sent es') (shown es') k
    else conn_live V (typed ?up) (posted ?up) (sent es') (shown es') k"
    using conn_run_view [OF conn_live_new up(1)] by (cases over) (simp_all add: list_all_iff)
  then obtain n where "over \<or> take n ss = ss"
    "conn_done V (typed (take n ?up)) (posted (take n ?up)) (sent es') (shown es') k"
    using conn_live_done by (cases over) (auto intro: that [of "length ss"])
  then show ?thesis
    using up(2-4) unfolding take_map typed_ready by (metis conn_done_def esc_filter_ref)
qed

definition example_env :: pty_env where
  "example_env = \<lparr>v_json = (\<lambda>b. if b = ''{s}'' then Some (no_control\<lparr>l_type := ''session'', l_id := ''7''\<rparr>) else None),
     v_addr = ''ws://host/pty''\<rparr>"

definition example_schedule :: "(bool \<times> sched) list" where
  "example_schedule = map (Pair True)
     [Do_Keys ''l'', Do_Post Ev_Open, Do_Keys ''s'', Do_Post (Ev_Text ''{s}''), Do_Wake (Some (80, 24)),
      Do_Post (Ev_Data ''ok''), Do_Keys ''~'', Do_Wake None, Do_Keys [CHR 0x0D], Do_Keys ''~.'']"

text \<open>The socket starts to close after the letters: the key typed then is lost.\<close>

definition closing_schedule :: "(bool \<times> sched) list" where
  "closing_schedule = take 5 example_schedule @ [(False, Do_Keys ''x'')] @ drop 8 example_schedule"

lemma pty_connection_order_witness:
  "\<exists>k es. conn_run example_env closing_schedule new_conn = (k, es, True) \<and> sent es = ''ls'' @ [CHR 0x0D] \<and>
     (\<exists>n. esc_ref (typed (take n closing_schedule)) = (''lsx'' @ [CHR 0x0D], True))"
proof -
  let ?ss = closing_schedule
  obtain k es over where r: "conn_run example_env ?ss new_conn = (k, es, over)"
    by (cases "conn_run example_env ?ss new_conn") auto
  have c: "map_prod (\<lambda>k. (concat (n_pending k), w_quit (n_res k))) snd (conn_run example_env ?ss new_conn) = (([], True), True)"
    "handed example_env ?ss new_conn = [(True, ''l''), (True, ''s''), (False, ''x''), (True, [CHR 0x0D])]"
    by code_simp+
  then have k: "concat (n_pending k) = []" "w_quit (n_res k)" "over" by (simp_all add: r)
  from pty_connection_order [OF r [unfolded k(3)]] c(2) k show ?thesis using r by auto
qed

text \<open>
  No event of the browser is stranded in the queue: after any schedule the select's
  wake-up branch can run, and one turn of it empties the queue, so that everything the
  server has sent is on the terminal.
\<close>

lemma pty_queue_drains:
  assumes "conn_run V (ss @ [(True, Do_Wake sz)]) new_conn = (k, es, False)" and "list_all fst ss"
  shows "n_evs k = [] \<and> shown es = outputs V (posted ss)"
proof -
  obtain k1 e1 where 1: "conn_run V ss new_conn = (k1, e1, False)"
    using assms(1) by (auto simp: conn_run_append split: prod.splits if_splits)
  have l1: "conn_live V (typed ss) (posted ss) (sent e1) (shown e1) k1"
    using conn_run_view [OF conn_live_new 1 assms(2)] by simp
  obtain e2 where 2: "conn_step V True (Do_Wake sz) k1 = (k, e2, False)" "es = e1 @ e2"
    using assms(1) 1 by (auto simp: conn_run_append split: prod.splits if_splits)
  have "n_evs k = []"
  proof (cases "n_wake k1")
    case True
    let ?k = "k1\<lparr>n_wake := False, n_evs := []\<rparr>"
    have "delivers ?k (outputs V (n_evs k1)) (k, e2, False)"
      using delivers_events [of ?k V "n_evs k1" sz] 2 True
      by (simp add: conn_step_def take_events_def outputs_def)
    from deliversD(2) [OF this] show ?thesis by simp
  next
    case False
    with l1 2 show ?thesis by (auto simp: conn_live_def conn_step_def)
  qed
  moreover have "shown es @ outputs V (n_evs k) = outputs V (posted ss)"
    using conn_step_view [OF l1 2(1)] 2(2) by (simp add: conn_live_def posted_def)
  ultimately show ?thesis by simp
qed

lemma pty_queue_drains_witness:
  "\<exists>k es. conn_run example_env (take 7 example_schedule @ [(True, Do_Wake None)]) new_conn = (k, es, False) \<and>
     n_evs k = [] \<and> shown es = ''ok''"
proof -
  let ?ss = "take 7 example_schedule"
  obtain k es over where r: "conn_run example_env (?ss @ [(True, Do_Wake None)]) new_conn = (k, es, over)"
    by (cases "conn_run example_env (?ss @ [(True, Do_Wake None)]) new_conn") auto
  have "\<not> snd (snd (conn_run example_env (?ss @ [(True, Do_Wake None)]) new_conn))" by code_simp
  then have r': "conn_run example_env (?ss @ [(True, Do_Wake None)]) new_conn = (k, es, False)"
    using r by simp
  have "list_all fst ?ss" "outputs example_env (posted ?ss) = ''ok''" by code_simp+
  with pty_queue_drains [OF r'] r' show ?thesis by auto
qed

text \<open>
  A session that has an id survives every drop: as long as connections are only lost,
  the applet neither ends nor gives up, each new connection asks for the last session id
  the server gave, and before the attempt that follows k failures in a row it waits
  min(2^k, 10) seconds.
\<close>

lemma pty_keeps_trying:
  assumes "list_all lost ts" and "sid \<noteq> []"
  shows "case pty_loop n sid ts of (acts, code) \<Rightarrow>
    code = None \<and> connects acts = session_ids sid ts \<and>
    waits acts = map (\<lambda>k. min (2 ^ k) 10) (failures n ts)"
proof -
  have "retry_wait = (\<lambda>k. min (2 ^ k) 10)" using retry_wait_bounds by auto
  with pty_loop_lost [OF assms, of n] show ?thesis by simp
qed

lemma pty_keeps_trying_witness:
  "waits (fst (pty_loop 0 ''7'' (replicate 5 (no_result, False, False)))) = [1, 2, 4, 8, 10]"
  using pty_keeps_trying [of "replicate 5 (no_result, False, False)" "''7''" 0]
  by (simp add: lost_def no_result_def numeral_eq_Suc split: prod.splits)

end
