(* ===== verification/Ssh_Tty.thy ===== *)
theory Ssh_Tty
  imports Go_Text
begin

text \<open>
  The prompts of the ssh client on a raw terminal (\<^verbatim>\<open>shell/ssh/tty.go\<close>): a line read a
  byte at a time with its erase keys, the password that is not echoed, and the yes/no
  question. The terminal is the list of what its reads give; a list that ends is a terminal
  with nothing typed yet.
\<close>

datatype tty_err = Interrupted | Eof | Read_Failed string

datatype tty_read = Rd_Byte char | Rd_Nothing | Rd_Error tty_err

datatype line_res = Line string | Line_Error tty_err | Waiting

definition tty_print :: "string \<Rightarrow> string" where
  "tty_print s = replace_byte s (CHR 0x0A) [CHR 0x0D, CHR 0x0A]"

definition erase_one :: string where
  "erase_one = [CHR 0x08, CHR '' '', CHR 0x08]"

text \<open>The loop of \<^verbatim>\<open>readLine\<close>: its result, the reads left, and what it wrote.\<close>

fun read_line_loop :: "bool \<Rightarrow> string \<Rightarrow> tty_read list \<Rightarrow> line_res \<times> tty_read list \<times> string" where
  "read_line_loop ec line [] = (Waiting, [], [])"
| "read_line_loop ec line (Rd_Nothing # rs) = read_line_loop ec line rs"
| "read_line_loop ec line (Rd_Error e # rs) =
     ((if e = Eof \<and> line \<noteq> [] then Line line else Line_Error e), rs, tty_print [CHR 0x0A])"
| "read_line_loop ec line (Rd_Byte c # rs) =
     (if c = CHR 0x0D \<or> c = CHR 0x0A then (Line line, rs, tty_print [CHR 0x0A])
      else if c = CHR 0x03 then (Line_Error Interrupted, rs, tty_print (''^C'' @ [CHR 0x0A]))
      else if c = CHR 0x04 then
        (if line = [] then (Line_Error Eof, rs, tty_print [CHR 0x0A]) else read_line_loop ec line rs)
      else if c = CHR 0x7F \<or> c = CHR 0x08 then
        (if line \<noteq> [] then
           (case read_line_loop ec (butlast line) rs of (res, rest, w) \<Rightarrow>
             (res, rest, (if ec then tty_print erase_one else []) @ w))
         else read_line_loop ec line rs)
      else if c = CHR 0x15 then
        (case read_line_loop ec [] rs of (res, rest, w) \<Rightarrow>
          (res, rest, (if ec then tty_print (concat (replicate (length line) erase_one)) else []) @ w))
      else if byte_of c < 0x20 then read_line_loop ec line rs
      else (case read_line_loop ec (line @ [c]) rs of (res, rest, w) \<Rightarrow>
        (res, rest, (if ec then [c] else []) @ w)))"

definition tty_read_line :: "string \<Rightarrow> bool \<Rightarrow> tty_read list \<Rightarrow> line_res \<times> tty_read list \<times> string" where
  "tty_read_line prompt ec rs = (case read_line_loop ec [] rs of (res, rest, w) \<Rightarrow>
     (res, rest, tty_print prompt @ w))"

definition tty_password :: "string \<Rightarrow> tty_read list \<Rightarrow> line_res \<times> tty_read list \<times> string" where
  "tty_password prompt rs = tty_read_line prompt False rs"

text \<open>A byte read either ends the loop there or goes on with a new line.\<close>

lemma read_byte_cases:
  obtains (stop) res w where "read_line_loop ec line (Rd_Byte c # rs) = (res, rs, w)"
      "w = tty_print [CHR 0x0A] \<or> w = tty_print (''^C'' @ [CHR 0x0A])"
  | (go) line' w' where "read_line_loop ec line (Rd_Byte c # rs) =
        (case read_line_loop ec line' rs of (res, rest, w) \<Rightarrow> (res, rest, w' @ w))"
      "\<not> ec \<Longrightarrow> w' = []"
proof -
  let ?r = "read_line_loop ec line (Rd_Byte c # rs)"
  have same: "x = (case x of (res, rest, w) \<Rightarrow> (res, rest, [] @ w))" for x :: "line_res \<times> tty_read list \<times> string"
    by (cases x) simp
  consider "c = CHR 0x0D \<or> c = CHR 0x0A" | "c = CHR 0x03" | "c = CHR 0x04" | "c = CHR 0x7F \<or> c = CHR 0x08"
    | "c = CHR 0x15" | "c \<notin> set [CHR 0x0D, CHR 0x0A, CHR 0x03, CHR 0x04, CHR 0x7F, CHR 0x08, CHR 0x15]"
    by auto
  then show thesis
  proof cases
    case 3
    then show thesis using stop go [where line' = line and w' = "[]"] same by (cases "line = []") auto
  next
    case 4
    then show thesis
      using go [where line' = "butlast line" and w' = "if ec then tty_print erase_one else []"] go [where line' = line and w' = "[]"] same
      by (cases "line = []") auto
  next
    case 5
    then show thesis
      using go [where line' = "[]" and w' = "if ec then tty_print (concat (replicate (length line) erase_one)) else []"] by auto
  next
    case 6
    then show thesis
      using go [where line' = "line @ [c]" and w' = "if ec then [c] else []"] go [where line' = line and w' = "[]"] same
      by (cases "byte_of c < 0x20") auto
  qed (use stop in auto)
qed

lemma read_line_loop_rest:
  "length (fst (snd (read_line_loop ec line rs))) \<le> length rs \<and>
   (rs \<noteq> [] \<longrightarrow> length (fst (snd (read_line_loop ec line rs))) < length rs)"
proof (induction rs arbitrary: line)
  case (Cons r rs)
  show ?case
  proof (cases r)
    case (Rd_Byte c)
    from read_byte_cases [of ec line c rs] show ?thesis
    proof cases
      case (go line' w')
      with Rd_Byte Cons [of line'] show ?thesis by (auto split: prod.splits)
    qed (use Rd_Byte in simp)
  qed (use Cons [of line] in auto)
qed simp

lemma tty_read_line_rest:
  "tty_read_line prompt ec rs = (Line l, rest, w) \<Longrightarrow> length rest < length rs"
  using read_line_loop_rest [of ec "[]" rs]
  by (cases rs) (auto simp: tty_read_line_def split: prod.splits)

text \<open>\<^verbatim>\<open>yesNo\<close>: asks again until the answer is yes or no.\<close>

datatype yes_no = Answer bool | Ask_Error tty_err | Ask_Waiting

function tty_yes_no :: "unicode \<Rightarrow> string \<Rightarrow> tty_read list \<Rightarrow> yes_no \<times> tty_read list \<times> string" where
  "tty_yes_no U prompt rs = (case tty_read_line prompt True rs of
     (Waiting, rest, w) \<Rightarrow> (Ask_Waiting, rest, w)
   | (Line_Error e, rest, w) \<Rightarrow> (Ask_Error e, rest, w)
   | (Line ans, rest, w) \<Rightarrow>
       (let a = to_lower U (trim_space ans)
        in if a = ''yes'' then (Answer True, rest, w)
           else if a = ''no'' then (Answer False, rest, w)
           else (case tty_yes_no U (''Please type '' @ [CHR 0x27] @ ''yes'' @ [CHR 0x27] @ '' or '' @
               [CHR 0x27] @ ''no'' @ [CHR 0x27] @ '': '') rest of (res, rest', w') \<Rightarrow> (res, rest', w @ w'))))"
  by pat_completeness auto
termination
  by (relation "measure (\<lambda>(_, _, rs). length rs)") (auto dest: tty_read_line_rest [OF sym])

declare tty_yes_no.simps [simp del]

lemma tty_print_append [simp]: "tty_print (a @ b) = tty_print a @ tty_print b"
  by (simp add: tty_print_def replace_byte_def)

subsection \<open>The line editing of a prompt\<close>

text \<open>What the keys mean: the line they leave, until Enter.\<close>

fun line_keys :: "string \<Rightarrow> string \<Rightarrow> string" where
  "line_keys line [] = line"
| "line_keys line (c # cs) = line_keys
     (if c = CHR 0x7F \<or> c = CHR 0x08 then butlast line
      else if c = CHR 0x15 then []
      else if byte_of c < 0x20 then line
      else line @ [c]) cs"

text \<open>Keys that do not end a line.\<close>

definition line_key :: "char \<Rightarrow> bool" where
  "line_key c = (c \<noteq> CHR 0x0D \<and> c \<noteq> CHR 0x0A \<and> c \<noteq> CHR 0x03 \<and> c \<noteq> CHR 0x04)"

lemma passed_on:
  "\<exists>w. x = (case x of (res :: line_res, rest :: tty_read list, w') \<Rightarrow> (res, rest, w @ w'))"
  by (cases x) (auto intro: exI [of _ "[]"])

lemma read_line_loop_key:
  assumes "line_key k"
  shows "\<exists>w. read_line_loop ec line (Rd_Byte k # rs) =
    (case read_line_loop ec (line_keys line [k]) rs of (res, rest, w') \<Rightarrow> (res, rest, w @ w'))"
proof -
  consider "k = CHR 0x7F" | "k = CHR 0x08" | "k = CHR 0x15"
    | "k \<notin> set [CHR 0x7F, CHR 0x08, CHR 0x15]" by auto
  then show ?thesis
  proof cases
    case 1
    then show ?thesis using passed_on by (cases "line = []") (simp, blast)+
  next
    case 2
    then show ?thesis using passed_on by (cases "line = []") (simp, blast)+
  next
    case 3
    then show ?thesis using passed_on [of "read_line_loop ec [] rs"] by (cases ec) auto
  next
    case 4
    show ?thesis
    proof (cases "byte_of k < 0x20")
      case True
      with 4 assms passed_on [of "read_line_loop ec line rs"] show ?thesis
        by (simp add: line_key_def)
    next
      case False
      with 4 assms show ?thesis
        by (intro exI [of _ "if ec then [k] else []"]) (simp add: line_key_def)
    qed
  qed
qed

lemma read_line_loop_keys:
  "\<lbrakk>\<forall>c \<in> set s. line_key c; c = CHR 0x0D \<or> c = CHR 0x0A\<rbrakk> \<Longrightarrow>
   \<exists>w. read_line_loop ec line (map Rd_Byte s @ Rd_Byte c # rs) = (Line (line_keys line s), rs, w)"
proof (induction s arbitrary: line)
  case (Cons k s)
  obtain w where "read_line_loop ec line (Rd_Byte k # map Rd_Byte s @ Rd_Byte c # rs) =
    (case read_line_loop ec (line_keys line [k]) (map Rd_Byte s @ Rd_Byte c # rs) of
      (res, rest, w') \<Rightarrow> (res, rest, w @ w'))"
    using read_line_loop_key [of k] Cons.prems by fastforce
  moreover obtain w' where "read_line_loop ec (line_keys line [k]) (map Rd_Byte s @ Rd_Byte c # rs) =
      (Line (line_keys (line_keys line [k]) s), rs, w')"
    using Cons.IH [of "line_keys line [k]"] Cons.prems by auto
  ultimately show ?case by simp
qed (elim disjE; simp)

lemma read_line_loop_silent:
  "snd (snd (read_line_loop False line rs)) \<in> {[], tty_print [CHR 0x0A], tty_print (''^C'' @ [CHR 0x0A])}"
proof (induction rs arbitrary: line)
  case (Cons r rs)
  show ?case
  proof (cases r)
    case (Rd_Byte c)
    from read_byte_cases [of False line c rs] show ?thesis
    proof cases
      case (go line' w')
      with Rd_Byte Cons [of line'] show ?thesis by (auto split: prod.splits)
    qed (use Rd_Byte in auto)
  qed (use Cons [of line] in auto)
qed simp

end
