(* ===== verification/Base64.thy ===== *)
theory Base64
  imports Go_Prelude
begin

text \<open>
  Go's \<^verbatim>\<open>base64.StdEncoding\<close> (package \<^verbatim>\<open>encoding/base64\<close>), which carries the payloads of
  the terminal protocol, the hashed names of a known-hosts file and mosh's session key:
  the padded encoding, and the decoder that ignores line breaks and refuses everything
  else. Decoding an encoded text gives it back (\<open>b64_decode_encode\<close>).
\<close>

definition b64_alphabet :: string where
  "b64_alphabet = ''ABCDEFGHIJKLMNOPQRSTUVWXYZabcdefghijklmnopqrstuvwxyz0123456789+/''"

definition b64_char :: "nat \<Rightarrow> char" where
  "b64_char n = b64_alphabet ! n"

definition b64_val :: "char \<Rightarrow> nat option" where
  "b64_val c = index_byte b64_alphabet c"

definition b64_group :: "nat \<Rightarrow> nat \<Rightarrow> nat \<Rightarrow> string" where
  "b64_group a b c =
     [b64_char (a div 4), b64_char (a mod 4 * 16 + b div 16),
      b64_char (b mod 16 * 4 + c div 64), b64_char (c mod 64)]"

fun b64_encode :: "string \<Rightarrow> string" where
  "b64_encode [] = []"
| "b64_encode [a] = take 2 (b64_group (byte_of a) 0 0) @ ''==''"
| "b64_encode [a, b] = take 3 (b64_group (byte_of a) (byte_of b) 0) @ ''=''"
| "b64_encode (a # b # c # s) = b64_group (byte_of a) (byte_of b) (byte_of c) @ b64_encode s"

definition b64_bytes :: "nat \<Rightarrow> nat \<Rightarrow> nat \<Rightarrow> nat \<Rightarrow> string" where
  "b64_bytes p q r s =
     [chr_of (p * 4 + q div 16), chr_of (q mod 16 * 16 + r div 4), chr_of (r mod 4 * 64 + s)]"

fun b64_quanta :: "string \<Rightarrow> string option" where
  "b64_quanta [] = Some []"
| "b64_quanta (w # x # y # z # s) =
     (case (b64_val w, b64_val x) of
       (Some p, Some q) \<Rightarrow>
         if y = CHR ''='' \<and> z = CHR ''='' \<and> s = [] then Some (take 1 (b64_bytes p q 0 0))
         else (case b64_val y of
           None \<Rightarrow> None
         | Some r \<Rightarrow>
             if z = CHR ''='' \<and> s = [] then Some (take 2 (b64_bytes p q r 0))
             else (case b64_val z of
               None \<Rightarrow> None
             | Some t \<Rightarrow> map_option (\<lambda>o1. b64_bytes p q r t @ o1) (b64_quanta s)))
     | _ \<Rightarrow> None)"
| "b64_quanta _ = None"

definition b64_decode :: "string \<Rightarrow> string option" where
  "b64_decode s = b64_quanta (filter (\<lambda>c. c \<noteq> CHR 0x0A \<and> c \<noteq> CHR 0x0D) s)"

lemma b64_table:
  "list_all (\<lambda>n. b64_val (b64_char n) = Some n \<and>
     b64_char n \<notin> set (''=;'' @ [CHR 0x0A, CHR 0x0D, CHR 0x1B, CHR 0x07])) [0..<64]"
  by code_simp

lemma b64_val_char [simp]: "n < 64 \<Longrightarrow> b64_val (b64_char n) = Some n"
  using b64_table by (simp add: list_all_iff)

lemma b64_char_plain [simp]:
  "n < 64 \<Longrightarrow> b64_char n \<noteq> CHR ''=''"
  "n < 64 \<Longrightarrow> b64_char n \<noteq> CHR '';''"
  "n < 64 \<Longrightarrow> b64_char n \<noteq> CHR 0x0A"
  "n < 64 \<Longrightarrow> b64_char n \<noteq> CHR 0x0D"
  "n < 64 \<Longrightarrow> b64_char n \<noteq> CHR 0x1B"
  "n < 64 \<Longrightarrow> b64_char n \<noteq> CHR 0x07"
  using b64_table by (simp_all add: list_all_iff)

lemma b64_digits:
  assumes "a < 256" "b < 256" "c < (256 :: nat)"
  shows "a div 4 < 64" "a mod 4 * 16 + b div 16 < 64" "b mod 16 * 4 + c div 64 < 64" "c mod 64 < 64"
proof -
  have "a div 4 \<le> 63" "a mod 4 \<le> 3" "b div 16 \<le> 15" "b mod 16 \<le> 15" "c div 64 \<le> 3" "c mod 64 \<le> 63"
    using assms by simp_all
  then show "a div 4 < 64" "a mod 4 * 16 + b div 16 < 64" "b mod 16 * 4 + c div 64 < 64" "c mod 64 < 64"
    by linarith+
qed

lemma b64_join: "y < k \<Longrightarrow> (x * k + y) div k = x" "y < k \<Longrightarrow> (x * k + y) mod k = (y :: nat)"
  by simp_all

lemma b64_bytes_group:
  assumes "a < 256" "b < 256" "c < (256 :: nat)"
  shows "b64_bytes (a div 4) (a mod 4 * 16 + b div 16) (b mod 16 * 4 + c div 64) (c mod 64) =
    [chr_of a, chr_of b, chr_of c]"
proof -
  have "b div 16 < 16" "c div 64 < 4" using assms by simp_all
  then show ?thesis
    by (simp only: b64_bytes_def b64_join div_mult_mod_eq)
qed

lemma b64_quanta_encode: "b64_quanta (b64_encode s) = Some s"
proof (induction s rule: b64_encode.induct)
  case (2 a)
  then show ?case
    using b64_bytes_group [of "byte_of a" 0 0] b64_digits [of "byte_of a" 0 0]
    by (simp add: b64_group_def b64_bytes_def)
next
  case (3 a b)
  then show ?case
    using b64_bytes_group [of "byte_of a" "byte_of b" 0] b64_digits [of "byte_of a" "byte_of b" 0]
    by (simp add: b64_group_def b64_bytes_def)
next
  case (4 a b c s)
  then show ?case
    using b64_bytes_group [of "byte_of a" "byte_of b" "byte_of c"]
      b64_digits [of "byte_of a" "byte_of b" "byte_of c"]
    by (simp add: b64_group_def)
qed simp

text \<open>An encoded text has no byte that ends or separates the fields of a sequence.\<close>

lemma b64_encode_plain:
  "set (b64_encode s) \<inter> {CHR '';'', CHR 0x0A, CHR 0x0D, CHR 0x1B, CHR 0x07} = {}"
proof (induction s rule: b64_encode.induct)
  case (2 a)
  then show ?case
    using b64_digits [of "byte_of a" 0 0] b64_char_plain by (auto simp: b64_group_def)
next
  case (3 a b)
  then show ?case
    using b64_digits [of "byte_of a" "byte_of b" 0] b64_char_plain by (auto simp: b64_group_def)
next
  case (4 a b c s)
  then show ?case
    using b64_digits [of "byte_of a" "byte_of b" "byte_of c"] b64_char_plain
    by (auto simp: b64_group_def)
qed simp

lemma b64_decode_encode [simp]: "b64_decode (b64_encode s) = Some s"
proof -
  have "filter (\<lambda>c. c \<noteq> CHR 0x0A \<and> c \<noteq> CHR 0x0D) (b64_encode s) = b64_encode s"
    using b64_encode_plain [of s] by (subst filter_id_conv) auto
  then show ?thesis by (simp add: b64_decode_def b64_quanta_encode)
qed

end
