(* ===== verification/Known_Hosts.thy ===== *)
theory Known_Hosts
  imports Ssh_Tty Base64
begin

text \<open>
  The ssh client's trust in host keys (\<^verbatim>\<open>shell/ssh/knownhosts.go\<close>): the entries of a
  known-hosts file and how a host name matches their patterns, the check of a key with its
  questions and refusals, and the line written for a new host; and the keys it offers with
  the passphrase prompts (\<^verbatim>\<open>shell/ssh/client.go\<close>). Keys, their parsing and the HMAC are
  package \<^verbatim>\<open>golang.org/x/crypto/ssh\<close> and Go's \<^verbatim>\<open>crypto\<close>, the parameter \<open>ssh_lib\<close>; the
  filesystem gives its outcomes as arguments.
\<close>

subsection \<open>Patterns\<close>

text \<open>\<^verbatim>\<open>globMatch\<close>: the star tries the tails of the string from the shortest to the longest.\<close>

fun glob_match :: "string \<Rightarrow> string \<Rightarrow> bool" where
  "glob_match [] s = (s = [])"
| "glob_match (c # p) s =
     (if c = CHR ''*'' then list_ex (\<lambda>i. glob_match p (drop i s)) (rev [0..<Suc (length s)])
      else if c = CHR ''?'' then (case s of [] \<Rightarrow> False | _ # s' \<Rightarrow> glob_match p s')
      else (case s of [] \<Rightarrow> False | d # s' \<Rightarrow> if c \<noteq> d then False else glob_match p s'))"

record 'k ssh_lib =
  z_marshal :: "'k \<Rightarrow> string"
  z_type :: "'k \<Rightarrow> string"
  z_fingerprint :: "'k \<Rightarrow> string"
  z_parse :: "string \<Rightarrow> (string \<times> string list \<times> 'k) option"
  z_line :: "string \<Rightarrow> 'k \<Rightarrow> string"
  z_normalize :: "string \<Rightarrow> string"
  z_hmac :: "string \<Rightarrow> string \<Rightarrow> string"
  z_unicode :: unicode

definition pattern_match :: "'k ssh_lib \<Rightarrow> string \<Rightarrow> string \<Rightarrow> bool" where
  "pattern_match Z p host =
     (if has_prefix p ''|1|'' then
        (case cut_byte (drop 3 p) (CHR ''|'') of (salt64, hash64, ok) \<Rightarrow>
          if \<not> ok then False
          else (case (b64_decode salt64, b64_decode hash64) of
            (Some salt, Some want) \<Rightarrow> z_hmac Z salt host = want
          | _ \<Rightarrow> False))
      else if \<not> contains_any p ''*?'' then equal_fold (z_unicode Z) p host
      else glob_match (to_lower (z_unicode Z) p) (to_lower (z_unicode Z) host))"

fun hosts_match_from :: "'k ssh_lib \<Rightarrow> bool \<Rightarrow> string list \<Rightarrow> string \<Rightarrow> bool" where
  "hosts_match_from Z matched [] host = matched"
| "hosts_match_from Z matched (p # ps) host =
     (let neg = has_prefix p ''!''; p' = trim_prefix p ''!''
      in if \<not> pattern_match Z p' host then hosts_match_from Z matched ps host
         else if neg then False
         else hosts_match_from Z True ps host)"

definition hosts_match :: "'k ssh_lib \<Rightarrow> string list \<Rightarrow> string \<Rightarrow> bool" where
  "hosts_match Z ps host = hosts_match_from Z False ps host"

subsection \<open>The file\<close>

record 'k host_entry =
  j_line :: int
  j_revoked :: bool
  j_hosts :: "string list"
  j_key :: 'k

text \<open>The lines of the file from number \<open>n\<close> on.\<close>

fun parse_entries :: "'k ssh_lib \<Rightarrow> int \<Rightarrow> string list \<Rightarrow> 'k host_entry list" where
  "parse_entries Z n [] = []"
| "parse_entries Z n (raw # raws) =
     (let line = trim_space raw; rest = parse_entries Z (n + 1) raws
      in if line = [] \<or> hd line = CHR ''#'' then rest
         else (case z_parse Z line of
           None \<Rightarrow> rest
         | Some (marker, hosts, key) \<Rightarrow>
             if marker = ''cert-authority'' then rest
             else \<lparr>j_line = n, j_revoked = (marker = ''revoked''), j_hosts = hosts, j_key = key\<rparr> # rest))"

text \<open>A file read: its bytes, that it does not exist, or another error.\<close>

datatype file_read = Contents string | Not_Exist | File_Error string

definition load_known_hosts :: "'k ssh_lib \<Rightarrow> file_read \<Rightarrow> string + 'k host_entry list" where
  "load_known_hosts Z f = (case f of
     Not_Exist \<Rightarrow> Inr []
   | File_Error e \<Rightarrow> Inl e
   | Contents d \<Rightarrow> Inr (parse_entries Z 1 (split_byte d (CHR 0x0A))))"

definition lookup_hosts :: "'k ssh_lib \<Rightarrow> 'k host_entry list \<Rightarrow> string \<Rightarrow> 'k host_entry list" where
  "lookup_hosts Z es host = filter (\<lambda>x. hosts_match Z (j_hosts x) host) es"

definition add_algorithm :: "string list \<Rightarrow> string \<Rightarrow> string list" where
  "add_algorithm algos a = (if a \<in> set algos then algos else algos @ [a])"

definition entry_algorithms :: "'k ssh_lib \<Rightarrow> 'k host_entry \<Rightarrow> string list" where
  "entry_algorithms Z x =
     (if j_revoked x then []
      else if z_type Z (j_key x) = ''ssh-rsa'' then [''rsa-sha2-512'', ''rsa-sha2-256'', ''ssh-rsa'']
      else [z_type Z (j_key x)])"

definition host_algorithms :: "'k ssh_lib \<Rightarrow> 'k host_entry list \<Rightarrow> string \<Rightarrow> string list" where
  "host_algorithms Z es host =
     foldl (\<lambda>algos x. foldl add_algorithm algos (entry_algorithms Z x)) [] (lookup_hosts Z es host)"

text \<open>
  \<^verbatim>\<open>add\<close>: the directory's creation, the file as it is now and what writing new contents
  gives; the error, or the contents the file has then.
\<close>

record host_file =
  r_path :: string
  r_mkdir :: "string option"
  r_file :: file_read
  r_write :: "string \<Rightarrow> string option"

definition add_host :: "'k ssh_lib \<Rightarrow> host_file \<Rightarrow> string \<Rightarrow> 'k \<Rightarrow> string + string" where
  "add_host Z F host key = (case r_mkdir F of
     Some e \<Rightarrow> Inl e
   | None \<Rightarrow> (case r_file F of
       File_Error e \<Rightarrow> Inl e
     | f \<Rightarrow>
         (let data = (case f of Contents d \<Rightarrow> d | _ \<Rightarrow> []);
              data1 = (if data \<noteq> [] \<and> last data \<noteq> CHR 0x0A then data @ [CHR 0x0A] else data);
              data2 = data1 @ z_line Z host key @ [CHR 0x0A]
          in case r_write F data2 of Some e \<Rightarrow> Inl e | None \<Rightarrow> Inr data2)))"

definition key_name :: "'k ssh_lib \<Rightarrow> 'k \<Rightarrow> string" where
  "key_name Z k = (let t = trim_prefix (z_type Z k) ''ssh-''
     in if has_prefix t ''ecdsa'' then ''ECDSA'' else to_upper (z_unicode Z) t)"

subsection \<open>The check\<close>

definition nl :: string where "nl = [CHR 0x0A]"
definition apos :: string where "apos = [CHR 0x27]"

definition warning_rule :: string where
  "warning_rule = replicate 59 (CHR ''@'') @ nl"

definition revoked_text :: "'k ssh_lib \<Rightarrow> string \<Rightarrow> string \<Rightarrow> 'k \<Rightarrow> int \<Rightarrow> string" where
  "revoked_text Z file host key n = warning_rule @
     ''@       WARNING: REVOKED HOST KEY DETECTED!               @'' @ nl @ warning_rule @
     ''The '' @ key_name Z key @ '' host key for '' @ host @ '' is marked as revoked ('' @ file @ '':''
     @ itoa n @ '').'' @ nl"

definition offending_text :: "'k ssh_lib \<Rightarrow> string \<Rightarrow> 'k host_entry \<Rightarrow> string" where
  "offending_text Z file x =
     ''Offending '' @ key_name Z (j_key x) @ '' key in '' @ file @ '':'' @ itoa (j_line x) @ nl"

definition changed_text :: "'k ssh_lib \<Rightarrow> string \<Rightarrow> string \<Rightarrow> 'k \<Rightarrow> 'k host_entry list \<Rightarrow> string" where
  "changed_text Z file display key offending = warning_rule @
     ''@    WARNING: REMOTE HOST IDENTIFICATION HAS CHANGED!     @'' @ nl @ warning_rule @
     ''IT IS POSSIBLE THAT SOMEONE IS DOING SOMETHING NASTY!'' @ nl @
     ''Someone could be eavesdropping on you right now (man-in-the-middle attack)!'' @ nl @
     ''It is also possible that a host key has just been changed.'' @ nl @
     ''The fingerprint for the '' @ key_name Z key @ '' key sent by the remote host is'' @ nl @
     z_fingerprint Z key @ ''.'' @ nl @
     ''Please contact your system administrator.'' @ nl @
     ''Add correct host key in '' @ file @ '' to get rid of this message.'' @ nl @
     concat (map (offending_text Z file) offending) @
     ''Host key for '' @ display @ '' has changed and you have requested strict checking.'' @ nl"

definition unknown_text :: "'k ssh_lib \<Rightarrow> string \<Rightarrow> 'k \<Rightarrow> string" where
  "unknown_text Z display key =
     ''The authenticity of host '' @ apos @ display @ apos @ '' can'' @ apos @ ''t be established.'' @ nl @
     key_name Z key @ '' key fingerprint is '' @ z_fingerprint Z key @ ''.'' @ nl @
     ''This key is not known by any other names.'' @ nl"

datatype verdict = Accept | Refuse string | Prompt_Failed tty_err | Prompt_Waiting

text \<open>
  \<^verbatim>\<open>hostKeyCheck\<close>: the verdict, the entries after it, the contents written to the file if
  any, the reads of the terminal left and what was printed.
\<close>

record 'k check =
  b_verdict :: verdict
  b_entries :: "'k host_entry list"
  b_written :: "string option"
  b_rest :: "tty_read list"
  b_print :: string

text \<open>The loop over the entries that are not revoked: the key is among them, or those offend.\<close>

fun offending_entries :: "'k ssh_lib \<Rightarrow> 'k \<Rightarrow> 'k host_entry list \<Rightarrow> 'k host_entry list option" where
  "offending_entries Z key [] = Some []"
| "offending_entries Z key (x # xs) =
     (if j_revoked x then offending_entries Z key xs
      else if z_marshal Z (j_key x) = z_marshal Z key then None
      else map_option (Cons x) (offending_entries Z key xs))"

definition ask_unknown ::
  "'k ssh_lib \<Rightarrow> host_file \<Rightarrow> string \<Rightarrow> string \<Rightarrow> 'k \<Rightarrow> 'k host_entry list \<Rightarrow> tty_read list \<Rightarrow> 'k check" where
  "ask_unknown Z F display host key es rs =
     (case tty_yes_no (z_unicode Z) ''Are you sure you want to continue connecting (yes/no)? '' rs of
       (ans, rest, w) \<Rightarrow>
        (let shown = tty_print (unknown_text Z display key) @ w;
             r = \<lparr>b_verdict = Prompt_Waiting, b_entries = es, b_written = None, b_rest = rest, b_print = shown\<rparr>
         in case ans of
           Ask_Waiting \<Rightarrow> r
         | Ask_Error e \<Rightarrow> r\<lparr>b_verdict := Prompt_Failed e\<rparr>
         | Answer False \<Rightarrow> r\<lparr>b_verdict := Refuse ''host key verification failed''\<rparr>
         | Answer True \<Rightarrow>
             (let es' = es @ [\<lparr>j_line = 0, j_revoked = False, j_hosts = [host], j_key = key\<rparr>]
              in case add_host Z F host key of
                Inl e \<Rightarrow> r\<lparr>b_verdict := Accept, b_entries := es', b_print := shown @ tty_print
                  (''Failed to add the host to the list of known hosts ('' @ r_path F @ ''): '' @ e @ nl)\<rparr>
              | Inr d \<Rightarrow> r\<lparr>b_verdict := Accept, b_entries := es', b_written := Some d, b_print := shown @ tty_print
                  (''Warning: Permanently added '' @ apos @ host @ apos @ '' ('' @ key_name Z key @
                   '') to the list of known hosts.'' @ nl)\<rparr>)))"

definition host_key_check ::
  "'k ssh_lib \<Rightarrow> host_file \<Rightarrow> string \<Rightarrow> string \<Rightarrow> 'k \<Rightarrow> 'k host_entry list \<Rightarrow> tty_read list \<Rightarrow> 'k check" where
  "host_key_check Z F display hostport key es rs =
     (let host = z_normalize Z hostport; entries = lookup_hosts Z es host;
          r = \<lparr>b_verdict = Accept, b_entries = es, b_written = None, b_rest = rs, b_print = []\<rparr>
      in case filter (\<lambda>x. j_revoked x \<and> z_marshal Z (j_key x) = z_marshal Z key) entries of
        x # _ \<Rightarrow> r\<lparr>b_verdict := Refuse (''host key for '' @ host @ '' is revoked''),
                   b_print := tty_print (revoked_text Z (r_path F) host key (j_line x))\<rparr>
      | [] \<Rightarrow> (case offending_entries Z key entries of
          None \<Rightarrow> r
        | Some [] \<Rightarrow> ask_unknown Z F display host key es rs
        | Some (y # ys) \<Rightarrow> r\<lparr>b_verdict := Refuse ''host key verification failed'',
            b_print := tty_print (changed_text Z (r_path F) display key (y # ys))\<rparr>))"

definition display_host :: "string \<Rightarrow> nat \<Rightarrow> string" where
  "display_host host port =
     (if port = 22 then host else ''['' @ host @ '']:'' @ itoa (int port))"

subsection \<open>Patterns, declaratively\<close>

inductive globs :: "string \<Rightarrow> string \<Rightarrow> bool" where
  globs_Nil: "globs [] []"
| globs_star: "globs p s \<Longrightarrow> globs (CHR ''*'' # p) (t @ s)"
| globs_any: "globs p s \<Longrightarrow> globs (CHR ''?'' # p) (c # s)"
| globs_char: "\<lbrakk>globs p s; c \<noteq> CHR ''*''; c \<noteq> CHR ''?''\<rbrakk> \<Longrightarrow> globs (c # p) (c # s)"

inductive_cases globs_NilE: "globs [] s"
inductive_cases globs_ConsE: "globs (c # p) s"

lemma glob_star: "glob_match (CHR ''*'' # p) s = (\<exists>i \<le> length s. glob_match p (drop i s))"
proof -
  have "glob_match (CHR ''*'' # p) s =
      list_ex (\<lambda>i. glob_match p (drop i s)) (rev [0..<Suc (length s)])"
    by (simp only: glob_match.simps if_P [OF refl])
  also have "\<dots> = (\<exists>i \<le> length s. glob_match p (drop i s))"
    by (auto simp only: list_ex_iff set_rev set_upt atLeastLessThan_iff less_Suc_eq_le)
  finally show ?thesis .
qed

lemma globs_glob_match: "globs p s \<Longrightarrow> glob_match p s"
proof (induction rule: globs.induct)
  case (globs_star p s t)
  then have "glob_match p (drop (length t) (t @ s))" by simp
  then show ?case unfolding glob_star by (intro exI [of _ "length t"]) simp
qed (simp_all del: list_ex_iff)

lemma glob_match_globs: "glob_match p s \<Longrightarrow> globs p s"
proof (induction p arbitrary: s)
  case (Cons c p)
  consider "c = CHR ''*''" | "c = CHR ''?''" | "c \<noteq> CHR ''*''" "c \<noteq> CHR ''?''" by blast
  then show ?case
  proof cases
    case 1
    then obtain i where "glob_match p (drop i s)" using Cons.prems glob_star by auto
    with Cons.IH have "globs (CHR ''*'' # p) (take i s @ drop i s)" by (intro globs_star)
    with 1 show ?thesis by simp
  next
    case 2
    with Cons.prems Cons.IH show ?thesis by (cases s) (auto intro: globs_any)
  next
    case 3
    with Cons.prems Cons.IH show ?thesis by (cases s) (auto intro: globs_char split: if_splits)
  qed
qed (auto intro: globs_Nil)

subsection \<open>Lemmas on the check\<close>

lemma offending_None:
  "offending_entries Z key xs = None \<longleftrightarrow>
   (\<exists>x \<in> set xs. \<not> j_revoked x \<and> z_marshal Z (j_key x) = z_marshal Z key)"
  by (induction xs) auto

lemma offending_Some:
  "offending_entries Z key xs = Some ys \<Longrightarrow> ys = filter (\<lambda>x. \<not> j_revoked x) xs"
  by (induction xs arbitrary: ys) (auto split: if_splits)

lemma offending_empty:
  "offending_entries Z key xs = Some ys \<Longrightarrow> ys = [] \<longleftrightarrow> (\<forall>x \<in> set xs. j_revoked x)"
  using offending_Some [of Z key xs ys] by (auto simp: filter_empty_conv)

definition plain_host :: "'k ssh_lib \<Rightarrow> string \<Rightarrow> bool" where
  "plain_host Z h = (\<not> contains_any h ''*?'' \<and> \<not> has_prefix h ''!'' \<and> \<not> has_prefix h ''|1|'' \<and>
     equal_fold (z_unicode Z) h h)"

lemma plain_host_matches: "plain_host Z h \<Longrightarrow> hosts_match Z [h] h"
  by (simp add: plain_host_def hosts_match_def pattern_match_def trim_prefix_def)

lemma ask_unknown_accept:
  assumes "b_verdict (ask_unknown Z F display host key es rs) = Accept"
  shows "fst (tty_yes_no (z_unicode Z) ''Are you sure you want to continue connecting (yes/no)? '' rs) = Answer True"
    and "b_entries (ask_unknown Z F display host key es rs) =
      es @ [\<lparr>j_line = 0, j_revoked = False, j_hosts = [host], j_key = key\<rparr>]"
  using assms by (auto simp: ask_unknown_def Let_def split: prod.splits yes_no.splits bool.splits sum.splits)

subsection \<open>The file after an addition\<close>

lemma split_byte_at: "split_byte (x @ c # r) c = split_byte x c @ split_byte r c"
proof (induction x)
  case (Cons y x)
  then show ?case by (cases "split_byte x c") auto
qed simp

lemma parse_entries_append:
  "parse_entries Z n (a @ b) = parse_entries Z n a @ parse_entries Z (n + int (length a)) b"
  by (induction a arbitrary: n) (simp_all add: Let_def add.assoc split: option.split prod.split)

lemma trim_space_Nil [simp]: "trim_space [] = []"
  by (simp add: trim_space_def)

text \<open>What the client relies on of the lines the library writes for a host and a key.\<close>

definition line_law :: "'k ssh_lib \<Rightarrow> string \<Rightarrow> 'k \<Rightarrow> bool" where
  "line_law Z host key = (let l = z_line Z host key in
     l \<noteq> [] \<and> is_ascii l \<and> CHR 0x0A \<notin> set l \<and> hd l \<noteq> CHR ''#'' \<and>
     \<not> is_space_rune (byte_of (hd l)) \<and> \<not> is_space_rune (byte_of (last l)) \<and>
     z_parse Z l = Some ([], [host], key))"

lemma parse_line_law:
  assumes "line_law Z host key"
  shows "parse_entries Z n (split_byte (z_line Z host key @ [CHR 0x0A]) (CHR 0x0A)) =
    [\<lparr>j_line = n, j_revoked = False, j_hosts = [host], j_key = key\<rparr>]"
proof -
  have "trim_space (z_line Z host key) = z_line Z host key"
    using assms by (intro trim_space_id) (simp_all add: line_law_def Let_def)
  with assms show ?thesis
    by (simp add: line_law_def Let_def split_byte_append)
qed

subsection \<open>Properties\<close>

text \<open>
  Matching a host pattern is what its characters mean: a star stands for any text, a
  question mark for any one byte, and every other byte for itself; the search for the
  star's text misses nothing and always ends.
\<close>

lemma glob_match_correct: "glob_match p s = globs p s"
  using glob_match_globs globs_glob_match by blast

text \<open>
  C20. A host key is accepted only if no matching entry revokes it and either a matching
  entry holds this very key, or the host has no key at all and the person answered yes.
\<close>

theorem host_key_safe:
  assumes "b_verdict (host_key_check Z F display hostport key es rs) = Accept"
  shows "let entries = lookup_hosts Z es (z_normalize Z hostport);
      same = (\<lambda>x. z_marshal Z (j_key x) = z_marshal Z key)
    in \<not> (\<exists>x \<in> set entries. j_revoked x \<and> same x) \<and>
       ((\<exists>x \<in> set entries. \<not> j_revoked x \<and> same x) \<or>
        (\<forall>x \<in> set entries. j_revoked x) \<and>
        fst (tty_yes_no (z_unicode Z) ''Are you sure you want to continue connecting (yes/no)? '' rs)
          = Answer True)"
proof -
  let ?es = "lookup_hosts Z es (z_normalize Z hostport)"
  let ?same = "\<lambda>x. z_marshal Z (j_key x) = z_marshal Z key"
  have none: "filter (\<lambda>x. j_revoked x \<and> ?same x) ?es = []"
    using assms by (auto simp: host_key_check_def Let_def split: list.splits)
  then have r: "\<not> (\<exists>x \<in> set ?es. j_revoked x \<and> ?same x)" by (simp add: filter_empty_conv)
  show ?thesis
  proof (cases "offending_entries Z key ?es")
    case None
    with r show ?thesis by (auto simp: offending_None Let_def)
  next
    case (Some ys)
    with assms none have ys: "ys = []" and
      "b_verdict (ask_unknown Z F display (z_normalize Z hostport) key es rs) = Accept"
      by (auto simp: host_key_check_def Let_def split: list.splits)
    from ask_unknown_accept(1) [OF this(2)] offending_empty [OF Some] ys r show ?thesis
      by (simp add: Let_def)
  qed
qed

text \<open>
  C21. A host whose key has changed is refused: where matching entries hold keys and none of
  them is the one presented, the check refuses it without asking, writes nothing and leaves
  the entries and the terminal's input as they were.
\<close>

theorem changed_key_refused:
  assumes "\<exists>x \<in> set (lookup_hosts Z es (z_normalize Z hostport)). \<not> j_revoked x"
    and "\<forall>x \<in> set (lookup_hosts Z es (z_normalize Z hostport)). z_marshal Z (j_key x) \<noteq> z_marshal Z key"
  shows "let c = host_key_check Z F display hostport key es rs
    in b_verdict c = Refuse ''host key verification failed'' \<and> b_entries c = es \<and>
       b_written c = None \<and> b_rest c = rs"
proof -
  let ?es = "lookup_hosts Z es (z_normalize Z hostport)"
  have "filter (\<lambda>x. j_revoked x \<and> z_marshal Z (j_key x) = z_marshal Z key) ?es = []"
    using assms(2) by (auto simp only: filter_empty_conv)
  moreover obtain y ys where "offending_entries Z key ?es = Some (y # ys)"
  proof -
    have "offending_entries Z key ?es \<noteq> None" using assms(2) unfolding offending_None by blast
    moreover have "offending_entries Z key ?es \<noteq> Some []" 
      using assms(1) offending_empty [of Z key ?es "[]"] by auto
    ultimately show thesis using that by (metis list.exhaust option.exhaust)
  qed
  ultimately show ?thesis by (simp add: host_key_check_def Let_def)
qed

text \<open>
  A host accepted once is not asked about again: after a check that accepts a key, the
  same key for the same host is accepted without reading the terminal.
\<close>

lemma host_remembered:
  assumes "plain_host Z (z_normalize Z hostport)"
    and "b_verdict (host_key_check Z F display hostport key es rs) = Accept"
  shows "let es' = b_entries (host_key_check Z F display hostport key es rs);
      c = host_key_check Z F display hostport key es' rs'
    in b_verdict c = Accept \<and> b_rest c = rs' \<and> b_print c = []"
proof -
  let ?host = "z_normalize Z hostport"
  let ?same = "\<lambda>x. z_marshal Z (j_key x) = z_marshal Z key"
  let ?es' = "b_entries (host_key_check Z F display hostport key es rs)"
  have none: "filter (\<lambda>x. j_revoked x \<and> ?same x) (lookup_hosts Z es ?host) = []"
    using assms(2) by (auto simp: host_key_check_def Let_def split: list.splits)
  have "\<exists>x \<in> set (lookup_hosts Z ?es' ?host). \<not> j_revoked x \<and> ?same x"
    and "filter (\<lambda>x. j_revoked x \<and> ?same x) (lookup_hosts Z ?es' ?host) = []"
  proof (atomize (full), cases "offending_entries Z key (lookup_hosts Z es ?host)")
    case None
    with none have "?es' = es" by (simp add: host_key_check_def Let_def)
    with None none show "(\<exists>x \<in> set (lookup_hosts Z ?es' ?host). \<not> j_revoked x \<and> ?same x) \<and>
      filter (\<lambda>x. j_revoked x \<and> ?same x) (lookup_hosts Z ?es' ?host) = []"
      by (simp add: offending_None)
  next
    case (Some ys)
    with assms(2) none have ys: "ys = []"
      and a: "b_verdict (ask_unknown Z F display ?host key es rs) = Accept"
      by (auto simp: host_key_check_def Let_def split: list.splits)
    have "?es' = es @ [\<lparr>j_line = 0, j_revoked = False, j_hosts = [?host], j_key = key\<rparr>]"
      using ask_unknown_accept(2) [OF a] Some ys none by (simp add: host_key_check_def Let_def)
    with none plain_host_matches [OF assms(1)]
    show "(\<exists>x \<in> set (lookup_hosts Z ?es' ?host). \<not> j_revoked x \<and> ?same x) \<and>
      filter (\<lambda>x. j_revoked x \<and> ?same x) (lookup_hosts Z ?es' ?host) = []"
      by (simp add: lookup_hosts_def)
  qed
  then show ?thesis
    using offending_None [of Z key "lookup_hosts Z ?es' ?host"]
    by (simp add: host_key_check_def [of Z F display hostport key ?es' rs'] Let_def)
qed

text \<open>
  What is written for an accepted host is what the next session reads: loading the new
  contents of the file gives the entries it had, in order, and after them one entry for
  that host and key, whether or not the old contents ended with a newline.
\<close>

lemma added_host_loads:
  assumes "line_law Z host key" and "load_known_hosts Z (r_file F) = Inr old"
    and "add_host Z F host key = Inr d"
  shows "\<exists>n. load_known_hosts Z (Contents d) =
    Inr (old @ [\<lparr>j_line = n, j_revoked = False, j_hosts = [host], j_key = key\<rparr>])"
proof -
  let ?nl = "CHR 0x0A" and ?l = "z_line Z host key @ [CHR 0x0A]"
  have more: "\<exists>n. parse_entries Z 1 (split_byte (x @ ?nl # ?l) ?nl) =
      parse_entries Z 1 (split_byte x ?nl) @
      [\<lparr>j_line = n, j_revoked = False, j_hosts = [host], j_key = key\<rparr>]" for x
    using parse_line_law [OF assms(1)] by (simp add: split_byte_at parse_entries_append)
  show ?thesis
  proof (cases "\<exists>data. r_file F = Contents data \<and> data \<noteq> []")
    case False
    then have "old = []" "d = ?l"
      using assms(2,3) by (auto simp: add_host_def load_known_hosts_def Let_def
          split: option.splits file_read.splits)
    then show ?thesis
      using parse_line_law [OF assms(1)] by (simp add: load_known_hosts_def)
  next
    case True
    then obtain data where data: "r_file F = Contents data" "data \<noteq> []" by blast
    have old: "old = parse_entries Z 1 (split_byte data ?nl)"
      using assms(2) data by (simp add: load_known_hosts_def)
    show ?thesis
    proof (cases "last data = ?nl")
      case True
      then obtain x where x: "data = x @ [?nl]" using data(2) by (metis append_butlast_last_id)
      then have "d = x @ ?nl # ?l" "old = parse_entries Z 1 (split_byte x ?nl)"
        using assms(3) data old
        by (auto simp: add_host_def Let_def split_byte_at parse_entries_append split: option.splits)
      then show ?thesis using more [of x] by (simp add: load_known_hosts_def)
    next
      case False
      then have "d = data @ ?nl # ?l"
        using assms(3) data by (auto simp: add_host_def Let_def split: option.splits)
      then show ?thesis using more [of data] old by (simp add: load_known_hosts_def)
    qed
  qed
qed

subsection \<open>Witnesses\<close>

definition toy_ssh :: "string ssh_lib" where
  "toy_ssh = \<lparr>z_marshal = (\<lambda>k. k), z_type = (\<lambda>_. ''ssh-ed25519''), z_fingerprint = (\<lambda>k. ''SHA256:'' @ k),
     z_parse = (\<lambda>l. case cut_byte l (CHR '' '') of (h, k, ok) \<Rightarrow> if ok then Some ([], [h], k) else None),
     z_line = (\<lambda>h k. h @ '' '' @ k), z_normalize = (\<lambda>h. h), z_hmac = (\<lambda>_ _. []),
     z_unicode = \<lparr>y_lower = (\<lambda>s. s), y_upper = (\<lambda>s. s), y_fold = (=)\<rparr>\<rparr>"

definition toy_file :: host_file where
  "toy_file = \<lparr>r_path = ''/.ssh/known_hosts'', r_mkdir = None, r_file = Contents ''other K0'', r_write = (\<lambda>_. None)\<rparr>"

definition typed_yes :: "tty_read list" where
  "typed_yes = map Rd_Byte (''Yes'' @ [CHR 0x0D])"

definition toy_entries :: "string host_entry list" where
  "toy_entries = [\<lparr>j_line = 1, j_revoked = False, j_hosts = [''*.net''], j_key = ''K1''\<rparr>]"

lemma toy_accepts: "b_verdict (host_key_check toy_ssh toy_file ''h'' ''h'' ''K2'' toy_entries typed_yes) = Accept"
  by code_simp

lemma host_key_safe_witness:
  "fst (tty_yes_no (z_unicode toy_ssh) ''Are you sure you want to continue connecting (yes/no)? '' typed_yes)
     = Answer True"
proof -
  have "lookup_hosts toy_ssh toy_entries (z_normalize toy_ssh ''h'') = []" by code_simp
  with host_key_safe [OF toy_accepts] show ?thesis by simp
qed

lemma changed_key_refused_witness:
  "b_verdict (host_key_check toy_ssh toy_file ''a.net'' ''a.net'' ''K2'' toy_entries typed_yes) =
     Refuse ''host key verification failed''"
proof -
  have "\<exists>x \<in> set (lookup_hosts toy_ssh toy_entries (z_normalize toy_ssh ''a.net'')). \<not> j_revoked x"
    "\<forall>x \<in> set (lookup_hosts toy_ssh toy_entries (z_normalize toy_ssh ''a.net'')).
       z_marshal toy_ssh (j_key x) \<noteq> z_marshal toy_ssh ''K2''"
    by code_simp+
  from changed_key_refused [OF this] show ?thesis by (simp add: Let_def)
qed

lemma host_remembered_witness:
  "b_rest (host_key_check toy_ssh toy_file ''h'' ''h'' ''K2''
     (b_entries (host_key_check toy_ssh toy_file ''h'' ''h'' ''K2'' toy_entries typed_yes)) typed_yes) = typed_yes"
proof -
  have "plain_host toy_ssh (z_normalize toy_ssh ''h'')" by code_simp
  from host_remembered [OF this toy_accepts] show ?thesis by (simp add: Let_def)
qed

lemma added_host_loads_witness:
  "\<exists>n d. add_host toy_ssh toy_file ''h'' ''K2'' = Inr d \<and> load_known_hosts toy_ssh (Contents d) =
     Inr [\<lparr>j_line = 1, j_revoked = False, j_hosts = [''other''], j_key = ''K0''\<rparr>,
          \<lparr>j_line = n, j_revoked = False, j_hosts = [''h''], j_key = ''K2''\<rparr>]"
proof -
  have law: "line_law toy_ssh ''h'' ''K2''" by code_simp
  have old: "load_known_hosts toy_ssh (r_file toy_file) =
    Inr [\<lparr>j_line = 1, j_revoked = False, j_hosts = [''other''], j_key = ''K0''\<rparr>]" by code_simp
  have "\<not> isl (add_host toy_ssh toy_file ''h'' ''K2'')" by code_simp
  then obtain d where d: "add_host toy_ssh toy_file ''h'' ''K2'' = Inr d"
    by (cases "add_host toy_ssh toy_file ''h'' ''K2''") auto
  from added_host_loads [OF law old d] d show ?thesis by simp
qed

end
