(* ===== verification/Ssh_Keys.thy ===== *)
theory Ssh_Keys
  imports Ssh_Tty
begin

text \<open>
  The keys and answers the ssh client offers a server (\<^verbatim>\<open>shell/ssh/client.go\<close>): the
  private key files loaded in order and once each, the passphrase asked for a locked one,
  the answers to a server's own questions, and the message an authentication failure is
  reduced to. Parsing a private key is package \<^verbatim>\<open>golang.org/x/crypto/ssh\<close>, a parameter.
\<close>

text \<open>What parsing a key file gives: a key, a locked one with its public half if it has it, or an error.\<close>

datatype ('s, 'p) parsed_key = Key 's | Locked "'p option" | Bad_Key string

record ('s, 'p) key_lib =
  kl_parse :: "string \<Rightarrow> ('s, 'p) parsed_key"
  kl_open :: "string \<Rightarrow> string \<Rightarrow> 's option"

datatype ('s, 'p) signer = Signer 's | Locked_Key string string 'p

text \<open>\<^verbatim>\<open>unlock\<close>, with the attempts left: the key, the reads left and what was printed.\<close>

fun unlock :: "nat \<Rightarrow> ('s, 'p) key_lib \<Rightarrow> string \<Rightarrow> string \<Rightarrow> tty_read list
    \<Rightarrow> 's option \<times> tty_read list \<times> string" where
  "unlock 0 K file pem rs = (None, rs, [])"
| "unlock (Suc n) K file pem rs =
     (case tty_password (''Enter passphrase for key '' @ [CHR 0x27] @ file @ [CHR 0x27] @ '': '') rs of
       (Line pass, rest, w) \<Rightarrow>
         if pass = [] then (None, rest, w)
         else (case kl_open K pem pass of
           Some s \<Rightarrow> (Some s, rest, w)
         | None \<Rightarrow>
             (case unlock n K file pem rest of (r, rest', w') \<Rightarrow>
               (r, rest', w @ tty_print (''Bad passphrase, try again for '' @ file @ ''.'' @ [CHR 0x0A]) @ w')))
     | (_, rest, w) \<Rightarrow> (None, rest, w))"

record ('s, 'p) identities =
  id_seen :: "string list"
  id_list :: "('s, 'p) signer list"
  id_rest :: "tty_read list"
  id_print :: string

definition no_identities :: "tty_read list \<Rightarrow> ('s, 'p) identities" where
  "no_identities rs = \<lparr>id_seen = [], id_list = [], id_rest = rs, id_print = []\<rparr>"

text \<open>\<^verbatim>\<open>load\<close>; \<open>fs\<close> reads a file, its error a message.\<close>

definition load_identity :: "('s, 'p) key_lib \<Rightarrow> (string \<Rightarrow> string + string) \<Rightarrow> string \<Rightarrow> bool
    \<Rightarrow> ('s, 'p) identities \<Rightarrow> ('s, 'p) identities" where
  "load_identity K fs file explicit i =
     (if file \<in> set (id_seen i) then i
      else (let i1 = i\<lparr>id_seen := id_seen i @ [file]\<rparr>
        in case fs file of
          Inl e \<Rightarrow> if explicit then i1\<lparr>id_print := id_print i1 @ tty_print
              (''Warning: Identity file '' @ file @ '' not accessible: '' @ e @ ''.'' @ [CHR 0x0A])\<rparr> else i1
        | Inr pem \<Rightarrow> (case kl_parse K pem of
            Key s \<Rightarrow> i1\<lparr>id_list := id_list i1 @ [Signer s]\<rparr>
          | Locked (Some p) \<Rightarrow> i1\<lparr>id_list := id_list i1 @ [Locked_Key file pem p]\<rparr>
          | Locked None \<Rightarrow> (case unlock 3 K file pem (id_rest i1) of (r, rest, w) \<Rightarrow>
              (let i2 = i1\<lparr>id_rest := rest, id_print := id_print i1 @ w\<rparr>
               in case r of None \<Rightarrow> i2 | Some s \<Rightarrow> i2\<lparr>id_list := id_list i2 @ [Signer s]\<rparr>))
          | Bad_Key e \<Rightarrow> i1\<lparr>id_print := id_print i1 @ tty_print
              (''Load key '' @ [CHR 0x22] @ file @ [CHR 0x22] @ '': '' @ e @ [CHR 0x0A])\<rparr>)))"

definition default_identities :: "string list" where
  "default_identities = [''id_ed25519'', ''id_ecdsa'', ''id_rsa'']"

text \<open>The keys \<^verbatim>\<open>Dial\<close> loads; \<open>in_ssh\<close> is the path of a name in the user's \<^verbatim>\<open>.ssh\<close>.\<close>

definition load_identities :: "('s, 'p) key_lib \<Rightarrow> (string \<Rightarrow> string + string) \<Rightarrow> (string \<Rightarrow> string)
    \<Rightarrow> string list \<Rightarrow> tty_read list \<Rightarrow> ('s, 'p) identities" where
  "load_identities K fs in_ssh given rs =
     fold (\<lambda>f. load_identity K fs (in_ssh f) False) default_identities
       (fold (\<lambda>f. load_identity K fs f True) given (no_identities rs))"

text \<open>The keyboard-interactive answers: one line per question, echoed where the server says so.\<close>

fun answer_questions :: "(string \<times> bool) list \<Rightarrow> tty_read list
    \<Rightarrow> (tty_err option + string list) \<times> tty_read list \<times> string" where
  "answer_questions [] rs = (Inr [], rs, [])"
| "answer_questions ((q, ec) # qs) rs = (case tty_read_line q ec rs of
     (Line a, rest, w) \<Rightarrow>
       (case answer_questions qs rest of (r, rest', w') \<Rightarrow>
         ((case r of Inl e \<Rightarrow> Inl e | Inr as \<Rightarrow> Inr (a # as)), rest', w @ w'))
   | (Line_Error e, rest, w) \<Rightarrow> (Inl (Some e), rest, w)
   | (Waiting, rest, w) \<Rightarrow> (Inl None, rest, w))"

definition interactive :: "string \<Rightarrow> string \<Rightarrow> (string \<times> bool) list \<Rightarrow> tty_read list
    \<Rightarrow> (tty_err option + string list) \<times> tty_read list \<times> string" where
  "interactive name instr qs rs = (case answer_questions qs rs of (r, rest, w) \<Rightarrow>
     (r, rest, (if name \<noteq> [] then tty_print (name @ [CHR 0x0A]) else []) @
               (if instr \<noteq> [] then tty_print (instr @ [CHR 0x0A]) else []) @ w))"

text \<open>\<^verbatim>\<open>tidyAuthError\<close>: the message of the error it returns.\<close>

definition tidy_auth_error :: "string \<Rightarrow> string \<Rightarrow> string \<Rightarrow> string" where
  "tidy_auth_error msg user display =
     (let m = trim_prefix msg ''ssh: handshake failed: ''
      in if index_of m ''unable to authenticate'' \<noteq> None
         then user @ ''@'' @ display @ '': permission denied''
         else if index_of m ''interrupted'' \<noteq> None then ''interrupted''
         else m)"

subsection \<open>Lemmas and properties\<close>

lemma tty_password_silent:
  "snd (snd (tty_password prompt rs)) \<in>
     {tty_print prompt, tty_print (prompt @ [CHR 0x0A]), tty_print (prompt @ ''^C'' @ [CHR 0x0A])}"
  using read_line_loop_silent [of "[]" rs]
  by (auto simp: tty_password_def tty_read_line_def split: prod.splits)

text \<open>
  A secret is never shown: whatever is typed at a password prompt, what the terminal is
  sent is the prompt and at most a line end or the mark of an interrupt, the same for every
  secret and every correction of it; and what is typed after the Enter is left for the
  session.
\<close>

lemma password_hidden:
  assumes "\<forall>c \<in> set s. line_key c" and "enter = CHR 0x0D \<or> enter = CHR 0x0A"
  shows "tty_password prompt (map Rd_Byte s @ Rd_Byte enter # rest) =
    (Line (line_keys [] s), rest, tty_print (prompt @ [CHR 0x0A]))"
proof -
  have "snd (snd (read_line_loop False line (map Rd_Byte s @ Rd_Byte enter # rest))) = tty_print [CHR 0x0A]" for line
    using assms(1)
  proof (induction s arbitrary: line)
    case Nil
    with assms(2) show ?case by (elim disjE) simp_all
  next
    case (Cons k s)
    then have k: "line_key k" and IH: "\<And>l. snd (snd (read_line_loop False l (map Rd_Byte s @ Rd_Byte enter # rest))) = tty_print [CHR 0x0A]"
      by simp_all
    from read_byte_cases [of False line k "map Rd_Byte s @ Rd_Byte enter # rest"] show ?case
    proof cases
      case (stop res w)
      obtain w1 where "read_line_loop False line (Rd_Byte k # map Rd_Byte s @ Rd_Byte enter # rest) =
        (case read_line_loop False (line_keys line [k]) (map Rd_Byte s @ Rd_Byte enter # rest) of
          (res, rest, w') \<Rightarrow> (res, rest, w1 @ w'))"
        using read_line_loop_key [OF k] by blast
      then have "length (fst (snd (read_line_loop False (line_keys line [k]) (map Rd_Byte s @ Rd_Byte enter # rest))))
          = length (map Rd_Byte s @ Rd_Byte enter # rest)"
        using stop(1) by (auto split: prod.splits)
      with read_line_loop_rest [of False "line_keys line [k]" "map Rd_Byte s @ Rd_Byte enter # rest"]
      show ?thesis by simp
    next
      case (go line' w')
      with IH [of line'] show ?thesis by (auto split: prod.splits)
    qed
  qed
  moreover obtain w where "read_line_loop False [] (map Rd_Byte s @ Rd_Byte enter # rest) = (Line (line_keys [] s), rest, w)"
    using read_line_loop_keys [OF assms] by blast
  ultimately show ?thesis
    by (metis (no_types, lifting) case_prod_conv snd_conv tty_password_def tty_print_append tty_read_line_def)
qed

lemma password_hidden_witness:
  "tty_password ''Password: '' (map Rd_Byte (''hx'' @ [CHR 0x7F] @ ''unter2'') @ Rd_Byte (CHR 0x0D) # [Rd_Byte (CHR ''l'')]) =
     (Line ''hunter2'', [Rd_Byte (CHR ''l'')], ''Password: '' @ [CHR 0x0D, CHR 0x0A])"
proof -
  have k: "list_all line_key (''hx'' @ [CHR 0x7F] @ ''unter2'')" by code_simp
  have "line_keys [] (''hx'' @ [CHR 0x7F] @ ''unter2'') = ''hunter2''" by code_simp
  moreover have "tty_print (''Password: '' @ [CHR 0x0A]) = ''Password: '' @ [CHR 0x0D, CHR 0x0A]" by code_simp
  ultimately show ?thesis
    using password_hidden [of "''hx'' @ [CHR 0x7F] @ ''unter2''" "CHR 0x0D" "''Password: ''"] k
    by (simp only: list_all_iff simp_thms)
qed

end
