(* ===== verification/Remote_Args.thy ===== *)
theory Remote_Args
  imports Go_Text
begin

text \<open>
  The command lines of the ssh and mosh applets (\<^verbatim>\<open>shell/ssh/applet.go\<close>,
  \<^verbatim>\<open>shell/mosh/applet.go\<close>) and the hand-over between them: the remote command that starts
  a mosh-server and the line it answers with (\<^verbatim>\<open>shell/ssh/mosh.go\<close>). Errors are a
  datatype, one constructor per message; a variable that is not set is the empty string,
  as it is to the code.
\<close>

type_synonym env = "string \<Rightarrow> string"

datatype arg_err = Arg_Help | Needs_Value string | Bad_Port string | Unknown_Option string
  | No_Host | No_Wisp | Too_Many | No_Port

definition wisp_url :: "string \<Rightarrow> env \<Rightarrow> arg_err + string" where
  "wisp_url flag env =
     (if flag \<noteq> [] then Inr flag
      else if env ''WISP_URL'' \<noteq> [] then Inr (env ''WISP_URL'')
      else Inl No_Wisp)"

text \<open>A port as both applets read it.\<close>

definition parse_port :: "string \<Rightarrow> arg_err + nat" where
  "parse_port s = (case parse_uint s (2 ^ 16) of
     None \<Rightarrow> Inl (Bad_Port s)
   | Some p \<Rightarrow> if p = 0 then Inl (Bad_Port s) else Inr (nat p))"

subsection \<open>ssh\<close>

record ssh_args =
  d_wisp :: string
  d_user :: string
  d_host :: string
  d_port :: nat
  d_identities :: "string list"
  d_no_stdin :: bool
  d_command :: string

definition no_ssh_args :: ssh_args where
  "no_ssh_args = \<lparr>d_wisp = [], d_user = [], d_host = [], d_port = 0, d_identities = [],
     d_no_stdin = False, d_command = []\<rparr>"

text \<open>The letters of one argument after its dash, with the arguments that follow it.\<close>

fun ssh_letters :: "ssh_args \<Rightarrow> string \<Rightarrow> string list \<Rightarrow> arg_err + ssh_args \<times> string list" where
  "ssh_letters a [] argv = Inr (a, argv)"
| "ssh_letters a (c # cs) argv =
     (if c = CHR ''h'' then Inl Arg_Help
      else if c = CHR ''n'' then ssh_letters (a\<lparr>d_no_stdin := True\<rparr>) cs argv
      else if c \<in> set ''tTqvCAxX'' then ssh_letters a cs argv
      else if c = CHR ''p'' \<or> c = CHR ''i'' \<or> c = CHR ''l'' then
        (if cs = [] \<and> argv = [] then Inl (Needs_Value (''-'' @ encode_rune (byte_of c)))
         else (let (val, rest) = (if cs = [] then (hd argv, tl argv) else (cs, argv))
           in if c = CHR ''p'' then
                (case parse_port val of Inl e \<Rightarrow> Inl e | Inr p \<Rightarrow> Inr (a\<lparr>d_port := p\<rparr>, rest))
              else if c = CHR ''i'' then Inr (a\<lparr>d_identities := d_identities a @ [val]\<rparr>, rest)
              else Inr (a\<lparr>d_user := val\<rparr>, rest)))
      else Inl (Unknown_Option (''-'' @ encode_rune (byte_of c))))"

text \<open>One long option; the flag for the Wisp server is kept beside the arguments.\<close>

definition ssh_long :: "string \<Rightarrow> string list \<Rightarrow> arg_err + string \<times> string list" where
  "ssh_long arg argv = (case cut_byte (drop 2 arg) (CHR ''='') of (name, val, has_val) \<Rightarrow>
     if name = ''help'' then Inl Arg_Help
     else if name = ''wisp'' then
       (if has_val then Inr (val, argv)
        else (case argv of [] \<Rightarrow> Inl (Needs_Value ''--wisp'') | v # rest \<Rightarrow> Inr (v, rest)))
     else Inl (Unknown_Option arg))"

lemma ssh_letters_rest: "ssh_letters a cs argv = Inr (a', rest) \<Longrightarrow> length rest \<le> length argv"
proof (induction a cs argv rule: ssh_letters.induct)
  case (2 a c cs argv)
  show ?case
    using "2.prems" "2.IH"
    by (cases argv) (auto simp: Let_def elim!: ifE split: sum.splits if_splits prod.splits)
qed simp

lemma ssh_long_rest: "ssh_long arg argv = Inr (v, rest) \<Longrightarrow> length rest \<le> length argv"
  by (auto simp: ssh_long_def split: prod.splits if_splits list.splits)

function ssh_options :: "ssh_args \<Rightarrow> string \<Rightarrow> string list \<Rightarrow> arg_err + ssh_args \<times> string \<times> string list" where
  "ssh_options a wisp [] = Inr (a, wisp, [])"
| "ssh_options a wisp (arg # argv) =
     (if \<not> has_prefix arg ''-'' \<or> arg = ''-'' then Inr (a, wisp, arg # argv)
      else if arg = ''--'' then Inr (a, wisp, argv)
      else if has_prefix arg ''--'' then
        (case ssh_long arg argv of Inl e \<Rightarrow> Inl e | Inr (v, rest) \<Rightarrow> ssh_options a v rest)
      else (case ssh_letters a (drop 1 arg) argv of
        Inl e \<Rightarrow> Inl e
      | Inr (a', rest) \<Rightarrow> ssh_options a' wisp rest))"
  by pat_completeness auto
termination
  by (relation "measure (\<lambda>(_, _, argv). length argv)")
    (auto dest: ssh_letters_rest ssh_long_rest simp: less_Suc_eq_le)

definition ssh_destination :: "ssh_args \<Rightarrow> string \<Rightarrow> ssh_args" where
  "ssh_destination a dest = (case cut_byte dest (CHR ''@'') of (u, h, ok) \<Rightarrow>
     (let a1 = (if ok \<and> d_user a = [] then a\<lparr>d_user := u\<rparr> else a);
          dest1 = (if ok then h else dest)
      in a1\<lparr>d_host := trim_suffix (trim_prefix dest1 ''['') '']''\<rparr>))"

definition ssh_parse_args :: "string list \<Rightarrow> env \<Rightarrow> arg_err + ssh_args" where
  "ssh_parse_args argv env = (case ssh_options no_ssh_args [] argv of
     Inl e \<Rightarrow> Inl e
   | Inr (_, _, []) \<Rightarrow> Inl Arg_Help
   | Inr (a, wisp, dest # cmd) \<Rightarrow>
       (let a1 = ssh_destination a dest
        in if d_host a1 = [] then Inl No_Host
           else (let a2 = (if d_user a1 = [] then a1\<lparr>d_user := env ''USER''\<rparr> else a1);
                     a3 = a2\<lparr>d_command := join_with cmd '' ''\<rparr>
             in case wisp_url wisp env of Inl e \<Rightarrow> Inl e | Inr w \<Rightarrow> Inr (a3\<lparr>d_wisp := w\<rparr>))))"

subsection \<open>mosh\<close>

record mosh_args =
  f_wisp :: string
  f_key :: string
  f_user :: string
  f_host :: string
  f_port :: nat
  f_ssh_port :: nat

definition mosh_bootstrap :: "mosh_args \<Rightarrow> bool" where
  "mosh_bootstrap a = (f_key a = [])"

definition mosh_set :: "string \<Rightarrow> string \<Rightarrow> mosh_args \<times> string \<Rightarrow> arg_err + mosh_args \<times> string" where
  "mosh_set name val aw = (case aw of (a, wisp) \<Rightarrow>
     if name = ''wisp'' \<or> name = ''w'' then Inr (a, val)
     else if name = ''key'' \<or> name = ''k'' then Inr (a\<lparr>f_key := val\<rparr>, wisp)
     else (case parse_port val of
       Inl e \<Rightarrow> Inl e
     | Inr p \<Rightarrow> Inr (if name = ''ssh-port'' then a\<lparr>f_ssh_port := p\<rparr> else a\<lparr>f_port := p\<rparr>, wisp)))"

definition mosh_names :: "string list" where
  "mosh_names = [''wisp'', ''key'', ''port'', ''ssh-port'', ''p'', ''k'', ''w'']"

text \<open>The loop over the arguments: the options set, and the positional ones in order.\<close>

function mosh_options :: "mosh_args \<times> string \<Rightarrow> string list \<Rightarrow> string list
    \<Rightarrow> arg_err + (mosh_args \<times> string) \<times> string list" where
  "mosh_options aw pos [] = Inr (aw, pos)"
| "mosh_options aw pos (arg # argv) =
     (case cut_byte (trim_left arg ''-'') (CHR ''='') of (name, val, has_val) \<Rightarrow>
      if \<not> has_prefix arg ''-'' \<or> arg = ''-'' then mosh_options aw (pos @ [arg]) argv
      else if name = ''h'' \<or> name = ''help'' then Inl Arg_Help
      else if name \<notin> set mosh_names then Inl (Unknown_Option arg)
      else if has_val then
        (case mosh_set name val aw of Inl e \<Rightarrow> Inl e | Inr aw' \<Rightarrow> mosh_options aw' pos argv)
      else (case argv of
        [] \<Rightarrow> Inl (Needs_Value arg)
      | v # rest \<Rightarrow>
          (case mosh_set name v aw of Inl e \<Rightarrow> Inl e | Inr aw' \<Rightarrow> mosh_options aw' pos rest)))"
  by pat_completeness auto
termination
  by (relation "measure (\<lambda>(_, _, argv). length argv)") auto

definition mosh_rest :: "mosh_args \<Rightarrow> string list \<Rightarrow> arg_err + mosh_args" where
  "mosh_rest a rest =
     (if length rest = 4 \<and> rest ! 0 = ''MOSH'' \<and> rest ! 1 = ''CONNECT'' then
        (case parse_port (rest ! 2) of
          Inl e \<Rightarrow> Inl e
        | Inr p \<Rightarrow> Inr (a\<lparr>f_port := p, f_key := rest ! 3\<rparr>))
      else if length rest = 1 then
        (case parse_port (rest ! 0) of Inl e \<Rightarrow> Inl e | Inr p \<Rightarrow> Inr (a\<lparr>f_port := p\<rparr>))
      else if length rest > 1 then Inl Too_Many
      else Inr a)"

definition mosh_destination :: "env \<Rightarrow> mosh_args \<Rightarrow> string \<Rightarrow> mosh_args" where
  "mosh_destination env a dest =
     (let a1 = (case last_index_byte dest (CHR ''@'') of
        None \<Rightarrow> a\<lparr>f_host := dest\<rparr>
      | Some i \<Rightarrow> a\<lparr>f_user := take i dest, f_host := drop (Suc i) dest\<rparr>)
      in if f_user a1 = [] then a1\<lparr>f_user := env ''USER''\<rparr> else a1)"

definition mosh_parse_args :: "string list \<Rightarrow> env \<Rightarrow> arg_err + mosh_args" where
  "mosh_parse_args argv env =
     (let a0 = \<lparr>f_wisp = [], f_key = env ''MOSH_KEY'', f_user = [], f_host = [], f_port = 0, f_ssh_port = 0\<rparr>
      in case mosh_options (a0, []) [] argv of
        Inl e \<Rightarrow> Inl e
      | Inr (_, []) \<Rightarrow> Inl Arg_Help
      | Inr ((a, wisp), dest # rest) \<Rightarrow>
          (case mosh_rest (mosh_destination env a dest) rest of
            Inl e \<Rightarrow> Inl e
          | Inr a1 \<Rightarrow> (case wisp_url wisp env of
              Inl e \<Rightarrow> Inl e
            | Inr w \<Rightarrow>
                (let a2 = a1\<lparr>f_wisp := w\<rparr>
                 in if \<not> mosh_bootstrap a2 \<and> f_port a2 = 0 then Inl No_Port else Inr a2))))"

definition mosh_locale :: "env \<Rightarrow> string list" where
  "mosh_locale env =
     (let vars = map (\<lambda>n. n @ ''='' @ env n)
        (filter (\<lambda>n. env n \<noteq> []) [''LANG'', ''LANGUAGE'', ''LC_CTYPE'', ''LC_ALL''])
      in if vars = [] then [''LANG=en_US.UTF-8''] else vars)"

definition term_colors :: "string \<Rightarrow> nat" where
  "term_colors t =
     (if index_of t ''256color'' \<noteq> None then 256
      else if t = [] \<or> t = ''dumb'' then 0 else 8)"

subsection \<open>Starting a mosh-server over ssh\<close>

definition safe_chars :: string where
  "safe_chars = ''abcdefghijklmnopqrstuvwxyzABCDEFGHIJKLMNOPQRSTUVWXYZ0123456789_-.=:/@,+''"

definition shell_quote :: "string \<Rightarrow> string" where
  "shell_quote s =
     (if s \<noteq> [] \<and> trim_chars s safe_chars = [] then s
      else [CHR 0x27] @ replace_byte s (CHR 0x27) [CHR 0x27, CHR 0x5C, CHR 0x27, CHR 0x27] @ [CHR 0x27])"

definition mosh_server_command :: "nat \<Rightarrow> nat \<Rightarrow> string list \<Rightarrow> string" where
  "mosh_server_command cols port locs =
     join_with ([''mosh-server'', ''new'', ''-c'', itoa (int cols), ''-s''] @
       (if port \<noteq> 0 then [''-p'', itoa (int port)] else []) @
       concat (map (\<lambda>l. [''-l'', shell_quote l]) locs)) '' ''"

datatype connect_err = Bad_Connect_Port string | No_Startup_Message

fun mosh_connect_lines :: "string list \<Rightarrow> connect_err + nat \<times> string" where
  "mosh_connect_lines [] = Inl No_Startup_Message"
| "mosh_connect_lines (line # ls) = (case string_fields line of
     [w1, w2, w3, w4] \<Rightarrow>
       if w1 \<noteq> ''MOSH'' \<or> w2 \<noteq> ''CONNECT'' then mosh_connect_lines ls
       else (case parse_port w3 of Inl _ \<Rightarrow> Inl (Bad_Connect_Port w3) | Inr p \<Rightarrow> Inr (p, w4))
   | _ \<Rightarrow> mosh_connect_lines ls)"

definition parse_mosh_connect :: "string \<Rightarrow> connect_err + nat \<times> string" where
  "parse_mosh_connect out =
     mosh_connect_lines (split_byte (replace_byte out (CHR 0x0D) [CHR 0x0A]) (CHR 0x0A))"

text \<open>
  \<^verbatim>\<open>StartMoshServer\<close> once the session is open: what the command wrote and how running it
  failed, if it did.
\<close>

definition start_mosh_result :: "string \<Rightarrow> string option \<Rightarrow> string + nat \<times> string" where
  "start_mosh_result out run_err = (case parse_mosh_connect out of
     Inr r \<Rightarrow> Inr r
   | Inl e \<Rightarrow>
       (let msg = trim_space (replace_byte out (CHR 0x0D) []);
            msg1 = (case run_err of Some m \<Rightarrow> if msg = [] then m else msg | None \<Rightarrow> msg)
        in if msg1 \<noteq> [] then Inl (''did not find mosh-server startup message: '' @ msg1)
           else (case e of
             Bad_Connect_Port p \<Rightarrow> Inl (''bad port in MOSH CONNECT line: '' @ p)
           | No_Startup_Message \<Rightarrow>
               Inl ''did not find mosh-server startup message (is mosh installed on the server?)'')))"

subsection \<open>A POSIX shell reading a command\<close>

text \<open>
  The words a POSIX shell reads from a command line of unquoted text, backslashes and
  single quotes. A character that is special to a shell and stands unquoted is not read
  (\<open>None\<close>): it could expand to anything.
\<close>

definition sh_special :: "char \<Rightarrow> bool" where
  "sh_special c = (c \<in> set (''|&;<>()$*?[#~{}!^'' @
     [CHR 0x60, CHR 0x5C, CHR 0x22, CHR 0x27, CHR '' '', CHR 0x09, CHR 0x0A]) \<or> byte_of c \<ge> 128)"

fun sh_read :: "string option \<Rightarrow> string \<Rightarrow> string list option"
and sh_quoted :: "string \<Rightarrow> string \<Rightarrow> string list option" where
  "sh_read None [] = Some []"
| "sh_read (Some w) [] = Some [w]"
| "sh_read cur (c # cs) =
     (if c = CHR '' '' then
        (case cur of None \<Rightarrow> sh_read None cs | Some w \<Rightarrow> map_option (Cons w) (sh_read None cs))
      else (let w = (case cur of None \<Rightarrow> [] | Some w \<Rightarrow> w)
        in if c = CHR 0x27 then sh_quoted w cs
           else if c = CHR 0x5C then
             (case cs of [] \<Rightarrow> None
              | d # ds \<Rightarrow> if d = CHR 0x0A then None else sh_read (Some (w @ [d])) ds)
           else if sh_special c then None
           else sh_read (Some (w @ [c])) cs))"
| "sh_quoted w [] = None"
| "sh_quoted w (c # cs) =
     (if c = CHR 0x27 then sh_read (Some w) cs else sh_quoted (w @ [c]) cs)"

text \<open>Text that a shell reads as one word, whatever follows.\<close>

definition reads_as :: "string \<Rightarrow> string \<Rightarrow> bool" where
  "reads_as t w = (\<forall>rest. sh_read None (t @ rest) = sh_read (Some w) rest)"

lemma safe_chars_plain: "list_all (\<lambda>c. \<not> sh_special c) safe_chars"
  by code_simp

lemma not_special: "\<not> sh_special c \<Longrightarrow> c \<noteq> CHR '' '' \<and> c \<noteq> CHR 0x27 \<and> c \<noteq> CHR 0x5C"
  by (auto simp: sh_special_def)

lemma sh_read_plain:
  "\<forall>c \<in> set t. \<not> sh_special c \<Longrightarrow> sh_read (Some w) (t @ rest) = sh_read (Some (w @ t)) rest"
proof (induction t arbitrary: w)
  case (Cons c t)
  then have "\<not> sh_special c" by simp
  with not_special [OF this] Cons show ?case by simp
qed simp

lemma reads_as_plain: "\<lbrakk>t \<noteq> []; \<forall>c \<in> set t. \<not> sh_special c\<rbrakk> \<Longrightarrow> reads_as t t"
proof (cases t)
  case (Cons c cs)
  assume "\<forall>c \<in> set t. \<not> sh_special c"
  with Cons not_special [of c] sh_read_plain [of cs "[c]"] show ?thesis
    by (simp add: reads_as_def)
qed simp

lemma sh_quoted_text:
  "sh_quoted w (replace_byte s (CHR 0x27) [CHR 0x27, CHR 0x5C, CHR 0x27, CHR 0x27] @ CHR 0x27 # rest) =
   sh_read (Some (w @ s)) rest"
  by (induction s arbitrary: w) (simp_all add: replace_byte_def)

lemma reads_as_quote: "reads_as (shell_quote s) s"
proof (cases "s \<noteq> [] \<and> trim_chars s safe_chars = []")
  case True
  then have "\<forall>c \<in> set s. \<not> sh_special c"
    using trim_chars_Nil [of s safe_chars] safe_chars_plain by (auto simp: list_all_iff)
  with True show ?thesis by (simp add: shell_quote_def reads_as_plain)
next
  case False
  then show ?thesis
    using sh_quoted_text [of "[]" s] by (auto simp: shell_quote_def reads_as_def)
qed

lemma sh_read_join:
  "list_all2 reads_as ts ws \<Longrightarrow> sh_read None (join_with ts '' '') = Some ws"
proof (induction ts "'' ''" arbitrary: ws rule: join_with.induct)
  case (2 t)
  then obtain w where w: "ws = [w]" "reads_as t w" by (auto simp: list_all2_Cons1)
  from spec [OF w(2) [unfolded reads_as_def], of "[]"] w(1) show ?case by simp
next
  case (3 t u us)
  then obtain w vs where w: "ws = w # vs" "reads_as t w" "list_all2 reads_as (u # us) vs"
    by (auto simp: list_all2_Cons1)
  from spec [OF w(2) [unfolded reads_as_def], of "'' '' @ join_with (u # us) '' ''"] w 3 show ?case
    by simp
qed simp

lemma digit_plain: "is_digit c \<Longrightarrow> \<not> sh_special c"
  by (auto simp: is_digit_def sh_special_def)

lemma itoa_plain: "reads_as (itoa (int n)) (itoa (int n))"
  using itoa_nat_digits [of n] digit_plain
  by (intro reads_as_plain) (auto simp: itoa_def list_all_iff)

subsection \<open>Well-formed arguments\<close>

lemma parse_uint_range: "parse_uint s lim = Some p \<Longrightarrow> 0 \<le> p \<and> p < lim"
  using digits_val_nonneg [of s 0] by (simp add: parse_uint_def split: if_splits)

lemma parse_port_range: "parse_port s = Inr p \<Longrightarrow> 1 \<le> p \<and> p < 65536"
  using parse_uint_range [of s "2 ^ 16"]
  by (cases "parse_uint s (2 ^ 16)") (auto simp: parse_port_def split: if_splits)

lemma parse_port_less [elim]: "parse_port s = Inr p \<Longrightarrow> p < 65536"
  using parse_port_range by blast

lemma parse_port_itoa: "\<lbrakk>1 \<le> p; p < 65536\<rbrakk> \<Longrightarrow> parse_port (itoa (int p)) = Inr p"
  using parse_uint_itoa [of p "2 ^ 16"] by (simp add: parse_port_def itoa_def)

text \<open>One letter: an error, a flag with nothing of its own, or an option with its value.\<close>

lemma ssh_letters_port:
  "\<lbrakk>ssh_letters a cs argv = Inr (a', rest); d_port a < 65536\<rbrakk> \<Longrightarrow> d_port a' < 65536"
proof (induction cs arbitrary: a)
  case (Cons c cs)
  obtain val rest1 where v: "(if cs = [] then (hd argv, tl argv) else (cs, argv)) = (val, rest1)"
    by (cases "if cs = [] then (hd argv, tl argv) else (cs, argv)") auto
  consider "c = CHR ''h''" | "c = CHR ''n''" | "c \<in> set ''tTqvCAxX''" "c \<noteq> CHR ''h''" "c \<noteq> CHR ''n''"
    | "c = CHR ''p'' \<or> c = CHR ''i'' \<or> c = CHR ''l''"
    | "c \<notin> set ''hntTqvCAxXpil''" by auto
  then show ?case
  proof cases
    case 4
    with Cons.prems v show ?thesis
      by (elim disjE) (auto split: sum.splits if_splits)
  qed (use Cons.prems Cons.IH in auto)
qed simp

lemma ssh_options_port:
  "\<lbrakk>ssh_options a w argv = Inr (a', w', rest); d_port a < 65536\<rbrakk> \<Longrightarrow> d_port a' < 65536"
  by (induction a w argv rule: ssh_options.induct)
    (auto dest: ssh_letters_port split: if_splits sum.splits prod.splits)

lemma wisp_url_nonempty: "wisp_url w env = Inr u \<Longrightarrow> u \<noteq> []"
  by (auto simp: wisp_url_def split: if_splits)

lemma mosh_set_ports:
  "\<lbrakk>mosh_set n v (a, w) = Inr (a', w'); f_port a < 65536; f_ssh_port a < 65536\<rbrakk> \<Longrightarrow>
   f_port a' < 65536 \<and> f_ssh_port a' < 65536"
  by (auto simp: mosh_set_def dest: parse_port_range elim!: ifE split: sum.splits)

lemma mosh_options_ports:
  "\<lbrakk>mosh_options aw pos argv = Inr (aw', pos'); f_port (fst aw) < 65536; f_ssh_port (fst aw) < 65536\<rbrakk> \<Longrightarrow>
   f_port (fst aw') < 65536 \<and> f_ssh_port (fst aw') < 65536"
proof (induction aw pos argv rule: mosh_options.induct)
  case (2 aw pos arg argv)
  obtain name val hv where c: "cut_byte (trim_left arg ''-'') (CHR ''='') = (name, val, hv)"
    by (cases "cut_byte (trim_left arg ''-'') (CHR ''='')") auto
  have set: "f_port (fst aw1) < 65536 \<and> f_ssh_port (fst aw1) < 65536" if "mosh_set name v aw = Inr aw1" for v aw1
    using mosh_set_ports [of name v "fst aw" "snd aw" "fst aw1" "snd aw1"] that "2.prems" by simp
  from "2.prems"(1) show ?case
    using "2.IH" [OF c [symmetric] refl] "2.prems"(2,3) c set
    by (auto elim!: ifE split: sum.splits list.splits)
qed simp

lemma ssh_destination_port [simp]: "d_port (ssh_destination a dest) = d_port a"
  by (auto simp: ssh_destination_def Let_def split: prod.splits)

lemma mosh_destination_ports [simp]:
  "f_port (mosh_destination env a dest) = f_port a"
  "f_ssh_port (mosh_destination env a dest) = f_ssh_port a"
  by (auto simp: mosh_destination_def Let_def split: option.splits)

lemma mosh_rest_ports:
  "\<lbrakk>mosh_rest a rest = Inr a'; f_port a < 65536; f_ssh_port a < 65536\<rbrakk> \<Longrightarrow>
   f_port a' < 65536 \<and> f_ssh_port a' < 65536"
  by (auto simp: mosh_rest_def split: if_splits sum.splits)

lemma ssh_parse_wf:
  assumes "ssh_parse_args argv env = Inr a"
  shows "d_host a \<noteq> [] \<and> d_wisp a \<noteq> [] \<and> d_port a < 65536"
proof -
  obtain a0 w dest cmd where o: "ssh_options no_ssh_args [] argv = Inr (a0, w, dest # cmd)"
    using assms by (auto simp: ssh_parse_args_def split: sum.splits list.splits)
  have "d_port a0 < 65536"
    using ssh_options_port [OF o] by (simp add: no_ssh_args_def)
  with assms o show ?thesis
    by (auto simp: ssh_parse_args_def Let_def dest: wisp_url_nonempty split: if_splits sum.splits)
qed

lemma mosh_parse_wf:
  assumes "mosh_parse_args argv env = Inr a"
  shows "f_wisp a \<noteq> [] \<and> f_port a < 65536 \<and> f_ssh_port a < 65536 \<and> (f_key a = [] \<or> f_port a > 0)"
proof -
  let ?a0 = "\<lparr>f_wisp = [], f_key = env ''MOSH_KEY'', f_user = [], f_host = [], f_port = 0, f_ssh_port = 0\<rparr>"
  obtain a1 w dest rest where o: "mosh_options (?a0, []) [] argv = Inr ((a1, w), dest # rest)"
    using assms by (auto simp: mosh_parse_args_def Let_def split: sum.splits list.splits)
  have p: "f_port a1 < 65536 \<and> f_ssh_port a1 < 65536"
    using mosh_options_ports [OF o] by simp
  obtain a2 where r: "mosh_rest (mosh_destination env a1 dest) rest = Inr a2"
    using assms o by (auto simp: mosh_parse_args_def Let_def split: sum.splits)
  with p mosh_rest_ports [OF r] have "f_port a2 < 65536 \<and> f_ssh_port a2 < 65536" by simp
  with assms o r show ?thesis
    by (auto simp: mosh_parse_args_def mosh_bootstrap_def Let_def dest: wisp_url_nonempty
        split: if_splits sum.splits)
qed

text \<open>The positional arguments are arguments; the host is what follows the last \<^verbatim>\<open>@\<close> of the first of them.\<close>

lemma mosh_options_pos: "mosh_options aw pos argv = Inr (aw', pos') \<Longrightarrow> set pos' \<subseteq> set pos \<union> set argv"
proof (induction aw pos argv arbitrary: aw' pos' rule: mosh_options.induct)
  case (2 aw pos arg argv)
  obtain nm v hv where c: "cut_byte (trim_left arg ''-'') (CHR ''='') = (nm, v, hv)" by (metis prod_cases3)
  note IH = "2.IH" [OF c [symmetric] refl]
  show ?case
  proof (cases "\<not> has_prefix arg ''-'' \<or> arg = ''-''")
    case True
    then show ?thesis using IH(1) [of aw' pos'] "2.prems" c by auto
  next
    case False
    with "2.prems" c IH(2,3) show ?thesis
      by (cases aw') (auto split: if_splits sum.splits list.splits, blast+)
  qed
qed simp

lemma mosh_rest_host: "mosh_rest a rest = Inr a' \<Longrightarrow> f_host a' = f_host a"
  by (auto simp: mosh_rest_def split: if_splits sum.splits)

lemma last_index_byteD: "last_index_byte s c = Some i \<Longrightarrow> i < length s \<and> s ! i = c"
  by (auto simp: last_index_byte_def rev_nth dest!: index_byte_SomeD)

lemma mosh_host_of: "f_host (mosh_destination env a dest) = [] \<Longrightarrow> dest = [] \<or> has_suffix dest ''@''"
proof (cases "last_index_byte dest (CHR ''@'')")
  case (Some i)
  assume "f_host (mosh_destination env a dest) = []"
  then have "length dest \<le> Suc i" by (auto simp: mosh_destination_def Let_def Some split: if_splits)
  with last_index_byteD [OF Some] have i: "length dest = Suc i" "dest ! i = CHR ''@''" by simp_all
  then have "dest \<noteq> []" by auto
  moreover from this i have "List.last dest = CHR ''@''" by (simp add: last_conv_nth)
  ultimately show ?thesis by (cases dest rule: rev_cases) (auto simp: has_suffix_def)
qed (auto simp: mosh_destination_def Let_def split: if_splits)

lemma mosh_parse_host:
  assumes "mosh_parse_args argv env = Inr a" "f_host a = []"
  shows "\<exists>dest \<in> set argv. dest = [] \<or> has_suffix dest ''@''"
proof -
  let ?a0 = "\<lparr>f_wisp = [], f_key = env ''MOSH_KEY'', f_user = [], f_host = [], f_port = 0, f_ssh_port = 0\<rparr>"
  obtain a1 w dest rest where o: "mosh_options (?a0, []) [] argv = Inr ((a1, w), dest # rest)"
    using assms(1) by (auto simp: mosh_parse_args_def Let_def split: sum.splits list.splits)
  obtain a2 where r: "mosh_rest (mosh_destination env a1 dest) rest = Inr a2"
    using assms(1) o by (auto simp: mosh_parse_args_def Let_def split: sum.splits)
  have "f_host a = f_host a2"
    using assms(1) o r by (auto simp: mosh_parse_args_def Let_def split: if_splits sum.splits)
  with assms(2) mosh_rest_host [OF r] have "dest = [] \<or> has_suffix dest ''@''" by (intro mosh_host_of) simp
  moreover have "dest \<in> set argv" using mosh_options_pos [OF o] by simp
  ultimately show ?thesis by blast
qed

subsection \<open>Properties\<close>

text \<open>
  C23. The command mosh sends to the remote shell is read there as exactly the words meant:
  whatever a locale variable holds (spaces, quotes, dollar signs, semicolons) stays one
  word, and nothing in it is special to the shell.
\<close>

theorem mosh_command_words:
  "sh_read None (mosh_server_command cols port locs) =
   Some ([''mosh-server'', ''new'', ''-c'', itoa (int cols), ''-s''] @
     (if port \<noteq> 0 then [''-p'', itoa (int port)] else []) @ concat (map (\<lambda>l. [''-l'', l]) locs))"
proof -
  have w: "reads_as t t" if "t \<in> set [''mosh-server'', ''new'', ''-c'', ''-s'', ''-p'', ''-l'']" for t
  proof -
    have "list_all (\<lambda>t. t \<noteq> [] \<and> list_all (\<lambda>c. \<not> sh_special c) t)
      [''mosh-server'', ''new'', ''-c'', ''-s'', ''-p'', ''-l'']" by code_simp
    with that show ?thesis by (intro reads_as_plain) (auto simp: list_all_iff)
  qed
  have "list_all2 reads_as (concat (map (\<lambda>l. [''-l'', shell_quote l]) locs)) (concat (map (\<lambda>l. [''-l'', l]) locs))"
    by (induction locs) (simp_all add: w reads_as_quote)
  then show ?thesis
    unfolding mosh_server_command_def
    by (intro sh_read_join) (simp add: w itoa_plain list_all2_appendI)
qed

text \<open>
  C40. What a command line that parses gives: for ssh a host that is not empty, a Wisp server and
  a port of 16 bits; for mosh a Wisp server, ports of 16 bits and, when there is a key so that no
  ssh login finds the port, a port that is not zero. The host of a mosh command line can be empty,
  which its parser does not refuse, but only where an argument is empty or ends with \<^verbatim>\<open>@\<close>.
\<close>

theorem parsed_args_usable:
  "(\<forall>a. ssh_parse_args argv env = Inr a \<longrightarrow> d_host a \<noteq> [] \<and> d_wisp a \<noteq> [] \<and> d_port a < 65536) \<and>
   (\<forall>a. mosh_parse_args argv env = Inr a \<longrightarrow>
     f_wisp a \<noteq> [] \<and> f_port a < 65536 \<and> f_ssh_port a < 65536 \<and> (f_key a = [] \<or> f_port a > 0) \<and>
     (f_host a = [] \<longrightarrow> (\<exists>dest \<in> set argv. dest = [] \<or> has_suffix dest ''@'')))"
proof (intro conjI allI impI)
  fix a assume a: "ssh_parse_args argv env = Inr a"
  from ssh_parse_wf [OF a] show "d_host a \<noteq> []" "d_wisp a \<noteq> []" "d_port a < 65536" by simp_all
next
  fix a assume a: "mosh_parse_args argv env = Inr a"
  from mosh_parse_wf [OF a]
  show "f_wisp a \<noteq> []" "f_port a < 65536" "f_ssh_port a < 65536" "f_key a = [] \<or> f_port a > 0" by simp_all
  show "\<exists>dest \<in> set argv. dest = [] \<or> has_suffix dest ''@''" if "f_host a = []"
    by (rule mosh_parse_host [OF a that])
qed

definition example_argv :: "string list" where
  "example_argv = [''-np2222'', ''--wisp=ws://w'', ''u@h'', ''ls'', ''-l'']"

lemma parsed_args_usable_witness:
  "\<exists>a b. ssh_parse_args example_argv (\<lambda>_. []) = Inr a \<and> d_port a < 65536 \<and>
     mosh_parse_args [''h'', ''MOSH'', ''CONNECT'', ''60001'', ''k''] (\<lambda>_. ''w'') = Inr b \<and> f_port b > 0"
proof -
  have "\<not> isl (ssh_parse_args example_argv (\<lambda>_. []))" by code_simp
  then obtain a where a: "ssh_parse_args example_argv (\<lambda>_. []) = Inr a"
    by (cases "ssh_parse_args example_argv (\<lambda>_. [])") auto
  let ?m = "mosh_parse_args [''h'', ''MOSH'', ''CONNECT'', ''60001'', ''k''] (\<lambda>_. ''w'')"
  have "\<not> isl ?m" by code_simp
  then obtain b where b: "?m = Inr b" by (cases ?m) auto
  have "f_key (projr ?m) = ''k''" by code_simp
  with a b parsed_args_usable [of example_argv "\<lambda>_. []"]
    parsed_args_usable [of "[''h'', ''MOSH'', ''CONNECT'', ''60001'', ''k'']" "\<lambda>_. ''w''"]
  show ?thesis by auto
qed

subsection \<open>What mosh-server answers, and a command line written out\<close>

definition word_char :: "char \<Rightarrow> bool" where
  "word_char c = (byte_of c < 128 \<and> \<not> is_space_rune (byte_of c))"

lemma mosh_connect_skip:
  "mosh_connect_lines a = Inl No_Startup_Message \<Longrightarrow> mosh_connect_lines (a @ b) = mosh_connect_lines b"
  by (induction a) (auto split: list.splits if_splits sum.splits)

lemma seg_fields_step:
  assumes "\<forall>c \<in> set w. word_char c" "w \<noteq> []"
  shows "seg_fields [] (map (\<lambda>c. (byte_of c, [c])) (w @ CHR '' '' # s)) =
    w # seg_fields [] (map (\<lambda>c. (byte_of c, [c])) s)"
  using seg_fields_word [of w "[]"] assms
  by (simp add: word_char_def space_seg_def is_space_rune_def)

lemma fields_of_words:
  assumes "\<forall>w \<in> set [a, b, c, d]. w \<noteq> [] \<and> (\<forall>x \<in> set w. word_char x)"
  shows "string_fields (a @ '' '' @ b @ '' '' @ c @ '' '' @ d) = [a, b, c, d]"
proof -
  have "is_ascii (a @ '' '' @ b @ '' '' @ c @ '' '' @ d)"
    using assms by (auto simp: is_ascii_def word_char_def list_all_iff)
  moreover have "seg_fields [] (map (\<lambda>c. (byte_of c, [c])) d) = [d]"
    using seg_fields_word [of d "[]" "[]"] assms by (simp add: word_char_def)
  ultimately show ?thesis
    using assms seg_fields_step [of a "b @ '' '' @ c @ '' '' @ d"] seg_fields_step [of b "c @ '' '' @ d"]
      seg_fields_step [of c d]
    by (simp add: string_fields_def segments_ascii)
qed

lemma digit_word: "is_digit c \<Longrightarrow> word_char c"
  by (auto simp: is_digit_def word_char_def is_space_rune_def)

text \<open>
  The port and the key of a MOSH CONNECT line are read back from mosh-server's output,
  whatever lines that are not such a line come before it and whatever comes after, with
  the line ends of a terminal or without.
\<close>

lemma mosh_connect_roundtrip:
  assumes "mosh_connect_lines before = Inl No_Startup_Message"
    and "1 \<le> port" "port < 65536" and "key \<noteq> []" "\<forall>c \<in> set key. word_char c"
  shows "mosh_connect_lines (before @ (''MOSH CONNECT '' @ itoa (int port) @ '' '' @ key) # rest) = Inr (port, key)"
proof -
  have "list_all word_char ''MOSH'' \<and> list_all word_char ''CONNECT''" by code_simp
  moreover have "\<forall>c \<in> set (itoa (int port)). word_char c" "itoa (int port) \<noteq> []"
    using itoa_nat_digits [of port] digit_word by (auto simp: itoa_def list_all_iff)
  ultimately have "string_fields (''MOSH'' @ '' '' @ ''CONNECT'' @ '' '' @ itoa (int port) @ '' '' @ key) =
      [''MOSH'', ''CONNECT'', itoa (int port), key]"
    using assms by (intro fields_of_words) (auto simp: list_all_iff)
  then show ?thesis
    using parse_port_itoa [of port] assms by (simp add: mosh_connect_skip)
qed

lemma mosh_connect_roundtrip_witness:
  "mosh_connect_lines ([''Last login: today'', []] @ [''MOSH CONNECT '' @ itoa (int 60001) @ '' '' @ ''4NeCCgvZFe2RnPgrcU1PQw'']) =
     Inr (60001, ''4NeCCgvZFe2RnPgrcU1PQw'')"
proof (rule mosh_connect_roundtrip [where rest = "[]"])
  show "mosh_connect_lines [''Last login: today'', []] = Inl No_Startup_Message" by code_simp
  have "list_all word_char ''4NeCCgvZFe2RnPgrcU1PQw''" by code_simp
  then show "\<forall>c \<in> set ''4NeCCgvZFe2RnPgrcU1PQw''. word_char c" by (simp only: list_all_iff)
qed simp_all

end
