(* ===== verification/Mosh_Link.thy ===== *)
theory Mosh_Link
  imports Go_Text Base64
begin

text \<open>
  The mosh client's link to its server: the datagram connection over a Wisp stream
  (\<^verbatim>\<open>shell/mosh/conn.go\<close>), the screen that turns numbered state diffs into terminal output
  (\<^verbatim>\<open>shell/mosh/screen.go\<close>) and the session key (\<^verbatim>\<open>shell/mosh/client.go\<close>). The selects of
  the connection choose among the branches that are ready, so it is a step relation; the
  terminal emulator and the framebuffers of the mosh library are the parameter \<open>vt_lib\<close>.
\<close>

subsection \<open>The session key\<close>

definition pad_base64 :: "string \<Rightarrow> string" where
  "pad_base64 key = key @ replicate ((4 - length key mod 4) mod 4) (CHR ''='')"

text \<open>\<^verbatim>\<open>DecodeKey\<close>: \<open>None\<close> is the error.\<close>

definition decode_key :: "string \<Rightarrow> string option" where
  "decode_key key = (case b64_decode (pad_base64 (trim_space key)) of
     None \<Rightarrow> None
   | Some raw \<Rightarrow> if length raw \<noteq> 16 then None else Some raw)"

subsection \<open>The connection\<close>

record mosh_conn =
  mc_queue :: "string list"
  mc_done :: bool
  mc_err :: "string option"
  mc_deadline :: "int option"
  mc_pumping :: bool
  mc_stream_closes :: nat

definition new_mosh_conn :: mosh_conn where
  "new_mosh_conn = \<lparr>mc_queue = [], mc_done = False, mc_err = None, mc_deadline = None,
     mc_pumping = True, mc_stream_closes = 0\<rparr>"

definition queue_cap :: nat where
  "queue_cap = 256"

definition mc_close :: "mosh_conn \<Rightarrow> mosh_conn" where
  "mc_close c = (if mc_done c then c
     else c\<lparr>mc_done := True, mc_stream_closes := Suc (mc_stream_closes c)\<rparr>)"

definition close_err :: "mosh_conn \<Rightarrow> string" where
  "close_err c = (case mc_err c of Some e \<Rightarrow> e | None \<Rightarrow> ''mosh: connection closed'')"

definition conn_err :: "mosh_conn \<Rightarrow> string option" where
  "conn_err c = (if mc_done c then Some (close_err c) else None)"

text \<open>
  What happens at the connection: a datagram arrives and is queued or dropped, the stream
  fails, a \<^verbatim>\<open>Read\<close> into a buffer returns a datagram or an error, a \<^verbatim>\<open>Write\<close> returns, the
  deadline is set, the connection is closed. A deadline is compared with the time now.
\<close>

datatype conn_label =
    Arrived string
  | Dropped string
  | Pump_Stops string
  | Stream_Failed string
  | Read_Gives string string nat
  | Read_Timeout
  | Read_Closed string
  | Write_Gives string "string option"
  | Deadline "int option"
  | Closed

inductive mosh_conn_step :: "mosh_conn \<Rightarrow> conn_label \<Rightarrow> mosh_conn \<Rightarrow> bool" where
  step_arrived: "\<lbrakk>mc_pumping c; length (mc_queue c) < queue_cap\<rbrakk> \<Longrightarrow>
    mosh_conn_step c (Arrived b) (c\<lparr>mc_queue := mc_queue c @ [b]\<rparr>)"
| step_pump_stops: "\<lbrakk>mc_pumping c; mc_done c\<rbrakk> \<Longrightarrow>
    mosh_conn_step c (Pump_Stops b) (c\<lparr>mc_pumping := False\<rparr>)"
| step_dropped: "\<lbrakk>mc_pumping c; \<not> length (mc_queue c) < queue_cap; \<not> mc_done c\<rbrakk> \<Longrightarrow>
    mosh_conn_step c (Dropped b) c"
| step_failed: "mc_pumping c \<Longrightarrow>
    mosh_conn_step c (Stream_Failed e) ((mc_close (c\<lparr>mc_err := Some e\<rparr>))\<lparr>mc_pumping := False\<rparr>)"
| step_read: "mc_queue c = p # q \<Longrightarrow>
    mosh_conn_step c (Read_Gives p (take n p) n) (c\<lparr>mc_queue := q\<rparr>)"
| step_timeout_now: "\<lbrakk>mc_deadline c = Some d; d \<le> now; mc_queue c = []\<rbrakk> \<Longrightarrow>
    mosh_conn_step c Read_Timeout c"
| step_timeout_later: "mc_deadline c = Some d \<Longrightarrow> mosh_conn_step c Read_Timeout c"
| step_closed: "\<lbrakk>mc_done c; mc_queue c = []\<rbrakk> \<Longrightarrow>
    mosh_conn_step c (Read_Closed (close_err c)) c"
| step_write_closed: "mc_done c \<Longrightarrow>
    mosh_conn_step c (Write_Gives b (Some (close_err c))) c"
| step_write: "\<not> mc_done c \<Longrightarrow> mosh_conn_step c (Write_Gives b res) c"
| step_deadline: "mosh_conn_step c (Deadline t) (c\<lparr>mc_deadline := t\<rparr>)"
| step_close: "mosh_conn_step c Closed (mc_close c)"

inductive mosh_conn_run :: "mosh_conn \<Rightarrow> conn_label list \<Rightarrow> mosh_conn \<Rightarrow> bool" where
  run_Nil: "mosh_conn_run c [] c"
| run_snoc: "\<lbrakk>mosh_conn_run c ls c1; mosh_conn_step c1 l c2\<rbrakk> \<Longrightarrow> mosh_conn_run c (ls @ [l]) c2"

inductive_cases conn_stepE: "mosh_conn_step c l c'"

subsection \<open>The screen\<close>

record ('e, 'f) vt_lib =
  vt_new :: "nat \<Rightarrow> nat \<Rightarrow> 'e"
  vt_write :: "'e \<Rightarrow> string \<Rightarrow> 'e"
  vt_snap :: "'e \<Rightarrow> 'f"
  vt_diff :: "'f \<Rightarrow> 'f option \<Rightarrow> string"
  vt_unmarshal :: "string \<Rightarrow> string list option"

record ('e, 'f) screen =
  sc_cols :: nat
  sc_rows :: nat
  sc_shadow :: 'e
  sc_num :: nat
  sc_states :: "nat \<rightharpoonup> 'f"
  sc_latest :: nat
  sc_displayed :: "'f option"
  sc_out :: string

definition new_screen :: "('e, 'f) vt_lib \<Rightarrow> nat \<Rightarrow> nat \<Rightarrow> ('e, 'f) screen" where
  "new_screen V cols rows = \<lparr>sc_cols = cols, sc_rows = rows, sc_shadow = vt_new V cols rows, sc_num = 0,
     sc_states = Map.empty, sc_latest = 0, sc_displayed = None, sc_out = []\<rparr>"

text \<open>The first part of \<^verbatim>\<open>apply\<close>: the emulator is brought to the state the diff starts from.\<close>

definition screen_base :: "('e, 'f) vt_lib \<Rightarrow> nat \<Rightarrow> ('e, 'f) screen \<Rightarrow> ('e, 'f) screen" where
  "screen_base V old s =
     (let s1 = (if old = sc_num s \<and> sc_states s old = None
                then s\<lparr>sc_states := (sc_states s)(old \<mapsto> vt_snap V (sc_shadow s))\<rparr> else s);
          blank = vt_new V (sc_cols s1) (sc_rows s1)
      in case sc_states s1 old of
        None \<Rightarrow> s1\<lparr>sc_shadow := blank, sc_states := (sc_states s1)(old \<mapsto> vt_snap V blank)\<rparr>
      | Some base \<Rightarrow>
          if sc_num s1 \<noteq> old then s1\<lparr>sc_shadow := vt_write V blank (vt_diff V base None)\<rparr> else s1)"

definition host_writes :: "('e, 'f) vt_lib \<Rightarrow> 'e \<Rightarrow> string list \<Rightarrow> 'e" where
  "host_writes V e hs = foldl (\<lambda>e h. if h \<noteq> [] then vt_write V e h else e) e hs"

text \<open>The second part: the host's writes, the new state kept, the old ones dropped, the terminal moved.\<close>

definition screen_draw :: "('e, 'f) vt_lib \<Rightarrow> string list \<Rightarrow> nat \<Rightarrow> nat \<Rightarrow> ('e, 'f) screen \<Rightarrow> ('e, 'f) screen" where
  "screen_draw V hs new throwaway s =
     (let sh = host_writes V (sc_shadow s) hs;
          latest = (if new > sc_latest s then new else sc_latest s);
          states = (sc_states s)(new \<mapsto> vt_snap V sh);
          kept = (\<lambda>n. if n < throwaway \<and> n \<noteq> latest then None else states n);
          s2 = s\<lparr>sc_shadow := sh, sc_num := new, sc_latest := latest, sc_states := kept\<rparr>
      in case kept latest of
        None \<Rightarrow> s2
      | Some f \<Rightarrow> s2\<lparr>sc_out := sc_out s2 @ vt_diff V f (sc_displayed s2), sc_displayed := Some f\<rparr>)"

definition screen_apply :: "('e, 'f) vt_lib \<Rightarrow> string \<Rightarrow> nat \<Rightarrow> nat \<Rightarrow> nat \<Rightarrow> ('e, 'f) screen \<Rightarrow> ('e, 'f) screen" where
  "screen_apply V diff old new throwaway s =
     (if sc_states s new \<noteq> None then s
      else (let s1 = screen_base V old s in
        case vt_unmarshal V diff of
          None \<Rightarrow> s1
        | Some hs \<Rightarrow> screen_draw V hs new throwaway s1))"

definition screen_take :: "('e, 'f) screen \<Rightarrow> string \<times> ('e, 'f) screen" where
  "screen_take s = (sc_out s, s\<lparr>sc_out := []\<rparr>)"

definition screen_resize :: "('e, 'f) vt_lib \<Rightarrow> nat \<Rightarrow> nat \<Rightarrow> ('e, 'f) screen \<Rightarrow> ('e, 'f) screen" where
  "screen_resize V cols rows s = s\<lparr>sc_cols := cols, sc_rows := rows, sc_shadow := vt_new V cols rows,
     sc_num := 0, sc_states := Map.empty, sc_displayed := None\<rparr>"

subsection \<open>Lemmas on the connection\<close>

definition arrivals :: "conn_label list \<Rightarrow> string list" where
  "arrivals ls = concat (map (\<lambda>l. case l of Arrived b \<Rightarrow> [b] | _ \<Rightarrow> []) ls)"

definition deliveries :: "conn_label list \<Rightarrow> string list" where
  "deliveries ls = concat (map (\<lambda>l. case l of Read_Gives p _ _ \<Rightarrow> [p] | _ \<Rightarrow> []) ls)"

lemma label_simps [simp]:
  "arrivals [] = []" "arrivals (ls @ ls') = arrivals ls @ arrivals ls'"
  "deliveries [] = []" "deliveries (ls @ ls') = deliveries ls @ deliveries ls'"
  by (simp_all add: arrivals_def deliveries_def)

definition mosh_conn_ok :: "conn_label list \<Rightarrow> mosh_conn \<Rightarrow> bool" where
  "mosh_conn_ok ls c =
     (arrivals ls = deliveries ls @ mc_queue c \<and> length (mc_queue c) \<le> queue_cap \<and>
      mc_stream_closes c = (if mc_done c then 1 else 0) \<and> (\<not> mc_pumping c \<longrightarrow> mc_done c) \<and>
      (mc_err c \<noteq> None \<longrightarrow> mc_done c))"

lemma mc_close_fields [simp]:
  "mc_queue (mc_close c) = mc_queue c" "mc_done (mc_close c)"
  "mc_stream_closes (mc_close c) = (if mc_done c then mc_stream_closes c else Suc (mc_stream_closes c))"
  "mc_pumping (mc_close c) = mc_pumping c" "mc_err (mc_close c) = mc_err c"
  by (simp_all add: mc_close_def)

lemma mosh_conn_step_ok:
  "\<lbrakk>mosh_conn_step c l c'; mosh_conn_ok ls c\<rbrakk> \<Longrightarrow> mosh_conn_ok (ls @ [l]) c'"
  by (induction rule: mosh_conn_step.induct)
    (auto simp: mosh_conn_ok_def arrivals_def deliveries_def queue_cap_def split: if_splits)

lemma mosh_conn_run_ok: "mosh_conn_run c ls c' \<Longrightarrow> mosh_conn_ok [] c \<Longrightarrow> mosh_conn_ok ls c'"
  by (induction rule: mosh_conn_run.induct) (auto intro: mosh_conn_step_ok)

lemma mosh_conn_ok_new: "mosh_conn_ok [] new_mosh_conn"
  by (simp add: mosh_conn_ok_def new_mosh_conn_def queue_cap_def)

subsection \<open>Lemmas on the session key\<close>

lemma length_b64_group [simp]: "length (b64_group a b c) = 4"
  by (simp add: b64_group_def)

lemma set_b64_group:
  assumes "a < 256" "b < 256" "c < 256"
  shows "set (b64_group a b c) \<subseteq> set b64_alphabet"
proof -
  have "length b64_alphabet = 64" by code_simp
  then have "n < 64 \<Longrightarrow> b64_char n \<in> set b64_alphabet" for n
    unfolding b64_char_def by (intro nth_mem) simp
  with b64_digits [OF assms] show ?thesis by (simp add: b64_group_def)
qed

lemma b64_encode_one_left:
  "length s mod 3 = 1 \<Longrightarrow>
   \<exists>t. b64_encode s = t @ ''=='' \<and> 3 * length t = 4 * length s + 2 \<and> set t \<subseteq> set b64_alphabet"
proof (induction s rule: b64_encode.induct)
  case (2 a)
  have "set (take 2 (b64_group (byte_of a) 0 0)) \<subseteq> set b64_alphabet"
    using set_b64_group [of "byte_of a" 0 0] set_take_subset [of 2 "b64_group (byte_of a) 0 0"] by simp
  then show ?case by (intro exI [of _ "take 2 (b64_group (byte_of a) 0 0)"]) simp
next
  case (4 a b c s)
  then obtain t where "b64_encode s = t @ ''==''" "3 * length t = 4 * length s + 2" "set t \<subseteq> set b64_alphabet"
    by auto
  then show ?case
    using set_b64_group [of "byte_of a" "byte_of b" "byte_of c"]
    by (intro exI [of _ "b64_group (byte_of a) (byte_of b) (byte_of c) @ t"]) simp
qed simp_all

lemma alphabet_words: "list_all (\<lambda>c. byte_of c < 128 \<and> \<not> is_space_rune (byte_of c)) b64_alphabet"
  by code_simp

lemma pad_base64_complete: "length t mod 4 = 2 \<Longrightarrow> pad_base64 t = t @ ''==''"
  by (simp add: pad_base64_def numeral_2_eq_2)

subsection \<open>Properties\<close>

text \<open>
  Every mosh session key reads as printed: the 22 characters a mosh-server prints for
  16 bytes decode to those bytes.
\<close>

lemma mosh_key_roundtrip:
  assumes "length raw = 16"
  shows "length (take 22 (b64_encode raw)) = 22 \<and> decode_key (take 22 (b64_encode raw)) = Some raw"
proof -
  obtain t where t: "b64_encode raw = t @ ''==''" "3 * length t = 4 * length raw + 2" "set t \<subseteq> set b64_alphabet"
    using b64_encode_one_left [of raw] assms by auto
  then have len: "length t = 22" using assms by simp
  have w: "\<forall>c \<in> set t. byte_of c < 128 \<and> \<not> is_space_rune (byte_of c)"
    using alphabet_words t(3) by (auto simp only: list_all_iff)
  have "t \<noteq> []" using len by auto
  with w have "trim_space t = t"
    by (intro trim_space_id) (simp_all add: is_ascii_def list_all_iff)
  then have "decode_key t = Some raw"
    using b64_decode_encode [of raw] t(1) assms len by (simp add: decode_key_def pad_base64_complete)
  with len t(1) show ?thesis by simp
qed

lemma mosh_key_roundtrip_witness: "decode_key (take 22 (b64_encode ''0123456789abcdef'')) = Some ''0123456789abcdef''"
  using mosh_key_roundtrip [of "''0123456789abcdef''"] by simp

text \<open>
  Over any run of the connection the datagrams handed to the reader are those queued on
  arrival, whole runs of them in order and each once, at most 256 waiting; the stream under
  it is closed at most once; and a reader is told that the connection is closed only after
  every datagram queued has been handed over.
\<close>

lemma mosh_conn_fifo:
  assumes "mosh_conn_run new_mosh_conn ls c"
  shows "arrivals ls = deliveries ls @ mc_queue c \<and> length (mc_queue c) \<le> queue_cap \<and>
    mc_stream_closes c \<le> 1 \<and>
    (\<forall>ls' e. ls = ls' @ [Read_Closed e] \<longrightarrow> deliveries ls = arrivals ls)"
proof -
  have ok: "mosh_conn_ok ls c" using mosh_conn_run_ok [OF assms mosh_conn_ok_new] .
  have "deliveries ls = arrivals ls" if "ls = ls' @ [Read_Closed e]" for ls' e
  proof -
    from assms that obtain c1 where "mosh_conn_step c1 (Read_Closed e) c"
      by (cases rule: mosh_conn_run.cases) auto
    then have "mc_queue c = []" by (cases rule: mosh_conn_step.cases) auto
    with ok show ?thesis by (simp add: mosh_conn_ok_def)
  qed
  with ok show ?thesis by (auto simp: mosh_conn_ok_def)
qed

lemma mosh_conn_fifo_witness:
  "\<exists>c. mosh_conn_run new_mosh_conn [Arrived ''ab'', Stream_Failed ''gone'', Read_Gives ''ab'' ''a'' 1, Read_Closed ''gone''] c \<and>
     mc_stream_closes c \<le> 1"
proof -
  let ?c1 = "new_mosh_conn\<lparr>mc_queue := [''ab'']\<rparr>"
  let ?c2 = "(mc_close (?c1\<lparr>mc_err := Some ''gone''\<rparr>))\<lparr>mc_pumping := False\<rparr>"
  let ?c3 = "?c2\<lparr>mc_queue := []\<rparr>"
  have 1: "mosh_conn_step new_mosh_conn (Arrived ''ab'') ?c1"
    using step_arrived [of new_mosh_conn "''ab''"] by (simp add: new_mosh_conn_def queue_cap_def)
  have 2: "mosh_conn_step ?c1 (Stream_Failed ''gone'') ?c2"
    using step_failed [of ?c1 "''gone''"] by (simp add: new_mosh_conn_def)
  have 3: "mosh_conn_step ?c2 (Read_Gives ''ab'' ''a'' 1) ?c3"
    using step_read [of ?c2 "''ab''" "[]" 1] by simp
  have 4: "mosh_conn_step ?c3 (Read_Closed ''gone'') ?c3"
    using step_closed [of ?c3] by (simp add: close_err_def)
  have r: "mosh_conn_run new_mosh_conn ([] @ [Arrived ''ab''] @ [Stream_Failed ''gone''] @ [Read_Gives ''ab'' ''a'' 1]
      @ [Read_Closed ''gone'']) ?c3"
    by (simp only: append_assoc [symmetric]) (intro run_snoc [OF _ 4] run_snoc [OF _ 3] run_snoc [OF _ 2] run_snoc [OF _ 1] run_Nil)
  with mosh_conn_fifo [OF r] show ?thesis by (intro exI [of _ ?c3]) simp
qed

subsection \<open>The screen follows the server\<close>

text \<open>
  A session of the server at one size: \<open>F n\<close> is the framebuffer of its state \<open>n\<close>, as a snapshot
  holds it (cells and the place of the cursor; the cursor always counts as visible). A snapshot
  says nothing of the pen, the modes and a sequence begun, so what is relied on is of an emulator
  that is clean: its pen and modes are as in a new one and no sequence is open. Drawing a
  difference on a clean emulator that shows the framebuffer it starts from gives the other one and
  leaves it clean, as \<^verbatim>\<open>Framebuffer.Diff\<close> does, which begins with the default pen and ends with a
  reset; and writing in pieces is writing the whole.
\<close>

definition at_frame :: "('e, 'f) vt_lib \<Rightarrow> ('e \<Rightarrow> bool) \<Rightarrow> 'f \<Rightarrow> 'e \<Rightarrow> bool" where
  "at_frame V clean f e = (vt_snap V e = f \<and> clean e)"

definition vt_law :: "('e, 'f) vt_lib \<Rightarrow> ('e \<Rightarrow> bool) \<Rightarrow> nat \<Rightarrow> nat \<Rightarrow> (nat \<Rightarrow> 'f) \<Rightarrow> bool" where
  "vt_law V clean cols rows F =
     ((\<forall>n. at_frame V clean (F n) (vt_write V (vt_new V cols rows) (vt_diff V (F n) None))) \<and>
      (\<forall>e n m. at_frame V clean (F m) e \<longrightarrow> at_frame V clean (F n) (vt_write V e (vt_diff V (F n) (Some (F m))))) \<and>
      (\<forall>e a b. vt_write V e (a @ b) = vt_write V (vt_write V e a) b) \<and>
      (\<forall>e. vt_write V e [] = e) \<and> at_frame V clean (F 0) (vt_new V cols rows))"

lemma vt_lawD:
  assumes "vt_law V C cols rows F"
  shows "at_frame V C (F n) (vt_write V (vt_new V cols rows) (vt_diff V (F n) None))"
    and "at_frame V C (F m) e \<Longrightarrow> at_frame V C (F n) (vt_write V e (vt_diff V (F n) (Some (F m))))"
    and "vt_write V e (a @ b) = vt_write V (vt_write V e a) b"
    and "vt_write V e [] = e" and "at_frame V C (F 0) (vt_new V cols rows)"
  using assms unfolding vt_law_def by blast+

text \<open>
  A diff the server made from one of its states to another, as the host message says it: one that
  can be read, drawn for the default pen and leaving it.
\<close>

definition server_diff :: "('e, 'f) vt_lib \<Rightarrow> ('e \<Rightarrow> bool) \<Rightarrow> (nat \<Rightarrow> 'f) \<Rightarrow> string \<Rightarrow> nat \<Rightarrow> nat \<Rightarrow> bool" where
  "server_diff V clean F diff old new = (case vt_unmarshal V diff of
     None \<Rightarrow> False
   | Some hs \<Rightarrow> (\<forall>e. at_frame V clean (F old) e \<longrightarrow> at_frame V clean (F new) (host_writes V e hs)))"

type_synonym mosh_message = "string \<times> nat \<times> nat \<times> nat"

fun screen_run :: "('e, 'f) vt_lib \<Rightarrow> mosh_message list \<Rightarrow> ('e, 'f) screen \<Rightarrow> ('e, 'f) screen" where
  "screen_run V [] s = s"
| "screen_run V ((diff, old, new, throwaway) # ms) s =
     screen_run V ms (screen_apply V diff old new throwaway s)"

text \<open>Each message is one of the server's, made from a state the client holds when it comes.\<close>

fun server_messages :: "('e, 'f) vt_lib \<Rightarrow> ('e \<Rightarrow> bool) \<Rightarrow> (nat \<Rightarrow> 'f) \<Rightarrow> mosh_message list \<Rightarrow> ('e, 'f) screen \<Rightarrow> bool" where
  "server_messages V clean F [] s = True"
| "server_messages V clean F ((diff, old, new, throwaway) # ms) s =
     (server_diff V clean F diff old new \<and> (sc_states s old \<noteq> None \<or> old = sc_num s) \<and>
      server_messages V clean F ms (screen_apply V diff old new throwaway s))"

text \<open>The terminal the output goes to shows what the screen says it displays.\<close>

definition screen_ok :: "('e, 'f) vt_lib \<Rightarrow> ('e \<Rightarrow> bool) \<Rightarrow> nat \<Rightarrow> nat \<Rightarrow> (nat \<Rightarrow> 'f) \<Rightarrow> string \<Rightarrow> ('e, 'f) screen \<Rightarrow> bool" where
  "screen_ok V clean cols rows F taken s =
     (sc_cols s = cols \<and> sc_rows s = rows \<and> at_frame V clean (F (sc_num s)) (sc_shadow s) \<and>
      (\<forall>n. sc_states s n \<in> {None, Some (F n)}) \<and>
      (case sc_displayed s of
        None \<Rightarrow> sc_latest s = 0 \<and> taken @ sc_out s = []
      | Some f \<Rightarrow> f = F (sc_latest s) \<and> sc_states s (sc_latest s) \<noteq> None) \<and>
      at_frame V clean (F (sc_latest s)) (vt_write V (vt_new V cols rows) (taken @ sc_out s)))"

lemma screen_base_ok:
  assumes "vt_law V clean cols rows F" "screen_ok V clean cols rows F taken s" "sc_states s old \<noteq> None \<or> old = sc_num s"
  shows "at_frame V clean (F old) (sc_shadow (screen_base V old s))"
    and "\<forall>n. sc_states (screen_base V old s) n \<in> {None, Some (F n)}"
    and "\<forall>n. sc_states s n \<noteq> None \<longrightarrow> sc_states (screen_base V old s) n \<noteq> None"
    and "sc_displayed (screen_base V old s) = sc_displayed s" "sc_latest (screen_base V old s) = sc_latest s"
    and "sc_out (screen_base V old s) = sc_out s" "sc_cols (screen_base V old s) = cols"
    and "sc_rows (screen_base V old s) = rows"
proof -
  have st: "\<forall>n. sc_states s n \<in> {None, Some (F n)}" and sz: "sc_cols s = cols" "sc_rows s = rows"
    and sh: "at_frame V clean (F (sc_num s)) (sc_shadow s)"
    using assms(2) by (simp_all add: screen_ok_def)
  have new: "at_frame V clean (F n) (vt_write V (vt_new V cols rows) (vt_diff V (F n) None))" for n
    by (rule vt_lawD(1) [OF assms(1)])
  consider (held) y where "sc_states s old = Some y" "y = F old"
    | (shadow) "sc_states s old = None" "old = sc_num s"
    using assms(3) spec [OF st, of old] by auto
  note cs = this
  show "at_frame V clean (F old) (sc_shadow (screen_base V old s))"
    using cs sz sh new by cases (auto simp: screen_base_def Let_def)
  show "\<forall>n. sc_states (screen_base V old s) n \<in> {None, Some (F n)}"
    using cs sh st by cases (simp_all add: screen_base_def at_frame_def Let_def)
  show "\<forall>n. sc_states s n \<noteq> None \<longrightarrow> sc_states (screen_base V old s) n \<noteq> None"
    using cs by cases (simp_all add: screen_base_def Let_def)
  show "sc_displayed (screen_base V old s) = sc_displayed s" "sc_latest (screen_base V old s) = sc_latest s"
    "sc_out (screen_base V old s) = sc_out s" "sc_cols (screen_base V old s) = cols"
    "sc_rows (screen_base V old s) = rows"
    using sz by (simp_all add: screen_base_def Let_def split: option.split)
qed

lemma screen_draw_ok:
  assumes law: "vt_law V clean cols rows F" and size: "sc_cols s = cols" "sc_rows s = rows"
    and hs: "at_frame V clean (F new) (host_writes V (sc_shadow s) hs)"
    and st: "\<forall>n. sc_states s n \<in> {None, Some (F n)}"
    and shown: "case sc_displayed s of None \<Rightarrow> sc_latest s = 0 \<and> taken @ sc_out s = []
      | Some f \<Rightarrow> f = F (sc_latest s) \<and> sc_states s (sc_latest s) \<noteq> None"
    and t: "at_frame V clean (F (sc_latest s)) (vt_write V (vt_new V cols rows) (taken @ sc_out s))"
  shows "screen_ok V clean cols rows F taken (screen_draw V hs new throwaway s)"
proof -
  define latest where "latest = (if new > sc_latest s then new else sc_latest s)"
  define kept where "kept = (\<lambda>n. if n < throwaway \<and> n \<noteq> latest then None
    else ((sc_states s)(new \<mapsto> F new)) n)"
  have k: "\<forall>n. kept n \<in> {None, Some (F n)}" using st by (simp add: kept_def)
  have "((sc_states s)(new \<mapsto> F new)) latest \<noteq> None"
    using shown by (auto simp: latest_def split: option.splits)
  then have "kept latest \<noteq> None" by (simp add: kept_def)
  with spec [OF k, of latest] have kl: "kept latest = Some (F latest)" by simp
  have drawn: "at_frame V clean (F latest) (vt_write V (vt_new V cols rows)
      ((taken @ sc_out s) @ vt_diff V (F latest) (sc_displayed s)))"
  proof (cases "sc_displayed s")
    case None
    then have e: "taken @ sc_out s = []" using shown by simp
    show ?thesis unfolding e None append_Nil by (rule vt_lawD(1) [OF law])
  next
    case (Some f)
    then have "f = F (sc_latest s)" using shown by simp
    with Some vt_lawD(2) [OF law t, of latest] show ?thesis
      by (simp only: vt_lawD(3) [OF law])
  qed
  have kn: "sc_states s latest = Some (F latest)" if "latest \<noteq> new"
    using kl that by (auto simp: kept_def split: if_splits)
  have "screen_draw V hs new throwaway s =
    s\<lparr>sc_shadow := host_writes V (sc_shadow s) hs, sc_num := new, sc_latest := latest, sc_states := kept,
      sc_out := sc_out s @ vt_diff V (F latest) (sc_displayed s), sc_displayed := Some (F latest)\<rparr>"
    using kn unfolding screen_draw_def Let_def hs [unfolded at_frame_def, THEN conjunct1] latest_def [symmetric] kept_def [symmetric] by simp
  with k drawn kl hs size show ?thesis by (simp add: screen_ok_def)
qed

lemma screen_apply_ok:
  assumes law: "vt_law V clean cols rows F" and ok: "screen_ok V clean cols rows F taken s"
    and diff: "server_diff V clean F diff old new" and held: "sc_states s old \<noteq> None \<or> old = sc_num s"
  shows "screen_ok V clean cols rows F taken (screen_apply V diff old new throwaway s)"
proof (cases "sc_states s new = None")
  case False
  with ok show ?thesis by (simp add: screen_apply_def)
next
  case True
  note b = screen_base_ok [OF law ok held]
  obtain hs where hs: "vt_unmarshal V diff = Some hs"
      "at_frame V clean (F new) (host_writes V (sc_shadow (screen_base V old s)) hs)"
    using diff b(1) by (auto simp: server_diff_def split: option.splits)
  have "screen_ok V clean cols rows F taken (screen_draw V hs new throwaway (screen_base V old s))"
  proof (rule screen_draw_ok [OF law b(7,8) hs(2) b(2)])
    show "case sc_displayed (screen_base V old s) of
        None \<Rightarrow> sc_latest (screen_base V old s) = 0 \<and> taken @ sc_out (screen_base V old s) = []
      | Some f \<Rightarrow> f = F (sc_latest (screen_base V old s)) \<and>
          sc_states (screen_base V old s) (sc_latest (screen_base V old s)) \<noteq> None"
      using ok b(3) unfolding b(4-6) screen_ok_def by (simp split: option.splits)
    show "at_frame V clean (F (sc_latest (screen_base V old s)))
        (vt_write V (vt_new V cols rows) (taken @ sc_out (screen_base V old s)))"
      using ok unfolding b(5,6) screen_ok_def by simp
  qed
  with True hs(1) show ?thesis by (simp add: screen_apply_def Let_def)
qed

lemma screen_run_ok:
  "\<lbrakk>vt_law V clean cols rows F; screen_ok V clean cols rows F taken s; server_messages V clean F ms s\<rbrakk> \<Longrightarrow>
   screen_ok V clean cols rows F taken (screen_run V ms s)"
  by (induction V clean F ms s rule: server_messages.induct) (auto intro: screen_apply_ok)

lemma new_screen_ok: "vt_law V clean cols rows F \<Longrightarrow> screen_ok V clean cols rows F [] (new_screen V cols rows)"
  using vt_lawD(4,5) [of V clean cols rows F] by (simp add: screen_ok_def new_screen_def)


text \<open>
  A terminal of plain text with a pen the snapshot does not have: an asterisk takes a pen that
  writes capitals, an exclamation mark clears the screen and puts it down.
\<close>

definition pen_write :: "string \<times> bool \<Rightarrow> char \<Rightarrow> string \<times> bool" where
  "pen_write e c = (if c = CHR ''!'' then ([], False) else if c = CHR ''*'' then (fst e, True)
     else (fst e @ [if snd e then upper_byte c else c], snd e))"

definition text_vt :: "(string \<times> bool, string) vt_lib" where
  "text_vt = \<lparr>vt_new = (\<lambda>_ _. ([], False)), vt_write = foldl pen_write, vt_snap = fst,
     vt_diff = (\<lambda>f _. CHR ''!'' # f), vt_unmarshal = (\<lambda>d. Some [d])\<rparr>"

abbreviation pen_default :: "string \<times> bool \<Rightarrow> bool" where
  "pen_default e \<equiv> \<not> snd e"

lemma text_vt_write: "foldl pen_write (e, False) (replicate n (CHR ''x'')) = (e @ replicate n (CHR ''x''), False)"
  by (induction n arbitrary: e) (auto simp: pen_write_def)

lemma text_vt_law: "vt_law text_vt pen_default 80 24 (\<lambda>n. replicate n (CHR ''x''))"
  by (simp add: vt_law_def at_frame_def text_vt_def pen_write_def text_vt_write)

text \<open>On an emulator with that pen the same diff gives another screen: the laws are of clean ones.\<close>

lemma text_vt_pen: "vt_snap text_vt (vt_write text_vt ([], True) ''x'') = ''X''"
  by code_simp


end
