(* ===== verification/Session_Io.thy ===== *)
theory Session_Io
  imports Utf8
begin

text \<open>
  A page session's terminal input and output: the queue that is a running command's stdin
  (\<^verbatim>\<open>web/stdin.go\<close>), the cooked line discipline with its echo, and the writer that
  keeps back the start of a character until its end comes (\<^verbatim>\<open>web/session.go\<close>).
\<close>

subsection \<open>The input queue\<close>

record in_item =
  it_b :: string
  it_reply :: bool
  it_cmd :: nat
  it_wake :: bool
  it_interrupt :: bool

definition typed_item :: "string \<Rightarrow> in_item" where
  "typed_item b = \<lparr>it_b = b, it_reply = False, it_cmd = 0, it_wake = False, it_interrupt = False\<rparr>"

definition reply_item :: "string \<Rightarrow> in_item" where
  "reply_item b = (typed_item b)\<lparr>it_reply := True\<rparr>"

definition interrupt_item :: in_item where
  "interrupt_item = (typed_item [])\<lparr>it_interrupt := True\<rparr>"

definition wake_item :: in_item where
  "wake_item = (typed_item [])\<lparr>it_wake := True\<rparr>"

record in_queue =
  iq_items :: "in_item list"
  iq_size :: int
  iq_cmd :: nat
  iq_closed :: bool

definition new_in_queue :: in_queue where
  "new_in_queue = \<lparr>iq_items = [], iq_size = 0, iq_cmd = 0, iq_closed = False\<rparr>"

definition in_queue_limit :: int where
  "in_queue_limit = 1048576"

definition iq_push :: "in_item \<Rightarrow> in_queue \<Rightarrow> in_queue" where
  "iq_push it q =
     (if iq_closed q \<or> iq_size q + int (length (it_b it)) > in_queue_limit then q
      else q\<lparr>iq_items := iq_items q @ [it\<lparr>it_cmd := iq_cmd q\<rparr>],
             iq_size := iq_size q + int (length (it_b it))\<rparr>)"

definition iq_next :: "in_queue \<Rightarrow> in_queue" where
  "iq_next q = q\<lparr>iq_cmd := Suc (iq_cmd q)\<rparr>"

definition iq_close :: "in_queue \<Rightarrow> in_queue" where
  "iq_close q = q\<lparr>iq_closed := True\<rparr>"

text \<open>The items for a command that has ended, at the front of the queue.\<close>

definition stale :: "nat \<Rightarrow> in_item \<Rightarrow> bool" where
  "stale cmd it = ((it_reply it \<or> it_interrupt it) \<and> it_cmd it \<noteq> cmd)"

fun drop_stale :: "nat \<Rightarrow> in_item list \<Rightarrow> int \<Rightarrow> in_item list \<times> int" where
  "drop_stale cmd [] sz = ([], sz)"
| "drop_stale cmd (it # its) sz =
     (if stale cmd it then drop_stale cmd its (sz - int (length (it_b it))) else (it # its, sz))"

text \<open>One turn of \<^verbatim>\<open>Read\<close> into \<open>n\<close> bytes; \<open>Read_Waits\<close> is the wait for more.\<close>

datatype read_res = Read_Data string | Read_Eof | Read_Waits

definition iq_read :: "nat \<Rightarrow> in_queue \<Rightarrow> read_res \<times> in_queue" where
  "iq_read n q = (case drop_stale (iq_cmd q) (iq_items q) (iq_size q) of (items, sz) \<Rightarrow>
     (case items of
       [] \<Rightarrow> (if iq_closed q then Read_Eof else Read_Waits, q\<lparr>iq_items := [], iq_size := sz\<rparr>)
     | it # its \<Rightarrow>
         if it_interrupt it then (Read_Eof, q\<lparr>iq_items := its, iq_size := sz\<rparr>)
         else if it_wake it then (Read_Data [], q\<lparr>iq_items := its, iq_size := sz\<rparr>)
         else (let got = take n (it_b it); left = drop n (it_b it)
           in (Read_Data got,
               q\<lparr>iq_items := (if left = [] then its else it\<lparr>it_b := left\<rparr> # its),
                 iq_size := sz - int (length got)\<rparr>))))"

subsection \<open>The cooked line discipline\<close>

fun echo_rune :: "rune \<Rightarrow> string" where
  "echo_rune r =
     (if r = 13 \<or> r = 10 then [CHR 0x0D, CHR 0x0A]
      else if r = 9 \<or> r = 8 \<or> r = 127 then encode_rune r
      else if r < 32 then ''^'' @ encode_rune (r + 64)
      else encode_rune r)"

definition echo_ctl :: "string \<Rightarrow> string" where
  "echo_ctl s = concat (map echo_rune (runes s))"

definition rub_out :: "nat \<Rightarrow> string" where
  "rub_out n = concat (replicate n [CHR 0x08, CHR '' '', CHR 0x08])"

definition cut_word :: "rune list \<Rightarrow> rune list" where
  "cut_word c = rev (dropWhile (\<lambda>r. r \<noteq> 32) (dropWhile (\<lambda>r. r = 32) (rev c)))"

text \<open>\<^verbatim>\<open>writeStdin\<close>: nothing is queued for no bytes.\<close>

definition stdin_items :: "string \<Rightarrow> in_item list" where
  "stdin_items b = (if b = [] then [] else [typed_item b])"

text \<open>One character: the line held, what is queued for the command, what is echoed.\<close>

definition cooked_rune :: "rune \<Rightarrow> rune list \<Rightarrow> rune list \<times> in_item list \<times> string" where
  "cooked_rune r c =
     (if r = 13 \<or> r = 10 then ([], stdin_items (string_of_runes c @ [CHR 0x0A]), [CHR 0x0D, CHR 0x0A])
      else if r = 127 \<or> r = 8 then (if c \<noteq> [] then (butlast c, [], rub_out 1) else (c, [], []))
      else if r = 21 then ([], [], rub_out (length c))
      else if r = 23 then (cut_word c, [], rub_out (length c - length (cut_word c)))
      else if r = 4 then
        (if c = [] then (c, [interrupt_item], []) else ([], stdin_items (string_of_runes c), []))
      else (c @ [r], [], echo_ctl (encode_rune r)))"

fun cooked_runes :: "rune list \<Rightarrow> rune list \<Rightarrow> rune list \<times> in_item list \<times> string" where
  "cooked_runes [] c = (c, [], [])"
| "cooked_runes (r # rs) c = (case cooked_rune r c of (c1, its, ec) \<Rightarrow>
     (case cooked_runes rs c1 of (c2, its', ec') \<Rightarrow> (c2, its @ its', ec @ ec')))"

definition cooked_input :: "string \<Rightarrow> rune list \<Rightarrow> rune list \<times> in_item list \<times> string" where
  "cooked_input data c = cooked_runes (runes data) c"

text \<open>
  \<^verbatim>\<open>onData\<close> while a command runs: raw bytes for a full-screen program, Ctrl+C in cooked
  mode, or the line discipline. The last component is whether the command is cancelled.
\<close>

definition on_data :: "bool \<Rightarrow> string \<Rightarrow> rune list \<Rightarrow> rune list \<times> in_item list \<times> string \<times> bool" where
  "on_data raw data c =
     (if raw then (c, stdin_items data, [], False)
      else if CHR 0x03 \<in> set data then ([], [interrupt_item], ''^C'' @ [CHR 0x0D, CHR 0x0A], True)
      else (case cooked_input data c of (c1, its, ec) \<Rightarrow> (c1, its, ec, False)))"

subsection \<open>The terminal writer\<close>

fun partial_rune_from :: "nat \<Rightarrow> string \<Rightarrow> nat" where
  "partial_rune_from i [] = 0"
| "partial_rune_from i (c # cs) =
     (if i > 3 then 0
      else if byte_of c < 0x80 then 0
      else if byte_of c \<ge> 0xC0 then
        (let need = (if byte_of c \<ge> 0xF0 then 4 else if byte_of c \<ge> 0xE0 then 3 else 2)
         in if need > i then i else 0)
      else partial_rune_from (Suc i) cs)"

definition partial_rune :: "string \<Rightarrow> nat" where
  "partial_rune b = partial_rune_from 1 (rev b)"

text \<open>One write: the tail kept, and what the terminal is sent, if anything.\<close>

definition tw_write :: "bool \<Rightarrow> string \<Rightarrow> string \<Rightarrow> string \<times> string list" where
  "tw_write pty tail p =
     (let b = tail @ p; cut = partial_rune b;
          tail1 = (if cut > 0 then drop (length b - cut) b else []);
          b1 = (if cut > 0 then take (length b - cut) b else b);
          s = (if \<not> pty then replace_byte b1 (CHR 0x0A) [CHR 0x0D, CHR 0x0A] else b1)
      in (tail1, if s \<noteq> [] then [s] else []))"

fun tw_writes :: "bool \<Rightarrow> string \<Rightarrow> string list \<Rightarrow> string \<times> string list" where
  "tw_writes pty tail [] = (tail, [])"
| "tw_writes pty tail (p # ps) = (case tw_write pty tail p of (t1, o1) \<Rightarrow>
     (case tw_writes pty t1 ps of (t2, o2) \<Rightarrow> (t2, o1 @ o2)))"

subsection \<open>The queue's invariant\<close>

abbreviation held :: "in_item list \<Rightarrow> nat" where
  "held its \<equiv> sum_list (map (\<lambda>it. length (it_b it)) its)"

text \<open>An item as the session makes them: an interrupt and a wake-up carry no bytes.\<close>

definition plain_item :: "in_item \<Rightarrow> bool" where
  "plain_item it = ((it_interrupt it \<or> it_wake it) \<longrightarrow> it_b it = [])"

definition iq_ok :: "in_queue \<Rightarrow> bool" where
  "iq_ok q = (iq_size q = int (held (iq_items q)) \<and> iq_size q \<le> in_queue_limit \<and>
     (\<forall>it \<in> set (iq_items q). plain_item it \<and> it_cmd it \<le> iq_cmd q))"

lemma drop_stale_eq:
  "drop_stale cmd its sz = (dropWhile (stale cmd) its, sz - int (held (takeWhile (stale cmd) its)))"
  by (induction its arbitrary: sz) auto

lemma held_drop_stale: "int (held its) - int (held (takeWhile P its)) = int (held (dropWhile P its))"
  by (induction its) auto

lemma held_dropWhile: "held (dropWhile P its) \<le> held its"
  by (induction its) auto

text \<open>What is typed and waits: the bytes of the items that are not replies.\<close>

definition typed_bytes :: "in_item list \<Rightarrow> string" where
  "typed_bytes its = concat (map it_b (filter (\<lambda>it. \<not> it_reply it) its))"

lemma typed_bytes_simps [simp]:
  "typed_bytes [] = []" "typed_bytes (a @ b) = typed_bytes a @ typed_bytes b"
  "typed_bytes (it # its) = (if it_reply it then [] else it_b it) @ typed_bytes its"
  by (simp_all add: typed_bytes_def)

lemma typed_stale: "\<forall>it \<in> set its. plain_item it \<Longrightarrow> typed_bytes (dropWhile (stale cmd) its) = typed_bytes its"
  by (induction its) (auto simp: stale_def plain_item_def)

datatype iq_op = Op_Push in_item | Op_Next | Op_Close | Op_Read nat

text \<open>A read, with the item it was from, the command running then and what it gave.\<close>

type_synonym iq_trace = "(in_item option \<times> nat \<times> read_res) list"

definition iq_head :: "in_queue \<Rightarrow> in_item option" where
  "iq_head q = (case dropWhile (stale (iq_cmd q)) (iq_items q) of [] \<Rightarrow> None | it # _ \<Rightarrow> Some it)"

fun iq_step :: "iq_op \<Rightarrow> in_queue \<Rightarrow> in_queue \<times> iq_trace" where
  "iq_step (Op_Push it) q = (iq_push it q, [])"
| "iq_step Op_Next q = (iq_next q, [])"
| "iq_step Op_Close q = (iq_close q, [])"
| "iq_step (Op_Read n) q = (case iq_read n q of (r, q') \<Rightarrow> (q', [(iq_head q, iq_cmd q, r)]))"

fun iq_run :: "iq_op list \<Rightarrow> in_queue \<Rightarrow> in_queue \<times> iq_trace" where
  "iq_run [] q = (q, [])"
| "iq_run (x # xs) q = (case iq_step x q of (q1, t1) \<Rightarrow>
     (case iq_run xs q1 of (q2, t2) \<Rightarrow> (q2, t1 @ t2)))"

text \<open>The bytes typed that the queue has room for, and those the reads gave.\<close>

definition taken_by :: "in_queue \<Rightarrow> iq_op \<Rightarrow> string" where
  "taken_by q x = (case x of
     Op_Push it \<Rightarrow> if iq_closed q \<or> in_queue_limit < int (held (iq_items q) + length (it_b it)) \<or> it_reply it
                   then [] else it_b it
   | _ \<Rightarrow> [])"

fun accepted :: "iq_op list \<Rightarrow> in_queue \<Rightarrow> string" where
  "accepted [] q = []"
| "accepted (x # xs) q = taken_by q x @ accepted xs (fst (iq_step x q))"

definition read_typed :: "iq_trace \<Rightarrow> string" where
  "read_typed t = concat (map (\<lambda>(it, _, r). case it of
     Some i \<Rightarrow> (case r of Read_Data b \<Rightarrow> if it_reply i then [] else b | _ \<Rightarrow> []) | None \<Rightarrow> []) t)"

lemma read_typed_append [simp]: "read_typed (a @ b) = read_typed a @ read_typed b"
  by (simp add: read_typed_def)

text \<open>Every read of a reply, and every end by Ctrl+C, is by the command it was for.\<close>

definition replies_own :: "iq_trace \<Rightarrow> bool" where
  "replies_own t = list_all (\<lambda>(it, cmd, _). case it of
     Some i \<Rightarrow> (it_reply i \<or> it_interrupt i) \<longrightarrow> it_cmd i = cmd | None \<Rightarrow> True) t"

fun plain_op :: "iq_op \<Rightarrow> bool" where
  "plain_op (Op_Push it) = plain_item it"
| "plain_op _ = True"

lemma iq_step_ok:
  assumes "iq_ok q" "plain_op x"
  shows "iq_ok (fst (iq_step x q)) \<and> replies_own (snd (iq_step x q)) \<and>
    typed_bytes (iq_items q) @ taken_by q x =
      read_typed (snd (iq_step x q)) @ typed_bytes (iq_items (fst (iq_step x q)))"
proof (cases x)
  case (Op_Push it)
  with assms show ?thesis
    by (auto simp: iq_ok_def iq_push_def plain_item_def replies_own_def read_typed_def taken_by_def)
next
  case (Op_Read n)
  let ?its = "dropWhile (stale (iq_cmd q)) (iq_items q)"
  have s: "iq_size q - int (held (takeWhile (stale (iq_cmd q)) (iq_items q))) = int (held ?its)"
    using assms held_drop_stale [of "iq_items q" "stale (iq_cmd q)"] by (simp add: iq_ok_def)
  have le: "int (held ?its) \<le> in_queue_limit"
    using assms held_dropWhile [of "stale (iq_cmd q)" "iq_items q"] by (simp add: iq_ok_def)
  have c: "\<forall>it \<in> set ?its. plain_item it \<and> it_cmd it \<le> iq_cmd q"
    using assms by (auto simp: iq_ok_def dest: set_dropWhileD)
  have t: "typed_bytes ?its = typed_bytes (iq_items q)"
    using assms by (intro typed_stale) (simp add: iq_ok_def)
  show ?thesis
  proof (cases ?its)
    case Nil
    with Op_Read s t show ?thesis
      by (simp add: iq_read_def drop_stale_eq iq_ok_def in_queue_limit_def taken_by_def iq_head_def
          replies_own_def read_typed_def del: dropWhile_eq_Nil_conv)
  next
    case (Cons it its)
    have "\<not> stale (iq_cmd q) it" using Cons by (metis hd_dropWhile list.sel(1) list.distinct(1))
    with Op_Read s le c Cons t[symmetric] show ?thesis
      by (auto simp: iq_read_def drop_stale_eq iq_ok_def Let_def min_def stale_def plain_item_def
          taken_by_def iq_head_def replies_own_def read_typed_def)
  qed
qed (use assms in \<open>auto simp: iq_ok_def iq_next_def iq_close_def replies_own_def read_typed_def taken_by_def\<close>)

lemma iq_run_ok:
  "iq_ok q \<Longrightarrow> list_all plain_op xs \<Longrightarrow>
    iq_ok (fst (iq_run xs q)) \<and> replies_own (snd (iq_run xs q)) \<and>
    typed_bytes (iq_items q) @ accepted xs q =
      read_typed (snd (iq_run xs q)) @ typed_bytes (iq_items (fst (iq_run xs q)))"
proof (induction xs arbitrary: q)
  case Nil
  then show ?case by (simp add: replies_own_def read_typed_def)
next
  case (Cons x xs)
  then have *: "iq_ok (fst (iq_step x q))" "replies_own (snd (iq_step x q))"
    "typed_bytes (iq_items q) @ taken_by q x =
      read_typed (snd (iq_step x q)) @ typed_bytes (iq_items (fst (iq_step x q)))"
    using iq_step_ok [of q x] by auto
  from Cons.IH [OF *(1)] Cons.prems *(2) *(3) show ?case
    by (auto simp: replies_own_def split: prod.splits) (metis append.assoc)
qed

text \<open>
  C26. The input queue of a page session, over any sequence of what happens to it (what is typed,
  what the terminal answers, Ctrl+C, a new command, the close, reads of any length): the count of
  bytes queued is the bytes of its items and never passes its limit; what the reads give of the
  typed bytes, then what still waits of them, is exactly what was typed and taken, in that order,
  nothing lost and nothing twice; and no command is given an answer, or an interrupt, that was
  for another.
\<close>

theorem typed_ahead_kept:
  assumes "list_all plain_op xs"
  shows "iq_size (fst (iq_run xs new_in_queue)) = int (held (iq_items (fst (iq_run xs new_in_queue)))) \<and>
    iq_size (fst (iq_run xs new_in_queue)) \<le> in_queue_limit \<and>
    accepted xs new_in_queue =
      read_typed (snd (iq_run xs new_in_queue)) @ typed_bytes (iq_items (fst (iq_run xs new_in_queue))) \<and>
    replies_own (snd (iq_run xs new_in_queue))"
proof -
  have "iq_ok new_in_queue" by (simp add: iq_ok_def new_in_queue_def in_queue_limit_def)
  from iq_run_ok [OF this assms] show ?thesis by (simp add: iq_ok_def new_in_queue_def)
qed

text \<open>
  A command is asked for its device attributes and never reads the answer; the next one is given
  what was typed ahead, in two reads, and not the answer.
\<close>

theorem typed_ahead_kept_witness:
  "accepted [Op_Push (typed_item ''ab''), Op_Push (reply_item ''?1;2c''), Op_Next,
       Op_Push (typed_item ''c''), Op_Read 1, Op_Read 9, Op_Read 9] new_in_queue = ''abc'' \<and>
   map (\<lambda>(_, _, r). r) (snd (iq_run [Op_Push (typed_item ''ab''), Op_Push (reply_item ''?1;2c''), Op_Next,
       Op_Push (typed_item ''c''), Op_Read 1, Op_Read 9, Op_Read 9] new_in_queue)) =
     [Read_Data ''a'', Read_Data ''b'', Read_Data ''c''] \<and>
   replies_own (snd (iq_run [Op_Push (typed_item ''ab''), Op_Push (reply_item ''?1;2c''), Op_Next,
       Op_Push (typed_item ''c''), Op_Read 1, Op_Read 9, Op_Read 9] new_in_queue))"
  using typed_ahead_kept [of "[Op_Push (typed_item ''ab''), Op_Push (reply_item ''?1;2c''), Op_Next,
       Op_Push (typed_item ''c''), Op_Read 1, Op_Read 9, Op_Read 9]"]
  by (simp add: plain_item_def typed_item_def reply_item_def) code_simp

subsection \<open>The writer and the characters\<close>

definition need_of :: "nat \<Rightarrow> nat" where
  "need_of c = (if c \<ge> 0xF0 then 4 else if c \<ge> 0xE0 then 3 else 2)"

text \<open>A character's bytes: one below 128, or a lead byte and the others it asks for.\<close>

lemma encode_rune_shape:
  obtains (one) l where "encode_rune r = [l]" "byte_of l < 128"
    | (more) l cs where "encode_rune r = l # cs" "byte_of l \<ge> 0xC0" "need_of (byte_of l) = Suc (length cs)"
        "\<forall>c \<in> set cs. 128 \<le> byte_of c \<and> byte_of c < 0xC0"
proof -
  define q where "q = (if valid_rune r then r else rune_error)"
  have q: "q \<le> 1114111" by (auto simp: q_def valid_rune_def rune_error_def)
  have m: "128 + x mod 64 < (192 :: nat)" for x by (simp add: add.commute less_diff_conv[symmetric])
  consider "q < 128" | "128 \<le> q" "q < 2048" | "2048 \<le> q" "q < 65536" | "65536 \<le> q" by linarith
  then show thesis
  proof cases
    case 1
    then show thesis using one by (simp add: encode_rune_def Let_def q_def[symmetric])
  next
    case 2
    then have "q div 64 < 32" by (simp add: less_mult_imp_div_less)
    with 2 m show thesis by (intro more) (auto simp: encode_rune_def Let_def q_def[symmetric] need_of_def intro: less_trans)
  next
    case 3
    then have "q div 4096 < 16" by (simp add: less_mult_imp_div_less)
    with 3 m show thesis by (intro more) (auto simp: encode_rune_def Let_def q_def[symmetric] need_of_def intro: less_trans)
  next
    case 4
    from q have "q div 262144 < 5" by (simp add: less_mult_imp_div_less)
    with 4 m show thesis by (intro more) (auto simp: encode_rune_def Let_def q_def[symmetric] need_of_def intro: less_trans)
  qed
qed

lemma partial_rune_from_conts:
  "\<lbrakk>\<forall>c \<in> set cs. 128 \<le> byte_of c \<and> byte_of c < 0xC0; i + length cs \<le> 3; byte_of l \<ge> 0xC0\<rbrakk> \<Longrightarrow>
    partial_rune_from i (cs @ l # X) =
      (if need_of (byte_of l) > i + length cs then i + length cs else 0)"
  by (induction cs arbitrary: i) (auto simp: need_of_def Let_def)

lemma partial_rune_from_four:
  "\<lbrakk>\<forall>c \<in> set cs. 128 \<le> byte_of c \<and> byte_of c < 0xC0; i + length cs > 3\<rbrakk> \<Longrightarrow>
    partial_rune_from i (cs @ X) = 0"
proof (induction cs arbitrary: i)
  case Nil
  then show ?case by (cases X) auto
qed auto

text \<open>A string of whole characters.\<close>

definition whole :: "string \<Rightarrow> bool" where
  "whole s = (\<exists>rs. s = string_of_runes rs)"

text \<open>The start of a character that is not all of it.\<close>

definition cut_off :: "string \<Rightarrow> bool" where
  "cut_off t = (t = [] \<or> (\<exists>r u. u \<noteq> [] \<and> encode_rune r = t @ u))"

lemma partial_whole: "partial_rune (string_of_runes rs) = 0"
proof (cases rs rule: rev_cases)
  case (snoc xs r)
  show ?thesis
  proof (cases r rule: encode_rune_shape)
    case (one l)
    then show ?thesis by (simp add: snoc partial_rune_def string_of_runes_def)
  next
    case (more l cs)
    have "length cs \<le> 3" using more(3) by (simp add: need_of_def split: if_splits)
    then consider "length cs \<le> 2" | "length cs = 3" by linarith
    then show ?thesis
    proof cases
      case 1
      with more partial_rune_from_conts [of "rev cs" 1 l] show ?thesis
        by (simp add: snoc partial_rune_def string_of_runes_def)
    next
      case 2
      with more partial_rune_from_four [of "rev cs" 1] show ?thesis
        by (simp add: snoc partial_rune_def string_of_runes_def)
    qed
  qed
qed (simp add: partial_rune_def)

lemma partial_cut_off:
  assumes "cut_off t"
  shows "partial_rune (string_of_runes rs @ t) = length t"
proof (cases "t = []")
  case True
  then show ?thesis by (simp add: partial_whole)
next
  case False
  with assms obtain r u where u: "u \<noteq> []" "encode_rune r = t @ u" by (auto simp: cut_off_def)
  obtain l cs' where t: "t = l # cs'" using False by (cases t) auto
  show ?thesis
  proof (cases r rule: encode_rune_shape)
    case (one l)
    with u t show ?thesis by simp
  next
    case (more l' cs)
    with u t have l: "l' = l" "cs = cs' @ u" by simp_all
    have "length cs \<le> 3" using more(3) by (simp add: need_of_def split: if_splits)
    with u(1) l have "1 + length cs' \<le> 3" by (cases u) auto
    with more l u(1) partial_rune_from_conts [of "rev cs'" 1 l] show ?thesis
      by (simp add: t partial_rune_def)
  qed
qed

lemma string_of_runes_append: "string_of_runes (a @ b) = string_of_runes a @ string_of_runes b"
  by (simp add: string_of_runes_def)

lemma whole_prefix:
  "p @ q = string_of_runes rs \<Longrightarrow> \<exists>k t. p = string_of_runes (take k rs) @ t \<and> cut_off t"
proof (induction rs arbitrary: p)
  case Nil
  then show ?case by (auto simp: cut_off_def)
next
  case (Cons r rs)
  then have e: "p @ q = encode_rune r @ string_of_runes rs" by simp
  then consider x where "p = encode_rune r @ x" "x @ q = string_of_runes rs"
    | u where "encode_rune r = p @ u" "u \<noteq> []"
    by (auto simp: append_eq_append_conv2)
       (metis append_Nil2)+
  then show ?case
  proof cases
    case 1
    from Cons.IH [OF 1(2)] obtain k t where "x = string_of_runes (take k rs) @ t" "cut_off t" by blast
    with 1(1) have "p = string_of_runes (take (Suc k) (r # rs)) @ t \<and> cut_off t" by simp
    then show ?thesis by blast
  next
    case 2
    then have "p = string_of_runes (take 0 (r # rs)) @ p \<and> cut_off p" by (auto simp: cut_off_def)
    then show ?thesis by blast
  qed
qed

definition crlf :: "bool \<Rightarrow> string \<Rightarrow> string" where
  "crlf pty s = (if pty then s else replace_byte s (CHR 0x0A) [CHR 0x0D, CHR 0x0A])"

lemma crlf_Nil [simp]: "(crlf pty s = []) = (s = [])"
  by (cases s) (auto simp: crlf_def replace_byte_def)

lemma tw_write_prefix:
  assumes "tail @ p @ rest = string_of_runes rs"
  obtains xs ys t where "tail @ p = string_of_runes xs @ t" "cut_off t" "t @ rest = string_of_runes ys"
    "tw_write pty tail p = (t, if xs = [] then [] else [crlf pty (string_of_runes xs)])"
proof -
  from whole_prefix [of "tail @ p" rest rs] assms obtain k t
    where kt: "tail @ p = string_of_runes (take k rs) @ t" "cut_off t" by auto
  define xs where "xs = take k rs"
  have "string_of_runes xs @ t @ rest = string_of_runes xs @ string_of_runes (drop k rs)"
    using assms kt(1) by (metis append.assoc append_take_drop_id string_of_runes_append xs_def)
  then have r: "t @ rest = string_of_runes (drop k rs)" by simp
  have b: "tail @ p = string_of_runes xs @ t" using kt(1) by (simp add: xs_def)
  have e: "string_of_runes xs = [] \<longleftrightarrow> xs = []" by (cases xs) auto
  have "tw_write pty tail p = (t, if crlf pty (string_of_runes xs) \<noteq> [] then [crlf pty (string_of_runes xs)] else [])"
    unfolding tw_write_def Let_def b partial_cut_off [OF kt(2)] by (simp add: crlf_def)
  then have "tw_write pty tail p = (t, if xs = [] then [] else [crlf pty (string_of_runes xs)])"
    by (simp add: e)
  with that b kt(2) r show thesis by blast
qed

lemma tw_writes_whole:
  "\<lbrakk>cut_off tail; tail @ concat ps @ rest = string_of_runes rs\<rbrakk> \<Longrightarrow>
   \<exists>pieces. snd (tw_writes pty tail ps) = map (crlf pty) pieces \<and> (\<forall>p \<in> set pieces. whole p) \<and>
     tail @ concat ps = concat pieces @ fst (tw_writes pty tail ps) \<and> cut_off (fst (tw_writes pty tail ps))"
proof (induction ps arbitrary: tail rs)
  case Nil
  then show ?case by auto
next
  case (Cons p ps)
  from Cons.prems(2) have "tail @ p @ (concat ps @ rest) = string_of_runes rs" by simp
  from tw_write_prefix [OF this, of pty] obtain xs ys t where
    k: "tail @ p = string_of_runes xs @ t" "cut_off t" "t @ (concat ps @ rest) = string_of_runes ys"
      "tw_write pty tail p = (t, if xs = [] then [] else [crlf pty (string_of_runes xs)])"
    by metis
  obtain t2 o2 where w: "tw_writes pty t ps = (t2, o2)" by fastforce
  from Cons.IH [OF k(2,3)] w obtain pieces where
    IH: "o2 = map (crlf pty) pieces" "\<forall>p \<in> set pieces. whole p" "t @ concat ps = concat pieces @ t2" "cut_off t2"
    by auto
  let ?ps = "(if xs = [] then [] else [string_of_runes xs]) @ pieces"
  have r: "tw_writes pty tail (p # ps) = (t2, map (crlf pty) ?ps)"
    using k(4) IH(1) w by simp
  have "tail @ concat (p # ps) = (tail @ p) @ concat ps" by simp
  also have "\<dots> = concat ?ps @ t2" using k(1) IH(3) by simp
  finally have "tail @ concat (p # ps) = concat ?ps @ t2" .
  moreover have "\<forall>p \<in> set ?ps. whole p" using IH(2) by (auto simp: whole_def)
  ultimately show ?case using r IH(4) by (metis fst_conv snd_conv)
qed

lemma cut_off_small: "cut_off t \<Longrightarrow> length t < 4"
proof -
  assume "cut_off t"
  moreover have "length (encode_rune r) \<le> 4" for r by (simp add: encode_rune_def Let_def)
  ultimately show ?thesis unfolding cut_off_def
    by (metis append.right_neutral append_eq_conv_conj drop_all length_append less_add_same_cancel1
        length_greater_0_conv list.size(3) order_less_le_trans zero_less_numeral)
qed

lemma cut_off_whole: "cut_off t \<Longrightarrow> whole t \<Longrightarrow> t = []"
  using partial_cut_off [of t "[]"] partial_whole by (auto simp: whole_def)

text \<open>
  C36. The terminal writer, over any cutting of a program's UTF-8 output into writes (in the
  middle of characters too): what the terminal is sent, write by write, are pieces of whole
  characters, with the line ends turned into new lines unless a pty did it; put together with
  the few bytes still kept they are all that was written, in order, and when the output so far
  ends at the end of a character nothing is kept.
\<close>

theorem terminal_gets_whole_characters:
  assumes "whole (concat ps @ rest)"
  shows "\<exists>pieces. snd (tw_writes pty [] ps) = map (crlf pty) pieces \<and> (\<forall>p \<in> set pieces. whole p) \<and>
     concat ps = concat pieces @ fst (tw_writes pty [] ps) \<and> length (fst (tw_writes pty [] ps)) < 4 \<and>
     (whole (concat ps) \<longrightarrow> fst (tw_writes pty [] ps) = [])"
proof -
  from assms obtain rs where rs: "concat ps @ rest = string_of_runes rs" by (auto simp: whole_def)
  have c: "cut_off []" by (simp add: cut_off_def)
  from rs tw_writes_whole [OF c, of ps rest rs pty] obtain pieces where
    p: "snd (tw_writes pty [] ps) = map (crlf pty) pieces" "\<forall>p \<in> set pieces. whole p"
      "concat ps = concat pieces @ fst (tw_writes pty [] ps)" "cut_off (fst (tw_writes pty [] ps))"
    by auto
  have "fst (tw_writes pty [] ps) = []" if w: "whole (concat ps)"
  proof -
    from p(2) have "whole (concat pieces)"
      by (induction pieces) (auto simp: whole_def intro: exI [of _ "[]"], metis string_of_runes_append)
    then obtain a where a: "concat pieces = string_of_runes a" by (auto simp: whole_def)
    from w obtain b where "concat ps = string_of_runes b" by (auto simp: whole_def)
    with p(3) a partial_cut_off [OF p(4), of a] partial_whole [of b] show ?thesis by simp
  qed
  with p cut_off_small [OF p(4)] show ?thesis by blast
qed

text \<open>A euro sign written in three pieces, after a letter and before a line end.\<close>

theorem terminal_gets_whole_characters_witness:
  "tw_writes False [] [''a'' @ [CHR 0xE2], [CHR 0x82], [CHR 0xAC, CHR 0x0A]] =
     ([], [''a'', [CHR 0xE2, CHR 0x82, CHR 0xAC, CHR 0x0D, CHR 0x0A]]) \<and>
   (\<exists>pieces. snd (tw_writes False [] [''a'' @ [CHR 0xE2], [CHR 0x82], [CHR 0xAC, CHR 0x0A]]) =
      map (crlf False) pieces \<and> (\<forall>p \<in> set pieces. whole p))"
proof
  show "tw_writes False [] [''a'' @ [CHR 0xE2], [CHR 0x82], [CHR 0xAC, CHR 0x0A]] =
     ([], [''a'', [CHR 0xE2, CHR 0x82, CHR 0xAC, CHR 0x0D, CHR 0x0A]])" by code_simp
  have "concat [''a'' @ [CHR 0xE2], [CHR 0x82], [CHR 0xAC, CHR 0x0A]] @ [] = string_of_runes [97, 0x20AC, 10]"
    by code_simp
  then have "whole (concat [''a'' @ [CHR 0xE2], [CHR 0x82], [CHR 0xAC, CHR 0x0A]] @ [])"
    unfolding whole_def by blast
  from terminal_gets_whole_characters [OF this, of False]
  show "\<exists>pieces. snd (tw_writes False [] [''a'' @ [CHR 0xE2], [CHR 0x82], [CHR 0xAC, CHR 0x0A]]) =
      map (crlf False) pieces \<and> (\<forall>p \<in> set pieces. whole p)" by blast
qed

end
