(* ===== verification/Term_Protocol.thy ===== *)
theory Term_Protocol
  imports Base64 "HOL-Library.Sublist"
begin

text \<open>
  The terminal protocol's plain Go side (\<^verbatim>\<open>progressive/\<close>): the sequences, the filter
  that takes the host's events out of a terminal's input (\<^verbatim>\<open>events.go\<close>), and the probe
  with the input that comes after it (\<^verbatim>\<open>progressive.go\<close>).
\<close>

subsection \<open>Sequences\<close>

definition st :: string where
  "st = [CHR 0x1B, CHR 0x5C]"

definition osc_head :: string where
  "osc_head = CHR 0x1B # '']7337;''"

definition osc :: "string \<Rightarrow> string" where
  "osc body = osc_head @ body @ st"

definition event_head :: string where
  "event_head = osc_head @ ''event;''"

text \<open>\<^verbatim>\<open>EventSeq\<close>: \<open>js\<close> is the event's JSON.\<close>

definition event_seq :: "string \<Rightarrow> string \<Rightarrow> string" where
  "event_seq i js = osc (''event;'' @ i @ '';'' @ b64_encode js)"

text \<open>\<^verbatim>\<open>terminator\<close>: where the string ends and how long its end is.\<close>

fun terminator :: "string \<Rightarrow> (nat \<times> nat) option" where
  "terminator [] = None"
| "terminator (c # cs) =
     (if c = CHR 0x07 then Some (0, 1)
      else if c = CHR 0x1B \<and> (case cs of d # _ \<Rightarrow> d = CHR 0x5C | [] \<Rightarrow> False) then Some (0, 2)
      else map_option (\<lambda>(a, n). (Suc a, n)) (terminator cs))"

subsection \<open>The event filter\<close>

text \<open>
  \<^verbatim>\<open>take\<close>: what passes, what is held back, and the bodies delivered, in the order they
  are. \<open>hold\<close> is the longest of its lengths that the tail has of an event's head.
\<close>

definition hold :: "string \<Rightarrow> nat" where
  "hold b = (case filter (\<lambda>k. has_suffix b (take k event_head))
       (rev [3..<Suc (min (length event_head - 1) (length b))]) of k # _ \<Rightarrow> k | [] \<Rightarrow> 0)"

lemma event_head_size [simp]: "length event_head = 13"
  by (simp add: event_head_def osc_head_def)

lemma terminator_bound: "terminator b = Some (a, n) \<Longrightarrow> 0 < n \<and> a + n \<le> length b"
  by (induction b arbitrary: a n) (auto split: if_splits list.splits)

function filter_take :: "string \<Rightarrow> string \<times> string \<times> string list" where
  "filter_take b = (case index_of b event_head of
     None \<Rightarrow> (take (length b - hold b) b, drop (length b - hold b) b, [])
   | Some i \<Rightarrow>
      (case terminator (drop (i + 13) b) of
        None \<Rightarrow> (take i b, drop i b, [])
      | Some (a, n) \<Rightarrow>
         (case filter_take (drop (i + 13 + a + n) b) of
           (out, held, bodies) \<Rightarrow> (take i b @ out, held, take a (drop (i + 13) b) # bodies))))"
  by pat_completeness auto
termination
  by (relation "measure length") (auto dest!: index_of_bound terminator_bound)

declare filter_take.simps [simp del]

text \<open>
  \<^verbatim>\<open>deliver\<close>: \<open>un\<close> is \<^verbatim>\<open>json.Unmarshal\<close> into an event; past 256 waiting
  events the new one is dropped.
\<close>

definition deliver :: "(string \<Rightarrow> 'e option) \<Rightarrow> string \<Rightarrow> (string \<times> 'e) list \<Rightarrow> (string \<times> 'e) list" where
  "deliver un body ch = (case cut_byte body (CHR '';'') of (i, enc, ok) \<Rightarrow>
     if \<not> ok then ch
     else (case b64_decode enc of
         None \<Rightarrow> ch
       | Some raw \<Rightarrow> (case un raw of
           None \<Rightarrow> ch
         | Some e \<Rightarrow> if length ch < 256 then ch @ [(i, e)] else ch)))"

record 'e ev_filter =
  ef_ch :: "(string \<times> 'e) list"
  ef_held :: string
  ef_out :: string
  ef_err :: "string option"
  ef_closed :: bool

definition new_ev_filter :: "'e ev_filter" where
  "new_ev_filter = \<lparr>ef_ch = [], ef_held = [], ef_out = [], ef_err = None, ef_closed = False\<rparr>"

text \<open>
  \<^verbatim>\<open>Read\<close> into \<open>n\<close> bytes over what the terminal's reads will give (\<open>src\<close>): data
  and maybe an error. The result, the filter, and what of the source is left;
  \<open>Ev_Blocked\<close> is a read of the terminal that nothing has come for yet.
\<close>

datatype ev_read = Ev_Data string | Ev_Wake | Ev_Error string | Ev_Blocked

definition ev_give :: "nat \<Rightarrow> 'e ev_filter \<Rightarrow> ev_read \<times> 'e ev_filter" where
  "ev_give n f = (Ev_Data (take n (ef_out f)), f\<lparr>ef_out := drop n (ef_out f)\<rparr>)"

definition ev_absorb :: "(string \<Rightarrow> 'e option) \<Rightarrow> string \<Rightarrow> 'e ev_filter \<Rightarrow> 'e ev_filter" where
  "ev_absorb un d f = (case filter_take (ef_held f @ d) of (out, held, bodies) \<Rightarrow>
     f\<lparr>ef_held := held, ef_out := out, ef_ch := fold (deliver un) bodies (ef_ch f)\<rparr>)"

fun ev_filter_read :: "(string \<Rightarrow> 'e option) \<Rightarrow> nat \<Rightarrow> (string \<times> string option) list \<Rightarrow> 'e ev_filter \<Rightarrow>
    ev_read \<times> 'e ev_filter \<times> (string \<times> string option) list" where
  "ev_filter_read un n src f =
     (if ef_out f \<noteq> [] then (case ev_give n f of (r, f') \<Rightarrow> (r, f', src))
      else (case ef_err f of
        Some e \<Rightarrow>
          (if ef_held f \<noteq> [] then
             (case ev_give n (f\<lparr>ef_closed := True, ef_out := ef_held f, ef_held := []\<rparr>) of
               (r, f') \<Rightarrow> (r, f', src))
           else (Ev_Error e, f\<lparr>ef_closed := True\<rparr>, src))
      | None \<Rightarrow>
          (case src of
            [] \<Rightarrow> (Ev_Blocked, f, [])
          | (d, e) # src' \<Rightarrow>
              (if d = [] \<and> e = None then (Ev_Wake, f, src')
               else ev_filter_read un n src' (ev_absorb un d (f\<lparr>ef_err := e\<rparr>))))))"

declare ev_filter_read.simps [simp del]


subsection \<open>The filter and the whole input\<close>

text \<open>
  What the filter should make of an input that ends: what is left when every whole event is
  cut out, the start of an event that never ends included, and the events' bodies.
\<close>

function cut_events :: "string \<Rightarrow> string \<times> string list" where
  "cut_events b = (case index_of b event_head of
     None \<Rightarrow> (b, [])
   | Some i \<Rightarrow>
      (case terminator (drop (i + 13) b) of
        None \<Rightarrow> (b, [])
      | Some (a, n) \<Rightarrow>
         (case cut_events (drop (i + 13 + a + n) b) of
           (out, bodies) \<Rightarrow> (take i b @ out, take a (drop (i + 13) b) # bodies))))"
  by pat_completeness auto
termination
  by (relation "measure length") (auto dest!: index_of_bound terminator_bound)

declare cut_events.simps [simp del]

text \<open>
  A boundary between reads, \<open>b\<close> before it and \<open>q\<close> after, that no event's head straddles with
  only its first byte or two before it.
\<close>

definition clean_split :: "string \<Rightarrow> string \<Rightarrow> bool" where
  "clean_split b q = (\<forall>k \<in> {1, 2}. \<not> (has_suffix b (take k event_head) \<and> has_prefix q (drop k event_head)))"

lemma index_of_None_iff: "index_of s p = None \<longleftrightarrow> (\<forall>u v. s \<noteq> u @ p @ v)"
proof (induction s)
  case Nil
  then show ?case by auto
next
  case (Cons x xs)
  show ?case
  proof
    assume n: "index_of (x # xs) p = None"
    then have np: "\<not> has_prefix (x # xs) p" and "index_of xs p = None" by (auto split: if_splits)
    with Cons have IH: "xs \<noteq> u @ p @ v" for u v by blast
    show "\<forall>u v. x # xs \<noteq> u @ p @ v"
    proof (intro allI notI)
      fix u v assume "x # xs = u @ p @ v"
      with np IH show False by (cases u) (auto simp: has_prefix_iff)
    qed
  next
    assume a: "\<forall>u v. x # xs \<noteq> u @ p @ v"
    have "\<not> has_prefix (x # xs) p" unfolding has_prefix_iff using a append_Nil by metis
    moreover have "\<forall>u v. xs \<noteq> u @ p @ v" using a append_Cons by metis
    ultimately show "index_of (x # xs) p = None" using Cons by simp
  qed
qed

lemma has_prefix_fit: "length p \<le> length s \<Longrightarrow> has_prefix (s @ q) p \<longleftrightarrow> has_prefix s p"
  by (simp add: has_prefix_def)

lemma index_of_append: "index_of s p = Some i \<Longrightarrow> index_of (s @ q) p = Some i"
proof (induction s arbitrary: i)
  case Nil
  then have "p = []" "i = 0" by (auto split: if_splits)
  then show ?case by (cases q) auto
next
  case (Cons x xs)
  show ?case
  proof (cases "has_prefix (x # xs) p")
    case True
    then have "has_prefix (x # xs @ q) p" by (metis append_Cons append.assoc has_prefix_iff)
    with True Cons.prems show ?thesis by simp
  next
    case False
    with Cons.prems obtain j where j: "index_of xs p = Some j" "i = Suc j" by auto
    from index_of_bound [OF j(1)] have "length p \<le> length (x # xs)" by simp
    with False have "\<not> has_prefix (x # xs @ q) p" using has_prefix_fit [of p "x # xs" q] by simp
    with j Cons.IH [OF j(1)] show ?thesis by simp
  qed
qed

lemma terminator_append: "terminator s = Some r \<Longrightarrow> terminator (s @ q) = Some r"
proof (induction s arbitrary: r)
  case (Cons c cs)
  then show ?case by (cases cs) (auto split: if_splits)
qed simp

lemma append_longer: "\<lbrakk>a @ b = c @ d; length a < length c\<rbrakk> \<Longrightarrow> \<exists>z. z \<noteq> [] \<and> c = a @ z \<and> b = z @ d"
  unfolding append_eq_append_conv2 by auto

lemma append_shorter: "\<lbrakk>a @ b = c @ d; length c \<le> length a\<rbrakk> \<Longrightarrow> \<exists>z. a = c @ z"
  unfolding append_eq_append_conv2 by auto

text \<open>A head first found in the second part is found there, past the first part.\<close>

lemma index_of_skip:
  assumes "\<And>u v. u @ v = h \<Longrightarrow> u \<noteq> [] \<Longrightarrow> v \<noteq> [] \<Longrightarrow> \<not> (has_suffix a u \<and> has_prefix b v)"
    "index_of a h = None" "h \<noteq> []"
  shows "index_of (a @ b) h = map_option ((+) (length a)) (index_of b h)"
  using assms(1,2)
proof (induction a)
  case Nil
  then show ?case by (cases "index_of b h") simp_all
next
  case (Cons x xs)
  have np: "\<not> has_prefix (x # xs @ b) h"
  proof
    assume "has_prefix (x # xs @ b) h"
    then obtain t where t: "(x # xs) @ b = h @ t" by (auto simp: has_prefix_iff)
    show False
    proof (cases "length h \<le> length (x # xs)")
      case True
      have "has_prefix ((x # xs) @ b) h" by (simp only: t has_prefix_append)
      with True have "has_prefix (x # xs) h" using has_prefix_fit by blast
      with Cons.prems(2) show False by simp
    next
      case False
      with append_longer [OF t] obtain v where v: "h = (x # xs) @ v" "b = v @ t" "v \<noteq> []" by auto
      have "has_suffix (x # xs) (x # xs)" by (simp add: has_suffix_def)
      with Cons.prems(1) [of "x # xs" v] v show False by simp
    qed
  qed
  have "index_of xs h = None" using Cons.prems(2) by (simp split: if_splits)
  moreover have "\<not> (has_suffix xs u \<and> has_prefix b v)" if "u @ v = h" "u \<noteq> []" "v \<noteq> []" for u v
    using Cons.prems(1) [OF that] by (auto simp: has_suffix_iff)
  ultimately have "index_of (xs @ b) h = map_option ((+) (length xs)) (index_of b h)"
    using Cons.IH by blast
  with np show ?case by (simp add: option.map_comp o_def)
qed


lemma cut_events_skip:
  assumes "index_of (a @ b) event_head = map_option ((+) (length a)) (index_of b event_head)"
  shows "cut_events (a @ b) = (case cut_events b of (out, bodies) \<Rightarrow> (a @ out, bodies))"
proof (cases "index_of b event_head")
  case None
  with assms show ?thesis by (simp add: cut_events.simps [of "a @ b"] cut_events.simps [of b])
next
  case (Some i)
  have "drop (length a + i + j) (a @ b) = drop (i + j) b" for j by simp
  with Some assms show ?thesis
    by (simp add: cut_events.simps [of "a @ b"] cut_events.simps [of b] ac_simps
        split: option.splits prod.splits)
qed

lemma first_rev:
  fixes P :: "nat \<Rightarrow> bool" and n :: nat
  defines "r \<equiv> (case filter P (rev [3..<n]) of k # _ \<Rightarrow> k | [] \<Rightarrow> 0)"
  shows "(P j \<and> 3 \<le> j \<and> j < n \<longrightarrow> j \<le> r) \<and> (r = 0 \<or> P r \<and> 3 \<le> r \<and> r < n)"
  unfolding r_def
proof (induction n)
  case (Suc n)
  then show ?case by (cases "j = n") (auto simp: less_Suc_eq)
qed simp

lemma hold_max: "\<lbrakk>has_suffix b (take k event_head); 3 \<le> k; k \<le> 12; k \<le> length b\<rbrakk> \<Longrightarrow> k \<le> hold b"
  using first_rev [where P = "\<lambda>k. has_suffix b (take k event_head)" and j = k and n = "Suc (min 12 (length b))"]
  by (simp add: hold_def less_Suc_eq_le)

lemma hold_bounds: "hold b \<le> length b" "hold b \<le> 12"
  using first_rev [where P = "\<lambda>k. has_suffix b (take k event_head)" and j = 0 and n = "Suc (min 12 (length b))"]
  by (auto simp: hold_def)

lemma clean_split_drop: "clean_split b q \<Longrightarrow> clean_split (drop k b) q"
  unfolding clean_split_def has_suffix_iff by (metis append.assoc append_take_drop_id)

lemma hold_skip:
  assumes "index_of b event_head = None" "clean_split b q"
  defines "n \<equiv> length b - hold b"
  shows "index_of (take n b @ drop n b @ q) event_head =
     map_option ((+) (length (take n b))) (index_of (drop n b @ q) event_head)"
proof (rule index_of_skip)
  show "event_head \<noteq> []" by (simp add: event_head_def)
  have none: "b \<noteq> u @ event_head @ v" for u v using assms(1) index_of_None_iff by blast
  show "index_of (take n b) event_head = None"
    unfolding index_of_None_iff using none by (metis append.assoc append_take_drop_id)
  fix u v assume uv: "u @ v = event_head" "u \<noteq> []" "v \<noteq> []"
  show "\<not> (has_suffix (take n b) u \<and> has_prefix (drop n b @ q) v)"
  proof
    assume a: "has_suffix (take n b) u \<and> has_prefix (drop n b @ q) v"
    then obtain x where x: "take n b = x @ u" by (auto simp: has_suffix_iff)
    have b: "b = x @ u @ drop n b" using x by (metis append.assoc append_take_drop_id)
    from a obtain y where y: "drop n b @ q = v @ y" by (auto simp: has_prefix_iff)
    show False
    proof (cases "length v \<le> length (drop n b)")
      case True
      with append_shorter [OF y] obtain z where "drop n b = v @ z" by blast
      with b uv(1) none show False by (metis append.assoc)
    next
      case False
      with append_longer [OF y] obtain w where w: "v = drop n b @ w" "q = w @ y" "w \<noteq> []" by auto
      define k where "k = length (u @ drop n b)"
      have "event_head = (u @ drop n b) @ w" using uv(1) w(1) by simp
      then have h: "take k event_head = u @ drop n b" "drop k event_head = w"
        unfolding k_def by (metis append_eq_conv_conj)+
      have ld: "length (drop n b) = hold b" using hold_bounds(1) [of b] by (simp add: n_def)
      have "length b = length x + (length u + length (drop n b))"
        using arg_cong [OF b, of length] by (simp only: length_append)
      moreover have "0 < length u" using uv(2) by simp
      ultimately have k: "hold b < k" "k \<le> length b"
        unfolding k_def length_append ld by linarith+
      have "length event_head = k + length w" using h by (metis append_take_drop_id k_def length_append h(1))
      with w(3) have k12: "k \<le> 12" by (cases w) auto
      have s: "has_suffix b (take k event_head)" unfolding h has_suffix_iff using b by metis
      consider "k \<ge> 3" | "k \<in> {1, 2}" using k(1) by force
      then show False
      proof cases
        case 1
        with hold_max [OF s 1 k12 k(2)] k(1) show False by simp
      next
        case 2
        have "has_prefix q (drop k event_head)" unfolding h w(2) by simp
        with 2 s assms(2) show False by (auto simp: clean_split_def)
      qed
    qed
  qed
qed

lemma filter_take_step:
  "clean_split b q \<Longrightarrow> filter_take b = (out, h, ds) \<Longrightarrow>
    cut_events (b @ q) = (case cut_events (h @ q) of (out', ds') \<Rightarrow> (out @ out', ds @ ds'))"
proof (induction b arbitrary: out h ds rule: filter_take.induct)
  case (1 b)
  show ?case
  proof (cases "index_of b event_head")
    case None
    from cut_events_skip [OF hold_skip [OF None 1(2)]] 1(3) None show ?thesis
      by (auto simp: filter_take.simps [of b] simp flip: append.assoc)
  next
    case (Some i)
    note Si = Some
    note bnd = index_of_bound [OF Some] and bq = index_of_append [OF Some, of q]
    show ?thesis
    proof (cases "terminator (drop (i + 13) b)")
      case None
      with 1(3) Some have o: "out = take i b" "h = drop i b" "ds = []"
        by (simp_all add: filter_take.simps [of b])
      have d: "drop i b = event_head @ drop (i + 13) b"
        using index_of_SomeD [OF Si] by (metis append_eq_conv_conj event_head_size length_take min.absorb2)
      then have h0: "index_of (drop i b @ q) event_head = Some 0"
        by (cases "drop i b @ q") (auto simp: event_head_def osc_head_def)
      have "index_of (take i b @ drop i b @ q) event_head =
          map_option ((+) (length (take i b))) (index_of (drop i b @ q) event_head)"
        using bq h0 bnd by (simp flip: append.assoc)
      from cut_events_skip [OF this] o show ?thesis by (simp flip: append.assoc)
    next
      case (Some r)
      obtain a n where r: "r = (a, n)" by (cases r)
      note bt = terminator_bound [OF Some [unfolded r]] and tq = terminator_append [OF Some [unfolded r], of q]
      obtain o1 h1 d1 where rec: "filter_take (drop (i + 13 + a + n) b) = (o1, h1, d1)"
        by (cases "filter_take (drop (i + 13 + a + n) b)")
      with 1(3) Si Some r have o: "out = take i b @ o1" "h = h1" "ds = take a (drop (i + 13) b) # d1"
        by (simp_all add: filter_take.simps [of b])
      from 1(1) [OF Si Some r [symmetric] clean_split_drop [OF 1(2)] rec]
      have IH: "cut_events (drop (i + 13 + a + n) b @ q) =
          (case cut_events (h1 @ q) of (out', ds') \<Rightarrow> (o1 @ out', d1 @ ds'))" .
      have "drop (i + 13) (b @ q) = drop (i + 13) b @ q"
        "drop (i + 13 + a + n) (b @ q) = drop (i + 13 + a + n) b @ q" using bt bnd by auto
      moreover have "a + (i + 13) \<le> length b" using bt bnd by (simp only: length_drop) arith
      ultimately show ?thesis using bq tq IH o bnd bt
        by (simp add: cut_events.simps [of "b @ q"] split: prod.splits)
    qed
  qed
qed


subsection \<open>Reading through the filter\<close>

text \<open>A program reads through the filter and receives the events as it likes.\<close>

datatype ev_op = Do_Read nat | Do_Recv

fun ev_run :: "(string \<Rightarrow> 'e option) \<Rightarrow> ev_op list \<Rightarrow> 'e ev_filter \<Rightarrow> (string \<times> string option) list \<Rightarrow>
    ev_read list \<times> (string \<times> 'e) list \<times> 'e ev_filter" where
  "ev_run un [] f src = ([], [], f)"
| "ev_run un (Do_Read n # xs) f src = (case ev_filter_read un n src f of (r, f', src') \<Rightarrow>
     (case ev_run un xs f' src' of (rs, evs, g) \<Rightarrow> (r # rs, evs, g)))"
| "ev_run un (Do_Recv # xs) f src = (case ef_ch f of
     [] \<Rightarrow> ev_run un xs f src
   | e # ch \<Rightarrow> (case ev_run un xs (f\<lparr>ef_ch := ch\<rparr>) src of (rs, evs, g) \<Rightarrow> (rs, e # evs, g)))"

definition read_bytes :: "ev_read list \<Rightarrow> string" where
  "read_bytes rs = concat (map (\<lambda>r. case r of Ev_Data d \<Rightarrow> d | _ \<Rightarrow> []) rs)"

definition ended :: "ev_read list \<Rightarrow> bool" where
  "ended rs = list_ex (\<lambda>r. case r of Ev_Error _ \<Rightarrow> True | _ \<Rightarrow> False) rs"

text \<open>What a terminal's reads bring, up to the error that ends them.\<close>

fun src_bytes :: "(string \<times> string option) list \<Rightarrow> string" where
  "src_bytes [] = []"
| "src_bytes ((d, e) # src) = d @ (if e = None then src_bytes src else [])"

fun clean_src :: "string \<Rightarrow> (string \<times> string option) list \<Rightarrow> bool" where
  "clean_src p [] = True"
| "clean_src p ((d, e) # src) = (e = None \<longrightarrow> clean_split (p @ d) (src_bytes src) \<and> clean_src (p @ d) src)"

definition event_of :: "(string \<Rightarrow> 'e option) \<Rightarrow> string \<Rightarrow> (string \<times> 'e) option" where
  "event_of un body = (case cut_byte body (CHR '';'') of (i, enc, ok) \<Rightarrow>
     if ok then map_option (Pair i) (Option.bind (b64_decode enc) un) else None)"

definition events_of :: "(string \<Rightarrow> 'e option) \<Rightarrow> string list \<Rightarrow> (string \<times> 'e) list" where
  "events_of un bodies = concat (map (\<lambda>b. case event_of un b of Some e \<Rightarrow> [e] | None \<Rightarrow> []) bodies)"

lemma events_of_simps [simp]:
  "events_of un [] = []" "events_of un (a @ b) = events_of un a @ events_of un b"
  "events_of un (x # a) = (case event_of un x of Some e \<Rightarrow> [e] | None \<Rightarrow> []) @ events_of un a"
  by (simp_all add: events_of_def)

lemma deliver_event:
  "deliver un b ch = (case event_of un b of None \<Rightarrow> ch | Some e \<Rightarrow> if length ch < 256 then ch @ [e] else ch)"
  by (auto simp: deliver_def event_of_def split: prod.splits option.splits)

lemma fold_deliver:
  "\<exists>k. fold (deliver un) bs ch = ch @ k \<and> subseq k (events_of un bs) \<and>
     (length ch + length (events_of un bs) \<le> 256 \<longrightarrow> k = events_of un bs)"
proof (induction bs arbitrary: ch)
  case Nil
  then show ?case by simp
next
  case (Cons b bs)
  show ?case
  proof (cases "event_of un b")
    case None
    with Cons [of ch] show ?thesis by (simp add: deliver_event [of un b])
  next
    case (Some e)
    show ?thesis
    proof (cases "length ch < 256")
      case True
      from Cons [of "ch @ [e]"] obtain k where
        "fold (deliver un) bs (ch @ [e]) = (ch @ [e]) @ k" "subseq k (events_of un bs)"
        "length ch + 1 + length (events_of un bs) \<le> 256 \<longrightarrow> k = events_of un bs" by auto
      with Some True show ?thesis by (intro exI [of _ "e # k"]) (simp add: deliver_event [of un b])
    next
      case False
      with Cons [of ch] Some show ?thesis by (auto simp: deliver_event [of un b])
    qed
  qed
qed

definition quiet :: "string \<Rightarrow> bool" where
  "quiet h = (cut_events h = (h, []))"

lemma filter_take_quiet: "filter_take b = (out, h, ds) \<Longrightarrow> quiet h \<and> has_suffix b h"
proof (induction b arbitrary: out h ds rule: filter_take.induct)
  case (1 b)
  have s: "has_suffix b (drop n b)" for n
    unfolding has_suffix_iff by (metis append_take_drop_id)
  show ?case
  proof (cases "index_of b event_head")
    case None
    then have "index_of (drop n b) event_head = None" for n
      unfolding index_of_None_iff by (metis append.assoc append_take_drop_id)
    with None 1(2) s show ?thesis
      by (auto simp: filter_take.simps [of b] quiet_def cut_events.simps)
  next
    case (Some i)
    note Si = Some
    show ?thesis
    proof (cases "terminator (drop (i + 13) b)")
      case None
      have d: "drop i b = event_head @ drop (i + 13) b"
        using index_of_SomeD [OF Si] by (metis append_eq_conv_conj event_head_size length_take min.absorb2)
      then have "index_of (drop i b) event_head = Some 0"
        by (cases "drop i b") (auto simp: event_head_def osc_head_def)
      with None Si 1(2) s show ?thesis
        by (auto simp: filter_take.simps [of b] quiet_def cut_events.simps [of "drop i b"] ac_simps)
    next
      case (Some r)
      obtain a n where r: "r = (a, n)" by (cases r)
      obtain o1 h1 d1 where rec: "filter_take (drop (i + 13 + a + n) b) = (o1, h1, d1)"
        by (cases "filter_take (drop (i + 13 + a + n) b)")
      with 1(2) Si Some r have "h = h1" by (simp add: filter_take.simps [of b])
      with 1(1) [OF Si Some r [symmetric] rec] s [of "i + 13 + a + n"] show ?thesis
        by (auto simp: has_suffix_iff)
    qed
  qed
qed

text \<open>What is still to come through the filter.\<close>

definition to_come :: "'e ev_filter \<Rightarrow> (string \<times> string option) list \<Rightarrow> string" where
  "to_come f src = ef_held f @ (if ef_err f = None then src_bytes src else [])"

definition ef_inv :: "'e ev_filter \<Rightarrow> (string \<times> string option) list \<Rightarrow> bool" where
  "ef_inv f src = (quiet (ef_held f) \<and>
     (ef_err f = None \<longrightarrow> (\<exists>p. has_suffix p (ef_held f) \<and> clean_src p src)))"

lemma clean_split_suffix: "clean_split (u @ b) q \<Longrightarrow> clean_split b q"
  using clean_split_drop [of "u @ b" q "length u"] by simp

lemma ev_absorb_step:
  fixes un :: "string \<Rightarrow> 'e option"
  assumes "ef_inv f ((d, e) # src)" "ef_err f = None" "ef_out f = []"
  defines "g \<equiv> ev_absorb un d (f\<lparr>ef_err := e\<rparr>)"
  obtains bs where "ef_inv g src" "ef_ch g = fold (deliver un) bs (ef_ch f)"
    "fst (cut_events (to_come f ((d, e) # src))) = ef_out g @ fst (cut_events (to_come g src))"
    "snd (cut_events (to_come f ((d, e) # src))) = bs @ snd (cut_events (to_come g src))"
    "ef_err g = e" "ef_closed g = ef_closed f"
proof -
  obtain out h bs where t: "filter_take (ef_held f @ d) = (out, h, bs)"
    by (cases "filter_take (ef_held f @ d)")
  let ?q = "if e = None then src_bytes src else []"
  from assms(1,2) obtain p where p: "has_suffix p (ef_held f)" "clean_src p ((d, e) # src)"
    by (auto simp: ef_inv_def)
  from p(1) obtain u where u: "p = u @ ef_held f" by (auto simp: has_suffix_iff)
  have nil: "clean_split b []" for b by (simp add: clean_split_def event_head_def osc_head_def)
  have c: "clean_split (ef_held f @ d) ?q"
    using p(2) nil u clean_split_suffix [of u "ef_held f @ d"] by auto
  have g: "ef_held g = h" "ef_out g = out" "ef_ch g = fold (deliver un) bs (ef_ch f)" "ef_err g = e"
    "ef_closed g = ef_closed f"
    by (simp_all add: g_def ev_absorb_def t)
  from filter_take_quiet [OF t] obtain v where v: "quiet h" "ef_held f @ d = v @ h"
    by (auto simp: has_suffix_iff)
  have "has_suffix (p @ d) h" unfolding has_suffix_iff u using v(2) by (metis append.assoc)
  then have "ef_inv g src" unfolding ef_inv_def g using v(1) p(2) by auto
  moreover have "to_come f ((d, e) # src) = (ef_held f @ d) @ ?q" "to_come g src = h @ ?q"
    using assms(2) g by (simp_all add: to_come_def)
  ultimately show thesis
    using that [of bs] filter_take_step [OF c t] g by (auto split: prod.splits)
qed


lemma cut_events_Nil [simp]: "cut_events [] = ([], [])"
  by (simp add: cut_events.simps event_head_def osc_head_def)

lemma ev_filter_read_step:
  "\<lbrakk>ef_inv f src; ev_filter_read un n src f = (r, f', src')\<rbrakk> \<Longrightarrow>
   \<exists>bs. ef_inv f' src' \<and> ef_ch f' = fold (deliver un) bs (ef_ch f) \<and>
     ef_out f @ fst (cut_events (to_come f src)) =
       read_bytes [r] @ ef_out f' @ fst (cut_events (to_come f' src')) \<and>
     snd (cut_events (to_come f src)) = bs @ snd (cut_events (to_come f' src')) \<and>
     (ended [r] \<longrightarrow> ef_out f' = [] \<and> to_come f' src' = [] \<and> ef_closed f') \<and>
     (ef_closed f \<longrightarrow> ef_closed f')"
proof (induction un n src f rule: ev_filter_read.induct)
  case (1 un n src f)
  note prems = 1(2,3)
  show ?case
  proof (cases "ef_out f = []")
    case False
    with prems show ?thesis
      by (intro exI [of _ "[]"])
         (auto simp: ev_filter_read.simps [of un n _ f] ev_give_def read_bytes_def ended_def ef_inv_def to_come_def)
  next
    case True
    note out = True
    show ?thesis
    proof (cases "ef_err f")
      case (Some e)
      with prems out show ?thesis
        by (intro exI [of _ "[]"])
           (auto simp: ev_filter_read.simps [of un n _ f] ev_give_def read_bytes_def ended_def
              ef_inv_def to_come_def quiet_def split: if_splits)
    next
      case None
      note err = None
      show ?thesis
      proof (cases src)
        case Nil
        with prems out err show ?thesis
          by (intro exI [of _ "[]"])
             (auto simp: ev_filter_read.simps [of un n _ f] read_bytes_def ended_def)
      next
        case (Cons a src1)
        obtain d e where a: "a = (d, e)" by (cases a)
        show ?thesis
        proof (cases "d = [] \<and> e = None")
          case True
          then have "ef_inv f src1" "to_come f src1 = to_come f src"
            using prems(1) err Cons a by (auto simp: ef_inv_def to_come_def)
          with True prems(2) out err Cons a show ?thesis
            by (intro exI [of _ "[]"])
               (auto simp: ev_filter_read.simps [of un n _ f] read_bytes_def ended_def)
        next
          case False
          let ?g = "ev_absorb un d (f\<lparr>ef_err := e\<rparr>)"
          have rd: "ev_filter_read un n src1 ?g = (r, f', src')"
            using prems(2) out err Cons a False by (simp add: ev_filter_read.simps [of un n _ f])
          obtain bs where g: "ef_inv ?g src1" "ef_ch ?g = fold (deliver un) bs (ef_ch f)"
            "fst (cut_events (to_come f src)) = ef_out ?g @ fst (cut_events (to_come ?g src1))"
            "snd (cut_events (to_come f src)) = bs @ snd (cut_events (to_come ?g src1))"
            "ef_closed ?g = ef_closed f"
            using ev_absorb_step [of f d e src1 un] prems(1) err out Cons a by metis
          have "\<not> ef_out f \<noteq> []" using out by simp
          from 1(1) [OF this err Cons a [symmetric] False g(1) rd] obtain bs' where
            "ef_inv f' src' \<and> ef_ch f' = fold (deliver un) bs' (ef_ch ?g) \<and>
             ef_out ?g @ fst (cut_events (to_come ?g src1)) =
               read_bytes [r] @ ef_out f' @ fst (cut_events (to_come f' src')) \<and>
             snd (cut_events (to_come ?g src1)) = bs' @ snd (cut_events (to_come f' src')) \<and>
             (ended [r] \<longrightarrow> ef_out f' = [] \<and> to_come f' src' = [] \<and> ef_closed f') \<and>
             (ef_closed ?g \<longrightarrow> ef_closed f')" by blast
          with g out show ?thesis by (intro exI [of _ "bs @ bs'"]) simp
        qed
      qed
    qed
  qed
qed

lemma read_bytes_Cons: "read_bytes (r # rs) = read_bytes [r] @ read_bytes rs"
  by (simp add: read_bytes_def)

lemma ended_Cons: "ended (r # rs) = (ended [r] \<or> ended rs)"
  by (simp add: ended_def)

lemma ev_run_ok:
  "\<lbrakk>ef_inv f src; ev_run un xs f src = (rs, evs, g)\<rbrakk> \<Longrightarrow>
   (\<exists>X. ef_out f @ fst (cut_events (to_come f src)) = read_bytes rs @ X \<and> (ended rs \<longrightarrow> X = [] \<and> ef_closed g)) \<and>
   (\<exists>K. evs @ ef_ch g = ef_ch f @ K \<and> subseq K (events_of un (snd (cut_events (to_come f src)))) \<and>
      (ended rs \<and> length (ef_ch f) + length (events_of un (snd (cut_events (to_come f src)))) \<le> 256 \<longrightarrow>
        K = events_of un (snd (cut_events (to_come f src))))) \<and>
   (ef_closed f \<longrightarrow> ef_closed g)"
proof (induction un xs f src arbitrary: rs evs g rule: ev_run.induct)
  case (1 un f src)
  then show ?case by (auto simp: read_bytes_def ended_def)
next
  case (2 un n xs f src)
  obtain r f' src' where rd: "ev_filter_read un n src f = (r, f', src')"
    by (cases "ev_filter_read un n src f")
  obtain rs' evs' g' where rn: "ev_run un xs f' src' = (rs', evs', g')"
    by (cases "ev_run un xs f' src'")
  with 2(3) rd have o: "rs = r # rs'" "evs = evs'" "g = g'" by simp_all
  from ev_filter_read_step [OF 2(2) rd] obtain bs where
    s: "ef_inv f' src'" "ef_ch f' = fold (deliver un) bs (ef_ch f)"
      "ef_out f @ fst (cut_events (to_come f src)) =
        read_bytes [r] @ ef_out f' @ fst (cut_events (to_come f' src'))"
      "snd (cut_events (to_come f src)) = bs @ snd (cut_events (to_come f' src'))"
      "ended [r] \<longrightarrow> ef_out f' = [] \<and> to_come f' src' = [] \<and> ef_closed f'"
      "ef_closed f \<longrightarrow> ef_closed f'" by blast
  note IH = 2(1) [OF rd [symmetric] refl s(1) rn]
  obtain X where X: "ef_out f' @ fst (cut_events (to_come f' src')) = read_bytes rs' @ X"
    "ended rs' \<longrightarrow> X = [] \<and> ef_closed g'" using IH by blast
  let ?E = "events_of un (snd (cut_events (to_come f' src')))"
  obtain K where K: "evs' @ ef_ch g' = ef_ch f' @ K" "subseq K ?E"
    "ended rs' \<and> length (ef_ch f') + length ?E \<le> 256 \<longrightarrow> K = ?E" using IH by blast
  obtain k where k: "ef_ch f' = ef_ch f @ k" "subseq k (events_of un bs)"
    "length (ef_ch f) + length (events_of un bs) \<le> 256 \<longrightarrow> k = events_of un bs"
    using fold_deliver [of un bs "ef_ch f"] s(2) by auto
  have closed: "ef_closed f' \<longrightarrow> ef_closed g'" using IH by blast
  have "ef_out f @ fst (cut_events (to_come f src)) = read_bytes rs @ X"
    using s(3) X(1) by (simp add: o(1) read_bytes_Cons [of r rs'])
  moreover have "ended rs \<longrightarrow> X = [] \<and> ef_closed g"
    using s(5) X closed by (auto simp: o ended_Cons [of r rs'])
  moreover have "evs @ ef_ch g = ef_ch f @ k @ K" using K(1) k(1) by (simp add: o)
  moreover have "subseq (k @ K) (events_of un (snd (cut_events (to_come f src))))"
    using k(2) K(2) by (simp add: s(4) list_emb_append_mono)
  moreover have "k @ K = events_of un (snd (cut_events (to_come f src)))"
    if "ended rs" "length (ef_ch f) + length (events_of un (snd (cut_events (to_come f src)))) \<le> 256"
  proof -
    from that(2) have e: "k = events_of un bs" using k(3) by (simp add: s(4))
    have "K = ?E"
    proof (cases "ended [r]")
      case True
      with s(5) K(2) show ?thesis by simp
    next
      case False
      with that(1) have "ended rs'" by (simp add: o ended_Cons [of r rs'])
      with K(3) that(2) e k(1) show ?thesis by (simp add: s(4))
    qed
    with e show ?thesis by (simp add: s(4))
  qed
  moreover have "ef_closed f \<longrightarrow> ef_closed g" using s(6) closed by (simp add: o)
  ultimately show ?case by blast
next
  case (3 un xs f src)
  show ?case
  proof (cases "ef_ch f")
    case Nil
    with 3 show ?thesis by simp
  next
    case (Cons e ch)
    let ?f = "f\<lparr>ef_ch := ch\<rparr>"
    have same: "ef_inv ?f src" "to_come ?f src = to_come f src" "ef_out ?f = ef_out f" "ef_closed ?f = ef_closed f"
      using 3(3) by (simp_all add: ef_inv_def to_come_def)
    obtain rs' evs' g' where rn: "ev_run un xs ?f src = (rs', evs', g')"
      by (cases "ev_run un xs ?f src")
    with 3(4) Cons have o: "rs = rs'" "evs = e # evs'" "g = g'" by simp_all
    note IH = 3(2) [OF Cons same(1) rn, unfolded same]
    then obtain K where "evs' @ ef_ch g' = ch @ K"
      "subseq K (events_of un (snd (cut_events (to_come f src))))"
      "ended rs' \<and> length ch + length (events_of un (snd (cut_events (to_come f src)))) \<le> 256 \<longrightarrow>
        K = events_of un (snd (cut_events (to_come f src)))" by auto
    then have "\<exists>K. evs @ ef_ch g = ef_ch f @ K \<and> subseq K (events_of un (snd (cut_events (to_come f src)))) \<and>
      (ended rs \<and> length (ef_ch f) + length (events_of un (snd (cut_events (to_come f src)))) \<le> 256 \<longrightarrow>
        K = events_of un (snd (cut_events (to_come f src))))"
      by (intro exI [of _ K]) (simp add: o Cons)
    with IH show ?thesis by (simp add: o)
  qed
qed

text \<open>
  C27. Reading a terminal through the event filter, in reads of any sizes and receiving the events
  whenever: whatever way the input came in reads, as long as no read ended in the first byte or
  two of an event's head, what the program reads is the beginning of the input with its events
  cut out (all of it when the input has ended, and then the channel is closed); and the events
  it is given are among those of the input, in order, and all of them when no more than 256 came.
\<close>

theorem filter_takes_events_out:
  assumes "clean_src [] src" "ev_run un xs new_ev_filter src = (rs, evs, g)"
  shows "has_prefix (fst (cut_events (src_bytes src))) (read_bytes rs) \<and>
    subseq (evs @ ef_ch g) (events_of un (snd (cut_events (src_bytes src)))) \<and>
    (ended rs \<longrightarrow> read_bytes rs = fst (cut_events (src_bytes src)) \<and> ef_closed g \<and>
      (length (events_of un (snd (cut_events (src_bytes src)))) \<le> 256 \<longrightarrow>
        evs @ ef_ch g = events_of un (snd (cut_events (src_bytes src)))))"
proof -
  have "ef_inv (new_ev_filter :: 'a ev_filter) src"
    using assms(1) by (auto simp: ef_inv_def new_ev_filter_def quiet_def has_suffix_def)
  from ev_run_ok [OF this assms(2)] show ?thesis
    by (auto simp: new_ev_filter_def to_come_def has_prefix_iff)
qed


text \<open>An event that comes in two reads, cut in its head, between keys.\<close>

definition two_reads :: "(string \<times> string option) list" where
  "two_reads = [(''a'' @ take 5 (event_seq ''w'' ''{}''), None),
     (drop 5 (event_seq ''w'' ''{}'') @ ''b'', None), ([], Some ''EOF'')]"

theorem filter_takes_events_out_witness:
  "ev_run Some [Do_Read 9, Do_Read 9, Do_Read 9, Do_Recv] new_ev_filter two_reads =
     ([Ev_Data ''a'', Ev_Data ''b'', Ev_Error ''EOF''], [(''w'', ''{}'')],
      \<lparr>ef_ch = [], ef_held = [], ef_out = [], ef_err = Some ''EOF'', ef_closed = True\<rparr>) \<and>
   has_prefix (fst (cut_events (src_bytes two_reads))) ''ab''"
proof
  show r: "ev_run Some [Do_Read 9, Do_Read 9, Do_Read 9, Do_Recv] new_ev_filter two_reads =
     ([Ev_Data ''a'', Ev_Data ''b'', Ev_Error ''EOF''], [(''w'', ''{}'')],
      \<lparr>ef_ch = [], ef_held = [], ef_out = [], ef_err = Some ''EOF'', ef_closed = True\<rparr>)"
    by code_simp
  have "clean_src [] two_reads" by code_simp
  from filter_takes_events_out [OF this r]
  show "has_prefix (fst (cut_events (src_bytes two_reads))) ''ab''" by (simp add: read_bytes_def)
qed

text \<open>
  Cut after its first byte, the same event is not put back together: all of it passes as typed.
\<close>

lemma head_cut_early_passes:
  "ev_run Some [Do_Read 99, Do_Read 99] new_ev_filter
     [(take 1 (event_seq ''w'' ''{}''), None), (drop 1 (event_seq ''w'' ''{}''), None)] =
   ([Ev_Data (take 1 (event_seq ''w'' ''{}'')), Ev_Data (drop 1 (event_seq ''w'' ''{}''))], [],
    new_ev_filter)"
  by code_simp

subsection \<open>The probe\<close>

text \<open>\<^verbatim>\<open>Caps\<close>; \<open>'f\<close> are the floating point numbers.\<close>

record 'f caps =
  ca_v :: int
  ca_host :: string
  ca_version :: string
  ca_trust :: string
  ca_cell_w :: 'f
  ca_cell_h :: 'f
  ca_dpr :: 'f
  ca_cols :: int
  ca_rows :: int
  ca_features :: "string list"
  ca_path :: string

definition caps_has :: "'f caps option \<Rightarrow> string \<Rightarrow> bool" where
  "caps_has c feature = (case c of None \<Rightarrow> False | Some k \<Rightarrow> feature \<in> set (ca_features k))"

definition link_path_of :: "'f caps option \<Rightarrow> string" where
  "link_path_of c = (case c of None \<Rightarrow> [] | Some k \<Rightarrow> ca_path k)"

definition reply_head :: string where
  "reply_head = osc_head @ ''caps;''"

definition kitty_reply :: string where
  "kitty_reply = CHR 0x1B # ''_Gi=31;''"

definition xt_reply :: string where
  "xt_reply = CHR 0x1B # ''P>|''"

definition caps_reply :: "string \<Rightarrow> string" where
  "caps_reply js = reply_head @ b64_encode js @ st"

text \<open>\<^verbatim>\<open>cutString\<close>: the body, the rest, whether the head is there, whether it is whole.\<close>

definition cut_string :: "string \<Rightarrow> string \<Rightarrow> string \<times> string \<times> bool \<times> bool" where
  "cut_string b head = (case index_of b head of
     None \<Rightarrow> ([], b, False, False)
   | Some i \<Rightarrow> (let rest = drop (i + length head) b in
       (case terminator rest of
         None \<Rightarrow> ([], b, True, False)
       | Some (a, n) \<Rightarrow> (take a rest, take i b @ drop (a + n) rest, True, True))))"

text \<open>\<^verbatim>\<open>cutDA1\<close>, from the CSI at \<open>i\<close> on.\<close>

definition csi_q :: string where
  "csi_q = CHR 0x1B # ''[?''"

definition attr_char :: "char \<Rightarrow> bool" where
  "attr_char c = (is_digit c \<or> c = CHR '';'')"

function cut_da1_at :: "string \<Rightarrow> nat \<Rightarrow> (string list \<times> string) option" where
  "cut_da1_at b i =
     (let attrs = takeWhile attr_char (drop (i + 3) b); j = i + 3 + length attrs in
      if length b \<le> j then None
      else if b ! j = CHR ''c'' then Some (split_byte attrs (CHR '';''), take i b @ drop (j + 1) b)
      else (case index_of (drop j b) csi_q of None \<Rightarrow> None | Some k \<Rightarrow> cut_da1_at b (j + k)))"
  by pat_completeness auto
termination
  by (relation "measure (\<lambda>(b, i). length b - i)") (auto dest!: index_of_bound simp: csi_q_def)

declare cut_da1_at.simps [simp del]

definition cut_da1 :: "string \<Rightarrow> (string list \<times> string) option" where
  "cut_da1 b = (case index_of b csi_q of None \<Rightarrow> None | Some i \<Rightarrow> cut_da1_at b i)"

definition other_terminal :: "string \<Rightarrow> ('f :: zero) caps" where
  "other_terminal name = \<lparr>ca_v = 0, ca_host = name, ca_version = [], ca_trust = ''local'',
     ca_cell_w = 0, ca_cell_h = 0, ca_dpr = 0, ca_cols = 0, ca_rows = 0, ca_features = [], ca_path = []\<rparr>"

definition add_feature :: "bool \<Rightarrow> string \<Rightarrow> 'f caps \<Rightarrow> 'f caps" where
  "add_feature b x c = (if b \<and> \<not> caps_has (Some c) x then c\<lparr>ca_features := ca_features c @ [x]\<rparr> else c)"

text \<open>\<^verbatim>\<open>scan\<close>: \<open>None\<close> is not done yet; \<open>un\<close> is \<^verbatim>\<open>json.Unmarshal\<close> into a \<^verbatim>\<open>Caps\<close>.\<close>

definition scan :: "(string \<Rightarrow> ('f :: zero) caps option) \<Rightarrow> string \<Rightarrow> ('f caps option \<times> string) option" where
  "scan un buf =
     (case cut_string buf reply_head of (body, r1, ok1, whole1) \<Rightarrow>
      if ok1 \<and> \<not> whole1 then None
      else (let websh = (if ok1 then Option.bind (b64_decode body) un else None) in
       (case cut_string r1 kitty_reply of (kbody, r2, ok2, whole2) \<Rightarrow>
        if ok2 \<and> \<not> whole2 then None
        else (let kitty = (ok2 \<and> kbody = ''OK'') in
         (case cut_string r2 xt_reply of (name, r3, ok3, whole3) \<Rightarrow>
          if ok3 \<and> \<not> whole3 then None
          else (case cut_da1 r3 of
             None \<Rightarrow> None
           | Some (attrs, rest) \<Rightarrow>
              (let sixel = (''4'' \<in> set attrs);
                   caps = (if websh = None \<and> (kitty \<or> sixel \<or> name \<noteq> []) then Some (other_terminal name) else websh)
               in Some (map_option (\<lambda>c. add_feature sixel ''sixel'' (add_feature kitty ''kitty-graphics'' c)) caps,
                        rest))))))))"


text \<open>
  \<^verbatim>\<open>Probe\<close>, once its queries are written: \<open>n\<close> is how many of the terminal's reads come
  before the deadline. What it found, what it keeps (\<^verbatim>\<open>buf\<close>), the error it saw, and the
  reads it did not use. The channel of its reads is closed only after one with an error, at which
  the probe is over, so that case of the select does not arise.
\<close>

datatype 'f probe_res = Probe_Caps "'f caps option" | Probe_Error string | Probe_No_Answer

fun probe :: "(string \<Rightarrow> ('f :: zero) caps option) \<Rightarrow> nat \<Rightarrow> string \<Rightarrow> (string \<times> string option) list \<Rightarrow>
    'f probe_res \<times> string \<times> string option \<times> (string \<times> string option) list" where
  "probe un n buf [] = (Probe_No_Answer, buf, None, [])"
| "probe un n buf ((d, e) # src) =
     (if n = 0 then (Probe_No_Answer, buf, None, (d, e) # src)
      else (case scan un (buf @ d) of
        Some (caps, rest) \<Rightarrow> (Probe_Caps caps, rest, None, src)
      | None \<Rightarrow> (case e of
          Some x \<Rightarrow> (Probe_Error x, buf @ d, e, src)
        | None \<Rightarrow> probe un (n - 1) (buf @ d) src)))"

text \<open>
  \<^verbatim>\<open>after\<close>: the input after a probe. \<open>af_ch\<close> is what the pump still hands over before its
  channel closes.
\<close>

record after =
  af_r :: "(string \<times> string option) list"
  af_ch :: "(string \<times> string option) list"
  af_buf :: string
  af_err :: "string option"
  af_done :: bool

fun after_fill :: "(string \<times> string option) list \<Rightarrow> after \<Rightarrow> after" where
  "after_fill [] a = a\<lparr>af_ch := [], af_done := True\<rparr>"
| "after_fill ((d, e) # ch) a =
     (if d = [] \<and> e = None then after_fill ch a else a\<lparr>af_ch := ch, af_buf := d, af_err := e\<rparr>)"

definition after_read :: "nat \<Rightarrow> after \<Rightarrow> ev_read \<times> after" where
  "after_read n a0 =
     (let a = (if af_buf a0 = [] \<and> af_err a0 = None \<and> \<not> af_done a0 then after_fill (af_ch a0) a0 else a0)
      in if af_buf a \<noteq> [] then (Ev_Data (take n (af_buf a)), a\<lparr>af_buf := drop n (af_buf a)\<rparr>)
         else (case af_err a of
           Some e \<Rightarrow> (Ev_Error e, a)
         | None \<Rightarrow> (case af_r a of
             [] \<Rightarrow> (Ev_Blocked, a)
           | (d, e) # r \<Rightarrow>
              (if d \<noteq> [] then Ev_Data d else case e of None \<Rightarrow> Ev_Wake | Some x \<Rightarrow> Ev_Error x,
               a\<lparr>af_r := (if d \<noteq> [] \<and> e \<noteq> None then ([], e) # r else r)\<rparr>))))"

text \<open>
  A read of the terminal itself that gives data and an error is the data, then the error. The
  pump's share of what is left to read is any beginning of it.
\<close>

definition after_probe :: "nat \<Rightarrow> string \<Rightarrow> string option \<Rightarrow> (string \<times> string option) list \<Rightarrow> after" where
  "after_probe m buf e src = \<lparr>af_r = drop m src, af_ch = take m src, af_buf = buf, af_err = e, af_done = False\<rparr>"

text \<open>A program's reads, until one is an error.\<close>

fun after_reads :: "nat list \<Rightarrow> after \<Rightarrow> ev_read list" where
  "after_reads [] a = []"
| "after_reads (n # ns) a = (case after_read n a of (r, a1) \<Rightarrow>
     r # (case r of Ev_Error _ \<Rightarrow> [] | _ \<Rightarrow> after_reads ns a1))"

text \<open>What the reads ahead bring, up to an error.\<close>

definition ahead :: "after \<Rightarrow> string" where
  "ahead a = af_buf a @ (if af_err a = None then src_bytes (af_ch a @ af_r a) else [])"

lemma src_bytes_wakes [simp]: "src_bytes (([], None) # src) = src_bytes src"
  by simp

lemma after_fill_ch: "after_fill ch (a\<lparr>af_ch := c\<rparr>) = after_fill ch a"
proof (induction ch arbitrary: a)
  case (Cons x ch)
  then show ?case by (cases x) simp
qed simp

lemma after_fill_ahead:
  "\<lbrakk>af_buf a = []; af_err a = None; af_ch a = ch\<rbrakk> \<Longrightarrow>
    ahead (after_fill ch a) = ahead a \<and>
    (af_buf (after_fill ch a) = [] \<and> af_err (after_fill ch a) = None \<longrightarrow>
      af_ch (after_fill ch a) = [] \<and> af_done (after_fill ch a)) \<and> af_r (after_fill ch a) = af_r a"
proof (induction ch arbitrary: a)
  case Nil
  then show ?case by (simp add: ahead_def)
next
  case (Cons x ch)
  obtain d e where x: "x = (d, e)" by (cases x)
  show ?case
  proof (cases "d = [] \<and> e = None")
    case True
    have "ahead (a\<lparr>af_ch := ch\<rparr>) = ahead a" using True Cons.prems x by (simp add: ahead_def)
    then show ?thesis using Cons.IH [of "a\<lparr>af_ch := ch\<rparr>"] Cons.prems x True
      by (simp add: after_fill_ch)
  next
    case False
    with Cons.prems x show ?thesis by (auto simp: ahead_def)
  qed
qed



lemma after_read_ahead:
  assumes "af_done a \<longrightarrow> af_ch a = []" "after_read n a = (r, b)"
  shows "if ended [r] then ahead a = [] else ahead a = read_bytes [r] @ ahead b \<and> (af_done b \<longrightarrow> af_ch b = [])"
proof -
  define c where "c = (if af_buf a = [] \<and> af_err a = None \<and> \<not> af_done a then after_fill (af_ch a) a else a)"
  have c: "ahead c = ahead a" "af_buf c = [] \<and> af_err c = None \<longrightarrow> af_ch c = [] \<and> af_done c"
    "af_done c \<longrightarrow> af_ch c = []"
  proof -
    have d: "af_done (after_fill ch x) \<longrightarrow> af_done x \<or> af_ch (after_fill ch x) = []" for ch x
    proof (induction ch arbitrary: x)
      case (Cons p ch)
      then show ?case using Cons [of x] by (cases p) simp
    qed simp
    show "ahead c = ahead a" "af_buf c = [] \<and> af_err c = None \<longrightarrow> af_ch c = [] \<and> af_done c"
      using after_fill_ahead [of a "af_ch a"] assms(1) by (auto simp: c_def)
    show "af_done c \<longrightarrow> af_ch c = []" using d [of "af_ch a" a] assms(1) by (auto simp: c_def)
  qed
  have rd: "(if af_buf c \<noteq> [] then (Ev_Data (take n (af_buf c)), c\<lparr>af_buf := drop n (af_buf c)\<rparr>)
      else (case af_err c of
        Some e \<Rightarrow> (Ev_Error e, c)
      | None \<Rightarrow> (case af_r c of
          [] \<Rightarrow> (Ev_Blocked, c)
        | (d, e) # rr \<Rightarrow>
           (if d \<noteq> [] then Ev_Data d else case e of None \<Rightarrow> Ev_Wake | Some x \<Rightarrow> Ev_Error x,
            c\<lparr>af_r := (if d \<noteq> [] \<and> e \<noteq> None then ([], e) # rr else rr)\<rparr>)))) = (r, b)"
    using assms(2) by (simp only: after_read_def Let_def c_def)
  have td: "take n x @ drop n x @ y = x @ y" for x y :: string
    by (metis append.assoc append_take_drop_id)
  have "if ended [r] then ahead c = [] else ahead c = read_bytes [r] @ ahead b \<and> (af_done b \<longrightarrow> af_ch b = [])"
    (is ?goal)
  proof (cases "af_buf c = []")
    case False
    with rd c(3) show ?goal by (auto simp: ahead_def read_bytes_def ended_def td)
  next
    case buf: True
    show ?goal
    proof (cases "af_err c")
      case (Some e)
      with rd c(3) buf show ?goal by (auto simp: ahead_def read_bytes_def ended_def td)
    next
      case err: None
      with c(2) buf have ch: "af_ch c = []" by simp
      show ?goal
      proof (cases "af_r c")
        case Nil
        with rd c(3) buf err ch show ?goal by (auto simp: ahead_def read_bytes_def ended_def td)
      next
        case (Cons x rr)
        obtain d e where "x = (d, e)" by (cases x)
        with Cons rd c(3) buf err ch show ?goal
          by (cases e) (auto simp: ahead_def read_bytes_def ended_def split: if_splits)
      qed
    qed
  qed
  then show ?thesis by (simp only: c(1))
qed

lemma after_reads_ahead:
  "af_done a \<longrightarrow> af_ch a = [] \<Longrightarrow>
    \<exists>X. ahead a = read_bytes (after_reads ns a) @ X \<and> (ended (after_reads ns a) \<longrightarrow> X = [])"
proof (induction ns arbitrary: a)
  case Nil
  then show ?case by (simp add: read_bytes_def ended_def)
next
  case (Cons n ns)
  obtain r b where r: "after_read n a = (r, b)" by (cases "after_read n a")
  note s = after_read_ahead [OF Cons.prems r]
  show ?case
  proof (cases "ended [r]")
    case True
    with s r show ?thesis by (cases r) (auto simp: read_bytes_def ended_def)
  next
    case False
    with s have b: "ahead a = read_bytes [r] @ ahead b" "af_done b \<longrightarrow> af_ch b = []" by simp_all
    from False r have e: "after_reads (n # ns) a = r # after_reads ns b"
      by (cases r) (auto simp: ended_def)
    from Cons.IH [OF b(2)] b(1) False show ?thesis
      unfolding e by (auto simp: read_bytes_Cons [of r "after_reads ns b"] ended_Cons [of r "after_reads ns b"])
  qed
qed

text \<open>What a probe may take: a whole answer to one of its queries.\<close>

definition is_answer :: "string \<Rightarrow> bool" where
  "is_answer p = ((\<exists>head \<in> {reply_head, kitty_reply, xt_reply}. \<exists>body e.
       p = head @ body @ e \<and> (e = [CHR 0x07] \<or> e = st)) \<or>
     (\<exists>attrs. list_all attr_char attrs \<and> p = csi_q @ attrs @ ''c''))"

fun cut_out :: "string list \<Rightarrow> string \<Rightarrow> string \<Rightarrow> bool" where
  "cut_out [] b r = (b = r)"
| "cut_out (p # ps) b r = (\<exists>u v. b = u @ p @ v \<and> cut_out ps (u @ v) r)"

lemma terminator_split:
  "terminator b = Some (a, n) \<Longrightarrow> \<exists>e. b = take a b @ e @ drop (a + n) b \<and> (e = [CHR 0x07] \<or> e = st)"
proof (induction b arbitrary: a n)
  case (Cons c cs)
  show ?case
  proof (cases "c = CHR 0x07 \<or> (c = CHR 0x1B \<and> (case cs of d # _ \<Rightarrow> d = CHR 0x5C | [] \<Rightarrow> False))")
    case True
    with Cons.prems show ?thesis by (auto simp: st_def split: list.splits if_splits)
  next
    case False
    with Cons.prems obtain a' where "terminator cs = Some (a', n)" "a = Suc a'" by (auto split: if_splits)
    with Cons.IH [of a' n] show ?thesis by auto
  qed
qed simp

lemma cut_string_answer:
  assumes "cut_string b head = (body, r, ok, whole)" "ok \<longrightarrow> whole" "head \<in> {reply_head, kitty_reply, xt_reply}"
  obtains ps where "list_all is_answer ps" "length ps \<le> 1" "cut_out ps b r"
proof (cases "index_of b head")
  case None
  with assms(1) that [of "[]"] show thesis by (simp add: cut_string_def)
next
  case (Some i)
  let ?t = "drop (i + length head) b"
  from assms Some obtain a n where t: "terminator ?t = Some (a, n)"
    by (auto simp: cut_string_def Let_def split: option.splits)
  with assms(1) Some have r: "r = take i b @ drop (a + n) ?t" by (simp add: cut_string_def Let_def)
  from terminator_split [OF t] obtain e where
    e: "?t = take a ?t @ e @ drop (a + n) ?t" "e = [CHR 0x07] \<or> e = st" by blast
  from index_of_SomeD [OF Some] have "b = take i b @ head @ ?t" by simp
  with e(1) have b: "b = take i b @ (head @ take a ?t @ e) @ drop (a + n) ?t"
    by (metis append.assoc)
  from e(2) assms(3) have "is_answer (head @ take a ?t @ e)" by (auto simp: is_answer_def)
  with b r that [of "[head @ take a ?t @ e]"] show thesis by auto
qed


lemma cut_da1_at_answer:
  assumes "has_prefix (drop i b) csi_q" "cut_da1_at b i = Some (attrs, r)"
  shows "\<exists>p. is_answer p \<and> cut_out [p] b r"
  using assms
proof (induction b i rule: cut_da1_at.induct)
  case (1 b i)
  let ?a = "takeWhile attr_char (drop (i + 3) b)" and ?j = "i + 3 + length (takeWhile attr_char (drop (i + 3) b))"
  from 1(2) have d: "drop i b = csi_q @ drop (i + 3) b"
    by (auto simp: has_prefix_iff csi_q_def) (metis append_Cons append_Nil drop_Suc_Cons drop0 drop_drop add.commute numeral_3_eq_3)
  from 1(3) have j: "?j < length b"
    by (auto simp: cut_da1_at.simps [of b i] Let_def split: if_splits)
  show ?case
  proof (cases "b ! ?j = CHR ''c''")
    case True
    with 1(3) j have r: "r = take i b @ drop (?j + 1) b"
      by (simp add: cut_da1_at.simps [of b i] Let_def)
    have "drop (i + 3) b = ?a @ drop ?j b"
      by (metis drop_drop add.commute append_take_drop_id takeWhile_eq_take)
    also have "drop ?j b = ''c'' @ drop (?j + 1) b"
      by (metis Cons_nth_drop_Suc j True Suc_eq_plus1 append_Cons append_Nil)
    finally have "b = take i b @ (csi_q @ ?a @ ''c'') @ drop (?j + 1) b"
      using d by (metis append.assoc append_take_drop_id)
    moreover have "is_answer (csi_q @ ?a @ ''c'')"
      by (auto simp: is_answer_def list_all_iff dest: set_takeWhileD)
    ultimately show ?thesis using r unfolding cut_out.simps by blast
  next
    case False
    with 1(3) j obtain k where k: "index_of (drop ?j b) csi_q = Some k" "cut_da1_at b (?j + k) = Some (attrs, r)"
      by (auto simp: cut_da1_at.simps [of b i] Let_def split: option.splits)
    from index_of_SomeD [OF k(1)] have "has_prefix (drop k (drop ?j b)) csi_q"
      by (metis append_eq_conv_conj has_prefix_append index_of_bound k(1) length_take min.absorb2 add_leD1)
    with 1(1) [OF refl refl _ _ k(1)] k(2) j False show ?thesis by (simp add: ac_simps)
  qed
qed

lemma cut_out_trans: "cut_out ps b r \<Longrightarrow> cut_out qs r s \<Longrightarrow> cut_out (ps @ qs) b s"
  by (induction ps arbitrary: b) auto

lemma scan_answers:
  assumes "scan un buf = Some (caps, rest)"
  shows "\<exists>ps. list_all is_answer ps \<and> ps \<noteq> [] \<and> length ps \<le> 4 \<and> cut_out ps buf rest"
proof -
  obtain b1 r1 ok1 w1 where 1: "cut_string buf reply_head = (b1, r1, ok1, w1)" by (cases "cut_string buf reply_head")
  obtain b2 r2 ok2 w2 where 2: "cut_string r1 kitty_reply = (b2, r2, ok2, w2)" by (cases "cut_string r1 kitty_reply")
  obtain b3 r3 ok3 w3 where 3: "cut_string r2 xt_reply = (b3, r3, ok3, w3)" by (cases "cut_string r2 xt_reply")
  from assms 1 2 3 obtain attrs where
    ok: "ok1 \<longrightarrow> w1" "ok2 \<longrightarrow> w2" "ok3 \<longrightarrow> w3" and da: "cut_da1 r3 = Some (attrs, rest)"
    by (auto simp: scan_def Let_def split: if_splits option.splits prod.splits)
  obtain p1 where p1: "list_all is_answer p1" "length p1 \<le> 1" "cut_out p1 buf r1"
    using cut_string_answer [OF 1 ok(1)] by auto
  obtain p2 where p2: "list_all is_answer p2" "length p2 \<le> 1" "cut_out p2 r1 r2"
    using cut_string_answer [OF 2 ok(2)] by auto
  obtain p3 where p3: "list_all is_answer p3" "length p3 \<le> 1" "cut_out p3 r2 r3"
    using cut_string_answer [OF 3 ok(3)] by auto
  from da obtain i where i: "index_of r3 csi_q = Some i" "cut_da1_at r3 i = Some (attrs, rest)"
    by (auto simp: cut_da1_def split: option.splits)
  from index_of_SomeD [OF i(1)] have "has_prefix (drop i r3) csi_q"
    by (metis append_eq_conv_conj has_prefix_append index_of_bound i(1) length_take min.absorb2 add_leD1)
  from cut_da1_at_answer [OF this i(2)] obtain p4 where p4: "is_answer p4" "cut_out [p4] r3 rest" by blast
  have "cut_out (p1 @ p2 @ p3 @ [p4]) buf rest"
    using p1 p2 p3 p4 cut_out_trans by blast
  with p1 p2 p3 p4 show ?thesis by (intro exI [of _ "p1 @ p2 @ p3 @ [p4]"]) simp
qed

lemma probe_answers:
  "probe un n buf src = (res, kept, e, left) \<Longrightarrow>
    \<exists>used ps. src = used @ left \<and> list_all is_answer ps \<and> cut_out ps (buf @ concat (map fst used)) kept \<and>
      ((\<forall>c. res \<noteq> Probe_Caps c) \<longrightarrow> ps = [])"
proof (induction un n buf src rule: probe.induct)
  case (2 un n buf d e' src)
  show ?case
  proof (cases "n = 0")
    case True
    with 2(2) show ?thesis by auto
  next
    case n: False
    show ?thesis
    proof (cases "scan un (buf @ d)")
      case (Some cr)
      obtain caps rest where cr: "cr = (caps, rest)" by (cases cr)
      from scan_answers Some cr obtain ps where "list_all is_answer ps" "cut_out ps (buf @ d) rest" by blast
      with 2(2) Some cr n show ?thesis by (intro exI [of _ "[(d, e')]"] exI [of _ ps]) auto
    next
      case None
      show ?thesis
      proof (cases e')
        case (Some x)
        with 2(2) None n show ?thesis by (intro exI [of _ "[(d, e')]"] exI [of _ "[]"]) auto
      next
        case e: None
        with 2(2) None n have "probe un (n - 1) (buf @ d) src = (res, kept, e, left)" by simp
        from 2(1) [OF n None e this] obtain used ps where
          "src = used @ left" "list_all is_answer ps" "cut_out ps (buf @ d @ concat (map fst used)) kept"
          "(\<forall>c. res \<noteq> Probe_Caps c) \<longrightarrow> ps = []" by auto
        then show ?thesis by (intro exI [of _ "(d, e') # used"] exI [of _ ps]) auto
      qed
    qed
  qed
qed auto

text \<open>
  C39. A probe takes no key. Whatever way the terminal's input comes in reads, whenever the
  deadline is, and however far the probe's last read has gone ahead: what the program reads
  after the probe is what the probe read, with whole answers to its queries cut out of it and
  nothing else (nothing at all, when it gave up), and then all that the terminal brings, until
  an error, in order.
\<close>

theorem probe_takes_no_keys:
  assumes "probe un n [] src = (res, kept, e, left)"
  shows "\<exists>used ps X. src = used @ left \<and> list_all is_answer ps \<and> cut_out ps (concat (map fst used)) kept \<and>
    ((\<forall>c. res \<noteq> Probe_Caps c) \<longrightarrow> ps = []) \<and>
    kept @ (if e = None then src_bytes left else []) = read_bytes (after_reads ns (after_probe m kept e left)) @ X \<and>
    (ended (after_reads ns (after_probe m kept e left)) \<longrightarrow> X = [])"
proof -
  from probe_answers [OF assms] obtain used ps where
    "src = used @ left" "list_all is_answer ps" "cut_out ps (concat (map fst used)) kept"
    "(\<forall>c. res \<noteq> Probe_Caps c) \<longrightarrow> ps = []" by auto
  moreover have "ahead (after_probe m kept e left) = kept @ (if e = None then src_bytes left else [])"
    by (simp add: ahead_def after_probe_def)
  moreover have "\<not> af_done (after_probe m kept e left)" by (simp add: after_probe_def)
  ultimately show ?thesis using after_reads_ahead [of "after_probe m kept e left" ns] by metis
qed

text \<open>
  A key typed before the answer and one in the middle of it: a terminal that is no host, with
  its name and its attributes.
\<close>

theorem probe_takes_no_keys_witness:
  "probe (\<lambda>_. None :: int caps option) 2 [] [(''x'' @ xt_reply @ ''foot'', None),
      (st @ ''y'' @ csi_q @ ''62;4c'', None), (''z'', Some ''EOF'')] =
     (Probe_Caps (Some ((other_terminal ''foot'')\<lparr>ca_features := [''sixel'']\<rparr>)), ''xy'', None,
      [(''z'', Some ''EOF'')]) \<and>
   (\<exists>X. ''xyz'' = read_bytes (after_reads [1, 8, 8, 8] (after_probe 1 ''xy'' None [(''z'', Some ''EOF'')])) @ X)"
proof
  show p: "probe (\<lambda>_. None :: int caps option) 2 [] [(''x'' @ xt_reply @ ''foot'', None),
      (st @ ''y'' @ csi_q @ ''62;4c'', None), (''z'', Some ''EOF'')] =
     (Probe_Caps (Some ((other_terminal ''foot'')\<lparr>ca_features := [''sixel'']\<rparr>)), ''xy'', None,
      [(''z'', Some ''EOF'')])"
    by code_simp
  from probe_takes_no_keys [OF p, of "[1, 8, 8, 8]" 1]
  show "\<exists>X. ''xyz'' = read_bytes (after_reads [1, 8, 8, 8] (after_probe 1 ''xy'' None [(''z'', Some ''EOF'')])) @ X"
    by auto
qed

end
