(* ===== verification/Mirror.thy ===== *)
theory Mirror
  imports Go_Text "HOL-Library.Sublist"
begin

text \<open>
  The mirror's cleaning (\<^verbatim>\<open>web/mirror.go\<close>): what a program publishes for screen readers,
  as the page's parser reads it, rebuilt with plain structure only.
\<close>

text \<open>The document's nodes, as \<^verbatim>\<open>DOMParser\<close> makes them.\<close>

datatype dom = Text_Node string | Element string "(string \<times> string) list" "dom list" | Other_Node

definition mirror_tags :: "string list" where
  "mirror_tags = [''a'', ''abbr'', ''article'', ''aside'', ''b'', ''blockquote'', ''br'',
     ''caption'', ''code'', ''dd'', ''del'', ''details'', ''dfn'', ''div'',
     ''dl'', ''dt'', ''em'', ''figcaption'', ''figure'', ''footer'',
     ''h1'', ''h2'', ''h3'', ''h4'', ''h5'', ''h6'', ''header'', ''hr'',
     ''i'', ''img'', ''ins'', ''kbd'', ''li'', ''main'', ''mark'', ''nav'',
     ''ol'', ''p'', ''pre'', ''q'', ''s'', ''section'', ''small'', ''span'',
     ''strong'', ''sub'', ''summary'', ''sup'', ''table'', ''tbody'', ''td'',
     ''tfoot'', ''th'', ''thead'', ''time'', ''tr'', ''u'', ''ul'']"

definition mirror_drop :: "string list" where
  "mirror_drop = [''script'', ''style'', ''iframe'', ''object'', ''embed'', ''template'',
     ''svg'', ''math'', ''link'', ''meta'', ''form'', ''input'', ''button'',
     ''select'', ''textarea'', ''noscript'', ''frame'', ''frameset'', ''base'',
     ''audio'', ''video'', ''canvas'']"

definition mirror_attrs :: "string list" where
  "mirror_attrs = [''href'', ''src'', ''alt'', ''title'', ''lang'', ''colspan'', ''rowspan'',
     ''scope'', ''datetime'', ''role'']"

text \<open>\<^verbatim>\<open>mirrorURL\<close>: whether a link, or a picture, may point at \<open>u\<close>.\<close>

definition mirror_url :: "unicode \<Rightarrow> string \<Rightarrow> bool \<Rightarrow> bool" where
  "mirror_url U u picture = (let l = to_lower U (trim_space u) in
     if has_prefix l ''https://'' \<or> has_prefix l ''http://'' then True
     else if picture then False
     else if has_prefix l ''mailto:'' then True
     else has_prefix l ''/'' \<and> \<not> has_prefix l ''//'' \<or> has_prefix l ''#'')"

text \<open>\<^verbatim>\<open>setAttribute\<close>: the value it had is replaced.\<close>

fun set_attr :: "string \<Rightarrow> string \<Rightarrow> (string \<times> string) list \<Rightarrow> (string \<times> string) list" where
  "set_attr n v [] = [(n, v)]"
| "set_attr n v ((m, w) # as) = (if m = n then (n, v) # as else (m, w) # set_attr n v as)"

text \<open>
  The attributes copied, in their order. \<open>ok\<close> says which names \<^verbatim>\<open>setAttribute\<close> takes: it throws at
  any other, which is \<open>None\<close>.
\<close>

fun copy_attrs ::
  "unicode \<Rightarrow> (string \<Rightarrow> bool) \<Rightarrow> (string \<times> string) list \<Rightarrow> (string \<times> string) list \<Rightarrow>
   (string \<times> string) list option"
where
  "copy_attrs U ok [] out = Some out"
| "copy_attrs U ok ((nm, v) # as) out = (let n = to_lower U nm in
     if n \<notin> set mirror_attrs \<and> \<not> has_prefix n ''aria-'' then copy_attrs U ok as out
     else if (n = ''href'' \<or> n = ''src'') \<and> \<not> mirror_url U v (n = ''src'') then copy_attrs U ok as out
     else if \<not> ok n then None
     else copy_attrs U ok as (set_attr n v out))"

definition link_attrs :: "string \<Rightarrow> (string \<times> string) list \<Rightarrow> (string \<times> string) list" where
  "link_attrs tag as = (if tag = ''a''
     then set_attr ''target'' ''_blank'' (set_attr ''rel'' ''noopener noreferrer'' as) else as)"

text \<open>
  \<^verbatim>\<open>mirrorCopy\<close>: the children that go under \<open>to\<close>, and whether it ended in a throw, with what it had
  appended by then. An element has its attributes before it is appended, and is appended before
  its children are copied.
\<close>

fun mirror_copy :: "unicode \<Rightarrow> (string \<Rightarrow> bool) \<Rightarrow> dom list \<Rightarrow> dom list \<times> bool" where
  "mirror_copy U ok [] = ([], False)"
| "mirror_copy U ok (Text_Node t # ns) = (let (rest, x) = mirror_copy U ok ns in (Text_Node t # rest, x))"
| "mirror_copy U ok (Element tg as kids # ns) = (let tag = to_lower U tg in
     if tag \<in> set mirror_drop then mirror_copy U ok ns
     else if tag \<in> set mirror_tags then
       (case copy_attrs U ok as [] of
          None \<Rightarrow> ([], True)
        | Some bs \<Rightarrow>
           (let (inner, x) = mirror_copy U ok kids; e = Element tag (link_attrs tag bs) inner in
            if x then ([e], True)
            else (let (rest, y) = mirror_copy U ok ns in (e # rest, y))))
     else
       (let (inner, x) = mirror_copy U ok kids in
        if x then (inner, True)
        else (let (rest, y) = mirror_copy U ok ns in (inner @ rest, y))))"
| "mirror_copy U ok (Other_Node # ns) = mirror_copy U ok ns"

text \<open>\<^verbatim>\<open>mirrorShow\<close>: what the region holds then, and whether it threw; \<open>parse\<close> is the page's parser.\<close>

definition mirror_show ::
  "unicode \<Rightarrow> (string \<Rightarrow> bool) \<Rightarrow> (string \<Rightarrow> dom list) \<Rightarrow> string \<Rightarrow> dom list \<times> bool" where
  "mirror_show U ok parse html = (if trim_space html = [] then ([], False) else mirror_copy U ok (parse html))"

subsection \<open>What plain is\<close>

text \<open>
  What the protocol promises of a mirror (\<^verbatim>\<open>PROTOCOL.md\<close>, Accessibility), in terms of what a browser
  does with a document and not of the tables above: no element that runs, embeds, styles or asks.
\<close>

definition active_elements :: "string list" where
  "active_elements =
     [''script'', ''noscript'', ''template'', ''slot''] @
     [''style'', ''link'', ''base'', ''meta'', ''title'', ''head'', ''html'', ''body''] @
     [''iframe'', ''frame'', ''frameset'', ''object'', ''embed'', ''applet'', ''param'', ''portal'', ''fencedframe''] @
     [''svg'', ''math'', ''audio'', ''video'', ''canvas'', ''source'', ''track'', ''picture'', ''map'', ''area''] @
     [''form'', ''input'', ''button'', ''select'', ''option'', ''textarea'', ''label'', ''output'', ''keygen'', ''dialog'']"

text \<open>
  Attributes that run, style, load, submit, name or move the focus, beside every event handler.
\<close>

definition active_attributes :: "string list" where
  "active_attributes =
     [''style'', ''class'', ''id'', ''name'', ''slot'', ''part'', ''is'', ''nonce''] @
     [''srcdoc'', ''srcset'', ''sizes'', ''data'', ''poster'', ''background'', ''codebase'', ''archive'', ''longdesc'', ''cite''] @
     [''action'', ''formaction'', ''method'', ''form'', ''ping'', ''download'', ''usemap'', ''xlink:href''] @
     [''tabindex'', ''autofocus'', ''accesskey'', ''contenteditable'', ''draggable'', ''popover'', ''http-equiv'', ''content'']"

text \<open>
  The scheme a browser sees in an address (URL Standard): control characters and spaces at its
  ends and tabs and line ends anywhere do not count, a letter comes first, then letters, digits,
  \<^verbatim>\<open>+ - .\<close> up to a colon. Without one the address is of this page's own site, or by \<^verbatim>\<open>//\<close> of another.
\<close>

definition ascii_letter :: "char \<Rightarrow> bool" where
  "ascii_letter c = (65 \<le> byte_of c \<and> byte_of c \<le> 90 \<or> 97 \<le> byte_of c \<and> byte_of c \<le> 122)"

definition scheme_char :: "char \<Rightarrow> bool" where
  "scheme_char c = (ascii_letter c \<or> 48 \<le> byte_of c \<and> byte_of c \<le> 57 \<or> c \<in> {CHR ''+'', CHR ''-'', CHR ''.''})"

definition url_noise :: "char \<Rightarrow> bool" where
  "url_noise c = (byte_of c \<in> {9, 10, 13})"

definition url_scheme :: "string \<Rightarrow> string option" where
  "url_scheme u =
     (let v = filter (\<lambda>c. \<not> url_noise c) (dropWhile (\<lambda>c. byte_of c \<le> 32) u); s = takeWhile scheme_char v in
      if s \<noteq> [] \<and> ascii_letter (hd s) \<and> take 1 (drop (length s) v) = '':'' then Some (map lower_byte s) else None)"

definition plain_attr :: "string \<times> string \<Rightarrow> bool" where
  "plain_attr a = (\<not> has_prefix (fst a) ''on'' \<and> fst a \<notin> set active_attributes \<and>
     (fst a = ''href'' \<longrightarrow> url_scheme (snd a) \<in> {None, Some ''http'', Some ''https'', Some ''mailto''}) \<and>
     (fst a = ''src'' \<longrightarrow> url_scheme (snd a) \<in> {None, Some ''http'', Some ''https''}))"

text \<open>
  A link opens elsewhere and without a way back; no other element has a target.
\<close>

definition plain_attrs :: "string \<Rightarrow> (string \<times> string) list \<Rightarrow> bool" where
  "plain_attrs tag as = (distinct (map fst as) \<and> list_all plain_attr as \<and>
     (if tag = ''a'' then map_of as ''rel'' = Some ''noopener noreferrer'' \<and> map_of as ''target'' = Some ''_blank''
      else map_of as ''rel'' = None \<and> map_of as ''target'' = None))"

fun plain_dom :: "dom \<Rightarrow> bool" where
  "plain_dom (Text_Node t) = True"
| "plain_dom (Element tag as kids) =
     (tag \<notin> set active_elements \<and> CHR ''-'' \<notin> set tag \<and> plain_attrs tag as \<and> list_all plain_dom kids)"
| "plain_dom Other_Node = False"

text \<open>
  What the eyes would read: the text outside the scripts, styles, forms, frames and embedded media.
\<close>

definition unread_elements :: "string list" where
  "unread_elements =
     [''script'', ''noscript'', ''template''] @ [''style'', ''link'', ''base'', ''meta''] @
     [''form'', ''input'', ''button'', ''select'', ''textarea''] @
     [''iframe'', ''frame'', ''frameset'', ''object'', ''embed''] @
     [''audio'', ''video'', ''canvas'', ''svg'', ''math'']"

fun readable :: "unicode \<Rightarrow> dom list \<Rightarrow> string list" where
  "readable U [] = []"
| "readable U (Text_Node t # ns) = t # readable U ns"
| "readable U (Element tg as kids # ns) =
     (if to_lower U tg \<in> set unread_elements then [] else readable U kids) @ readable U ns"
| "readable U (Other_Node # ns) = readable U ns"

fun texts :: "dom list \<Rightarrow> string list" where
  "texts [] = []"
| "texts (Text_Node t # ns) = t # texts ns"
| "texts (Element tg as kids # ns) = texts kids @ texts ns"
| "texts (Other_Node # ns) = texts ns"

lemma texts_append [simp]: "texts (a @ b) = texts a @ texts b"
proof (induction a)
  case (Cons x a)
  then show ?case by (cases x) auto
qed simp

lemma set_attr_keys: "set (map fst (set_attr n v as)) = insert n (set (map fst as))"
  by (induction n v as rule: set_attr.induct) auto

lemma set_attr_distinct: "distinct (map fst as) \<Longrightarrow> distinct (map fst (set_attr n v as))"
proof (induction as)
  case (Cons a as)
  then show ?case using set_attr_keys [of n v as] by (cases a) auto
qed simp

lemma set_attr_set: "distinct (map fst as) \<Longrightarrow> set (set_attr n v as) = insert (n, v) {a \<in> set as. fst a \<noteq> n}"
proof (induction as)
  case (Cons a as)
  then show ?case by (cases a) (auto simp: rev_image_eqI)
qed simp

subsection \<open>Schemes\<close>

text \<open>An address with a scheme, cut at the colon that ends it.\<close>

lemma filter_split:
  "filter P w = xs @ y # ys \<Longrightarrow> \<exists>us vs. w = us @ y # vs \<and> filter P us = xs"
proof (induction w arbitrary: xs)
  case (Cons c w)
  show ?case
  proof (cases "P c \<and> xs = []")
    case True
    with Cons.prems have "c # w = [] @ y # w \<and> filter P [] = xs" by simp
    then show ?thesis by blast
  next
    case False
    then obtain us vs where "w = us @ y # vs" "filter P us = (if P c then List.tl xs else xs)"
      using Cons.IH [of "if P c then List.tl xs else xs"] Cons.prems by (cases xs) (auto split: if_splits)
    with False Cons.prems have "c # w = (c # us) @ y # vs \<and> filter P (c # us) = xs"
      by (cases xs) (auto split: if_splits)
    then show ?thesis by blast
  qed
qed simp

lemma letter_ascii: "ascii_letter c \<Longrightarrow> byte_of c < 128 \<and> 32 < byte_of c \<and> \<not> is_space_rune (byte_of c)"
  by (auto simp: ascii_letter_def is_space_rune_def)

lemma scheme_char_ascii: "scheme_char c \<Longrightarrow> byte_of c < 128"
  by (auto simp: scheme_char_def dest: letter_ascii)

lemma url_scheme_split:
  assumes "url_scheme u = Some sch"
  obtains ws pre rest where "u = ws @ pre @ '':'' @ rest" "\<forall>c \<in> set ws. byte_of c \<le> 32"
    "pre \<noteq> []" "ascii_letter (hd pre)" "\<forall>c \<in> set pre. scheme_char c \<or> url_noise c"
    "sch = map lower_byte (filter (\<lambda>c. \<not> url_noise c) pre)"
proof -
  let ?N = "\<lambda>c. \<not> url_noise c"
  define w where "w = dropWhile (\<lambda>c. byte_of c \<le> 32) u"
  define s where "s = takeWhile scheme_char (filter ?N w)"
  have s: "s \<noteq> []" "ascii_letter (hd s)" "take 1 (drop (length s) (filter ?N w)) = '':''" "sch = map lower_byte s"
    using assms by (auto simp: url_scheme_def Let_def w_def s_def split: if_splits)
  have "drop (length s) (filter ?N w) = dropWhile scheme_char (filter ?N w)"
    unfolding s_def by (metis append_eq_conv_conj takeWhile_dropWhile_id)
  then obtain ys where "filter ?N w = s @ CHR '':'' # ys"
    using s(3) unfolding s_def
    by (metis takeWhile_dropWhile_id take_Suc_Cons list.exhaust One_nat_def list.inject take_Nil list.distinct(1))
  then obtain pre rest where w: "w = pre @ CHR '':'' # rest" "filter ?N pre = s" using filter_split by metis
  have "w \<noteq> []" using w(1) by simp
  then have hd: "32 < byte_of (hd w)" using hd_dropWhile [of "\<lambda>c. byte_of c \<le> 32" u] by (simp add: w_def)
  have pre: "pre \<noteq> []" using w(2) s(1) by auto
  then have "hd pre = hd w" using w(1) by simp
  with hd have "\<not> url_noise (hd pre)" by (auto simp: url_noise_def)
  then have "hd s = hd pre" using w(2) pre by (cases pre) auto
  moreover have "\<forall>c \<in> set pre. scheme_char c \<or> url_noise c"
  proof
    fix c assume "c \<in> set pre"
    then show "scheme_char c \<or> url_noise c"
      using w(2) set_takeWhileD [of c scheme_char "filter ?N w"] unfolding s_def [symmetric] by auto
  qed
  moreover have "u = takeWhile (\<lambda>c. byte_of c \<le> 32) u @ w" by (simp add: w_def)
  moreover have "\<forall>c \<in> set (takeWhile (\<lambda>c. byte_of c \<le> 32) u). byte_of c \<le> 32"
    by (auto dest: set_takeWhileD)
  ultimately show thesis
    using that [of "takeWhile (\<lambda>c. byte_of c \<le> 32) u" pre rest] pre s(2,4) w by simp
qed

text \<open>What \<^verbatim>\<open>mirrorURL\<close> looks at: the scheme, with its colon, or a character that rules all it takes out.\<close>

lemma trimmed_scheme:
  assumes "u = ws @ pre @ '':'' @ rest" "\<forall>c \<in> set ws. byte_of c \<le> 32" "pre \<noteq> []" "ascii_letter (hd pre)"
    "\<forall>c \<in> set pre. scheme_char c \<or> url_noise c"
  shows "(\<exists>x. to_lower U (trim_space u) = map lower_byte pre @ '':'' @ x) \<or>
    (\<exists>c x. to_lower U (trim_space u) = c # x \<and> byte_of c \<le> 32)"
proof -
  have wa: "is_ascii ws" using assms(2) by (auto simp: is_ascii_def list_all_iff)
  have pa: "is_ascii (pre @ '':'')"
    using assms(5) by (auto simp: is_ascii_def list_all_iff url_noise_def dest!: scheme_char_ascii)
  show ?thesis
  proof (cases "\<forall>c \<in> set ws. is_space_rune (byte_of c)")
    case True
    obtain x where "trim_space (ws @ (pre @ '':'') @ rest) = (pre @ '':'') @ x"
      using trim_space_begins [OF wa True pa, of rest] assms(3) letter_ascii [OF assms(4)]
      by (auto simp: is_space_rune_def)
    moreover obtain y where "to_lower U ((pre @ '':'') @ x) = map lower_byte (pre @ '':'') @ y"
      using to_lower_ascii_prefix [OF pa] by blast
    moreover have "map lower_byte '':'' = '':''" by code_simp
    ultimately show ?thesis using assms(1) by auto
  next
    case False
    then obtain v c z where w: "ws = v @ c # z" "\<not> is_space_rune (byte_of c)" "\<forall>c \<in> set v. is_space_rune (byte_of c)"
      using split_list_first_prop [of ws "\<lambda>c. \<not> is_space_rune (byte_of c)"] by auto
    have va: "is_ascii v" "is_ascii [c]" "byte_of c \<le> 32"
      using wa assms(2) by (auto simp: is_ascii_def w(1))
    obtain x where "trim_space (v @ [c] @ z @ pre @ '':'' @ rest) = [c] @ x"
      using trim_space_begins [OF va(1) w(3) va(2), of "z @ pre @ '':'' @ rest"] w(2) by auto
    moreover obtain y where "to_lower U ([c] @ x) = map lower_byte [c] @ y"
      using to_lower_ascii_prefix [OF va(2)] by blast
    moreover have "lower_byte c = c" using va(3) by (simp add: lower_byte_def)
    ultimately have "to_lower U (trim_space u) = c # y" by (simp add: assms(1) w(1))
    with va(3) show ?thesis by blast
  qed
qed

lemma colon_split:
  assumes "a @ CHR '':'' # x = b @ CHR '':'' # y" "CHR '':'' \<notin> set a" "CHR '':'' \<notin> set b"
  shows "a = b"
proof (rule ccontr)
  assume "a \<noteq> b"
  from assms(1) obtain us where us: "a = b @ us \<and> us @ CHR '':'' # x = CHR '':'' # y \<or>
      a @ us = b \<and> CHR '':'' # x = us @ CHR '':'' # y" unfolding append_eq_append_conv2 by blast
  with \<open>a \<noteq> b\<close> assms(2,3) show False by (cases us) auto
qed

lemma lower_scheme_char: "scheme_char c \<or> url_noise c \<Longrightarrow> lower_byte c \<noteq> CHR '':''"
  by (auto simp: scheme_char_def ascii_letter_def url_noise_def lower_byte_def byte_of_def chr_of_def
      dest!: arg_cong [of _ _ byte_of])

text \<open>An address with a scheme passes for the web alone, or, in a link, for mail.\<close>

lemma mirror_url_scheme:
  assumes "mirror_url U u picture" "url_scheme u = Some sch"
  shows "sch \<in> {''http'', ''https''} \<or> \<not> picture \<and> sch = ''mailto''"
proof -
  obtain ws pre rest where u: "u = ws @ pre @ '':'' @ rest" "\<forall>c \<in> set ws. byte_of c \<le> 32"
    "pre \<noteq> []" "ascii_letter (hd pre)" "\<forall>c \<in> set pre. scheme_char c \<or> url_noise c"
    "sch = map lower_byte (filter (\<lambda>c. \<not> url_noise c) pre)"
    by (rule url_scheme_split [OF assms(2)])
  define l where "l = to_lower U (trim_space u)"
  have nocolon: "CHR '':'' \<notin> set (map lower_byte pre)" using u(5) lower_scheme_char by fastforce
  have eq: "sch = p" if "l = p @ CHR '':'' # y" "CHR '':'' \<notin> set p" "list_all ascii_letter p"
      "l = map lower_byte pre @ '':'' @ x" for p x y
  proof -
    have p: "map lower_byte pre = p" using colon_split [OF _ nocolon that(2), of x y] that(1,4) by simp
    have "\<not> url_noise c" if c: "c \<in> set pre" for c
    proof
      assume n: "url_noise c"
      then have "lower_byte c = c" by (auto simp: url_noise_def lower_byte_def)
      moreover have "lower_byte c \<in> set p" using c p by auto
      ultimately have "ascii_letter c" using \<open>list_all ascii_letter p\<close> by (auto simp: list_all_iff)
      with n show False by (auto simp: url_noise_def ascii_letter_def)
    qed
    then have "filter (\<lambda>c. \<not> url_noise c) pre = pre" by (simp add: filter_id_conv)
    with u(6) p show ?thesis by simp
  qed
  from trimmed_scheme [OF u(1-5), of U] show ?thesis
  proof
    assume "\<exists>x. to_lower U (trim_space u) = map lower_byte pre @ '':'' @ x"
    then obtain x where x: "l = map lower_byte pre @ '':'' @ x" by (auto simp: l_def)
    obtain c pre' where pre: "pre = c # pre'" using u(3) by (cases pre) auto
    then have c: "ascii_letter c" using u(4) by simp
    then have c': "ascii_letter (lower_byte c)"
      by (auto simp: ascii_letter_def lower_byte_def)
    have "\<not> has_prefix l ''/''" "\<not> has_prefix l ''#''"
      using c' by (auto simp: x pre has_prefix_def ascii_letter_def byte_of_def)
    then consider "has_prefix l ''https://''" | "has_prefix l ''http://''" | "\<not> picture" "has_prefix l ''mailto:''"
      using assms(1) by (auto simp: mirror_url_def Let_def simp flip: l_def split: if_splits)
    then show ?thesis
    proof cases
      case 1
      then obtain y where "l = ''https'' @ CHR '':'' # y" by (auto simp: has_prefix_iff)
      from eq [OF this _ _ x] show ?thesis by (simp add: ascii_letter_def byte_of_def)
    next
      case 2
      then obtain y where "l = ''http'' @ CHR '':'' # y" by (auto simp: has_prefix_iff)
      from eq [OF this _ _ x] show ?thesis by (simp add: ascii_letter_def byte_of_def)
    next
      case 3
      then obtain y where "l = ''mailto'' @ CHR '':'' # y" by (auto simp: has_prefix_iff)
      from eq [OF this _ _ x] 3 show ?thesis by (simp add: ascii_letter_def byte_of_def)
    qed
  next
    assume "\<exists>c x. to_lower U (trim_space u) = c # x \<and> byte_of c \<le> 32"
    then have "\<not> mirror_url U u picture" by (auto simp: mirror_url_def has_prefix_def byte_of_def)
    with assms(1) show ?thesis by simp
  qed
qed

subsection \<open>What is left is plain\<close>

text \<open>The attributes: every name copied is a plain one, and every address passed \<^verbatim>\<open>mirrorURL\<close>.\<close>

lemma copied_name_plain:
  "n \<in> set mirror_attrs \<or> has_prefix n ''aria-'' \<Longrightarrow>
   \<not> has_prefix n ''on'' \<and> n \<notin> set active_attributes \<and> n \<noteq> ''rel'' \<and> n \<noteq> ''target''"
proof (elim disjE)
  assume "n \<in> set mirror_attrs"
  moreover have "list_all (\<lambda>n. \<not> has_prefix n ''on'' \<and> n \<notin> set active_attributes \<and> n \<noteq> ''rel'' \<and> n \<noteq> ''target'') mirror_attrs"
    by code_simp
  ultimately show ?thesis by (simp add: list_all_iff)
next
  assume aria: "has_prefix n ''aria-''"
  moreover have "list_all (\<lambda>n. \<not> has_prefix n ''aria-'') (''rel'' # ''target'' # active_attributes)"
    by code_simp
  ultimately show ?thesis by (auto simp: list_all_iff has_prefix_iff)
qed

definition copied_plain :: "(string \<times> string) list \<Rightarrow> bool" where
  "copied_plain as = (distinct (map fst as) \<and> list_all plain_attr as \<and>
     ''rel'' \<notin> fst ` set as \<and> ''target'' \<notin> fst ` set as)"

lemma copy_attrs_plain:
  "\<lbrakk>copied_plain out; copy_attrs U ok as out = Some bs\<rbrakk> \<Longrightarrow> copied_plain bs"
proof (induction U ok as out rule: copy_attrs.induct)
  case (2 U ok nm v as out)
  define n where "n = to_lower U nm"
  consider "n \<notin> set mirror_attrs \<and> \<not> has_prefix n ''aria-''"
    | "n \<in> set mirror_attrs \<or> has_prefix n ''aria-''" "(n = ''href'' \<or> n = ''src'') \<and> \<not> mirror_url U v (n = ''src'')"
    | "n \<in> set mirror_attrs \<or> has_prefix n ''aria-''" "n = ''href'' \<or> n = ''src'' \<Longrightarrow> mirror_url U v (n = ''src'')" "ok n"
    using 2(5) by (fastforce simp: Let_def n_def split: if_splits)
  then show ?case
  proof cases
    case 1
    with 2(1,4,5) show ?thesis by (simp add: Let_def flip: n_def)
  next
    case 2
    with "2.IH"(2) "2.prems" show ?thesis by (auto simp: Let_def simp flip: n_def)
  next
    case 3
    note name = copied_name_plain [OF 3(1)]
    have "plain_attr (n, v)"
      using name mirror_url_scheme [of U v] 3(2) by (auto simp: plain_attr_def)
    with "2.prems"(1) name have "copied_plain (set_attr n v out)"
      by (auto simp: copied_plain_def list_all_iff set_attr_set set_attr_distinct)
    moreover have "copy_attrs U ok as (set_attr n v out) = Some bs"
      using "2.prems"(2) 3 by (auto simp: Let_def simp flip: n_def split: if_splits)
    ultimately show ?thesis using "2.IH"(3) 3 by (auto simp: simp flip: n_def)
  qed
qed simp

lemma link_attrs_plain:
  assumes "copied_plain as"
  shows "plain_attrs tag (link_attrs tag as)"
proof -
  have d: "distinct (map fst (set_attr ''rel'' ''noopener noreferrer'' as))"
    using assms by (simp add: copied_plain_def set_attr_distinct)
  have "plain_attr (''rel'', ''noopener noreferrer'')" "plain_attr (''target'', ''_blank'')" by code_simp+
  with assms d show ?thesis
    by (auto simp: plain_attrs_def link_attrs_def copied_plain_def list_all_iff set_attr_set set_attr_distinct
        map_of_eq_None_iff intro!: map_of_is_SomeI)
qed

lemma plain_tag: "tag \<in> set mirror_tags \<Longrightarrow> tag \<notin> set active_elements \<and> CHR ''-'' \<notin> set tag"
proof -
  have "list_all (\<lambda>tag. tag \<notin> set active_elements \<and> CHR ''-'' \<notin> set tag) mirror_tags" by code_simp
  then show "tag \<in> set mirror_tags \<Longrightarrow> tag \<notin> set active_elements \<and> CHR ''-'' \<notin> set tag"
    by (simp add: list_all_iff)
qed

lemma dropped_unread: "set mirror_drop = set unread_elements"
proof -
  have "list_all (\<lambda>t. t \<in> set unread_elements) mirror_drop" "list_all (\<lambda>t. t \<in> set mirror_drop) unread_elements"
    by code_simp+
  then show ?thesis by (auto simp: list_all_iff)
qed

text \<open>What a copy leaves: plain nodes, and the text that is read, or its beginning where it threw.\<close>

definition copied :: "string list \<Rightarrow> dom list \<times> bool \<Rightarrow> bool" where
  "copied ts r = (list_all plain_dom (fst r) \<and>
     (if snd r then prefix (texts (fst r)) ts else texts (fst r) = ts))"

lemma copied_then:
  assumes "copied ts (ds, x)" "copied us r"
  shows "copied (ts @ us) (if x then (ds, True) else (let (rest, y) = r in (ds @ rest, y)))"
  using assms by (cases r) (auto simp: copied_def intro: prefix_prefix)

lemma copied_element:
  assumes "copied ts (inner, x)" "plain_attrs tag as" "tag \<in> set mirror_tags"
  shows "copied ts ([Element tag as inner], x)"
  using assms plain_tag [OF assms(3)] by (auto simp: copied_def)

lemma mirror_copy_copied: "copied (readable U ns) (mirror_copy U ok ns)"
proof (induction U ok ns rule: mirror_copy.induct)
  case (1 U ok)
  show ?case by (simp add: copied_def)
next
  case (2 U ok t ns)
  then show ?case by (cases "mirror_copy U ok ns") (auto simp: copied_def)
next
  case (3 U ok tg as kids ns)
  define tag where "tag = to_lower U tg"
  obtain inner x where k: "mirror_copy U ok kids = (inner, x)" by fastforce
  consider "tag \<in> set mirror_drop" | "tag \<notin> set mirror_drop" "tag \<in> set mirror_tags"
    | "tag \<notin> set mirror_drop" "tag \<notin> set mirror_tags" by blast
  then show ?case
  proof cases
    case 1
    with 3(1) [OF tag_def] show ?thesis by (simp add: Let_def dropped_unread flip: tag_def)
  next
    case 2
    show ?thesis
    proof (cases "copy_attrs U ok as []")
      case None
      with 2 show ?thesis by (simp add: Let_def copied_def flip: tag_def)
    next
      case (Some bs)
      have bs: "plain_attrs tag (link_attrs tag bs)"
        by (rule link_attrs_plain, rule copy_attrs_plain [OF _ Some]) (simp add: copied_plain_def)
      let ?e = "Element tag (link_attrs tag bs) inner"
      have "copied (readable U kids) (inner, x)" using 3(2) [OF tag_def] 2 Some k by simp
      then have e: "copied (readable U kids) ([?e], x)" by (rule copied_element [OF _ bs 2(2)])
      show ?thesis
      proof (cases x)
        case True
        then show ?thesis using copied_then [OF e, of "readable U ns" "([], False)"] 2 Some k e
          by (auto simp: Let_def copied_def dropped_unread simp flip: tag_def intro: prefix_prefix)
      next
        case False
        then have "copied (readable U ns) (mirror_copy U ok ns)" using 3(3) [OF tag_def] 2 Some k by simp
        from copied_then [OF e this] False 2 Some k show ?thesis
          by (simp add: Let_def dropped_unread flip: tag_def)
      qed
    qed
  next
    case 3
    note c = this
    have e: "copied (readable U kids) (inner, x)" using "3.IH"(4) [OF tag_def] c k by simp
    show ?thesis
    proof (cases x)
      case True
      with e c k show ?thesis
        by (auto simp: Let_def copied_def dropped_unread simp flip: tag_def intro: prefix_prefix)
    next
      case False
      then have "copied (readable U ns) (mirror_copy U ok ns)" using "3.IH"(5) [OF tag_def] c k by simp
      from copied_then [OF e this] False c k show ?thesis
        by (simp add: Let_def dropped_unread flip: tag_def)
    qed
  qed
next
  case (4 U ok ns)
  then show ?case by simp
qed

text \<open>
  C17. What reaches the page of a program's mirror, whatever the program published and however the
  page's parser read it, is plain: text, and elements none of which runs, embeds, styles or asks,
  with no attribute twice, no event handler and none that styles, loads, submits or moves the
  focus; the address of a link has the scheme of the web or of mail and that of a picture the
  scheme of the web, as a browser reads schemes, if they have one at all; and a link, and nothing
  else, opens elsewhere, without a way back. Its text is the text of what was published, outside
  the scripts, styles, forms, frames and embedded media, in order: all of it, or its beginning
  where the document refused an attribute's name and the page's program ended with that.
\<close>

theorem mirror_is_plain:
  "case mirror_show U ok parse html of (ds, threw) \<Rightarrow>
     list_all plain_dom ds \<and>
     (if threw then prefix (texts ds) (readable U (parse html))
      else texts ds = (if trim_space html = [] then [] else readable U (parse html)))"
  using mirror_copy_copied [of U "parse html" ok]
  by (auto simp: mirror_show_def copied_def split: prod.splits)

text \<open>It throws at a refused name alone.\<close>

lemma copy_attrs_returns:
  "\<forall>n. n \<in> set mirror_attrs \<or> has_prefix n ''aria-'' \<longrightarrow> ok n \<Longrightarrow> copy_attrs U ok as out \<noteq> None"
  by (induction U ok as out rule: copy_attrs.induct) (auto simp: Let_def)

lemma mirror_shows_whole:
  "\<forall>n. n \<in> set mirror_attrs \<or> has_prefix n ''aria-'' \<longrightarrow> ok n \<Longrightarrow> \<not> snd (mirror_copy U ok ns)"
proof (induction U ok ns rule: mirror_copy.induct)
  case (3 U ok tg as kids ns)
  define tag where "tag = to_lower U tg"
  obtain bs where "copy_attrs U ok as [] = Some bs" using copy_attrs_returns [OF 3(6)] by blast
  with 3(1-5) [OF tag_def] 3(6) show ?case
    by (cases "mirror_copy U ok kids"; cases "mirror_copy U ok ns") (auto simp: Let_def simp flip: tag_def)
qed (auto split: prod.splits)

text \<open>
  A name the parser takes and \<^verbatim>\<open>setAttribute\<close> (until the DOM standard of 2025) does not: a quote in
  it. What was to come after is not copied.
\<close>

lemma mirror_can_throw:
  "mirror_copy \<lparr>y_lower = id, y_upper = id, y_fold = (=)\<rparr> (\<lambda>n. CHR 0x22 \<notin> set n)
     [Element ''P'' [(''aria-'' @ [CHR 0x22], [])] [Text_Node ''x''], Text_Node ''y''] = ([], True)"
  by code_simp

text \<open>
  A script in a link, a picture by a data address and an unknown element: the script goes with
  its text, the picture's address and the element go.
\<close>

lemma mirror_cleans_example:
  "mirror_copy (\<lparr>y_lower = id, y_upper = id, y_fold = (=)\<rparr>) (\<lambda>n. True)
     [Element ''A'' [(''HREF'', ''javascript:x''), (''title'', ''t'')] [Element ''script'' [] [Text_Node ''x'']],
      Element ''x-y'' [] [Text_Node ''y'', Element ''IMG'' [(''src'', ''data:x''), (''onerror'', ''z'')] []], Other_Node] =
   ([Element ''a'' [(''title'', ''t''), (''rel'', ''noopener noreferrer''), (''target'', ''_blank'')] [],
     Text_Node ''y'', Element ''img'' [] []], False)"
  by code_simp

text \<open>
  \<^verbatim>\<open>mirrorURL\<close> takes a path on this page's site; one that begins with a slash and a backslash, or a
  slash and a tab and a slash, passes too, and a browser reads another host in it.
\<close>

lemma other_host_passes:
  "mirror_url U [CHR ''/'', CHR 0x5C, CHR ''h''] False \<and> mirror_url U [CHR ''/'', CHR 0x09, CHR ''/'', CHR ''h''] False"
proof -
  have "to_lower U s = map lower_byte s" if "is_ascii s" for s using that by (simp add: to_lower_def)
  moreover have "is_ascii [CHR ''/'', CHR 0x5C, CHR ''h'']" "is_ascii [CHR ''/'', CHR 0x09, CHR ''/'', CHR ''h'']"
    "trim_space [CHR ''/'', CHR 0x5C, CHR ''h''] = [CHR ''/'', CHR 0x5C, CHR ''h'']"
    "trim_space [CHR ''/'', CHR 0x09, CHR ''/'', CHR ''h''] = [CHR ''/'', CHR 0x09, CHR ''/'', CHR ''h'']"
    "map lower_byte [CHR ''/'', CHR 0x5C, CHR ''h''] = [CHR ''/'', CHR 0x5C, CHR ''h'']"
    "map lower_byte [CHR ''/'', CHR 0x09, CHR ''/'', CHR ''h''] = [CHR ''/'', CHR 0x09, CHR ''/'', CHR ''h'']"
    by code_simp+
  ultimately show ?thesis by (simp add: mirror_url_def has_prefix_def)
qed

end
