(* ===== verification/Host_Page.thy ===== *)
theory Host_Page
  imports Base64 Mirror
begin

text \<open>
  What a page's session keeps for the program in its terminal, and takes back when the program
  ends: its placements and shipped widgets, its font, the page's title, address and icon, its
  mirror, its sounds and the viewer (\<^verbatim>\<open>web/place.go\<close>, \<^verbatim>\<open>ship.go\<close>,
  \<^verbatim>\<open>font.go\<close>, \<^verbatim>\<open>page.go\<close>, \<^verbatim>\<open>mirror.go\<close>, \<^verbatim>\<open>sound.go\<close>,
  \<^verbatim>\<open>viewer.go\<close>, \<^verbatim>\<open>trust.go\<close>, \<^verbatim>\<open>remoteend.go\<close>, \<^verbatim>\<open>zoom.go\<close>). The
  browser is kept as the values it holds: the document's title, address and icon, the terminal's
  font and size, the elements placed, the object URLs alive.
\<close>

subsection \<open>The state\<close>

text \<open>Go's maps with string keys, as lists without double keys.\<close>

definition map_put :: "'k \<Rightarrow> 'v \<Rightarrow> ('k \<times> 'v) list \<Rightarrow> ('k \<times> 'v) list" where
  "map_put k v m = (k, v) # filter (\<lambda>p. fst p \<noteq> k) m"

definition map_del :: "'k \<Rightarrow> ('k \<times> 'v) list \<Rightarrow> ('k \<times> 'v) list" where
  "map_del k m = filter (\<lambda>p. fst p \<noteq> k) m"

record place_data =
  pd_row :: int
  pd_col :: int
  pd_w :: int
  pd_h :: int
  pd_url :: string
  pd_widget :: string
  pd_fit :: string
  pd_input :: bool
  pd_page :: bool
  pd_events :: bool

text \<open>What fills a placement's element, and the shipped widgets: their kind and their bytes.\<close>

datatype pl_fill =
    Page_Widget string
  | Shipped_Widget string string
  | Offered_Widget string
  | Picture string string

text \<open>A placement; its box is its cells and the screen's columns and rows it was set for.\<close>

record placement =
  pl_data :: place_data
  pl_fill :: pl_fill
  pl_box :: "(int \<times> int \<times> int \<times> int \<times> int \<times> int) option"
  pl_port :: bool

record shipping =
  sh_done :: "(string \<times> string \<times> string) list"
  sh_part :: "(string \<times> string) list"
  sh_size :: int

definition no_shipping :: shipping where
  "no_shipping = \<lparr>sh_done = [], sh_part = [], sh_size = 0\<rparr>"

text \<open>The font: a load under way has its hash, its family, the size asked and the command it is for.\<close>

record 'f font_state =
  fo_part :: string
  fo_loaded :: "(string \<times> string) list"
  fo_loading :: "(string \<times> string \<times> 'f \<times> nat) list"
  fo_saved :: bool
  fo_family :: string
  fo_size :: 'f
  fo_size_change :: bool

record page_state =
  pg_saved :: bool
  pg_title :: string
  pg_url :: string
  pg_icon :: string
  pg_icon_set :: bool
  pg_link_line :: string
  pg_link_path :: string

text \<open>A sound playing: its source, the object URL it has, its volume, whether it loops.\<close>

record 'f sound =
  sd_src :: string
  sd_obj :: "nat option"
  sd_volume :: "'f option"
  sd_loop :: bool

record 'f sound_state =
  so_playing :: "(string \<times> 'f sound) list"
  so_part :: string
  so_size :: int

definition no_sounds :: "'f sound_state" where
  "no_sounds = \<lparr>so_playing = [], so_part = [], so_size = 0\<rparr>"

text \<open>The document: its icon is the link's href, if there is a link and it has one.\<close>

record document =
  dc_title :: string
  dc_url :: string
  dc_icon :: "string option option"

record 'f host =
  hp_source :: string
  hp_running :: bool
  hp_cmds :: nat
  hp_line :: string
  hp_cols :: int
  hp_rows :: int
  hp_doc :: document
  hp_family :: string
  hp_size :: 'f
  hp_page :: page_state
  hp_font :: "'f font_state"
  hp_mirror_part :: string
  hp_mirror :: "dom list"
  hp_sounds :: "'f sound_state"
  hp_urls :: "nat list"
  hp_next_url :: nat
  hp_drop :: bool
  hp_by :: "(string \<times> placement) list"
  hp_pcols :: int
  hp_prows :: int
  hp_shipped :: shipping
  hp_viewer :: "(string \<times> string) option"
  hp_dismissed :: bool
  hp_panicked :: bool

subsection \<open>What the host is given\<close>

record 'f sound_req =
  sr_id :: string
  sr_url :: string
  sr_type :: string
  sr_volume :: "'f option"
  sr_loop :: bool
  sr_stop :: bool
  sr_more :: bool

text \<open>\<^verbatim>\<open>json.Unmarshal\<close> into each request's struct.\<close>

record 'f json_in =
  jn_place :: "string \<Rightarrow> place_data option"
  jn_ship :: "string \<Rightarrow> (string \<times> bool) option"
  jn_font :: "string \<Rightarrow> ('f \<times> bool) option"
  jn_mirror :: "string \<Rightarrow> bool option"
  jn_page :: "string \<Rightarrow> (string \<times> string) option"
  jn_icon :: "string \<Rightarrow> string option"
  jn_sound :: "string \<Rightarrow> 'f sound_req option"
  jn_view :: "string \<Rightarrow> (string \<times> string) option"

text \<open>
  The page around: the Unicode tables, a font's content hash, \<^verbatim>\<open>strconv.Quote\<close>,
  \<^verbatim>\<open>url.QueryEscape\<close>, the address without its fragment, the parser, the names \<^verbatim>\<open>setAttribute\<close> takes,
  whether there is a root for the mirror's region, whether a name is a widget of the page or one
  offered, whether the terminal has its screen, and the size it opened at.
\<close>

record 'f host_env =
  he_json :: "'f json_in"
  he_unicode :: unicode
  he_hash :: "string \<Rightarrow> string"
  he_quote :: "string \<Rightarrow> string"
  he_escape :: "string \<Rightarrow> string"
  he_base :: string
  he_parse :: "string \<Rightarrow> dom list"
  he_attr_ok :: "string \<Rightarrow> bool"
  he_region :: bool
  he_widget :: "string \<Rightarrow> bool"
  he_offer :: "string \<Rightarrow> bool"
  he_screen :: bool
  he_size :: 'f

definition b64_json :: "(string \<Rightarrow> 'a option) \<Rightarrow> string \<Rightarrow> 'a option" where
  "b64_json un enc = Option.bind (b64_decode enc) un"

definition web_url :: "string \<Rightarrow> bool" where
  "web_url u = (has_prefix u ''https://'' \<or> has_prefix u ''http://'')"

subsection \<open>Trust\<close>

definition remote :: "'f host \<Rightarrow> bool" where
  "remote s = (hp_source s = ''remote'' \<or> hp_source s = ''terminal'')"

definition trust :: "'f host \<Rightarrow> string" where
  "trust s = (if remote s then ''remote'' else hp_source s)"

text \<open>The features in the answer to the caps query.\<close>

definition host_features :: "'f host \<Rightarrow> string list" where
  "host_features s = [''place'', ''place.input'', ''event'', ''post'', ''ship'', ''download'', ''clipboard'',
     ''mirror'', ''notify'', ''sound'', ''drop'', ''image'', ''kitty-graphics''] @
   (if trust s \<noteq> ''remote'' then [''widget.offer'', ''font'', ''title'', ''page'', ''icon'']
    else if hp_source s = ''terminal'' then [''title''] else [])"

definition link_path :: "'f host \<Rightarrow> string" where
  "link_path s = (if pg_link_line (hp_page s) \<noteq> [] \<and> hp_line s = pg_link_line (hp_page s)
     then pg_link_path (hp_page s) else [])"

subsection \<open>The page's title, address and icon\<close>

definition page_save :: "'f host \<Rightarrow> 'f host" where
  "page_save s = (if pg_saved (hp_page s) then s
     else s\<lparr>hp_page := (hp_page s)\<lparr>pg_saved := True, pg_title := dc_title (hp_doc s),
            pg_url := dc_url (hp_doc s)\<rparr>\<rparr>)"

definition page_restore :: "'f host \<Rightarrow> 'f host" where
  "page_restore s = (let p = hp_page s in
     if \<not> pg_saved p then s
     else s\<lparr>hp_doc := (hp_doc s)\<lparr>dc_title := pg_title p, dc_url := pg_url p,
              dc_icon := (if pg_icon_set p then (if pg_icon p = [] then None else Some (Some (pg_icon p)))
                          else dc_icon (hp_doc s))\<rparr>,
            hp_page := p\<lparr>pg_icon_set := False, pg_saved := False\<rparr>\<rparr>)"

definition set_icon :: "'f host_env \<Rightarrow> string \<Rightarrow> 'f host \<Rightarrow> 'f host" where
  "set_icon E enc s =
     (if \<not> hp_running s \<or> remote s then s
      else (case b64_json (jn_icon (he_json E)) enc of
        None \<Rightarrow> s
      | Some url \<Rightarrow>
         if length url > 1048576 then s
         else (let u = to_lower (he_unicode E) url in
           if \<not> has_prefix u ''https://'' \<and> \<not> has_prefix u ''http://'' \<and> \<not> has_prefix u ''data:image/'' then s
           else (let s1 = page_save s;
                     href = (case dc_icon (hp_doc s1) of Some (Some h) \<Rightarrow> h | _ \<Rightarrow> []);
                     p = hp_page s1;
                     p1 = (if pg_icon_set p then p else p\<lparr>pg_icon_set := True, pg_icon := href\<rparr>)
             in s1\<lparr>hp_page := p1, hp_doc := (hp_doc s1)\<lparr>dc_icon := Some (Some url)\<rparr>\<rparr>))))"

definition set_title :: "string \<Rightarrow> 'f host \<Rightarrow> 'f host" where
  "set_title title s =
     (if \<not> hp_running s \<or> hp_source s = ''remote'' then s
      else (let s1 = page_save s in s1\<lparr>hp_doc := (hp_doc s1)\<lparr>dc_title := title\<rparr>\<rparr>))"

definition set_page :: "'f host_env \<Rightarrow> string \<Rightarrow> 'f host \<Rightarrow> 'f host" where
  "set_page E enc s =
     (if \<not> hp_running s \<or> remote s then s
      else (case b64_json (jn_page (he_json E)) enc of
        None \<Rightarrow> s
      | Some (path, title) \<Rightarrow>
         if length path > 2048 \<or> contains_any path [CHR 0x00, CHR 0x0D, CHR 0x0A] then s
         else (let s1 = page_save s;
                   frag = ''run='' @ he_escape E (hp_line s1) @
                     (if path \<noteq> [] then ''&at='' @ he_escape E path else []);
                   d = (hp_doc s1)\<lparr>dc_url := he_base E @ ''#'' @ frag\<rparr>
           in s1\<lparr>hp_doc := (if title \<noteq> [] then d\<lparr>dc_title := title\<rparr> else d)\<rparr>)))"

subsection \<open>The font\<close>

definition font_use :: "'f :: linordered_idom host_env \<Rightarrow> string \<Rightarrow> 'f \<Rightarrow> 'f host \<Rightarrow> 'f host" where
  "font_use E family size0 s =
     (let f = hp_font s;
          f1 = (if fo_saved f then f else f\<lparr>fo_saved := True, fo_family := hp_family s, fo_size := hp_size s\<rparr>);
          f2 = (if size0 \<le> 0 then f1 else f1\<lparr>fo_size_change := True\<rparr>)
      in s\<lparr>hp_font := f2, hp_family := he_quote E family @ '', '' @ fo_family f1,
           hp_size := (if size0 \<le> 0 then hp_size s else size0)\<rparr>)"

definition font_restore :: "'f host \<Rightarrow> 'f host" where
  "font_restore s = (let f = (hp_font s)\<lparr>fo_part := []\<rparr> in
     if \<not> fo_saved f then s\<lparr>hp_font := f\<rparr>
     else s\<lparr>hp_family := fo_family f, hp_size := (if fo_size_change f then fo_size f else hp_size s),
            hp_font := f\<lparr>fo_saved := False, fo_size_change := False\<rparr>\<rparr>)"

definition font_load :: "'f :: linordered_idom host_env \<Rightarrow> string \<Rightarrow> 'f \<Rightarrow> 'f host \<Rightarrow> 'f host" where
  "font_load E data size0 s = (let hash = he_hash E data; f = hp_font s in
     (case map_of (fo_loaded f) hash of
       Some family \<Rightarrow> font_use E family size0 s
     | None \<Rightarrow> s\<lparr>hp_font := f\<lparr>fo_loading :=
         fo_loading f @ [(hash, ''websh-font-'' @ hash, size0, hp_cmds s)]\<rparr>\<rparr>))"

text \<open>The browser answers a load: the font is there, or it did not load.\<close>

definition font_answer :: "'f :: linordered_idom host_env \<Rightarrow> bool \<Rightarrow> nat \<Rightarrow> 'f host \<Rightarrow> 'f host" where
  "font_answer E ok i s = (let f = hp_font s in
     if i < length (fo_loading f) then
       (case fo_loading f ! i of (hash, family, size0, cmd) \<Rightarrow>
          let rest = take i (fo_loading f) @ drop (Suc i) (fo_loading f) in
          if ok then
            (let s1 = s\<lparr>hp_font := f\<lparr>fo_loading := rest, fo_loaded := map_put hash family (fo_loaded f)\<rparr>\<rparr>
             in if hp_running s1 \<and> hp_cmds s1 = cmd then font_use E family size0 s1 else s1)
          else s\<lparr>hp_font := f\<lparr>fo_loading := rest\<rparr>\<rparr>)
     else s)"

definition font_limit :: int where
  "font_limit = 4194304"

definition set_font :: "'f :: linordered_idom host_env \<Rightarrow> string \<Rightarrow> 'f host \<Rightarrow> 'f host" where
  "set_font E arg s =
     (if remote s then s
      else if arg = ''reset'' then font_restore s
      else (case cut_byte arg (CHR '';'') of (enc, chunk, _) \<Rightarrow>
        (case b64_json (jn_font (he_json E)) enc of
          None \<Rightarrow> s
        | Some (size0, mr) \<Rightarrow>
           (case b64_decode chunk of
             None \<Rightarrow> s\<lparr>hp_font := (hp_font s)\<lparr>fo_part := []\<rparr>\<rparr>
           | Some b \<Rightarrow>
              let part = fo_part (hp_font s) @ b in
              if int (length part) > font_limit then s\<lparr>hp_font := (hp_font s)\<lparr>fo_part := []\<rparr>\<rparr>
              else if mr then s\<lparr>hp_font := (hp_font s)\<lparr>fo_part := part\<rparr>\<rparr>
              else font_load E part size0 (s\<lparr>hp_font := (hp_font s)\<lparr>fo_part := []\<rparr>\<rparr>)))))"


text \<open>Ctrl with the wheel, plus and minus: the size held in its range.\<close>

definition clamp_zoom :: "'f :: linordered_idom \<Rightarrow> 'f" where
  "clamp_zoom v = (if v < 4 then 4 else if v > 32 then 32 else v)"

definition zoom_by :: "'f :: linordered_idom \<Rightarrow> 'f host \<Rightarrow> 'f host" where
  "zoom_by by s = s\<lparr>hp_size := clamp_zoom (hp_size s + by)\<rparr>"

definition zoom_reset :: "'f host_env \<Rightarrow> 'f host \<Rightarrow> 'f host" where
  "zoom_reset E s = s\<lparr>hp_size := he_size E\<rparr>"

subsection \<open>The mirror\<close>

definition mirror_limit :: int where
  "mirror_limit = 1048576"

text \<open>
  \<^verbatim>\<open>mirrorShow\<close>. Without the root the region would be made in, nothing is shown. Where the document
  refuses an attribute's name, the page's program ends in a panic: what a run says of the host
  after that is of no host any more.
\<close>

definition show_mirror :: "'f host_env \<Rightarrow> string \<Rightarrow> 'f host \<Rightarrow> 'f host" where
  "show_mirror E html s =
     (if \<not> he_region E then s
      else (let (ds, threw) = mirror_show (he_unicode E) (he_attr_ok E) (he_parse E) html in
        s\<lparr>hp_mirror := ds, hp_panicked := hp_panicked s \<or> threw\<rparr>))"

definition set_mirror :: "'f host_env \<Rightarrow> string \<Rightarrow> 'f host \<Rightarrow> 'f host" where
  "set_mirror E arg s = (case cut_byte arg (CHR '';'') of (enc, chunk, _) \<Rightarrow>
     (case b64_json (jn_mirror (he_json E)) enc of
       None \<Rightarrow> s
     | Some mr \<Rightarrow>
        (case b64_decode chunk of
          None \<Rightarrow> s\<lparr>hp_mirror_part := []\<rparr>
        | Some b \<Rightarrow>
           let part = hp_mirror_part s @ b in
           if int (length part) > mirror_limit then s\<lparr>hp_mirror_part := []\<rparr>
           else if mr then s\<lparr>hp_mirror_part := part\<rparr>
           else show_mirror E part (s\<lparr>hp_mirror_part := []\<rparr>))))"

definition mirror_clear :: "'f host \<Rightarrow> 'f host" where
  "mirror_clear s = s\<lparr>hp_mirror_part := [], hp_mirror := []\<rparr>"

subsection \<open>Sounds\<close>

definition sound_limit :: int where
  "sound_limit = 8388608"

definition sound_stop :: "string \<Rightarrow> 'f host \<Rightarrow> 'f host" where
  "sound_stop i s = (case map_of (so_playing (hp_sounds s)) i of
     None \<Rightarrow> s
   | Some p \<Rightarrow> s\<lparr>hp_sounds := (hp_sounds s)\<lparr>so_playing := map_del i (so_playing (hp_sounds s))\<rparr>,
                 hp_urls := (case sd_obj p of None \<Rightarrow> hp_urls s | Some u \<Rightarrow> removeAll u (hp_urls s))\<rparr>)"

definition sounds_end :: "'f host \<Rightarrow> 'f host" where
  "sounds_end s = (fold sound_stop (map fst (so_playing (hp_sounds s))) s)\<lparr>hp_sounds := no_sounds\<rparr>"

text \<open>The sound starts, in place of the one its id had.\<close>

definition sound_start :: "'f :: linordered_idom sound_req \<Rightarrow> string \<Rightarrow> nat option \<Rightarrow> 'f host \<Rightarrow> 'f host" where
  "sound_start m src obj s = (let s1 = sound_stop (sr_id m) s;
       snd1 = \<lparr>sd_src = src, sd_obj = obj,
              sd_volume = map_option (\<lambda>v. max 0 (min 1 v)) (sr_volume m), sd_loop = sr_loop m\<rparr>
     in s1\<lparr>hp_sounds := (hp_sounds s1)\<lparr>so_playing := map_put (sr_id m) snd1 (so_playing (hp_sounds s1))\<rparr>\<rparr>)"

definition set_sound :: "'f :: linordered_idom host_env \<Rightarrow> string \<Rightarrow> 'f host \<Rightarrow> 'f host" where
  "set_sound E arg s = (case cut_byte arg (CHR '';'') of (enc, chunk, _) \<Rightarrow>
     (case b64_json (jn_sound (he_json E)) enc of
       None \<Rightarrow> s
     | Some m \<Rightarrow>
        if sr_stop m then sound_stop (sr_id m) s
        else if sr_url m \<noteq> [] then
          (if web_url (sr_url m) then sound_start m (sr_url m) None s else s)
        else (let st = hp_sounds s in
          (case b64_decode chunk of
            None \<Rightarrow> s\<lparr>hp_sounds := st\<lparr>so_part := []\<rparr>\<rparr>
          | Some b \<Rightarrow>
             if so_size st + int (length b) > sound_limit then s\<lparr>hp_sounds := st\<lparr>so_part := []\<rparr>\<rparr>
             else (let st1 = st\<lparr>so_size := so_size st + int (length b), so_part := so_part st @ b\<rparr> in
               if sr_more m then s\<lparr>hp_sounds := st1\<rparr>
               else (let u = hp_next_url s;
                         s1 = s\<lparr>hp_sounds := st1\<lparr>so_part := []\<rparr>, hp_urls := u # hp_urls s, hp_next_url := Suc u\<rparr>
                 in sound_start m (''blob:'' @ itoa (int u)) (Some u) s1))))))"

subsection \<open>Shipped widgets\<close>

definition ship_limit :: int where
  "ship_limit = 8388608"

definition ship :: "'f host_env \<Rightarrow> string \<Rightarrow> string \<Rightarrow> string \<Rightarrow> 'f host \<Rightarrow> 'f host" where
  "ship E name meta chunk s =
     (case b64_json (jn_ship (he_json E)) meta of
       None \<Rightarrow> s
     | Some (kind, mr) \<Rightarrow>
        if kind \<noteq> ''html'' \<and> kind \<noteq> ''wasm'' \<or> name = [] then s
        else (case b64_decode chunk of
            None \<Rightarrow> s
          | Some b \<Rightarrow>
             let sh = hp_shipped s in
             if sh_size sh + int (length b) > ship_limit then
               s\<lparr>hp_shipped := sh\<lparr>sh_part := map_del name (sh_part sh)\<rparr>\<rparr>
             else (let part = (case map_of (sh_part sh) name of None \<Rightarrow> [] | Some p \<Rightarrow> p) @ b;
                       sh1 = sh\<lparr>sh_size := sh_size sh + int (length b)\<rparr>
               in s\<lparr>hp_shipped :=
                 (if mr then sh1\<lparr>sh_part := map_put name part (sh_part sh)\<rparr>
                  else sh1\<lparr>sh_done := map_put name (kind, part) (sh_done sh),
                           sh_part := map_del name (sh_part sh)\<rparr>)\<rparr>)))"

subsection \<open>Placements\<close>

definition place_at :: "placement \<Rightarrow> 'f host \<Rightarrow> placement" where
  "place_at pl s = (if hp_cols s \<le> 0 \<or> hp_rows s \<le> 0 then pl
     else pl\<lparr>pl_box := Some (pd_col (pl_data pl), pd_row (pl_data pl), pd_w (pl_data pl), pd_h (pl_data pl),
                             hp_cols s, hp_rows s)\<rparr>)"

text \<open>\<^verbatim>\<open>position\<close>: the screen's size is the one placements were put for.\<close>

definition note_screen :: "'f host \<Rightarrow> 'f host" where
  "note_screen s = (if hp_cols s \<le> 0 \<or> hp_rows s \<le> 0 then s
     else s\<lparr>hp_pcols := hp_cols s, hp_prows := hp_rows s\<rparr>)"

definition reposition :: "'f host \<Rightarrow> 'f host" where
  "reposition s =
     (if hp_cols s = hp_pcols s \<and> hp_rows s = hp_prows s then s
      else if hp_by s = [] then s
      else note_screen (s\<lparr>hp_by := map (\<lambda>(i, pl). (i, place_at pl s)) (hp_by s)\<rparr>))"

definition place_remove :: "string \<Rightarrow> 'f host \<Rightarrow> 'f host" where
  "place_remove i s = s\<lparr>hp_by := map_del i (hp_by s)\<rparr>"

definition place_clear :: "'f host \<Rightarrow> 'f host" where
  "place_clear s = fold place_remove (map fst (hp_by s)) s"

definition same_content :: "place_data \<Rightarrow> place_data \<Rightarrow> bool" where
  "same_content a b = (pd_url a = pd_url b \<and> pd_widget a = pd_widget b \<and> pd_fit a = pd_fit b \<and>
     pd_input a = pd_input b \<and> pd_page a = pd_page b \<and> pd_events a = pd_events b)"

text \<open>
  What the placement is filled with: the page's own widgets first, then those the program
  shipped, then those a program in the tab offered.
\<close>

definition place_fill :: "'f host_env \<Rightarrow> place_data \<Rightarrow> 'f host \<Rightarrow> pl_fill option" where
  "place_fill E d s =
     (if pd_widget d \<noteq> [] then
        (if he_widget E (pd_widget d) then Some (Page_Widget (pd_widget d))
         else (case map_of (sh_done (hp_shipped s)) (pd_widget d) of
             Some (kind, body) \<Rightarrow> Some (Shipped_Widget kind body)
           | None \<Rightarrow> if \<not> he_offer E (pd_widget d) \<or> remote s then None else Some (Offered_Widget (pd_widget d))))
      else if web_url (pd_url d) then
        Some (Picture (pd_url d) (if pd_fit d = ''cover'' \<or> pd_fit d = ''fill'' then pd_fit d else ''contain''))
      else None)"

fun has_port :: "pl_fill \<Rightarrow> bool" where
  "has_port (Shipped_Widget k b) = True"
| "has_port (Offered_Widget n) = True"
| "has_port _ = False"

definition place :: "'f host_env \<Rightarrow> string \<Rightarrow> place_data \<Rightarrow> 'f host \<Rightarrow> 'f host" where
  "place E i d s =
     (if \<not> he_screen E \<or> pd_w d \<le> 0 \<or> pd_h d \<le> 0 then s
      else (case map_of (hp_by s) i of
          Some old \<Rightarrow> if same_content (pl_data old) d
            then note_screen (s\<lparr>hp_by := map_put i (place_at (old\<lparr>pl_data := d\<rparr>) s) (hp_by s)\<rparr>)
            else (let s1 = place_remove i s in (case place_fill E d s1 of
                None \<Rightarrow> s1
              | Some fill \<Rightarrow> note_screen (s1\<lparr>hp_by := map_put i (place_at
                  \<lparr>pl_data = d, pl_fill = fill, pl_box = None, pl_port = has_port fill\<rparr> s1) (hp_by s1)\<rparr>)))
        | None \<Rightarrow> (case place_fill E d s of
              None \<Rightarrow> s
            | Some fill \<Rightarrow> note_screen (s\<lparr>hp_by := map_put i (place_at
                \<lparr>pl_data = d, pl_fill = fill, pl_box = None, pl_port = has_port fill\<rparr> s) (hp_by s)\<rparr>))))"


subsection \<open>The viewer\<close>

definition viewer_show :: "bool \<Rightarrow> string \<Rightarrow> string \<Rightarrow> 'f host \<Rightarrow> 'f host" where
  "viewer_show open_it url title s = (let s1 = (if open_it then s\<lparr>hp_dismissed := False\<rparr> else s) in
     if hp_dismissed s1 then s1 else s1\<lparr>hp_viewer := Some (url, title)\<rparr>)"

text \<open>The person closes the window, or the program does.\<close>

definition viewer_dismiss :: "'f host \<Rightarrow> 'f host" where
  "viewer_dismiss s = (if hp_viewer s = None then s else s\<lparr>hp_viewer := None, hp_dismissed := True\<rparr>)"

definition viewer_close :: "'f host \<Rightarrow> 'f host" where
  "viewer_close s = s\<lparr>hp_viewer := None\<rparr>"

definition viewer_request :: "'f host_env \<Rightarrow> bool \<Rightarrow> string \<Rightarrow> 'f host \<Rightarrow> 'f host" where
  "viewer_request E open_it enc s = (case b64_json (jn_view (he_json E)) enc of
     None \<Rightarrow> s
   | Some (url, title) \<Rightarrow> if web_url url then viewer_show open_it url title s else s)"

subsection \<open>A request\<close>

text \<open>
  OSC 7337, its data as the terminal hands it over. The caps query and a message posted to a
  widget change nothing here: one is answered (\<open>host_features\<close>), one goes to the widget's port.
\<close>

definition osc_7337 :: "'f :: linordered_idom host_env \<Rightarrow> string \<Rightarrow> 'f host \<Rightarrow> 'f host" where
  "osc_7337 E data s0 = (case cut_byte data (CHR '';'') of (cmd, arg, _) \<Rightarrow>
     let s = reposition s0 in
     if cmd = ''place'' then
       (case cut_byte arg (CHR '';'') of (i, enc, _) \<Rightarrow>
         (case b64_json (jn_place (he_json E)) enc of
           Some d \<Rightarrow> if i \<noteq> [] then place E i d s else s
         | None \<Rightarrow> s))
     else if cmd = ''sound'' then set_sound E arg s
     else if cmd = ''icon'' then set_icon E arg s
     else if cmd = ''listen'' then (if arg = ''drop'' then s\<lparr>hp_drop := hp_running s\<rparr> else s)
     else if cmd = ''mirror'' then set_mirror E arg s
     else if cmd = ''page'' then set_page E arg s
     else if cmd = ''font'' then set_font E arg s
     else if cmd = ''ship'' then
       (case cut_byte arg (CHR '';'') of (name, rest, _) \<Rightarrow>
         (case cut_byte rest (CHR '';'') of (meta, chunk, _) \<Rightarrow> ship E name meta chunk s))
     else if cmd = ''remove'' then place_remove arg s
     else if cmd = ''clear'' then place_clear s
     else if cmd = ''close'' then viewer_close s
     else if cmd = ''view'' \<or> cmd = ''open'' then viewer_request E (cmd = ''open'') arg s
     else s)"

subsection \<open>The end of a program\<close>

definition program_ended :: "'f host \<Rightarrow> 'f host" where
  "program_ended s =
     (sounds_end (mirror_clear (page_restore (font_restore
        ((place_clear s)\<lparr>hp_shipped := no_shipping\<rparr>)))))\<lparr>hp_drop := False\<rparr>"

text \<open>
  \<^verbatim>\<open>remoteEnded\<close>, at a mark a remote program's end leaves: a full reset, the remote
  shell's prompt mark, the way back from the alternate screen, Ctrl+C or Ctrl+\ typed.
\<close>

definition remote_ended :: "'f host \<Rightarrow> 'f host" where
  "remote_ended s = (if remote s then program_ended s else s)"

definition prompt_mark :: "string \<Rightarrow> 'f host \<Rightarrow> 'f host" where
  "prompt_mark data s = (if data = ''A'' \<or> has_prefix data ''A;'' then remote_ended s else s)"

definition interrupt_typed :: "string \<Rightarrow> 'f host \<Rightarrow> 'f host" where
  "interrupt_typed data s = (if contains_any data [CHR 0x03, CHR 0x1C] then remote_ended s else s)"

text \<open>The run loop's part in it: a command starts, and ends.\<close>

definition command_starts :: "string \<Rightarrow> 'f host \<Rightarrow> 'f host" where
  "command_starts line s = s\<lparr>hp_cmds := Suc (hp_cmds s), hp_line := line, hp_running := True\<rparr>"

definition command_ends :: "'f host \<Rightarrow> 'f host" where
  "command_ends s = (let s1 = program_ended (s\<lparr>hp_running := False\<rparr>)
     in s1\<lparr>hp_page := (hp_page s1)\<lparr>pg_link_line := []\<rparr>\<rparr>)"

text \<open>\<^verbatim>\<open>OpenLink\<close>, with the values of the address's \<open>run\<close> and \<open>at\<close>: what is typed.\<close>

definition open_link :: "string \<Rightarrow> string \<Rightarrow> 'f host \<Rightarrow> string \<times> 'f host" where
  "open_link run_v at_v s = (if run_v = [] then ([], s)
     else (let line = string_of_runes (filter (\<lambda>r. 32 \<le> r) (runes run_v))
       in (line, s\<lparr>hp_page := (hp_page s)\<lparr>pg_link_line := line, pg_link_path := at_v\<rparr>\<rparr>)))"

text \<open>What happens while a command runs.\<close>

datatype 'f host_op =
    Op_Osc string
  | Op_Title string
  | Op_Prompt_Mark string
  | Op_Reset
  | Op_Normal_Screen
  | Op_Typed string
  | Op_Font_Answer bool nat
  | Op_Source string
  | Op_Screen int int
  | Op_Zoom 'f
  | Op_Zoom_Reset
  | Op_Dismiss

fun host_step :: "'f :: linordered_idom host_env \<Rightarrow> 'f host_op \<Rightarrow> 'f host \<Rightarrow> 'f host" where
  "host_step E (Op_Osc data) s = osc_7337 E data s"
| "host_step E (Op_Title title) s = set_title title s"
| "host_step E (Op_Prompt_Mark data) s = prompt_mark data s"
| "host_step E Op_Reset s = remote_ended s"
| "host_step E Op_Normal_Screen s = remote_ended s"
| "host_step E (Op_Typed data) s = interrupt_typed data s"
| "host_step E (Op_Font_Answer ok i) s = font_answer E ok i s"
| "host_step E (Op_Source src) s = s\<lparr>hp_source := src\<rparr>"
| "host_step E (Op_Screen c r) s = s\<lparr>hp_cols := c, hp_rows := r\<rparr>"
| "host_step E (Op_Zoom by) s = zoom_by by s"
| "host_step E Op_Zoom_Reset s = zoom_reset E s"
| "host_step E Op_Dismiss s = viewer_dismiss s"

definition host_run :: "'f :: linordered_idom host_env \<Rightarrow> 'f host_op list \<Rightarrow> 'f host \<Rightarrow> 'f host" where
  "host_run E ops s = fold (host_step E) ops s"


subsection \<open>What each operation leaves alone\<close>

lemma place_clear_eq [simp]: "place_clear s = s\<lparr>hp_by := []\<rparr>"
proof -
  have f: "fold place_remove ids s = s\<lparr>hp_by := filter (\<lambda>p. fst p \<notin> set ids) (hp_by s)\<rparr>" for ids s
  proof (induction ids arbitrary: s)
    case (Cons i ids)
    then show ?case by (simp add: place_remove_def map_del_def conj_commute)
  qed simp
  have "filter (\<lambda>p. fst p \<notin> fst ` set (hp_by s)) (hp_by s) = []" by (auto simp: filter_empty_conv)
  then show ?thesis by (simp add: place_clear_def f)
qed

text \<open>Operations that touch neither the document nor the font nor the source of the output.\<close>

definition host_frame :: "'f host \<Rightarrow> document \<times> page_state \<times> string \<times> 'f \<times> 'f font_state \<times> string \<times> bool" where
  "host_frame s = (hp_doc s, hp_page s, hp_family s, hp_size s, hp_font s, hp_source s, hp_running s)"

named_theorems frame

lemma sound_stop_frame [frame]: "host_frame (sound_stop i s) = host_frame s"
  by (simp add: sound_stop_def host_frame_def split: option.splits)

lemma sounds_end_frame [frame]: "host_frame (sounds_end s) = host_frame s"
proof -
  have "host_frame (fold sound_stop ids s) = host_frame s" for ids
    by (induction ids arbitrary: s) (simp_all add: sound_stop_frame)
  from this [of "map fst (so_playing (hp_sounds s))"] show ?thesis
    by (simp add: sounds_end_def host_frame_def)
qed

lemma sound_start_frame [frame]: "host_frame (sound_start m src obj s) = host_frame s"
  using sound_stop_frame [of "sr_id m" s] by (simp add: sound_start_def host_frame_def Let_def)

lemma set_sound_frame [frame]: "host_frame (set_sound E arg s) = host_frame s"
proof -
  have c: "host_frame (s\<lparr>hp_sounds := x\<rparr>) = host_frame s"
    "host_frame (s\<lparr>hp_sounds := x, hp_urls := y, hp_next_url := z\<rparr>) = host_frame s" for x y z
    by (simp_all add: host_frame_def)
  show ?thesis
    by (simp add: set_sound_def Let_def frame c split: option.splits prod.splits)
qed

lemma mirror_frame [frame]: "host_frame (set_mirror E arg s) = host_frame s" "host_frame (mirror_clear s) = host_frame s"
  by (simp_all add: set_mirror_def show_mirror_def mirror_clear_def host_frame_def Let_def split: option.splits prod.splits)

lemma ship_frame [frame]: "host_frame (ship E name meta chunk s) = host_frame s"
  by (simp add: ship_def host_frame_def Let_def split: option.splits prod.splits)

lemma place_frame [frame]: "host_frame (place E i d s) = host_frame s" "host_frame (place_remove i s) = host_frame s"
  "host_frame (reposition s) = host_frame s" "host_frame (s\<lparr>hp_by := b\<rparr>) = host_frame s"
  by (simp_all add: place_def note_screen_def place_remove_def reposition_def host_frame_def Let_def
      split: option.splits)

lemma viewer_frame [frame]: "host_frame (viewer_request E op enc s) = host_frame s"
  "host_frame (viewer_close s) = host_frame s" "host_frame (viewer_dismiss s) = host_frame s"
  by (simp_all add: viewer_request_def viewer_show_def viewer_close_def viewer_dismiss_def host_frame_def Let_def
      split: option.splits prod.splits)

text \<open>A request, seen from there: the icon, the address, the font, or nothing.\<close>

lemma osc_frame:
  obtains (icon) r arg where "host_frame r = host_frame s" "osc_7337 E data s = set_icon E arg r"
    | (page) r arg where "host_frame r = host_frame s" "osc_7337 E data s = set_page E arg r"
    | (font) r arg where "host_frame r = host_frame s" "osc_7337 E data s = set_font E arg r"
    | (other) "host_frame (osc_7337 E data s) = host_frame s"
proof -
  obtain cmd arg ok where c: "cut_byte data (CHR '';'') = (cmd, arg, ok)" by (cases "cut_byte data (CHR '';'')")
  have r: "host_frame (reposition s) = host_frame s" by (rule frame)
  consider "cmd = ''icon''" | "cmd = ''page''" | "cmd = ''font''" | "cmd \<notin> {''icon'', ''page'', ''font''}" by blast
  then show thesis
  proof cases
    case 1
    with c r icon show thesis by (simp add: osc_7337_def Let_def)
  next
    case 2
    with c r page show thesis by (simp add: osc_7337_def Let_def)
  next
    case 3
    with c r font show thesis by (simp add: osc_7337_def Let_def)
  next
    case 4
    have d: "host_frame (x\<lparr>hp_drop := b\<rparr>) = host_frame x" for x :: "'a host" and b by (simp add: host_frame_def)
    from 4 have "host_frame (osc_7337 E data s) = host_frame (reposition s)"
      by (simp add: osc_7337_def c Let_def frame d split: option.splits prod.splits)
    with r other show thesis by simp
  qed
qed


subsection \<open>What a program changed goes back\<close>

definition icon_href :: "document \<Rightarrow> string" where
  "icon_href d = (case dc_icon d of Some (Some h) \<Rightarrow> h | _ \<Rightarrow> [])"

text \<open>The document as it was is kept, or is there.\<close>

definition page_inv :: "document \<Rightarrow> 'f host \<Rightarrow> bool" where
  "page_inv D s = (let p = hp_page s in
     if pg_saved p then pg_title p = dc_title D \<and> pg_url p = dc_url D \<and>
       (if pg_icon_set p then pg_icon p = icon_href D else dc_icon (hp_doc s) = dc_icon D)
     else hp_doc s = D \<and> \<not> pg_icon_set p)"

text \<open>The font as it was is kept, or is there; \<open>z\<close> is whether the person may change its size.\<close>

definition font_inv :: "bool \<Rightarrow> string \<Rightarrow> 'f \<Rightarrow> 'f host \<Rightarrow> bool" where
  "font_inv z F S s = (let f = hp_font s in
     if fo_saved f then fo_family f = F \<and> (z \<or> fo_size f = S \<and> (fo_size_change f \<or> hp_size s = S))
     else hp_family s = F \<and> \<not> fo_size_change f \<and> (z \<or> hp_size s = S))"

definition kept :: "document \<Rightarrow> bool \<Rightarrow> string \<Rightarrow> 'f \<Rightarrow> 'f host \<Rightarrow> bool" where
  "kept D z F S s = (page_inv D s \<and> font_inv z F S s)"

lemma kept_frame: "host_frame s = host_frame r \<Longrightarrow> kept D z F S s = kept D z F S r"
  by (simp add: kept_def page_inv_def font_inv_def host_frame_def)

text \<open>A document whose icon link, if it has one, has an address.\<close>

definition icon_ok :: "document \<Rightarrow> bool" where
  "icon_ok D = (dc_icon D \<noteq> Some None \<and> dc_icon D \<noteq> Some (Some []))"

lemma kept_page_save: "kept D z F S s \<Longrightarrow> kept D z F S (page_save s)"
  by (auto simp: kept_def page_inv_def font_inv_def page_save_def Let_def)

lemma kept_set_title: "kept D z F S s \<Longrightarrow> kept D z F S (set_title x s)"
  using kept_page_save [of D z F S s]
  by (auto simp: set_title_def kept_def page_inv_def font_inv_def Let_def page_save_def split: if_splits)

lemma kept_set_page: "kept D z F S s \<Longrightarrow> kept D z F S (set_page E x s)"
  using kept_page_save [of D z F S s]
  by (auto simp: set_page_def kept_def page_inv_def font_inv_def Let_def page_save_def
      split: if_splits option.splits prod.splits)

lemma kept_set_icon:
  assumes "kept D z F S s"
  shows "kept D z F S (set_icon E x s)"
proof -
  have k: "kept D z F S (page_save s)" and sv: "pg_saved (hp_page (page_save s))"
    using kept_page_save [OF assms] by (simp_all add: page_save_def)
  define r where "r = page_save s"
  have "kept D z F S (r\<lparr>hp_page := (if pg_icon_set (hp_page r) then hp_page r
      else (hp_page r)\<lparr>pg_icon_set := True, pg_icon := icon_href (hp_doc r)\<rparr>),
      hp_doc := (hp_doc r)\<lparr>dc_icon := Some (Some u)\<rparr>\<rparr>)" for u
    using k sv by (auto simp: kept_def page_inv_def font_inv_def Let_def icon_href_def simp flip: r_def)
  then show ?thesis
    using assms by (auto simp: set_icon_def Let_def r_def icon_href_def split: option.splits)
qed

lemma kept_font_use: "kept D z F S s \<Longrightarrow> kept D z F S (font_use E fam x s)"
  by (auto simp: kept_def page_inv_def font_inv_def font_use_def Let_def)

lemma kept_font_lists:
  "kept D z F S (s\<lparr>hp_font := (hp_font s)\<lparr>fo_part := p\<rparr>\<rparr>) = kept D z F S s"
  "kept D z F S (s\<lparr>hp_font := (hp_font s)\<lparr>fo_loading := l\<rparr>\<rparr>) = kept D z F S s"
  "kept D z F S (s\<lparr>hp_font := (hp_font s)\<lparr>fo_loading := l, fo_loaded := m\<rparr>\<rparr>) = kept D z F S s"
  by (simp_all add: kept_def page_inv_def font_inv_def Let_def)

lemma kept_font_load: "kept D z F S s \<Longrightarrow> kept D z F S (font_load E data x s)"
  by (auto simp: font_load_def Let_def kept_font_lists intro: kept_font_use split: option.splits)

lemma kept_font_answer: "kept D z F S s \<Longrightarrow> kept D z F S (font_answer E ok i s)"
  by (auto simp: font_answer_def Let_def kept_font_lists intro!: kept_font_use split: prod.splits)

text \<open>What is kept goes back.\<close>

lemma font_restored:
  assumes "kept D z F S s"
  shows "kept D z F S (font_restore s) \<and> hp_family (font_restore s) = F \<and> (z \<or> hp_size (font_restore s) = S) \<and>
    \<not> fo_saved (hp_font (font_restore s)) \<and> fo_part (hp_font (font_restore s)) = []"
  using assms
  by (cases "fo_saved (hp_font s)")
     (auto simp: kept_def page_inv_def font_inv_def font_restore_def Let_def)

lemma page_restored:
  assumes "kept D z F S s" "icon_ok D"
  shows "kept D z F S (page_restore s) \<and> hp_doc (page_restore s) = D \<and> \<not> pg_saved (hp_page (page_restore s))"
proof (cases "pg_saved (hp_page s)")
  case False
  with assms show ?thesis by (simp add: page_restore_def kept_def page_inv_def Let_def)
next
  case True
  have "hp_doc (page_restore s) = D"
  proof (rule document.equality)
    show "dc_icon (hp_doc (page_restore s)) = dc_icon D"
      using assms True
      by (auto simp: page_restore_def kept_def page_inv_def Let_def icon_ok_def icon_href_def
          split: option.splits if_splits)
  qed (use assms True in \<open>auto simp: page_restore_def kept_def page_inv_def Let_def\<close>)
  with assms True show ?thesis
    by (auto simp: page_restore_def kept_def page_inv_def font_inv_def Let_def)
qed

lemma kept_set_font: "kept D z F S s \<Longrightarrow> kept D z F S (set_font E arg s)"
  using font_restored [of D z F S s]
  by (auto simp: set_font_def Let_def kept_font_lists intro!: kept_font_load split: option.splits prod.splits)

lemma program_ended_frame: "host_frame (program_ended s) = host_frame (page_restore (font_restore s))"
proof -
  let ?s = "s\<lparr>hp_by := [], hp_shipped := no_shipping\<rparr>"
  have "host_frame (x\<lparr>hp_drop := False\<rparr>) = host_frame x" for x :: "'a host" by (simp add: host_frame_def)
  then have "host_frame (program_ended s) = host_frame (page_restore (font_restore ?s))"
    by (simp add: program_ended_def frame)
  also have "\<dots> = host_frame (page_restore (font_restore s))"
    by (simp add: page_restore_def font_restore_def host_frame_def Let_def)
  finally show ?thesis .
qed

lemma kept_program_ended:
  assumes "kept D z F S s" "icon_ok D"
  shows "kept D z F S (program_ended s) \<and> hp_doc (program_ended s) = D \<and> hp_family (program_ended s) = F \<and>
    (z \<or> hp_size (program_ended s) = S) \<and> \<not> pg_saved (hp_page (program_ended s)) \<and>
    \<not> fo_saved (hp_font (program_ended s))"
proof -
  from font_restored [OF assms(1)] have f: "kept D z F S (font_restore s)" "hp_family (font_restore s) = F"
    "z \<or> hp_size (font_restore s) = S" "\<not> fo_saved (hp_font (font_restore s))" by simp_all
  from page_restored [OF f(1) assms(2)] have p: "kept D z F S (page_restore (font_restore s))"
    "hp_doc (page_restore (font_restore s)) = D" "\<not> pg_saved (hp_page (page_restore (font_restore s)))" by simp_all
  have "hp_family (page_restore x) = hp_family x" "hp_size (page_restore x) = hp_size x"
    "hp_font (page_restore x) = hp_font x" for x :: "'a host"
    by (simp_all add: page_restore_def Let_def)
  with f p program_ended_frame [of s] kept_frame [OF program_ended_frame [of s]] show ?thesis
    by (simp add: host_frame_def)
qed


subsection \<open>Sounds and their addresses\<close>

text \<open>
  The object URLs alive are those there were and one for each sound playing from bytes.
\<close>

definition sound_inv :: "nat set \<Rightarrow> (string \<times> 'f sound) list \<Rightarrow> nat list \<Rightarrow> nat \<Rightarrow> bool" where
  "sound_inv U P urls nxt = (distinct (map fst P) \<and>
     set urls = U \<union> {u. \<exists>k p. (k, p) \<in> set P \<and> sd_obj p = Some u} \<and>
     (\<forall>k p u. (k, p) \<in> set P \<and> sd_obj p = Some u \<longrightarrow> u \<notin> U \<and>
        (\<forall>k' p'. (k', p') \<in> set P \<and> sd_obj p' = Some u \<longrightarrow> k' = k)) \<and>
     (\<forall>u \<in> set urls. u < nxt))"

definition sounds_ok :: "nat set \<Rightarrow> 'f host \<Rightarrow> bool" where
  "sounds_ok U s = sound_inv U (so_playing (hp_sounds s)) (hp_urls s) (hp_next_url s)"

lemma map_of_SomeD_unique: "distinct (map fst P) \<Longrightarrow> map_of P i = Some p \<Longrightarrow> (i, q) \<in> set P \<Longrightarrow> q = p"
  by (metis map_of_is_SomeI option.inject)

lemma sounds_ok_stop:
  assumes "sounds_ok U s"
  shows "sounds_ok U (sound_stop i s) \<and> i \<notin> fst ` set (so_playing (hp_sounds (sound_stop i s)))"
proof (cases "map_of (so_playing (hp_sounds s)) i")
  case None
  then have "sound_stop i s = s" by (simp add: sound_stop_def)
  with None assms show ?thesis by (simp add: map_of_eq_None_iff)
next
  case (Some p)
  let ?P = "so_playing (hp_sounds s)"
  note inv = assms [unfolded sounds_ok_def sound_inv_def]
  have i: "(i, p) \<in> set ?P" using Some by (rule map_of_SomeD)
  have u: "q = p" if "(i, q) \<in> set ?P" for q using map_of_SomeD_unique [OF _ Some that] inv by blast
  have d: "distinct (map fst (map_del i ?P))" using inv by (auto simp: map_del_def distinct_map_filter)
  have k: "i \<notin> fst ` set (map_del i ?P)" by (auto simp: map_del_def)
  have m: "(k, q) \<in> set (map_del i ?P) \<longleftrightarrow> (k, q) \<in> set ?P \<and> k \<noteq> i" for k q by (auto simp: map_del_def)
  show ?thesis
  proof (cases "sd_obj p")
    case None
    have e: "(\<exists>k p. ((k, p) \<in> set ?P \<and> k \<noteq> i) \<and> sd_obj p = Some v) \<longleftrightarrow>
        (\<exists>k p. (k, p) \<in> set ?P \<and> sd_obj p = Some v)" for v
      using u None by (metis option.distinct(1))
    have "sound_inv U (map_del i ?P) (hp_urls s) (hp_next_url s)"
      unfolding sound_inv_def m e using inv d by blast
    with None Some k show ?thesis by (simp add: sounds_ok_def sound_stop_def)
  next
    case o: (Some x)
    have "sound_inv U (map_del i ?P) (removeAll x (hp_urls s)) (hp_next_url s)"
      unfolding sound_inv_def m
    proof (intro conjI)
      show "set (removeAll x (hp_urls s)) = U \<union> {u. \<exists>k p. ((k, p) \<in> set ?P \<and> k \<noteq> i) \<and> sd_obj p = Some u}"
        (is "_ = U \<union> ?R")
      proof -
        have "set (hp_urls s) = U \<union> {v. \<exists>k p. (k, p) \<in> set ?P \<and> sd_obj p = Some v}" using inv by blast
        also have "{v. \<exists>k p. (k, p) \<in> set ?P \<and> sd_obj p = Some v} = insert x ?R"
        proof (intro set_eqI iffI)
          fix v assume "v \<in> {v. \<exists>k p. (k, p) \<in> set ?P \<and> sd_obj p = Some v}"
          then obtain k q where kq: "(k, q) \<in> set ?P" "sd_obj q = Some v" by blast
          show "v \<in> insert x ?R"
          proof (cases "k = i")
            case True
            with kq u o show ?thesis by force
          next
            case False
            with kq show ?thesis by blast
          qed
        next
          fix v assume "v \<in> insert x ?R"
          with i o show "v \<in> {v. \<exists>k p. (k, p) \<in> set ?P \<and> sd_obj p = Some v}" by blast
        qed
        finally have "set (hp_urls s) = insert x (U \<union> ?R)" by blast
        moreover have "x \<notin> U" using inv i o by blast
        moreover have "x \<notin> ?R" using inv i o by blast
        ultimately show ?thesis by simp
      qed
      show "\<forall>k q v. ((k, q) \<in> set ?P \<and> k \<noteq> i) \<and> sd_obj q = Some v \<longrightarrow> v \<notin> U \<and>
          (\<forall>k' p'. ((k', p') \<in> set ?P \<and> k' \<noteq> i) \<and> sd_obj p' = Some v \<longrightarrow> k' = k)"
        using inv by blast
      show "\<forall>v \<in> set (removeAll x (hp_urls s)). v < hp_next_url s" using inv by simp
    qed (rule d)
    with o Some k show ?thesis by (simp add: sounds_ok_def sound_stop_def)
  qed
qed

lemma sounds_end_stops:
  "sounds_ok U s \<Longrightarrow> \<exists>x y. fold sound_stop ids s = s\<lparr>hp_sounds := x, hp_urls := y\<rparr> \<and>
    sounds_ok U (fold sound_stop ids s) \<and>
    fst ` set (so_playing (hp_sounds (fold sound_stop ids s))) \<subseteq> fst ` set (so_playing (hp_sounds s)) - set ids"
proof (induction ids arbitrary: s)
  case Nil
  then show ?case by (auto intro!: exI [of _ "hp_sounds s"] exI [of _ "hp_urls s"])
next
  case (Cons i ids)
  obtain x y where s1: "sound_stop i s = s\<lparr>hp_sounds := x, hp_urls := y\<rparr>"
    "fst ` set (so_playing (hp_sounds (sound_stop i s))) \<subseteq> fst ` set (so_playing (hp_sounds s))"
  proof (cases "map_of (so_playing (hp_sounds s)) i")
    case None
    then have "sound_stop i s = s\<lparr>hp_sounds := hp_sounds s, hp_urls := hp_urls s\<rparr>" by (simp add: sound_stop_def)
    then show thesis using that by fastforce
  next
    case (Some p)
    show thesis
      by (rule that [where x = "(hp_sounds s)\<lparr>so_playing := map_del i (so_playing (hp_sounds s))\<rparr>"
            and y = "case sd_obj p of None \<Rightarrow> hp_urls s | Some u \<Rightarrow> removeAll u (hp_urls s)"])
         (use Some in \<open>auto simp: sound_stop_def map_del_def\<close>)
  qed
  note k = sounds_ok_stop [OF Cons.prems, of i]
  from Cons.IH [OF conjunct1 [OF k]] obtain x' y' where
    r: "fold sound_stop ids (sound_stop i s) = (sound_stop i s)\<lparr>hp_sounds := x', hp_urls := y'\<rparr>"
    "sounds_ok U (fold sound_stop ids (sound_stop i s))"
    "fst ` set (so_playing (hp_sounds (fold sound_stop ids (sound_stop i s)))) \<subseteq>
      fst ` set (so_playing (hp_sounds (sound_stop i s))) - set ids" by blast
  have "fold sound_stop (i # ids) s = s\<lparr>hp_sounds := x', hp_urls := y'\<rparr>" using r(1) s1(1) by simp
  moreover have "fst ` set (so_playing (hp_sounds (fold sound_stop (i # ids) s))) \<subseteq>
      fst ` set (so_playing (hp_sounds s)) - set (i # ids)"
    using r(3) s1(2) k by auto
  ultimately show ?case using r(2) by (metis fold_simps(2))
qed

lemma sounds_end_ok:
  assumes "sounds_ok U s"
  obtains urls where "sounds_end s = s\<lparr>hp_sounds := no_sounds, hp_urls := urls\<rparr>" "set urls = U"
    "\<forall>u \<in> U. u < hp_next_url s"
proof -
  let ?ids = "map fst (so_playing (hp_sounds s))"
  let ?r = "fold sound_stop ?ids s"
  obtain x y where r: "?r = s\<lparr>hp_sounds := x, hp_urls := y\<rparr>" "sounds_ok U ?r"
    "fst ` set (so_playing (hp_sounds ?r)) \<subseteq> fst ` set (so_playing (hp_sounds s)) - set ?ids"
    using sounds_end_stops [OF assms, of ?ids] by blast
  from r(3) have p: "so_playing (hp_sounds ?r) = []" by simp
  have i: "sound_inv U (so_playing x) y (hp_next_url s)" "so_playing x = []"
    using r(2) p unfolding sounds_ok_def r(1) by simp_all
  then have "set y = U" "\<forall>u \<in> U. u < hp_next_url s" by (auto simp: sound_inv_def)
  moreover have "sounds_end s = s\<lparr>hp_sounds := no_sounds, hp_urls := y\<rparr>"
    unfolding sounds_end_def r(1) by simp
  ultimately show thesis using that by blast
qed


lemma sounds_ok_add:
  assumes "sound_inv (set_option (sd_obj sd) \<union> U) P urls nxt" "set_option (sd_obj sd) \<inter> U = {}" "i \<notin> fst ` set P"
  shows "sound_inv U (map_put i sd P) urls nxt"
proof -
  note inv = assms(1) [unfolded sound_inv_def]
  have p: "map_put i sd P = (i, sd) # P"
    using assms(3) by (auto simp: map_put_def filter_id_conv)
  have m: "(k, q) \<in> set (map_put i sd P) \<longleftrightarrow> (k, q) = (i, sd) \<or> (k, q) \<in> set P" for k q unfolding p by auto
  have d: "distinct (map fst (map_put i sd P))" using inv assms(3) by (simp add: p)
  have s: "set urls = U \<union> {u. \<exists>k q. (k, q) \<in> set (map_put i sd P) \<and> sd_obj q = Some u}"
  proof -
    have "{u. \<exists>k q. (k, q) \<in> set (map_put i sd P) \<and> sd_obj q = Some u} =
        set_option (sd_obj sd) \<union> {u. \<exists>k q. (k, q) \<in> set P \<and> sd_obj q = Some u}"
      unfolding m by (auto simp: elem_set)
    then show ?thesis using inv by auto
  qed
  have "u \<notin> U \<and> (\<forall>k' p'. (k', p') \<in> set (map_put i sd P) \<and> sd_obj p' = Some u \<longrightarrow> k' = k)"
    if a: "(k, q) \<in> set (map_put i sd P)" "sd_obj q = Some u" for k q u
  proof (cases "(k, q) = (i, sd)")
    case True
    with a(2) have u: "u \<in> set_option (sd_obj sd)" by simp
    then have "\<forall>k' p'. (k', p') \<in> set P \<and> sd_obj p' = Some u \<longrightarrow> False" using inv by blast
    with True u assms(2) m show ?thesis by blast
  next
    case False
    with a m have kp: "(k, q) \<in> set P" by blast
    with a(2) inv have "u \<notin> set_option (sd_obj sd) \<union> U"
      "\<forall>k' p'. (k', p') \<in> set P \<and> sd_obj p' = Some u \<longrightarrow> k' = k" by blast+
    with m show ?thesis by (auto simp: elem_set)
  qed
  with d s inv show ?thesis unfolding sound_inv_def by blast
qed

lemma sounds_ok_start:
  assumes "sounds_ok (set_option obj \<union> U) s" "set_option obj \<inter> U = {}"
  shows "sounds_ok U (sound_start m src obj s)"
proof -
  note k = sounds_ok_stop [OF assms(1), of "sr_id m"]
  then show ?thesis
    using sounds_ok_add [of "\<lparr>sd_src = src, sd_obj = obj,
        sd_volume = map_option (\<lambda>v. max 0 (min 1 v)) (sr_volume m), sd_loop = sr_loop m\<rparr>" U
        "so_playing (hp_sounds (sound_stop (sr_id m) s))"] assms(2)
    by (auto simp: sounds_ok_def sound_start_def Let_def)
qed

lemma sounds_ok_set_sound:
  assumes "sounds_ok U s"
  shows "sounds_ok U (set_sound E arg s)"
proof -
  obtain enc chunk f where c: "cut_byte arg (CHR '';'') = (enc, chunk, f)" by (cases "cut_byte arg (CHR '';'')")
  have part: "sounds_ok U (s\<lparr>hp_sounds := (hp_sounds s)\<lparr>so_part := x\<rparr>\<rparr>)"
    "sounds_ok U (s\<lparr>hp_sounds := (hp_sounds s)\<lparr>so_size := z, so_part := x\<rparr>\<rparr>)" for x z
    using assms by (simp_all add: sounds_ok_def)
  have new: "sounds_ok U (sound_start m src (Some (hp_next_url s))
      (s\<lparr>hp_sounds := (hp_sounds s)\<lparr>so_size := z, so_part := x\<rparr>, hp_urls := hp_next_url s # hp_urls s,
         hp_next_url := Suc (hp_next_url s)\<rparr>))" for m src x z
  proof (rule sounds_ok_start)
    let ?u = "hp_next_url s"
    have "?u \<notin> set (hp_urls s)" using assms by (auto simp: sounds_ok_def sound_inv_def)
    then have n: "?u \<notin> U" "\<forall>k p. (k, p) \<in> set (so_playing (hp_sounds s)) \<longrightarrow> sd_obj p \<noteq> Some ?u"
      using assms unfolding sounds_ok_def sound_inv_def by blast+
    then show "set_option (Some ?u) \<inter> U = {}" by simp
    have "sound_inv (insert ?u U) (so_playing (hp_sounds s)) (?u # hp_urls s) (Suc ?u)"
      using assms n unfolding sounds_ok_def sound_inv_def by (auto simp: less_Suc_eq)
    then show "sounds_ok (set_option (Some ?u) \<union> U)
      (s\<lparr>hp_sounds := (hp_sounds s)\<lparr>so_size := z, so_part := x\<rparr>, hp_urls := ?u # hp_urls s,
         hp_next_url := Suc ?u\<rparr>)" by (simp add: sounds_ok_def)
  qed
  have web: "sounds_ok U (sound_start m src None s)" for m src
    using sounds_ok_start [of None U s m src] assms by simp
  show ?thesis
    using assms part web new sounds_ok_stop [OF assms]
    by (auto simp: set_sound_def c Let_def split: option.splits)
qed

text \<open>Everything else leaves the sounds alone.\<close>

definition sound_frame :: "'f host \<Rightarrow> (string \<times> 'f sound) list \<times> nat list \<times> nat" where
  "sound_frame s = (so_playing (hp_sounds s), hp_urls s, hp_next_url s)"

lemma sounds_ok_frame: "sound_frame s = sound_frame r \<Longrightarrow> sounds_ok U s = sounds_ok U r"
  by (simp add: sounds_ok_def sound_frame_def)

named_theorems sframe

lemma page_sframe [sframe]: "sound_frame (page_save s) = sound_frame s" "sound_frame (page_restore s) = sound_frame s"
  "sound_frame (set_title x s) = sound_frame s" "sound_frame (set_icon E x s) = sound_frame s"
  "sound_frame (set_page E x s) = sound_frame s"
  by (simp_all add: page_save_def page_restore_def set_title_def set_icon_def set_page_def sound_frame_def Let_def
      split: option.splits prod.splits)

lemma font_use_sframe [sframe]: "sound_frame (font_use E fam z s) = sound_frame s"
  by (simp add: font_use_def sound_frame_def Let_def)

lemma font_restore_sframe [sframe]: "sound_frame (font_restore s) = sound_frame s"
  by (simp add: font_restore_def sound_frame_def Let_def)

lemma font_sframe2 [sframe]: "sound_frame (font_load E d z s) = sound_frame s"
  "sound_frame (font_answer E ok i s) = sound_frame s"
proof -
  have f: "sound_frame (r\<lparr>hp_font := x\<rparr>) = sound_frame r" for r :: "'a host" and x by (simp add: sound_frame_def)
  show "sound_frame (font_load E d z s) = sound_frame s" "sound_frame (font_answer E ok i s) = sound_frame s"
    by (simp_all add: font_load_def font_answer_def sframe f Let_def split: option.splits prod.splits)
qed

lemma set_font_sframe [sframe]: "sound_frame (set_font E x s) = sound_frame s"
proof -
  have f: "sound_frame (r\<lparr>hp_font := x\<rparr>) = sound_frame r" for r :: "'a host" and x by (simp add: sound_frame_def)
  show ?thesis by (simp add: set_font_def sframe f Let_def split: option.splits prod.splits)
qed

lemma other_sframe [sframe]: "sound_frame (set_mirror E arg s) = sound_frame s" "sound_frame (mirror_clear s) = sound_frame s"
  "sound_frame (ship E name meta chunk s) = sound_frame s" "sound_frame (place_remove i s) = sound_frame s"
  "sound_frame (reposition s) = sound_frame s" "sound_frame (s\<lparr>hp_by := b\<rparr>) = sound_frame s"
  "sound_frame (viewer_request E op enc s) = sound_frame s" "sound_frame (viewer_close s) = sound_frame s"
  "sound_frame (viewer_dismiss s) = sound_frame s" "sound_frame (s\<lparr>hp_drop := d\<rparr>) = sound_frame s"
  by (simp_all add: set_mirror_def show_mirror_def mirror_clear_def ship_def place_remove_def reposition_def note_screen_def
      viewer_request_def viewer_show_def viewer_close_def viewer_dismiss_def sound_frame_def Let_def
      split: option.splits prod.splits)

lemma place_sframe [sframe]: "sound_frame (place E i d s) = sound_frame s"
  by (simp add: place_def note_screen_def place_remove_def sound_frame_def Let_def split: option.splits)

lemma sounds_ok_osc: 
  assumes "sounds_ok U s"
  shows "sounds_ok U (osc_7337 E data s)"
proof -
  obtain cmd arg f where c: "cut_byte data (CHR '';'') = (cmd, arg, f)" by (cases "cut_byte data (CHR '';'')")
  have r: "sounds_ok U (reposition s)" using assms sounds_ok_frame [OF other_sframe(5)] by blast
  show ?thesis
  proof (cases "cmd = ''sound''")
    case True
    with sounds_ok_set_sound [OF r] show ?thesis by (simp add: osc_7337_def c Let_def)
  next
    case False
    then have "sound_frame (osc_7337 E data s) = sound_frame s"
      by (simp add: osc_7337_def c Let_def sframe split: option.splits prod.splits)
    with assms sounds_ok_frame show ?thesis by blast
  qed
qed


subsection \<open>A program's changes end with it\<close>

lemma kept_osc: "kept D z F S s \<Longrightarrow> kept D z F S (osc_7337 E data s)"
proof -
  assume k: "kept D z F S s"
  show ?thesis
  proof (cases rule: osc_frame [of s E data])
    case (icon r arg)
    with k have "kept D z F S r" using kept_frame [OF icon(1), of D z F S] by simp
    then show ?thesis using icon(2) kept_set_icon by metis
  next
    case (page r arg)
    with k have "kept D z F S r" using kept_frame [OF page(1), of D z F S] by simp
    then show ?thesis using page(2) kept_set_page by metis
  next
    case (font r arg)
    with k have "kept D z F S r" using kept_frame [OF font(1), of D z F S] by simp
    then show ?thesis using font(2) kept_set_font by metis
  next
    case other
    with k show ?thesis using kept_frame [OF other, of D z F S] by simp
  qed
qed

lemma kept_running: "kept D z F S (s\<lparr>hp_running := b\<rparr>) = kept D z F S s"
  "sounds_ok U (s\<lparr>hp_running := b\<rparr>) = sounds_ok U s"
  by (simp_all add: kept_def page_inv_def font_inv_def sounds_ok_def)

lemma program_ended_sounds:
  assumes "sounds_ok U s"
  obtains r urls where "program_ended s = r\<lparr>hp_sounds := no_sounds, hp_urls := urls, hp_drop := False\<rparr>"
    "hp_by r = []" "hp_shipped r = no_shipping" "hp_mirror r = []" "hp_mirror_part r = []"
    "hp_running r = hp_running s" "set urls = U" "\<forall>u \<in> U. u < hp_next_url r"
proof -
  let ?r = "mirror_clear (page_restore (font_restore (s\<lparr>hp_by := [], hp_shipped := no_shipping\<rparr>)))"
  have "sound_frame ?r = sound_frame s"
  proof -
    have "sound_frame (s\<lparr>hp_by := [], hp_shipped := no_shipping\<rparr>) = sound_frame s" by (simp add: sound_frame_def)
    then show ?thesis by (simp add: sframe)
  qed
  with assms sounds_ok_frame have "sounds_ok U ?r" by blast
  from sounds_end_ok [OF this] obtain urls where e: "sounds_end ?r = ?r\<lparr>hp_sounds := no_sounds, hp_urls := urls\<rparr>"
    "set urls = U" "\<forall>u \<in> U. u < hp_next_url ?r" by blast
  have "program_ended s = ?r\<lparr>hp_sounds := no_sounds, hp_urls := urls, hp_drop := False\<rparr>"
    unfolding program_ended_def place_clear_eq using e(1) by simp
  moreover have "hp_by ?r = []" "hp_shipped ?r = no_shipping" "hp_mirror ?r = []" "hp_mirror_part ?r = []"
    "hp_running ?r = hp_running s"
    by (simp_all add: mirror_clear_def page_restore_def font_restore_def Let_def)
  ultimately show thesis using that e(2,3) by blast
qed

lemma sounds_ok_program_ended: "sounds_ok U s \<Longrightarrow> sounds_ok U (program_ended s)"
  by (erule program_ended_sounds) (auto simp: sounds_ok_def sound_inv_def no_sounds_def)

text \<open>The person does not zoom.\<close>

fun no_zoom :: "'f host_op \<Rightarrow> bool" where
  "no_zoom (Op_Zoom by) = False"
| "no_zoom Op_Zoom_Reset = False"
| "no_zoom _ = True"

lemma host_step_kept:
  assumes "kept D z F S s \<and> sounds_ok U s" "z \<or> no_zoom x" "icon_ok D"
  shows "kept D z F S (host_step E x s) \<and> sounds_ok U (host_step E x s)"
proof -
  have re: "kept D z F S (remote_ended s) \<and> sounds_ok U (remote_ended s)"
    using assms kept_program_ended [of D z F S s] sounds_ok_program_ended [of U s] by (simp add: remote_ended_def)
  show ?thesis
  proof (cases x)
    case (Op_Font_Answer ok i)
    with assms kept_font_answer [of D z F S s E ok i] show ?thesis
      by (simp add: sounds_ok_frame [OF font_sframe2(2)])
  next
    case (Op_Title x2)
    with assms kept_set_title [of D z F S s] show ?thesis by (simp add: sounds_ok_frame [OF page_sframe(3)])
  next
    case Op_Dismiss
    with assms show ?thesis by (simp add: kept_frame [OF viewer_frame(3)] sounds_ok_frame [OF other_sframe(9)])
  qed (use assms re kept_osc [of D z F S s] sounds_ok_osc [of U s] in
      \<open>auto simp: prompt_mark_def interrupt_typed_def zoom_by_def zoom_reset_def sounds_ok_def
         kept_def page_inv_def font_inv_def Let_def\<close>)
qed

lemma host_run_kept:
  "\<lbrakk>kept D z F S s \<and> sounds_ok U s; z \<or> list_all no_zoom ops; icon_ok D\<rbrakk> \<Longrightarrow>
    kept D z F S (host_run E ops s) \<and> sounds_ok U (host_run E ops s)"
proof (induction ops arbitrary: s)
  case (Cons x ops)
  then have "kept D z F S (host_step E x s) \<and> sounds_ok U (host_step E x s)"
    by (intro host_step_kept) auto
  with Cons show ?case by (auto simp: host_run_def)
qed (simp add: host_run_def)

text \<open>A session at its prompt: no program has anything of the host.\<close>

definition at_prompt :: "'f host \<Rightarrow> bool" where
  "at_prompt s = (\<not> hp_running s \<and> \<not> pg_saved (hp_page s) \<and> \<not> pg_icon_set (hp_page s) \<and>
     \<not> fo_saved (hp_font s) \<and> \<not> fo_size_change (hp_font s) \<and> hp_by s = [] \<and> hp_shipped s = no_shipping \<and>
     hp_mirror s = [] \<and> hp_mirror_part s = [] \<and> hp_sounds s = no_sounds \<and> \<not> hp_drop s \<and>
     (\<forall>u \<in> set (hp_urls s). u < hp_next_url s))"

text \<open>
  C9. A program's changes end with it. Whatever a command's output asks of the host, whatever it
  comes from, however its fonts load, whatever marks and keys end remote programs inside it and
  however the screen is resized: when the command ends, the page's title, address and icon and
  the terminal's font are what they were before it, the size too if the person did not zoom, and
  the session is at its prompt as before, with nothing placed, shipped, mirrored, playing or
  listening for drops, and no object URL left alive. (A page whose own program a mirror's
  attribute has ended, \<open>hp_panicked\<close>, ends no command: nothing is left to run.)
\<close>

theorem program_changes_end:
  assumes "at_prompt s" "icon_ok (hp_doc s)" "s' = command_ends (host_run E ops (command_starts line s))"
  shows "hp_doc s' = hp_doc s \<and> hp_family s' = hp_family s \<and>
    (list_all no_zoom ops \<longrightarrow> hp_size s' = hp_size s) \<and> at_prompt s' \<and> set (hp_urls s') = set (hp_urls s)"
proof -
  define z where "z = (\<not> list_all no_zoom ops)"
  let ?D = "hp_doc s" and ?F = "hp_family s" and ?S = "hp_size s" and ?U = "set (hp_urls s)"
  have "kept ?D z ?F ?S (command_starts line s) \<and> sounds_ok ?U (command_starts line s)"
    using assms(1)
    by (auto simp: at_prompt_def command_starts_def kept_def page_inv_def font_inv_def Let_def sounds_ok_def
        sound_inv_def no_sounds_def)
  from host_run_kept [OF this _ assms(2), of ops E] have r:
    "kept ?D z ?F ?S (host_run E ops (command_starts line s))"
    "sounds_ok ?U (host_run E ops (command_starts line s))" by (auto simp: z_def)
  define r where "r = (host_run E ops (command_starts line s))\<lparr>hp_running := False\<rparr>"
  have k: "kept ?D z ?F ?S r" "sounds_ok ?U r" "\<not> hp_running r"
    using r by (simp_all add: r_def kept_running)
  from kept_program_ended [OF k(1) assms(2)] have e: "kept ?D z ?F ?S (program_ended r)"
    "hp_doc (program_ended r) = ?D" "hp_family (program_ended r) = ?F" "z \<or> hp_size (program_ended r) = ?S"
    "\<not> pg_saved (hp_page (program_ended r))" "\<not> fo_saved (hp_font (program_ended r))" by simp_all
  from program_ended_sounds [OF k(2)] obtain q urls where
    q: "program_ended r = q\<lparr>hp_sounds := no_sounds, hp_urls := urls, hp_drop := False\<rparr>"
      "hp_by q = []" "hp_shipped q = no_shipping" "hp_mirror q = []" "hp_mirror_part q = []"
      "hp_running q = hp_running r" "set urls = ?U" "\<forall>u \<in> ?U. u < hp_next_url q" .
  have s': "s' = (program_ended r)\<lparr>hp_page := (hp_page (program_ended r))\<lparr>pg_link_line := []\<rparr>\<rparr>"
    by (simp add: assms(3) command_ends_def r_def Let_def)
  have "\<not> pg_icon_set (hp_page (program_ended r))" "\<not> fo_size_change (hp_font (program_ended r))"
    using e by (auto simp: kept_def page_inv_def font_inv_def Let_def)
  with e q k(3) show ?thesis
    by (simp add: s' at_prompt_def z_def)
qed


text \<open>
  A program sets the title, its icon and its font, its sound plays from bytes, and it ends: all
  is as it was. The JSON is read by its first character here, and a document is its text.
\<close>

definition sample_env :: "int host_env" where
  "sample_env = \<lparr>he_json = \<lparr>jn_place = (\<lambda>_. None), jn_ship = (\<lambda>_. None), jn_font = (\<lambda>_. Some (7, False)),
       jn_mirror = (\<lambda>_. Some False), jn_page = (\<lambda>j. Some (j, j)), jn_icon = Some,
       jn_sound = (\<lambda>j. Some \<lparr>sr_id = j, sr_url = [], sr_type = [], sr_volume = None, sr_loop = False,
                             sr_stop = False, sr_more = False\<rparr>),
       jn_view = (\<lambda>_. None)\<rparr>,
     he_unicode = \<lparr>y_lower = id, y_upper = id, y_fold = (=)\<rparr>, he_hash = id, he_quote = id, he_escape = id,
     he_base = ''/'', he_parse = (\<lambda>h. [Text_Node h]), he_attr_ok = (\<lambda>_. True), he_region = True, he_widget = (\<lambda>_. False), he_offer = (\<lambda>_. False),
     he_screen = True, he_size = 14\<rparr>"

definition sample_host :: "string \<Rightarrow> int host" where
  "sample_host src = \<lparr>hp_source = src, hp_running = False, hp_cmds = 0, hp_line = [], hp_cols = 80, hp_rows = 24,
     hp_doc = \<lparr>dc_title = ''home'', dc_url = ''/'', dc_icon = None\<rparr>, hp_family = ''mono'', hp_size = 14,
     hp_page = \<lparr>pg_saved = False, pg_title = [], pg_url = [], pg_icon = [], pg_icon_set = False,
       pg_link_line = [], pg_link_path = []\<rparr>,
     hp_font = \<lparr>fo_part = [], fo_loaded = [], fo_loading = [], fo_saved = False, fo_family = [], fo_size = 0,
       fo_size_change = False\<rparr>,
     hp_mirror_part = [], hp_mirror = [], hp_sounds = no_sounds, hp_urls = [], hp_next_url = 0, hp_drop = False,
     hp_by = [], hp_pcols = 80, hp_prows = 24, hp_shipped = no_shipping, hp_viewer = None, hp_dismissed = False,
     hp_panicked = False\<rparr>"

definition sample_ops :: "int host_op list" where
  "sample_ops = [Op_Osc (''page;'' @ b64_encode ''p''), Op_Osc (''icon;'' @ b64_encode ''http://i''),
     Op_Osc (''font;'' @ b64_encode ''{}'' @ '';'' @ b64_encode ''F''), Op_Font_Answer True 0,
     Op_Osc (''sound;'' @ b64_encode ''s'' @ '';'' @ b64_encode ''S''),
     Op_Osc (''mirror;'' @ b64_encode ''{}'' @ '';'' @ b64_encode ''m'')]"

theorem program_changes_end_witness:
  "(let s = host_run sample_env sample_ops (command_starts ''prog'' (sample_host ''local'')) in
      hp_doc s = \<lparr>dc_title = ''p'', dc_url = ''/#run=prog&at=p'', dc_icon = Some (Some ''http://i'')\<rparr> \<and>
      hp_family s = ''websh-font-F, mono'' \<and> hp_size s = 7 \<and> hp_urls s = [0] \<and> hp_mirror s = [Text_Node ''m'']) \<and>
   hp_doc (command_ends (host_run sample_env sample_ops (command_starts ''prog'' (sample_host ''local'')))) =
      hp_doc (sample_host ''local'') \<and>
   hp_size (command_ends (host_run sample_env sample_ops (command_starts ''prog'' (sample_host ''local'')))) = 14"
proof -
  have "at_prompt (sample_host ''local'')" "icon_ok (hp_doc (sample_host ''local''))" "list_all no_zoom sample_ops"
    by (simp_all add: sample_host_def at_prompt_def icon_ok_def no_shipping_def no_sounds_def sample_ops_def)
  moreover have "hp_size (sample_host ''local'') = 14" by (simp add: sample_host_def)
  moreover have "let s = host_run sample_env sample_ops (command_starts ''prog'' (sample_host ''local'')) in
      hp_doc s = \<lparr>dc_title = ''p'', dc_url = ''/#run=prog&at=p'', dc_icon = Some (Some ''http://i'')\<rparr> \<and>
      hp_family s = ''websh-font-F, mono'' \<and> hp_size s = 7 \<and> hp_urls s = [0] \<and> hp_mirror s = [Text_Node ''m'']"
    by code_simp
  ultimately show ?thesis
    using program_changes_end [of "sample_host ''local''" _ sample_env sample_ops "''prog''"] by simp
qed

text \<open>
  A font still loading when the program asks for the host's own font back is used when it has
  loaded, after the reset.
\<close>

lemma font_reset_overtaken:
  "hp_family (host_run sample_env [Op_Osc (''font;'' @ b64_encode ''{}'' @ '';'' @ b64_encode ''F''),
      Op_Osc ''font;reset'', Op_Font_Answer True 0] (command_starts ''prog'' (sample_host ''local''))) =
   ''websh-font-F, mono''"
  by code_simp

text \<open>A font loaded before is used at the prompt, where no program runs.\<close>

lemma font_used_at_prompt:
  "hp_family (osc_7337 sample_env (''font;'' @ b64_encode ''{}'' @ '';'' @ b64_encode ''F'')
      (command_ends (host_run sample_env sample_ops (command_starts ''prog'' (sample_host ''local''))))) =
   ''websh-font-F, mono''"
  by code_simp

end
