(* ===== verification/Host_Requests.thy ===== *)
theory Host_Requests
  imports Host_Page Term_Protocol
begin

text \<open>
  What programs send the host in chunks (\<^verbatim>\<open>progressive/ship.go\<close>, \<^verbatim>\<open>mirror.go\<close>,
  \<^verbatim>\<open>font.go\<close>, \<^verbatim>\<open>media.go\<close>) against what the page makes of them
  (\<open>Host_Page\<close>), and what output from another machine may not change.
\<close>

subsection \<open>Sending in chunks\<close>

definition ship_chunk :: nat where
  "ship_chunk = 3072"

text \<open>
  The loop the senders share: each piece with whether more follow; a first one is sent even for
  nothing.
\<close>

function chunked :: "(string \<Rightarrow> bool \<Rightarrow> 'a) \<Rightarrow> string \<Rightarrow> 'a list" where
  "chunked f s = (if length s \<le> ship_chunk then [f s False]
     else f (take ship_chunk s) True # chunked f (drop ship_chunk s))"
  by pat_completeness auto
termination
  by (relation "measure (\<lambda>(f, s). length s)") (auto simp: ship_chunk_def)

declare chunked.simps [simp del]

definition json_bool :: "bool \<Rightarrow> string" where
  "json_bool b = (if b then ''true'' else ''false'')"

text \<open>\<^verbatim>\<open>json.Marshal\<close> of the maps: keys in order. The kinds need no escaping.\<close>

definition dq :: string where
  "dq = [CHR 0x22]"

definition ship_meta :: "string \<Rightarrow> bool \<Rightarrow> string" where
  "ship_meta kind mr = ''{'' @ dq @ ''kind'' @ dq @ '':'' @ dq @ kind @ dq @ '','' @
     dq @ ''more'' @ dq @ '':'' @ json_bool mr @ ''}''"

definition mirror_meta :: "bool \<Rightarrow> string" where
  "mirror_meta mr = ''{'' @ dq @ ''more'' @ dq @ '':'' @ json_bool mr @ ''}''"

definition ship_body :: "string \<Rightarrow> string \<Rightarrow> string \<Rightarrow> bool \<Rightarrow> string" where
  "ship_body kind name b mr =
     ''ship;'' @ name @ '';'' @ b64_encode (ship_meta kind mr) @ '';'' @ b64_encode b"

text \<open>\<^verbatim>\<open>Ship\<close> and \<^verbatim>\<open>ShipWasm\<close>, by the kind.\<close>

definition ship_seqs :: "string \<Rightarrow> string \<Rightarrow> string \<Rightarrow> string list" where
  "ship_seqs kind name body = map osc (chunked (ship_body kind name) body)"

definition mirror_body :: "string \<Rightarrow> bool \<Rightarrow> string" where
  "mirror_body b mr = ''mirror;'' @ b64_encode (mirror_meta mr) @ '';'' @ b64_encode b"

definition mirror_seqs :: "string \<Rightarrow> string list" where
  "mirror_seqs html = map osc (chunked mirror_body html)"

text \<open>
  \<^verbatim>\<open>Font\<close> and \<^verbatim>\<open>SoundData\<close>; \<open>meta\<close> is the JSON of the font's family and size,
  or of the sound's name, type, volume and loop, with whether more follow.
\<close>

definition font_body :: "(bool \<Rightarrow> string) \<Rightarrow> string \<Rightarrow> bool \<Rightarrow> string" where
  "font_body meta b mr = ''font;'' @ b64_encode (meta mr) @ '';'' @ b64_encode b"

definition font_seqs :: "(bool \<Rightarrow> string) \<Rightarrow> string \<Rightarrow> string list" where
  "font_seqs meta d = map osc (chunked (font_body meta) d)"

definition font_reset :: string where
  "font_reset = osc ''font;reset''"

definition sound_body :: "(bool \<Rightarrow> string) \<Rightarrow> string \<Rightarrow> bool \<Rightarrow> string" where
  "sound_body meta b mr = ''sound;'' @ b64_encode (meta mr) @ '';'' @ b64_encode b"

definition sound_seqs :: "(bool \<Rightarrow> string) \<Rightarrow> string \<Rightarrow> string list" where
  "sound_seqs meta d = map osc (chunked (sound_body meta) d)"

definition listen_drop :: string where
  "listen_drop = osc ''listen;drop''"

definition remove_seq :: "string \<Rightarrow> string" where
  "remove_seq i = osc (''remove;'' @ i)"

definition clear_seq :: string where
  "clear_seq = osc ''clear''"

subsection \<open>A widget shipped is the widget placed\<close>

lemma cut_at: "CHR '';'' \<notin> set a \<Longrightarrow> cut_byte (a @ CHR '';'' # b) (CHR '';'') = (a, b, True)"
  by (rule cut_byte_found)

lemma b64_no_sep [simp]: "CHR '';'' \<notin> set (b64_encode s)"
  using b64_encode_plain [of s] by auto

lemma osc_ship:
  assumes "CHR '';'' \<notin> set name"
  shows "osc_7337 E (ship_body kind name b mr) s =
    ship E name (b64_encode (ship_meta kind mr)) (b64_encode b) (reposition s)"
proof -
  let ?m = "b64_encode (ship_meta kind mr)" and ?c = "b64_encode b"
  have 1: "cut_byte (ship_body kind name b mr) (CHR '';'') =
      (''ship'', name @ CHR '';'' # ?m @ CHR '';'' # ?c, True)"
    using cut_at [of "''ship''"] by (simp add: ship_body_def)
  have 2: "cut_byte (name @ CHR '';'' # ?m @ CHR '';'' # ?c) (CHR '';'') = (name, ?m @ CHR '';'' # ?c, True)"
    by (rule cut_at [OF assms])
  have 3: "cut_byte (?m @ CHR '';'' # ?c) (CHR '';'') = (?m, ?c, True)"
    by (rule cut_at [OF b64_no_sep])
  show ?thesis by (simp add: osc_7337_def 1 2 3 Let_def)
qed

lemma osc_mirror:
  "osc_7337 E (mirror_body b mr) s = set_mirror E (b64_encode (mirror_meta mr) @ '';'' @ b64_encode b) (reposition s)"
  using cut_at [of "''mirror''"] by (simp add: osc_7337_def mirror_body_def Let_def)

text \<open>\<^verbatim>\<open>json.Unmarshal\<close> reads the objects the senders write.\<close>

definition reads_meta :: "'f host_env \<Rightarrow> bool" where
  "reads_meta E = (\<forall>mr. jn_mirror (he_json E) (mirror_meta mr) = Some mr \<and>
     (\<forall>kind \<in> {''html'', ''wasm''}. jn_ship (he_json E) (ship_meta kind mr) = Some (kind, mr)))"

lemma map_of_put [simp]: "map_of (map_put k v m) j = (if j = k then Some v else map_of m j)"
  by (induction m) (auto simp: map_put_def)

lemma map_of_del [simp]: "map_of (map_del k m) j = (if j = k then None else map_of m j)"
  by (induction m) (auto simp: map_del_def)

lemma reposition_shipped [simp]: "hp_shipped (reposition s) = hp_shipped s"
  "hp_mirror (reposition s) = hp_mirror s" "hp_mirror_part (reposition s) = hp_mirror_part s"
  by (simp_all add: reposition_def note_screen_def)

text \<open>What of a widget has come.\<close>

definition ship_part :: "string \<Rightarrow> 'f host \<Rightarrow> string" where
  "ship_part name s = (case map_of (sh_part (hp_shipped s)) name of None \<Rightarrow> [] | Some p \<Rightarrow> p)"

lemma ship_arrives_step:
  assumes "kind \<in> {''html'', ''wasm''}" "reads_meta E" "name \<noteq> []" "CHR '';'' \<notin> set name"
    "sh_size (hp_shipped s) + int (length b) \<le> ship_limit"
  shows "let s' = osc_7337 E (ship_body kind name b mr) s in
    sh_size (hp_shipped s') = sh_size (hp_shipped s) + int (length b) \<and>
    (\<forall>n. n \<noteq> name \<longrightarrow> map_of (sh_done (hp_shipped s')) n = map_of (sh_done (hp_shipped s)) n \<and>
       map_of (sh_part (hp_shipped s')) n = map_of (sh_part (hp_shipped s)) n) \<and>
    (if mr then ship_part name s' = ship_part name s @ b
     else map_of (sh_part (hp_shipped s')) name = None \<and>
       map_of (sh_done (hp_shipped s')) name = Some (kind, ship_part name s @ b))"
proof -
  have j: "jn_ship (he_json E) (ship_meta kind mr) = Some (kind, mr)"
    using assms(1,2) by (auto simp: reads_meta_def)
  have k: "\<not> (kind \<noteq> ''html'' \<and> kind \<noteq> ''wasm'' \<or> name = [])" using assms(1,3) by auto
  have l: "\<not> ship_limit < sh_size (hp_shipped s) + int (length b)" using assms(5) by simp
  show ?thesis
    unfolding osc_ship [OF assms(4)] ship_def b64_json_def b64_decode_encode bind.simps j option.case prod.case
      if_not_P [OF k] Let_def
    by (simp add: l ship_part_def)
qed

lemma ship_arrives_from:
  assumes "kind \<in> {''html'', ''wasm''}" "reads_meta E" "name \<noteq> []" "CHR '';'' \<notin> set name"
  shows "sh_size (hp_shipped s) + int (length body) \<le> ship_limit \<Longrightarrow>
    let s' = host_run E (map Op_Osc (chunked (ship_body kind name) body)) s in
    map_of (sh_done (hp_shipped s')) name = Some (kind, ship_part name s @ body) \<and>
    map_of (sh_part (hp_shipped s')) name = None \<and>
    sh_size (hp_shipped s') = sh_size (hp_shipped s) + int (length body) \<and>
    (\<forall>n. n \<noteq> name \<longrightarrow> map_of (sh_done (hp_shipped s')) n = map_of (sh_done (hp_shipped s)) n \<and>
       map_of (sh_part (hp_shipped s')) n = map_of (sh_part (hp_shipped s)) n)"
proof (induction "length body" arbitrary: body s rule: less_induct)
  case less
  show ?case
  proof (cases "length body \<le> ship_chunk")
    case True
    then have "chunked (ship_body kind name) body = [ship_body kind name body False]"
      by (simp add: chunked.simps)
    with ship_arrives_step [OF assms less.prems, of False] show ?thesis
      by (simp add: host_run_def Let_def)
  next
    case False
    let ?b = "take ship_chunk body" and ?r = "drop ship_chunk body"
    define s1 where "s1 = osc_7337 E (ship_body kind name ?b True) s"
    from False have c: "chunked (ship_body kind name) body =
        ship_body kind name ?b True # chunked (ship_body kind name) ?r"
      by (subst chunked.simps) simp
    have "sh_size (hp_shipped s) + int (length ?b) \<le> ship_limit" using less.prems by simp
    from ship_arrives_step [OF assms this, of True] have 1:
      "sh_size (hp_shipped s1) = sh_size (hp_shipped s) + int (length ?b)"
      "\<forall>n. n \<noteq> name \<longrightarrow> map_of (sh_done (hp_shipped s1)) n = map_of (sh_done (hp_shipped s)) n \<and>
         map_of (sh_part (hp_shipped s1)) n = map_of (sh_part (hp_shipped s)) n"
      "ship_part name s1 = ship_part name s @ ?b"
      by (simp_all add: s1_def Let_def)
    have l: "int (length ?b) + int (length ?r) = int (length body)"
      by (metis append_take_drop_id length_append of_nat_add)
    have "length ?r < length body" using False by (simp add: ship_chunk_def)
    from less.hyps [OF this, of s1] 1 l less.prems have
      "let s' = host_run E (map Op_Osc (chunked (ship_body kind name) ?r)) s1 in
       map_of (sh_done (hp_shipped s')) name = Some (kind, ship_part name s @ body) \<and>
       map_of (sh_part (hp_shipped s')) name = None \<and>
       sh_size (hp_shipped s') = sh_size (hp_shipped s) + int (length body) \<and>
       (\<forall>n. n \<noteq> name \<longrightarrow> map_of (sh_done (hp_shipped s')) n = map_of (sh_done (hp_shipped s)) n \<and>
         map_of (sh_part (hp_shipped s')) n = map_of (sh_part (hp_shipped s)) n)"
      by (simp add: Let_def)
    then show ?thesis unfolding c by (simp add: host_run_def s1_def)
  qed
qed


text \<open>
  C18. A widget sent whole, within the limit, is the widget the host has: after the sequences of
  \<^verbatim>\<open>Ship\<close> or \<^verbatim>\<open>ShipWasm\<close>, in order and whatever their number, the name stands for
  exactly the bytes sent and their kind, nothing of it is left arriving, the bytes are counted,
  no other widget changed, and a placement that names it (no widget of the page's by that name)
  is filled with it, whatever machine the output comes from.
\<close>

theorem shipped_widget_arrives:
  assumes "kind \<in> {''html'', ''wasm''}" "reads_meta E" "name \<noteq> []" "CHR '';'' \<notin> set name"
    "map_of (sh_part (hp_shipped s)) name = None"
    "sh_size (hp_shipped s) + int (length body) \<le> ship_limit"
    "s' = host_run E (map Op_Osc (chunked (ship_body kind name) body)) s"
  shows "map_of (sh_done (hp_shipped s')) name = Some (kind, body) \<and>
    map_of (sh_part (hp_shipped s')) name = None \<and>
    sh_size (hp_shipped s') = sh_size (hp_shipped s) + int (length body) \<and>
    (\<forall>n. n \<noteq> name \<longrightarrow> map_of (sh_done (hp_shipped s')) n = map_of (sh_done (hp_shipped s)) n) \<and>
    (\<not> he_widget E name \<longrightarrow> pd_widget d = name \<longrightarrow> place_fill E d s' = Some (Shipped_Widget kind body))"
proof -
  have "ship_part name s = []" using assms(5) by (simp add: ship_part_def)
  with ship_arrives_from [OF assms(1-4) assms(6)] have
    "map_of (sh_done (hp_shipped s')) name = Some (kind, body)"
    "map_of (sh_part (hp_shipped s')) name = None"
    "sh_size (hp_shipped s') = sh_size (hp_shipped s) + int (length body)"
    "\<forall>n. n \<noteq> name \<longrightarrow> map_of (sh_done (hp_shipped s')) n = map_of (sh_done (hp_shipped s)) n"
    unfolding assms(7) by (simp_all add: Let_def)
  then show ?thesis using assms(3) by (simp add: place_fill_def)
qed

text \<open>A host that reads the objects the senders write.\<close>

definition ship_env :: "int host_env" where
  "ship_env = sample_env\<lparr>he_json := (he_json sample_env)\<lparr>
     jn_ship := (\<lambda>j. if j = ship_meta ''html'' True then Some (''html'', True)
       else if j = ship_meta ''html'' False then Some (''html'', False)
       else if j = ship_meta ''wasm'' True then Some (''wasm'', True)
       else if j = ship_meta ''wasm'' False then Some (''wasm'', False) else None),
     jn_mirror := (\<lambda>j. if j = mirror_meta True then Some True
       else if j = mirror_meta False then Some False else None)\<rparr>\<rparr>"

lemma ship_env_reads: "reads_meta ship_env"
  by (simp add: reads_meta_def ship_env_def ship_meta_def mirror_meta_def json_bool_def dq_def)

theorem shipped_widget_arrives_witness:
  "map_of (sh_done (hp_shipped (host_run ship_env (map Op_Osc
     (chunked (ship_body ''wasm'' ''clock'') (replicate 4000 CHR ''x''))) (sample_host ''remote'')))) ''clock'' =
   Some (''wasm'', replicate 4000 CHR ''x'')"
proof -
  have "map_of (sh_part (hp_shipped (sample_host ''remote''))) ''clock'' = None"
    "sh_size (hp_shipped (sample_host ''remote'')) + int (length (replicate 4000 CHR ''x'')) \<le> ship_limit"
    by (simp_all add: sample_host_def no_shipping_def ship_limit_def)
  from shipped_widget_arrives [OF _ ship_env_reads _ _ this refl, of "''wasm''"] show ?thesis by simp
qed

text \<open>
  A widget that goes over the limit in one of its pieces does not stay away: the pieces that come
  after it and fit are put together and stand for the whole widget.
\<close>

lemma ship_over_limit_tail:
  "map_of (sh_done (hp_shipped (ship ship_env ''w'' (b64_encode (ship_meta ''html'' False)) (b64_encode ''fin'')
     (ship ship_env ''w'' (b64_encode (ship_meta ''html'' True)) (b64_encode ''start'')
       ((sample_host ''remote'')\<lparr>hp_shipped := no_shipping\<lparr>sh_size := ship_limit - 3\<rparr>\<rparr>))))) ''w'' =
   Some (''html'', ''fin'')"
  by code_simp

text \<open>The same way, a mirror published is the mirror shown.\<close>

lemma mirror_arrives:
  "\<lbrakk>reads_meta E; he_region E; int (length (hp_mirror_part s @ html)) \<le> mirror_limit\<rbrakk> \<Longrightarrow>
   let s' = host_run E (map Op_Osc (chunked mirror_body html)) s in
   hp_mirror s' = fst (mirror_show (he_unicode E) (he_attr_ok E) (he_parse E) (hp_mirror_part s @ html)) \<and>
   hp_mirror_part s' = []"
proof (induction "length html" arbitrary: html s rule: less_induct)
  case less
  have step: "osc_7337 E (mirror_body b mr) s =
      (if mr then (reposition s)\<lparr>hp_mirror_part := hp_mirror_part s @ b\<rparr>
       else show_mirror E (hp_mirror_part s @ b) ((reposition s)\<lparr>hp_mirror_part := []\<rparr>))"
    if "int (length (hp_mirror_part s @ b)) \<le> mirror_limit" for b mr
  proof -
    have c: "cut_byte (b64_encode (mirror_meta mr) @ '';'' @ b64_encode b) (CHR '';'') =
        (b64_encode (mirror_meta mr), b64_encode b, True)"
      using cut_at [OF b64_no_sep] by simp
    from less.prems(1) have "jn_mirror (he_json E) (mirror_meta mr) = Some mr" by (simp add: reads_meta_def)
    with that show ?thesis unfolding osc_mirror set_mirror_def c by (simp add: b64_json_def Let_def)
  qed
  show ?case
  proof (cases "length html \<le> ship_chunk")
    case True
    then have "chunked mirror_body html = [mirror_body html False]" by (simp add: chunked.simps)
    with step [OF less.prems(3), of False] less.prems(2) show ?thesis
      by (simp add: host_run_def show_mirror_def Let_def split: prod.split)
  next
    case False
    let ?b = "take ship_chunk html" and ?r = "drop ship_chunk html"
    define s1 where "s1 = osc_7337 E (mirror_body ?b True) s"
    from False have c: "chunked mirror_body html = mirror_body ?b True # chunked mirror_body ?r"
      by (subst chunked.simps) simp
    have "int (length (hp_mirror_part s @ ?b)) \<le> mirror_limit" using less.prems(3) by simp
    from step [OF this, of True] have 1: "hp_mirror_part s1 = hp_mirror_part s @ ?b" by (simp add: s1_def)
    have "length ?r < length html" using False by (simp add: ship_chunk_def)
    from less.hyps [OF this less.prems(1,2), of s1] 1 less.prems(3) show ?thesis
      unfolding c by (simp add: host_run_def s1_def)
  qed
qed


subsection \<open>Output from another machine\<close>

fun no_source :: "'f host_op \<Rightarrow> bool" where
  "no_source (Op_Source src) = False"
| "no_source _ = True"

text \<open>What remote output may not touch, given what there was.\<close>

definition remote_inv :: "'f host \<Rightarrow> 'f host \<Rightarrow> bool" where
  "remote_inv s0 s = (hp_source s = hp_source s0 \<and> hp_family s = hp_family s0 \<and> hp_size s = hp_size s0 \<and>
     dc_url (hp_doc s) = dc_url (hp_doc s0) \<and> dc_icon (hp_doc s) = dc_icon (hp_doc s0) \<and>
     (pg_saved (hp_page s) \<longrightarrow> hp_source s0 = ''terminal'' \<and> pg_title (hp_page s) = dc_title (hp_doc s0) \<and>
       pg_url (hp_page s) = dc_url (hp_doc s0)) \<and>
     (\<not> pg_saved (hp_page s) \<longrightarrow> dc_title (hp_doc s) = dc_title (hp_doc s0)) \<and>
     \<not> pg_icon_set (hp_page s) \<and> \<not> fo_saved (hp_font s) \<and> fo_loading (hp_font s) = [])"

lemma remote_inv_frame: "host_frame s = host_frame r \<Longrightarrow> remote_inv s0 s = remote_inv s0 r"
  by (simp add: remote_inv_def host_frame_def)

lemma remote_frame: "host_frame s = host_frame r \<Longrightarrow> remote s = remote r"
  by (simp add: remote_def host_frame_def)

lemma remote_inv_remote: "remote s0 \<Longrightarrow> remote_inv s0 s \<Longrightarrow> remote s"
  by (simp add: remote_def remote_inv_def)

lemma remote_osc:
  assumes "remote s"
  shows "host_frame (osc_7337 E data s) = host_frame s"
proof (cases rule: osc_frame [of s E data])
  case (icon r arg)
  with assms remote_frame [OF icon(1)] show ?thesis by (simp add: set_icon_def)
next
  case (page r arg)
  with assms remote_frame [OF page(1)] show ?thesis by (simp add: set_page_def)
next
  case (font r arg)
  with assms remote_frame [OF font(1)] show ?thesis by (simp add: set_font_def)
next
  case other
  then show ?thesis .
qed

lemma remote_inv_ended: "remote s0 \<Longrightarrow> remote_inv s0 s \<Longrightarrow> remote_inv s0 (program_ended s)"
  unfolding remote_inv_frame [OF program_ended_frame]
  by (auto simp: remote_inv_def page_restore_def font_restore_def Let_def)

lemma remote_inv_title:
  assumes "remote s0" "remote_inv s0 s"
  shows "remote_inv s0 (set_title title s)"
  using assms
  by (auto simp: set_title_def remote_def remote_inv_def page_save_def Let_def)

lemma remote_inv_step:
  assumes "remote s0" "remote_inv s0 s" "no_source x" "no_zoom x"
  shows "remote_inv s0 (host_step E x s)"
proof -
  note r = remote_inv_remote [OF assms(1,2)]
  have re: "remote_inv s0 (remote_ended s)"
    using assms remote_inv_ended [of s0 s] by (simp add: remote_ended_def)
  show ?thesis
  proof (cases x)
    case (Op_Osc data)
    with assms(2) show ?thesis using remote_inv_frame [OF remote_osc [OF r]] by simp
  next
    case (Op_Title title)
    with remote_inv_title [OF assms(1,2)] show ?thesis by simp
  next
    case (Op_Font_Answer ok i)
    with assms(2) show ?thesis by (simp add: font_answer_def remote_inv_def Let_def)
  next
    case Op_Dismiss
    with assms(2) show ?thesis by (simp add: remote_inv_frame [OF viewer_frame(3)])
  next
    case (Op_Screen c d)
    with assms(2) show ?thesis by (simp add: remote_inv_def)
  qed (use assms(2,3,4) re in \<open>auto simp: prompt_mark_def interrupt_typed_def\<close>)
qed

text \<open>No placement is filled with a widget a program in the tab offered.\<close>

fun offered :: "pl_fill \<Rightarrow> bool" where
  "offered (Offered_Widget n) = True"
| "offered _ = False"

definition none_offered :: "'f host \<Rightarrow> bool" where
  "none_offered s = (\<forall>(i, pl) \<in> set (hp_by s). \<not> offered (pl_fill pl))"

lemma place_at_fill [simp]: "pl_fill (place_at pl s) = pl_fill pl"
  by (simp add: place_at_def)

lemma note_screen_by [simp]: "hp_by (note_screen s) = hp_by s"
  by (simp add: note_screen_def)

lemma none_offered_put:
  "none_offered s \<Longrightarrow> \<not> offered (pl_fill pl) \<Longrightarrow> none_offered (note_screen (s\<lparr>hp_by := map_put i pl (hp_by s)\<rparr>))"
  by (auto simp: none_offered_def map_put_def)

lemma none_offered_del: "none_offered s \<Longrightarrow> none_offered (place_remove i s)"
  by (auto simp: none_offered_def place_remove_def map_del_def)

lemma place_fill_remote: "remote s \<Longrightarrow> place_fill E d s = Some f \<Longrightarrow> \<not> offered f"
  by (auto simp: place_fill_def split: if_splits option.splits)

lemma none_offered_place:
  assumes "remote s" "none_offered s"
  shows "none_offered (place E i d s)"
proof -
  have r: "remote (place_remove i s)" using assms(1) by (simp add: place_remove_def remote_def)
  have old: "\<not> offered (pl_fill pl)" if "map_of (hp_by s) i = Some pl" for pl
    using assms(2) map_of_SomeD [OF that] by (auto simp: none_offered_def)
  show ?thesis
    using assms old place_fill_remote [OF assms(1)] place_fill_remote [OF r] none_offered_del [OF assms(2)]
    by (auto simp: place_def Let_def intro!: none_offered_put split: option.splits)
qed

lemma none_offered_reposition: "none_offered s \<Longrightarrow> none_offered (reposition s)"
  by (auto simp: none_offered_def reposition_def)


lemma by_frame:
  "hp_by (sound_stop i s) = hp_by s" "hp_by (sound_start m src obj s') = hp_by s'"
  "hp_by (set_mirror E arg s) = hp_by s" "hp_by (ship E name meta chunk s) = hp_by s"
  "hp_by (viewer_request E op enc s) = hp_by s" "hp_by (viewer_close s) = hp_by s"
  "hp_by (viewer_dismiss s) = hp_by s" "hp_by (set_title x s) = hp_by s"
  "hp_by (font_use F fam z s') = hp_by s'"
  by (simp_all add: sound_stop_def sound_start_def set_mirror_def show_mirror_def ship_def viewer_request_def viewer_show_def
      viewer_close_def viewer_dismiss_def set_title_def page_save_def font_use_def Let_def
      split: option.splits prod.splits)

lemma set_sound_by: "hp_by (set_sound E arg s) = hp_by s"
  by (simp add: set_sound_def by_frame Let_def split: option.splits prod.splits)

lemma font_answer_by: "hp_by (font_answer E ok i s) = hp_by s"
  by (simp add: font_answer_def by_frame Let_def split: prod.splits)

lemma none_offered_osc:
  assumes "remote s" "none_offered s"
  shows "none_offered (osc_7337 E data s)"
proof -
  let ?r = "reposition s"
  obtain cmd arg f where c: "cut_byte data (CHR '';'') = (cmd, arg, f)" by (cases "cut_byte data (CHR '';'')")
  have r: "remote ?r" using assms(1) remote_frame [OF place_frame(3)] by blast
  have n: "none_offered ?r" by (rule none_offered_reposition [OF assms(2)])
  have same: "none_offered t = none_offered u" if "hp_by t = hp_by u" for t u :: "'a host"
    using that by (simp add: none_offered_def)
  have ro: "set_icon E arg ?r = ?r" "set_page E arg ?r = ?r" "set_font E arg ?r = ?r"
    using r by (simp_all add: set_icon_def set_page_def set_font_def)
  consider "cmd = ''place''" | "cmd = ''remove''" | "cmd = ''clear''"
    | "cmd \<notin> {''place'', ''remove'', ''clear''}" by blast
  then show ?thesis
  proof cases
    case 1
    with none_offered_place [OF r n] n show ?thesis
      by (simp add: osc_7337_def c Let_def split: option.splits prod.splits)
  next
    case 2
    with none_offered_del [OF n] show ?thesis by (simp add: osc_7337_def c Let_def)
  next
    case 3
    then show ?thesis by (simp add: osc_7337_def c Let_def none_offered_def)
  next
    case 4
    then have "hp_by (osc_7337 E data s) = hp_by ?r"
      by (simp add: osc_7337_def c Let_def ro by_frame set_sound_by split: prod.splits)
    with n same show ?thesis by blast
  qed
qed

lemma program_ended_by: "hp_by (program_ended s) = []"
proof -
  have "hp_by (fold sound_stop ids t) = hp_by t" for ids and t :: "'a host"
    by (induction ids arbitrary: t) (simp_all add: by_frame)
  then show ?thesis
    by (simp add: program_ended_def sounds_end_def mirror_clear_def page_restore_def font_restore_def Let_def)
qed

lemma none_offered_step:
  assumes "remote s" "none_offered s" "no_source x"
  shows "none_offered (host_step E x s)"
proof -
  have re: "none_offered (remote_ended s)"
    using assms(2) by (simp add: remote_ended_def none_offered_def program_ended_by)
  show ?thesis
    using assms re none_offered_osc [OF assms(1,2)]
    by (cases x) (auto simp: none_offered_def by_frame font_answer_by prompt_mark_def interrupt_typed_def
        zoom_by_def zoom_reset_def)
qed

text \<open>
  C11. Output that may be another machine's, a network session's or a desktop terminal's, changes
  nothing of the page around it or of the person's terminal: whatever it asks, while no other
  source's output comes, the page's address and icon and the terminal's font and size stay as
  they were, the title too unless it is a desktop terminal's (whose title goes back with it), and
  no placement is filled with a widget that a program in the tab offered.
\<close>

theorem remote_changes_nothing:
  assumes "remote s" "\<not> pg_saved (hp_page s)" "\<not> pg_icon_set (hp_page s)" "\<not> fo_saved (hp_font s)"
    "fo_loading (hp_font s) = []" "none_offered s" "list_all no_source ops" "list_all no_zoom ops"
    "s' = host_run E ops s"
  shows "dc_url (hp_doc s') = dc_url (hp_doc s) \<and> dc_icon (hp_doc s') = dc_icon (hp_doc s) \<and>
    hp_family s' = hp_family s \<and> hp_size s' = hp_size s \<and> none_offered s' \<and>
    (hp_source s = ''remote'' \<or> \<not> pg_saved (hp_page s') \<longrightarrow> dc_title (hp_doc s') = dc_title (hp_doc s)) \<and>
    dc_title (hp_doc (program_ended s')) = dc_title (hp_doc s)"
proof -
  have "remote_inv s (host_run E ops t) \<and> none_offered (host_run E ops t)"
    if "remote_inv s t" "none_offered t" for t
    using that assms(7,8)
  proof (induction ops arbitrary: t)
    case (Cons x ops)
    then have "remote_inv s (host_step E x t)" "none_offered (host_step E x t)"
      using remote_inv_step [OF assms(1), of t x E] none_offered_step [of t x E]
        remote_inv_remote [OF assms(1), of t] by auto
    with Cons show ?case by (simp add: host_run_def)
  qed (simp add: host_run_def)
  moreover have "remote_inv s s" using assms(2-5) by (simp add: remote_inv_def)
  ultimately have r: "remote_inv s s'" "none_offered s'" using assms(6,9) by blast+
  from remote_inv_ended [OF assms(1) r(1)] have e: "remote_inv s (program_ended s')" .
  have "\<not> pg_saved (hp_page (program_ended s'))"
    using arg_cong [OF program_ended_frame [of s'], of "\<lambda>(d, p, q). pg_saved p"]
    by (simp add: host_frame_def page_restore_def Let_def)
  with r e show ?thesis by (auto simp: remote_inv_def)
qed

text \<open>Another machine's program asks for all of it.\<close>

theorem remote_changes_nothing_witness:
  "let s' = host_run sample_env (Op_Title ''t'' # sample_ops) (command_starts ''ssh h'' (sample_host ''remote''))
   in dc_url (hp_doc s') = ''/'' \<and> dc_icon (hp_doc s') = None \<and> hp_family s' = ''mono'' \<and> hp_size s' = 14 \<and>
     dc_title (hp_doc s') = ''home''"
proof -
  let ?s = "command_starts ''ssh h'' (sample_host ''remote'')" and ?o = "Op_Title ''t'' # sample_ops"
  have "remote ?s" "\<not> pg_saved (hp_page ?s)" "\<not> pg_icon_set (hp_page ?s)" "\<not> fo_saved (hp_font ?s)"
    "fo_loading (hp_font ?s) = []" "none_offered ?s" "list_all no_source ?o" "list_all no_zoom ?o"
    "hp_source ?s = ''remote''" "hp_doc ?s = \<lparr>dc_title = ''home'', dc_url = ''/'', dc_icon = None\<rparr>"
    "hp_family ?s = ''mono''" "hp_size ?s = 14"
    by (simp_all add: remote_def command_starts_def sample_host_def none_offered_def sample_ops_def)
  with remote_changes_nothing [OF this(1-8) refl, of sample_env] show ?thesis by (simp add: Let_def)
qed

end
