(* ===== verification/Go_Path.thy ===== *)
theory Go_Path
  imports Go_Prelude
begin

text \<open>
  The functions of Go's \<^verbatim>\<open>path/filepath\<close> (and of \<^verbatim>\<open>path\<close>, which is the same on a Unix) that
  the shell's applets call on the names they are given. \<^verbatim>\<open>Clean\<close> works on the elements
  between the slashes, as its documentation states its rules: an empty element and \<^verbatim>\<open>.\<close> go,
  \<^verbatim>\<open>..\<close> takes the element before it away, and at the root there is none to take.
\<close>

definition slash :: char where
  "slash = CHR ''/''"

definition is_abs :: "string \<Rightarrow> bool" where
  "is_abs p = has_prefix p ''/''"

text \<open>The elements of a cleaned path, last first.\<close>

fun clean_elems :: "bool \<Rightarrow> string list \<Rightarrow> string list \<Rightarrow> string list" where
  "clean_elems rooted st [] = st"
| "clean_elems rooted st (e # es) =
     (if e = [] \<or> e = ''.'' then clean_elems rooted st es
      else if e = ''..'' then
        (case st of
           [] \<Rightarrow> clean_elems rooted (if rooted then [] else [''..'']) es
         | t # st' \<Rightarrow> if t = ''..'' then clean_elems rooted (''..'' # st) es
                     else clean_elems rooted st' es)
      else clean_elems rooted (e # st) es)"

definition path_clean :: "string \<Rightarrow> string" where
  "path_clean p =
     (let es = rev (clean_elems (is_abs p) [] (split_byte p slash)) in
      if is_abs p then slash # join_with es [slash]
      else if es = [] then ''.'' else join_with es [slash])"

definition path_split :: "string \<Rightarrow> string \<times> string" where
  "path_split p = (case last_index_byte p slash of
     None \<Rightarrow> ([], p)
   | Some i \<Rightarrow> (take (i + 1) p, drop (i + 1) p))"

definition path_base :: "string \<Rightarrow> string" where
  "path_base p =
     (if p = [] then ''.''
      else (let q = trim_right p [slash] in
        if q = [] then ''/'' else snd (path_split q)))"

definition path_dir :: "string \<Rightarrow> string" where
  "path_dir p = path_clean (fst (path_split p))"

definition path_join :: "string list \<Rightarrow> string" where
  "path_join es = (let fs = filter (\<lambda>e. e \<noteq> []) es in
     if fs = [] then [] else path_clean (join_with fs [slash]))"

text \<open>\<^verbatim>\<open>Rel\<close>: the way from the first path to the second; \<open>None\<close> is its error.\<close>

fun drop_common :: "string list \<Rightarrow> string list \<Rightarrow> string list \<times> string list" where
  "drop_common (a # as) (b # bs) = (if a = b then drop_common as bs else (a # as, b # bs))"
| "drop_common as bs = (as, bs)"

definition path_elems :: "string \<Rightarrow> string list" where
  "path_elems p = filter (\<lambda>e. e \<noteq> []) (split_byte p slash)"

definition path_rel :: "string \<Rightarrow> string \<Rightarrow> string option" where
  "path_rel base targ =
     (let b = path_clean base; t = path_clean targ in
      if t = b then Some ''.''
      else if is_abs b \<noteq> is_abs t then None
      else (let (bs, ts) = drop_common (if b = ''.'' then [] else path_elems b) (path_elems t) in
        if bs \<noteq> [] \<and> ts \<noteq> [] \<and> hd bs = ''..'' then None
        else Some (join_with (map (\<lambda>e. ''..'') bs @ ts) [slash])))"

subsection \<open>Facts\<close>

lemma is_abs_Cons [simp]: "is_abs (c # p) \<longleftrightarrow> c = slash"
  by (simp add: is_abs_def slash_def eq_commute)

lemma is_abs_Nil [simp]: "\<not> is_abs []"
  by (simp add: is_abs_def)

lemma path_clean_abs [simp]: "is_abs (path_clean p) \<longleftrightarrow> is_abs p"
proof -
  have elems: "list_all (\<lambda>e. e \<noteq> [] \<and> slash \<notin> set e) es" if
    "list_all (\<lambda>e. e \<noteq> [] \<and> slash \<notin> set e) st" "list_all (\<lambda>e. slash \<notin> set e) as"
    "es = clean_elems r st as" for r st as es
    using that
  proof (induction r st as arbitrary: es rule: clean_elems.induct)
    case (2 r st e as)
    then show ?case by (auto simp: slash_def split: list.splits if_splits)
  qed simp
  have "list_all (\<lambda>e. slash \<notin> set e) (split_byte p slash)"
    by (simp add: list_all_iff split_byte_parts)
  from elems [OF _ this refl, of "[]" "is_abs p"]
  have es: "list_all (\<lambda>e. e \<noteq> [] \<and> slash \<notin> set e) (rev (clean_elems (is_abs p) [] (split_byte p slash)))"
    by (simp add: list_all_iff)
  show ?thesis
  proof (cases "is_abs p")
    case True
    then show ?thesis by (simp add: path_clean_def)
  next
    case False
    have "\<not> is_abs (join_with fs [slash])"
      if "list_all (\<lambda>e. e \<noteq> [] \<and> slash \<notin> set e) fs" for fs
      using that by (cases "(fs, [slash])" rule: join_with.cases) (auto simp: neq_Nil_conv)
    with es False show ?thesis
      by (simp add: path_clean_def Let_def slash_def)
  qed
qed

lemma path_join_abs: "is_abs d \<Longrightarrow> is_abs (path_join (d # es))"
proof -
  assume d: "is_abs d"
  then obtain r where r: "d = slash # r" by (cases d) auto
  have "is_abs (join_with ((slash # r) # fs) [slash])" for fs
    by (cases fs) simp_all
  then show ?thesis
    by (simp add: path_join_def r)
qed

text \<open>
  The elements a rooted path is cleaned to are proper names: none is empty, \<^verbatim>\<open>.\<close> or
  \<^verbatim>\<open>..\<close>, and cleaning them again keeps them.
\<close>

definition proper_elem :: "string \<Rightarrow> bool" where
  "proper_elem e = (e \<noteq> [] \<and> e \<noteq> ''.'' \<and> e \<noteq> ''..'' \<and> slash \<notin> set e)"

lemma clean_elems_proper:
  "\<lbrakk>list_all proper_elem st; list_all (\<lambda>e. slash \<notin> set e) es\<rbrakk>
   \<Longrightarrow> list_all proper_elem (clean_elems True st es)"
  by (induction True st es rule: clean_elems.induct)
    (auto simp: proper_elem_def split: list.splits)

lemma clean_elems_id:
  "list_all proper_elem es \<Longrightarrow> clean_elems r st es = rev es @ st"
  by (induction es arbitrary: st) (auto simp: proper_elem_def)

lemma split_no_slash: "list_all (\<lambda>e. slash \<notin> set e) (split_byte p slash)"
  by (simp add: list_all_iff split_byte_parts)

lemma clean_abs_elems:
  assumes "is_abs p"
  shows "\<exists>es. path_clean p = slash # join_with es [slash] \<and> list_all proper_elem es"
proof -
  have "list_all proper_elem (rev (clean_elems True [] (split_byte p slash)))"
    using clean_elems_proper [OF _ split_no_slash, of "[]"] by (simp add: list_all_iff)
  then show ?thesis
    using assms unfolding path_clean_def Let_def by auto
qed

lemma split_slash_elems:
  assumes "list_all proper_elem es"
  shows "split_byte (slash # join_with es [slash]) slash = [] # (if es = [] then [[]] else es)"
  using assms split_join_byte [of es slash]
  by (auto simp: list_all_iff proper_elem_def)

lemma path_elems_clean:
  assumes "is_abs p"
  shows "list_all proper_elem (path_elems (path_clean p))"
proof -
  from clean_abs_elems [OF assms] obtain es where
    es: "path_clean p = slash # join_with es [slash]" "list_all proper_elem es" by blast
  then show ?thesis
    using split_slash_elems [OF es(2)] by (auto simp: path_elems_def list_all_iff)
qed

lemma path_clean_idem:
  assumes "is_abs p"
  shows "path_clean (path_clean p) = path_clean p"
proof -
  from clean_abs_elems [OF assms] obtain es where
    es: "path_clean p = slash # join_with es [slash]" "list_all proper_elem es" by blast
  have "clean_elems True [] (split_byte (slash # join_with es [slash]) slash) = rev es"
    unfolding split_slash_elems [OF es(2)]
    using clean_elems_id [OF es(2), of True "[]"] by simp
  then show ?thesis
    unfolding es(1) by (simp add: path_clean_def)
qed

end
