(* ===== verification/Shell_Env.thy ===== *)
theory Shell_Env
  imports Go_Path Go_Text Regexp_Lib
begin

text \<open>
  What the shell's applets (\<^verbatim>\<open>src/shell/applets.go\<close>, \<^verbatim>\<open>applets2.go\<close>, \<^verbatim>\<open>sedapplet.go\<close>) share: the file
  system they are given (package afero, an interface: the record \<open>fs_ops\<close> over a state
  \<open>'f\<close>), the handler context, the three streams, the flag parser and the reader of lines
  (\<^verbatim>\<open>parseFlags\<close>, \<^verbatim>\<open>resolveArg\<close>, \<^verbatim>\<open>readLines\<close>, \<^verbatim>\<open>fail\<close>, \<^verbatim>\<open>numericKey\<close>). An applet is a function of its
  arguments and the world; its value is the exit code and the world it leaves, or \<open>None\<close>
  when it does not return: a Go panic, or a loop without end.
\<close>

subsection \<open>The file system\<close>

text \<open>An error is its text, as \<^verbatim>\<open>%v\<close> prints it.\<close>

type_synonym gerr = string

record fs_info =
  fi_name :: string
  fi_dir :: bool
  fi_size :: int
  fi_perm :: int
  fi_mode :: string \<comment> \<open>the mode and the time as the stat applet prints them\<close>
  fi_time :: string

text \<open>
  The operations of \<^verbatim>\<open>afero.Fs\<close> the code calls. Opening a file for reading gives the bytes a
  reader gets and the error it ends with, if any. A file opened for writing is named by its
  path: \<^verbatim>\<open>OpenFile\<close> with \<^verbatim>\<open>O_CREATE|O_TRUNC|O_WRONLY\<close> is \<open>fs_trunc\<close>, a \<^verbatim>\<open>Write\<close> to it is
  \<open>fs_append\<close>. A walk is the list of what the callback is given.
\<close>

record 'f fs_ops =
  fs_stat :: "'f \<Rightarrow> string \<Rightarrow> gerr + fs_info"
  fs_open :: "'f \<Rightarrow> string \<Rightarrow> gerr + string \<times> gerr option"
  fs_list :: "'f \<Rightarrow> string \<Rightarrow> gerr + fs_info list"
  fs_walk :: "'f \<Rightarrow> string \<Rightarrow> (string \<times> (gerr + fs_info)) list \<times> gerr option"
  fs_mkdir :: "'f \<Rightarrow> string \<Rightarrow> int \<Rightarrow> 'f \<times> gerr option"
  fs_mkdir_all :: "'f \<Rightarrow> string \<Rightarrow> int \<Rightarrow> 'f \<times> gerr option"
  fs_remove :: "'f \<Rightarrow> string \<Rightarrow> 'f \<times> gerr option"
  fs_remove_all :: "'f \<Rightarrow> string \<Rightarrow> 'f \<times> gerr option"
  fs_rename :: "'f \<Rightarrow> string \<Rightarrow> string \<Rightarrow> 'f \<times> gerr option"
  fs_create :: "'f \<Rightarrow> string \<Rightarrow> 'f \<times> gerr option"
  fs_trunc :: "'f \<Rightarrow> string \<Rightarrow> int \<Rightarrow> 'f \<times> gerr option"
  fs_append :: "'f \<Rightarrow> string \<Rightarrow> string \<Rightarrow> 'f \<times> gerr option"
  fs_close :: "'f \<Rightarrow> string \<Rightarrow> 'f \<times> gerr option"
  fs_chmod :: "'f \<Rightarrow> string \<Rightarrow> int \<Rightarrow> 'f \<times> gerr option"
  fs_chtimes :: "'f \<Rightarrow> string \<Rightarrow> 'f \<times> gerr option"

text \<open>\<^verbatim>\<open>afero.ReadFile\<close> and \<^verbatim>\<open>afero.WriteFile\<close>: open, read or write everything, close.\<close>

definition fs_read :: "'f fs_ops \<Rightarrow> 'f \<Rightarrow> string \<Rightarrow> gerr + string" where
  "fs_read F fs p = (case fs_open F fs p of
     Inl e \<Rightarrow> Inl e
   | Inr (b, None) \<Rightarrow> Inr b
   | Inr (b, Some e) \<Rightarrow> Inl e)"

definition fs_write :: "'f fs_ops \<Rightarrow> 'f \<Rightarrow> string \<Rightarrow> string \<Rightarrow> int \<Rightarrow> 'f \<times> gerr option" where
  "fs_write F fs p b perm =
     (case fs_trunc F fs p perm of
        (fs1, Some e) \<Rightarrow> (fs1, Some e)
      | (fs1, None) \<Rightarrow>
         (let (fs2, e2) = fs_append F fs1 p b; (fs3, e3) = fs_close F fs2 p
          in (fs3, if e2 \<noteq> None then e2 else e3)))"

subsection \<open>The world and the context of an applet\<close>

record 'f sw =
  sw_fs :: 'f
  sw_in :: "string \<times> gerr option" \<comment> \<open>what stdin still gives, and how it ends\<close>
  sw_out :: string
  sw_err :: string

record ('f, 're) sh_env =
  se_ops :: "'f fs_ops"
  se_dir :: string
  se_re :: "'re go_lib"
  se_b64_err :: "string \<Rightarrow> gerr" \<comment> \<open>what \<^verbatim>\<open>encoding/base64\<close> says of a text it refuses\<close>

type_synonym 'f run = "(int \<times> 'f sw) option"

definition put :: "string \<Rightarrow> 'f sw \<Rightarrow> 'f sw" where
  "put s w = w\<lparr>sw_out := sw_out w @ s\<rparr>"

definition put_ln :: "string \<Rightarrow> 'f sw \<Rightarrow> 'f sw" where
  "put_ln s w = put (s @ [CHR 0x0A]) w"

definition put_lines :: "string list \<Rightarrow> 'f sw \<Rightarrow> 'f sw" where
  "put_lines ls w = fold put_ln ls w"

definition err_ln :: "string \<Rightarrow> 'f sw \<Rightarrow> 'f sw" where
  "err_ln s w = w\<lparr>sw_err := sw_err w @ s @ [CHR 0x0A]\<rparr>"

definition finish :: "int \<Rightarrow> 'f sw \<Rightarrow> 'f run" where
  "finish code w = Some (code, w)"

definition fail_with :: "string \<Rightarrow> gerr \<Rightarrow> 'f sw \<Rightarrow> 'f run" where
  "fail_with name e w = Some (1, err_ln (name @ '': '' @ e) w)"

text \<open>\<^verbatim>\<open>io.ReadAll(hc.Stdin)\<close>; what was read is gone for the next reader.\<close>

definition read_stdin :: "'f sw \<Rightarrow> (gerr + string) \<times> 'f sw" where
  "read_stdin w = (case snd (sw_in w) of
     None \<Rightarrow> (Inr (fst (sw_in w)), w\<lparr>sw_in := ([], None)\<rparr>)
   | Some e \<Rightarrow> (Inl e, w\<lparr>sw_in := ([], Some e)\<rparr>))"

definition resolve_arg :: "('f, 're) sh_env \<Rightarrow> string \<Rightarrow> string" where
  "resolve_arg E p = (if is_abs p then path_clean p else path_join [se_dir E, p])"

definition read_file :: "('f, 're) sh_env \<Rightarrow> 'f sw \<Rightarrow> string \<Rightarrow> gerr + string" where
  "read_file E w p = fs_read (se_ops E) (sw_fs w) (resolve_arg E p)"

subsection \<open>Flags and lines\<close>

fun parse_flags :: "string list \<Rightarrow> char list \<times> string list" where
  "parse_flags [] = ([], [])"
| "parse_flags (a # as) =
     (if 1 < length a \<and> a ! 0 = CHR ''-'' \<and> a \<noteq> ''--''
      then (let (fl, rest) = parse_flags as in (drop 1 a @ fl, rest))
      else if a = ''--'' then ([], as)
      else ([], a # as))"

fun read_files :: "('f, 're) sh_env \<Rightarrow> 'f sw \<Rightarrow> string list \<Rightarrow> gerr + string" where
  "read_files E w [] = Inr []"
| "read_files E w (a # as) =
     (case read_file E w a of
        Inl e \<Rightarrow> Inl e
      | Inr b \<Rightarrow> map_sum id (\<lambda>bs. b @ bs) (read_files E w as))"

definition read_data :: "('f, 're) sh_env \<Rightarrow> string list \<Rightarrow> 'f sw \<Rightarrow> (gerr + string) \<times> 'f sw" where
  "read_data E args w = (if args = [] then read_stdin w else (read_files E w args, w))"

definition lines_of :: "string \<Rightarrow> string list" where
  "lines_of s =
     (let ls = split_byte (trim_suffix s [CHR 0x0A]) (CHR 0x0A) in
      if ls = [[]] then [] else ls)"

definition read_lines ::
  "('f, 're) sh_env \<Rightarrow> string list \<Rightarrow> 'f sw \<Rightarrow> (gerr + string list) \<times> 'f sw" where
  "read_lines E args w = (let (r, w') = read_data E args w in (map_sum id lines_of r, w'))"

definition numeric_key :: "string \<Rightarrow> int" where
  "numeric_key l = (case atoi (trim_space l) of None \<Rightarrow> 0 | Some n \<Rightarrow> n)"

text \<open>A formatted number, \<^verbatim>\<open>%7d\<close>.\<close>

definition pad_left :: "nat \<Rightarrow> char \<Rightarrow> string \<Rightarrow> string" where
  "pad_left n c s = replicate (n - length s) c @ s"

definition pad_right :: "nat \<Rightarrow> string \<Rightarrow> string" where
  "pad_right n s = s @ replicate (n - length s) (CHR '' '')"

definition fmt_int :: "nat \<Rightarrow> int \<Rightarrow> string" where
  "fmt_int n i = pad_left n (CHR '' '') (itoa i)"

subsection \<open>Facts\<close>

text \<open>What \<^verbatim>\<open>fprintln\<close> writes for a list of lines.\<close>

definition lines_text :: "string list \<Rightarrow> string" where
  "lines_text ls = concat (map (\<lambda>l. l @ [CHR 0x0A]) ls)"

lemma lines_text_simps [simp]:
  "lines_text [] = []" "lines_text (l # ls) = l @ CHR 0x0A # lines_text ls"
  "lines_text (as @ bs) = lines_text as @ lines_text bs"
  by (simp_all add: lines_text_def)

lemma put_lines_eq: "put_lines ls w = put (lines_text ls) w"
  by (induction ls arbitrary: w) (simp_all add: put_lines_def put_ln_def put_def)

lemma put_fields [simp]:
  "sw_out (put s w) = sw_out w @ s" "sw_err (put s w) = sw_err w" "sw_fs (put s w) = sw_fs w"
  "sw_in (put s w) = sw_in w"
  by (simp_all add: put_def)

lemma put_put: "put a (put b w) = put (b @ a) w"
  by (simp add: put_def)

lemma read_stdin_fields [simp]:
  "sw_out (snd (read_stdin w)) = sw_out w" "sw_err (snd (read_stdin w)) = sw_err w"
  "sw_fs (snd (read_stdin w)) = sw_fs w"
  by (auto simp: read_stdin_def split: option.splits)

lemma read_data_fields [simp]:
  "sw_out (snd (read_data E args w)) = sw_out w" "sw_err (snd (read_data E args w)) = sw_err w"
  "sw_fs (snd (read_data E args w)) = sw_fs w"
  by (auto simp: read_data_def)

text \<open>
  Every line an applet reads ends at a newline, and writing the lines gives the text back,
  with the newline it lacked at its end. A text that is one empty line is lost.
\<close>

lemma lines_of_no_newline: "l \<in> set (lines_of s) \<Longrightarrow> CHR 0x0A \<notin> set l"
  by (auto simp: lines_of_def Let_def split_byte_parts split: if_splits)

lemma lines_text_join: "ls \<noteq> [] \<Longrightarrow> lines_text ls = join_with ls [CHR 0x0A] @ [CHR 0x0A]"
  by (induction ls "[CHR 0x0A]" rule: join_with.induct) simp_all

lemma lines_of_text:
  "lines_text (lines_of s) =
     (if s = [] \<or> s = [CHR 0x0A] then [] else trim_suffix s [CHR 0x0A] @ [CHR 0x0A])"
proof (cases "split_byte (trim_suffix s [CHR 0x0A]) (CHR 0x0A) = [[]]")
  case True
  then have "join_with (split_byte (trim_suffix s [CHR 0x0A]) (CHR 0x0A)) [CHR 0x0A] = []" by simp
  then have "trim_suffix s [CHR 0x0A] = []" by (simp only: join_split_byte)
  then have "s = [] \<or> s = [CHR 0x0A]"
    by (auto simp: trim_suffix_def has_suffix_iff split: if_splits)
  with True show ?thesis by (auto simp: lines_of_def)
next
  case False
  then have "\<not> (s = [] \<or> s = [CHR 0x0A])"
    by (auto simp: trim_suffix_def has_suffix_def)
  with False show ?thesis
    by (simp add: lines_of_def Let_def lines_text_join join_split_byte)
qed

lemma lines_of_lines_text:
  assumes "list_all (\<lambda>l. CHR 0x0A \<notin> set l) ls" "ls \<noteq> [[]]"
  shows "lines_of (lines_text ls) = ls"
proof (cases "ls = []")
  case True
  then show ?thesis by (simp add: lines_of_def trim_suffix_def has_suffix_def)
next
  case False
  have "trim_suffix (lines_text ls) [CHR 0x0A] = join_with ls [CHR 0x0A]"
    by (simp add: lines_text_join [OF False])
  then show ?thesis
    using assms split_join_byte [OF False, of "CHR 0x0A"]
    by (simp add: lines_of_def list_all_iff)
qed

text \<open>A name the applets pass on is rooted where the working directory is, and cleaned.\<close>

lemma resolve_arg_abs: "is_abs (se_dir E) \<Longrightarrow> is_abs (resolve_arg E p)"
  by (simp add: resolve_arg_def path_join_abs)

lemma resolve_arg_clean:
  assumes "is_abs (se_dir E)"
  shows "path_clean (resolve_arg E p) = resolve_arg E p"
proof -
  obtain d where d: "se_dir E = slash # d" using assms by (cases "se_dir E") auto
  have "is_abs (join_with (filter (\<lambda>e. e \<noteq> []) [se_dir E, p]) [slash])"
    by (simp add: d)
  then show ?thesis
    by (simp add: resolve_arg_def path_clean_idem path_join_def d)
qed

end
