(* ===== verification/Text_Applets.thy ===== *)
theory Text_Applets
  imports Shell_Env Base64 "HOL-Library.List_Lexorder" "HOL-Library.Multiset"
begin

text \<open>
  The applets that read text and write text (\<^verbatim>\<open>src/shell/applets.go\<close> and \<^verbatim>\<open>applets2.go\<close>): cat,
  head, tail, wc, grep, seq, sort, uniq, basename, dirname, cut, tr, tac, nl, the digests,
  base64 and xxd. Theory \<open>Text_Applets_Correct\<close> holds what they compute.
\<close>

subsection \<open>cat, head, tail, wc\<close>

text \<open>\<^verbatim>\<open>cat\<close> copies each file as it reads it; the first that fails ends it.\<close>

fun cat_files :: "('f, 're) sh_env \<Rightarrow> string list \<Rightarrow> 'f sw \<Rightarrow> 'f run" where
  "cat_files E [] w = finish 0 w"
| "cat_files E (a # as) w =
     (case fs_open (se_ops E) (sw_fs w) (resolve_arg E a) of
        Inl e \<Rightarrow> fail_with ''cat'' e w
      | Inr (b, None) \<Rightarrow> cat_files E as (put b w)
      | Inr (b, Some e) \<Rightarrow> fail_with ''cat'' e (put b w))"

definition run_cat :: "('f, 're) sh_env \<Rightarrow> string list \<Rightarrow> 'f sw \<Rightarrow> 'f run" where
  "run_cat E args w =
     (let rest = snd (parse_flags args) in
      if rest = [] then
        (let (b, e) = sw_in w; w' = put b (w\<lparr>sw_in := ([], e)\<rparr>) in
         case e of None \<Rightarrow> finish 0 w' | Some m \<Rightarrow> fail_with ''cat'' m w')
      else cat_files E rest w)"

definition count_args :: "string list \<Rightarrow> string list" where
  "count_args args = concat (map (\<lambda>a.
     let num = trim_prefix (trim_prefix a ''-'') ''n'' in
     if 1 < length a \<and> a ! 0 = CHR ''-'' \<and> num \<noteq> [] \<and> trim_chars num ''0123456789'' = []
     then [''-n'', num] else [a]) args)"

definition head_tail_count :: "char list \<Rightarrow> string list \<Rightarrow> int \<times> string list" where
  "head_tail_count fl rest =
     (case rest of
        r # rs \<Rightarrow> if CHR ''n'' \<in> set fl
                  then (case atoi r of Some v \<Rightarrow> (v, rs) | None \<Rightarrow> (10, rest))
                  else (10, rest)
      | [] \<Rightarrow> (10, rest))"

text \<open>The slice expressions panic on an index out of range: \<open>None\<close>.\<close>

definition head_slice :: "int \<Rightarrow> string list \<Rightarrow> string list option" where
  "head_slice n ls =
     (if n < int (length ls) then (if n < 0 then None else Some (take (nat n) ls)) else Some ls)"

definition tail_slice :: "int \<Rightarrow> string list \<Rightarrow> string list option" where
  "tail_slice n ls =
     (if n < int (length ls)
      then (if int (length ls) < int (length ls) - n then None
            else Some (drop (nat (int (length ls) - n)) ls))
      else Some ls)"

definition run_head :: "('f, 're) sh_env \<Rightarrow> string list \<Rightarrow> 'f sw \<Rightarrow> 'f run" where
  "run_head E args w =
     (let (fl, rest0) = parse_flags (count_args args);
          (n, rest) = head_tail_count fl rest0 in
      case read_lines E rest w of
        (Inl e, w') \<Rightarrow> fail_with ''head'' e w'
      | (Inr ls, w') \<Rightarrow>
          (case head_slice n ls of None \<Rightarrow> None | Some ls' \<Rightarrow> finish 0 (put_lines ls' w')))"

definition run_tail :: "('f, 're) sh_env \<Rightarrow> string list \<Rightarrow> 'f sw \<Rightarrow> 'f run" where
  "run_tail E args w =
     (let (fl, rest0) = parse_flags (count_args args);
          (n, rest) = head_tail_count fl rest0 in
      case read_lines E rest w of
        (Inl e, w') \<Rightarrow> fail_with ''tail'' e w'
      | (Inr ls, w') \<Rightarrow>
          (case tail_slice n ls of None \<Rightarrow> None | Some ls' \<Rightarrow> finish 0 (put_lines ls' w')))"

definition run_wc :: "('f, 're) sh_env \<Rightarrow> string list \<Rightarrow> 'f sw \<Rightarrow> 'f run" where
  "run_wc E args w =
     (let (fl, rest) = parse_flags args in
      case read_data E rest w of
        (Inl e, w') \<Rightarrow> fail_with ''wc'' e w'
      | (Inr b, w') \<Rightarrow>
         (let lines = int (count_list b (CHR 0x0A)); words = int (length (string_fields b));
              bytes = int (length b) in
          if CHR ''l'' \<notin> set fl \<and> CHR ''w'' \<notin> set fl \<and> CHR ''c'' \<notin> set fl
          then finish 0 (put_ln (fmt_int 7 lines @ '' '' @ fmt_int 7 words @ '' '' @ fmt_int 7 bytes) w')
          else finish 0 (put_ln (join_with
            ((if CHR ''l'' \<in> set fl then [itoa lines] else []) @
             (if CHR ''w'' \<in> set fl then [itoa words] else []) @
             (if CHR ''c'' \<in> set fl then [itoa bytes] else [])) '' '') w')))"

subsection \<open>grep, seq\<close>

fun grep_loop :: "'re go_lib \<Rightarrow> 're \<Rightarrow> char list \<Rightarrow> int \<Rightarrow> string list \<Rightarrow> int \<Rightarrow> 'f sw \<Rightarrow> int \<times> 'f sw" where
  "grep_loop L re fl i [] cnt w = (cnt, w)"
| "grep_loop L re fl i (l # ls) cnt w =
     (let m = (match_string L re l \<noteq> (CHR ''v'' \<in> set fl)) in
      if \<not> m then grep_loop L re fl (i + 1) ls cnt w
      else if CHR ''c'' \<in> set fl then grep_loop L re fl (i + 1) ls (cnt + 1) w
      else grep_loop L re fl (i + 1) ls (cnt + 1)
        (put_ln (if CHR ''n'' \<in> set fl then itoa (i + 1) @ '':'' @ l else l) w))"

definition run_grep :: "('f, 're) sh_env \<Rightarrow> string list \<Rightarrow> 'f sw \<Rightarrow> 'f run" where
  "run_grep E args w =
     (let (fl, rest) = parse_flags args in
      case rest of
        [] \<Rightarrow> finish 2 (err_ln ''grep: missing pattern'' w)
      | pat # files \<Rightarrow>
         (case lib_compile (se_re E) (if CHR ''i'' \<in> set fl then ''(?i)'' @ pat else pat) of
            Inl e \<Rightarrow> fail_with ''grep'' e w
          | Inr re \<Rightarrow>
             (case read_lines E files w of
                (Inl e, w') \<Rightarrow> fail_with ''grep'' e w'
              | (Inr ls, w') \<Rightarrow>
                 (let (cnt, w1) = grep_loop (se_re E) re fl 0 ls 0 w';
                      w2 = (if CHR ''c'' \<in> set fl then put_ln (itoa cnt) w1 else w1)
                  in finish (if cnt = 0 then 1 else 0) w2))))"

definition seq_params :: "string list \<Rightarrow> (int option \<times> int option \<times> int option) option" where
  "seq_params rest = (case rest of
     [l] \<Rightarrow> Some (Some 1, Some 1, atoi l)
   | [f, l] \<Rightarrow> Some (atoi f, Some 1, atoi l)
   | [f, i, l] \<Rightarrow> Some (atoi f, atoi i, atoi l)
   | _ \<Rightarrow> None)"

text \<open>The loop adds with wrap-around, so it may go on for ever.\<close>

partial_function (option) seq_loop :: "int \<Rightarrow> int \<Rightarrow> int \<Rightarrow> 'f sw \<Rightarrow> 'f sw option" where
  "seq_loop incr fin i w =
     (if 0 < incr \<and> i \<le> fin \<or> incr < 0 \<and> fin \<le> i
      then seq_loop incr fin (wrap64 (i + incr)) (put_ln (itoa i) w)
      else Some w)"

declare seq_loop.simps [code]

definition run_seq :: "string list \<Rightarrow> 'f sw \<Rightarrow> 'f run" where
  "run_seq args w =
     (case seq_params (snd (parse_flags args)) of
        None \<Rightarrow> finish 1 (err_ln ''usage: seq [first [incr]] last'' w)
      | Some (Some f, Some i, Some l) \<Rightarrow>
          if i = 0 then finish 1 (err_ln ''seq: invalid arguments'' w)
          else map_option (\<lambda>w'. (0, w')) (seq_loop i l f w)
      | Some _ \<Rightarrow> finish 1 (err_ln ''seq: invalid arguments'' w))"

subsection \<open>sort, uniq, tac, nl\<close>

text \<open>
  \<^verbatim>\<open>sort.Strings\<close> orders strings by their bytes; \<^verbatim>\<open>sort.SliceStable\<close> keeps lines of the same
  key in order.
\<close>

definition sort_strings :: "string list \<Rightarrow> string list" where
  "sort_strings ls = sort_key (map byte_of) ls"

definition sort_lines :: "char list \<Rightarrow> string list \<Rightarrow> string list" where
  "sort_lines fl ls =
     (let s = (if CHR ''n'' \<in> set fl then sort_key numeric_key ls else sort_strings ls) in
      if CHR ''r'' \<in> set fl then rev s else s)"

definition run_sort :: "('f, 're) sh_env \<Rightarrow> string list \<Rightarrow> 'f sw \<Rightarrow> 'f run" where
  "run_sort E args w =
     (let (fl, rest) = parse_flags args in
      case read_lines E rest w of
        (Inl e, w') \<Rightarrow> fail_with ''sort'' e w'
      | (Inr ls, w') \<Rightarrow> finish 0 (put_lines (sort_lines fl ls) w'))"

definition uniq_flush :: "char list \<Rightarrow> string \<Rightarrow> int \<Rightarrow> 'f sw \<Rightarrow> 'f sw" where
  "uniq_flush fl prev cnt w =
     (if cnt = 0 then w
      else put_ln (if CHR ''c'' \<in> set fl then fmt_int 7 cnt @ '' '' @ prev else prev) w)"

fun uniq_loop :: "char list \<Rightarrow> string \<Rightarrow> int \<Rightarrow> string list \<Rightarrow> 'f sw \<Rightarrow> 'f sw" where
  "uniq_loop fl prev cnt [] w = uniq_flush fl prev cnt w"
| "uniq_loop fl prev cnt (l # ls) w =
     (if 0 < cnt \<and> l = prev then uniq_loop fl prev (cnt + 1) ls w
      else uniq_loop fl l 1 ls (uniq_flush fl prev cnt w))"

definition run_uniq :: "('f, 're) sh_env \<Rightarrow> string list \<Rightarrow> 'f sw \<Rightarrow> 'f run" where
  "run_uniq E args w =
     (let (fl, rest) = parse_flags args in
      case read_lines E rest w of
        (Inl e, w') \<Rightarrow> fail_with ''uniq'' e w'
      | (Inr ls, w') \<Rightarrow> finish 0 (uniq_loop fl [] 0 ls w'))"

definition run_tac :: "('f, 're) sh_env \<Rightarrow> string list \<Rightarrow> 'f sw \<Rightarrow> 'f run" where
  "run_tac E args w =
     (case read_lines E (snd (parse_flags args)) w of
        (Inl e, w') \<Rightarrow> fail_with ''tac'' e w'
      | (Inr ls, w') \<Rightarrow> finish 0 (put_lines (rev ls) w'))"

fun nl_loop :: "int \<Rightarrow> string list \<Rightarrow> 'f sw \<Rightarrow> 'f sw" where
  "nl_loop i [] w = w"
| "nl_loop i (l # ls) w = nl_loop (i + 1) ls (put_ln (fmt_int 6 (i + 1) @ [CHR 0x09] @ l) w)"

definition run_nl :: "('f, 're) sh_env \<Rightarrow> string list \<Rightarrow> 'f sw \<Rightarrow> 'f run" where
  "run_nl E args w =
     (case read_lines E (snd (parse_flags args)) w of
        (Inl e, w') \<Rightarrow> fail_with ''nl'' e w'
      | (Inr ls, w') \<Rightarrow> finish 0 (nl_loop 0 ls w'))"

subsection \<open>basename, dirname\<close>

definition run_basename :: "string list \<Rightarrow> 'f sw \<Rightarrow> 'f run" where
  "run_basename args w = (case args of
     [] \<Rightarrow> finish 1 (err_ln ''basename: missing operand'' w)
   | a # _ \<Rightarrow> finish 0 (put_ln (path_base a) w))"

definition run_dirname :: "string list \<Rightarrow> 'f sw \<Rightarrow> 'f run" where
  "run_dirname args w = (case args of
     [] \<Rightarrow> finish 1 (err_ln ''dirname: missing operand'' w)
   | a # _ \<Rightarrow> finish 0 (put_ln (path_dir a) w))"

subsection \<open>cut\<close>

text \<open>\<^verbatim>\<open>strings.Split\<close> at any separator; the empty one cuts between the characters.\<close>

function split_at :: "string \<Rightarrow> string \<Rightarrow> string list" where
  "split_at s sep =
     (if sep = [] then map snd (segments s)
      else (case index_of s sep of
        None \<Rightarrow> [s]
      | Some i \<Rightarrow> take i s # split_at (drop (i + length sep) s) sep))"
  by pat_completeness auto
termination
proof (relation "measure (\<lambda>(s, sep). length s)")
  fix s sep :: string and i :: nat
  assume a: "sep \<noteq> []" "index_of s sep = Some i"
  have "i + length sep \<le> length s" using a(2) by (rule index_of_bound)
  with a(1) show "((drop (i + length sep) s, sep), s, sep) \<in> measure (\<lambda>(s, sep). length s)"
    by (cases sep) auto
qed simp

declare split_at.simps [simp del]

definition max_int :: int where
  "max_int = 2 ^ 63 - 1"

definition field_range :: "string \<Rightarrow> (int \<times> int) option" where
  "field_range part =
     (case cut_byte part (CHR ''-'') of
        (lo, hi, True) \<Rightarrow>
         (case (if lo = [] then Some 1 else atoi lo, if hi = [] then Some max_int else atoi hi) of
            (Some l, Some h) \<Rightarrow> Some (l, h)
          | _ \<Rightarrow> None)
      | (_, _, False) \<Rightarrow> map_option (\<lambda>v. (v, v)) (atoi part))"

definition parse_field_list :: "string \<Rightarrow> int \<Rightarrow> bool" where
  "parse_field_list spec n =
     list_ex (\<lambda>p. case field_range p of None \<Rightarrow> False | Some (l, h) \<Rightarrow> l \<le> n \<and> n \<le> h)
       (split_byte spec (CHR '',''))"

record cut_args =
  ct_delim :: string
  ct_fields :: string
  ct_chars :: string
  ct_files :: "string list"

definition no_cut_args :: cut_args where
  "no_cut_args = \<lparr>ct_delim = [CHR 0x09], ct_fields = [], ct_chars = [], ct_files = []\<rparr>"

fun parse_cut :: "string list \<Rightarrow> cut_args \<Rightarrow> cut_args" where
  "parse_cut [] a = a"
| "parse_cut (x # xs) a =
     (if x = ''-d'' \<and> xs \<noteq> [] then parse_cut (drop 1 xs) (a\<lparr>ct_delim := xs ! 0\<rparr>)
      else if has_prefix x ''-d'' \<and> 2 < length x then parse_cut xs (a\<lparr>ct_delim := drop 2 x\<rparr>)
      else if x = ''-f'' \<and> xs \<noteq> [] then parse_cut (drop 1 xs) (a\<lparr>ct_fields := xs ! 0\<rparr>)
      else if has_prefix x ''-f'' \<and> 2 < length x then parse_cut xs (a\<lparr>ct_fields := drop 2 x\<rparr>)
      else if x = ''-c'' \<and> xs \<noteq> [] then parse_cut (drop 1 xs) (a\<lparr>ct_chars := xs ! 0\<rparr>)
      else if has_prefix x ''-c'' \<and> 2 < length x then parse_cut xs (a\<lparr>ct_chars := drop 2 x\<rparr>)
      else parse_cut xs (a\<lparr>ct_files := ct_files a @ [x]\<rparr>))"

fun pick :: "(int \<Rightarrow> bool) \<Rightarrow> int \<Rightarrow> 'a list \<Rightarrow> 'a list" where
  "pick want i [] = []"
| "pick want i (x # xs) = (if want (i + 1) then x # pick want (i + 1) xs else pick want (i + 1) xs)"

definition cut_chars :: "string \<Rightarrow> string \<Rightarrow> string" where
  "cut_chars spec l = string_of_runes (pick (parse_field_list spec) 0 (runes l))"

definition cut_fields :: "string \<Rightarrow> string \<Rightarrow> string \<Rightarrow> string" where
  "cut_fields spec delim l =
     (if index_of l delim = None then l
      else join_with (pick (parse_field_list spec) 0 (split_at l delim)) delim)"

definition run_cut :: "('f, 're) sh_env \<Rightarrow> string list \<Rightarrow> 'f sw \<Rightarrow> 'f run" where
  "run_cut E args w =
     (let a = parse_cut args no_cut_args in
      if ct_fields a = [] \<and> ct_chars a = [] then finish 1 (err_ln ''cut: specify -f or -c'' w)
      else (case read_lines E (ct_files a) w of
          (Inl e, w') \<Rightarrow> fail_with ''cut'' e w'
        | (Inr ls, w') \<Rightarrow>
            finish 0 (put_lines (map (if ct_chars a \<noteq> [] then cut_chars (ct_chars a)
                                      else cut_fields (ct_fields a) (ct_delim a)) ls) w')))"

subsection \<open>tr\<close>

function expand_tr :: "rune list \<Rightarrow> rune list" where
  "expand_tr [] = []"
| "expand_tr (a # rs) =
     (case rs of
        d # b # rs' \<Rightarrow> if d = 45 \<and> a \<le> b then [a..<Suc b] @ expand_tr rs' else a # expand_tr rs
      | _ \<Rightarrow> a # expand_tr rs)"
  by pat_completeness auto
termination by (relation "measure length") auto

definition expand_tr_set :: "string \<Rightarrow> rune list" where
  "expand_tr_set s = expand_tr (runes s)"

text \<open>The map from the first set to the second, which its last element fills up.\<close>

definition tr_map :: "rune list \<Rightarrow> rune list \<Rightarrow> rune \<Rightarrow> rune option" where
  "tr_map set1 set2 =
     (if set2 = [] then (\<lambda>r. None)
      else map_of (rev (zip set1 (set2 @ replicate (length set1 - length set2) (last set2)))))"

definition tr_text :: "rune list \<Rightarrow> rune list \<Rightarrow> string \<Rightarrow> string" where
  "tr_text set1 set2 s =
     string_of_runes (map (\<lambda>r. case tr_map set1 set2 r of Some q \<Rightarrow> q | None \<Rightarrow> r) (runes s))"

definition run_tr :: "string list \<Rightarrow> 'f sw \<Rightarrow> 'f run" where
  "run_tr args w =
     (let (fl, rest) = parse_flags args in
      case rest of
        [] \<Rightarrow> finish 1 (err_ln ''usage: tr [-d] set1 [set2]'' w)
      | s1 # rest' \<Rightarrow>
         (case read_stdin w of
            (Inl e, w') \<Rightarrow> fail_with ''tr'' e w'
          | (Inr b, w') \<Rightarrow>
             if CHR ''d'' \<in> set fl then
               finish 0 (put (string_of_runes
                 (filter (\<lambda>r. r \<notin> set (expand_tr_set s1)) (runes b))) w')
             else (case rest' of
                 [] \<Rightarrow> finish 1 (err_ln ''tr: missing set2'' w')
               | s2 # _ \<Rightarrow> finish 0 (put (tr_text (expand_tr_set s1) (expand_tr_set s2) b) w'))))"

subsection \<open>Digests, base64, xxd\<close>

text \<open>The digest, in hex, is a parameter: \<^verbatim>\<open>crypto/md5\<close> and \<^verbatim>\<open>crypto/sha256\<close>.\<close>

fun hash_files ::
  "('f, 're) sh_env \<Rightarrow> string \<Rightarrow> (string \<Rightarrow> string) \<Rightarrow> string list \<Rightarrow> int \<Rightarrow> 'f sw \<Rightarrow> 'f run"
where
  "hash_files E name digest [] code w = finish code w"
| "hash_files E name digest (a # as) code w =
     (case read_file E w a of
        Inl e \<Rightarrow> hash_files E name digest as 1 (err_ln (name @ '': '' @ e) w)
      | Inr b \<Rightarrow> hash_files E name digest as code (put_ln (digest b @ ''  '' @ a) w))"

definition hash_applet ::
  "('f, 're) sh_env \<Rightarrow> string \<Rightarrow> (string \<Rightarrow> string) \<Rightarrow> string list \<Rightarrow> 'f sw \<Rightarrow> 'f run"
where
  "hash_applet E name digest args w =
     (let rest = snd (parse_flags args) in
      if rest = [] then
        (case read_stdin w of
           (Inl e, w') \<Rightarrow> fail_with name e w'
         | (Inr b, w') \<Rightarrow> finish 0 (put_ln (digest b @ ''  -'') w'))
      else hash_files E name digest rest 0 w)"

text \<open>base64 and xxd read stdin or the first file named.\<close>

definition read_one :: "('f, 're) sh_env \<Rightarrow> string list \<Rightarrow> 'f sw \<Rightarrow> (gerr + string) \<times> 'f sw" where
  "read_one E rest w = (case rest of
     [] \<Rightarrow> read_stdin w
   | a # _ \<Rightarrow> (read_file E w a, w))"

definition run_base64 :: "('f, 're) sh_env \<Rightarrow> string list \<Rightarrow> 'f sw \<Rightarrow> 'f run" where
  "run_base64 E args w =
     (let (fl, rest) = parse_flags args in
      case read_one E rest w of
        (Inl e, w') \<Rightarrow> fail_with ''base64'' e w'
      | (Inr b, w') \<Rightarrow>
         if CHR ''d'' \<in> set fl then
           (case b64_decode (trim_space b) of
              None \<Rightarrow> fail_with ''base64'' (se_b64_err E (trim_space b)) w'
            | Some d \<Rightarrow> finish 0 (put d w'))
         else finish 0 (put_ln (b64_encode b) w'))"

definition hex_digit :: "nat \<Rightarrow> char" where
  "hex_digit n = ''0123456789abcdef'' ! n"

definition hex_byte :: "char \<Rightarrow> string" where
  "hex_byte c = [hex_digit (byte_of c div 16), hex_digit (byte_of c mod 16)]"

fun hex_nat :: "nat \<Rightarrow> string" where
  "hex_nat n = (if n < 16 then [hex_digit n] else hex_nat (n div 16) @ [hex_digit (n mod 16)])"

declare hex_nat.simps [simp del]

text \<open>The hex column of a line, sixteen places of which the last may be blank.\<close>

definition xxd_hex :: "string \<Rightarrow> string" where
  "xxd_hex chunk = concat (map (\<lambda>i.
     (if i < length chunk then hex_byte (chunk ! i) else ''  '') @
     (if i mod 2 = 1 then '' '' else [])) [0..<16])"

definition xxd_ascii :: "string \<Rightarrow> string" where
  "xxd_ascii chunk = map (\<lambda>c. if 32 \<le> byte_of c \<and> byte_of c < 127 then c else CHR ''.'') chunk"

function xxd_loop :: "nat \<Rightarrow> string \<Rightarrow> string list" where
  "xxd_loop off s =
     (if s = [] then []
      else (pad_left 8 (CHR ''0'') (hex_nat off) @ '': '' @ xxd_hex (take 16 s) @ '' '' @
            xxd_ascii (take 16 s)) # xxd_loop (off + 16) (drop 16 s))"
  by pat_completeness auto
termination by (relation "measure (\<lambda>(off, s). length s)") auto

declare xxd_loop.simps [simp del]

definition run_xxd :: "('f, 're) sh_env \<Rightarrow> string list \<Rightarrow> 'f sw \<Rightarrow> 'f run" where
  "run_xxd E args w =
     (case read_one E (snd (parse_flags args)) w of
        (Inl e, w') \<Rightarrow> fail_with ''xxd'' e w'
      | (Inr b, w') \<Rightarrow> finish 0 (put_lines (xxd_loop 0 b) w'))"

end
