(* ===== verification/Mem_Files.thy ===== *)
theory Mem_Files
  imports Shell_Env "HOL-Library.List_Lexorder"
begin

text \<open>
  What a file system the applets are given is relied on for (\<open>fs_laws\<close>: the documented
  behaviour of \<^verbatim>\<open>afero.Fs\<close> on the files it holds), and two file systems in memory that have it:
  one by plain names, on which the witnesses of the development evaluate, and one that does with
  paths what \<^verbatim>\<open>MemMapFs\<close> does (paths are normalised, missing parents are made). The code brings
  its own: these are the hypotheses on it, and instances of them.
\<close>

text \<open>A path that reads well, and as what.\<close>

definition fs_holds :: "'f fs_ops \<Rightarrow> 'f \<Rightarrow> string \<Rightarrow> string \<Rightarrow> bool" where
  "fs_holds F fs p b = (fs_open F fs p = Inr (b, None))"

text \<open>
  Several paths may name one file (\<^verbatim>\<open>a/../b\<close> and \<^verbatim>\<open>b\<close>, a link and its target), and not every path
  is of a file that keeps what is written to it (a terminal, a pipe). A view of a file system says
  which: the file a path names, by some name of its own, and whether the path is of an ordinary
  file or of none yet. Of \<^verbatim>\<open>MemMapFs\<close> the name is the normalised path and every path is plain; of
  \<^verbatim>\<open>OsFs\<close> it is the place the path leads to, links followed, and a path is plain where it is of a
  regular file, or of none, that no other process writes to.
\<close>

record 'f fs_view =
  fv_node :: "'f \<Rightarrow> string \<Rightarrow> string"
  fv_plain :: "'f \<Rightarrow> string \<Rightarrow> bool"

text \<open>
  There is a file at \<open>p\<close>, and whoever can open it, by whatever path, reads \<open>b\<close>. (Whether it can
  be opened for reading is for its permission bits to say.)
\<close>

definition fs_text :: "'f fs_view \<Rightarrow> 'f fs_ops \<Rightarrow> 'f \<Rightarrow> string \<Rightarrow> string \<Rightarrow> bool" where
  "fs_text V F fs p b =
     (\<not> isl (fs_stat F fs p) \<and>
      (\<forall>q r. fv_node V fs q = fv_node V fs p \<and> fs_open F fs q = Inr r \<longrightarrow> r = (b, None)))"

text \<open>
  From \<open>fs\<close> to \<open>fs'\<close> only the files that the paths \<open>ps\<close> name have changed: every other plain file
  that could be read reads as it did. New directories may have come.
\<close>

definition only_at :: "'f fs_view \<Rightarrow> 'f fs_ops \<Rightarrow> string list \<Rightarrow> 'f \<Rightarrow> 'f \<Rightarrow> bool" where
  "only_at V F ps fs fs' =
     (fv_node V fs' = fv_node V fs \<and>
      (\<forall>q. fv_plain V fs q \<longrightarrow> fv_plain V fs' q) \<and>
      (\<forall>q b. fv_plain V fs q \<and> fv_node V fs q \<notin> fv_node V fs ` set ps \<longrightarrow>
         (fs_holds F fs q b \<longrightarrow> fs_holds F fs' q b) \<and> (fs_text V F fs q b \<longrightarrow> fs_text V F fs' q b)))"

text \<open>
  Opening with \<^verbatim>\<open>O_TRUNC\<close> empties the file and touches no other; a write adds to its end; a
  close changes nothing that a reader sees.
\<close>

definition fs_laws :: "'f fs_view \<Rightarrow> 'f fs_ops \<Rightarrow> bool" where
  "fs_laws V F =
     ((\<forall>fs p m fs'. fv_plain V fs p \<and> fs_trunc F fs p m = (fs', None) \<longrightarrow>
         fs_text V F fs' p [] \<and> only_at V F [p] fs fs') \<and>
      (\<forall>fs p b c fs'. fv_plain V fs p \<and> fs_text V F fs p c \<and> fs_append F fs p b = (fs', None) \<longrightarrow>
         fs_text V F fs' p (c @ b) \<and> only_at V F [p] fs fs') \<and>
      (\<forall>fs p fs' e. fs_close F fs p = (fs', e) \<longrightarrow> only_at V F [] fs fs'))"

lemma only_at_refl [simp]: "only_at V F ps fs fs"
  by (simp add: only_at_def)

lemma only_at_trans: "\<lbrakk>only_at V F ps a b; only_at V F qs b c\<rbrakk> \<Longrightarrow> only_at V F (ps @ qs) a c"
  unfolding only_at_def by (auto simp: image_Un)

lemma only_at_mono: "\<lbrakk>only_at V F ps a b; set ps \<subseteq> set qs\<rbrakk> \<Longrightarrow> only_at V F qs a b"
  unfolding only_at_def by blast

lemma only_at_node: "only_at V F ps fs fs' \<Longrightarrow> fv_node V fs' = fv_node V fs"
  by (simp add: only_at_def)

lemma only_at_plain: "\<lbrakk>only_at V F ps fs fs'; fv_plain V fs q\<rbrakk> \<Longrightarrow> fv_plain V fs' q"
  by (simp add: only_at_def)

lemma only_at_holds:
  "\<lbrakk>only_at V F ps fs fs'; fv_plain V fs q; fv_node V fs q \<notin> fv_node V fs ` set ps; fs_holds F fs q b\<rbrakk>
   \<Longrightarrow> fs_holds F fs' q b"
  by (simp add: only_at_def)

lemma only_at_text:
  "\<lbrakk>only_at V F ps fs fs'; fv_plain V fs q; fv_node V fs q \<notin> fv_node V fs ` set ps; fs_text V F fs q b\<rbrakk>
   \<Longrightarrow> fs_text V F fs' q b"
  by (simp add: only_at_def)

lemma fs_trunc_law:
  "\<lbrakk>fs_laws V F; fv_plain V fs p; fs_trunc F fs p m = (fs', None)\<rbrakk>
   \<Longrightarrow> fs_text V F fs' p [] \<and> only_at V F [p] fs fs'"
  unfolding fs_laws_def by blast

lemma fs_append_law:
  "\<lbrakk>fs_laws V F; fv_plain V fs p; fs_text V F fs p c; fs_append F fs p b = (fs', None)\<rbrakk>
   \<Longrightarrow> fs_text V F fs' p (c @ b) \<and> only_at V F [p] fs fs'"
  unfolding fs_laws_def by blast

lemma fs_close_law: "\<lbrakk>fs_laws V F; fs_close F fs p = (fs', e)\<rbrakk> \<Longrightarrow> only_at V F [] fs fs'"
  unfolding fs_laws_def by blast

lemma fs_text_open:
  "\<lbrakk>fs_text V F fs p b; fv_node V fs q = fv_node V fs p; fs_open F fs q = Inr r\<rbrakk> \<Longrightarrow> r = (b, None)"
  unfolding fs_text_def by blast

lemma fs_text_read: "fs_text V F fs p b \<Longrightarrow> fs_open F fs p = Inr r \<Longrightarrow> fs_read F fs p = Inr b"
  using fs_text_open [of V F fs p b p r] by (simp add: fs_read_def)

text \<open>What was opened empty, written and closed, all well, reads back, and the others are as they were.\<close>

lemma append_close_reads:
  assumes "fs_laws V F" "fv_plain V fs p" "fs_text V F fs1 p []" "only_at V F [p] fs fs1"
    "fs_append F fs1 p b = (fs2, None)" "fs_close F fs2 p = (fs3, e)"
  shows "fs_text V F fs3 p b \<and> only_at V F [p] fs fs3"
proof -
  have p1: "fv_plain V fs1 p" by (rule only_at_plain [OF assms(4,2)])
  from fs_append_law [OF assms(1) p1 assms(3,5)]
  have 2: "fs_text V F fs2 p b" "only_at V F [p] fs1 fs2" by simp_all
  have 3: "only_at V F [] fs2 fs3" by (rule fs_close_law [OF assms(1,6)])
  have "fs_text V F fs3 p b"
    by (rule only_at_text [OF 3 only_at_plain [OF 2(2) p1] _ 2(1)]) simp
  moreover have "only_at V F ([p] @ [p] @ []) fs fs3"
    by (intro only_at_trans [OF assms(4)] only_at_trans [OF 2(2)] 3)
  ultimately show ?thesis by (auto intro: only_at_mono)
qed

lemma fs_write_reads:
  assumes "fs_laws V F" "fv_plain V fs p" "fs_write F fs p b m = (fs', None)"
  shows "fs_text V F fs' p b \<and> only_at V F [p] fs fs'"
proof -
  obtain fs1 where t: "fs_trunc F fs p m = (fs1, None)"
    using assms(3) by (auto simp: fs_write_def split: prod.splits option.splits)
  obtain fs2 e2 where a: "fs_append F fs1 p b = (fs2, e2)" by fastforce
  obtain fs3 e3 where c: "fs_close F fs2 p = (fs3, e3)" by fastforce
  have e: "e2 = None" "fs' = fs3"
    using assms(3) by (auto simp: fs_write_def t a c split: if_splits)
  have "fs_text V F fs1 p [] \<and> only_at V F [p] fs fs1" by (rule fs_trunc_law [OF assms(1,2) t])
  with append_close_reads [OF assms(1,2) _ _ a [unfolded e(1)] c] show ?thesis by (simp add: e(2))
qed

lemma fs_holds_read: "fs_holds F fs p b \<Longrightarrow> fs_read F fs p = Inr b"
  by (simp add: fs_holds_def fs_read_def)

subsection \<open>An instance: files and directories by their names\<close>

text \<open>A path is a file with its bytes or a directory (\<open>None\<close>).\<close>

type_synonym mem_fs = "(string \<times> string option) list"

definition mem_put :: "string \<Rightarrow> string option \<Rightarrow> mem_fs \<Rightarrow> mem_fs" where
  "mem_put p x fs = (p, x) # filter (\<lambda>e. fst e \<noteq> p) fs"

definition mem_info :: "string \<Rightarrow> string option \<Rightarrow> fs_info" where
  "mem_info p x = \<lparr>fi_name = path_base p, fi_dir = (x = None),
     fi_size = (case x of None \<Rightarrow> 0 | Some b \<Rightarrow> int (length b)), fi_perm = 420,
     fi_mode = ''-rw-r--r--'', fi_time = ''2024-01-01 00:00:00''\<rparr>"

definition mem_ops :: "mem_fs fs_ops" where
  "mem_ops = \<lparr>
     fs_stat = (\<lambda>fs p. case map_of fs p of None \<Rightarrow> Inl ''no such file'' | Some x \<Rightarrow> Inr (mem_info p x)),
     fs_open = (\<lambda>fs p. case map_of fs p of Some (Some b) \<Rightarrow> Inr (b, None) | _ \<Rightarrow> Inl ''no such file''),
     fs_list = (\<lambda>fs p. case map_of fs p of
        Some None \<Rightarrow> Inr (map (\<lambda>e. mem_info (fst e) (snd e))
          (sort_key (\<lambda>e. map byte_of (fst e)) (filter (\<lambda>e. path_dir (fst e) = p \<and> fst e \<noteq> p) fs)))
      | _ \<Rightarrow> Inl ''not a directory''),
     fs_walk = (\<lambda>fs p. (map (\<lambda>e. (fst e, Inr (mem_info (fst e) (snd e))))
        (sort_key (\<lambda>e. map byte_of (fst e)) (filter (\<lambda>e. has_prefix (fst e) p) fs)), None)),
     fs_mkdir = (\<lambda>fs p m. (mem_put p None fs, None)),
     fs_mkdir_all = (\<lambda>fs p m. (if map_of fs p = None then mem_put p None fs else fs, None)),
     fs_remove = (\<lambda>fs p. (filter (\<lambda>e. fst e \<noteq> p) fs, None)),
     fs_remove_all = (\<lambda>fs p. (filter (\<lambda>e. \<not> has_prefix (fst e) p) fs, None)),
     fs_rename = (\<lambda>fs p q. case map_of fs p of
        None \<Rightarrow> (fs, Some ''no such file'')
      | Some x \<Rightarrow> (mem_put q x (filter (\<lambda>e. fst e \<noteq> p) fs), None)),
     fs_create = (\<lambda>fs p. (mem_put p (Some []) fs, None)),
     fs_trunc = (\<lambda>fs p m. (mem_put p (Some []) fs, None)),
     fs_append = (\<lambda>fs p b. case map_of fs p of
        Some (Some c) \<Rightarrow> (mem_put p (Some (c @ b)) fs, None)
      | _ \<Rightarrow> (fs, Some ''not open'')),
     fs_close = (\<lambda>fs p. (fs, None)),
     fs_chmod = (\<lambda>fs p m. (fs, None)),
     fs_chtimes = (\<lambda>fs p. (fs, None))\<rparr>"

lemma map_of_filter_neq: "q \<noteq> p \<Longrightarrow> map_of (filter (\<lambda>e. fst e \<noteq> p) fs) q = map_of fs q"
  by (induction fs) auto

lemma map_of_mem_put: "map_of (mem_put p x fs) q = (if q = p then Some x else map_of fs q)"
  by (simp add: mem_put_def map_of_filter_neq)

lemma mem_stat:
  "fs_stat mem_ops fs p =
     (case map_of fs p of None \<Rightarrow> Inl ''no such file'' | Some x \<Rightarrow> Inr (mem_info p x))"
  by (simp add: mem_ops_def)

lemma mem_open:
  "fs_open mem_ops fs p =
     (case map_of fs p of Some (Some b) \<Rightarrow> Inr (b, None) | _ \<Rightarrow> Inl ''no such file'')"
  by (simp add: mem_ops_def)

text \<open>Here a path is the name of a file, and every file is a plain one.\<close>

definition mem_view :: "mem_fs fs_view" where
  "mem_view = \<lparr>fv_node = (\<lambda>fs p. p), fv_plain = (\<lambda>fs p. True)\<rparr>"

lemma mem_view_simps [simp]: "fv_node mem_view fs p = p" "fv_plain mem_view fs p"
  by (simp_all add: mem_view_def)

lemma mem_holds: "fs_holds mem_ops fs p b = (map_of fs p = Some (Some b))"
  by (auto simp: fs_holds_def mem_open split: option.splits)

lemma mem_text:
  "fs_text mem_view mem_ops fs p b = (map_of fs p = Some None \<or> map_of fs p = Some (Some b))"
  by (auto simp: fs_text_def mem_stat mem_open split: option.splits)

lemma mem_ops_step:
  "fs_trunc mem_ops fs p m = (mem_put p (Some []) fs, None)"
  "fs_append mem_ops fs p b = (case map_of fs p of
     Some (Some c) \<Rightarrow> (mem_put p (Some (c @ b)) fs, None) | _ \<Rightarrow> (fs, Some ''not open''))"
  "fs_close mem_ops fs p = (fs, None)"
  by (simp_all add: mem_ops_def)

lemma mem_only_at:
  assumes "\<And>q. q \<notin> set ps \<Longrightarrow> map_of fs q \<noteq> None \<Longrightarrow> map_of fs' q = map_of fs q"
  shows "only_at mem_view mem_ops ps fs fs'"
  unfolding only_at_def by (auto simp: mem_view_def mem_holds mem_text [unfolded mem_view_def] assms)

lemma mem_ops_laws: "fs_laws mem_view mem_ops"
  unfolding fs_laws_def
  by (auto simp: mem_ops_step mem_text map_of_mem_put intro!: mem_only_at split: option.splits if_splits)

subsection \<open>Another instance: normalised paths, and parents made\<close>

text \<open>
  What \<^verbatim>\<open>MemMapFs\<close> does with paths: it normalises them, and registers a new file with its
  parent, which it makes, and its parent's, where there is none. A directory reads as empty. The
  other operations are those of the file system above.
\<close>

definition map_norm :: "string \<Rightarrow> string" where
  "map_norm p = (if p = [] then [] else let c = path_clean p in
     if c = ''.'' \<or> c = ''..'' then ''/'' else if has_prefix c ''/'' then c else ''/'' @ c)"

fun map_parents :: "nat \<Rightarrow> string \<Rightarrow> mem_fs \<Rightarrow> mem_fs" where
  "map_parents 0 p fs = fs"
| "map_parents (Suc k) p fs = (let d = map_norm (path_dir p) in
     if map_of fs d \<noteq> None then fs else map_parents k d (mem_put d None fs))"

definition mapfs_ops :: "mem_fs fs_ops" where
  "mapfs_ops = mem_ops\<lparr>
     fs_stat := (\<lambda>fs p. fs_stat mem_ops fs (map_norm p)),
     fs_open := (\<lambda>fs p. case map_of fs (map_norm p) of
        None \<Rightarrow> Inl ''no such file'' | Some None \<Rightarrow> Inr ([], None) | Some (Some b) \<Rightarrow> Inr (b, None)),
     fs_trunc := (\<lambda>fs p m. let q = map_norm p in (case map_of fs q of
        None \<Rightarrow> map_parents (length q) q (mem_put q (Some []) fs)
      | Some None \<Rightarrow> fs
      | Some (Some b) \<Rightarrow> mem_put q (Some []) fs, None)),
     fs_append := (\<lambda>fs p b. fs_append mem_ops fs (map_norm p) b)\<rparr>"

definition mapfs_view :: "mem_fs fs_view" where
  "mapfs_view = \<lparr>fv_node = (\<lambda>fs p. map_norm p), fv_plain = (\<lambda>fs p. True)\<rparr>"

lemma map_parents_keep: "map_of fs q = Some x \<Longrightarrow> map_of (map_parents k p fs) q = Some x"
proof (induction k p fs rule: map_parents.induct)
  case (2 k p fs)
  show ?case
  proof (cases "map_of fs (map_norm (path_dir p)) = None")
    case True
    with 2(2) have "q \<noteq> map_norm (path_dir p)" by auto
    with 2 True show ?thesis by (simp add: Let_def map_of_mem_put)
  qed (use 2(2) in \<open>simp add: Let_def\<close>)
qed simp

lemma mapfs_simps:
  "fs_stat mapfs_ops fs p = fs_stat mem_ops fs (map_norm p)"
  "fs_open mapfs_ops fs p = (case map_of fs (map_norm p) of
     None \<Rightarrow> Inl ''no such file'' | Some None \<Rightarrow> Inr ([], None) | Some (Some b) \<Rightarrow> Inr (b, None))"
  "fs_trunc mapfs_ops fs p m = (let q = map_norm p in (case map_of fs q of
        None \<Rightarrow> map_parents (length q) q (mem_put q (Some []) fs)
      | Some None \<Rightarrow> fs
      | Some (Some b) \<Rightarrow> mem_put q (Some []) fs, None))"
  "fs_append mapfs_ops fs p b = fs_append mem_ops fs (map_norm p) b"
  "fs_close mapfs_ops fs p = (fs, None)"
  "fv_node mapfs_view fs p = map_norm p" "fv_plain mapfs_view fs p"
  by (simp_all add: mapfs_ops_def mapfs_view_def mem_ops_step)

lemma mapfs_text: "fs_text mapfs_view mapfs_ops fs p b =
    (map_of fs (map_norm p) = Some (Some b) \<or> map_of fs (map_norm p) = Some None \<and> b = [])"
proof (cases "map_of fs (map_norm p)")
  case (Some x)
  then show ?thesis by (cases x) (auto simp: fs_text_def mapfs_simps mem_stat split: option.splits)
qed (auto simp: fs_text_def mapfs_simps mem_stat)

lemma mapfs_only_at:
  assumes "\<And>q x. q \<noteq> map_norm p \<Longrightarrow> map_of fs q = Some x \<Longrightarrow> map_of fs' q = Some x"
  shows "only_at mapfs_view mapfs_ops [p] fs fs'"
proof -
  have "fs_open mapfs_ops fs' q = fs_open mapfs_ops fs q"
    if "fs_open mapfs_ops fs q = Inr r" "map_norm q \<noteq> map_norm p" for q r
    using that assms by (auto simp: mapfs_simps split: option.splits)
  moreover have "fs_text mapfs_view mapfs_ops fs' q b"
    if "fs_text mapfs_view mapfs_ops fs q b" "map_norm q \<noteq> map_norm p" for q b
    using that assms by (auto simp: mapfs_text)
  ultimately show ?thesis by (simp add: only_at_def mapfs_view_def fs_holds_def)
qed

lemma mapfs_laws: "fs_laws mapfs_view mapfs_ops"
proof -
  have t: "fs_text mapfs_view mapfs_ops fs' p [] \<and> only_at mapfs_view mapfs_ops [p] fs fs'"
    if "fs_trunc mapfs_ops fs p m = (fs', None)" for fs p m fs'
  proof
    show "fs_text mapfs_view mapfs_ops fs' p []"
      using that by (auto simp: mapfs_simps mapfs_text Let_def map_of_mem_put intro!: map_parents_keep
          split: option.splits)
    show "only_at mapfs_view mapfs_ops [p] fs fs'"
      using that by (intro mapfs_only_at)
        (auto simp: mapfs_simps Let_def map_of_mem_put intro!: map_parents_keep split: option.splits)
  qed
  have a: "fs_text mapfs_view mapfs_ops fs' p (c @ b) \<and> only_at mapfs_view mapfs_ops [p] fs fs'"
    if "fs_text mapfs_view mapfs_ops fs p c" "fs_append mapfs_ops fs p b = (fs', None)" for fs p b c fs'
  proof
    show "fs_text mapfs_view mapfs_ops fs' p (c @ b)"
      using that by (auto simp: mapfs_simps mapfs_text mem_ops_step map_of_mem_put split: option.splits)
    show "only_at mapfs_view mapfs_ops [p] fs fs'"
      using that by (intro mapfs_only_at) (auto simp: mapfs_simps mem_ops_step map_of_mem_put split: option.splits)
  qed
  have "only_at mapfs_view mapfs_ops [] fs fs'" if "fs_close mapfs_ops fs p = (fs', e)" for fs p fs' e
    using that by (simp add: mapfs_simps)
  with t a show ?thesis unfolding fs_laws_def by blast
qed

definition demo_env :: "(mem_fs, rx \<times> nat) sh_env" where
  "demo_env = \<lparr>se_ops = mem_ops, se_dir = ''/home/user'', se_re = rx_lib,
     se_b64_err = (\<lambda>s. ''illegal base64 data'')\<rparr>"

definition demo_world :: "mem_fs \<Rightarrow> string \<Rightarrow> mem_fs sw" where
  "demo_world fs inp = \<lparr>sw_fs = fs, sw_in = (inp, None), sw_out = [], sw_err = []\<rparr>"

end
