(* ===== verification/Text_Applets_Correct.thy ===== *)
theory Text_Applets_Correct
  imports Text_Applets Mem_Files
begin

text \<open>
  What the text applets compute: counts stay in range, sort sorts stably, uniq's groups
  spell out its input, seq ends where its sum does not overflow, tr, base64, tac and xxd
  undo themselves, and grep's output is the lines that match.
\<close>

subsection \<open>head and tail stay in range\<close>

lemma parse_flags_suffix: "set (snd (parse_flags as)) \<subseteq> set as"
  by (induction as) (auto split: prod.splits if_splits)

lemma atoi_negative:
  assumes "atoi a = Some v" "v < 0"
  shows "\<exists>cs. a = CHR ''-'' # cs \<and> cs \<noteq> [] \<and> list_all is_digit cs"
proof -
  obtain c cs where a: "a = c # cs" using assms(1) by (cases a) (simp_all add: atoi_def)
  have nonneg: "0 \<le> p" if "parse_uint s lim = Some p" for s lim p
    using that digits_val_nonneg [of s 0] by (simp add: parse_uint_def split: if_splits)
  have "c = CHR ''-''"
  proof (rule ccontr)
    assume "c \<noteq> CHR ''-''"
    then show False
      using assms by (auto simp: a atoi_def split: if_splits dest!: nonneg)
  qed
  with assms show ?thesis
    by (auto simp: a atoi_def parse_uint_def split: if_splits)
qed

lemma digit_bytes: "n < 10 \<Longrightarrow> chr_of (48 + n) \<in> set ''0123456789''"
proof -
  have "list_all (\<lambda>n. chr_of (48 + n) \<in> set ''0123456789'') [0..<10]" by code_simp
  then show "n < 10 \<Longrightarrow> chr_of (48 + n) \<in> set ''0123456789''"
    unfolding list_all_iff by (metis atLeastLessThan_iff le0 set_upt)
qed

lemma is_digit_mem: "is_digit c \<longleftrightarrow> c \<in> set ''0123456789''"
proof
  assume "is_digit c"
  then have "48 + (byte_of c - 48) = byte_of c" "byte_of c - 48 < 10"
    unfolding is_digit_def by linarith+
  then show "c \<in> set ''0123456789''"
    using digit_bytes [of "byte_of c - 48"] by (simp only: chr_of_byte_of)
next
  assume "c \<in> set ''0123456789''"
  then show "is_digit c" by (auto simp: is_digit_def)
qed

lemma trim_digits: "trim_chars cs ''0123456789'' = [] \<longleftrightarrow> list_all is_digit cs"
  unfolding trim_chars_Nil list_all_iff is_digit_mem by blast

text \<open>A count that \<^verbatim>\<open>countArgs\<close> has let through is never negative.\<close>

lemma count_args_nonneg:
  assumes "a \<in> set (count_args args)" "atoi a = Some v"
  shows "0 \<le> v"
proof (rule ccontr)
  assume "\<not> 0 \<le> v"
  then obtain cs where cs: "a = CHR ''-'' # cs" "cs \<noteq> []" "list_all is_digit cs"
    using atoi_negative assms(2) by force
  have n: "CHR ''n'' \<notin> set cs"
    using cs(3) by (auto simp: list_all_iff is_digit_def)
  then have num: "trim_prefix (trim_prefix a ''-'') ''n'' = cs"
    using cs by (cases cs) (auto simp: trim_prefix_def has_prefix_def)
  have bad: "trim_chars cs ''0123456789'' = []" "1 < length a" "a ! 0 = CHR ''-''"
    using cs by (auto simp: trim_digits neq_Nil_conv)
  define num where "num = (\<lambda>b. trim_prefix (trim_prefix b ''-'') ''n'')"
  from assms(1) obtain b where b: "b \<in> set args"
    "a \<in> set (if 1 < length b \<and> b ! 0 = CHR ''-'' \<and> num b \<noteq> [] \<and> trim_chars (num b) ''0123456789'' = []
       then [''-n'', num b] else [b])"
    unfolding count_args_def Let_def num_def set_concat set_map by blast
  have not_n: "a \<noteq> ''-n''" using cs(1) n by auto
  have not_num: "trim_chars a ''0123456789'' \<noteq> []"
    using cs(1) by (simp add: trim_digits is_digit_def)
  have "num a = cs" using num by (simp add: num_def)
  with bad cs(2) b(2) not_n not_num show False
    by (auto split: if_splits)
qed

lemma head_tail_count_nonneg:
  "0 \<le> fst (head_tail_count fl (snd (parse_flags (count_args args))))"
proof -
  have "0 \<le> v" if "snd (parse_flags (count_args args)) = r # rs" "atoi r = Some v" for r rs v
    using that parse_flags_suffix [of "count_args args"] count_args_nonneg
    by (metis list.set_intros(1) subset_code(1))
  then show ?thesis
    by (auto simp: head_tail_count_def split: list.splits option.splits)
qed

lemma head_tail_in_bounds: "run_head E args w \<noteq> None \<and> run_tail E args w \<noteq> None"
proof -
  obtain fl rest0 where p: "parse_flags (count_args args) = (fl, rest0)" by fastforce
  obtain n rest where h: "head_tail_count fl rest0 = (n, rest)" by fastforce
  have "0 \<le> n" using head_tail_count_nonneg [of fl args] by (simp add: p h)
  then show ?thesis
    by (auto simp: run_head_def run_tail_def p h head_slice_def tail_slice_def fail_with_def
        finish_def split: prod.splits sum.splits)
qed

text \<open>
  C38. \<^verbatim>\<open>head\<close> and \<^verbatim>\<open>tail\<close> never slice out of range, whatever arguments and input they are
  given: \<^verbatim>\<open>lines[:n]\<close> and \<^verbatim>\<open>lines[len(lines)-n:]\<close> have a count that is not negative, because
  \<^verbatim>\<open>countArgs\<close> turns every argument that reads as a negative number into a flag.
\<close>

theorem head_tail_in_range: "run_head E args w \<noteq> None \<and> run_tail E args w \<noteq> None"
  by (rule head_tail_in_bounds)

subsection \<open>sort\<close>

definition line_le :: "char list \<Rightarrow> string \<Rightarrow> string \<Rightarrow> bool" where
  "line_le fl a b =
     (let (a', b') = (if CHR ''r'' \<in> set fl then (b, a) else (a, b)) in
      if CHR ''n'' \<in> set fl then numeric_key a' \<le> numeric_key b'
      else map byte_of a' \<le> map byte_of b')"

lemma sort_lines_mset: "mset (sort_lines fl ls) = mset ls"
  by (simp add: sort_lines_def sort_strings_def Let_def)

lemma sorted_by_key: "sorted_wrt (\<lambda>a b. f a \<le> f b) (sort_key f ls)"
  using sorted_sort_key [of f ls] by (simp add: sorted_wrt_map)

lemma sort_lines_sorted: "sorted_wrt (line_le fl) (sort_lines fl ls)"
  by (auto simp: sort_lines_def sort_strings_def line_le_def [abs_def] Let_def sorted_wrt_rev
      sorted_by_key)

lemma sort_lines_stable:
  assumes "CHR ''n'' \<in> set fl"
  shows "filter (\<lambda>l. numeric_key l = k) (sort_lines fl ls) =
    (if CHR ''r'' \<in> set fl then rev else id) (filter (\<lambda>l. numeric_key l = k) ls)"
  using assms sort_key_stable [of numeric_key k ls]
  by (simp add: sort_lines_def Let_def rev_filter [symmetric])

text \<open>
  C22. \<^verbatim>\<open>sort\<close> writes its input's lines, each as often as it came, in order: by their bytes, or
  with \<^verbatim>\<open>-n\<close> by the number they hold, which keeps the order of lines of the same number; with
  \<^verbatim>\<open>-r\<close> the other way round.
\<close>

theorem sort_correct:
  assumes "read_lines E (snd (parse_flags args)) w = (Inr ls, w')"
  shows "\<exists>ls'. run_sort E args w = Some (0, put_lines ls' w') \<and> mset ls' = mset ls \<and>
    sorted_wrt (line_le (fst (parse_flags args))) ls' \<and>
    (CHR ''n'' \<in> set (fst (parse_flags args)) \<longrightarrow>
      (\<forall>k. filter (\<lambda>l. numeric_key l = k) ls' =
        (if CHR ''r'' \<in> set (fst (parse_flags args)) then rev else id)
          (filter (\<lambda>l. numeric_key l = k) ls)))"
proof -
  have "run_sort E args w = Some (0, put_lines (sort_lines (fst (parse_flags args)) ls) w')"
    using assms by (auto simp: run_sort_def finish_def split: prod.splits)
  then show ?thesis
    using sort_lines_mset sort_lines_sorted sort_lines_stable by blast
qed

theorem sort_correct_witness:
  "\<exists>ls'. run_sort demo_env [''-nr''] (demo_world [] (lines_text [''9 a'', ''10'', ''9 b''])) =
      Some (0, put_lines ls' (demo_world [] [])) \<and> mset ls' = mset [''9 a'', ''10'', ''9 b'']"
proof -
  have "read_lines demo_env (snd (parse_flags [''-nr''])) (demo_world [] (lines_text [''9 a'', ''10'', ''9 b''])) =
      (Inr [''9 a'', ''10'', ''9 b''], demo_world [] [])"
    by code_simp
  from sort_correct [OF this] show ?thesis by blast
qed

subsection \<open>uniq\<close>

text \<open>The runs of equal lines, with their lengths.\<close>

fun line_runs :: "string \<Rightarrow> int \<Rightarrow> string list \<Rightarrow> (int \<times> string) list" where
  "line_runs prev n [] = (if n = 0 then [] else [(n, prev)])"
| "line_runs prev n (l # ls) =
     (if 0 < n \<and> l = prev then line_runs prev (n + 1) ls
      else (if n = 0 then [] else [(n, prev)]) @ line_runs l 1 ls)"

definition uniq_line :: "char list \<Rightarrow> int \<times> string \<Rightarrow> string" where
  "uniq_line fl g = (if CHR ''c'' \<in> set fl then fmt_int 7 (fst g) @ '' '' @ snd g else snd g)"

lemma uniq_loop_runs:
  "uniq_loop fl prev n ls w = put_lines (map (uniq_line fl) (line_runs prev n ls)) w"
  by (induction ls arbitrary: prev n w)
    (simp_all add: uniq_flush_def put_lines_def uniq_line_def)

lemma line_runs_spell:
  "0 \<le> n \<Longrightarrow> concat (map (\<lambda>g. replicate (nat (fst g)) (snd g)) (line_runs prev n ls)) =
    replicate (nat n) prev @ ls"
proof (induction ls arbitrary: prev n)
  case (Cons l ls)
  then show ?case
    by (auto simp: nat_add_distrib replicate_append_same [symmetric])
qed simp

lemma line_runs_adj: "0 < n \<Longrightarrow> map snd (line_runs prev n ls) = remdups_adj (prev # ls)"
  by (induction ls arbitrary: prev n) simp_all

lemma line_runs_start: "map snd (line_runs prev 0 ls) = remdups_adj ls"
  by (cases ls) (simp_all add: line_runs_adj)

lemma line_runs_pos: "0 \<le> n \<Longrightarrow> list_all (\<lambda>g. 0 < fst g) (line_runs prev n ls)"
  by (induction ls arbitrary: prev n) auto

text \<open>
  \<^verbatim>\<open>uniq\<close> writes one line for each run of equal lines of its input, with \<^verbatim>\<open>-c\<close> the length of
  the run before it: the runs spell out the input, none is empty, and two runs side by side
  are of different lines.
\<close>

lemma uniq_writes_runs:
  assumes "read_lines E (snd (parse_flags args)) w = (Inr ls, w')"
  shows "\<exists>gs. run_uniq E args w = Some (0, put_lines (map (uniq_line (fst (parse_flags args))) gs) w') \<and>
    concat (map (\<lambda>g. replicate (nat (fst g)) (snd g)) gs) = ls \<and>
    list_all (\<lambda>g. 0 < fst g) gs \<and> map snd gs = remdups_adj ls"
proof -
  have "run_uniq E args w =
      Some (0, put_lines (map (uniq_line (fst (parse_flags args))) (line_runs [] 0 ls)) w')"
    using assms by (auto simp: run_uniq_def finish_def uniq_loop_runs split: prod.splits)
  moreover have "map snd (line_runs [] 0 ls) = remdups_adj ls"
    by (rule line_runs_start)
  ultimately show ?thesis
    using line_runs_spell [of 0 "[]" ls] line_runs_pos [of 0 "[]" ls] by auto
qed

lemma uniq_writes_runs_witness:
  "\<exists>gs. run_uniq demo_env [''-c''] (demo_world [] (lines_text [''a'', ''a'', ''b''])) =
      Some (0, put_lines (map (uniq_line (fst (parse_flags [''-c'']))) gs) (demo_world [] [])) \<and>
    map snd gs = remdups_adj [''a'', ''a'', ''b'']"
proof -
  have "read_lines demo_env (snd (parse_flags [''-c''])) (demo_world [] (lines_text [''a'', ''a'', ''b''])) =
      (Inr [''a'', ''a'', ''b''], demo_world [] [])"
    by code_simp
  from uniq_writes_runs [OF this] show ?thesis by blast
qed

subsection \<open>seq\<close>

text \<open>The numbers from the first on, by the increment, up to the last.\<close>

definition seq_numbers :: "int \<Rightarrow> int \<Rightarrow> int \<Rightarrow> int list" where
  "seq_numbers f i l =
     map (\<lambda>k. f + int k * i)
       [0..<(if 0 < i then (if f \<le> l then nat ((l - f) div i) + 1 else 0)
             else (if l \<le> f then nat ((f - l) div (- i)) + 1 else 0))]"

lemma seq_numbers_step:
  assumes "0 < i \<and> f \<le> l \<or> i < 0 \<and> l \<le> f"
  shows "seq_numbers f i l = f # seq_numbers (f + i) i l"
proof -
  have step: "map (\<lambda>k. f + int k * i) [0..<Suc n] = f # map (\<lambda>k. (f + i) + int k * i) [0..<n]" for n
    by (simp add: upt_conv_Cons map_Suc_upt [symmetric] comp_def algebra_simps del: upt_Suc)
  have up: "nat ((l - f) div i) = (if f + i \<le> l then nat ((l - (f + i)) div i) + 1 else 0)"
    if "0 < i" "f \<le> l"
  proof (cases "f + i \<le> l")
    case True
    have "(l - f) div i = (l - (f + i)) div i + 1"
      using that(1) div_add_self2 [of i "l - (f + i)"] by (simp add: algebra_simps)
    moreover have "0 \<le> (l - (f + i)) div i"
      using True that by (simp add: pos_imp_zdiv_nonneg_iff)
    ultimately show ?thesis using True by (simp add: nat_add_distrib)
  next
    case False
    with that show ?thesis by (simp add: div_pos_pos_trivial)
  qed
  have down: "nat ((f - l) div (- i)) = (if l \<le> f + i then nat ((f + i - l) div (- i)) + 1 else 0)"
    if "i < 0" "l \<le> f"
  proof (cases "l \<le> f + i")
    case True
    have "(f - l) div (- i) = (f + i - l) div (- i) + 1"
      using that(1) div_add_self2 [of "- i" "f + i - l"] by (simp add: algebra_simps)
    moreover have "0 \<le> (f + i - l) div (- i)"
      using True that by (subst pos_imp_zdiv_nonneg_iff) simp_all
    ultimately show ?thesis using True by (simp add: nat_add_distrib)
  next
    case False
    with that show ?thesis by (simp add: div_pos_pos_trivial)
  qed
  show ?thesis
  proof (cases "0 < i")
    case True
    then have "f \<le> l" using assms by simp
    with True up show ?thesis
      unfolding seq_numbers_def by (simp add: step del: upt_Suc)
  next
    case False
    then have "i < 0" "l \<le> f" using assms by auto
    with down show ?thesis
      unfolding seq_numbers_def by (simp add: step del: upt_Suc)
  qed
qed

lemma seq_numbers_stop: "\<lbrakk>0 < i \<longrightarrow> l < f; i < 0 \<longrightarrow> f < l; i \<noteq> 0\<rbrakk> \<Longrightarrow> seq_numbers f i l = []"
  by (auto simp: seq_numbers_def)

text \<open>The loop ends where the sum past the last number is still in range.\<close>

lemma seq_loop_prints:
  assumes "i \<noteq> 0" "- (2 ^ 63) \<le> f" "f < 2 ^ 63" "- (2 ^ 63) \<le> l + i" "l + i < 2 ^ 63"
  shows "seq_loop i l f w = Some (put_lines (map itoa (seq_numbers f i l)) w)"
  using assms
proof (induction "if 0 < i then nat (l - f + 1) else nat (f - l + 1)" arbitrary: f w rule: less_induct)
  case less
  show ?case
  proof (cases "0 < i \<and> f \<le> l \<or> i < 0 \<and> l \<le> f")
    case True
    have wrap: "wrap64 (f + i) = f + i"
      using True less.prems by (intro wrap64_id) linarith+
    have "seq_loop i l (f + i) (put_ln (itoa f) w) =
        Some (put_lines (map itoa (seq_numbers (f + i) i l)) (put_ln (itoa f) w))"
      using True less.prems by (intro less.hyps) auto
    then show ?thesis
      using True by (subst seq_loop.simps)
        (simp add: wrap seq_numbers_step [OF True] put_lines_def)
  next
    case False
    then have "seq_numbers f i l = []"
      using less.prems(1) by (intro seq_numbers_stop) auto
    with False show ?thesis
      by (subst seq_loop.simps) (auto simp: put_lines_def)
  qed
qed

text \<open>At the end of the range it never does: every number is at most the greatest one.\<close>

lemma seq_never_ends: "i \<le> max_int \<Longrightarrow> seq_loop 1 max_int i w = None"
proof (rule ccontr)
  assume "i \<le> max_int" "seq_loop 1 max_int i w \<noteq> None"
  then obtain w' where w': "seq_loop 1 max_int i w = Some w'" by auto
  have "(1 :: int) = 1 \<longrightarrow> max_int = max_int \<longrightarrow> max_int < i"
  proof (rule seq_loop.raw_induct [where P = "\<lambda>inc fin i w w'. inc = 1 \<longrightarrow> fin = max_int \<longrightarrow> max_int < i",
        OF _ w'])
    fix loop inc fin j v v'
    assume IH: "\<And>inc fin j v v'. loop inc fin j v = Some v' \<Longrightarrow> inc = 1 \<longrightarrow> fin = max_int \<longrightarrow> max_int < j"
      and body: "(if 0 < inc \<and> j \<le> fin \<or> inc < 0 \<and> fin \<le> j
        then loop inc fin (wrap64 (j + inc)) (put_ln (itoa j) v) else Some v) = Some v'"
    show "inc = 1 \<longrightarrow> fin = max_int \<longrightarrow> max_int < j"
    proof (intro impI, rule ccontr)
      assume eq: "inc = 1" "fin = max_int" "\<not> max_int < j"
      with body have "loop 1 max_int (wrap64 (j + 1)) (put_ln (itoa j) v) = Some v'" by simp
      from IH [OF this] show False
        using wrap64_bounds [of "j + 1"] by (simp add: max_int_def)
    qed
  qed
  with \<open>i \<le> max_int\<close> show False by simp
qed

text \<open>
  \<^verbatim>\<open>seq\<close> ends and writes exactly the numbers from the first to the last by the increment,
  provided the last plus the increment is a 64-bit integer; its loop adds with wrap-around, and
  without that it may write for ever (\<open>seq_never_ends\<close>).
\<close>

lemma seq_ends:
  assumes "seq_params (snd (parse_flags args)) = Some (Some f, Some i, Some l)" "i \<noteq> 0"
    "- (2 ^ 63) \<le> l + i" "l + i < 2 ^ 63"
  shows "run_seq args w = Some (0, put_lines (map itoa (seq_numbers f i l)) w)"
proof -
  have bounds: "- (2 ^ 63) \<le> v \<and> v < 2 ^ 63" if "atoi s = Some v" for s v
  proof -
    have "0 \<le> p \<and> p < lim" if "parse_uint t lim = Some p" for t lim p
      using that digits_val_nonneg [of t 0] by (auto simp: parse_uint_def split: if_splits)
    from this [of _ "2 ^ 63 + 1"] this [of _ "2 ^ 63"] that show ?thesis
      by (fastforce simp: atoi_def split: list.splits if_splits)
  qed
  have "f = 1 \<or> (\<exists>s. atoi s = Some f)"
    using assms(1) by (auto simp: seq_params_def split: list.splits)
  then have "- (2 ^ 63) \<le> f" "f < 2 ^ 63"
    using bounds by auto
  with assms show ?thesis
    by (simp add: run_seq_def seq_loop_prints)
qed

lemma seq_ends_witness:
  "run_seq [''1'', ''2'', ''6''] (demo_world [] []) =
     Some (0, put_lines (map itoa (seq_numbers 1 2 6)) (demo_world [] [])) \<and>
   seq_numbers 1 2 6 = [1, 3, 5]"
proof -
  have "seq_params (snd (parse_flags [''1'', ''2'', ''6''])) = Some (Some 1, Some 2, Some 6)"
    by code_simp
  from seq_ends [OF this] have
    "run_seq [''1'', ''2'', ''6''] (demo_world [] []) =
      Some (0, put_lines (map itoa (seq_numbers 1 2 6)) (demo_world [] []))" by simp
  moreover have "seq_numbers 1 2 6 = [1, 3, 5]" by (simp add: seq_numbers_def upt_rec)
  ultimately show ?thesis by simp
qed

subsection \<open>Pipelines: tr, base64, tac, head and tail\<close>

text \<open>The next command of a pipeline reads what this one wrote.\<close>

definition next_stage :: "'f sw \<Rightarrow> 'f sw" where
  "next_stage w = w\<lparr>sw_in := (sw_out w, None), sw_out := []\<rparr>"

lemma tr_map_zip:
  assumes "distinct s1" "length s1 = length s2"
  shows "tr_map s1 s2 = map_of (zip s1 s2)"
proof -
  have d: "distinct (map fst (zip s1 s2))" using assms by simp
  have "map_of (rev (zip s1 s2)) = map_of (zip s1 s2)"
    using d by (intro map_of_eqI) (simp_all add: rev_map [symmetric] map_of_eq_Some_iff
      option.expand, metis (no_types, lifting) distinct_rev map_of_eq_Some_iff not_None_eq rev_map set_rev)
  then show ?thesis
    using assms(2) by (cases "s2 = []") (simp_all add: tr_map_def)
qed

definition tr_rune :: "rune list \<Rightarrow> rune list \<Rightarrow> rune \<Rightarrow> rune" where
  "tr_rune s1 s2 r = (case tr_map s1 s2 r of Some q \<Rightarrow> q | None \<Rightarrow> r)"

lemma tr_rune_back:
  assumes "distinct s1" "distinct s2" "length s1 = length s2" "r \<in> set s1 \<or> r \<notin> set s2"
  shows "tr_rune s2 s1 (tr_rune s1 s2 r) = r"
proof (cases "r \<in> set s1")
  case True
  then obtain i where i: "i < length s1" "r = s1 ! i" by (auto simp: in_set_conv_nth)
  then have "map_of (zip s1 s2) r = Some (s2 ! i)" "map_of (zip s2 s1) (s2 ! i) = Some (s1 ! i)"
    using assms by (simp_all add: map_of_zip_nth)
  then show ?thesis
    using assms i by (simp add: tr_rune_def tr_map_zip)
next
  case False
  then have none: "map_of (zip s1 s2) r = None" "map_of (zip s2 s1) r = None"
    using assms by (simp_all add: map_of_zip_is_None)
  then show ?thesis
    using assms(1-3) by (simp add: tr_rune_def tr_map_zip none del: map_of_zip_is_None)
qed

lemma tr_rune_valid:
  assumes "distinct s1" "length s1 = length s2" "list_all valid_rune s2" "valid_rune r"
  shows "valid_rune (tr_rune s1 s2 r)"
  using assms by (auto simp: tr_rune_def tr_map_zip list_all_iff split: option.splits
      dest!: map_of_SomeD set_zip_rightD)

lemma tr_text_eq: "tr_text s1 s2 s = string_of_runes (map (tr_rune s1 s2) (runes s))"
  by (simp add: tr_text_def tr_rune_def [abs_def])

text \<open>
  \<^verbatim>\<open>tr a b\<close> followed by \<^verbatim>\<open>tr b a\<close> gives a text back, when the two sets are the same size,
  neither holds a character twice, and no character of the text is one of the second set only.
\<close>

lemma tr_undone:
  assumes "parse_flags [a, b] = ([], [a, b])" "parse_flags [b, a] = ([], [b, a])"
    and "distinct (expand_tr_set a)" "distinct (expand_tr_set b)"
    and "length (expand_tr_set a) = length (expand_tr_set b)"
    and "list_all valid_rune (expand_tr_set b)" "list_all valid_rune rs"
    and "list_all (\<lambda>r. r \<in> set (expand_tr_set a) \<or> r \<notin> set (expand_tr_set b)) rs"
    and "sw_in w = (string_of_runes rs, None)" "sw_out w = []"
  shows "\<exists>w1 w2. run_tr [a, b] w = Some (0, w1) \<and> run_tr [b, a] (next_stage w1) = Some (0, w2) \<and>
    sw_out w2 = string_of_runes rs"
proof -
  let ?a = "expand_tr_set a" and ?b = "expand_tr_set b"
  let ?t = "string_of_runes (map (tr_rune ?a ?b) rs)"
  have t: "tr_text ?a ?b (string_of_runes rs) = ?t"
    using assms(7) by (simp add: tr_text_eq runes_of_string)
  have "list_all valid_rune (map (tr_rune ?a ?b) rs)"
    using assms tr_rune_valid by (simp add: list_all_iff)
  then have "tr_text ?b ?a ?t = string_of_runes (map (\<lambda>r. tr_rune ?b ?a (tr_rune ?a ?b r)) rs)"
    by (simp add: tr_text_eq runes_of_string comp_def)
  also have "map (\<lambda>r. tr_rune ?b ?a (tr_rune ?a ?b r)) rs = rs"
    using assms(8) tr_rune_back [OF assms(3,4,5)] by (intro map_idI) (simp add: list_all_iff)
  finally have u: "tr_text ?b ?a ?t = string_of_runes rs" .
  have "run_tr [a, b] w = Some (0, put ?t (w\<lparr>sw_in := ([], None)\<rparr>))"
    using assms(1,9) by (simp add: run_tr_def read_stdin_def finish_def t)
  moreover have "run_tr [b, a] (next_stage (put ?t (w\<lparr>sw_in := ([], None)\<rparr>))) =
      Some (0, put (string_of_runes rs) ((next_stage (put ?t w))\<lparr>sw_in := ([], None)\<rparr>))"
    using assms(2,10) by (simp add: run_tr_def read_stdin_def finish_def next_stage_def put_def u)
  ultimately show ?thesis
    by (intro exI conjI) (assumption | simp add: next_stage_def)+
qed

lemma tr_undone_witness:
  "\<exists>w1 w2. run_tr [''a-c'', ''x-z''] (demo_world [] ''cab!'') = Some (0, w1) \<and>
     run_tr [''x-z'', ''a-c''] (next_stage w1) = Some (0, w2) \<and> sw_out w2 = ''cab!''"
proof -
  have r: "string_of_runes [99, 97, 98, 33] = ''cab!''" by code_simp
  show ?thesis
    by (rule tr_undone [where rs = "[99, 97, 98, 33]", unfolded r])
      (code_simp | simp add: demo_world_def)+
qed

text \<open>base64's letters are not white space, so the trim of what is decoded takes only the newline.\<close>

lemma b64_encode_letters: "set (b64_encode s) \<subseteq> set (CHR ''='' # b64_alphabet)"
proof -
  have l: "length b64_alphabet = 64" by code_simp
  have c: "b64_char n \<in> set b64_alphabet" if "n < 64" for n
    using that l by (simp only: b64_char_def nth_mem)
  show ?thesis
  proof (induction s rule: b64_encode.induct)
    case (2 a)
    then show ?case using b64_digits [of "byte_of a" 0 0] c by (auto simp: b64_group_def)
  next
    case (3 a b)
    then show ?case using b64_digits [of "byte_of a" "byte_of b" 0] c by (auto simp: b64_group_def)
  next
    case (4 a b c' s)
    then show ?case
      using b64_digits [of "byte_of a" "byte_of b" "byte_of c'"] c by (auto simp: b64_group_def)
  qed simp
qed

lemma trim_space_b64: "trim_space (b64_encode s @ [CHR 0x0A]) = b64_encode s"
proof -
  have tab: "list_all (\<lambda>c. byte_of c < 128 \<and> \<not> is_space_rune (byte_of c)) (CHR ''='' # b64_alphabet)"
    by code_simp
  have b: "byte_of c < 128" "\<not> is_space_rune (byte_of c)" if "c \<in> set (b64_encode s)" for c
    using that b64_encode_letters [of s] tab unfolding list_all_iff by blast+
  have seg: "segments (b64_encode s @ [CHR 0x0A]) =
      map (\<lambda>c. (byte_of c, [c])) (b64_encode s) @ [(10, [CHR 0x0A])]"
    using b by (subst segments_ascii) (auto simp: is_ascii_def list_all_iff)
  have keep: "dropWhile space_seg (map (\<lambda>c. (byte_of c, [c])) t @ u) =
      (if t = [] then dropWhile space_seg u else map (\<lambda>c. (byte_of c, [c])) t @ u)"
    if "set t \<subseteq> set (b64_encode s)" for t u
    using that b by (cases t) (auto simp: space_seg_def)
  have nl: "space_seg (10, [CHR 0x0A])" by (simp add: space_seg_def is_space_rune_def)
  show ?thesis
  proof (cases "b64_encode s = []")
    case True
    then show ?thesis by (simp add: trim_space_def seg [unfolded True, simplified] True nl)
  next
    case False
    have "dropWhile space_seg (rev (map (\<lambda>c. (byte_of c, [c])) (b64_encode s))) =
        rev (map (\<lambda>c. (byte_of c, [c])) (b64_encode s))"
      using keep [of "rev (b64_encode s)" "[]"] False by (simp add: rev_map)
    then show ?thesis
      using keep [of "b64_encode s" "[(10, [CHR 0x0A])]"] False
      by (simp add: trim_space_def seg nl comp_def)
  qed
qed

text \<open>
  \<^verbatim>\<open>base64\<close> followed by \<^verbatim>\<open>base64 -d\<close> gives any bytes back.
\<close>

lemma base64_undone:
  "\<exists>w1 w2. run_base64 E [] (w\<lparr>sw_in := (d, None), sw_out := []\<rparr>) = Some (0, w1) \<and>
    run_base64 E [''-d''] (next_stage w1) = Some (0, w2) \<and> sw_out w2 = d"
  by (simp add: run_base64_def read_one_def read_stdin_def finish_def next_stage_def put_ln_def
      put_def trim_space_b64)

text \<open>
  \<^verbatim>\<open>tac\<close> twice gives the lines back, and \<^verbatim>\<open>head\<close> and \<^verbatim>\<open>tail\<close> cut a text in two.
\<close>

lemma tac_twice:
  assumes "lines_of d \<noteq> [[]]" 
  shows "\<exists>w1 w2. run_tac E [] (w\<lparr>sw_in := (d, None), sw_out := []\<rparr>) = Some (0, w1) \<and>
    run_tac E [] (next_stage w1) = Some (0, w2) \<and> sw_out w2 = lines_text (lines_of d)"
proof -
  have "list_all (\<lambda>l. CHR 0x0A \<notin> set l) (rev (lines_of d))" "rev (lines_of d) \<noteq> [[]]"
    using lines_of_no_newline assms by (auto simp: list_all_iff rev_singleton_conv)
  then have "lines_of (lines_text (rev (lines_of d))) = rev (lines_of d)"
    by (rule lines_of_lines_text)
  then show ?thesis
    by (simp add: run_tac_def read_lines_def read_data_def read_stdin_def finish_def next_stage_def
        put_lines_eq put_def)
qed

lemma head_tail_parts:
  assumes "0 \<le> n" "n \<le> int (length ls)"
  shows "\<exists>a b. head_slice n ls = Some a \<and> tail_slice (int (length ls) - n) ls = Some b \<and> a @ b = ls"
proof (cases "n = int (length ls)")
  case True
  then show ?thesis by (simp add: head_slice_def tail_slice_def)
next
  case False
  then have "n < int (length ls)" using assms by simp
  then show ?thesis using assms by (auto simp: head_slice_def tail_slice_def)
qed

subsection \<open>grep\<close>

fun numbered :: "int \<Rightarrow> string list \<Rightarrow> (int \<times> string) list" where
  "numbered i [] = []"
| "numbered i (l # ls) = (i + 1, l) # numbered (i + 1) ls"

definition grep_line :: "char list \<Rightarrow> int \<times> string \<Rightarrow> string" where
  "grep_line fl x = (if CHR ''n'' \<in> set fl then itoa (fst x) @ '':'' @ snd x else snd x)"

definition grep_chosen :: "'re go_lib \<Rightarrow> 're \<Rightarrow> char list \<Rightarrow> string list \<Rightarrow> (int \<times> string) list" where
  "grep_chosen L re fl ls =
     filter (\<lambda>x. match_string L re (snd x) \<noteq> (CHR ''v'' \<in> set fl)) (numbered 0 ls)"

lemma grep_loop_chosen:
  "grep_loop L re fl i ls n w =
     (let sel = filter (\<lambda>x. match_string L re (snd x) \<noteq> (CHR ''v'' \<in> set fl)) (numbered i ls) in
      (n + int (length sel), put_lines (if CHR ''c'' \<in> set fl then [] else map (grep_line fl) sel) w))"
  by (induction ls arbitrary: i n w) (simp_all add: Let_def put_lines_def grep_line_def)

lemma grep_partition:
  "CHR ''v'' \<notin> set fl \<Longrightarrow>
   mset (grep_chosen L re fl ls) + mset (grep_chosen L re (CHR ''v'' # fl) ls) = mset (numbered 0 ls)"
  by (simp add: grep_chosen_def)

text \<open>
  \<^verbatim>\<open>grep\<close> writes the lines of its input that match the pattern, or with \<^verbatim>\<open>-v\<close> those that
  do not, in order and with their line numbers under \<^verbatim>\<open>-n\<close>; with \<^verbatim>\<open>-c\<close> only how many there are;
  its status is 0 exactly when there is one.
\<close>

lemma grep_selects:
  assumes "parse_flags args = (fl, pat # files)"
    "lib_compile (se_re E) (if CHR ''i'' \<in> set fl then ''(?i)'' @ pat else pat) = Inr re"
    "read_lines E files w = (Inr ls, w')"
  shows "run_grep E args w =
    (let sel = grep_chosen (se_re E) re fl ls in
     Some (if sel = [] then 1 else 0,
       put_lines (if CHR ''c'' \<in> set fl then [itoa (int (length sel))] else map (grep_line fl) sel) w'))"
  using assms
  by (simp add: run_grep_def grep_loop_chosen grep_chosen_def Let_def finish_def put_lines_def)

lemma grep_selects_witness:
  "\<exists>re. run_grep demo_env [''-ivn'', ''b''] (demo_world [] (lines_text [''abc'', ''xyz''])) =
    (let sel = grep_chosen rx_lib re ''ivn'' [''abc'', ''xyz''] in
     Some (if sel = [] then 1 else 0,
       put_lines (if CHR ''c'' \<in> set ''ivn'' then [itoa (int (length sel))]
                  else map (grep_line ''ivn'') sel) (demo_world [] [])))"
proof -
  have "\<not> isl (lib_compile (se_re demo_env) (if CHR ''i'' \<in> set ''ivn'' then ''(?i)'' @ ''b'' else ''b''))"
    by code_simp
  then obtain re where re:
    "lib_compile (se_re demo_env) (if CHR ''i'' \<in> set ''ivn'' then ''(?i)'' @ ''b'' else ''b'') = Inr re"
    by (metis sum.collapse(2))
  have p: "parse_flags [''-ivn'', ''b''] = (''ivn'', [''b''])" by code_simp
  have r: "read_lines demo_env [] (demo_world [] (lines_text [''abc'', ''xyz''])) =
      (Inr [''abc'', ''xyz''], demo_world [] [])" by code_simp
  have rx: "se_re demo_env = rx_lib" by (simp add: demo_env_def)
  show ?thesis
    by (rule exI, rule grep_selects [OF p re r, unfolded rx])
qed

subsection \<open>xxd\<close>

text \<open>The bytes a line of a dump stands for: the pairs of hex digits of its middle column.\<close>

definition hex_value :: "char \<Rightarrow> nat" where
  "hex_value c = (case index_byte ''0123456789abcdef'' c of Some n \<Rightarrow> n | None \<Rightarrow> 0)"

fun unhex :: "string \<Rightarrow> string" where
  "unhex (a # b # s) = chr_of (16 * hex_value a + hex_value b) # unhex s"
| "unhex _ = []"

definition dump_bytes :: "string \<Rightarrow> string" where
  "dump_bytes l = unhex (filter (\<lambda>c. c \<noteq> CHR '' '') (take 40 (drop 10 l)))"

lemma hex_table: "list_all (\<lambda>n. hex_value (hex_digit n) = n \<and> hex_digit n \<noteq> CHR '' '') [0..<16]"
  by code_simp

lemma hex_digit_value [simp]:
  "n < 16 \<Longrightarrow> hex_value (hex_digit n) = n" "n < 16 \<Longrightarrow> hex_digit n \<noteq> CHR '' ''"
  using hex_table by (simp_all add: list_all_iff)

lemma unhex_bytes: "unhex (concat (map hex_byte s)) = s"
proof (induction s)
  case (Cons c s)
  have "byte_of c div 16 < 16" using byte_of_bound [of c] by (simp add: div_less_iff_less_mult)
  with Cons show ?case by (simp add: hex_byte_def)
qed simp

lemma hex_byte_filter: "filter (\<lambda>c. c \<noteq> CHR '' '') (hex_byte c) = hex_byte c"
  using byte_of_bound [of c] by (simp add: hex_byte_def div_less_iff_less_mult)

lemma xxd_hex_length: "length (xxd_hex chunk) = 40"
  by (simp add: xxd_hex_def hex_byte_def upt_rec)

lemma xxd_hex_digits:
  assumes "length chunk \<le> 16"
  shows "filter (\<lambda>c. c \<noteq> CHR '' '') (xxd_hex chunk) = concat (map hex_byte chunk)"
proof -
  let ?f = "\<lambda>i. if i < length chunk then hex_byte (chunk ! i) else []"
  have "filter (\<lambda>c. c \<noteq> CHR '' '') (xxd_hex chunk) = concat (map ?f [0..<16])"
    unfolding xxd_hex_def filter_concat map_map
    by (rule arg_cong [of _ _ concat], rule map_cong) (simp_all add: hex_byte_filter)
  also have "[0..<16] = [0..<length chunk] @ [length chunk..<16]"
    using assms by (metis le0 upt_add_eq_append le_add_diff_inverse)
  also have "map ?f \<dots> = map (\<lambda>i. hex_byte (chunk ! i)) [0..<length chunk] @
      map (\<lambda>i. []) [length chunk..<16]"
    by simp
  also have "concat \<dots> = concat (map (\<lambda>i. hex_byte (chunk ! i)) [0..<length chunk])"
    by simp
  also have "\<dots> = concat (map hex_byte (map ((!) chunk) [0..<length chunk]))"
    by (simp add: comp_def)
  finally show ?thesis by (simp only: map_nth)
qed

lemma hex_nat_length: "n < 16 ^ k \<Longrightarrow> 0 < k \<Longrightarrow> length (hex_nat n) \<le> k"
proof (induction n arbitrary: k rule: hex_nat.induct)
  case (1 n)
  show ?case
  proof (cases "n < 16")
    case True
    with 1 show ?thesis by (simp add: hex_nat.simps [of n])
  next
    case False
    have "k \<noteq> 1" using False 1(2) by auto
    with 1(3) obtain j where j: "k = Suc j" "0 < j" by (cases k) auto
    have "n div 16 < 16 ^ j" using 1(2) by (simp add: j div_less_iff_less_mult mult.commute)
    with 1(1) [OF False, of j] False j show ?thesis by (simp add: hex_nat.simps [of n])
  qed
qed

lemma dump_bytes_line:
  assumes "off < 2 ^ 32" "length chunk \<le> 16"
  shows "dump_bytes (pad_left 8 (CHR ''0'') (hex_nat off) @ '': '' @ xxd_hex chunk @ t) = chunk"
proof -
  have "length (hex_nat off) \<le> 8" using assms(1) by (intro hex_nat_length) simp_all
  then have "length (pad_left 8 (CHR ''0'') (hex_nat off) @ '': '') = 10"
    by (simp add: pad_left_def)
  then have "take 40 (drop 10 ((pad_left 8 (CHR ''0'') (hex_nat off) @ '': '') @ xxd_hex chunk @ t)) = xxd_hex chunk"
    using xxd_hex_length [of chunk] by (simp only: drop_append take_append) simp
  then show ?thesis
    using assms(2) by (simp add: dump_bytes_def xxd_hex_digits unhex_bytes)
qed

lemma xxd_loop_bytes:
  "off + length s \<le> 2 ^ 32 \<Longrightarrow> concat (map dump_bytes (xxd_loop off s)) = s"
proof (induction off s rule: xxd_loop.induct)
  case (1 off s)
  show ?case
  proof (cases "s = []")
    case True
    then show ?thesis by (simp add: xxd_loop.simps)
  next
    case False
    then have "off < 2 ^ 32" using 1(2) by (cases s) auto
    moreover have "concat (map dump_bytes (xxd_loop (off + 16) (drop 16 s))) = drop 16 s"
    proof (cases "16 \<le> length s")
      case True
      with 1(1) [OF False] 1(2) show ?thesis by simp
    next
      case False
      then show ?thesis by (simp add: xxd_loop.simps)
    qed
    ultimately show ?thesis
      using False dump_bytes_line [of off "take 16 s"]
      by (simp add: xxd_loop.simps [of off s])
  qed
qed

text \<open>
  What \<^verbatim>\<open>xxd\<close> writes holds its input: the hex columns of its lines, read as bytes, are the
  input, up to the 4 GB that the eight digits of the offset count.
\<close>

lemma xxd_holds_input:
  assumes "read_one E (snd (parse_flags args)) w = (Inr b, w')" "length b \<le> 2 ^ 32"
  shows "\<exists>ls. run_xxd E args w = Some (0, put_lines ls w') \<and> concat (map dump_bytes ls) = b"
  using assms xxd_loop_bytes [of 0 b]
  by (intro exI [of _ "xxd_loop 0 b"]) (simp add: run_xxd_def finish_def)

lemma xxd_holds_input_witness:
  "\<exists>ls. run_xxd demo_env [] (demo_world [] ''hello, world of bytes'') =
     Some (0, put_lines ls (demo_world [] [])) \<and> concat (map dump_bytes ls) = ''hello, world of bytes''"
  by (rule xxd_holds_input) (simp_all add: read_one_def read_stdin_def demo_world_def)

end
