(* ===== verification/Fs_Applets.thy ===== *)
theory Fs_Applets
  imports Mem_Files
begin

text \<open>
  The applets that work on the file system (\<^verbatim>\<open>src/shell/applets.go\<close> and \<^verbatim>\<open>applets2.go\<close>): ls, mkdir,
  rmdir, rm, cp, mv, touch, tree, find, du, stat, chmod and the imgcat of \<^verbatim>\<open>imgcat.go\<close>. A copy
  and a tree walk recurse over what the file system lists, which need not end (a directory copied
  into itself grows as it is copied): they are partial functions. The second half is what \<^verbatim>\<open>cp\<close>
  does to the files.
\<close>

definition with_fs :: "'f \<times> gerr option \<Rightarrow> 'f sw \<Rightarrow> 'f sw" where
  "with_fs r w = w\<lparr>sw_fs := fst r\<rparr>"

subsection \<open>ls\<close>

text \<open>The stringers of u-root's package ls: a short name, and a line of a long listing.\<close>

record ls_lib =
  ll_name :: "string \<Rightarrow> fs_info \<Rightarrow> string"
  ll_long :: "bool \<Rightarrow> string \<Rightarrow> fs_info \<Rightarrow> string"

definition ls_string :: "ls_lib \<Rightarrow> char list \<Rightarrow> string \<Rightarrow> fs_info \<Rightarrow> string" where
  "ls_string S fl = (if CHR ''l'' \<in> set fl then ll_long S (CHR ''h'' \<in> set fl) else ll_name S)"

definition ls_entry :: "ls_lib \<Rightarrow> char list \<Rightarrow> string \<Rightarrow> fs_info \<Rightarrow> string list" where
  "ls_entry S fl path fi =
     (if CHR ''a'' \<notin> set fl \<and> has_prefix (fi_name fi) ''.'' then []
      else [ls_string S fl (path_join [path, fi_name fi]) fi @
            (if fi_dir fi \<and> CHR ''l'' \<notin> set fl then ''/'' else [])])"

fun ls_loop ::
  "('f, 're) sh_env \<Rightarrow> ls_lib \<Rightarrow> char list \<Rightarrow> bool \<Rightarrow> string list \<Rightarrow> int \<Rightarrow> 'f sw \<Rightarrow> 'f run"
where
  "ls_loop E S fl several [] code w = finish code w"
| "ls_loop E S fl several (a # as) code w =
     (let path = resolve_arg E a in
      case fs_stat (se_ops E) (sw_fs w) path of
        Inl e \<Rightarrow> ls_loop E S fl several as 1 (err_ln (''ls: '' @ e) w)
      | Inr info \<Rightarrow>
          if \<not> fi_dir info then ls_loop E S fl several as code (put_ln (ls_string S fl path info) w)
          else (case fs_list (se_ops E) (sw_fs w) path of
              Inl e \<Rightarrow> ls_loop E S fl several as 1 (err_ln (''ls: '' @ e) w)
            | Inr infos \<Rightarrow> ls_loop E S fl several as code
                (put_lines (concat (map (ls_entry S fl path) infos))
                  (if several then put_ln (a @ '':'') w else w))))"

definition run_ls :: "('f, 're) sh_env \<Rightarrow> ls_lib \<Rightarrow> string list \<Rightarrow> 'f sw \<Rightarrow> 'f run" where
  "run_ls E S args w =
     (let (fl, rest0) = parse_flags args; rest = (if rest0 = [] then [''.''] else rest0) in
      ls_loop E S fl (1 < length rest) rest 0 w)"

subsection \<open>mkdir, rmdir, rm, mv, touch, chmod\<close>

fun mkdir_loop :: "('f, 're) sh_env \<Rightarrow> char list \<Rightarrow> string list \<Rightarrow> 'f sw \<Rightarrow> 'f run" where
  "mkdir_loop E fl [] w = finish 0 w"
| "mkdir_loop E fl (a # as) w =
     (let r = (if CHR ''p'' \<in> set fl then fs_mkdir_all (se_ops E) else fs_mkdir (se_ops E))
               (sw_fs w) (resolve_arg E a) 493 in
      case snd r of
        Some e \<Rightarrow> fail_with ''mkdir'' e (with_fs r w)
      | None \<Rightarrow> mkdir_loop E fl as (with_fs r w))"

definition run_mkdir :: "('f, 're) sh_env \<Rightarrow> string list \<Rightarrow> 'f sw \<Rightarrow> 'f run" where
  "run_mkdir E args w =
     (let (fl, rest) = parse_flags args in
      if rest = [] then finish 1 (err_ln ''mkdir: missing operand'' w) else mkdir_loop E fl rest w)"

fun rmdir_loop :: "('f, 're) sh_env \<Rightarrow> string list \<Rightarrow> 'f sw \<Rightarrow> 'f run" where
  "rmdir_loop E [] w = finish 0 w"
| "rmdir_loop E (a # as) w =
     (let path = resolve_arg E a in
      case fs_list (se_ops E) (sw_fs w) path of
        Inl e \<Rightarrow> fail_with ''rmdir'' e w
      | Inr infos \<Rightarrow>
          if infos \<noteq> [] then finish 1 (err_ln (''rmdir: '' @ a @ '': directory not empty'') w)
          else (let r = fs_remove (se_ops E) (sw_fs w) path in
            case snd r of
              Some e \<Rightarrow> fail_with ''rmdir'' e (with_fs r w)
            | None \<Rightarrow> rmdir_loop E as (with_fs r w)))"

definition run_rmdir :: "('f, 're) sh_env \<Rightarrow> string list \<Rightarrow> 'f sw \<Rightarrow> 'f run" where
  "run_rmdir E args w = rmdir_loop E (snd (parse_flags args)) w"

fun rm_loop :: "('f, 're) sh_env \<Rightarrow> char list \<Rightarrow> string list \<Rightarrow> 'f sw \<Rightarrow> 'f run" where
  "rm_loop E fl [] w = finish 0 w"
| "rm_loop E fl (a # as) w =
     (let path = resolve_arg E a in
      case fs_stat (se_ops E) (sw_fs w) path of
        Inl e \<Rightarrow> if CHR ''f'' \<in> set fl then rm_loop E fl as w else fail_with ''rm'' e w
      | Inr info \<Rightarrow>
          if fi_dir info \<and> CHR ''r'' \<notin> set fl
          then finish 1 (err_ln (''rm: '' @ a @ '': is a directory'') w)
          else (let r = fs_remove_all (se_ops E) (sw_fs w) path in
            case snd r of
              Some e \<Rightarrow> if CHR ''f'' \<in> set fl then rm_loop E fl as (with_fs r w)
                        else fail_with ''rm'' e (with_fs r w)
            | None \<Rightarrow> rm_loop E fl as (with_fs r w)))"

definition run_rm :: "('f, 're) sh_env \<Rightarrow> string list \<Rightarrow> 'f sw \<Rightarrow> 'f run" where
  "run_rm E args w =
     (let (fl, rest) = parse_flags args in
      if rest = [] then finish 1 (err_ln ''rm: missing operand'' w) else rm_loop E fl rest w)"

definition is_dir :: "'f fs_ops \<Rightarrow> 'f \<Rightarrow> string \<Rightarrow> bool" where
  "is_dir F fs p = (case fs_stat F fs p of Inr info \<Rightarrow> fi_dir info | Inl e \<Rightarrow> False)"

fun mv_loop :: "('f, 're) sh_env \<Rightarrow> string \<Rightarrow> string list \<Rightarrow> 'f sw \<Rightarrow> 'f run" where
  "mv_loop E dst [] w = finish 0 w"
| "mv_loop E dst (a # as) w =
     (let src = resolve_arg E a;
          target = (if is_dir (se_ops E) (sw_fs w) dst then path_join [dst, path_base src] else dst);
          r = fs_rename (se_ops E) (sw_fs w) src target in
      case snd r of
        Some e \<Rightarrow> fail_with ''mv'' e (with_fs r w)
      | None \<Rightarrow> mv_loop E dst as (with_fs r w))"

text \<open>
  \<^verbatim>\<open>rest[:len(rest)-1]\<close> and \<^verbatim>\<open>rest[len(rest)-1]\<close>: a panic, None, on an empty slice.
\<close>

definition split_last :: "'a list \<Rightarrow> ('a list \<times> 'a) option" where
  "split_last xs = (if xs = [] then None else Some (butlast xs, last xs))"

definition run_mv :: "('f, 're) sh_env \<Rightarrow> string list \<Rightarrow> 'f sw \<Rightarrow> 'f run" where
  "run_mv E args w =
     (let rest = snd (parse_flags args) in
      if length rest < 2 then finish 1 (err_ln ''mv: missing operand'' w)
      else Option.bind (split_last rest) (\<lambda>(srcs, d). mv_loop E (resolve_arg E d) srcs w))"

fun touch_loop :: "('f, 're) sh_env \<Rightarrow> string list \<Rightarrow> 'f sw \<Rightarrow> 'f run" where
  "touch_loop E [] w = finish 0 w"
| "touch_loop E (a # as) w =
     (let path = resolve_arg E a; F = se_ops E in
      if isl (fs_stat F (sw_fs w) path) then
        (let r = fs_create F (sw_fs w) path in
         case snd r of
           Some e \<Rightarrow> fail_with ''touch'' e (with_fs r w)
         | None \<Rightarrow>
            (let r2 = fs_close F (fst r) path in
             case snd r2 of
               Some e \<Rightarrow> fail_with ''touch'' e (with_fs r2 w)
             | None \<Rightarrow> touch_loop E as (with_fs r2 w)))
      else
        (let r = fs_chtimes F (sw_fs w) path in
         case snd r of
           Some e \<Rightarrow> fail_with ''touch'' e (with_fs r w)
         | None \<Rightarrow> touch_loop E as (with_fs r w)))"

definition run_touch :: "('f, 're) sh_env \<Rightarrow> string list \<Rightarrow> 'f sw \<Rightarrow> 'f run" where
  "run_touch E args w = touch_loop E (snd (parse_flags args)) w"

text \<open>\<^verbatim>\<open>strconv.ParseUint(s, 8, 32)\<close>; how \<^verbatim>\<open>strconv\<close> words its refusal is a parameter.\<close>

fun octal_val :: "int \<Rightarrow> string \<Rightarrow> int" where
  "octal_val acc [] = acc"
| "octal_val acc (c # cs) = octal_val (acc * 8 + digit_val c) cs"

definition parse_octal :: "string \<Rightarrow> int option" where
  "parse_octal s =
     (if s \<noteq> [] \<and> list_all (\<lambda>c. 48 \<le> byte_of c \<and> byte_of c \<le> 55) s \<and> octal_val 0 s < 2 ^ 32
      then Some (octal_val 0 s) else None)"

fun chmod_loop :: "('f, 're) sh_env \<Rightarrow> int \<Rightarrow> string list \<Rightarrow> 'f sw \<Rightarrow> 'f run" where
  "chmod_loop E mode [] w = finish 0 w"
| "chmod_loop E mode (a # as) w =
     (let r = fs_chmod (se_ops E) (sw_fs w) (resolve_arg E a) mode in
      case snd r of
        Some e \<Rightarrow> fail_with ''chmod'' e (with_fs r w)
      | None \<Rightarrow> chmod_loop E mode as (with_fs r w))"

definition run_chmod ::
  "('f, 're) sh_env \<Rightarrow> (string \<Rightarrow> gerr) \<Rightarrow> string list \<Rightarrow> 'f sw \<Rightarrow> 'f run" where
  "run_chmod E parse_err args w =
     (case snd (parse_flags args) of
        m # a # as \<Rightarrow>
          (case parse_octal m of
             None \<Rightarrow> fail_with ''chmod'' (parse_err m) w
           | Some mode \<Rightarrow> chmod_loop E mode (a # as) w)
      | _ \<Rightarrow> finish 1 (err_ln ''usage: chmod octal-mode file...'' w))"

subsection \<open>cp\<close>

text \<open>
  \<^verbatim>\<open>copyFile\<close>. The source is open while the destination is truncated, so what is copied is what
  the source holds after that.
\<close>

definition copy_file :: "'f fs_ops \<Rightarrow> 'f \<Rightarrow> string \<Rightarrow> string \<Rightarrow> 'f \<times> gerr option" where
  "copy_file F fs src dst =
     (case fs_open F fs src of
        Inl e \<Rightarrow> (fs, Some e)
      | Inr _ \<Rightarrow>
         (case fs_stat F fs src of
            Inl e \<Rightarrow> (fs, Some e)
          | Inr info \<Rightarrow>
             (case fs_trunc F fs dst (fi_perm info) of
                (fs1, Some e) \<Rightarrow> (fs1, Some e)
              | (fs1, None) \<Rightarrow>
                 (case fs_open F fs1 src of
                    Inl e \<Rightarrow> (fs1, Some e)
                  | Inr (b, rerr) \<Rightarrow>
                     (let (fs2, werr) = fs_append F fs1 dst b; (fs3, cerr) = fs_close F fs2 dst in
                      (fs3, if werr \<noteq> None then werr else if rerr \<noteq> None then rerr else cerr))))))"

text \<open>
  \<^verbatim>\<open>copyAny\<close> for a list of pairs of a source and a destination, a directory's entries going in
  front of what is left. The first error ends it.
\<close>

partial_function (option) copy_any ::
  "'f fs_ops \<Rightarrow> bool \<Rightarrow> (string \<times> string) list \<Rightarrow> 'f \<Rightarrow> ('f \<times> gerr option) option"
where
  "copy_any F recursive todo fs =
     (case todo of
        [] \<Rightarrow> Some (fs, None)
      | (src, dst) # rest \<Rightarrow>
         (case fs_stat F fs src of
            Inl e \<Rightarrow> Some (fs, Some e)
          | Inr info \<Rightarrow>
              if \<not> fi_dir info then
                (case copy_file F fs src
                   (if is_dir F fs dst then path_join [dst, path_base src] else dst) of
                   (fs1, Some e) \<Rightarrow> Some (fs1, Some e)
                 | (fs1, None) \<Rightarrow> copy_any F recursive rest fs1)
              else if \<not> recursive then Some (fs, Some (src @ '' is a directory (use -r)''))
              else (case fs_mkdir_all F fs dst 493 of
                  (fs1, Some e) \<Rightarrow> Some (fs1, Some e)
                | (fs1, None) \<Rightarrow>
                   (case fs_list F fs1 src of
                      Inl e \<Rightarrow> Some (fs1, Some e)
                    | Inr infos \<Rightarrow> copy_any F recursive
                       (map (\<lambda>fi. (path_join [src, fi_name fi], path_join [dst, fi_name fi])) infos @ rest)
                       fs1))))"

declare copy_any.simps [code]

definition run_cp :: "('f, 're) sh_env \<Rightarrow> string list \<Rightarrow> 'f sw \<Rightarrow> 'f run" where
  "run_cp E args w =
     (let (fl, rest) = parse_flags args in
      if length rest < 2 then finish 1 (err_ln ''cp: missing operand'' w)
      else Option.bind (split_last rest) (\<lambda>(srcs, d).
        Option.bind (copy_any (se_ops E) (CHR ''r'' \<in> set fl)
            (map (\<lambda>a. (resolve_arg E a, resolve_arg E d)) srcs) (sw_fs w))
          (\<lambda>r. case snd r of
             Some e \<Rightarrow> fail_with ''cp'' e (with_fs r w)
           | None \<Rightarrow> finish 0 (with_fs r w))))"

subsection \<open>tree\<close>

text \<open>An entry still to be shown: its directory, the prefix of its line, itself, and whether it is the last.\<close>

type_synonym tree_item = "string \<times> string \<times> fs_info \<times> bool"

definition tree_items :: "string \<Rightarrow> string \<Rightarrow> fs_info list \<Rightarrow> tree_item list" where
  "tree_items dir prefix infos =
     map (\<lambda>i. (dir, prefix, infos ! i, i + 1 = length infos)) [0..<length infos]"

text \<open>The box-drawing characters of the connectors, in UTF-8.\<close>

definition tree_mid :: string where
  "tree_mid = string_of_runes [9500, 9472, 9472, 32]"

definition tree_end :: string where
  "tree_end = string_of_runes [9492, 9472, 9472, 32]"

definition tree_bar :: string where
  "tree_bar = string_of_runes [9474, 32, 32, 32]"

partial_function (option) tree_walk ::
  "'f fs_ops \<Rightarrow> tree_item list \<Rightarrow> 'f sw \<Rightarrow> ('f sw \<times> gerr option) option"
where
  "tree_walk F todo w =
     (case todo of
        [] \<Rightarrow> Some (w, None)
      | (dir, prefix, fi, lst) # rest \<Rightarrow>
         (let w1 = put_ln (prefix @ (if lst then tree_end else tree_mid) @ fi_name fi) w;
              sub = path_join [dir, fi_name fi] in
          if \<not> fi_dir fi then tree_walk F rest w1
          else (case fs_list F (sw_fs w1) sub of
              Inl e \<Rightarrow> Some (w1, Some e)
            | Inr infos \<Rightarrow> tree_walk F
                (tree_items sub (prefix @ (if lst then ''    '' else tree_bar)) infos @ rest) w1)))"

declare tree_walk.simps [code]

definition run_tree :: "('f, 're) sh_env \<Rightarrow> string list \<Rightarrow> 'f sw \<Rightarrow> 'f run" where
  "run_tree E args w =
     (let rest = snd (parse_flags args); root = (case rest of [] \<Rightarrow> ''.'' | r # _ \<Rightarrow> r);
          path = resolve_arg E root; w1 = put_ln root w in
      case fs_list (se_ops E) (sw_fs w1) path of
        Inl e \<Rightarrow> fail_with ''tree'' e w1
      | Inr infos \<Rightarrow>
         Option.bind (tree_walk (se_ops E) (tree_items path [] infos) w1)
           (\<lambda>(w2, e). case e of Some m \<Rightarrow> fail_with ''tree'' m w2 | None \<Rightarrow> finish 0 w2))"

subsection \<open>What cp leaves in the files\<close>

lemma copy_file_effect:
  assumes "fs_laws V F" "fv_plain V fs src" "fv_plain V fs dst" "fs_holds F fs src b"
    "copy_file F fs src dst = (fs', None)"
  shows "fs_text V F fs' dst (if fv_node V fs src = fv_node V fs dst then [] else b) \<and> only_at V F [dst] fs fs'"
proof -
  let ?b = "if fv_node V fs src = fv_node V fs dst then [] else b"
  have op: "fs_open F fs src = Inr (b, None)" using assms(4) by (simp add: fs_holds_def)
  obtain info where st: "fs_stat F fs src = Inr info"
    using assms(5) op by (auto simp: copy_file_def split: sum.splits)
  obtain fs1 where t: "fs_trunc F fs dst (fi_perm info) = (fs1, None)"
    using assms(5) op st by (auto simp: copy_file_def split: prod.splits option.splits)
  have 1: "fs_text V F fs1 dst []" "only_at V F [dst] fs fs1"
    using fs_trunc_law [OF assms(1,3) t] by simp_all
  obtain r where r: "fs_open F fs1 src = Inr r"
    using assms(5) by (auto simp: copy_file_def op st t split: sum.splits)
  have src: "r = (?b, None)"
  proof (cases "fv_node V fs src = fv_node V fs dst")
    case True
    then have "fv_node V fs1 src = fv_node V fs1 dst" by (simp add: only_at_node [OF 1(2)])
    from fs_text_open [OF 1(1) this r] True show ?thesis by simp
  next
    case False
    then have "fs_holds F fs1 src b"
      by (intro only_at_holds [OF 1(2) assms(2) _ assms(4)]) simp
    with r False show ?thesis by (simp add: fs_holds_def)
  qed
  obtain fs2 werr where a: "fs_append F fs1 dst ?b = (fs2, werr)" by fastforce
  obtain fs3 cerr where c: "fs_close F fs2 dst = (fs3, cerr)" by fastforce
  have "fs' = fs3" "werr = None"
    using assms(5) by (auto simp: copy_file_def op st t r src a c split: if_splits)
  with append_close_reads [OF assms(1,3) 1 _ c] a show ?thesis by simp
qed

text \<open>
  C16. A \<^verbatim>\<open>cp\<close> of one file that reports success leaves the source's bytes in the destination (in
  the directory named, under its own base name, where the destination is one): there is a file
  there, and whoever may read it, by whatever path, reads them; every other file reads as it did.
  A file copied onto itself, by the same path or another that names it, is emptied: it is
  truncated before it is read. Source and destination are ordinary files, or the destination is
  none yet; directories the file system makes on the way are no files.
\<close>

theorem cp_copies:
  assumes "fs_laws V (se_ops E)" "parse_flags args = (fl, [a, d])"
    "src = resolve_arg E a" "fs_holds (se_ops E) (sw_fs w) src b"
    "\<not> is_dir (se_ops E) (sw_fs w) src"
    "dst = (if is_dir (se_ops E) (sw_fs w) (resolve_arg E d)
            then path_join [resolve_arg E d, path_base src] else resolve_arg E d)"
    "fv_plain V (sw_fs w) src" "fv_plain V (sw_fs w) dst"
    "run_cp E args w = Some (0, w')"
  shows "fs_text V (se_ops E) (sw_fs w') dst
      (if fv_node V (sw_fs w) src = fv_node V (sw_fs w) dst then [] else b) \<and>
    only_at V (se_ops E) [dst] (sw_fs w) (sw_fs w')"
proof -
  let ?F = "se_ops E"
  have run: "Option.bind (copy_any ?F (CHR ''r'' \<in> set fl) [(src, resolve_arg E d)] (sw_fs w))
      (\<lambda>r. case snd r of Some e \<Rightarrow> fail_with ''cp'' e (with_fs r w) | None \<Rightarrow> finish 0 (with_fs r w)) =
      Some (0, w')"
    using assms(2,3,9) by (simp add: run_cp_def split_last_def Let_def)
  then obtain fs' where fs': "copy_any ?F (CHR ''r'' \<in> set fl) [(src, resolve_arg E d)] (sw_fs w) = Some (fs', None)"
      "w' = with_fs (fs', None :: gerr option) w"
    by (auto simp: bind_eq_Some_conv fail_with_def finish_def with_fs_def split: option.splits)
  obtain info where st: "fs_stat ?F (sw_fs w) src = Inr info" "\<not> fi_dir info"
    using fs'(1) assms(5) by (subst (asm) copy_any.simps) (auto simp: is_dir_def split: sum.splits)
  then have "copy_file ?F (sw_fs w) src dst = (fs', None)"
    using fs'(1) by (subst (asm) copy_any.simps)
      (auto simp: assms(6) copy_any.simps [of _ _ "[]"] split: prod.splits option.splits)
  from copy_file_effect [OF assms(1,7,8,4) this] show ?thesis
    by (simp add: fs'(2) with_fs_def)
qed

text \<open>On the file system that makes parents: a copy into a directory that is not there.\<close>

definition norm_env :: "(mem_fs, rx \<times> nat) sh_env" where
  "norm_env = demo_env\<lparr>se_ops := mapfs_ops\<rparr>"

theorem cp_copies_witness:
  "\<exists>w'. run_cp norm_env [''a'', ''d/b''] (demo_world [(''/home/user/a'', Some ''text'')] []) = Some (0, w') \<and>
     fs_open mapfs_ops (sw_fs w') ''/home/user/d/b'' = Inr (''text'', None) \<and>
     fs_open mapfs_ops (sw_fs w') ''/home/user/a'' = Inr (''text'', None)"
proof -
  let ?w = "demo_world [(''/home/user/a'', Some ''text'')] []"
  have ops: "se_ops norm_env = mapfs_ops" by (simp add: norm_env_def)
  have c: "map_option (\<lambda>(c, w'). (c, fs_open mapfs_ops (sw_fs w') ''/home/user/d/b'')) (run_cp norm_env [''a'', ''d/b''] ?w) =
      Some (0, Inr (''text'', None))"
    by code_simp
  then obtain w' where w': "run_cp norm_env [''a'', ''d/b''] ?w = Some (0, w')"
    "fs_open mapfs_ops (sw_fs w') ''/home/user/d/b'' = Inr (''text'', None)" by auto
  have r: "resolve_arg norm_env ''a'' = ''/home/user/a''" "resolve_arg norm_env ''d/b'' = ''/home/user/d/b''"
    by code_simp+
  have n: "map_norm ''/home/user/a'' = ''/home/user/a''" "map_norm ''/home/user/d/b'' = ''/home/user/d/b''"
    by code_simp+
  have fl: "parse_flags [''a'', ''d/b''] = ([], [''a'', ''d/b''])" by code_simp
  have fs: "sw_fs ?w = [(''/home/user/a'', Some ''text'')]" by (simp add: demo_world_def)
  have h: "fs_holds mapfs_ops (sw_fs ?w) ''/home/user/a'' ''text''"
    by (simp add: fs fs_holds_def mapfs_simps n)
  have d: "\<not> is_dir mapfs_ops (sw_fs ?w) ''/home/user/a''" "\<not> is_dir mapfs_ops (sw_fs ?w) ''/home/user/d/b''"
    by (simp_all add: fs is_dir_def mapfs_simps mem_stat mem_info_def n)
  have dst: "''/home/user/d/b'' = (if is_dir mapfs_ops (sw_fs ?w) ''/home/user/d/b''
      then path_join [''/home/user/d/b'', path_base ''/home/user/a''] else ''/home/user/d/b'')"
    using d(2) by (rule if_not_P [symmetric])
  have oa: "only_at mapfs_view mapfs_ops [''/home/user/d/b''] (sw_fs ?w) (sw_fs w')"
    by (rule cp_copies [OF _ fl _ _ _ _ _ _ w'(1), unfolded ops r, OF mapfs_laws refl h d(1) dst, THEN conjunct2])
      (simp_all add: mapfs_simps)
  have "fs_holds mapfs_ops (sw_fs w') ''/home/user/a'' ''text''"
    by (rule only_at_holds [OF oa _ _ h]) (simp_all add: mapfs_simps n)
  with w' show ?thesis unfolding fs_holds_def by blast
qed

text \<open>Without \<^verbatim>\<open>-r\<close> a copy always comes to an end.\<close>

lemma copy_plain_returns: "copy_any F False todo fs \<noteq> None"
proof (induction todo arbitrary: fs)
  case Nil
  then show ?case by (subst copy_any.simps) simp
next
  case (Cons p rest)
  obtain src dst where "p = (src, dst)" by (cases p)
  then show ?case
    using Cons by (subst copy_any.simps) (auto split: sum.splits prod.splits option.splits)
qed

lemma cp_plain_returns: "CHR ''r'' \<notin> set (fst (parse_flags args)) \<Longrightarrow> run_cp E args w \<noteq> None"
proof -
  assume r: "CHR ''r'' \<notin> set (fst (parse_flags args))"
  obtain fl rest where p: "parse_flags args = (fl, rest)" by fastforce
  obtain res where "copy_any (se_ops E) False (map (\<lambda>a. (resolve_arg E a, resolve_arg E (last rest))) (butlast rest))
      (sw_fs w) = Some res"
    using copy_plain_returns by fast
  with r p show ?thesis
    by (cases "rest = []") (simp_all add: run_cp_def split_last_def Let_def finish_def fail_with_def split: option.splits)
qed

end
