(* ===== verification/Find_Applets.thy ===== *)
theory Find_Applets
  imports Fs_Applets Base64
begin

text \<open>
  The applets that look through the file system (\<^verbatim>\<open>src/shell/applets2.go\<close>): find, du and stat,
  with Go's \<^verbatim>\<open>path.Match\<close>, which find's \<^verbatim>\<open>-name\<close> uses, and imgcat (\<^verbatim>\<open>src/shell/imgcat.go\<close> over
  \<^verbatim>\<open>src/progressive/media.go\<close>).
\<close>

subsection \<open>path.Match\<close>

text \<open>\<^verbatim>\<open>getEsc\<close>: a character of a class, escaped or not; \<open>None\<close> is \<^verbatim>\<open>ErrBadPattern\<close>.\<close>

definition get_esc :: "string \<Rightarrow> (rune \<times> string) option" where
  "get_esc chunk =
     (case chunk of
        [] \<Rightarrow> None
      | c # cs \<Rightarrow>
         if c = CHR ''-'' \<or> c = CHR '']'' then None
         else (let chunk' = (if c = CHR 0x5C then cs else chunk) in
           if chunk' = [] then None
           else (let (r, n) = decode_rune chunk' in
             if r = rune_error \<and> n = 1 \<or> drop n chunk' = [] then None
             else Some (r, drop n chunk'))))"

lemma get_esc_shorter:
  assumes "get_esc c = Some (r, c')"
  shows "length c' < length c"
proof -
  obtain x xs where c: "c = x # xs" using assms by (cases c) (simp_all add: get_esc_def)
  define t where "t = (if x = CHR 0x5C then xs else c)"
  have t: "t \<noteq> []" "length t \<le> length c" "c' = drop (snd (decode_rune t)) t"
    using assms by (auto simp: c t_def get_esc_def Let_def split: if_splits prod.splits)
  have "1 \<le> snd (decode_rune t)" using decode_rune_size [OF t(1)] by simp
  with t show ?thesis by (cases t) auto
qed

text \<open>The ranges of a class up to its closing bracket: whether the character is in one, and what follows.\<close>

function class_ranges :: "rune \<Rightarrow> bool \<Rightarrow> bool \<Rightarrow> string \<Rightarrow> (bool \<times> string) option" where
  "class_ranges r started m chunk =
     (if started \<and> chunk \<noteq> [] \<and> chunk ! 0 = CHR '']'' then Some (m, drop 1 chunk)
      else (case get_esc chunk of
        None \<Rightarrow> None
      | Some (lo, c1) \<Rightarrow>
         (case (if c1 ! 0 = CHR ''-'' then get_esc (drop 1 c1) else Some (lo, c1)) of
            None \<Rightarrow> None
          | Some (hi, c2) \<Rightarrow> class_ranges r True (m \<or> lo \<le> r \<and> r \<le> hi) c2)))"
  by pat_completeness auto
termination
  by (relation "measure (\<lambda>(r, s, m, c). length c)")
    (auto dest!: get_esc_shorter split: if_splits)

declare class_ranges.simps [simp del]

lemma class_ranges_shorter: "class_ranges r st m c = Some (b, c') \<Longrightarrow> length c' < length c"
proof (induction r st m c rule: class_ranges.induct)
  case (1 r st m c)
  show ?case
  proof (cases "st \<and> c \<noteq> [] \<and> c ! 0 = CHR '']''")
    case True
    with 1(2) show ?thesis by (cases c) (auto simp: class_ranges.simps)
  next
    case False
    then obtain lo c1 where e: "get_esc c = Some (lo, c1)"
      using 1(2) by (subst (asm) class_ranges.simps) (auto split: option.splits)
    obtain hi c2 where h: "(if c1 ! 0 = CHR ''-'' then get_esc (drop 1 c1) else Some (lo, c1)) = Some (hi, c2)"
      using 1(2) False e by (subst (asm) class_ranges.simps) (auto split: option.splits)
    have "length c2 \<le> length c1"
      using h get_esc_shorter [of "drop 1 c1" hi c2] by (auto split: if_splits)
    moreover have "class_ranges r True (m \<or> lo \<le> r \<and> r \<le> hi) c2 = Some (b, c')"
      using 1(2) False e h by (subst (asm) class_ranges.simps) simp
    ultimately show ?thesis
      using 1(1) [OF False e refl h refl] get_esc_shorter [OF e] by simp
  qed
qed

text \<open>\<^verbatim>\<open>matchChunk\<close>: \<open>None\<close> is a bad pattern, otherwise what the chunk leaves of the name, if it matches.\<close>

function match_chunk :: "string \<Rightarrow> string \<Rightarrow> bool \<Rightarrow> string option option" where
  "match_chunk chunk s failed0 =
     (case chunk of
        [] \<Rightarrow> Some (if failed0 then None else Some s)
      | c # cs \<Rightarrow>
         (let failed = (failed0 \<or> s = []) in
          if c = CHR ''['' then
            (let (r, s1) = (if failed then (0, s) else (fst (decode_rune s), drop (snd (decode_rune s)) s));
                 neg = (cs \<noteq> [] \<and> cs ! 0 = CHR ''^'') in
             case class_ranges r False False (if neg then drop 1 cs else cs) of
               None \<Rightarrow> None
             | Some (m, c3) \<Rightarrow> match_chunk c3 s1 (failed \<or> m = neg))
          else if c = CHR ''?'' then
            (if failed then match_chunk cs s True
             else match_chunk cs (drop (snd (decode_rune s)) s) (s ! 0 = CHR ''/''))
          else if c = CHR 0x5C \<and> cs = [] then None
          else (let lit = (if c = CHR 0x5C then cs ! 0 else c); rest = (if c = CHR 0x5C then drop 1 cs else cs) in
            if failed then match_chunk rest s True
            else match_chunk rest (drop 1 s) (lit \<noteq> s ! 0))))"
  by pat_completeness auto
termination
  by (relation "measure (\<lambda>(c, s, f). length c)")
    (auto dest!: class_ranges_shorter split: if_splits)

declare match_chunk.simps [simp del]

text \<open>\<^verbatim>\<open>scanChunk\<close>: the stars in front, the chunk up to the next star, the rest.\<close>

fun scan_chunk :: "bool \<Rightarrow> string \<Rightarrow> string \<times> string" where
  "scan_chunk inrange [] = ([], [])"
| "scan_chunk inrange (c # cs) =
     (if c = CHR 0x5C then
        (case cs of
           [] \<Rightarrow> ([c], [])
         | d # ds \<Rightarrow> (let (a, b) = scan_chunk inrange ds in (c # d # a, b)))
      else if c = CHR ''*'' \<and> \<not> inrange then ([], c # cs)
      else (let (a, b) = scan_chunk
              (if c = CHR ''['' then True else if c = CHR '']'' then False else inrange) cs
            in (c # a, b)))"

definition is_star :: "char \<Rightarrow> bool" where
  "is_star c = (c = CHR ''*'')"

lemma scan_chunk_append: "scan_chunk inr p = (a, b) \<Longrightarrow> p = a @ b"
proof (induction inr p arbitrary: a b rule: scan_chunk.induct)
  case (2 inr c cs)
  then show ?case by (auto split: if_splits list.splits prod.splits)
qed simp

lemma scan_rest_shorter:
  assumes "p \<noteq> []" "scan_chunk False (dropWhile is_star p) = (chunk, rest)"
  shows "length rest < length p"
proof (cases "is_star (p ! 0)")
  case True
  then have "length (dropWhile is_star p) < length p"
    using assms(1) by (cases p) (auto simp: length_dropWhile_le le_imp_less_Suc)
  then show ?thesis
    using scan_chunk_append [OF assms(2)] by (metis le_add2 length_append order.strict_trans1)
next
  case False
  then obtain c cs where p: "p = c # cs" "\<not> is_star c" using assms(1) by (cases p) auto
  with assms(2) have "chunk \<noteq> []"
    by (auto simp: is_star_def split: if_splits list.splits prod.splits)
  with scan_chunk_append [OF assms(2)] p show ?thesis
    by (cases chunk) auto
qed

text \<open>Skipping bytes of the name after a star, not past a slash, until the chunk matches.\<close>

fun star_skip :: "string \<Rightarrow> bool \<Rightarrow> string \<Rightarrow> string option option" where
  "star_skip chunk lst [] = Some None"
| "star_skip chunk lst (c # name) =
     (if c = CHR ''/'' then Some None
      else (case match_chunk chunk name False of
          None \<Rightarrow> None
        | Some None \<Rightarrow> star_skip chunk lst name
        | Some (Some t) \<Rightarrow> if lst \<and> t \<noteq> [] then star_skip chunk lst name else Some (Some t)))"

function rest_valid :: "string \<Rightarrow> bool" where
  "rest_valid p =
     (if p = [] then True
      else (let (chunk, rest) = scan_chunk False (dropWhile is_star p) in
        if match_chunk chunk [] False = None then False else rest_valid rest))"
  by pat_completeness auto
termination
  by (relation "measure length") (auto dest: scan_rest_shorter [OF _ sym])

declare rest_valid.simps [simp del]

function path_match :: "string \<Rightarrow> string \<Rightarrow> bool option" where
  "path_match p name =
     (if p = [] then Some (name = [])
      else (let star = is_star (p ! 0); (chunk, rest) = scan_chunk False (dropWhile is_star p) in
        if star \<and> chunk = [] then Some (CHR ''/'' \<notin> set name)
        else (case match_chunk chunk name False of
            None \<Rightarrow> None
          | Some m \<Rightarrow>
             (case (case m of
                  Some t \<Rightarrow> if t = [] \<or> rest \<noteq> [] then Some (Some t)
                            else if star then star_skip chunk (rest = []) name else Some None
                | None \<Rightarrow> if star then star_skip chunk (rest = []) name else Some None) of
                None \<Rightarrow> None
              | Some (Some t) \<Rightarrow> path_match rest t
              | Some None \<Rightarrow> if rest_valid rest then Some False else None))))"
  by pat_completeness auto
termination
  by (relation "measure (\<lambda>(p, n). length p)") (auto dest: scan_rest_shorter [OF _ sym])

declare path_match.simps [simp del]

subsection \<open>find\<close>

record find_args =
  fa_root :: string
  fa_name :: string
  fa_type :: "char option"

fun parse_find :: "string list \<Rightarrow> find_args \<Rightarrow> find_args" where
  "parse_find [] a = a"
| "parse_find (x # xs) a =
     (if x = ''-name'' then
        (case xs of [] \<Rightarrow> a | y # ys \<Rightarrow> parse_find ys (a\<lparr>fa_name := y\<rparr>))
      else if x = ''-type'' then
        (case xs of
           [] \<Rightarrow> a
         | y # ys \<Rightarrow> parse_find ys (if y = [] then a else a\<lparr>fa_type := Some (y ! 0)\<rparr>))
      else parse_find xs (if has_prefix x ''-'' then a else a\<lparr>fa_root := x\<rparr>))"

definition no_find_args :: find_args where
  "no_find_args = \<lparr>fa_root = ''.'', fa_name = [], fa_type = None\<rparr>"

text \<open>The name to print for a path found under the base, as the argument was written.\<close>

definition found_name :: "string \<Rightarrow> string \<Rightarrow> string \<Rightarrow> string" where
  "found_name root base p = (case path_rel base p of
     None \<Rightarrow> p
   | Some r \<Rightarrow> if r = ''.'' then root else path_join [root, r])"

definition bad_pattern :: gerr where
  "bad_pattern = ''syntax error in pattern''"

text \<open>What the callback does with an entry: an error, or the lines it prints.\<close>

definition find_entry :: "find_args \<Rightarrow> string \<Rightarrow> string \<times> (gerr + fs_info) \<Rightarrow> gerr + string list" where
  "find_entry a base e =
     (case snd e of
        Inl _ \<Rightarrow> Inr []
      | Inr info \<Rightarrow>
          if fa_type a = Some (CHR ''f'') \<and> fi_dir info then Inr []
          else if fa_type a = Some (CHR ''d'') \<and> \<not> fi_dir info then Inr []
          else (case (if fa_name a = [] then Some True else path_match (fa_name a) (fi_name info)) of
              None \<Rightarrow> Inl bad_pattern
            | Some ok \<Rightarrow> Inr (if ok then [found_name (fa_root a) base (fst e)] else [])))"

fun find_loop ::
  "find_args \<Rightarrow> string \<Rightarrow> (string \<times> (gerr + fs_info)) list \<Rightarrow> gerr option \<Rightarrow> 'f sw \<Rightarrow> 'f sw \<times> gerr option"
where
  "find_loop a base [] werr w = (w, werr)"
| "find_loop a base (e # es) werr w =
     (case find_entry a base e of
        Inl m \<Rightarrow> (w, Some m)
      | Inr ls \<Rightarrow> find_loop a base es werr (put_lines ls w))"

definition run_find :: "('f, 're) sh_env \<Rightarrow> string list \<Rightarrow> 'f sw \<Rightarrow> 'f run" where
  "run_find E args w =
     (let a = parse_find args no_find_args; base = resolve_arg E (fa_root a);
          (es, werr) = fs_walk (se_ops E) (sw_fs w) base;
          (w1, err) = find_loop a base es werr w in
      case err of None \<Rightarrow> finish 0 w1 | Some m \<Rightarrow> fail_with ''find'' m w1)"

subsection \<open>du\<close>

text \<open>The totals by directory, as an association list, and their grand total.\<close>

fun bump :: "string \<Rightarrow> int \<Rightarrow> (string \<times> int) list \<Rightarrow> (string \<times> int) list" where
  "bump d n [] = [(d, n)]"
| "bump d n (x # xs) = (if fst x = d then (d, wrap64 (snd x + n)) # xs else x # bump d n xs)"

definition du_entry ::
  "string \<times> (gerr + fs_info) \<Rightarrow> (string \<times> int) list \<times> int \<Rightarrow> (string \<times> int) list \<times> int" where
  "du_entry e t =
     (case snd e of
        Inl _ \<Rightarrow> t
      | Inr info \<Rightarrow>
          if \<not> fi_dir info
          then (bump (path_dir (fst e)) (fi_size info) (fst t), wrap64 (snd t + fi_size info))
          else if map_of (fst t) (fst e) = None then (fst t @ [(fst e, 0)], snd t)
          else t)"

definition du_totals :: "(string \<times> (gerr + fs_info)) list \<Rightarrow> (string \<times> int) list \<times> int" where
  "du_totals es = fold du_entry es ([], 0)"

text \<open>A Go map is listed in any order: \<open>order\<close>.\<close>

definition run_du ::
  "('f, 're) sh_env \<Rightarrow> ((string \<times> int) list \<Rightarrow> (string \<times> int) list) \<Rightarrow> string list \<Rightarrow> 'f sw \<Rightarrow> 'f run"
where
  "run_du E order args w =
     (let (fl, rest) = parse_flags args; root = (case rest of [] \<Rightarrow> ''.'' | r # _ \<Rightarrow> r);
          base = resolve_arg E root; (es, werr) = fs_walk (se_ops E) (sw_fs w) base;
          (totals, grand) = du_totals es in
      case werr of
        Some e \<Rightarrow> fail_with ''du'' e w
      | None \<Rightarrow>
         if CHR ''s'' \<in> set fl then finish 0 (put_ln (itoa grand @ [CHR 0x09] @ root) w)
         else finish 0 (put_lines (map (\<lambda>(dir, n).
           itoa n @ [CHR 0x09] @ found_name root base dir) (order totals)) w))"

subsection \<open>stat, imgcat\<close>

fun stat_loop :: "('f, 're) sh_env \<Rightarrow> string list \<Rightarrow> int \<Rightarrow> 'f sw \<Rightarrow> 'f run" where
  "stat_loop E [] code w = finish code w"
| "stat_loop E (a # as) code w =
     (case fs_stat (se_ops E) (sw_fs w) (resolve_arg E a) of
        Inl e \<Rightarrow> stat_loop E as 1 (err_ln (''stat: '' @ e) w)
      | Inr info \<Rightarrow> stat_loop E as code (put_lines
          [''  File: '' @ a,
           ''  Size: '' @ itoa (fi_size info) @ [CHR 0x09] @ (if fi_dir info then ''directory'' else ''regular file''),
           ''  Mode: '' @ fi_mode info,
           ''Modify: '' @ fi_time info] w))"

definition run_stat :: "('f, 're) sh_env \<Rightarrow> string list \<Rightarrow> 'f sw \<Rightarrow> 'f run" where
  "run_stat E args w =
     (let rest = snd (parse_flags args) in
      if rest = [] then finish 1 (err_ln ''stat: missing operand'' w) else stat_loop E rest 0 w)"

definition image_seq :: "string \<Rightarrow> string \<Rightarrow> string \<Rightarrow> string \<Rightarrow> string" where
  "image_seq name b width height =
     [CHR 0x1B] @ '']1337;File=name='' @ b64_encode name @ '';size='' @ itoa (int (length b)) @ '';inline=1'' @
     (if width \<noteq> [] then '';width='' @ width else []) @ (if height \<noteq> [] then '';height='' @ height else []) @
     '':'' @ b64_encode b @ [CHR 0x07]"

fun parse_imgcat :: "string list \<Rightarrow> string \<times> string \<times> string list \<Rightarrow> string \<times> string \<times> string list" where
  "parse_imgcat [] a = a"
| "parse_imgcat (x # xs) (wd, ht, files) =
     (if x = ''-w'' \<and> xs \<noteq> [] then parse_imgcat (drop 1 xs) (xs ! 0, ht, files)
      else if x = ''-h'' \<and> xs \<noteq> [] then parse_imgcat (drop 1 xs) (wd, xs ! 0, files)
      else parse_imgcat xs (wd, ht, files @ [x]))"

fun imgcat_loop :: "('f, 're) sh_env \<Rightarrow> string \<Rightarrow> string \<Rightarrow> string list \<Rightarrow> int \<Rightarrow> 'f sw \<Rightarrow> 'f run" where
  "imgcat_loop E wd ht [] code w = finish code w"
| "imgcat_loop E wd ht (f # fs) code w =
     (case read_file E w f of
        Inl e \<Rightarrow> imgcat_loop E wd ht fs 1 (err_ln (''imgcat: '' @ e) w)
      | Inr b \<Rightarrow> imgcat_loop E wd ht fs code (put (image_seq (path_base f) b wd ht @ [CHR 0x0A]) w))"

definition run_imgcat :: "('f, 're) sh_env \<Rightarrow> string list \<Rightarrow> 'f sw \<Rightarrow> 'f run" where
  "run_imgcat E args w =
     (let (wd, ht, files) = parse_imgcat args ([], [], []) in
      if files = [] then finish 2 (err_ln ''usage: imgcat [-w width] [-h height] file...'' w)
      else imgcat_loop E wd ht files 0 w)"

subsection \<open>What find and du report\<close>

lemma find_loop_filter:
  assumes "\<forall>e \<in> set es. \<not> isl (find_entry a base e)"
  shows "find_loop a base es werr w =
    (put_lines (concat (map (\<lambda>e. projr (find_entry a base e)) es)) w, werr)"
  using assms
proof (induction es arbitrary: w)
  case (Cons e es)
  then obtain ls where "find_entry a base e = Inr ls" by (cases "find_entry a base e") auto
  with Cons show ?case by (simp add: put_lines_def)
qed (simp add: put_lines_def)

lemma wrap64_mod: "wrap64 x mod 2 ^ 64 = x mod 2 ^ 64"
  unfolding wrap64_def mod_diff_left_eq by simp

lemma bump_sum: "sum_list (map snd (bump d n ts)) mod 2 ^ 64 = (sum_list (map snd ts) + n) mod 2 ^ 64"
proof (induction ts)
  case (Cons x xs)
  show ?case
  proof (cases "fst x = d")
    case True
    have "(wrap64 (snd x + n) + sum_list (map snd xs)) mod 2 ^ 64 =
        (snd x + n + sum_list (map snd xs)) mod 2 ^ 64"
      by (metis mod_add_left_eq wrap64_mod)
    with True show ?thesis by (simp add: algebra_simps)
  next
    case False
    then have "sum_list (map snd (bump d n (x # xs))) mod 2 ^ 64 =
        (snd x + sum_list (map snd (bump d n xs)) mod 2 ^ 64) mod 2 ^ 64"
      by (simp add: mod_add_right_eq)
    also have "\<dots> = (sum_list (map snd (x # xs)) + n) mod 2 ^ 64"
      unfolding Cons.IH by (simp add: mod_add_right_eq add.assoc)
    finally show ?thesis .
  qed
qed simp

lemma du_entry_sum:
  assumes "sum_list (map snd (fst t)) mod 2 ^ 64 = snd t mod 2 ^ 64"
  shows "sum_list (map snd (fst (du_entry e t))) mod 2 ^ 64 = snd (du_entry e t) mod 2 ^ 64"
proof -
  have "(sum_list (map snd (fst t)) + n) mod 2 ^ 64 = (snd t + n) mod 2 ^ 64" for n
    using assms by (metis mod_add_left_eq)
  then show ?thesis
    using assms
    by (auto simp: du_entry_def bump_sum [simplified] wrap64_mod [simplified] split: sum.split)
qed

lemma du_totals_sum:
  "sum_list (map snd (fst (du_totals es))) mod 2 ^ 64 = snd (du_totals es) mod 2 ^ 64"
proof -
  have "sum_list (map snd (fst (fold du_entry es t))) mod 2 ^ 64 = snd (fold du_entry es t) mod 2 ^ 64"
    if "sum_list (map snd (fst t)) mod 2 ^ 64 = snd t mod 2 ^ 64" for t
    using that by (induction es arbitrary: t) (simp_all add: du_entry_sum [simplified])
  from this [of "([], 0)"] show ?thesis by (simp add: du_totals_def)
qed

definition find_admits :: "find_args \<Rightarrow> string \<times> (gerr + fs_info) \<Rightarrow> bool" where
  "find_admits a e =
     (case snd e of
        Inl _ \<Rightarrow> False
      | Inr info \<Rightarrow>
          (fa_type a = Some (CHR ''f'') \<longrightarrow> \<not> fi_dir info) \<and>
          (fa_type a = Some (CHR ''d'') \<longrightarrow> fi_dir info) \<and>
          (fa_name a = [] \<or> path_match (fa_name a) (fi_name info) = Some True))"

definition pattern_ok :: "find_args \<Rightarrow> string \<times> (gerr + fs_info) \<Rightarrow> bool" where
  "pattern_ok a e = (case snd e of
     Inl _ \<Rightarrow> True
   | Inr info \<Rightarrow> fa_name a = [] \<or> path_match (fa_name a) (fi_name info) \<noteq> None)"

lemma find_entry_admits:
  "pattern_ok a e \<Longrightarrow>
   find_entry a base e = Inr (if find_admits a e then [found_name (fa_root a) base (fst e)] else [])"
  by (cases "snd e"; cases "path_match (fa_name a) (fi_name (projr (snd e)))")
    (simp_all add: find_entry_def find_admits_def pattern_ok_def)

text \<open>
  \<^verbatim>\<open>find\<close> prints exactly the entries of the walk that its \<^verbatim>\<open>-type\<close> and \<^verbatim>\<open>-name\<close> admit, in
  the walk's order and under the name the starting point was given by, where the pattern is
  well formed on every name; an entry that could not be read is passed over.
\<close>

lemma find_prints_admitted:
  assumes "a = parse_find args no_find_args" "base = resolve_arg E (fa_root a)"
    "fs_walk (se_ops E) (sw_fs w) base = (es, None)" "list_all (pattern_ok a) es"
  shows "run_find E args w = Some (0, put_lines
    (map (\<lambda>e. found_name (fa_root a) base (fst e)) (filter (find_admits a) es)) w)"
proof -
  have "find_loop a base es None w =
      (put_lines (map (\<lambda>e. found_name (fa_root a) base (fst e)) (filter (find_admits a) es)) w, None)"
    using assms(4)
    by (induction es arbitrary: w) (simp_all add: find_entry_admits put_lines_def)
  then show ?thesis
    unfolding run_find_def assms(1) [symmetric] Let_def assms(2) [symmetric] assms(3)
    by (simp add: finish_def)
qed

definition demo_tree :: mem_fs where
  "demo_tree = [(''/home/user'', None), (''/home/user/a.txt'', Some ''one''),
     (''/home/user/b.sh'', Some ''two''), (''/home/user/d'', None), (''/home/user/d/c.txt'', Some [])]"

lemma find_prints_admitted_witness:
  "run_find demo_env [''-name'', ''*.txt'', ''-type'', ''f''] (demo_world demo_tree []) =
     Some (0, put_lines [''a.txt'', ''d/c.txt''] (demo_world demo_tree []))"
proof -
  define a where "a = parse_find [''-name'', ''*.txt'', ''-type'', ''f''] no_find_args"
  define base where "base = resolve_arg demo_env (fa_root a)"
  define es where "es = fst (fs_walk (se_ops demo_env) demo_tree base)"
  have w: "fs_walk (se_ops demo_env) (sw_fs (demo_world demo_tree [])) base = (es, None)"
    by (simp add: es_def demo_env_def mem_ops_def demo_world_def)
  have ok: "list_all (pattern_ok a) es"
    unfolding es_def base_def a_def by code_simp
  have "map (\<lambda>e. found_name (fa_root a) base (fst e)) (filter (find_admits a) es) = [''a.txt'', ''d/c.txt'']"
    unfolding es_def base_def a_def by code_simp
  with find_prints_admitted [OF a_def base_def w ok] show ?thesis by simp
qed

end
