(* ===== verification/Sed_Applet.thy ===== *)
theory Sed_Applet
  imports Sed_Exec Mem_Files
begin

text \<open>
  The sed applet (\<^verbatim>\<open>src/shell/sedapplet.go\<close>): its options, the streams and files it hands the
  interpreter of theory \<open>Sed_Exec\<close>, editing in place with a backup, and its exit status. What is
  read from stdin as an input is taken when it is opened, so a script that also reads
  \<^verbatim>\<open>/dev/stdin\<close> gets what no input has taken.
\<close>

subsection \<open>The options\<close>

record sed_args =
  sa_scripts :: "string list"
  sa_files :: "string list"
  sa_quiet :: bool
  sa_ere :: bool
  sa_separate :: bool
  sa_in_place :: bool
  sa_suffix :: string

datatype sed_arg_err = Sed_Help | Sed_Err gerr

definition no_sed_args :: sed_args where
  "no_sed_args = \<lparr>sa_scripts = [], sa_files = [], sa_quiet = False, sa_ere = False,
     sa_separate = False, sa_in_place = False, sa_suffix = []\<rparr>"

text \<open>The arguments read so far, the operands, and whether there was a script.\<close>

type_synonym sed_opts = "sed_args \<times> string list \<times> bool"

definition add_script :: "string \<Rightarrow> sed_opts \<Rightarrow> sed_opts" where
  "add_script s o1 = (let (a, ops, have1) = o1 in (a\<lparr>sa_scripts := sa_scripts a @ [s]\<rparr>, ops, True))"

definition add_file :: "(string \<Rightarrow> gerr + string) \<Rightarrow> string \<Rightarrow> sed_opts \<Rightarrow> sed_arg_err + sed_opts" where
  "add_file rd name o1 = (case rd name of
     Inl e \<Rightarrow> Inl (Sed_Err e)
   | Inr b \<Rightarrow> Inr (add_script (trim_suffix b [CHR 0x0A]) o1))"

text \<open>The value of \<^verbatim>\<open>-e\<close> or \<^verbatim>\<open>-f\<close>: what follows the letter, or the next argument.\<close>

definition sed_value :: "string \<Rightarrow> string list \<Rightarrow> (string \<times> string list) option" where
  "sed_value cs rest =
     (if cs \<noteq> [] then Some (cs, rest)
      else (case rest of [] \<Rightarrow> None | v # vs \<Rightarrow> Some (v, vs)))"

definition sed_take ::
  "(string \<Rightarrow> gerr + string) \<Rightarrow> char \<Rightarrow> string \<times> string list \<Rightarrow> sed_opts \<Rightarrow> sed_arg_err + string list \<times> sed_opts"
where
  "sed_take rd c vr o1 =
     (if c = CHR ''e'' then Inr (snd vr, add_script (fst vr) o1)
      else map_sum id (\<lambda>o2. (snd vr, o2)) (add_file rd (fst vr) o1))"

text \<open>The letters of one bundle, with the arguments after it.\<close>

fun sed_letters ::
  "(string \<Rightarrow> gerr + string) \<Rightarrow> string \<Rightarrow> string list \<Rightarrow> sed_opts \<Rightarrow> sed_arg_err + string list \<times> sed_opts"
where
  "sed_letters rd [] rest o1 = Inr (rest, o1)"
| "sed_letters rd (c # cs) rest o1 =
     (let (a, ops, have1) = o1 in
      if c = CHR ''n'' then sed_letters rd cs rest (a\<lparr>sa_quiet := True\<rparr>, ops, have1)
      else if c = CHR ''E'' \<or> c = CHR ''r'' then sed_letters rd cs rest (a\<lparr>sa_ere := True\<rparr>, ops, have1)
      else if c = CHR ''s'' then sed_letters rd cs rest (a\<lparr>sa_separate := True\<rparr>, ops, have1)
      else if c = CHR ''u'' then sed_letters rd cs rest o1
      else if c = CHR ''z'' then Inl (Sed_Err ''-z is not supported'')
      else if c = CHR ''i'' then Inr (rest, (a\<lparr>sa_in_place := True, sa_suffix := cs\<rparr>, ops, have1))
      else if c = CHR ''e'' \<or> c = CHR ''f'' then
        (case sed_value cs rest of
           None \<Rightarrow> Inl (Sed_Err (''option requires an argument -- '' @ [CHR 0x27, c, CHR 0x27]))
         | Some vr \<Rightarrow> sed_take rd c vr o1)
      else if c = CHR ''h'' then Inl Sed_Help
      else Inl (Sed_Err (''invalid option -- '' @ [CHR 0x27] @ encode_rune (byte_of c) @ [CHR 0x27])))"

definition long_value :: "string \<Rightarrow> string \<Rightarrow> bool \<Rightarrow> string list \<Rightarrow> sed_arg_err + string \<times> string list" where
  "long_value name v has rest =
     (if has then Inr (v, rest)
      else (case rest of
        [] \<Rightarrow> Inl (Sed_Err (''option '' @ [CHR 0x27] @ ''--'' @ name @ [CHR 0x27] @ '' requires an argument''))
      | x # xs \<Rightarrow> Inr (x, xs)))"

definition sed_long ::
  "(string \<Rightarrow> gerr + string) \<Rightarrow> string \<Rightarrow> string list \<Rightarrow> sed_opts \<Rightarrow> sed_arg_err + string list \<times> sed_opts"
where
  "sed_long rd arg rest o1 =
     (let (name, v, has) = cut_byte (drop 2 arg) (CHR ''=''); (a, ops, have1) = o1 in
      if name = ''quiet'' \<or> name = ''silent'' then Inr (rest, (a\<lparr>sa_quiet := True\<rparr>, ops, have1))
      else if name = ''regexp-extended'' then Inr (rest, (a\<lparr>sa_ere := True\<rparr>, ops, have1))
      else if name = ''separate'' then Inr (rest, (a\<lparr>sa_separate := True\<rparr>, ops, have1))
      else if name = ''in-place'' then Inr (rest, (a\<lparr>sa_in_place := True, sa_suffix := v\<rparr>, ops, have1))
      else if name = ''expression'' then
        (case long_value name v has rest of
           Inl e \<Rightarrow> Inl e
         | Inr (s, rest') \<Rightarrow> Inr (rest', add_script s o1))
      else if name = ''file'' then
        (case long_value name v has rest of
           Inl e \<Rightarrow> Inl e
         | Inr (s, rest') \<Rightarrow> map_sum id (\<lambda>o2. (rest', o2)) (add_file rd s o1))
      else if name \<in> set [''posix'', ''unbuffered'', ''debug'', ''sandbox'', ''follow-symlinks'']
      then Inr (rest, o1)
      else if name = ''help'' then Inl Sed_Help
      else Inl (Sed_Err (''unknown option -- '' @ [CHR 0x27] @ name @ [CHR 0x27])))"

lemma sed_value_rest: "sed_value cs rest = Some vr \<Longrightarrow> length (snd vr) \<le> length rest"
  by (auto simp: sed_value_def split: if_splits list.splits)

lemma sed_take_rest: "sed_take rd c vr o1 = Inr (rest', o2) \<Longrightarrow> rest' = snd vr"
  by (auto simp: sed_take_def add_file_def split: if_splits sum.splits)

lemma sed_letters_rest: "sed_letters rd cs rest o1 = Inr (rest', o2) \<Longrightarrow> length rest' \<le> length rest"
proof (induction cs arbitrary: o1)
  case (Cons c cs)
  obtain a ops h where o: "o1 = (a, ops, h)" by (cases o1)
  have take: "length rest' \<le> length rest" if
    "(case sed_value cs rest of None \<Rightarrow> Inl e | Some vr \<Rightarrow> sed_take rd c vr (a, ops, h)) = Inr (rest', o2)" for e
    using that by (auto dest: sed_value_rest sed_take_rest split: option.splits)
  show ?case
    using Cons.prems unfolding sed_letters.simps o Let_def prod.case
    by (elim ifE) (erule Cons.IH | erule take | simp)+
qed simp

lemma long_value_rest: "long_value name v has rest = Inr (s, rest') \<Longrightarrow> length rest' \<le> length rest"
  by (auto simp: long_value_def split: if_splits list.splits)

lemma sed_long_rest:
  assumes "sed_long rd arg rest o1 = Inr (rest', o2)"
  shows "length rest' \<le> length rest"
proof -
  obtain name v has where c: "cut_byte (drop 2 arg) (CHR ''='') = (name, v, has)" by (cases "cut_byte (drop 2 arg) (CHR ''='')")
  obtain a ops h where o: "o1 = (a, ops, h)" by (cases o1)
  have *: "rest' = rest \<or> (\<exists>s. long_value name v has rest = Inr (s, rest'))"
    using assms unfolding sed_long_def c o Let_def prod.case
    by (elim ifE) (simp_all add: add_file_def map_sum_def split: sum.splits prod.splits)
  then show ?thesis using long_value_rest by blast
qed

function sed_options ::
  "(string \<Rightarrow> gerr + string) \<Rightarrow> string list \<Rightarrow> sed_opts \<Rightarrow> sed_arg_err + sed_opts"
where
  "sed_options rd args o1 =
     (case args of
        [] \<Rightarrow> Inr o1
      | arg # rest \<Rightarrow>
         if arg = ''--'' then (let (a, ops, have1) = o1 in Inr (a, ops @ rest, have1))
         else if has_prefix arg ''--'' then
           (case sed_long rd arg rest o1 of Inl e \<Rightarrow> Inl e | Inr (rest', o2) \<Rightarrow> sed_options rd rest' o2)
         else if 1 < length arg \<and> arg ! 0 = CHR ''-'' then
           (case sed_letters rd (drop 1 arg) rest o1 of
              Inl e \<Rightarrow> Inl e | Inr (rest', o2) \<Rightarrow> sed_options rd rest' o2)
         else (let (a, ops, have1) = o1 in sed_options rd rest (a, ops @ [arg], have1)))"
  by pat_completeness auto
termination
  by (relation "measure (\<lambda>(rd, args, o1). length args)")
    (auto simp: le_imp_less_Suc dest!: sed_long_rest sed_letters_rest)

declare sed_options.simps [simp del]

definition parse_sed_args :: "(string \<Rightarrow> gerr + string) \<Rightarrow> string list \<Rightarrow> sed_arg_err + sed_args" where
  "parse_sed_args rd args =
     (case sed_options rd args (no_sed_args, [], False) of
        Inl e \<Rightarrow> Inl e
      | Inr (a, ops, have1) \<Rightarrow>
         (case (if have1 then Some (a, ops)
                else (case ops of
                   [] \<Rightarrow> None
                 | s # ops' \<Rightarrow> Some (a\<lparr>sa_scripts := [s]\<rparr>, ops'))) of
            None \<Rightarrow> Inl Sed_Help
          | Some (a1, ops1) \<Rightarrow>
             (let a2 = a1\<lparr>sa_files := ops1\<rparr> in
              if sa_in_place a2 then
                (if ops1 = [] then Inl (Sed_Err ''no input files'') else Inr (a2\<lparr>sa_separate := True\<rparr>))
              else Inr a2)))"

subsection \<open>The streams and files of a run\<close>

text \<open>
  What a program of the interpreter acts on: the applet's world, the buffer of an in-place edit
  and the paths it has opened for writing. Handle 0 is stdout, 1 stderr, 2 the buffer and the
  others the paths, in the order they were opened.
\<close>

record 'f sedw =
  sx_world :: "'f sw"
  sx_buf :: string
  sx_paths :: "string list"

definition sx_fs :: "'f \<Rightarrow> 'f sedw \<Rightarrow> 'f sedw" where
  "sx_fs fs x = x\<lparr>sx_world := (sx_world x)\<lparr>sw_fs := fs\<rparr>\<rparr>"

definition sed_applet_io :: "('f, 're) sh_env \<Rightarrow> 'f sedw io" where
  "sed_applet_io E = \<lparr>
     io_write = (\<lambda>h s x.
       if h = 0 then (None, x\<lparr>sx_world := put s (sx_world x)\<rparr>)
       else if h = 1 then
         (None, x\<lparr>sx_world := (sx_world x)\<lparr>sw_err := sw_err (sx_world x) @ s\<rparr>\<rparr>)
       else if h = 2 then (None, x\<lparr>sx_buf := sx_buf x @ s\<rparr>)
       else (let (fs, e) = fs_append (se_ops E) (sw_fs (sx_world x)) (sx_paths x ! (h - 3)) s
             in (e, sx_fs fs x))),
     io_read_file = Some (\<lambda>name x.
       if name = ''/dev/stdin'' then
         (case read_stdin (sx_world x) of
            (Inl e, w) \<Rightarrow> (None, x\<lparr>sx_world := w\<rparr>)
          | (Inr b, w) \<Rightarrow> (Some b, x\<lparr>sx_world := w\<rparr>))
       else (case read_file E (sx_world x) name of Inl e \<Rightarrow> (None, x) | Inr b \<Rightarrow> (Some b, x))),
     io_open_write = Some (\<lambda>name x.
       if name = ''/dev/stdout'' then (Inr 0, x)
       else if name = ''/dev/stderr'' then (Inr 1, x)
       else (let path = resolve_arg E name;
                 (fs, e) = fs_trunc (se_ops E) (sw_fs (sx_world x)) path 420 in
         case e of
           Some m \<Rightarrow> (Inl m, sx_fs fs x)
         | None \<Rightarrow> (Inr (3 + length (sx_paths x)), (sx_fs fs x)\<lparr>sx_paths := sx_paths x @ [path]\<rparr>)))\<rparr>"

definition sed_err_text :: "(string \<Rightarrow> string) \<Rightarrow> sed_error \<Rightarrow> string" where
  "sed_err_text quote e = (case e of
     Msg m \<Rightarrow> m
   | At n m \<Rightarrow> ''char '' @ itoa (int n) @ '': '' @ m
   | Duplicate_Label l \<Rightarrow> ''duplicate label '' @ quote l
   | Rx_Error m \<Rightarrow> m)"

definition sx_err :: "string \<Rightarrow> 'f sedw \<Rightarrow> 'f sedw" where
  "sx_err m x = x\<lparr>sx_world := err_ln m (sx_world x)\<rparr>"

datatype sed_next = Goes_On | Stops int

text \<open>\<^verbatim>\<open>finish\<close>: what the result of a run means for the applet; a panic is \<open>None\<close>.\<close>

definition sed_finish ::
  "(string \<Rightarrow> string) \<Rightarrow> run_result \<times> 're program \<times> 'f sedw \<Rightarrow> (sed_next \<times> 're program \<times> 'f sedw) option"
where
  "sed_finish quote rpx = (case rpx of (r, p, x) \<Rightarrow>
     (case r of
        RunOk \<Rightarrow> Some (Goes_On, p, x)
      | RunQuit \<Rightarrow> Some (Stops (p_code p), p, x)
      | RunWriteError m \<Rightarrow> Some (Stops 4, p, sx_err (''sed: '' @ m) x)
      | RunFails f \<Rightarrow>
         (case f of
            Panics \<Rightarrow> None
          | Fails e \<Rightarrow> Some (Stops 4, p, sx_err (''sed: '' @ sed_err_text quote e) x))))"

text \<open>The text an input gives, \<^verbatim>\<open>-\<close> being stdin; the message of a failure has the path taken out of it.\<close>

definition sed_open ::
  "('f, 're) sh_env \<Rightarrow> (gerr \<Rightarrow> gerr) \<Rightarrow> string \<Rightarrow> 'f sedw \<Rightarrow> string option \<times> 'f sedw"
where
  "sed_open E unwrap name x =
     (if name = ''-'' then
        (Some (fst (sw_in (sx_world x))),
         x\<lparr>sx_world := (sx_world x)\<lparr>sw_in := ([], snd (sw_in (sx_world x)))\<rparr>\<rparr>)
      else (case read_file E (sx_world x) name of
          Inl e \<Rightarrow> (None, sx_err (''sed: can'' @ [CHR 0x27] @ ''t read '' @ name @ '': '' @ unwrap e) x)
        | Inr b \<Rightarrow> (Some b, x)))"

fun sed_open_all ::
  "('f, 're) sh_env \<Rightarrow> (gerr \<Rightarrow> gerr) \<Rightarrow> string list \<Rightarrow> int \<Rightarrow> 'f sedw \<Rightarrow> string list \<times> int \<times> 'f sedw"
where
  "sed_open_all E unwrap [] status x = ([], status, x)"
| "sed_open_all E unwrap (n # ns) status x =
     (case sed_open E unwrap n x of
        (None, x1) \<Rightarrow> sed_open_all E unwrap ns 2 x1
      | (Some b, x1) \<Rightarrow> (let (bs, s, x2) = sed_open_all E unwrap ns status x1 in (b # bs, s, x2)))"

subsection \<open>Editing in place\<close>

definition backup_name :: "string \<Rightarrow> string \<Rightarrow> string" where
  "backup_name path suffix =
     (if CHR ''*'' \<in> set suffix then
        (let d = replace_byte suffix (CHR ''*'') (path_base path) in
         if slash \<notin> set d then path_join [path_dir path, d]
         else if \<not> is_abs d then path_join [path_dir path, d] else d)
      else path @ suffix)"

definition sed_backup :: "'f fs_ops \<Rightarrow> 'f \<Rightarrow> string \<Rightarrow> string \<Rightarrow> 'f \<times> gerr option" where
  "sed_backup F fs path suffix =
     (case fs_read F fs path of
        Inl e \<Rightarrow> (fs, Some e)
      | Inr b \<Rightarrow> fs_write F fs (backup_name path suffix) b 420)"

text \<open>
  What follows the run of one file: the backup, then the file itself. Without the information of
  the file (its \<^verbatim>\<open>Stat\<close> failed), \<^verbatim>\<open>info.Mode()\<close> is a nil dereference: \<open>None\<close>.
\<close>

definition sed_store ::
  "('f, 're) sh_env \<Rightarrow> string \<Rightarrow> string \<Rightarrow> gerr + fs_info \<Rightarrow> 'f sedw \<Rightarrow> (bool \<times> 'f sedw) option"
where
  "sed_store E path suffix info x =
     (let F = se_ops E; fs = sw_fs (sx_world x);
          (fs1, berr) = (if suffix = [] then (fs, None) else sed_backup F fs path suffix) in
      case berr of
        Some e \<Rightarrow> Some (False, sx_err (''sed: '' @ e) (sx_fs fs1 x))
      | None \<Rightarrow>
         (case info of
            Inl _ \<Rightarrow> None
          | Inr i \<Rightarrow>
             (case fs_write F fs1 path (sx_buf x) (fi_perm i) of
                (fs2, Some e) \<Rightarrow> Some (False, sx_err (''sed: '' @ e) (sx_fs fs2 x))
              | (fs2, None) \<Rightarrow> Some (True, sx_fs fs2 x))))"

definition is_dir_info :: "gerr + fs_info \<Rightarrow> bool" where
  "is_dir_info r = (case r of Inl _ \<Rightarrow> False | Inr info \<Rightarrow> fi_dir info)"

definition sed_one_in_place ::
  "('f, 're) sh_env \<Rightarrow> (string \<Rightarrow> string) \<Rightarrow> string \<Rightarrow> 're program \<Rightarrow> string \<Rightarrow> string \<Rightarrow> 'f sedw \<Rightarrow>
   (sed_next \<times> 're program \<times> 'f sedw) option"
where
  "sed_one_in_place E quote suffix p path b x =
     Option.bind (sed_run (se_re E) (sed_applet_io E) p 2 [b] (x\<lparr>sx_buf := []\<rparr>)) (\<lambda>rpx.
     Option.bind (sed_finish quote rpx) (\<lambda>(nxt, p1, x1).
       if nxt = Stops 4 then Some (Stops 4, p1, x1)
       else Option.bind (sed_store E path suffix (fs_stat (se_ops E) (sw_fs (sx_world x)) path) x1)
         (\<lambda>(ok, x2). Some (if ok then nxt else Stops 4, p1, x2))))"

fun sed_in_place ::
  "('f, 're) sh_env \<Rightarrow> (string \<Rightarrow> string) \<Rightarrow> (gerr \<Rightarrow> gerr) \<Rightarrow> string \<Rightarrow> string list \<Rightarrow> int \<Rightarrow>
   're program \<Rightarrow> 'f sedw \<Rightarrow> (int \<times> 'f sedw) option"
where
  "sed_in_place E quote unwrap suffix [] status p x = Some (status, x)"
| "sed_in_place E quote unwrap suffix (n # ns) status p x =
     (let path = resolve_arg E n in
      if is_dir_info (fs_stat (se_ops E) (sw_fs (sx_world x)) path) then
        sed_in_place E quote unwrap suffix ns 4 p
          (sx_err (''sed: couldn'' @ [CHR 0x27] @ ''t edit '' @ n @ '': not a regular file'') x)
      else (case sed_open E unwrap n x of
          (None, x1) \<Rightarrow> sed_in_place E quote unwrap suffix ns 2 p x1
        | (Some b, x1) \<Rightarrow>
            Option.bind (sed_one_in_place E quote suffix p path b x1) (\<lambda>(nxt, p1, x2).
              case nxt of
                Stops code \<Rightarrow> Some (code, x2)
              | Goes_On \<Rightarrow> sed_in_place E quote unwrap suffix ns status p1 x2)))"

fun sed_separate ::
  "('f, 're) sh_env \<Rightarrow> (string \<Rightarrow> string) \<Rightarrow> (gerr \<Rightarrow> gerr) \<Rightarrow> string list \<Rightarrow> int \<Rightarrow>
   're program \<Rightarrow> 'f sedw \<Rightarrow> (int \<times> 'f sedw) option"
where
  "sed_separate E quote unwrap [] status p x = Some (status, x)"
| "sed_separate E quote unwrap (n # ns) status p x =
     (case sed_open E unwrap n x of
        (None, x1) \<Rightarrow> sed_separate E quote unwrap ns 2 p x1
      | (Some b, x1) \<Rightarrow>
          Option.bind (sed_run (se_re E) (sed_applet_io E) p 0 [b] x1) (\<lambda>rpx.
          Option.bind (sed_finish quote rpx) (\<lambda>(nxt, p1, x2).
            case nxt of
              Stops code \<Rightarrow> Some (code, x2)
            | Goes_On \<Rightarrow> sed_separate E quote unwrap ns status p1 x2)))"

subsection \<open>The applet\<close>

definition sed_usage :: "string list" where
  "sed_usage = [''usage: sed [-nEs] [-i[SUFFIX]] [-e script]... [-f file]... [script] [file...]'',
     ''  -n, --quiet       no automatic printing'',
     ''  -e script         add a script (several are joined by newlines)'',
     ''  -f file           add the script in file'',
     ''  -E, -r            extended regular expressions'',
     ''  -i[SUFFIX]        edit files in place (keeping a backup if SUFFIX is given)'',
     ''  -s                treat files as separate rather than one stream'']"

definition close_all :: "'f fs_ops \<Rightarrow> string list \<Rightarrow> 'f \<Rightarrow> 'f" where
  "close_all F ps fs = fold (\<lambda>p fs. fst (fs_close F fs p)) ps fs"

text \<open>One run over all the inputs as one stream; stdin when there are none.\<close>

definition sed_stream ::
  "('f, 're) sh_env \<Rightarrow> (string \<Rightarrow> string) \<Rightarrow> (gerr \<Rightarrow> gerr) \<Rightarrow> string list \<Rightarrow>
   're program \<Rightarrow> 'f sedw \<Rightarrow> (int \<times> 'f sedw) option"
where
  "sed_stream E quote unwrap names p x =
     (let (rs, status, x1) = sed_open_all E unwrap names 0 x in
      Option.bind (sed_run (se_re E) (sed_applet_io E) p 0 rs x1) (\<lambda>rpx.
      Option.bind (sed_finish quote rpx) (\<lambda>(nxt, p1, x2).
        Some (case nxt of Stops code \<Rightarrow> code | Goes_On \<Rightarrow> status, x2))))"

definition run_sed ::
  "('f, 're) sh_env \<Rightarrow> (string \<Rightarrow> string) \<Rightarrow> (gerr \<Rightarrow> gerr) \<Rightarrow> string list \<Rightarrow> 'f sw \<Rightarrow> 'f run"
where
  "run_sed E quote unwrap args w =
     (case parse_sed_args (read_file E w) args of
        Inl Sed_Help \<Rightarrow> finish 1 (w\<lparr>sw_err := sw_err w @ lines_text sed_usage\<rparr>)
      | Inl (Sed_Err e) \<Rightarrow> finish 1 (err_ln (''sed: '' @ e) w)
      | Inr a \<Rightarrow>
         (case sed_compile (se_re E) (join_with (sa_scripts a) [CHR 0x0A]) (sa_quiet a) (sa_ere a) of
            Inl e \<Rightarrow> finish 1 (err_ln (''sed: '' @ sed_err_text quote e) w)
          | Inr p \<Rightarrow>
             map_option (\<lambda>(code, x). (code, (sx_world x)\<lparr>sw_fs := close_all (se_ops E) (sx_paths x) (sw_fs (sx_world x))\<rparr>))
               (let x = \<lparr>sx_world = w, sx_buf = [], sx_paths = []\<rparr> in
                if sa_files a = [] then sed_stream E quote unwrap [''-''] p x
                else if sa_in_place a then sed_in_place E quote unwrap (sa_suffix a) (sa_files a) 0 p x
                else if sa_separate a then sed_separate E quote unwrap (sa_files a) 0 p x
                else sed_stream E quote unwrap (sa_files a) p x)))"

subsection \<open>What an edit in place leaves\<close>

lemma close_all_only_at: "fs_laws V F \<Longrightarrow> only_at V F [] fs (close_all F ps fs)"
proof (induction ps arbitrary: fs)
  case (Cons p ps)
  have "only_at V F [] fs (fst (fs_close F fs p))"
    using fs_close_law [OF Cons.prems, of fs p] by (cases "fs_close F fs p") simp
  from only_at_trans [OF this Cons.IH [OF Cons.prems]] show ?case by (simp add: close_all_def)
qed (simp add: close_all_def)

text \<open>The paths an edit in place writes.\<close>

definition edited_paths :: "string \<Rightarrow> string \<Rightarrow> string list" where
  "edited_paths path suffix = (if suffix = [] then [path] else [path, backup_name path suffix])"

text \<open>Backup and file after \<open>sed_store\<close> has gone well.\<close>

lemma sed_store_effect:
  assumes laws: "fs_laws V (se_ops E)" and holds: "fs_holds (se_ops E) (sw_fs (sx_world x)) path b"
    and plain: "\<forall>q \<in> set (edited_paths path suffix). fv_plain V (sw_fs (sx_world x)) q"
    and st: "sed_store E path suffix (Inr info) x = Some (True, x')"
  shows "fs_text V (se_ops E) (sw_fs (sx_world x')) path (sx_buf x) \<and>
    (suffix \<noteq> [] \<and>
      fv_node V (sw_fs (sx_world x)) (backup_name path suffix) \<noteq> fv_node V (sw_fs (sx_world x)) path \<longrightarrow>
      fs_text V (se_ops E) (sw_fs (sx_world x')) (backup_name path suffix) b) \<and>
    only_at V (se_ops E) (edited_paths path suffix) (sw_fs (sx_world x)) (sw_fs (sx_world x'))"
proof -
  let ?F = "se_ops E" and ?fs = "sw_fs (sx_world x)" and ?bak = "backup_name path suffix"
  obtain fs1 berr where b: "(if suffix = [] then (?fs, None) else sed_backup ?F ?fs path suffix) = (fs1, berr)"
    by (metis surj_pair)
  have none: "berr = None"
    using st by (auto simp: sed_store_def b Let_def split: option.splits)
  obtain fs2 werr where w: "fs_write ?F fs1 path (sx_buf x) (fi_perm info) = (fs2, werr)"
    by (metis surj_pair)
  have x': "werr = None" "x' = sx_fs fs2 x"
    using st by (auto simp: sed_store_def b none w Let_def split: option.splits)
  have world: "sw_fs (sx_world x') = fs2" by (simp add: x' sx_fs_def)
  have p: "fv_plain V ?fs path" using plain by (simp add: edited_paths_def split: if_splits)
  show ?thesis
  proof (cases "suffix = []")
    case True
    with b have "fs1 = ?fs" by simp
    with fs_write_reads [OF laws _ w [unfolded x'(1)]] p True show ?thesis
      by (simp add: world edited_paths_def)
  next
    case False
    then have bp: "fv_plain V ?fs ?bak" using plain by (simp add: edited_paths_def)
    from False have "fs_write ?F ?fs ?bak b 420 = (fs1, None)"
      using b none by (simp add: sed_backup_def fs_holds_read [OF holds])
    from fs_write_reads [OF laws bp this]
    have 1: "fs_text V ?F fs1 ?bak b" "only_at V ?F [?bak] ?fs fs1" by simp_all
    have 2: "fs_text V ?F fs2 path (sx_buf x)" "only_at V ?F [path] fs1 fs2"
      using fs_write_reads [OF laws only_at_plain [OF 1(2) p] w [unfolded x'(1)]] by simp_all
    have bak: "fs_text V ?F fs2 ?bak b" if "fv_node V ?fs ?bak \<noteq> fv_node V ?fs path"
      using that by (intro only_at_text [OF 2(2) only_at_plain [OF 1(2) bp] _ 1(1)])
        (simp add: only_at_node [OF 1(2)])
    have "only_at V ?F ([?bak] @ [path]) ?fs fs2" by (rule only_at_trans [OF 1(2) 2(2)])
    then have "only_at V ?F (edited_paths path suffix) ?fs fs2"
      by (rule only_at_mono) (use False in \<open>simp add: edited_paths_def\<close>)
    with 2 bak show ?thesis unfolding world by blast
  qed
qed

text \<open>How the applet runs over one file with \<^verbatim>\<open>-i\<close>.\<close>

lemma run_sed_one:
  assumes "parse_sed_args (read_file E w) args = Inr a" "sa_in_place a" "sa_files a = [name]" "name \<noteq> ''-''"
    "sed_compile (se_re E) (join_with (sa_scripts a) [CHR 0x0A]) (sa_quiet a) (sa_ere a) = Inr p"
    "fs_stat (se_ops E) (sw_fs w) (resolve_arg E name) = Inr info" "\<not> fi_dir info"
    "fs_holds (se_ops E) (sw_fs w) (resolve_arg E name) b"
    "sed_run (se_re E) (sed_applet_io E) p 2 [b] \<lparr>sx_world = w, sx_buf = [], sx_paths = []\<rparr> = Some rpx"
  shows "run_sed E quote unwrap args w =
    map_option (\<lambda>(code, x). (code, (sx_world x)\<lparr>sw_fs := close_all (se_ops E) (sx_paths x) (sw_fs (sx_world x))\<rparr>))
      (Option.bind (sed_finish quote rpx) (\<lambda>(nxt, p1, x1).
        if nxt = Stops 4 then Some (4, x1)
        else map_option (\<lambda>(ok, x2). (if \<not> ok then 4 else case nxt of Stops code \<Rightarrow> code | Goes_On \<Rightarrow> 0, x2))
          (sed_store E (resolve_arg E name) (sa_suffix a) (Inr info) x1)))"
  using assms
  by (auto simp: run_sed_def sed_open_def read_file_def fs_holds_read is_dir_info_def sed_one_in_place_def
      intro!: arg_cong [of _ _ "map_option _"]
      split: option.splits prod.splits sed_next.splits bind_splits)

text \<open>
  C14. \<^verbatim>\<open>sed -i\<close> on one file that does not end with 4 has stored the edit: the file has what the
  script wrote for it, and the backup (where a suffix asks for one, and does not name the file
  itself) what the file held when the script was done; whoever may read them, by whatever path,
  reads that, and every other file reads as the script's run left it. File and backup are
  ordinary files, or the backup is none yet; the script may write files of its own.
\<close>

theorem sed_in_place_edits:
  assumes "fs_laws V (se_ops E)"
    and "parse_sed_args (read_file E w) args = Inr a" "sa_in_place a" "sa_files a = [name]" "name \<noteq> ''-''"
    and "sed_compile (se_re E) (join_with (sa_scripts a) [CHR 0x0A]) (sa_quiet a) (sa_ere a) = Inr p"
    and "path = resolve_arg E name" "bak = backup_name path (sa_suffix a)"
    and "fs_stat (se_ops E) (sw_fs w) path = Inr info" "\<not> fi_dir info" "fs_holds (se_ops E) (sw_fs w) path b"
    and "sed_run (se_re E) (sed_applet_io E) p 2 [b] \<lparr>sx_world = w, sx_buf = [], sx_paths = []\<rparr> =
      Some (r, p1, x1)" "fs1 = sw_fs (sx_world x1)"
    and "fs_holds (se_ops E) fs1 path c" "\<forall>q \<in> set (edited_paths path (sa_suffix a)). fv_plain V fs1 q"
    and "run_sed E quote unwrap args w = Some (code, w')" "code \<noteq> 4"
  shows "fs_text V (se_ops E) (sw_fs w') path (sx_buf x1) \<and>
    (sa_suffix a \<noteq> [] \<and> fv_node V fs1 bak \<noteq> fv_node V fs1 path \<longrightarrow>
      fs_text V (se_ops E) (sw_fs w') bak c) \<and>
    only_at V (se_ops E) (edited_paths path (sa_suffix a)) fs1 (sw_fs w')"
proof -
  from assms(16,17) run_sed_one [OF assms(2-6) assms(9,10,11) [unfolded assms(7)] assms(12)]
  obtain x2 x3 nxt p2 where fin: "sed_finish quote (r, p1, x1) = Some (nxt, p2, x2)" "nxt \<noteq> Stops 4"
    and x3: "sed_store E path (sa_suffix a) (Inr info) x2 = Some (True, x3)"
    and w': "w' = (sx_world x3)\<lparr>sw_fs := close_all (se_ops E) (sx_paths x3) (sw_fs (sx_world x3))\<rparr>"
    by (auto simp: assms(7) bind_eq_Some_conv split: if_splits)
  have x2: "x2 = x1"
    using fin by (auto simp: sed_finish_def split: run_result.splits sed_fail.splits)
  let ?F = "se_ops E" and ?fs3 = "sw_fs (sx_world x3)"
  from sed_store_effect [OF assms(1) _ _ x3, of c] assms(13,14,15) x2
  have st: "fs_text V ?F ?fs3 path (sx_buf x1)"
    "sa_suffix a \<noteq> [] \<and> fv_node V fs1 bak \<noteq> fv_node V fs1 path \<longrightarrow> fs_text V ?F ?fs3 bak c"
    "only_at V ?F (edited_paths path (sa_suffix a)) fs1 ?fs3"
    by (simp_all add: assms(8))
  have cl: "only_at V ?F [] ?fs3 (sw_fs w')"
    using close_all_only_at [OF assms(1)] by (simp add: w')
  have keep: "fs_text V ?F (sw_fs w') q t" if "q \<in> set (edited_paths path (sa_suffix a))" "fs_text V ?F ?fs3 q t" for q t
    using that(1) assms(15) by (intro only_at_text [OF cl only_at_plain [OF st(3)] _ that(2)]) auto
  have "path \<in> set (edited_paths path (sa_suffix a))"
    "sa_suffix a \<noteq> [] \<Longrightarrow> bak \<in> set (edited_paths path (sa_suffix a))"
    by (simp_all add: edited_paths_def assms(8))
  with st(1,2) only_at_trans [OF st(3) cl] keep show ?thesis by auto
qed

definition demo_file :: mem_fs where
  "demo_file = [(''/home/user/f'', Some (''ab'' @ [CHR 0x0A]))]"

abbreviation demo_sedw :: "mem_fs sedw" where
  "demo_sedw \<equiv> \<lparr>sx_world = demo_world demo_file [], sx_buf = [], sx_paths = []\<rparr>"

theorem sed_in_place_edits_witness:
  "\<exists>w'. run_sed demo_env id id [''-i.bak'', ''s/a/b/'', ''f''] (demo_world demo_file []) = Some (0, w') \<and>
     fs_holds mem_ops (sw_fs w') ''/home/user/f'' (''bb'' @ [CHR 0x0A]) \<and>
     fs_holds mem_ops (sw_fs w') ''/home/user/f.bak'' (''ab'' @ [CHR 0x0A])"
proof -
  let ?args = "[''-i.bak'', ''s/a/b/'', ''f'']" and ?w = "demo_world demo_file []"
  let ?c = "sed_compile (se_re demo_env) (join_with [''s/a/b/''] [CHR 0x0A]) False False"
  let ?r = "sed_run (se_re demo_env) (sed_applet_io demo_env) (projr ?c) 2 [''ab'' @ [CHR 0x0A]] demo_sedw"
  define a where "a = \<lparr>sa_scripts = [''s/a/b/''], sa_files = [''f''], sa_quiet = False, sa_ere = False,
    sa_separate = True, sa_in_place = True, sa_suffix = ''.bak''\<rparr>"
  have args: "parse_sed_args (read_file demo_env ?w) ?args = Inr a" unfolding a_def by code_simp
  have "\<not> isl ?c" by code_simp
  then have c: "?c = Inr (projr ?c)" by simp
  have "map_option (\<lambda>(r, p, x). (r, sw_fs (sx_world x), sx_buf x)) ?r =
      Some (RunOk, demo_file, ''bb'' @ [CHR 0x0A])" by code_simp
  then obtain p1 x1 where r: "?r = Some (RunOk, p1, x1)" "sw_fs (sx_world x1) = demo_file"
      "sx_buf x1 = ''bb'' @ [CHR 0x0A]" by auto
  have "map_option fst (run_sed demo_env id id ?args ?w) = Some 0" by code_simp
  then obtain w' where w': "run_sed demo_env id id ?args ?w = Some (0, w')" by auto
  have path: "resolve_arg demo_env ''f'' = ''/home/user/f''" "backup_name ''/home/user/f'' ''.bak'' = ''/home/user/f.bak''"
    by code_simp+
  have ops: "se_ops demo_env = mem_ops" by (simp add: demo_env_def)
  have stat: "fs_stat mem_ops (sw_fs ?w) ''/home/user/f'' = Inr (mem_info ''/home/user/f'' (Some (''ab'' @ [CHR 0x0A])))"
    and holds: "fs_holds mem_ops (sw_fs ?w) ''/home/user/f'' (''ab'' @ [CHR 0x0A])"
    and held: "fs_holds mem_ops demo_file ''/home/user/f'' (''ab'' @ [CHR 0x0A])"
    by (simp_all add: mem_stat mem_open demo_world_def demo_file_def fs_holds_def)
  have sa: "sa_in_place a" "sa_files a = [''f'']" "sa_suffix a = ''.bak''" "sa_quiet a = False" "sa_ere a = False"
    "sa_scripts a = [''s/a/b/'']"
    by (simp_all add: a_def)
  have comp: "sed_compile (se_re demo_env) (join_with (sa_scripts a) [CHR 0x0A]) (sa_quiet a) (sa_ere a) = Inr (projr ?c)"
    unfolding sa by (rule c)
  have "fs_text mem_view mem_ops (sw_fs w') ''/home/user/f'' (sx_buf x1) \<and>
     (sa_suffix a \<noteq> [] \<and> fv_node mem_view demo_file ''/home/user/f.bak'' \<noteq> fv_node mem_view demo_file ''/home/user/f'' \<longrightarrow>
       fs_text mem_view mem_ops (sw_fs w') ''/home/user/f.bak'' (''ab'' @ [CHR 0x0A])) \<and>
     only_at mem_view mem_ops (edited_paths ''/home/user/f'' (sa_suffix a)) demo_file (sw_fs w')"
    by (rule sed_in_place_edits [OF _ args sa(1,2) _ comp _ _ _ _ _ r(1) r(2) [symmetric] _ _ w',
          unfolded ops, OF mem_ops_laws _ path(1) [symmetric] _ stat _ holds held])
      (simp_all add: sa path mem_info_def)
  moreover have "map_option (\<lambda>r. (map_of (sw_fs (snd r)) ''/home/user/f'' \<noteq> Some None,
      map_of (sw_fs (snd r)) ''/home/user/f.bak'' \<noteq> Some None)) (run_sed demo_env id id ?args ?w) = Some (True, True)"
    by code_simp
  ultimately show ?thesis using r(3) w' by (simp add: mem_text mem_holds sa)
qed

text \<open>
  C31. An edit in place of one file whose script fails, or ends with the status 4 (\<^verbatim>\<open>q4\<close>, which the
  applet takes for a failure), exits with 4 and writes neither the file nor a backup: every file
  reads as the run of the script left it. (A \<^verbatim>\<open>WriteFile\<close> that fails after it has emptied the
  file is another matter: what it leaves is for the file system to say.)
\<close>

theorem sed_in_place_failure_keeps:
  assumes "fs_laws V (se_ops E)"
    and "parse_sed_args (read_file E w) args = Inr a" "sa_in_place a" "sa_files a = [name]" "name \<noteq> ''-''"
    and "sed_compile (se_re E) (join_with (sa_scripts a) [CHR 0x0A]) (sa_quiet a) (sa_ere a) = Inr p"
    and "path = resolve_arg E name"
    and "fs_stat (se_ops E) (sw_fs w) path = Inr info" "\<not> fi_dir info" "fs_holds (se_ops E) (sw_fs w) path b"
    and "sed_run (se_re E) (sed_applet_io E) p 2 [b] \<lparr>sx_world = w, sx_buf = [], sx_paths = []\<rparr> =
      Some (r, p1, x1)"
    and "(\<exists>e. r = RunFails (Fails e)) \<or> (\<exists>m. r = RunWriteError m) \<or> r = RunQuit \<and> p_code p1 = 4"
  shows "\<exists>w'. run_sed E quote unwrap args w = Some (4, w') \<and>
    only_at V (se_ops E) [] (sw_fs (sx_world x1)) (sw_fs w')"
proof -
  obtain x2 where x2: "sed_finish quote (r, p1, x1) = Some (Stops 4, p1, x2)"
    "sw_fs (sx_world x2) = sw_fs (sx_world x1)"
    using assms(12) by (auto simp: sed_finish_def sx_err_def err_ln_def)
  from run_sed_one [OF assms(2-6) assms(8,9,10) [unfolded assms(7)] assms(11)] x2 show ?thesis
    by (simp add: close_all_only_at [OF assms(1)] flip: x2(2))
qed

theorem sed_in_place_failure_keeps_witness:
  "\<exists>w'. run_sed demo_env id id [''-i'', ''s/a/b/;q4'', ''f''] (demo_world demo_file []) = Some (4, w') \<and>
     fs_holds mem_ops (sw_fs w') ''/home/user/f'' (''ab'' @ [CHR 0x0A])"
proof -
  let ?args = "[''-i'', ''s/a/b/;q4'', ''f'']" and ?w = "demo_world demo_file []"
  let ?c = "sed_compile (se_re demo_env) (join_with [''s/a/b/;q4''] [CHR 0x0A]) False False"
  let ?r = "sed_run (se_re demo_env) (sed_applet_io demo_env) (projr ?c) 2 [''ab'' @ [CHR 0x0A]] demo_sedw"
  define a where "a = \<lparr>sa_scripts = [''s/a/b/;q4''], sa_files = [''f''], sa_quiet = False, sa_ere = False,
    sa_separate = True, sa_in_place = True, sa_suffix = []\<rparr>"
  have args: "parse_sed_args (read_file demo_env ?w) ?args = Inr a" unfolding a_def by code_simp
  have "\<not> isl ?c" by code_simp
  then have c: "?c = Inr (projr ?c)" by simp
  have "map_option (\<lambda>(r, p, x). (r, p_code p, sw_fs (sx_world x))) ?r = Some (RunQuit, 4, demo_file)"
    by code_simp
  then obtain p1 x1 where r: "?r = Some (RunQuit, p1, x1)" "p_code p1 = 4" "sw_fs (sx_world x1) = demo_file"
    by auto
  have path: "resolve_arg demo_env ''f'' = ''/home/user/f''" by code_simp
  have ops: "se_ops demo_env = mem_ops" by (simp add: demo_env_def)
  have stat: "fs_stat mem_ops (sw_fs ?w) ''/home/user/f'' = Inr (mem_info ''/home/user/f'' (Some (''ab'' @ [CHR 0x0A])))"
    and holds: "fs_holds mem_ops (sw_fs ?w) ''/home/user/f'' (''ab'' @ [CHR 0x0A])"
    by (simp_all add: mem_stat mem_open demo_world_def demo_file_def fs_holds_def)
  have held: "fs_holds mem_ops (sw_fs (sx_world x1)) ''/home/user/f'' (''ab'' @ [CHR 0x0A])"
    by (simp add: r(3) mem_open demo_file_def fs_holds_def)
  have sa: "sa_in_place a" "sa_files a = [''f'']" "sa_quiet a = False" "sa_ere a = False" "sa_scripts a = [''s/a/b/;q4'']"
    by (simp_all add: a_def)
  have comp: "sed_compile (se_re demo_env) (join_with (sa_scripts a) [CHR 0x0A]) (sa_quiet a) (sa_ere a) = Inr (projr ?c)"
    unfolding sa by (rule c)
  have "\<exists>w'. run_sed demo_env id id ?args ?w = Some (4, w') \<and>
      only_at mem_view mem_ops [] (sw_fs (sx_world x1)) (sw_fs w')"
    by (rule sed_in_place_failure_keeps [OF _ args sa(1,2) _ comp _ _ _ _ r(1),
          unfolded ops, OF mem_ops_laws _ path [symmetric] stat _ holds])
      (simp_all add: mem_info_def r(2))
  then show ?thesis using only_at_holds [OF _ _ _ held] by fastforce
qed

text \<open>
  Standard input cannot be edited in place: with \<^verbatim>\<open>-i\<close> and no suffix the applet dereferences the
  file information it does not have.
\<close>

lemma sed_in_place_stdin_panics:
  assumes "fs_stat (se_ops E) (sw_fs (sx_world x)) (resolve_arg E ''-'') = Inl e"
    "sed_run (se_re E) (sed_applet_io E) p 2 [b] (x1\<lparr>sx_buf := []\<rparr>) = Some (RunOk, p1, x2)"
    "sed_open E unwrap ''-'' x = (Some b, x1)"
  shows "sed_in_place E quote unwrap [] (''-'' # ns) status p x = None"
proof -
  have "sw_fs (sx_world x1) = sw_fs (sx_world x)"
    using assms(3) by (auto simp: sed_open_def)
  with assms show ?thesis
    by (simp add: is_dir_info_def sed_one_in_place_def sed_finish_def sed_store_def)
qed

end
