(* ===== verification/Prompt_Complete.thy ===== *)
theory Prompt_Complete
  imports Mem_Files
begin

text \<open>
  The prompt and the completion of the shell: the expansion of \<^verbatim>\<open>PS1\<close> (\<^verbatim>\<open>src/shell/prompt.go\<close>) and
  the candidates for the word under the cursor (\<^verbatim>\<open>src/shell/complete.go\<close>), which the line editor
  inserts (theory \<open>Line_Editor\<close>).
\<close>

subsection \<open>PS1\<close>

text \<open>
  What the expansion looks at: the shell's variables, the machine's name, the working directory,
  whether the process runs as root, and the clock, by the layout it is formatted with.
\<close>

record prompt_env =
  pe_var :: "string \<Rightarrow> string"
  pe_host :: string
  pe_dir :: string
  pe_root :: bool
  pe_time :: "string \<Rightarrow> string"

definition name_char :: "bool \<Rightarrow> char \<Rightarrow> bool" where
  "name_char start c =
     (c = CHR ''_'' \<or> 97 \<le> byte_of c \<and> byte_of c \<le> 122 \<or> 65 \<le> byte_of c \<and> byte_of c \<le> 90 \<or>
      \<not> start \<and> is_digit c)"

definition prompt_var_name :: "string \<Rightarrow> string \<times> nat" where
  "prompt_var_name s =
     (if has_prefix s ''{'' then
        (case index_byte s (CHR ''}'') of
           Some i \<Rightarrow> if 1 < i then (drop 1 (take i s), i + 1) else ([], 0)
         | None \<Rightarrow> ([], 0))
      else (case s of
          [] \<Rightarrow> ([], 0)
        | c # cs \<Rightarrow> (let name = (if name_char True c then c # takeWhile (name_char False) cs else [])
                     in (name, length name))))"

definition home_dir :: "prompt_env \<Rightarrow> string" where
  "home_dir P =
     (let home = pe_var P ''HOME''; dir = pe_dir P in
      if home \<noteq> [] \<and> home \<noteq> ''/'' \<and> (dir = home \<or> has_prefix dir (home @ ''/''))
      then ''~'' @ drop (length home) dir else dir)"

definition oct_char :: "char \<Rightarrow> bool" where
  "oct_char c = (48 \<le> byte_of c \<and> byte_of c \<le> 55)"

definition octal_byte :: "string \<Rightarrow> char" where
  "octal_byte ds = chr_of (fold (\<lambda>d n. n * 8 + (byte_of d - 48)) ds 0)"

text \<open>What an escape other than an octal one stands for.\<close>

definition prompt_escape :: "prompt_env \<Rightarrow> char \<Rightarrow> string" where
  "prompt_escape P e =
     (if e = CHR ''u'' then pe_var P ''USER''
      else if e = CHR ''h'' \<or> e = CHR ''H'' then
        (let host = (if pe_var P ''HOSTNAME'' = [] then pe_host P else pe_var P ''HOSTNAME'') in
         if e = CHR ''h'' then fst (cut_byte host (CHR ''.'')) else host)
      else if e = CHR ''w'' then home_dir P
      else if e = CHR ''W'' then
        (let dir = home_dir P in if dir \<noteq> ''~'' \<and> dir \<noteq> ''/'' then path_base dir else dir)
      else if e = CHR ''$'' then
        (if pe_var P ''EUID'' = ''0'' \<or> pe_var P ''EUID'' = [] \<and> pe_root P then ''#'' else ''$'')
      else if e = CHR ''n'' then [CHR 0x0A]
      else if e = CHR ''r'' then [CHR 0x0D]
      else if e = CHR ''e'' then [CHR 0x1B]
      else if e = CHR ''a'' then [CHR 0x07]
      else if e = CHR 0x5C then [CHR 0x5C]
      else if e = CHR ''['' then [CHR 0x01]
      else if e = CHR '']'' then [CHR 0x02]
      else if e = CHR ''t'' then pe_time P ''15:04:05''
      else if e = CHR ''T'' then pe_time P ''03:04:05''
      else if e = CHR ''@'' then pe_time P ''03:04 PM''
      else if e = CHR ''A'' then pe_time P ''15:04''
      else if e = CHR ''d'' then pe_time P ''Mon Jan 02''
      else [CHR 0x5C, e])"

function expand_prompt :: "prompt_env \<Rightarrow> string \<Rightarrow> string" where
  "expand_prompt P p =
     (case p of
        [] \<Rightarrow> []
      | c # cs \<Rightarrow>
         (let (name, n) = (if c = CHR ''$'' then prompt_var_name cs else ([], 0)) in
          if 0 < n then pe_var P name @ expand_prompt P (drop n cs)
          else if c \<noteq> CHR 0x5C \<or> cs = [] then c # expand_prompt P cs
          else if cs ! 0 \<in> set ''0123'' then
            (let ds = takeWhile oct_char (take 3 cs)
             in octal_byte ds # expand_prompt P (drop (max 1 (length ds)) cs))
          else prompt_escape P (cs ! 0) @ expand_prompt P (drop 1 cs)))"
  by pat_completeness auto
termination by (relation "measure (\<lambda>(P, p). length p)") auto

declare expand_prompt.simps [simp del]

text \<open>\<^verbatim>\<open>PS1\<close>: nothing while the variable is what the shell started with.\<close>

definition shell_ps1 :: "prompt_env \<Rightarrow> string \<Rightarrow> string option" where
  "shell_ps1 P start =
     (if pe_var P ''PS1'' = start then None else Some (expand_prompt P (pe_var P ''PS1'')))"

subsection \<open>What the expansion does\<close>

text \<open>A byte written in octal.\<close>

definition octal_quote :: "char \<Rightarrow> string" where
  "octal_quote c = [CHR 0x5C, chr_of (48 + byte_of c div 64), chr_of (48 + byte_of c div 8 mod 8),
     chr_of (48 + byte_of c mod 8)]"

lemma octal_lead: "n < 4 \<Longrightarrow> chr_of (48 + n) \<in> set ''0123''"
proof -
  have "list_all (\<lambda>n. chr_of (48 + n) \<in> set ''0123'') [0..<4]" by code_simp
  then show "n < 4 \<Longrightarrow> chr_of (48 + n) \<in> set ''0123''"
    unfolding list_all_iff by (metis atLeastLessThan_iff le0 set_upt)
qed

lemma octal_digits: "(n div 64 * 8 + n div 8 mod 8) * 8 + n mod 8 = (n :: nat)"
proof -
  have "n div 64 = n div 8 div 8" by (simp add: div_mult2_eq [symmetric])
  then show ?thesis by (metis div_mult_mod_eq)
qed

lemma expand_octal: "expand_prompt P (octal_quote c @ s) = c # expand_prompt P s"
proof -
  define x y z where "x = byte_of c div 64" and "y = byte_of c div 8 mod 8" and "z = byte_of c mod 8"
  let ?ds = "[chr_of (48 + x), chr_of (48 + y), chr_of (48 + z)]"
  have b: "x < 4" "y < 8" "z < 8"
    using byte_of_bound [of c] by (simp_all add: x_def y_def z_def div_less_iff_less_mult)
  then have v: "byte_of (chr_of (48 + x)) = 48 + x" "byte_of (chr_of (48 + y)) = 48 + y"
    "byte_of (chr_of (48 + z)) = 48 + z" by simp_all
  have "octal_byte ?ds = chr_of ((x * 8 + y) * 8 + z)"
    by (simp add: octal_byte_def v)
  then have val: "octal_byte ?ds = c"
    using octal_digits [of "byte_of c"] by (simp add: x_def y_def z_def)
  have oct: "takeWhile oct_char (take 3 (?ds @ s)) = ?ds"
    using b by (simp add: oct_char_def v)
  have q: "octal_quote c @ s = CHR 0x5C # (?ds @ s)"
    by (simp add: octal_quote_def x_def y_def z_def)
  show ?thesis
    unfolding q using octal_lead [OF b(1)] val oct
    by (subst expand_prompt.simps) (simp add: Let_def del: set_simps)
qed

lemma expand_var:
  "prompt_var_name s = (name, n) \<Longrightarrow> 0 < n \<Longrightarrow>
   expand_prompt P (CHR ''$'' # s) = pe_var P name @ expand_prompt P (drop n s)"
  by (subst expand_prompt.simps) simp

text \<open>
  Any text can be put in a prompt: with its bytes written in octal, \<^verbatim>\<open>PS1\<close> shows the text
  itself, and what a variable in front of it holds stands there as it is, not expanded again.
\<close>

lemma prompt_shows_text:
  assumes "v \<noteq> []" "CHR ''}'' \<notin> set v"
  shows "expand_prompt P (''${'' @ v @ ''}'' @ concat (map octal_quote s)) = pe_var P v @ s"
proof -
  have shown: "expand_prompt P (concat (map octal_quote s)) = s"
  proof (induction s)
    case Nil
    then show ?case by (simp add: expand_prompt.simps)
  qed (simp add: expand_octal)
  have "index_byte ((CHR ''{'' # v) @ CHR ''}'' # concat (map octal_quote s)) (CHR ''}'') =
      Some (length (CHR ''{'' # v))"
    using assms(2) by (intro index_byte_append) simp
  then have "prompt_var_name (CHR ''{'' # v @ CHR ''}'' # concat (map octal_quote s)) = (v, length v + 2)"
    using assms(1) by (simp add: prompt_var_name_def)
  from expand_var [OF this, of P] show ?thesis by (simp add: shown)
qed

lemma prompt_shows_text_witness:
  "expand_prompt P (''${USER}'' @ concat (map octal_quote '' $HOME '')) = pe_var P ''USER'' @ '' $HOME ''"
  using prompt_shows_text [of "''USER''" P "'' $HOME ''"] by simp

subsection \<open>Completion\<close>

text \<open>
  What completion looks at besides the files: the applets' names, and for a shell on the machine
  the entries of each directory of its \<^verbatim>\<open>PATH\<close> that could be read, with their names, whether they
  are directories and their modes (\<open>None\<close> when the information failed).
\<close>

record comp_env =
  cp_applets :: "string list"
  cp_native :: bool
  cp_path :: "(string \<times> bool \<times> nat option) list option list"
  cp_home :: string

definition builtins :: "string list" where
  "builtins = [''cd'', ''pwd'', ''echo'', ''printf'', ''read'', ''exit'', ''export'', ''unset'',
     ''source'', ''test'', ''true'', ''false'', ''set'', ''shift'', ''local'',
     ''declare'', ''eval'', ''alias'', ''unalias'', ''type'', ''return'', ''break'',
     ''continue'', ''pushd'', ''popd'', ''dirs'', ''let'', ''getopts'', ''wait'',
     ''jobs'', ''kill'', ''disown'', ''fg'', ''bg'', ''enable'', ''compgen'', ''history'',
     ''builtin'', ''umask'', ''times'', ''trap'', ''shopt'', ''mapfile'', ''readarray'']"

definition path_programs :: "comp_env \<Rightarrow> string \<Rightarrow> string list" where
  "path_programs C prefix = concat (map (\<lambda>d. case d of
     None \<Rightarrow> []
   | Some es \<Rightarrow> concat (map (\<lambda>(name, dir, mode).
       if \<not> has_prefix name prefix \<or> dir then []
       else (case mode of Some m \<Rightarrow> if m mod 2 = 1 \<or> m div 8 mod 2 = 1 \<or> m div 64 mod 2 = 1 then [name] else []
             | None \<Rightarrow> [])) es)) (cp_path C))"

fun add_names :: "string \<Rightarrow> string list \<Rightarrow> string list \<Rightarrow> string list" where
  "add_names word [] names = names"
| "add_names word (n # ns) names =
     add_names word ns (if has_prefix n word \<and> n \<notin> set names then names @ [n] else names)"

definition complete_command :: "comp_env \<Rightarrow> string \<Rightarrow> string list" where
  "complete_command C word =
     sort_key (map byte_of) (add_names word
       (cp_applets C @ builtins @ (if cp_native C then path_programs C word else [])) [])"

definition complete_path :: "('f, 're) sh_env \<Rightarrow> comp_env \<Rightarrow> 'f \<Rightarrow> string \<Rightarrow> string list" where
  "complete_path E C fs word =
     (let (dir, base) = path_split word;
          search1 = (if has_prefix dir ''~/'' \<and> cp_native C then path_join [cp_home C, drop 2 dir] else dir);
          search = (if is_abs search1 then search1 else path_join [se_dir E, search1]) in
      case fs_list (se_ops E) fs (path_clean search) of
        Inl e \<Rightarrow> []
      | Inr infos \<Rightarrow> sort_key (map byte_of) (map (\<lambda>i. dir @ fi_name i @ (if fi_dir i then ''/'' else []))
          (filter (\<lambda>i. has_prefix (fi_name i) base) infos)))"

definition shell_complete :: "('f, 're) sh_env \<Rightarrow> comp_env \<Rightarrow> 'f \<Rightarrow> string \<Rightarrow> bool \<Rightarrow> string list" where
  "shell_complete E C fs word first =
     (if first \<and> slash \<notin> set word then complete_command C word else complete_path E C fs word)"

lemma add_names_inv:
  "\<lbrakk>distinct names; list_all (\<lambda>n. has_prefix n word) names\<rbrakk> \<Longrightarrow>
   distinct (add_names word ns names) \<and>
   set (add_names word ns names) = set names \<union> {n \<in> set ns. has_prefix n word}"
  by (induction ns arbitrary: names) (auto split: if_splits)

lemma path_split_append: "fst (path_split p) @ snd (path_split p) = p"
  by (simp add: path_split_def split: option.split)

lemma split_prefix:
  assumes "path_split word = (dir, base)" "has_prefix n base"
  shows "has_prefix (dir @ n @ t) word"
proof -
  obtain u where "n = base @ u" using assms(2) by (auto simp: has_prefix_iff)
  moreover have "dir @ base = word" using path_split_append [of word] assms(1) by simp
  ultimately have "dir @ n @ t = word @ (u @ t)" by (metis append.assoc)
  then show ?thesis by (metis has_prefix_append)
qed

lemma complete_path_extends:
  assumes "c \<in> set (complete_path E C fs word)"
  shows "has_prefix c word"
proof -
  obtain dir base where s: "path_split word = (dir, base)" by fastforce
  have "\<exists>n t. has_prefix n base \<and> c = dir @ n @ t"
    using assms unfolding complete_path_def s Let_def prod.case by (auto split: sum.splits)
  then show ?thesis using split_prefix [OF s] by blast
qed

text \<open>
  C34. Every candidate the shell offers begins with the word being completed, so the editor's
  \<^verbatim>\<open>candidates[0][len(word):]\<close> is in range; the candidates are sorted, and those for a command
  are, each once, the applets, builtins and programs with that prefix.
\<close>

theorem completion_extends_word:
  "list_all (\<lambda>c. has_prefix c word \<and> length word \<le> length c) (shell_complete E C fs word first) \<and>
   sorted (map (map byte_of) (shell_complete E C fs word first)) \<and>
   (first \<and> slash \<notin> set word \<longrightarrow> distinct (shell_complete E C fs word first) \<and>
      set (shell_complete E C fs word first) =
        {n \<in> set (cp_applets C) \<union> set builtins \<union> (if cp_native C then set (path_programs C word) else {}).
          has_prefix n word})"
proof -
  let ?all = "cp_applets C @ builtins @ (if cp_native C then path_programs C word else [])"
  have cmd: "distinct (complete_command C word)"
    "set (complete_command C word) = {n \<in> set ?all. has_prefix n word}"
    using add_names_inv [of "[]" word ?all] by (simp_all add: complete_command_def)
  have sorted: "sorted (map (map byte_of) (shell_complete E C fs word first))"
    by (auto simp: shell_complete_def complete_command_def complete_path_def Let_def
        split: sum.split prod.split)
  have "has_prefix c word" if "c \<in> set (shell_complete E C fs word first)" for c
    using that cmd(2) complete_path_extends by (auto simp: shell_complete_def split: if_splits)
  then have "list_all (\<lambda>c. has_prefix c word \<and> length word \<le> length c) (shell_complete E C fs word first)"
    by (fastforce simp: list_all_iff has_prefix_iff)
  with sorted cmd show ?thesis
    by (simp add: shell_complete_def Un_assoc)
qed

definition demo_comp :: comp_env where
  "demo_comp = \<lparr>cp_applets = [''sed'', ''seq''], cp_native = False, cp_path = [], cp_home = []\<rparr>"

theorem completion_extends_word_witness:
  "set (shell_complete demo_env demo_comp [] ''se'' True) = {''sed'', ''seq'', ''set''}"
proof -
  have "set (shell_complete demo_env demo_comp [] ''se'' True) =
      {n \<in> set (cp_applets demo_comp) \<union> set builtins. has_prefix n ''se''}"
    using completion_extends_word [of "''se''" demo_env demo_comp "[]" True]
    by (simp add: demo_comp_def slash_def)
  also have "\<dots> = set (filter (\<lambda>n. has_prefix n ''se'') (cp_applets demo_comp @ builtins))" by auto
  also have "filter (\<lambda>n. has_prefix n ''se'') (cp_applets demo_comp @ builtins) = [''sed'', ''seq'', ''set'']"
    by code_simp
  finally show ?thesis by simp
qed

end
