(* ===== verification/Keyed.thy ===== *)
theory Keyed
  imports Main
begin

text \<open>
  What the parts that keep things by name promise those who look them up: the applets of the shell,
  the widgets programs offer, the sessions of the shells. The contract is stated once, with what
  follows for any order of registrations; each part shows that its own operations keep it.
\<close>

locale keyed =
  fixes look :: "'m \<Rightarrow> 'k \<Rightarrow> 'v option"
    and put :: "'k \<Rightarrow> 'v \<Rightarrow> 'm \<Rightarrow> 'm"
    and ok :: "'m \<Rightarrow> bool"
  assumes look_put: "ok m \<Longrightarrow> look (put k v m) j = (if j = k then Some v else look m j)"
    and ok_put: "ok m \<Longrightarrow> ok (put k v m)"
begin

definition puts :: "('k \<times> 'v) list \<Rightarrow> 'm \<Rightarrow> 'm" where
  "puts kvs m = fold (\<lambda>(k, v). put k v) kvs m"

lemma ok_puts: "ok m \<Longrightarrow> ok (puts kvs m)"
  by (induction kvs arbitrary: m) (auto simp: puts_def ok_put)

text \<open>After any registrations, the last one under a name is what it finds.\<close>

lemma look_puts: "ok m \<Longrightarrow> look (puts kvs m) j = (case map_of (rev kvs) j of Some v \<Rightarrow> Some v | None \<Rightarrow> look m j)"
proof (induction kvs arbitrary: m)
  case (Cons x kvs)
  from Cons.IH [OF ok_put [OF Cons.prems]] Cons.prems show ?case
    by (cases x) (auto simp: puts_def look_put map_add_def split: option.split)
qed (simp add: puts_def)

lemma look_last: "ok m \<Longrightarrow> look (puts (kvs @ [(k, v)]) m) k = Some v"
  by (simp add: look_puts)

lemma puts_order:
  assumes "ok m" "distinct (map fst kvs)" "set kvs = set kvs'" "distinct (map fst kvs')"
  shows "look (puts kvs m) j = look (puts kvs' m) j"
proof -
  have "map_of (rev kvs) = map_of (rev kvs')"
    using assms(2-4) by (intro map_of_eqI) (auto simp: rev_map [symmetric] dest!: map_of_SomeD intro!: map_of_is_SomeI)
  then show ?thesis by (simp add: look_puts assms(1))
qed

end

text \<open>What can be taken back.\<close>

locale keyed_del = keyed look put ok
  for look :: "'m \<Rightarrow> 'k \<Rightarrow> 'v option" and put :: "'k \<Rightarrow> 'v \<Rightarrow> 'm \<Rightarrow> 'm" and ok :: "'m \<Rightarrow> bool" +
  fixes del :: "'k \<Rightarrow> 'm \<Rightarrow> 'm"
  assumes look_del: "ok m \<Longrightarrow> look (del k m) j = (if j = k then None else look m j)"
    and ok_del: "ok m \<Longrightarrow> ok (del k m)"
begin

text \<open>What is registered and taken back leaves every name as it was before, if its own was free.\<close>

lemma put_del: "ok m \<Longrightarrow> look m k = None \<Longrightarrow> look (del k (put k v m)) j = look m j"
  by (simp add: look_del look_put ok_put)

lemma del_all:
  assumes "ok m"
  shows "look (fold del ks m) j = (if j \<in> set ks then None else look m j)"
  using assms by (induction ks arbitrary: m) (auto simp: look_del ok_del)

end

end
