(* ===== verification/Shell_Core.thy ===== *)
theory Shell_Core
  imports Text_Applets_Correct Fs_Applets Find_Applets Sed_Applet Keyed
begin

text \<open>
  The shell itself (\<^verbatim>\<open>src/shell/shell.go\<close>) and the applets that need it (\<^verbatim>\<open>src/shell/applets.go\<close>,
  \<^verbatim>\<open>applets2.go\<close>): which commands are applets, the dispatch of a command with its exit status, the
  lines of an unfinished statement, the file handlers, the table of applets, xargs. The
  interpreter (the module \<^verbatim>\<open>sh\<close>) is not under \<^verbatim>\<open>src/\<close>: what it makes of a text and of a parsed
  file is a parameter.
\<close>

subsection \<open>Which commands are applets\<close>

definition own_applets :: "string list" where
  "own_applets = [''edit'', ''imgcat'', ''help'', ''websh-help'', ''which'']"

text \<open>
  \<open>has\<close> says which names are in the table, \<open>own\<close> which are websh's own or an embedder's, \<open>look\<close>
  where the \<^verbatim>\<open>PATH\<close> has a program.
\<close>

definition runs_applet ::
  "(string \<Rightarrow> bool) \<Rightarrow> (string \<Rightarrow> bool) \<Rightarrow> (string \<Rightarrow> gerr + string) \<Rightarrow> bool \<Rightarrow> string \<Rightarrow> bool"
where
  "runs_applet has own look native name0 =
     (if \<not> has (path_base name0) \<or> \<not> native then has (path_base name0)
      else if slash \<in> set name0 then False
      else if own name0 then True
      else isl (look name0))"

definition call_handler :: "string list \<Rightarrow> string list" where
  "call_handler args = (case args of
     a # as \<Rightarrow> if a = ''help'' then ''websh-help'' # as else args
   | [] \<Rightarrow> args)"

subsection \<open>Dispatch\<close>

text \<open>The error a command comes back with: none, or an exit status.\<close>

datatype exec_result = Exec_Ok | Exec_Status int

definition clamp_status :: "int \<Rightarrow> int" where
  "clamp_status code = (if code < 0 \<or> 255 < code then 1 else code)"

definition status_result :: "int \<Rightarrow> exec_result" where
  "status_result code = (if clamp_status code = 0 then Exec_Ok else Exec_Status (clamp_status code))"

text \<open>
  The embedder's commands, and the programs of the machine and of the file system, are
  parameters: a code and whether they knew the command.
\<close>

record 'f exec_env =
  xe_applet :: "string \<Rightarrow> (string list \<Rightarrow> 'f sw \<Rightarrow> 'f run) option"
  xe_own :: "string \<Rightarrow> bool"
  xe_look :: "string \<Rightarrow> gerr + string"
  xe_native :: bool
  xe_hook :: "(string list \<Rightarrow> 'f sw \<Rightarrow> (int \<times> bool) \<times> 'f sw) option"
  xe_program :: "string list \<Rightarrow> 'f sw \<Rightarrow> exec_result \<times> 'f sw"
  xe_external :: "string list \<Rightarrow> 'f sw \<Rightarrow> (int \<times> bool) \<times> 'f sw"

definition exec_applet :: "'f exec_env \<Rightarrow> string \<Rightarrow> bool" where
  "exec_applet X name0 =
     runs_applet (\<lambda>n. xe_applet X n \<noteq> None) (xe_own X) (xe_look X) (xe_native X) name0"

text \<open>What follows the applets and the embedder's commands.\<close>

definition exec_outside :: "'f exec_env \<Rightarrow> string list \<Rightarrow> 'f sw \<Rightarrow> exec_result \<times> 'f sw" where
  "exec_outside X args w =
     (if xe_native X then xe_program X args w
      else (case xe_external X args w of
          ((code, True), w') \<Rightarrow> (status_result code, w')
        | ((code, False), w') \<Rightarrow>
            (Exec_Status 127, err_ln (''websh: '' @ (args ! 0) @ '': command not found'') w')))"

definition exec_handler :: "'f exec_env \<Rightarrow> string list \<Rightarrow> 'f sw \<Rightarrow> (exec_result \<times> 'f sw) option" where
  "exec_handler X args w =
     (if exec_applet X (args ! 0) then
        (case xe_applet X (path_base (args ! 0)) of
           Some f \<Rightarrow> map_option (\<lambda>(code, w'). (status_result code, w')) (f (drop 1 args) w)
         | None \<Rightarrow> None)
      else (case xe_hook X of
          None \<Rightarrow> Some (exec_outside X args w)
        | Some h \<Rightarrow>
           (case h args w of
              ((code, True), w') \<Rightarrow> Some (status_result code, w')
            | ((code, False), w') \<Rightarrow> Some (exec_outside X args w'))))"

subsection \<open>Lines of a statement\<close>

text \<open>
  What the parser says of a text: incomplete, wrong, or a file of statements with the redirects
  of its tree, each with whether it is a here-document and whether its closing word was found.
\<close>

datatype ('p, 'e) parsed = Incomplete | Bad 'e | Parsed 'p "(bool \<times> bool) list"

definition open_heredoc :: "(bool \<times> bool) list \<Rightarrow> bool" where
  "open_heredoc rs = list_ex (\<lambda>(hdoc, closed). hdoc \<and> \<not> closed) rs"

text \<open>
  The runner: it runs a file to an error and a state, from which it may have exited; \<open>ctx_err\<close>
  is whether the line's context ended (Ctrl+C).
\<close>

record ('p, 'r, 'e) runner_lib =
  rn_parse :: "string \<Rightarrow> ('p, 'e) parsed"
  rn_run :: "'p \<Rightarrow> 'r \<Rightarrow> 'e option \<times> bool \<times> 'r"
  rn_exited :: "'r \<Rightarrow> bool"
  rn_reset :: "'r \<Rightarrow> 'r"

record 'r shell_state =
  ss_pending :: string
  ss_exited :: bool
  ss_runner :: 'r

definition shell_run ::
  "('p, 'r, 'e) runner_lib \<Rightarrow> string \<Rightarrow> 'r shell_state \<Rightarrow> (bool \<times> 'e option) \<times> 'r shell_state"
where
  "shell_run N line s0 =
     (let src = ss_pending s0 @ line @ [CHR 0x0A]; s = s0\<lparr>ss_pending := src\<rparr> in
      case rn_parse N src of
        Incomplete \<Rightarrow> ((True, None), s)
      | Bad e \<Rightarrow> ((False, Some e), s\<lparr>ss_pending := []\<rparr>)
      | Parsed p rs \<Rightarrow>
          if open_heredoc rs then ((True, None), s)
          else (let (err, ctx_err, r) = rn_run N p (ss_runner s); exited = (rn_exited N r \<and> \<not> ctx_err) in
            ((False, err), s\<lparr>ss_pending := [], ss_exited := exited,
               ss_runner := (if exited then rn_reset N r else r)\<rparr>)))"

text \<open>\<^verbatim>\<open>ReportJobs\<close> runs a line of its own; what comes of it is dropped.\<close>

definition report_jobs_src :: string where
  "report_jobs_src = ''__websh_exit_status=$?; jobs -n; (exit $__websh_exit_status)''"

definition report_jobs :: "('p, 'r, 'e) runner_lib \<Rightarrow> 'r shell_state \<Rightarrow> 'r shell_state" where
  "report_jobs N s =
     (case rn_parse N report_jobs_src of
        Parsed p rs \<Rightarrow> s\<lparr>ss_runner := snd (snd (rn_run N p (ss_runner s)))\<rparr>
      | _ \<Rightarrow> s)"

definition shell_pending :: "'r shell_state \<Rightarrow> bool" where
  "shell_pending s = (ss_pending s \<noteq> [])"

definition cancel_pending :: "'r shell_state \<Rightarrow> 'r shell_state" where
  "cancel_pending s = s\<lparr>ss_pending := []\<rparr>"

definition shell_exited :: "'r shell_state \<Rightarrow> bool" where
  "shell_exited s = ss_exited s"

subsection \<open>Whose output it is\<close>

text \<open>\<^verbatim>\<open>Source\<close> and \<^verbatim>\<open>WithSource\<close>: the mark, and the mark before it for the function that puts it back.\<close>

definition shell_source :: "string option \<Rightarrow> string" where
  "shell_source src = (case src of Some s \<Rightarrow> s | None \<Rightarrow> ''page'')"

definition with_source :: "string \<Rightarrow> string option \<Rightarrow> string option \<times> string option" where
  "with_source s src = (Some s, src)"

subsection \<open>The file handlers\<close>

definition shell_resolve :: "string \<Rightarrow> string \<Rightarrow> string" where
  "shell_resolve dir p = (if is_abs p then path_clean p else path_join [dir, p])"

text \<open>What is opened: \<^verbatim>\<open>/dev/null\<close> apart, the file of the name on the file system.\<close>

definition open_handler :: "string \<Rightarrow> string \<Rightarrow> string option" where
  "open_handler dir p = (if p = ''/dev/null'' then None else Some (shell_resolve dir p))"

definition stat_handler :: "'f fs_ops \<Rightarrow> 'f \<Rightarrow> string \<Rightarrow> string \<Rightarrow> gerr + fs_info" where
  "stat_handler F fs dir p = fs_stat F fs (shell_resolve dir p)"

definition access_handler :: "'f fs_ops \<Rightarrow> 'f \<Rightarrow> string \<Rightarrow> string \<Rightarrow> gerr option" where
  "access_handler F fs dir p = (case fs_stat F fs (shell_resolve dir p) of
     Inl e \<Rightarrow> Some e
   | Inr _ \<Rightarrow> None)"

definition read_dir_handler :: "'f fs_ops \<Rightarrow> 'f \<Rightarrow> string \<Rightarrow> string \<Rightarrow> gerr + fs_info list" where
  "read_dir_handler F fs dir p = fs_list F fs (shell_resolve dir p)"

subsection \<open>xargs, which, help and the small ones\<close>

text \<open>
  \<^verbatim>\<open>xargs\<close> runs another applet with the words of its input; through itself, it goes on with fewer
  arguments and an input that has been read.
\<close>

function run_xargs ::
  "(string \<Rightarrow> (string list \<Rightarrow> 'f sw \<Rightarrow> 'f run) option) \<Rightarrow> string list \<Rightarrow> 'f sw \<Rightarrow> 'f run"
where
  "run_xargs T args w =
     (case read_stdin w of
        (Inl e, w') \<Rightarrow> fail_with ''xargs'' e w'
      | (Inr b, w') \<Rightarrow>
         (let cmd = (if args = [] then [''echo''] else args); full = drop 1 cmd @ string_fields b in
          if cmd ! 0 = ''echo'' then finish 0 (put_ln (join_with full '' '') w')
          else if cmd ! 0 = ''xargs'' then run_xargs T full w'
          else (case T (cmd ! 0) of
              Some f \<Rightarrow> f full w'
            | None \<Rightarrow> finish 127 (err_ln (''xargs: '' @ cmd ! 0 @
                '': not an applet (xargs can only run applets and echo)'') w'))))"
  by pat_completeness auto
termination
  by (relation "measure (\<lambda>(T, args, w). length args + length (string_fields (fst (sw_in w))))")
    (auto simp: read_stdin_def string_fields_def Suc_le_eq split: option.splits if_splits)

declare run_xargs.simps [simp del]

text \<open>For each name: the applet, on the machine or in a page, or the program of the \<^verbatim>\<open>PATH\<close>.\<close>

fun run_which ::
  "(string \<Rightarrow> bool) \<Rightarrow> (string \<Rightarrow> gerr + string) \<Rightarrow> bool \<Rightarrow> string list \<Rightarrow> int \<Rightarrow> 'f sw \<Rightarrow> 'f run"
where
  "run_which is_app look native [] code w = finish code w"
| "run_which is_app look native (a # as) code w =
     (if is_app a then
        run_which is_app look native as code (put_ln (if native then a @ '': websh applet'' else ''/bin/'' @ a) w)
      else (case (if native then look a else Inl []) of
          Inr path \<Rightarrow> run_which is_app look native as code (put_ln path w)
        | Inl _ \<Rightarrow> run_which is_app look native as 1 (err_ln (''which: '' @ a @ '' not found'') w)))"

definition base_applets :: "(string \<times> string) list" where
  "base_applets =
    [(''ls'', ''list directory contents (-l long, -a all)''),
     (''cat'', ''concatenate files to stdout''),
     (''mkdir'', ''create directories (-p parents)''),
     (''rmdir'', ''remove empty directories''),
     (''rm'', ''remove files (-r recursive, -f force)''),
     (''cp'', ''copy files (-r recursive)''),
     (''mv'', ''move/rename files''),
     (''touch'', ''create files / update timestamps''),
     (''head'', ''first lines of files (-n count)''),
     (''tail'', ''last lines of files (-n count)''),
     (''wc'', ''count lines, words, bytes (-l -w -c)''),
     (''grep'', ''search with regexps (-i -v -n -c)''),
     (''seq'', ''print number sequences''),
     (''sort'', ''sort lines (-r reverse, -n numeric)''),
     (''uniq'', ''filter repeated lines (-c count)''),
     (''tree'', ''directory tree''),
     (''basename'', ''strip directory from path''),
     (''dirname'', ''strip filename from path''),
     (''date'', ''print the current time''),
     (''sleep'', ''delay for N seconds''),
     (''clear'', ''clear the terminal''),
     (''env'', ''print the environment''),
     (''which'', ''locate a command''),
     (''uname'', ''system information''),
     (''hostname'', ''print the hostname''),
     (''help'', ''list available commands''),
     (''websh-help'', ''list available commands'')]"

definition more_applets :: "(string \<times> string) list" where
  "more_applets =
    [(''find'', ''walk directories (-name pattern, -type f|d)''),
     (''cut'', ''select fields (-d delim -f list) or chars (-c list)''),
     (''tr'', ''translate characters (tr a-z A-Z; -d set deletes)''),
     (''sed'', ''stream editor (-n -e -E -i -s; s p d q n = y a i c { } ...)''),
     (''xargs'', ''build command lines from stdin''),
     (''tac'', ''reverse lines''),
     (''nl'', ''number lines''),
     (''du'', ''disk usage (-s summary)''),
     (''stat'', ''file status''),
     (''chmod'', ''change file mode (octal)''),
     (''md5sum'', ''MD5 digests''),
     (''sha256sum'', ''SHA256 digests''),
     (''base64'', ''base64 encode (-d decode)''),
     (''xxd'', ''hex dump'')]"

definition applet_names :: "(string \<times> string) list \<Rightarrow> string list" where
  "applet_names reg = sort_key (map byte_of) (filter (\<lambda>n. n \<noteq> ''websh-help'') (map fst reg))"

text \<open>A registered applet replaces the one of its name.\<close>

definition register_applet :: "string \<Rightarrow> string \<Rightarrow> (string \<times> string) list \<Rightarrow> (string \<times> string) list" where
  "register_applet name help reg = (name, help) # filter (\<lambda>e. fst e \<noteq> name) reg"

lemma map_of_register: "map_of (register_applet name help reg) j = (if j = name then Some help else map_of reg j)"
proof -
  have "map_of (filter (\<lambda>e. fst e \<noteq> name) reg) j = (if j = name then None else map_of reg j)"
    by (induction reg) auto
  then show ?thesis by (simp add: register_applet_def)
qed

interpretation applet_reg: keyed map_of register_applet "\<lambda>reg. True"
  by unfold_locales (simp_all add: map_of_register)

text \<open>
  Programs that register applets may do so in any order, as long as no two take one name: the table
  answers alike.
\<close>

lemma applets_any_order:
  assumes "distinct (map fst rs)" "set rs = set rs'" "distinct (map fst rs')"
  shows "map_of (fold (\<lambda>(n, h). register_applet n h) rs reg) n =
    map_of (fold (\<lambda>(n, h). register_applet n h) rs' reg) n"
  using applet_reg.puts_order [OF TrueI assms] unfolding applet_reg.puts_def by simp

definition run_help :: "(string \<times> string) list \<Rightarrow> 'f sw \<Rightarrow> 'f run" where
  "run_help reg w = finish 0 (put_lines
     ([''websh applets:''] @
      map (\<lambda>n. ''  '' @ pad_right 10 n @ '' '' @ (case map_of reg n of Some h \<Rightarrow> h | None \<Rightarrow> []))
        (sort_key (map byte_of) (map fst reg)) @
      [''plus the shell builtins: cd pwd echo printf read exit export unset source test [ ...'',
       ''for those, bash-style: '' @ [CHR 0x1B] @ ''[1mbuiltin help'' @ [CHR 0x1B] @ ''[0m  (or '' @ [CHR 0x1B] @
         ''[1mbuiltin help cd'' @ [CHR 0x1B] @ ''[0m for one)'']) w)"

text \<open>
  \<^verbatim>\<open>sleep\<close> waits as long as its argument says or until its context ends; the parse of the number
  and the outcome of the wait are parameters.
\<close>

definition run_sleep :: "(string \<Rightarrow> gerr option) \<Rightarrow> bool \<Rightarrow> string list \<Rightarrow> 'f sw \<Rightarrow> 'f run" where
  "run_sleep bad_number ended args w =
     (case args of
        [] \<Rightarrow> finish 1 (err_ln ''sleep: missing operand'' w)
      | a # _ \<Rightarrow>
         (case bad_number a of
            Some e \<Rightarrow> fail_with ''sleep'' e w
          | None \<Rightarrow> finish (if ended then 130 else 0) w))"

definition run_date :: "string \<Rightarrow> 'f sw \<Rightarrow> 'f run" where
  "run_date now w = finish 0 (put_ln now w)"

definition run_clear :: "'f sw \<Rightarrow> 'f run" where
  "run_clear w = finish 0 (put ([CHR 0x1B] @ ''[2J'' @ [CHR 0x1B] @ ''[H'') w)"

text \<open>The environment: names, whether they are exported, and values.\<close>

definition run_env :: "(string \<times> bool \<times> string) list \<Rightarrow> 'f sw \<Rightarrow> 'f run" where
  "run_env vars w = finish 0 (put_lines
     (map (\<lambda>(n, e, v). n @ ''='' @ v) (filter (\<lambda>(n, e, v). e) vars)) w)"

definition run_uname :: "'f sw \<Rightarrow> 'f run" where
  "run_uname w = finish 0 (put_ln ''websh wasm'' w)"

definition run_hostname :: "'f sw \<Rightarrow> 'f run" where
  "run_hostname w = finish 0 (put_ln ''websh'' w)"

subsection \<open>The table\<close>

record 'f applet_libs =
  al_ls :: ls_lib
  al_octal_err :: "string \<Rightarrow> gerr"
  al_quote :: "string \<Rightarrow> string"
  al_unwrap :: "gerr \<Rightarrow> gerr"
  al_md5 :: "string \<Rightarrow> string"
  al_sha256 :: "string \<Rightarrow> string"
  al_du_order :: "(string \<times> int) list \<Rightarrow> (string \<times> int) list"
  al_bad_number :: "string \<Rightarrow> gerr option"
  al_ctx_ended :: bool
  al_now :: string
  al_vars :: "(string \<times> bool \<times> string) list"
  al_native :: bool
  al_look :: "string \<Rightarrow> gerr + string"
  al_reg :: "(string \<times> string) list"
  al_own :: "string list"
  al_others :: "string \<Rightarrow> (string list \<Rightarrow> 'f sw \<Rightarrow> 'f run) option" \<comment> \<open>edit, less, ssh, an embedder's\<close>

definition is_applet :: "'f applet_libs \<Rightarrow> string \<Rightarrow> bool" where
  "is_applet A n = runs_applet (\<lambda>n. n \<in> fst ` set (al_reg A)) (\<lambda>n. n \<in> set (own_applets @ al_own A))
     (al_look A) (al_native A) n"

text \<open>Every applet of \<^verbatim>\<open>applets.go\<close> and \<^verbatim>\<open>applets2.go\<close> by its name, xargs apart.\<close>

definition applet_entries ::
  "('f, 're) sh_env \<Rightarrow> 'f applet_libs \<Rightarrow> (string \<times> (string list \<Rightarrow> 'f sw \<Rightarrow> 'f run)) list"
where
  "applet_entries E A =
    [(''ls'', run_ls E (al_ls A)), (''cat'', run_cat E), (''mkdir'', run_mkdir E), (''rmdir'', run_rmdir E),
     (''rm'', run_rm E), (''mv'', run_mv E), (''touch'', run_touch E),
     (''head'', run_head E), (''tail'', run_tail E), (''wc'', run_wc E), (''grep'', run_grep E),
     (''sort'', run_sort E), (''uniq'', run_uniq E), (''basename'', run_basename), (''dirname'', run_dirname),
     (''date'', \<lambda>args. run_date (al_now A)), (''sleep'', run_sleep (al_bad_number A) (al_ctx_ended A)),
     (''clear'', \<lambda>args. run_clear), (''env'', \<lambda>args. run_env (al_vars A)),
     (''which'', \<lambda>args. run_which (is_applet A) (al_look A) (al_native A) args 0),
     (''uname'', \<lambda>args. run_uname), (''hostname'', \<lambda>args. run_hostname),
     (''help'', \<lambda>args. run_help (al_reg A)), (''websh-help'', \<lambda>args. run_help (al_reg A)),
     (''find'', run_find E), (''cut'', run_cut E), (''tr'', run_tr), (''tac'', run_tac E), (''nl'', run_nl E),
     (''du'', run_du E (al_du_order A)), (''stat'', run_stat E), (''chmod'', run_chmod E (al_octal_err A)),
     (''md5sum'', hash_applet E ''md5sum'' (al_md5 A)), (''sha256sum'', hash_applet E ''sha256sum'' (al_sha256 A)),
     (''base64'', run_base64 E), (''xxd'', run_xxd E), (''imgcat'', run_imgcat E)]"

text \<open>The applets that may go on for ever.\<close>

definition looping_entries ::
  "('f, 're) sh_env \<Rightarrow> 'f applet_libs \<Rightarrow> (string \<times> (string list \<Rightarrow> 'f sw \<Rightarrow> 'f run)) list"
where
  "looping_entries E A =
    [(''cp'', run_cp E), (''seq'', run_seq), (''tree'', run_tree E), (''sed'', run_sed E (al_quote A) (al_unwrap A))]"

definition applet_table ::
  "('f, 're) sh_env \<Rightarrow> 'f applet_libs \<Rightarrow> string \<Rightarrow> (string list \<Rightarrow> 'f sw \<Rightarrow> 'f run) option"
where
  "applet_table E A n =
     (case al_others A n of
        Some f \<Rightarrow> Some f
      | None \<Rightarrow>
         (if n = ''xargs'' then
            Some (run_xargs (\<lambda>m. case al_others A m of
               Some f \<Rightarrow> Some f
             | None \<Rightarrow> map_of (applet_entries E A @ looping_entries E A) m))
          else map_of (applet_entries E A @ looping_entries E A) n))"

subsection \<open>Every other applet returns\<close>

named_theorems returns "an applet returns, whatever it is given"

lemma finish_returns [returns, simp]: "finish c w \<noteq> None"
  by (simp add: finish_def)

lemma fail_returns [returns, simp]: "fail_with n e w \<noteq> None"
  by (simp add: fail_with_def)

lemma cat_files_returns: "cat_files E as w \<noteq> None"
  by (induction as arbitrary: w) (simp_all del: not_None_eq split: sum.split option.split prod.split)

lemma ls_loop_returns: "ls_loop E S fl several as c w \<noteq> None"
  by (cases several; induction as arbitrary: c w) (simp_all add: Let_def del: not_None_eq split: sum.split)

lemma mkdir_loop_returns: "mkdir_loop E fl as w \<noteq> None"
  by (induction as arbitrary: w) (simp_all add: Let_def del: not_None_eq split: option.split)

lemma rmdir_loop_returns: "rmdir_loop E as w \<noteq> None"
  by (induction as arbitrary: w) (simp_all add: Let_def del: not_None_eq split: option.split sum.split)

lemma rm_loop_returns: "rm_loop E fl as w \<noteq> None"
  by (induction as arbitrary: w) (simp_all add: Let_def del: not_None_eq split: option.split sum.split)

lemma mv_loop_returns: "mv_loop E d as w \<noteq> None"
  by (induction as arbitrary: w) (simp_all add: Let_def del: not_None_eq split: option.split)

lemma touch_loop_returns: "touch_loop E as w \<noteq> None"
  by (induction as arbitrary: w) (simp_all add: Let_def del: not_None_eq split: option.split)

lemma chmod_loop_returns: "chmod_loop E m as w \<noteq> None"
  by (induction as arbitrary: w) (simp_all add: Let_def del: not_None_eq split: option.split)

lemma stat_loop_returns: "stat_loop E as c w \<noteq> None"
  by (induction as arbitrary: c w) (simp_all del: not_None_eq split: sum.split)

lemma imgcat_loop_returns: "imgcat_loop E a b fs c w \<noteq> None"
  by (induction fs arbitrary: c w) (simp_all del: not_None_eq split: sum.split)

lemma hash_files_returns: "hash_files E n d as c w \<noteq> None"
  by (induction as arbitrary: c w) (simp_all del: not_None_eq split: sum.split)

lemma which_returns [returns]: "run_which p l n as c w \<noteq> None"
  by (cases n; induction as arbitrary: c w) (simp_all del: not_None_eq split: sum.split)

lemmas loops_return = cat_files_returns ls_loop_returns mkdir_loop_returns rmdir_loop_returns rm_loop_returns
  mv_loop_returns touch_loop_returns chmod_loop_returns stat_loop_returns imgcat_loop_returns
  hash_files_returns

lemma file_applets_return [returns]:
  "run_ls E S args w \<noteq> None" "run_cat E args w \<noteq> None" "run_mkdir E args w \<noteq> None"
  "run_rmdir E args w \<noteq> None" "run_rm E args w \<noteq> None" "run_mv E args w \<noteq> None"
  "run_touch E args w \<noteq> None" "run_chmod E oe args w \<noteq> None" "run_stat E args w \<noteq> None"
  "run_imgcat E args w \<noteq> None" "run_find E args w \<noteq> None" "run_du E ord args w \<noteq> None"
  by (simp_all add: run_ls_def run_cat_def run_mkdir_def run_rmdir_def run_rm_def run_mv_def split_last_def run_touch_def
      run_chmod_def run_stat_def run_imgcat_def run_find_def run_du_def Let_def loops_return del: not_None_eq
      split: prod.split option.split list.split)

lemma text_applets_return [returns]:
  "run_head E args w \<noteq> None" "run_tail E args w \<noteq> None" "run_wc E args w \<noteq> None"
  "run_grep E args w \<noteq> None" "run_sort E args w \<noteq> None" "run_uniq E args w \<noteq> None"
  "run_tac E args w \<noteq> None" "run_nl E args w \<noteq> None" "run_cut E args w \<noteq> None" "run_tr args w \<noteq> None"
  "run_base64 E args w \<noteq> None" "run_xxd E args w \<noteq> None" "hash_applet E n d args w \<noteq> None"
  using head_tail_in_bounds [of E args w]
  by (simp_all add: run_wc_def run_grep_def run_sort_def run_uniq_def run_tac_def run_nl_def run_cut_def
      run_tr_def run_base64_def run_xxd_def hash_applet_def Let_def loops_return del: not_None_eq
      split: prod.split option.split list.split sum.split)

lemma small_applets_return [returns]:
  "run_basename args w \<noteq> None" "run_dirname args w \<noteq> None" "run_date now w \<noteq> None" "run_clear w \<noteq> None"
  "run_env vars w \<noteq> None" "run_uname w \<noteq> None" "run_hostname w \<noteq> None" "run_help reg w \<noteq> None"
  "run_sleep bad over args w \<noteq> None"
  by (simp_all add: run_basename_def run_dirname_def run_date_def run_clear_def run_env_def run_uname_def
      run_hostname_def run_help_def run_sleep_def del: not_None_eq split: list.split option.split)

lemma all_entries_return: "list_all (\<lambda>nf. \<forall>args w. snd nf args w \<noteq> None) (applet_entries E A)"
  by (simp add: applet_entries_def returns del: not_None_eq)

lemma entries_return: "map_of (applet_entries E A) n = Some f \<Longrightarrow> f args w \<noteq> None"
  using all_entries_return [of E A] by (fastforce simp: list_all_iff dest: map_of_SomeD)

lemma entries_not_looping:
  "n \<notin> set [''cp'', ''seq'', ''tree'', ''sed''] \<Longrightarrow> map_of (looping_entries E A) n = None"
  by (simp add: looping_entries_def)

text \<open>
  tree comes back where no directory is below itself: where \<open>rank\<close> falls from a directory to those in
  it, which a file system without links to directories has.
\<close>

definition grounded :: "'f fs_ops \<Rightarrow> 'f \<Rightarrow> (string \<Rightarrow> nat) \<Rightarrow> bool" where
  "grounded F fs rank = (\<forall>dir infos fi. fs_list F fs dir = Inr infos \<and> fi \<in> set infos \<and> fi_dir fi \<longrightarrow>
     rank (path_join [dir, fi_name fi]) < rank dir)"

definition item_rank :: "(string \<Rightarrow> nat) \<Rightarrow> tree_item \<Rightarrow> nat" where
  "item_rank rank it = (case it of (dir, prefix, fi, lst) \<Rightarrow>
     if fi_dir fi then Suc (rank (path_join [dir, fi_name fi])) else 0)"

lemma items_ranked:
  assumes "grounded F fs rank" "fs_list F fs dir = Inr infos" "it \<in> set (tree_items dir prefix infos)"
  shows "item_rank rank it \<le> rank dir"
proof -
  obtain i where i: "i < length infos" "it = (dir, prefix, infos ! i, i + 1 = length infos)"
    using assms(3) by (auto simp: tree_items_def)
  then have "infos ! i \<in> set infos" by simp
  with assms(1,2) have "fi_dir (infos ! i) \<Longrightarrow> rank (path_join [dir, fi_name (infos ! i)]) < rank dir"
    unfolding grounded_def by blast
  then show ?thesis by (auto simp: i(2) item_rank_def)
qed

lemma put_ln_fs [simp]: "sw_fs (put_ln s w) = sw_fs w"
  by (simp add: put_ln_def put_def)

lemma tree_walk_returns:
  assumes "grounded F fs rank" "\<And>it. it \<in> set items \<Longrightarrow> item_rank rank it \<le> n" "sw_fs w = fs"
    "\<And>v. sw_fs v = fs \<Longrightarrow> \<exists>r. tree_walk F rest v = Some r"
  shows "\<exists>r. tree_walk F (items @ rest) w = Some r"
  using assms(2-4)
proof (induction n arbitrary: items rest w rule: less_induct)
  case (less n)
  from less.prems show ?case
  proof (induction items arbitrary: w)
    case (Cons it items)
    obtain dir prefix fi lst where it: "it = (dir, prefix, fi, lst)" by (cases it) auto
    define w1 where "w1 = put_ln (prefix @ (if lst then tree_end else tree_mid) @ fi_name fi) w"
    have w1: "sw_fs w1 = fs" using Cons.prems(2) by (simp add: w1_def)
    have others: "\<exists>r. tree_walk F (items @ rest) v = Some r" if "sw_fs v = fs" for v
      using Cons.IH [OF _ that Cons.prems(3)] Cons.prems(1) by simp
    let ?sub = "path_join [dir, fi_name fi]"
    show ?case
    proof (cases "fi_dir fi")
      case False
      with others [OF w1] show ?thesis by (subst tree_walk.simps) (simp add: it Let_def w1_def)
    next
      case True
      show ?thesis
      proof (cases "fs_list F fs ?sub")
        case (Inl e)
        with True w1 show ?thesis by (subst tree_walk.simps) (simp add: it Let_def w1_def)
      next
        case (Inr infos)
        let ?below = "tree_items ?sub (prefix @ (if lst then ''    '' else tree_bar)) infos"
        have "rank ?sub < n" using Cons.prems(1) [of it] True by (simp add: it item_rank_def)
        from less.IH [OF this, of ?below w1 "items @ rest"] items_ranked [OF assms(1) Inr] w1 others
        have "\<exists>r. tree_walk F (?below @ items @ rest) w1 = Some r" by blast
        with True w1 Inr show ?thesis by (subst tree_walk.simps) (simp add: it Let_def w1_def)
      qed
    qed
  qed simp
qed

lemma tree_returns:
  assumes "grounded (se_ops E) (sw_fs w) rank"
  shows "\<exists>r. run_tree E args w = Some r"
proof -
  define root where "root = (case snd (parse_flags args) of [] \<Rightarrow> ''.'' | r # _ \<Rightarrow> r)"
  define path where "path = resolve_arg E root"
  show ?thesis
  proof (cases "fs_list (se_ops E) (sw_fs w) path")
    case (Inl e)
    then show ?thesis by (simp add: run_tree_def Let_def fail_with_def root_def path_def)
  next
    case (Inr infos)
    have nil: "tree_walk (se_ops E) [] v = Some (v, None)" for v by (subst tree_walk.simps) simp
    have "\<exists>r. tree_walk (se_ops E) (tree_items path [] infos @ []) (put_ln root w) = Some r"
      by (rule tree_walk_returns [OF assms, where n = "rank path"]) (simp_all add: items_ranked [OF assms Inr] nil)
    then obtain v e where "tree_walk (se_ops E) (tree_items path [] infos) (put_ln root w) = Some (v, e)" by auto
    with Inr show ?thesis
      by (cases e) (auto simp: run_tree_def Let_def fail_with_def finish_def root_def path_def)
  qed
qed

text \<open>
  The applets of \<^verbatim>\<open>applets.go\<close> and \<^verbatim>\<open>applets2.go\<close> but cp, seq, tree, sed and xargs (and those
  kept apart, as awk, jq, edit, less, ssh, mosh and pty) return a status, over a file system whose
  walk comes back.
\<close>

lemma applets_return:
  assumes "al_others A n = None" "n \<notin> set [''cp'', ''seq'', ''tree'', ''sed'', ''xargs'']"
    and "applet_table E A n = Some f"
  shows "\<exists>code w'. f args w = Some (code, w')"
proof -
  have "n \<noteq> ''xargs''" using assms(2) by auto
  then have "map_of (applet_entries E A @ looping_entries E A) n = Some f"
    using assms(1,3) by (simp add: applet_table_def)
  moreover have nl: "map_of (looping_entries E A) n = None"
    by (rule entries_not_looping) (use assms(2) in auto)
  ultimately have "map_of (applet_entries E A) n = Some f"
    using nl by (simp add: map_add_Some_iff)
  from entries_return [OF this, of args w] show ?thesis by auto
qed

definition demo_libs :: "mem_fs applet_libs" where
  "demo_libs = \<lparr>al_ls = \<lparr>ll_name = (\<lambda>p i. fi_name i), ll_long = (\<lambda>h p i. fi_mode i @ '' '' @ fi_name i)\<rparr>,
     al_octal_err = (\<lambda>s. ''invalid syntax''), al_quote = id, al_unwrap = id, al_md5 = id, al_sha256 = id,
     al_du_order = id, al_bad_number = (\<lambda>s. None), al_ctx_ended = False, al_now = ''now'', al_vars = [],
     al_native = False, al_look = (\<lambda>n. Inl ''not found''), al_reg = base_applets @ more_applets,
     al_own = [], al_others = (\<lambda>n. None)\<rparr>"

lemma applets_return_witness:
  "\<exists>f code w'. applet_table demo_env demo_libs ''tail'' = Some f \<and>
     f [''-n'', ''--'', ''-5''] (demo_world [] ''x'') = Some (code, w')"
proof -
  have "applet_table demo_env demo_libs ''tail'' = Some (run_tail demo_env)"
    by (simp add: applet_table_def applet_entries_def demo_libs_def)
  from applets_return [OF _ _ this] show ?thesis
    using \<open>applet_table demo_env demo_libs ''tail'' = Some (run_tail demo_env)\<close>
    by (fastforce simp: demo_libs_def)
qed

subsection \<open>Exit statuses\<close>

lemma clamp_status_range: "0 \<le> clamp_status c \<and> clamp_status c \<le> 255"
  by (simp add: clamp_status_def)

text \<open>
  The status of a command that is an applet or the embedder's own is a byte, and success is
  reported exactly for the code 0: a code out of range becomes 1 and does not wrap around.
\<close>

lemma exec_status_is_byte:
  assumes "exec_handler X args w = Some (r, w')"
    "exec_applet X (args ! 0) \<or> (\<exists>h code w1. xe_hook X = Some h \<and> h args w = ((code, True), w1))"
  shows "\<exists>code. (r = Exec_Ok \<longleftrightarrow> code = 0) \<and> (\<forall>n. r = Exec_Status n \<longrightarrow> 1 \<le> n \<and> n \<le> 255) \<and>
    (0 \<le> code \<and> code \<le> 255 \<longrightarrow> r = (if code = 0 then Exec_Ok else Exec_Status code))"
proof -
  have "\<exists>code. r = status_result code"
    using assms by (auto simp: exec_handler_def split: option.splits prod.splits bool.splits if_splits)
  then obtain code where r: "r = status_result code" ..
  have "clamp_status code = 0 \<longleftrightarrow> code = 0" by (simp add: clamp_status_def)
  then show ?thesis
    using clamp_status_range [of code]
    by (intro exI [of _ code]) (auto simp: r status_result_def clamp_status_def)
qed

lemma exec_status_is_byte_witness:
  "\<exists>r w'. exec_handler \<lparr>xe_applet = (\<lambda>n. if n = ''big'' then Some (\<lambda>args w. Some (256, w)) else None),
      xe_own = (\<lambda>n. False), xe_look = (\<lambda>n. Inl []), xe_native = False, xe_hook = None,
      xe_program = (\<lambda>a w. (Exec_Ok, w)), xe_external = (\<lambda>a w. ((0, False), w))\<rparr>
      [''big''] (demo_world [] []) = Some (r, w') \<and> r \<noteq> Exec_Ok"
  (is "\<exists>r w'. exec_handler ?X _ ?w = _ \<and> _")
proof -
  have run: "exec_handler ?X [''big''] ?w = Some (Exec_Status 1, ?w)" by code_simp
  have app: "exec_applet ?X ([''big''] ! 0)" by code_simp
  obtain code where "Exec_Status 1 = Exec_Ok \<longleftrightarrow> code = (0 :: int)"
    using exec_status_is_byte [OF run disjI1 [OF app]] by blast
  with run show ?thesis by auto
qed

text \<open>On the machine, the machine's own tool wins over a stand-in applet of its name.\<close>

lemma native_tool_wins:
  "\<lbrakk>slash \<notin> set n; \<not> own n; look n = Inr path; has (path_base n)\<rbrakk> \<Longrightarrow> \<not> runs_applet has own look True n"
  by (simp add: runs_applet_def)

subsection \<open>No line is lost\<close>

definition statement_done :: "('p, 'r, 'e) runner_lib \<Rightarrow> string \<Rightarrow> bool" where
  "statement_done N src = (case rn_parse N src of
     Incomplete \<Rightarrow> False | Bad e \<Rightarrow> True | Parsed p rs \<Rightarrow> \<not> open_heredoc rs)"

text \<open>The texts that a run of lines completes, and the shell it leaves.\<close>

fun shell_feed :: "('p, 'r, 'e) runner_lib \<Rightarrow> string list \<Rightarrow> 'r shell_state \<Rightarrow> string list \<times> 'r shell_state" where
  "shell_feed N [] s = ([], s)"
| "shell_feed N (l # ls) s =
     (let (me, s1) = shell_run N l s; (ts, s2) = shell_feed N ls s1 in
      (if fst me then ts else (ss_pending s @ l @ [CHR 0x0A]) # ts, s2))"

text \<open>What a complete text makes of the interpreter: it is run as a whole, or refused by the parser.\<close>

definition text_runs :: "('p, 'r, 'e) runner_lib \<Rightarrow> string \<Rightarrow> 'r \<Rightarrow> 'r" where
  "text_runs N t r = (case rn_parse N t of
     Parsed p rs \<Rightarrow>
       (let (err, ctx_err, r1) = rn_run N p r in if rn_exited N r1 \<and> \<not> ctx_err then rn_reset N r1 else r1)
   | _ \<Rightarrow> r)"

lemma shell_run_cases:
  "shell_run N l s = ((m, e), s1) \<Longrightarrow>
   (m \<longleftrightarrow> \<not> statement_done N (ss_pending s @ l @ [CHR 0x0A])) \<and>
   ss_pending s1 = (if m then ss_pending s @ l @ [CHR 0x0A] else []) \<and>
   ss_runner s1 = (if m then ss_runner s else text_runs N (ss_pending s @ l @ [CHR 0x0A]) (ss_runner s))"
  by (auto simp: shell_run_def Let_def statement_done_def text_runs_def split: parsed.splits if_splits prod.splits)

text \<open>
  C4. The shell hands the interpreter every line it is given, once and in order, however the
  statements are broken over lines: the texts it ran or refused, followed by what it still
  holds, are its lines; each text was complete, and what is held is not. And the interpreter's
  state is what running just those texts, each as a whole, makes of it.
\<close>

theorem shell_loses_no_line:
  assumes "shell_feed N ls s = (ts, s')" "ss_pending s = []"
  shows "concat ts @ ss_pending s' = lines_text ls \<and> list_all (statement_done N) ts \<and>
    (ss_pending s' \<noteq> [] \<longrightarrow> \<not> statement_done N (ss_pending s')) \<and>
    ss_runner s' = fold (text_runs N) ts (ss_runner s)"
proof -
  have "concat ts @ ss_pending s' = ss_pending s @ lines_text ls \<and> list_all (statement_done N) ts \<and>
      (ss_pending s' \<noteq> [] \<longrightarrow> \<not> statement_done N (ss_pending s')) \<and>
      ss_runner s' = fold (text_runs N) ts (ss_runner s)"
    if "ss_pending s \<noteq> [] \<longrightarrow> \<not> statement_done N (ss_pending s)" "shell_feed N ls s = (ts, s')" for s ts
    using that
  proof (induction ls arbitrary: s ts)
    case (Cons l ls)
    obtain m e s1 where r: "shell_run N l s = ((m, e), s1)" by (metis surj_pair)
    obtain ts2 where f: "shell_feed N ls s1 = (ts2, s')"
      using Cons.prems(2) by (auto simp: r split: prod.splits)
    note c = shell_run_cases [OF r]
    have "ss_pending s1 \<noteq> [] \<longrightarrow> \<not> statement_done N (ss_pending s1)" using c by auto
    from Cons.IH [OF this f] c Cons.prems(2) show ?case
      by (cases m) (auto simp: r f)
  qed simp
  with assms show ?thesis by fastforce
qed

text \<open>A toy interpreter for the witness: a statement is complete when its text ends in a semicolon.\<close>

definition semi_lib :: "(string, string list, gerr) runner_lib" where
  "semi_lib = \<lparr>rn_parse = (\<lambda>t. if has_suffix t ('';'' @ [CHR 0x0A]) then Parsed t [] else Incomplete),
     rn_run = (\<lambda>p r. (None, False, p # r)), rn_exited = (\<lambda>r. False), rn_reset = (\<lambda>r. [])\<rparr>"

theorem shell_loses_no_line_witness:
  "concat (fst (shell_feed semi_lib [''for i'', ''do;'', ''x''] \<lparr>ss_pending = [], ss_exited = False, ss_runner = []\<rparr>)) @
     ''x'' @ [CHR 0x0A] = lines_text [''for i'', ''do;'', ''x''] \<and>
   ss_runner (snd (shell_feed semi_lib [''for i'', ''do;'', ''x''] \<lparr>ss_pending = [], ss_exited = False, ss_runner = []\<rparr>)) =
     fold (text_runs semi_lib)
       (fst (shell_feed semi_lib [''for i'', ''do;'', ''x''] \<lparr>ss_pending = [], ss_exited = False, ss_runner = []\<rparr>)) []"
proof -
  let ?s = "\<lparr>ss_pending = [], ss_exited = False, ss_runner = []\<rparr> :: string list shell_state"
  let ?r = "shell_feed semi_lib [''for i'', ''do;'', ''x''] ?s"
  have "ss_pending (snd ?r) = ''x'' @ [CHR 0x0A]" by code_simp
  with shell_loses_no_line [of semi_lib "[''for i'', ''do;'', ''x'']" ?s "fst ?r" "snd ?r"]
  show ?thesis by (simp only: prod.collapse shell_state.simps simp_thms)
qed

text \<open>
  Ctrl+C on a line does not reset the interpreter, and a line that was not run leaves the mark of
  the one before it: \<^verbatim>\<open>Exited\<close> speaks of the last line that ran.
\<close>

lemma interrupt_keeps_session:
  assumes "rn_parse N (ss_pending s @ line @ [CHR 0x0A]) = Parsed p rs" "\<not> open_heredoc rs"
    "rn_run N p (ss_runner s) = (err, True, r)"
  shows "ss_runner (snd (shell_run N line s)) = r \<and> \<not> shell_exited (snd (shell_run N line s))"
  using assms by (simp add: shell_run_def shell_exited_def)

lemma bad_line_keeps_exited:
  "rn_parse N (ss_pending s @ line @ [CHR 0x0A]) = Bad e \<Longrightarrow>
   shell_exited (snd (shell_run N line s)) = shell_exited s"
  by (simp add: shell_run_def shell_exited_def)

text \<open>The marks of nested commands come back in order.\<close>

lemma with_source_restores: "with_source s src = (new, restore) \<Longrightarrow> restore = src \<and> shell_source new = s"
  by (auto simp: with_source_def shell_source_def)

text \<open>help lists the alias it is reached by, which the list of commands leaves out.\<close>

lemma help_lists_alias:
  "(''websh-help'', h) \<in> set reg \<Longrightarrow>
   \<exists>out w'. run_help reg w = Some (0, w') \<and> sw_out w' = sw_out w @ lines_text out \<and>
     (\<exists>l \<in> set out. has_prefix l ''  websh-help'') \<and> ''websh-help'' \<notin> set (applet_names reg)"
proof -
  assume a: "(''websh-help'', h) \<in> set reg"
  define entry where "entry = (\<lambda>n. ''  '' @ pad_right 10 n @ '' '' @ (case map_of reg n of Some h \<Rightarrow> h | None \<Rightarrow> []))"
  define names where "names = sort_key (map byte_of) (map fst reg)"
  have "''websh-help'' \<in> set names"
    using image_eqI [of _ fst, OF _ a] by (simp add: names_def)
  then have mem: "entry ''websh-help'' \<in> set (as @ map entry names @ bs)" for as bs by simp
  have pre: "has_prefix (entry ''websh-help'') ''  websh-help''"
    by (simp add: entry_def pad_right_def)
  have "\<exists>as bs. run_help reg w = Some (0, put_lines (as @ map entry names @ bs) w)"
    unfolding run_help_def finish_def entry_def names_def by blast
  then obtain as bs where r: "run_help reg w = Some (0, put_lines (as @ map entry names @ bs) w)" by blast
  have "''websh-help'' \<notin> set (applet_names reg)" by (simp add: applet_names_def)
  with mem [of as bs] pre show ?thesis
    by (intro exI [of _ "as @ map entry names @ bs"] exI [of _ "put_lines (as @ map entry names @ bs) w"] conjI bexI)
      (simp_all add: r put_lines_eq del: set_append)
qed

end
