(* ===== verification/Console_Shell.thy ===== *)
theory Console_Shell
  imports Session_Io Editor_Correct Prompt_Complete Shell_Core
begin

text \<open>
  The console, \<^verbatim>\<open>src/console/console.go\<close>: websh on the terminal it was started from. A read of
  the terminal is its bytes and whether it also failed; reads that have run out are a terminal
  nothing is typed on. What the editor tells its host while a line is read are the events of
  its record, from which the console's own fields are read off. The lemmas: however the typed
  lines are cut into reads, in the middle of characters and of escape sequences too, the
  shell is handed the lines typed, whole and in order.
\<close>

subsection \<open>Whole characters\<close>

definition rune_start :: "char \<Rightarrow> bool" where
  "rune_start c = (\<not> (128 \<le> byte_of c \<and> byte_of c < 192))"

text \<open>\<^verbatim>\<open>utf8.FullRune\<close>.\<close>

definition full_rune :: "string \<Rightarrow> bool" where
  "full_rune p =
     (case map byte_of p of
        [] \<Rightarrow> False
      | b # bs \<Rightarrow>
         (case lead b of
            None \<Rightarrow> True
          | Some (n, lo, hi) \<Rightarrow>
              n \<le> Suc (length bs) \<or> (bs \<noteq> [] \<and> (bs ! 0 < lo \<or> hi < bs ! 0)) \<or>
              (1 < length bs \<and> \<not> is_cont (bs ! 1))))"

text \<open>\<^verbatim>\<open>partialRune\<close>, over the bytes from the last one, with those already passed.\<close>

fun con_partial_from :: "nat \<Rightarrow> string \<Rightarrow> string \<Rightarrow> nat" where
  "con_partial_from i p [] = 0"
| "con_partial_from i p (c # cs) =
     (if i > 3 then 0
      else if rune_start c then (if full_rune (c # p) then 0 else i)
      else con_partial_from (Suc i) (c # p) cs)"

definition con_partial :: "string \<Rightarrow> nat" where
  "con_partial b = con_partial_from 1 [] (rev b)"

text \<open>
  The console and the session each have a function for the start of a character at the end of a
  text. What the readers rest on is one law: after whole characters it finds the bytes of the
  one that has been cut.
\<close>

locale rune_cutter =
  fixes cut :: "string \<Rightarrow> nat"
  assumes cut_tail: "cut_off t \<Longrightarrow> cut (string_of_runes rs @ t) = length t"

interpretation session_cut: rune_cutter partial_rune
  by unfold_locales (rule partial_cut_off)

lemma encode_rune_decodes:
  obtains l cs n lo hi where "encode_rune r = l # cs" "lead (byte_of l) = Some (n, lo, hi)"
    "n = Suc (length cs)" "n \<le> 4" "cs \<noteq> [] \<Longrightarrow> lo \<le> byte_of (cs ! 0) \<and> byte_of (cs ! 0) \<le> hi"
    "1 < length cs \<Longrightarrow> is_cont (byte_of (cs ! 1))"
proof -
  define q where "q = (if valid_rune r then r else rune_error)"
  have v: "valid_rune q" by (simp add: q_def)
  have e: "encode_rune r = encode_rune q" using v by (simp add: encode_rune_def q_def)
  obtain l cs where lc: "encode_rune q = l # cs" by (cases "encode_rune q") auto
  have d: "decode_rune (l # cs) = (q, Suc (length cs))"
    using decode_encode [OF v, of "[]"] by (simp add: lc)
  have s: "length (encode_rune q) \<le> 4" by (simp add: encode_rune_def Let_def)
  show thesis
  proof (cases "lead (byte_of l)")
    case None
    with d have "cs = []" "q = rune_error" by (simp_all add: decode_rune_def)
    with lc show thesis by (simp add: encode_rune_def rune_error_def valid_rune_def)
  next
    case (Some t)
    obtain n lo hi where t: "t = (n, lo, hi)" by (cases t) auto
    have n: "1 \<le> n" "n \<le> 4" using lead_size Some t by blast+
    have "n = Suc (length cs)" "cs \<noteq> [] \<longrightarrow> lo \<le> byte_of (cs ! 0) \<and> byte_of (cs ! 0) \<le> hi"
      "1 < length cs \<longrightarrow> is_cont (byte_of (cs ! 1))"
    proof -
      have err: "cs \<noteq> []" if "q = rune_error"
        using lc that by (auto simp: encode_rune_def rune_error_def valid_rune_def)
      show "n = Suc (length cs)" "cs \<noteq> [] \<longrightarrow> lo \<le> byte_of (cs ! 0) \<and> byte_of (cs ! 0) \<le> hi"
        "1 < length cs \<longrightarrow> is_cont (byte_of (cs ! 1))"
        using d n err s lc by (auto simp: decode_rune_def Some t nth_map split: if_splits)
    qed
    with that [of l cs n lo hi] e lc Some t n show thesis by simp
  qed
qed

lemma full_rune_encode:
  assumes "encode_rune r = t @ u" "t \<noteq> []"
  shows "full_rune t \<longleftrightarrow> u = []"
proof -
  obtain l cs n lo hi where a: "encode_rune r = l # cs" "lead (byte_of l) = Some (n, lo, hi)"
    "n = Suc (length cs)" "cs \<noteq> [] \<Longrightarrow> lo \<le> byte_of (cs ! 0) \<and> byte_of (cs ! 0) \<le> hi"
    "1 < length cs \<Longrightarrow> is_cont (byte_of (cs ! 1))" using encode_rune_decodes [of r] by metis
  from assms a(1) obtain ts where t: "t = l # ts" and cs: "cs = ts @ u" by (cases t) auto
  have "\<not> (ts \<noteq> [] \<and> (byte_of (ts ! 0) < lo \<or> hi < byte_of (ts ! 0)))"
    using a(4) by (auto simp: cs nth_append)
  moreover have "\<not> (1 < length ts \<and> \<not> is_cont (byte_of (ts ! 1)))"
    using a(5) by (auto simp: cs nth_append)
  ultimately show ?thesis
    using a(2,3) by (auto simp: full_rune_def t cs)
qed

lemma con_partial_conts:
  "\<lbrakk>\<forall>c \<in> set cs. \<not> rune_start c; rune_start l\<rbrakk> \<Longrightarrow> con_partial_from i p (cs @ l # X) =
     (if i + length cs > 3 \<or> full_rune (l # rev cs @ p) then 0 else i + length cs)"
  by (induction cs arbitrary: i p) auto

lemma con_partial_encode:
  assumes "encode_rune r = t @ u" "t \<noteq> []"
  shows "con_partial (s @ t) = (if u = [] then 0 else length t)"
proof -
  obtain l ts where t: "t = l # ts" using assms(2) by (cases t) auto
  have "rune_start l" "\<forall>c \<in> set (ts @ u). \<not> rune_start c"
    using assms(1) by (auto simp: t rune_start_def intro: encode_rune_shape [of r])
  moreover have "length (encode_rune r) \<le> 4" by (simp add: encode_rune_def Let_def)
  then have "length ts + length u \<le> 3" using assms(1) by (simp add: t)
  moreover have "length u = 0 \<longleftrightarrow> u = []" by simp
  ultimately show ?thesis
    using con_partial_conts [of "rev ts" l 1 "[]" "rev s"] full_rune_encode [OF assms]
    by (cases u) (auto simp: con_partial_def t)
qed

lemma con_partial_cut_off: "cut_off t \<Longrightarrow> con_partial (string_of_runes rs @ t) = length t"
proof (cases "t = []")
  case True
  then show ?thesis
    using con_partial_encode [of _ _ "[]"]
    by (cases rs rule: rev_cases) (auto simp: con_partial_def)
next
  case False
  moreover assume "cut_off t"
  ultimately show ?thesis using con_partial_encode by (force simp: cut_off_def)
qed

interpretation console_cut: rune_cutter con_partial
  by unfold_locales (rule con_partial_cut_off)

subsection \<open>Reading a line\<close>

record 'r con_lib =
  y_host :: string
  y_home :: string
  y_ps1 :: "nat \<Rightarrow> 'r \<Rightarrow> string option"
  y_dir :: "'r \<Rightarrow> string"
  y_cols :: "ed_event list \<Rightarrow> int"
  y_width :: "rune \<Rightarrow> int"
  y_complete :: "'r \<Rightarrow> string \<Rightarrow> bool \<Rightarrow> string list"

text \<open>
  \<^verbatim>\<open>cn_line\<close> is what was submitted last, \<open>cn_draws\<close> how many prompts have been written (the time in
  a prompt is of when it was), \<open>cn_out\<close> what the console itself has written.
\<close>

record 'r con =
  cn_shell :: "'r shell_state"
  cn_ed :: editor
  cn_line :: string
  cn_draws :: nat
  cn_out :: string

definition con_write :: "string \<Rightarrow> 'r con \<Rightarrow> 'r con" where
  "con_write s c = c\<lparr>cn_out := cn_out c @ s\<rparr>"

definition osc133 :: "string \<Rightarrow> string" where
  "osc133 mark = CHR 0x1B # '']133;'' @ mark @ [CHR 0x1B, CHR 0x5C]"

definition con_prompt :: "'r con_lib \<Rightarrow> nat \<Rightarrow> 'r shell_state \<Rightarrow> string" where
  "con_prompt Y n s =
     (if shell_pending s then CHR 0x1B # ''[1;33m>'' @ CHR 0x1B # ''[0m ''
      else (case y_ps1 Y n (ss_runner s) of
          Some p \<Rightarrow> p
        | None \<Rightarrow>
           (let d = y_dir Y (ss_runner s);
                dir = (if y_home Y \<noteq> [] \<and> (d = y_home Y \<or> has_prefix d (y_home Y @ ''/''))
                       then CHR 0x7E # drop (length (y_home Y)) d else d)
            in CHR 0x1B # ''[1;32m'' @ y_host Y @ CHR 0x1B # ''[0m:'' @ CHR 0x1B # ''[1;34m'' @ dir @
               CHR 0x1B # ''[0m$ '')))"

definition drawn_prompt :: "'r con_lib \<Rightarrow> nat \<Rightarrow> 'r shell_state \<Rightarrow> string" where
  "drawn_prompt Y n s = osc133 ''A'' @ prompt_text (con_prompt Y n s) @ osc133 ''B''"

definition write_prompt :: "'r con_lib \<Rightarrow> 'r con \<Rightarrow> 'r con" where
  "write_prompt Y c = (con_write (drawn_prompt Y (cn_draws c) (cn_shell c)) c)\<lparr>cn_draws := cn_draws c + 1\<rparr>"

text \<open>What the editor's events have made of the shell and of the count of prompts.\<close>

definition evs_shell :: "ed_event list \<Rightarrow> 'r shell_state \<Rightarrow> 'r shell_state" where
  "evs_shell evs s = (if Interrupted \<in> set evs then cancel_pending s else s)"

definition evs_draws :: "ed_event list \<Rightarrow> nat" where
  "evs_draws evs = length (filter (\<lambda>e. e = Interrupted \<or> e = ScreenCleared) evs)"

text \<open>
  The editor's callbacks, as \<^verbatim>\<open>Run\<close> sets them, for a read before which \<open>n\<close> prompts were drawn,
  the last one for this line.
\<close>

definition con_conf0 :: "'r con_lib \<Rightarrow> nat \<Rightarrow> 'r shell_state \<Rightarrow> ed_conf" where
  "con_conf0 Y n s =
     \<lparr>k_prompt = Some (\<lambda>evs. con_prompt Y (n - 1 + evs_draws evs) (evs_shell evs s)),
      k_cols = Some (y_cols Y), k_complete = Some (y_complete Y (ss_runner s)),
      k_submit = Some (\<lambda>line e. e), k_interrupt = True, k_eof = True, k_clear = None,
      k_redraw = False, k_width = y_width Y\<rparr>"

definition con_conf :: "'r con_lib \<Rightarrow> nat \<Rightarrow> 'r shell_state \<Rightarrow> ed_conf" where
  "con_conf Y n s = (con_conf0 Y n s)\<lparr>k_clear := Some (redisplay (con_conf0 Y n s))\<rparr>"

fun submitted :: "ed_event list \<Rightarrow> string list" where
  "submitted [] = []"
| "submitted (Submitted l # evs) = l # submitted evs"
| "submitted (_ # evs) = submitted evs"

text \<open>What the console writes for the events: an echo as it is, and what the callbacks draw.\<close>

fun evs_text :: "'r con_lib \<Rightarrow> nat \<Rightarrow> 'r shell_state \<Rightarrow> ed_event list \<Rightarrow> string" where
  "evs_text Y n s [] = []"
| "evs_text Y n s (Echoed t # evs) = t @ evs_text Y n s evs"
| "evs_text Y n s (Interrupted # evs) =
     drawn_prompt Y n (cancel_pending s) @ evs_text Y (n + 1) (cancel_pending s) evs"
| "evs_text Y n s (ScreenCleared # evs) =
     CHR 0x1B # ''[2J'' @ CHR 0x1B # ''[H'' @ drawn_prompt Y n s @ evs_text Y (n + 1) s evs"
| "evs_text Y n s (_ # evs) = evs_text Y n s evs"

text \<open>The reads of the terminal: \<open>None\<close> while they have not brought a line.\<close>

fun read_loop ::
  "ed_conf \<Rightarrow> string \<Rightarrow> (string \<times> bool) list \<Rightarrow> editor \<Rightarrow> (bool \<times> (string \<times> bool) list \<times> editor) option"
where
  "read_loop K tail reads e =
     (if submitted (e_evs e) \<noteq> [] \<or> AtEOF \<in> set (e_evs e) then
        Some (submitted (e_evs e) \<noteq> [], reads, e)
      else (case reads of
          [] \<Rightarrow> None
        | (b, err) # rs \<Rightarrow>
           (let all = tail @ b; n = length all - con_partial all;
                (t, e1) = (if b = [] then (tail, e) else (drop n all, editor_input K (take n all) e)) in
            if err then Some (False, rs, e1) else read_loop K t rs e1)))"

definition con_read_line ::
  "'r con_lib \<Rightarrow> (string \<times> bool) list \<Rightarrow> 'r con \<Rightarrow> ((string \<times> bool) \<times> (string \<times> bool) list \<times> 'r con) option"
where
  "con_read_line Y reads c0 =
     (let c = write_prompt Y c0 in
      case read_loop (con_conf Y (cn_draws c) (cn_shell c)) [] reads ((cn_ed c)\<lparr>e_evs := []\<rparr>) of
        None \<Rightarrow> None
      | Some (ok, rs, e) \<Rightarrow>
         (let line = last (cn_line c # submitted (e_evs e)) in
          Some ((if ok then line else [], ok), rs,
            c\<lparr>cn_shell := evs_shell (e_evs e) (cn_shell c), cn_ed := e, cn_line := line,
              cn_draws := cn_draws c + evs_draws (e_evs e),
              cn_out := cn_out c @ evs_text Y (cn_draws c) (cn_shell c) (e_evs e)\<rparr>)))"

declare read_loop.simps [simp del]

text \<open>A line is read only by reading: what is left is shorter.\<close>

lemma read_loop_shorter:
  "read_loop K tail reads e = Some (ok, rs, e') \<Longrightarrow> length rs \<le> length reads \<and>
   (submitted (e_evs e) = [] \<and> AtEOF \<notin> set (e_evs e) \<longrightarrow> length rs < length reads)"
proof (induction reads arbitrary: tail e)
  case Nil
  then show ?case by (auto simp: read_loop.simps split: if_splits)
next
  case (Cons r rds)
  obtain b err where r: "r = (b, err)" by (cases r)
  show ?case
  proof (cases "submitted (e_evs e) \<noteq> [] \<or> AtEOF \<in> set (e_evs e)")
    case True
    then show ?thesis using Cons.prems by (subst (asm) read_loop.simps) auto
  next
    case False
    then obtain t e1 where "(if err then Some (False, rds, e1) else read_loop K t rds e1) = Some (ok, rs, e')"
      using Cons.prems by (subst (asm) read_loop.simps) (auto simp: r Let_def split: if_splits)
    with Cons.IH [of t e1] show ?thesis by (auto split: if_splits)
  qed
qed

lemma con_read_line_shorter:
  assumes "con_read_line Y reads c = Some (l, rs, c')"
  shows "length rs < length reads"
proof -
  obtain K e ok e' where "read_loop K [] reads (e\<lparr>e_evs := []\<rparr>) = Some (ok, rs, e')"
    using assms by (auto simp: con_read_line_def Let_def simp del: last.simps split: option.splits)
  with read_loop_shorter show ?thesis by fastforce
qed

subsection \<open>Running what was read\<close>

record 'e err_lib =
  er_status :: "'e \<Rightarrow> int option"
  er_text :: "'e \<Rightarrow> string"
  er_canceled :: "'e \<Rightarrow> bool"

definition exit_code :: "'e err_lib \<Rightarrow> 'e option \<Rightarrow> int" where
  "exit_code X err =
     (case err of None \<Rightarrow> 0 | Some e \<Rightarrow> (case er_status X e of Some n \<Rightarrow> n | None \<Rightarrow> 1))"

text \<open>Whether Ctrl+C ended the line's context while it ran.\<close>

definition run_interrupted :: "('p, 'r, 'e) runner_lib \<Rightarrow> string \<Rightarrow> 'r shell_state \<Rightarrow> bool" where
  "run_interrupted N line s =
     (case rn_parse N (ss_pending s @ line @ [CHR 0x0A]) of
        Parsed p rs \<Rightarrow> \<not> open_heredoc rs \<and> fst (snd (rn_run N p (ss_runner s)))
      | _ \<Rightarrow> False)"

definition con_message :: "'e err_lib \<Rightarrow> string \<Rightarrow> bool \<Rightarrow> 'e option \<Rightarrow> string" where
  "con_message X host exited err =
     (case err of
        None \<Rightarrow> []
      | Some e \<Rightarrow>
          if exited \<or> has_prefix (er_text X e) ''exit status'' \<or> er_canceled X e then []
          else host @ '': '' @ replace_byte (er_text X e) (CHR 0x0A) [CHR 0x0D, CHR 0x0A] @ [CHR 0x0D, CHR 0x0A])"

definition con_run_line ::
  "('p, 'r, 'e) runner_lib \<Rightarrow> 'e err_lib \<Rightarrow> string \<Rightarrow> string \<Rightarrow> 'r con \<Rightarrow> (bool \<times> 'e option) \<times> 'r con"
where
  "con_run_line N X host line c =
     (let ((more, err), s1) = shell_run N line (cn_shell c) in
      ((run_interrupted N line (cn_shell c), err),
       con_write (osc133 ''C'' @ osc133 (''D;'' @ itoa (exit_code X err)) @
         con_message X host (shell_exited s1) err) (c\<lparr>cn_shell := s1\<rparr>)))"

text \<open>One round of the loop of \<^verbatim>\<open>Run\<close>: the status it returns with, or that it goes on.\<close>

definition con_round ::
  "('p, 'r, 'e) runner_lib \<Rightarrow> 'e err_lib \<Rightarrow> string \<Rightarrow> string \<Rightarrow> 'r con \<Rightarrow> int option \<times> 'r con"
where
  "con_round N X host line c =
     (let c1 = (if shell_pending (cn_shell c) then c else c\<lparr>cn_ed := add_history line (cn_ed c)\<rparr>);
          ((interrupted, err), c2) = con_run_line N X host line c1 in
      if shell_exited (cn_shell c2) \<and> \<not> interrupted then (Some (exit_code X err), c2)
      else (None, if shell_pending (cn_shell c2) then c2
                  else c2\<lparr>cn_shell := report_jobs N (cn_shell c2)\<rparr>))"

text \<open>The loop: the status of the console, or \<open>None\<close> while it waits for more to be typed.\<close>

function con_loop ::
  "('p, 'r, 'e) runner_lib \<Rightarrow> 'e err_lib \<Rightarrow> 'r con_lib \<Rightarrow> string \<Rightarrow> (string \<times> bool) list \<Rightarrow> 'r con \<Rightarrow>
   int option \<times> 'r con"
where
  "con_loop N X Y first reads c =
     (if first \<noteq> [] then
        (case con_round N X (y_host Y) first (con_write (first @ [CHR 0x0A]) (write_prompt Y c)) of
           (Some n, c1) \<Rightarrow> (Some n, c1)
         | (None, c1) \<Rightarrow> con_loop N X Y [] reads c1)
      else
        (case con_read_line Y reads c of
           None \<Rightarrow> (None, c)
         | Some ((line, ok), rs, c1) \<Rightarrow>
             if \<not> ok then (Some 0, con_write [CHR 0x0D, CHR 0x0A] c1)
             else (case con_round N X (y_host Y) line c1 of
                 (Some n, c2) \<Rightarrow> (Some n, c2)
               | (None, c2) \<Rightarrow> con_loop N X Y [] rs c2)))"
  by pat_completeness auto
termination
  by (relation "measure (\<lambda>(N, X, Y, first, reads, c). length reads + (if first = [] then 0 else 1))")
    (auto dest: con_read_line_shorter)

declare con_loop.simps [simp del]

text \<open>What comes before the loop: the greeting, and what went wrong in the rc file.\<close>

definition con_start :: "string \<Rightarrow> string \<Rightarrow> string \<Rightarrow> gerr option \<Rightarrow> 'r con \<Rightarrow> 'r con" where
  "con_start host greeting rc_file rc_err c =
     (let nl = (\<lambda>t. replace_byte t (CHR 0x0A) [CHR 0x0D, CHR 0x0A]);
          c1 = (if greeting = [] then c else con_write (nl greeting) c) in
      case rc_err of
        None \<Rightarrow> c1
      | Some e \<Rightarrow> con_write (host @ '': '' @ rc_file @ '': '' @ nl e @ [CHR 0x0D, CHR 0x0A]) c1)"

subsection \<open>The editor under the console\<close>

lemma redisplay_same: "same_text e (redisplay K e)"
  by (simp add: redisplay_def echo_def redraw_def same_text_def)

interpretation con_host: line_host "con_conf Y n s" for Y n s
  by unfold_locales (auto simp: con_conf_def con_conf0_def same_text_ok [OF redisplay_same])

text \<open>Only Enter, Ctrl+C, Ctrl+D and Ctrl+L reach the host with something that ends a line.\<close>

fun is_end :: "ed_event \<Rightarrow> bool" where
  "is_end (Submitted l) = True"
| "is_end AtEOF = True"
| "is_end Interrupted = True"
| "is_end _ = False"

definition ends :: "editor \<Rightarrow> ed_event list" where
  "ends e = filter is_end (e_evs e)"

lemma ends_fields [simp]:
  "ends (e\<lparr>e_cursor := i\<rparr>) = ends e" "ends (e\<lparr>e_buf := b\<rparr>) = ends e" "ends (e\<lparr>e_esc := m\<rparr>) = ends e"
  "ends (e\<lparr>e_csi := u\<rparr>) = ends e" "ends (e\<lparr>e_settled := z\<rparr>) = ends e" "ends (e\<lparr>e_evs := []\<rparr>) = []"
  "ends (e\<lparr>e_hist_idx := i\<rparr>) = ends e" "ends (e\<lparr>e_hist_save := u\<rparr>) = ends e"
  "ends (e\<lparr>e_evs := e_evs e @ [v]\<rparr>) = (if is_end v then ends e @ [v] else ends e)"
  by (simp_all add: ends_def)

lemma ends_echo [simp]: "ends (echo t e) = ends e"
  by (simp add: echo_def)

lemma ends_redraw [simp]: "ends (redraw K e) = ends e"
  by (simp add: redraw_def ends_def)

lemma ends_draw [simp]:
  "ends (refresh_from K a e) = ends e" "ends (change K f e) = ends (f e)"
  "ends (move_to K i e) = ends e" "ends (settle K e) = ends e" "ends (editor_reset e) = ends e"
  "ends (to_end_of_line K e) = ends e"
  by (simp_all add: refresh_from_def change_def move_to_def settle_def editor_reset_def
      to_end_of_line_def Let_def)

lemma ends_edit [simp]:
  "ends (put_in rs e) = ends e" "ends (insert_runes K rs e) = ends e" "ends (cut_to i e) = ends e"
  "ends (backspace K e) = ends e" "ends (history_up e) = ends e" "ends (history_down e) = ends e"
  "ends (handle_csi K q e) = ends e"
  by (simp_all add: put_in_def insert_runes_def cut_to_def backspace_def history_up_def
      history_down_def handle_csi_def Let_def)

lemma ends_complete [simp]: "ends (complete_word K e) = ends e"
  by (simp add: complete_word_def Let_def split: option.split list.split)

lemma ends_input: "r \<notin> {3, 4, 10, 12, 13} \<Longrightarrow> ends (input_rune K r e) = ends e"
  by (simp add: input_rune_def plain_rune_def Let_def)

lemma ends_inputs: "set rs \<inter> {3, 4, 10, 12, 13} = {} \<Longrightarrow> ends (fold (input_rune K) rs e) = ends e"
  by (induction rs arbitrary: e) (auto simp: ends_input)

lemma submitted_ends: "submitted evs = submitted (filter is_end evs)"
  by (induction evs rule: submitted.induct) auto

lemma key_runes_plain: "key_ok k \<Longrightarrow> set (key_runes k) \<inter> {3, 4, 10, 12, 13} = {}"
  by (cases k) (auto simp: key_ok_def)

text \<open>Enter, on a line that has been typed.\<close>

lemma enter_line:
  assumes K: "K = con_conf Y n s" and e: "ed_ok e" "e_esc e = 0"
  defines "e' \<equiv> input_rune K 13 e"
  shows "ends e' = ends e @ [Submitted (string_of_runes (e_buf e))] \<and> ed_ok e' \<and> e_esc e' = 0 \<and>
    text_of e' = ([], [])"
proof -
  have "e_buf (to_end_of_line K (settle K e)) = e_buf e" "e_esc (to_end_of_line K (settle K e)) = 0"
    using e(2) move_to_same [where e = "settle K e" and K = K and i = "length (e_buf (settle K e))"]
    by (simp_all add: to_end_of_line_def settle_fields settle_text same_text_def)
  then have "ends e' = ends e @ [Submitted (string_of_runes (e_buf e))] \<and> e_esc e' = 0 \<and> text_of e' = ([], [])"
    using e(2) by (simp add: e'_def input_rune_def plain_rune_def Let_def settle_text enter_def K
        con_conf_def con_conf0_def text_of_def) (simp add: editor_reset_def echo_def)
  moreover have "ed_ok e'"
    unfolding e'_def K by (rule con_host.input_rune_ok [OF e(1)]) (simp add: valid_rune_def)
  ultimately show ?thesis by blast
qed

subsection \<open>Reads cut anywhere\<close>

context rune_cutter
begin

text \<open>What a read brings of a text of whole characters: some of them, and the start of the next.\<close>

lemma cut_read:
  assumes "tail @ p @ rest = string_of_runes qs" "list_all valid_rune qs"
  obtains xs ys t where "qs = xs @ ys" "cut (tail @ p) = length t" "tail @ p = string_of_runes xs @ t"
    "t @ rest = string_of_runes ys" "rest = [] \<Longrightarrow> ys = [] \<and> t = []" "rest \<noteq> [] \<Longrightarrow> ys \<noteq> []"
proof -
  obtain k t where kt: "tail @ p = string_of_runes (take k qs) @ t" "cut_off t"
    using whole_prefix [of "tail @ p" rest qs] assms(1) by auto
  have "string_of_runes (take k qs) @ t @ rest = string_of_runes (take k qs) @ string_of_runes (drop k qs)"
    using kt(1) assms(1) by (metis append.assoc append_take_drop_id string_of_runes_append)
  then have r: "t @ rest = string_of_runes (drop k qs)" by simp
  have none: "drop k qs = []" if "string_of_runes (drop k qs) = []"
    using that by (cases "drop k qs") auto
  have "drop k qs = [] \<and> t = []" if "rest = []"
  proof -
    have "whole t" using r that by (auto simp: whole_def)
    then have "t = []" using kt(2) cut_off_whole by blast
    then show ?thesis using r that none by simp
  qed
  moreover have "drop k qs \<noteq> []" if "rest \<noteq> []" using r that by auto
  ultimately show thesis
    using that [of "take k qs" "drop k qs" t] kt cut_tail r by simp
qed

end

text \<open>A line typed in any pieces is one \<^verbatim>\<open>Input\<close> after the other of its keys, up to Enter.\<close>

lemma read_loop_line:
  assumes "K = con_conf Y n s" "tail @ concat ps = string_of_runes (rs @ [13])" "[] \<notin> set ps" "ps \<noteq> []"
    "list_all valid_rune (rs @ [13])" "set rs \<inter> {3, 4, 10, 12, 13} = {}"
    "ed_ok e" "ends e = []" "e' = fold (input_rune K) rs e" "e_esc e' = 0"
  shows "read_loop K tail (map (\<lambda>p. (p, False)) ps @ later) e = Some (True, later, input_rune K 13 e')"
  using assms(2-)
proof (induction ps arbitrary: tail rs e)
  case (Cons p ps)
  obtain xs ys t where x: "rs @ [13] = xs @ ys" "con_partial (tail @ p) = length t"
    "tail @ p = string_of_runes xs @ t" "t @ concat ps = string_of_runes ys"
    "concat ps = [] \<Longrightarrow> ys = [] \<and> t = []" "concat ps \<noteq> [] \<Longrightarrow> ys \<noteq> []"
    by (rule console_cut.cut_read [of tail p "concat ps" "rs @ [13]"]) (use Cons.prems in auto)
  have valid: "list_all valid_rune xs" "list_all valid_rune ys"
    using Cons.prems(4) by (simp_all add: x(1))
  have none: "submitted (e_evs e) = []" "AtEOF \<notin> set (e_evs e)"
    using Cons.prems(7) submitted_ends [of "e_evs e"] by (auto simp: ends_def filter_empty_conv)
  have pne: "p \<noteq> []" using Cons.prems(2) by auto
  have step: "read_loop K tail (map (\<lambda>p. (p, False)) (p # ps) @ later) e =
      read_loop K t (map (\<lambda>p. (p, False)) ps @ later) (fold (input_rune K) xs e)"
    using none x(2,3) pne valid(1)
    by (subst read_loop.simps) (simp add: Let_def editor_input_def runes_of_string)
  show ?case
  proof (cases "ps = []")
    case True
    then have xs: "xs = rs @ [13]" using x(1,5) by simp
    have "ed_ok e'" unfolding Cons.prems(8) assms(1)
      by (rule con_host.runes_ok [OF Cons.prems(6)]) (use Cons.prems(4) in simp)
    note en = enter_line [OF assms(1) this Cons.prems(9)]
    have "ends e' = []"
      using Cons.prems(7) ends_inputs [OF Cons.prems(5), of K e] by (simp add: Cons.prems(8))
    with en have "submitted (e_evs (input_rune K 13 e')) \<noteq> []"
      using submitted_ends [of "e_evs (input_rune K 13 e')"] by (simp add: ends_def)
    then have "read_loop K t (map (\<lambda>p. (p, False)) ps @ later) (fold (input_rune K) xs e) =
        Some (True, later, input_rune K 13 e')"
      by (subst read_loop.simps) (simp add: True xs Cons.prems(8))
    with step show ?thesis by simp
  next
    case False
    have c: "concat ps \<noteq> []" using False Cons.prems(2) by (cases ps) auto
    then obtain zs where zs: "ys = zs @ [13]" "rs = xs @ zs"
      using x(1,6) by (cases ys rule: rev_cases) auto
    show ?thesis unfolding step
    proof (rule Cons.IH)
      show "t @ concat ps = string_of_runes (zs @ [13])" using x(4) zs by simp
      show "list_all valid_rune (zs @ [13])" using valid(2) zs by simp
      show "ed_ok (fold (input_rune K) xs e)" unfolding assms(1)
        by (rule con_host.runes_ok [OF Cons.prems(6) valid(1)])
      show "ends (fold (input_rune K) xs e) = []"
        using ends_inputs [of xs K e] Cons.prems(5,7) zs(2) by auto
      show "e' = fold (input_rune K) zs (fold (input_rune K) xs e)" using Cons.prems(8) zs(2) by simp
    qed (use Cons.prems False zs in auto)
  qed
qed simp

subsection \<open>The lines typed are the lines run\<close>

text \<open>The rounds of the loop on the shell's side, for lines that are there as texts.\<close>

fun shell_lines ::
  "('p, 'r, 'e) runner_lib \<Rightarrow> 'e err_lib \<Rightarrow> string list \<Rightarrow> 'r shell_state \<Rightarrow> int option \<times> 'r shell_state"
where
  "shell_lines N X [] s = (None, s)"
| "shell_lines N X (l # ls) s =
     (let ((m, err), s1) = shell_run N l s in
      if shell_exited s1 \<and> \<not> run_interrupted N l s then (Some (exit_code X err), s1)
      else shell_lines N X ls (if shell_pending s1 then s1 else report_jobs N s1))"

definition typed_line :: "edit_key list \<Rightarrow> string" where
  "typed_line ks = (let (l, x) = fold key_step ks ([], []) in string_of_runes (l @ x))"

text \<open>The pieces that the keys of a line, and Enter, may come in.\<close>

definition typed_as :: "edit_key list \<Rightarrow> string list \<Rightarrow> bool" where
  "typed_as ks ps =
     (list_all key_ok ks \<and> [] \<notin> set ps \<and> concat ps = string_of_runes (concat (map key_runes ks) @ [13]))"

lemma text_of_evs [simp]: "text_of (e\<lparr>e_evs := v\<rparr>) = text_of e"
  by (simp add: text_of_def)

definition prompt_idle :: "editor \<Rightarrow> bool" where
  "prompt_idle e = (ed_ok e \<and> e_esc e = 0 \<and> text_of e = ([], []))"

lemma read_typed_line:
  assumes "typed_as ks ps" "prompt_idle (cn_ed c)"
  shows "\<exists>c'. con_read_line Y (map (\<lambda>p. (p, False)) ps @ later) c = Some ((typed_line ks, True), later, c') \<and>
    cn_shell c' = cn_shell c \<and> prompt_idle (cn_ed c')"
proof -
  define c1 where "c1 = write_prompt Y c"
  define e where "e = (cn_ed c1)\<lparr>e_evs := []\<rparr>"
  define K where "K = con_conf Y (cn_draws c1) (cn_shell c1)"
  let ?rs = "concat (map key_runes ks)"
  let ?e = "fold (input_rune K) ?rs e" and ?f = "input_rune K 13 (fold (input_rune K) ?rs e)"
  have ks: "list_all key_ok ks" "[] \<notin> set ps" "concat ps = string_of_runes (?rs @ [13])"
    using assms(1) by (simp_all add: typed_as_def)
  have c1: "cn_shell c1 = cn_shell c" "cn_ed c1 = cn_ed c"
    by (simp_all add: c1_def write_prompt_def con_write_def)
  have e: "ed_ok e" "e_esc e = 0" "text_of e = ([], [])" "ends e = []"
    using assms(2) by (simp_all add: e_def c1 prompt_idle_def text_of_evs)
  have rs: "set ?rs \<inter> {3, 4, 10, 12, 13} = {}" "list_all valid_rune (?rs @ [13])"
    using ks(1) key_runes_plain key_runes_valid by (fastforce simp: list_all_iff, auto simp: list_all_iff valid_rune_def)
  note sim = con_host.keys_simulation [OF e(1,2) ks(1), of Y "cn_draws c1" "cn_shell c1", folded K_def]
  have read: "read_loop K [] (map (\<lambda>p. (p, False)) ps @ later) e = Some (True, later, ?f)"
    by (rule read_loop_line [OF K_def _ ks(2) _ rs(2,1) e(1,4) refl]) (use ks(3) sim in auto)
  note en = enter_line [OF K_def, of ?e]
  obtain l x where lx: "fold key_step ks ([], []) = (l, x)" by fastforce
  have "text_of ?e = (l, x)" using sim e(3) lx by simp
  then have buf: "e_buf ?e = l @ x" by (metis append_take_drop_id prod.inject text_of_def)
  have "ends ?f = [Submitted (typed_line ks)]"
    using en sim ends_inputs [OF rs(1), of K e] e(4) by (simp add: buf typed_line_def lx)
  then have "submitted (e_evs ?f) = [typed_line ks]"
    using submitted_ends [of "e_evs ?f"] by (simp add: ends_def)
  moreover have "Interrupted \<notin> set (ends ?f)" using \<open>ends ?f = _\<close> by simp
  then have "Interrupted \<notin> set (e_evs ?f)" by (simp add: ends_def)
  ultimately show ?thesis
    using en sim read unfolding con_read_line_def Let_def c1_def [symmetric] e_def [symmetric] K_def [symmetric]
    by (simp add: prompt_idle_def evs_shell_def c1)
qed

lemma prompt_idle_history: "prompt_idle e \<Longrightarrow> prompt_idle (add_history line e)"
  using add_history_ok by (auto simp: prompt_idle_def add_history_def text_of_def)

lemma con_round_lines:
  "con_round N X host l c = (r, c') \<Longrightarrow>
   (case r of Some n \<Rightarrow> shell_lines N X (l # ls) (cn_shell c) = (Some n, cn_shell c')
    | None \<Rightarrow> shell_lines N X (l # ls) (cn_shell c) = shell_lines N X ls (cn_shell c')) \<and>
   (prompt_idle (cn_ed c) \<longrightarrow> prompt_idle (cn_ed c'))"
  by (auto simp: con_round_def con_run_line_def con_write_def Let_def prompt_idle_history
      split: prod.splits if_splits)

text \<open>
  C5. However the lines typed at the console are cut into reads (in the middle of characters and
  of the arrow keys' sequences, and every Enter the end of a read), the shell is given the
  lines typed, each once and in order, and the console returns with the status of the
  first that exits, or goes on waiting: the session is that of the lines as texts.
\<close>

theorem console_runs_lines_typed:
  assumes "list_all2 typed_as kss pss" "prompt_idle (cn_ed c)"
    "con_loop N X Y [] (map (\<lambda>p. (p, False)) (concat pss)) c = (r, c')"
  shows "shell_lines N X (map typed_line kss) (cn_shell c) = (r, cn_shell c')"
  using assms
proof (induction kss pss arbitrary: c rule: list_all2_induct)
  case Nil
  then show ?case by (auto simp: con_loop.simps con_read_line_def read_loop.simps Let_def)
next
  case (Cons ks kss ps pss)
  obtain c1 where c1: "con_read_line Y (map (\<lambda>p. (p, False)) ps @ map (\<lambda>p. (p, False)) (concat pss)) c =
      Some ((typed_line ks, True), map (\<lambda>p. (p, False)) (concat pss), c1)"
    "cn_shell c1 = cn_shell c" "prompt_idle (cn_ed c1)"
    using read_typed_line [OF Cons.hyps(1) Cons.prems(1)] by blast
  obtain q c2 where q: "con_round N X (y_host Y) (typed_line ks) c1 = (q, c2)" by fastforce
  note round = con_round_lines [OF q, of "map typed_line kss"]
  show ?case
  proof (cases q)
    case None
    then have "con_loop N X Y [] (map (\<lambda>p. (p, False)) (concat pss)) c2 = (r, c')"
      using Cons.prems(2) c1(1) q by (subst (asm) con_loop.simps) simp
    from Cons.IH [OF _ this] round None c1 show ?thesis by simp
  next
    case (Some n)
    then have "r = Some n \<and> c' = c2"
      using Cons.prems(2) c1(1) q by (subst (asm) con_loop.simps) simp
    with round Some c1 show ?thesis by simp
  qed
qed

text \<open>A console over the toy interpreter: a line that ends in a semicolon is a statement.\<close>

definition demo_con_lib :: "string list con_lib" where
  "demo_con_lib = \<lparr>y_host = ''websh'', y_home = ''/home/user'', y_ps1 = (\<lambda>n r. None), y_dir = (\<lambda>r. ''/tmp''),
     y_cols = (\<lambda>evs. 80), y_width = (\<lambda>r. 1), y_complete = (\<lambda>r w first. [])\<rparr>"

definition demo_err_lib :: "gerr err_lib" where
  "demo_err_lib = \<lparr>er_status = (\<lambda>e. None), er_text = id, er_canceled = (\<lambda>e. False)\<rparr>"

definition demo_con :: "string list con" where
  "demo_con = \<lparr>cn_shell = \<lparr>ss_pending = [], ss_exited = False, ss_runner = []\<rparr>, cn_ed = new_editor,
     cn_line = [], cn_draws = 0, cn_out = []\<rparr>"

theorem console_runs_lines_typed_witness:
  "\<exists>r c'. con_loop semi_lib demo_err_lib demo_con_lib [] (map (\<lambda>p. (p, False)) (concat
       [[[CHR 0xC3], [CHR 0xA9, CHR 0x1B], ''[Da'', [CHR 0x05, CHR 0x0D]], [[CHR 0x3B], [CHR 0x0D]]])) demo_con = (r, c') \<and>
     shell_lines semi_lib demo_err_lib [CHR 0x61 # encode_rune 233, '';''] (cn_shell demo_con) = (r, cn_shell c')"
proof -
  have t: "map typed_line [[KIns 233, KLeft, KIns 97, KEnd], [KIns 59]] = [CHR 0x61 # encode_rune 233, '';'']"
    by code_simp
  have "list_all2 typed_as [[KIns 233, KLeft, KIns 97, KEnd], [KIns 59]]
      [[[CHR 0xC3], [CHR 0xA9, CHR 0x1B], ''[Da'', [CHR 0x05, CHR 0x0D]], [[CHR 0x3B], [CHR 0x0D]]]"
    by code_simp
  moreover have "prompt_idle (cn_ed demo_con)" by code_simp
  ultimately show ?thesis
    using console_runs_lines_typed [of "[[KIns 233, KLeft, KIns 97, KEnd], [KIns 59]]"] unfolding t
    by (metis surj_pair)
qed

text \<open>
  Two lines that come in one read, as when text is pasted, are submitted both before \<^verbatim>\<open>readLine\<close>
  looks: the second has taken the place of the first, which is never run.
\<close>

lemma pasted_line_lost:
  "map_option fst (con_read_line demo_con_lib [(''ls'' @ [CHR 0x0D] @ ''pwd'' @ [CHR 0x0D], False)] demo_con) =
     Some (''pwd'', True)"
  by code_simp

text \<open>And the start of a character that came with an Enter is dropped: the next line's is broken.\<close>

lemma start_after_enter_lost:
  "map_option fst (case con_read_line demo_con_lib [([CHR 0x0D, CHR 0xC3], False), ([CHR 0xA9, CHR 0x0D], False)] demo_con of
       Some (l, rs, c) \<Rightarrow> con_read_line demo_con_lib rs c | None \<Rightarrow> None) =
     Some (encode_rune rune_error, True)"
  by code_simp

end
