(* ===== verification/Shell_Setup.thy ===== *)
theory Shell_Setup
  imports Prompt_Complete Shell_Core
begin

text \<open>
  What is around a shell: its making (\<^verbatim>\<open>Seed\<close>, \<^verbatim>\<open>PopulateBin\<close>, the environment of \<^verbatim>\<open>New\<close>,
  \<^verbatim>\<open>src/shell/shell.go\<close>), the rc file (\<^verbatim>\<open>prompt.go\<close>), programs on the machine
  (\<^verbatim>\<open>exec_other.go\<close>) and in a page (\<^verbatim>\<open>exec_js.go\<close>), the helpers for applets elsewhere
  (\<^verbatim>\<open>helpers.go\<close>), and the applets over other people's engines, awk and jq. Processes and
  engines are parameters; the lemmas are about what a program's end becomes and where a program is
  looked for.
\<close>

subsection \<open>A new file system\<close>

text \<open>The first operation that fails ends it, with what the ones before have done.\<close>

fun try_all :: "('f \<Rightarrow> 'f \<times> gerr option) list \<Rightarrow> 'f \<Rightarrow> 'f \<times> gerr option" where
  "try_all [] fs = (fs, None)"
| "try_all (f # xs) fs = (case f fs of (fs1, Some e) \<Rightarrow> (fs1, Some e) | (fs1, None) \<Rightarrow> try_all xs fs1)"

definition seed_dirs :: "string list" where
  "seed_dirs = [''/home/user'', ''/tmp'', ''/etc'', ''/bin'']"

definition em_dash :: string where
  "em_dash = [CHR 0xE2, CHR 0x80, CHR 0x94]"

definition seed_files :: "(string \<times> string) list" where
  "seed_files =
    [(''/etc/motd'', ''welcome to websh '' @ em_dash @ '' a bash-like shell running entirely in your browser'' @ [CHR 0x0A]),
     (''/home/user/readme.md'', lines_text
       [''# websh'', [],
        ''This shell is github.com/0magnet/sh (a fork of mvdan.cc/sh) running'',
        ''in WebAssembly behind an xterm-go terminal. The filesystem you are'',
        ''looking at lives in memory.'', [],
        ''Things to try:'',
        ''  ls /bin        # every available command lives here'',
        ''  help           # ...with descriptions'',
        ''  ls -l /etc'',
        ''  cat /etc/motd'',
        ''  echo hello > hi.txt; cat hi.txt'',
        ''  for i in $(seq 3); do echo line $i; done'',
        ''  seq 10 | grep 1'',
        ''  source demo.sh'']),
     (''/home/user/demo.sh'', lines_text
       [''echo '' @ [CHR 0x22] @ ''hello from a shell script!'' @ [CHR 0x22],
        ''for f in /etc/*; do echo '' @ [CHR 0x22] @ ''found: $f'' @ [CHR 0x22] @ ''; done'',
        ''x=$((6 * 7))'',
        ''echo '' @ [CHR 0x22] @ ''the answer is $x'' @ [CHR 0x22]])]"

text \<open>A Go map is gone through in any order: \<open>order\<close>.\<close>

definition seed_fs ::
  "'f fs_ops \<Rightarrow> ((string \<times> string) list \<Rightarrow> (string \<times> string) list) \<Rightarrow> 'f \<Rightarrow> 'f \<times> gerr option"
where
  "seed_fs F order fs =
     (case try_all (map (\<lambda>d fs. fs_mkdir_all F fs d 493) seed_dirs) fs of
        (fs1, Some e) \<Rightarrow> (fs1, Some e)
      | (fs1, None) \<Rightarrow> try_all (map (\<lambda>(p, b) fs. fs_write F fs p b 420) (order seed_files)) fs1)"

definition populate_bin ::
  "'f fs_ops \<Rightarrow> bool \<Rightarrow> (string \<times> string) list \<Rightarrow> 'f \<Rightarrow> 'f \<times> gerr option"
where
  "populate_bin F native reg fs =
     (if native then (fs, None)
      else (case fs_mkdir_all F fs ''/bin'' 493 of
          (fs1, Some e) \<Rightarrow> (fs1, Some e)
        | (fs1, None) \<Rightarrow>
            try_all (map (\<lambda>(n, help) fs. fs_write F fs (''/bin/'' @ n)
              (''websh built-in applet: '' @ help @ [CHR 0x0A]) 493) reg) fs1))"

definition new_env :: "string list \<Rightarrow> string list" where
  "new_env extra =
     [''HOME=/home/user'', ''USER=user'', ''HOSTNAME=websh'', ''PATH=/bin'', ''SHELL=/bin/websh'',
      ''TERM=xterm-256color'', ''PS1=$ ''] @ extra"

definition new_os_env :: "string list \<Rightarrow> string option \<Rightarrow> string list \<Rightarrow> string list" where
  "new_os_env env exe extra =
     env @ (case exe of Some x \<Rightarrow> [''SHELL='' @ x] | None \<Rightarrow> []) @ extra"

subsection \<open>The rc file\<close>

text \<open>What opening the rc file gives: its text, nothing there, or another error.\<close>

datatype 'e rc_open = Rc_Text string | Rc_Missing | Rc_Error 'e

definition rc_file :: string where
  "rc_file = ''.webshrc''"

definition source_rc ::
  "('p, 'r, 'e) runner_lib \<Rightarrow> ('e \<Rightarrow> int option) \<Rightarrow> (string \<Rightarrow> 'e + 'p) \<Rightarrow> (string \<Rightarrow> 'e rc_open) \<Rightarrow> string \<Rightarrow>
   'r \<Rightarrow> 'e option \<times> 'r"
where
  "source_rc N status parse opens home r =
     (if home = [] then (None, r)
      else (case opens (path_join [home, rc_file]) of
          Rc_Missing \<Rightarrow> (None, r)
        | Rc_Error e \<Rightarrow> (Some e, r)
        | Rc_Text t \<Rightarrow>
           (case parse t of
              Inl e \<Rightarrow> (Some e, r)
            | Inr p \<Rightarrow>
               (let (err, ctx_err, r1) = rn_run N p r in
                (case err of
                   Some e \<Rightarrow> if status e \<noteq> None then None else Some e
                 | None \<Rightarrow> None,
                 if rn_exited N r1 then rn_reset N r1 else r1)))))"

text \<open>
  Ctrl+C in the rc file looks to the runner like an exit, and here it resets it: what the file had
  set so far is gone, where \<open>interrupt_keeps_session\<close> keeps it for a line.
\<close>

lemma interrupted_rc_resets:
  assumes "home \<noteq> []" "opens (path_join [home, rc_file]) = Rc_Text t" "parse t = Inr p"
    "rn_run N p r = (err, True, r1)" "rn_exited N r1"
  shows "snd (source_rc N status parse opens home r) = rn_reset N r1"
  using assms by (simp add: source_rc_def)

text \<open>A script without a terminal: its status, and an error that is not one.\<close>

definition run_script ::
  "('e \<Rightarrow> int option) \<Rightarrow> ('e + 'p) \<Rightarrow> ('p \<Rightarrow> 'e option) \<Rightarrow> int \<times> 'e option"
where
  "run_script status parsed_src runs =
     (case parsed_src of
        Inl e \<Rightarrow> (2, Some e)
      | Inr p \<Rightarrow>
         (case runs p of
            None \<Rightarrow> (0, None)
          | Some e \<Rightarrow> (case status e of Some n \<Rightarrow> (n, None) | None \<Rightarrow> (1, Some e))))"

subsection \<open>Programs of the machine\<close>

text \<open>
  How a program on the terminal ends: it could not be started (for want of a format the kernel
  knows, or otherwise), ended with a code, was ended by a signal, or the wait failed.
\<close>

datatype prog_end = No_Exec_Format | Not_Started gerr | Ended int | Signaled nat

datatype prog_result =
    Prog_Next \<comment> \<open>left to the interpreter's own exec\<close>
  | Prog_Result exec_result
  | Prog_Cancelled

definition prog_exit ::
  "string \<Rightarrow> bool \<Rightarrow> prog_end \<Rightarrow> 'f sw \<Rightarrow> prog_result \<times> 'f sw"
where
  "prog_exit name ctx_ended p w =
     (case p of
        No_Exec_Format \<Rightarrow> (Prog_Next, w)
      | Ended code \<Rightarrow>
          (Prog_Result (if code = 0 then Exec_Ok else Exec_Status (clamp_status code)), w)
      | Signaled sig \<Rightarrow>
          (if ctx_ended then Prog_Cancelled
           else Prog_Result (Exec_Status ((128 + int sig mod 128) mod 256)), w)
      | Not_Started e \<Rightarrow>
          (Prog_Result (Exec_Status 126), err_ln (''websh: '' @ name @ '': '' @ e) w))"

text \<open>
  \<open>on_tty\<close> is whether the program's input is the terminal, \<open>dup\<close> whether a blocking descriptor for
  it could be made.
\<close>

definition exec_program ::
  "(string \<Rightarrow> gerr + string) \<Rightarrow> bool \<Rightarrow> bool \<Rightarrow> bool \<Rightarrow> (string \<Rightarrow> string list \<Rightarrow> prog_end) \<Rightarrow> string list \<Rightarrow>
   'f sw \<Rightarrow> prog_result \<times> 'f sw"
where
  "exec_program look on_tty dup ctx_ended start args w =
     (case look (args ! 0) of
        Inl e \<Rightarrow> (Prog_Result (Exec_Status 127), err_ln (''websh: '' @ (args ! 0) @ '': command not found'') w)
      | Inr path \<Rightarrow>
          if \<not> on_tty \<or> \<not> dup then (Prog_Next, w)
          else prog_exit (args ! 0) ctx_ended (start path args) w)"

record env_var =
  ev_name :: string
  ev_set :: bool
  ev_local :: bool
  ev_exported :: bool
  ev_string :: bool
  ev_value :: string

definition exec_env_add :: "env_var \<Rightarrow> string list \<Rightarrow> string list" where
  "exec_env_add v l =
     (let l1 = (if \<not> ev_set v \<and> \<not> ev_local v
                then map (\<lambda>kv. if has_prefix kv (ev_name v @ ''='') then [] else kv) l else l) in
      if ev_set v \<and> ev_exported v \<and> ev_string v then l1 @ [ev_name v @ ''='' @ ev_value v] else l1)"

definition exec_env_list :: "env_var list \<Rightarrow> string list" where
  "exec_env_list vs = fold exec_env_add vs []"

text \<open>The value a process finds in its environment: the last entry of the name is the one that counts.\<close>

definition env_value :: "string list \<Rightarrow> string \<Rightarrow> string option" where
  "env_value l n =
     (let es = filter (\<lambda>kv. has_prefix kv (n @ ''='')) l in
      if es = [] then None else Some (drop (length n + 1) (last es)))"

lemma prefix_same_name:
  "\<lbrakk>CHR ''='' \<notin> set m; CHR ''='' \<notin> set n\<rbrakk> \<Longrightarrow> has_prefix (m @ ''='' @ v) (n @ ''='') \<longleftrightarrow> m = n"
  by (induction m arbitrary: n; case_tac n) auto

lemma prefix_two_names:
  assumes "CHR ''='' \<notin> set m" "CHR ''='' \<notin> set n" "has_prefix kv (m @ ''='')" "has_prefix kv (n @ ''='')"
  shows "m = n"
  using assms prefix_same_name [of m n] by (auto simp: has_prefix_iff)

text \<open>
  A program finds a variable exactly as the shell last had it: with its value if it was exported,
  and not at all once it was unset, whatever was inherited.
\<close>

definition ev_counts :: "string \<Rightarrow> env_var \<Rightarrow> bool" where
  "ev_counts n v = (ev_name v = n \<and> (if ev_set v then ev_exported v \<and> ev_string v else \<not> ev_local v))"

lemma exec_env_value:
  assumes "list_all (\<lambda>v. CHR ''='' \<notin> set (ev_name v)) vs" "CHR ''='' \<notin> set n"
  shows "env_value (exec_env_list vs) n =
    (let rs = filter (ev_counts n) vs in
     if rs = [] \<or> \<not> ev_set (last rs) then None else Some (ev_value (last rs)))"
  using assms(1)
proof (induction vs rule: rev_induct)
  case Nil
  then show ?case by (simp add: env_value_def exec_env_list_def)
next
  case (snoc v vs)
  define l where "l = exec_env_list vs"
  have v: "CHR ''='' \<notin> set (ev_name v)" using snoc.prems by simp
  have step: "exec_env_list (vs @ [v]) = exec_env_add v l" by (simp add: l_def exec_env_list_def)
  have hide: "filter (\<lambda>kv. has_prefix kv (n @ ''='')) (map (\<lambda>kv. if has_prefix kv (ev_name v @ ''='') then [] else kv) l) =
      (if ev_name v = n then [] else filter (\<lambda>kv. has_prefix kv (n @ ''='')) l)"
  proof (cases "ev_name v = n")
    case True
    then show ?thesis by (auto simp: filter_empty_conv)
  next
    case False
    then show ?thesis using prefix_two_names [OF v assms(2)] by (induction l) auto
  qed
  have add: "filter (\<lambda>kv. has_prefix kv (n @ ''='')) [ev_name v @ ''='' @ ev_value v] =
      (if ev_name v = n then [ev_name v @ ''='' @ ev_value v] else [])"
    using prefix_same_name [OF v assms(2)] by simp
  have IH: "env_value l n = (let rs = filter (ev_counts n) vs in
      if rs = [] \<or> \<not> ev_set (last rs) then None else Some (ev_value (last rs)))"
    using snoc by (simp add: l_def)
  have "env_value (exec_env_add v l) n =
      (if ev_counts n v then (if ev_set v then Some (ev_value v) else None) else env_value l n)"
    using hide add by (auto simp: exec_env_add_def env_value_def ev_counts_def Let_def)
  then show ?case
    unfolding step IH by (simp add: Let_def)
qed

subsection \<open>Programs of a page\<close>

definition try_program :: "'f fs_ops \<Rightarrow> 'f \<Rightarrow> string \<Rightarrow> string option" where
  "try_program F fs p =
     (case fs_stat F fs p of Inr info \<Rightarrow> if fi_dir info then None else Some p | Inl e \<Rightarrow> None)"

fun try_dirs :: "'f fs_ops \<Rightarrow> 'f \<Rightarrow> string \<Rightarrow> string list \<Rightarrow> string option" where
  "try_dirs F fs name [] = None"
| "try_dirs F fs name (d # ds) =
     (if d = [] then try_dirs F fs name ds
      else (case try_program F fs (path_join [d, name]) of
          Some p \<Rightarrow> Some p
        | None \<Rightarrow> try_dirs F fs name ds))"

definition look_path :: "'f fs_ops \<Rightarrow> 'f \<Rightarrow> string \<Rightarrow> string \<Rightarrow> string \<Rightarrow> string option" where
  "look_path F fs name cwd path_env =
     (if slash \<in> set name
      then try_program F fs (if is_abs name then name else path_join [cwd, name])
      else try_dirs F fs name (if path_env = [] then [] else split_byte path_env (CHR '':'')))"

definition is_wasm :: "'f fs_ops \<Rightarrow> 'f \<Rightarrow> string \<Rightarrow> bool" where
  "is_wasm F fs p =
     (case fs_open F fs p of Inr (b, _) \<Rightarrow> take 4 b = CHR 0x00 # ''asm'' | Inl e \<Rightarrow> False)"

text \<open>
  \<^verbatim>\<open>execExternal\<close>: whether there is a process layer, what is cached of a program of a name and a
  stamp, and the process itself (its environment, its program, how it ends and whether it left the
  terminal raw) are parameters.
\<close>

record 'f page_procs =
  pp_layer :: bool
  pp_tty :: bool
  pp_cached :: "string \<Rightarrow> string \<Rightarrow> bool"
  pp_run :: "string \<Rightarrow> string list \<Rightarrow> string list \<Rightarrow> string option \<Rightarrow> 'f sw \<Rightarrow> (gerr + int) \<times> bool \<times> 'f sw"

definition page_env :: "bool \<Rightarrow> env_var list \<Rightarrow> string list" where
  "page_env tty vs =
     map (\<lambda>v. ev_name v @ ''='' @ ev_value v) (filter ev_set vs) @ (if tty then [''WEBSH_PLACEMENTS=1''] else [])"

definition exec_external ::
  "('f, 're) sh_env \<Rightarrow> 'f page_procs \<Rightarrow> string \<Rightarrow> env_var list \<Rightarrow> (fs_info \<Rightarrow> string) \<Rightarrow> string list \<Rightarrow>
   'f sw \<Rightarrow> (int \<times> bool) \<times> 'f sw"
where
  "exec_external E P path_env vs stamp args w =
     (let F = se_ops E; fs = sw_fs w; name = args ! 0;
          failed = (\<lambda>e w. ((126, True), err_ln (name @ '': '' @ e) w)) in
      if \<not> pp_layer P then ((0, False), w)
      else (case look_path F fs name (se_dir E) path_env of
          None \<Rightarrow> ((0, False), w)
        | Some bin \<Rightarrow>
           (case fs_stat F fs bin of
              Inl e \<Rightarrow> failed e w
            | Inr info \<Rightarrow>
                if \<not> is_wasm F fs bin then failed ''cannot execute: not a wasm program'' w
                else (case (if pp_cached P name (bin @ '':'' @ stamp info) then Inr None
                            else map_sum id Some (fs_read F fs bin)) of
                    Inl e \<Rightarrow> failed e w
                  | Inr program \<Rightarrow>
                     (case pp_run P bin args (page_env (pp_tty P) vs) program w of
                        (Inl e, raw, w1) \<Rightarrow> failed e w1
                      | (Inr code, raw, w1) \<Rightarrow> ((code, True), w1))))))"

text \<open>What \<^verbatim>\<open>lookPath\<close> finds is there and is not a directory.\<close>

lemma try_program_file: "try_program F fs p = Some q \<Longrightarrow> q = p \<and> (\<exists>i. fs_stat F fs q = Inr i \<and> \<not> fi_dir i)"
  by (auto simp: try_program_def split: sum.splits if_splits)

lemma look_path_file:
  "look_path F fs name cwd path_env = Some p \<Longrightarrow> \<exists>i. fs_stat F fs p = Inr i \<and> \<not> fi_dir i"
proof -
  have "try_dirs F fs name ds = Some p \<Longrightarrow> \<exists>i. fs_stat F fs p = Inr i \<and> \<not> fi_dir i" for ds
    by (induction ds) (auto split: if_splits option.splits dest: try_program_file)
  then show "look_path F fs name cwd path_env = Some p \<Longrightarrow> \<exists>i. fs_stat F fs p = Inr i \<and> \<not> fi_dir i"
    by (auto simp: look_path_def split: if_splits dest: try_program_file)
qed

text \<open>Only a wasm program is started in a page; everything else is said to be what it is.\<close>

lemma page_runs_wasm_only:
  assumes "pp_layer P" "look_path (se_ops E) (sw_fs w) (args ! 0) (se_dir E) path_env = Some bin"
    "\<not> is_wasm (se_ops E) (sw_fs w) bin"
  shows "fst (exec_external E P path_env vs stamp args w) = (126, True)"
  using assms by (auto simp: exec_external_def Let_def split: sum.split)

text \<open>
  \<^verbatim>\<open>feed\<close>: the reads of the input in order, each with whether the child was gone before it and
  after it; what was written is all that came before the child's end, the input's, or a write that
  failed.
\<close>

record feed_read =
  fr_gone_before :: bool
  fr_bytes :: string
  fr_failed :: bool
  fr_gone_after :: bool

fun feed_child :: "(string \<Rightarrow> bool) \<Rightarrow> feed_read list \<Rightarrow> string list" where
  "feed_child ok [] = []"
| "feed_child ok (r # rs) =
     (if fr_gone_before r \<or> fr_gone_after r then []
      else if fr_bytes r = [] then (if fr_failed r then [] else feed_child ok rs)
      else if \<not> ok (fr_bytes r) then []
      else fr_bytes r # (if fr_failed r then [] else feed_child ok rs))"

subsection \<open>Helpers of applets elsewhere\<close>

definition write_to ::
  "('f, 're) sh_env \<Rightarrow> string \<Rightarrow> string \<Rightarrow> 'f sw \<Rightarrow> (gerr + string) \<times> 'f sw"
where
  "write_to E p b w =
     (let F = se_ops E; d = resolve_arg E p;
          dest = (if is_dir F (sw_fs w) d then path_join [d, path_base p] else d);
          r = fs_write F (sw_fs w) dest b 420 in
      (case snd r of Some e \<Rightarrow> Inl e | None \<Rightarrow> Inr dest, w\<lparr>sw_fs := fst r\<rparr>))"

text \<open>The lines \<^verbatim>\<open>CopyLines\<close> calls its function with.\<close>

definition trim_line :: "string \<Rightarrow> string" where
  "trim_line l = trim_right l [CHR 0x0D, CHR 0x0A]"

function copied_lines :: "string \<Rightarrow> string list" where
  "copied_lines s =
     (case index_byte s (CHR 0x0A) of
        None \<Rightarrow> if s = [] then [] else [trim_line s]
      | Some i \<Rightarrow> trim_line (take (i + 1) s) # copied_lines (drop (i + 1) s))"
  by pat_completeness auto
termination by (relation "measure length") (auto dest: index_byte_SomeD)

declare copied_lines.simps [simp del]

lemma copied_lines_lines_text:
  "list_all (\<lambda>l. CHR 0x0A \<notin> set l \<and> (l = [] \<or> last l \<noteq> CHR 0x0D)) ls \<Longrightarrow> copied_lines (lines_text ls) = ls"
proof (induction ls)
  case Nil
  then show ?case by (simp add: copied_lines.simps lines_text_def)
next
  case (Cons l ls)
  then have l: "CHR 0x0A \<notin> set l" "l = [] \<or> last l \<noteq> CHR 0x0D" by simp_all
  have "index_byte (l @ CHR 0x0A # lines_text ls) (CHR 0x0A) = Some (length l)"
    using l(1) by (rule index_byte_append)
  moreover have "trim_line (l @ [CHR 0x0A]) = l"
    using l by (cases l rule: rev_cases) (auto simp: trim_line_def trim_right_def)
  ultimately show ?case
    using Cons by (subst copied_lines.simps) simp
qed

subsection \<open>awk and jq\<close>

text \<open>The engines are parameters; what is the applets' own is their arguments and where they read.\<close>

record awk_args =
  aw_sep :: string
  aw_vars :: "(string \<times> string) list"
  aw_rest :: "string list"

fun parse_awk :: "string list \<Rightarrow> awk_args \<Rightarrow> awk_args" where
  "parse_awk [] a = a"
| "parse_awk (x # xs) a =
     (case xs of
        y # ys \<Rightarrow>
          if x = ''-F'' then parse_awk ys (a\<lparr>aw_sep := y\<rparr>)
          else if has_prefix x ''-F'' \<and> 2 < length x then parse_awk xs (a\<lparr>aw_sep := drop 2 x\<rparr>)
          else if x = ''-v'' then
            parse_awk ys (case cut_byte y (CHR ''='') of
                (n, v, True) \<Rightarrow> a\<lparr>aw_vars := aw_vars a @ [(n, v)]\<rparr>
              | _ \<Rightarrow> a)
          else parse_awk xs (a\<lparr>aw_rest := aw_rest a @ [x]\<rparr>)
      | [] \<Rightarrow>
          if has_prefix x ''-F'' \<and> 2 < length x then a\<lparr>aw_sep := drop 2 x\<rparr>
          else a\<lparr>aw_rest := aw_rest a @ [x]\<rparr>)"

record ('p, 'f) awk_lib =
  wk_parse :: "string \<Rightarrow> gerr + 'p"
  wk_run :: "'p \<Rightarrow> (string \<times> string) list \<Rightarrow> string option \<Rightarrow> 'f sw \<Rightarrow> ((gerr + int) \<times> 'f sw) option"

definition run_awk :: "('f, 're) sh_env \<Rightarrow> ('p, 'f) awk_lib \<Rightarrow> string list \<Rightarrow> 'f sw \<Rightarrow> 'f run" where
  "run_awk E L args w =
     (let a = parse_awk args \<lparr>aw_sep = [], aw_vars = [], aw_rest = []\<rparr> in
      case aw_rest a of
        [] \<Rightarrow> finish 2 (err_ln (''usage: awk [-F sep] [-v var=val] '' @ [CHR 0x27] @ ''program'' @ [CHR 0x27] @ '' [file...]'') w)
      | src # files \<Rightarrow>
         (case wk_parse L src of
            Inl e \<Rightarrow> fail_with ''awk'' e w
          | Inr p \<Rightarrow>
             (let vars = aw_vars a @ (if aw_sep a = [] then [] else [(''FS'', aw_sep a)]) in
              case (if files = [] then Inr None else map_sum id Some (read_files E w files)) of
                Inl e \<Rightarrow> fail_with ''awk'' e w
              | Inr input \<Rightarrow>
                  Option.bind (wk_run L p vars input w) (\<lambda>(r, w1).
                    case r of Inl e \<Rightarrow> fail_with ''awk'' e w1 | Inr status \<Rightarrow> finish status w1))))"

record ('c, 'd) jq_lib =
  jq_compile :: "string \<Rightarrow> gerr + 'c"
  jq_docs :: "string \<times> gerr option \<Rightarrow> 'd list \<times> gerr option"
  jq_values :: "'c \<Rightarrow> 'd \<Rightarrow> (gerr + 'd) list option" \<comment> \<open>\<open>None\<close>: the query never ends\<close>
  jq_string :: "'d \<Rightarrow> string option"
  jq_json :: "bool \<Rightarrow> 'd \<Rightarrow> gerr + string"

fun jq_print :: "('c, 'd) jq_lib \<Rightarrow> char list \<Rightarrow> (gerr + 'd) list \<Rightarrow> int \<Rightarrow> 'f sw \<Rightarrow> int \<times> 'f sw" where
  "jq_print J fl [] st w = (st, w)"
| "jq_print J fl (v # vs) st w =
     (case v of
        Inl e \<Rightarrow> jq_print J fl vs 5 (err_ln (''jq: '' @ e) w)
      | Inr d \<Rightarrow>
         (case if CHR ''r'' \<in> set fl then jq_string J d else None of
            Some s \<Rightarrow> jq_print J fl vs st (put_ln s w)
          | None \<Rightarrow>
             (case jq_json J (CHR ''c'' \<in> set fl) d of
                Inl e \<Rightarrow> jq_print J fl vs 5 (err_ln (''jq: '' @ e) w)
              | Inr s \<Rightarrow> jq_print J fl vs st (put_ln s w))))"

fun jq_loop :: "('c, 'd) jq_lib \<Rightarrow> 'c \<Rightarrow> char list \<Rightarrow> 'd list \<Rightarrow> int \<Rightarrow> 'f sw \<Rightarrow> (int \<times> 'f sw) option" where
  "jq_loop J c fl [] st w = Some (st, w)"
| "jq_loop J c fl (d # ds) st w =
     Option.bind (jq_values J c d) (\<lambda>vs. case jq_print J fl vs st w of (st1, w1) \<Rightarrow> jq_loop J c fl ds st1 w1)"

definition run_jq :: "('f, 're) sh_env \<Rightarrow> ('c, 'd) jq_lib \<Rightarrow> string list \<Rightarrow> 'f sw \<Rightarrow> 'f run" where
  "run_jq E J args w =
     (let (fl, rest) = parse_flags args in
      case rest of
        [] \<Rightarrow> finish 2 (err_ln (''usage: jq [-r] [-c] '' @ [CHR 0x27] @ ''filter'' @ [CHR 0x27] @ '' [file...]'') w)
      | q # files \<Rightarrow>
         (case jq_compile J q of
            Inl e \<Rightarrow> fail_with ''jq'' e w
          | Inr c \<Rightarrow>
             (case (case files of
                 [] \<Rightarrow> Inr (sw_in w, w\<lparr>sw_in := ([], snd (sw_in w))\<rparr>)
               | f # _ \<Rightarrow> map_sum id (\<lambda>b. ((b, None), w)) (read_file E w f)) of
                Inl e \<Rightarrow> fail_with ''jq'' e w
              | Inr (input, w1) \<Rightarrow>
                 (let (docs, end) = jq_docs J input in
                  Option.bind (jq_loop J c fl docs 0 w1) (\<lambda>(st, w2).
                    case end of None \<Rightarrow> finish st w2 | Some e \<Rightarrow> fail_with ''jq'' e w2)))))"

text \<open>Under \<^verbatim>\<open>jq\<close> a value that fails makes the status 5, and the values after it are still printed.\<close>

lemma jq_print_status:
  "fst (jq_print J fl vs st w) =
     (if list_all (\<lambda>v. case v of Inl e \<Rightarrow> False | Inr d \<Rightarrow>
           (CHR ''r'' \<in> set fl \<and> jq_string J d \<noteq> None) \<or> \<not> isl (jq_json J (CHR ''c'' \<in> set fl) d)) vs
      then st else 5)"
  by (induction vs arbitrary: st w) (auto split: sum.splits option.splits)

end
