(* ===== verification/Page_Applets.thy ===== *)
theory Page_Applets
  imports Shell_Setup "HOL-Library.Sublist"
begin

text \<open>
  The applets that only make sense in a page, \<^verbatim>\<open>src/shell/browser/\<close>: JavaScript, the console's log,
  transfers, the network and the clipboard. What the browser does (evaluating, fetching, the file
  picker, a socket's events) is a parameter; the log's buffer and its followers are modelled
  whole. The lemmas: the buffer is the end of what was logged, within its bound; a follower gets
  what was logged after it came, in order, and nothing twice; and what is logged between the
  listing and the following of \<^verbatim>\<open>logs -f\<close> is lost to it.
\<close>

subsection \<open>Values of the page\<close>

datatype 'o js_value = Js_Undefined | Js_Null | Js_String string | Js_Object 'o | Js_Other 'o

text \<open>
  \<^verbatim>\<open>JSON.stringify\<close> may throw, and may give something that is not a string; \<^verbatim>\<open>String\<close> gives the text
  of anything. A promise settles to a value or to the reason it was rejected.
\<close>

record 'o js_lib =
  js_eval :: "string \<Rightarrow> gerr + 'o js_value"
  js_settle :: "'o js_value \<Rightarrow> gerr + 'o js_value"
  js_stringify :: "'o \<Rightarrow> string option option"
  js_text :: "'o js_value \<Rightarrow> string"

definition js_format :: "'o js_lib \<Rightarrow> 'o js_value \<Rightarrow> string" where
  "js_format J v =
     (case v of
        Js_Undefined \<Rightarrow> ''undefined''
      | Js_Null \<Rightarrow> ''null''
      | Js_String s \<Rightarrow> s
      | Js_Object x \<Rightarrow> (case js_stringify J x of Some (Some s) \<Rightarrow> s | _ \<Rightarrow> js_text J v)
      | Js_Other x \<Rightarrow> js_text J v)"

text \<open>What is said of a promise's rejection: its message, where it has one.\<close>

definition js_describe :: "'o js_lib \<Rightarrow> ('o js_value \<Rightarrow> string option) \<Rightarrow> 'o js_value list \<Rightarrow> string" where
  "js_describe J message args =
     (case args of
        [] \<Rightarrow> ''rejected''
      | v # _ \<Rightarrow>
         (case (case v of Js_Object x \<Rightarrow> message v | _ \<Rightarrow> None) of
            Some m \<Rightarrow> m
          | None \<Rightarrow> js_text J v))"

definition run_js :: "'o js_lib \<Rightarrow> string list \<Rightarrow> 'f sw \<Rightarrow> 'f run" where
  "run_js J args w =
     (let e = trim_space (join_with args '' '') in
      if e = [] then finish 2 (err_ln (''usage: js <expression>    eg: js '' @ [CHR 0x27] @ ''document.title'' @ [CHR 0x27]) w)
      else (case js_eval J e of
          Inl m \<Rightarrow> fail_with ''js'' m w
        | Inr v \<Rightarrow>
           (case js_settle J v of
              Inl m \<Rightarrow> fail_with ''js'' m w
            | Inr r \<Rightarrow> finish 0 (put_ln (js_format J r) w))))"

subsection \<open>Transfers\<close>

text \<open>The files handed to the browser to save, by name, and the run.\<close>

definition run_download ::
  "('f, 're) sh_env \<Rightarrow> string list \<Rightarrow> 'f sw \<Rightarrow> (string \<times> string) list \<times> 'f run"
where
  "run_download E args w =
     (case args of
        [] \<Rightarrow> ([], finish 1 (err_ln ''usage: download <file>'' w))
      | a # _ \<Rightarrow>
         (case read_file E w a of
            Inl e \<Rightarrow> ([], fail_with ''download'' e w)
          | Inr b \<Rightarrow> ([(path_base a, b)], finish 0
              (put_ln (''downloading '' @ path_base a @ '' ('' @ itoa (int (length b)) @ '' bytes)'') w))))"

text \<open>The picker's answer: the context ended first, nothing was picked, or a file's name and its bytes.\<close>

datatype picked = Pick_Cancelled | Pick_None | Pick_File string "gerr + string"

definition run_upload :: "('f, 're) sh_env \<Rightarrow> picked \<Rightarrow> string list \<Rightarrow> 'f sw \<Rightarrow> 'f run" where
  "run_upload E pk args w0 =
     (let w = put_ln ''waiting for file selection... (Ctrl+C to cancel)'' w0 in
      case pk of
        Pick_Cancelled \<Rightarrow> finish 130 (err_ln ''upload: canceled'' w)
      | Pick_None \<Rightarrow> finish 1 (err_ln ''upload: no file selected'' w)
      | Pick_File name (Inl e) \<Rightarrow> fail_with ''upload'' e w
      | Pick_File name (Inr b) \<Rightarrow>
         (case write_to E (case args of [] \<Rightarrow> name | a # _ \<Rightarrow> a) b w of
            (Inl e, w1) \<Rightarrow> fail_with ''upload'' e w1
          | (Inr p, w1) \<Rightarrow> finish 0 (put_ln (p @ '' ('' @ itoa (int (length b)) @ '' bytes)'') w1)))"

fun parse_curl :: "string list \<Rightarrow> string \<times> string \<Rightarrow> string \<times> string" where
  "parse_curl [] ou = ou"
| "parse_curl (x # xs) (out, url) =
     (case xs of
        y # ys \<Rightarrow>
          if x = ''-o'' then parse_curl ys (y, url)
          else if x = ''-s'' \<or> x = ''-L'' then parse_curl xs (out, url)
          else parse_curl xs (out, x)
      | [] \<Rightarrow> if x = ''-s'' \<or> x = ''-L'' then (out, url) else (out, x))"

definition curl_url :: "string \<Rightarrow> string" where
  "curl_url u = (if index_of u ''://'' \<noteq> None then u else ''https://'' @ u)"

text \<open>A response: whether it is a success, its status, and its body.\<close>

type_synonym fetched = "gerr + bool \<times> int \<times> (gerr + string)"

definition run_curl :: "('f, 're) sh_env \<Rightarrow> (string \<Rightarrow> fetched) \<Rightarrow> string list \<Rightarrow> 'f sw \<Rightarrow> 'f run" where
  "run_curl E fetch args w =
     (let (out, u) = parse_curl args ([], []) in
      if u = [] then finish 1 (err_ln ''usage: curl [-o file] <url>   (subject to CORS)'' w)
      else (case fetch (curl_url u) of
          Inl e \<Rightarrow> finish 1 (err_ln (''curl: '' @ e @ '' (cross-origin requests need CORS headers)'') w)
        | Inr (False, status, body) \<Rightarrow> finish 22 (err_ln (''curl: HTTP '' @ itoa status) w)
        | Inr (True, status, Inl e) \<Rightarrow> fail_with ''curl'' e w
        | Inr (True, status, Inr b) \<Rightarrow>
            if out = [] then finish 0 (put b w)
            else (case write_to E out b w of
                (Inl e, w1) \<Rightarrow> fail_with ''curl'' e w1
              | (Inr p, w1) \<Rightarrow> finish 0
                  (put_ln (''saved '' @ itoa (int (length b)) @ '' bytes to '' @ p) w1))))"

definition run_pbcopy :: "bool \<Rightarrow> (string \<Rightarrow> gerr option) \<Rightarrow> 'f sw \<Rightarrow> 'f run" where
  "run_pbcopy available copy w0 =
     (case read_stdin w0 of
        (Inl e, w) \<Rightarrow> fail_with ''pbcopy'' e w
      | (Inr b, w) \<Rightarrow>
          if \<not> available then finish 1 (err_ln ''pbcopy: clipboard API unavailable'' w)
          else (case copy b of Some e \<Rightarrow> fail_with ''pbcopy'' e w | None \<Rightarrow> finish 0 w))"

definition run_pbpaste :: "bool \<Rightarrow> (gerr + string) \<Rightarrow> 'f sw \<Rightarrow> 'f run" where
  "run_pbpaste available paste w =
     (if \<not> available then finish 1 (err_ln ''pbpaste: clipboard API unavailable'' w)
      else (case paste of Inl e \<Rightarrow> fail_with ''pbpaste'' e w | Inr t \<Rightarrow> finish 0 (put t w)))"

subsection \<open>nc\<close>

text \<open>
  The events of the socket and of stdin in the order they happen; a line is sent while the socket
  is open. The first of an end, an error and the context's end gives the status.
\<close>

datatype nc_event = Nc_Open | Nc_Text string | Nc_Bytes string | Nc_Line string | Nc_Close | Nc_Error | Nc_Cancel

definition nc_url :: "string \<Rightarrow> string" where
  "nc_url u = (if has_prefix u ''ws://'' \<or> has_prefix u ''wss://'' then u else ''wss://'' @ u)"

fun nc_loop :: "string \<Rightarrow> bool \<Rightarrow> nc_event list \<Rightarrow> string list \<Rightarrow> 'f sw \<Rightarrow> string list \<times> 'f run" where
  "nc_loop url up [] sent w = (sent, None)"
| "nc_loop url up (e # es) sent w =
     (case e of
        Nc_Open \<Rightarrow> nc_loop url True es sent (err_ln (''nc: connected to '' @ url) w)
      | Nc_Text t \<Rightarrow> nc_loop url up es sent (put_ln t w)
      | Nc_Bytes b \<Rightarrow> nc_loop url up es sent (put b w)
      | Nc_Line l \<Rightarrow> nc_loop url up es (if up then sent @ [l] else sent) w
      | Nc_Close \<Rightarrow> (sent, finish 0 w)
      | Nc_Error \<Rightarrow> (sent, finish 1 (err_ln ''nc: connection error'' w))
      | Nc_Cancel \<Rightarrow> (sent, finish 130 w))"

definition run_nc :: "nc_event list \<Rightarrow> string list \<Rightarrow> 'f sw \<Rightarrow> string list \<times> 'f run" where
  "run_nc es args w =
     (case args of
        [] \<Rightarrow> ([], finish 1 (err_ln ''usage: nc <ws://host/path | wss://host/path>'' w))
      | a # _ \<Rightarrow> nc_loop (nc_url a) False es [] w)"

subsection \<open>The console's log\<close>

record log_entry =
  lg_stamp :: string
  lg_level :: string
  lg_text :: string

record log_state =
  lo_buf :: "log_entry list"
  lo_subs :: "(nat \<times> log_entry list) list" \<comment> \<open>a follower's channel and what waits in it\<close>
  lo_next :: nat

definition log_max :: nat where
  "log_max = 5000"

definition log_queue_max :: nat where
  "log_queue_max = 256"

definition log_send :: "log_entry \<Rightarrow> log_entry list \<Rightarrow> log_entry list" where
  "log_send e q = (if length q < log_queue_max then q @ [e] else q)"

definition append_log :: "log_entry \<Rightarrow> log_state \<Rightarrow> log_state" where
  "append_log e s =
     (let b = lo_buf s @ [e] in
      s\<lparr>lo_buf := (if log_max < length b then drop (length b - log_max) b else b),
        lo_subs := map (\<lambda>(i, q). (i, log_send e q)) (lo_subs s)\<rparr>)"

definition subscribe_logs :: "log_state \<Rightarrow> nat \<times> log_state" where
  "subscribe_logs s = (lo_next s, s\<lparr>lo_subs := lo_subs s @ [(lo_next s, [])], lo_next := lo_next s + 1\<rparr>)"

definition unsubscribe_logs :: "nat \<Rightarrow> log_state \<Rightarrow> log_state" where
  "unsubscribe_logs i s = s\<lparr>lo_subs := filter (\<lambda>(j, q). j \<noteq> i) (lo_subs s)\<rparr>"

text \<open>A follower takes what waits longest in its channel.\<close>

definition receive_log :: "nat \<Rightarrow> log_state \<Rightarrow> log_entry option \<times> log_state" where
  "receive_log i s =
     (case map_of (lo_subs s) i of
        Some (e # q) \<Rightarrow> (Some e, s\<lparr>lo_subs := map (\<lambda>(j, r). (j, if j = i then q else r)) (lo_subs s)\<rparr>)
      | _ \<Rightarrow> (None, s))"

definition join_js :: "'o js_lib \<Rightarrow> 'o js_value list \<Rightarrow> string" where
  "join_js J vs = join_with (map (js_format J) vs) '' ''"

text \<open>
  A call of the wrapped console, with those made while it was being taken down: the entries it
  logs, and what reaches the page's own console.
\<close>

datatype console_call = Console_Call string string "console_call list"

fun capture :: "bool \<Rightarrow> console_call \<Rightarrow> (string \<times> string) list \<times> (string \<times> string) list" where
  "capture busy (Console_Call lv t cs) =
     (let rs = map (capture True) cs in
      ((if busy then [] else [(lv, t)]) @ concat (map fst rs), (lv, t) # concat (map snd rs)))"

definition color_for :: "string \<Rightarrow> string \<times> string" where
  "color_for level =
     (let on = (\<lambda>n. CHR 0x1B # CHR ''['' # n @ ''m'') in
      if level = ''error'' then (on ''31'', on ''0'')
      else if level = ''warn'' then (on ''33'', on ''0'')
      else if level = ''debug'' then (on ''2'', on ''0'')
      else ([], []))"

definition render_log :: "log_entry \<Rightarrow> bool \<Rightarrow> string" where
  "render_log e plain =
     (if plain then lg_stamp e @ '' '' @ pad_right 5 (lg_level e) @ '' '' @ lg_text e
      else (let (on, off) = color_for (lg_level e) in
        CHR 0x1B # ''[2m'' @ lg_stamp e @ CHR 0x1B # ''[0m '' @ on @ pad_right 5 (lg_level e) @ off @ '' '' @ lg_text e))"

record logs_args =
  la_follow :: bool
  la_errors :: bool
  la_clear :: bool
  la_plain :: bool
  la_limit :: int

definition no_logs_args :: logs_args where
  "no_logs_args = \<lparr>la_follow = False, la_errors = False, la_clear = False, la_plain = False, la_limit = 0\<rparr>"

definition logs_limit :: "string \<Rightarrow> logs_args \<Rightarrow> logs_args" where
  "logs_limit t a = (case atoi t of Some v \<Rightarrow> a\<lparr>la_limit := v\<rparr> | None \<Rightarrow> a)"

fun parse_logs :: "string list \<Rightarrow> logs_args \<Rightarrow> logs_args" where
  "parse_logs [] a = a"
| "parse_logs (x # xs) a =
     (if x = ''-f'' then parse_logs xs (a\<lparr>la_follow := True\<rparr>)
      else if x = ''-e'' then parse_logs xs (a\<lparr>la_errors := True\<rparr>)
      else if x = ''-c'' then parse_logs xs (a\<lparr>la_clear := True\<rparr>)
      else if x = ''-p'' then parse_logs xs (a\<lparr>la_plain := True\<rparr>)
      else if x = ''-n'' then
        (case xs of [] \<Rightarrow> a | y # ys \<Rightarrow> parse_logs ys (logs_limit y a))
      else parse_logs xs (if has_prefix x ''-n'' then logs_limit (drop 2 x) a else a))"

definition log_kept :: "logs_args \<Rightarrow> log_entry \<Rightarrow> bool" where
  "log_kept a e = (\<not> la_errors a \<or> lg_level e = ''error'' \<or> lg_level e = ''warn'')"

definition logs_shown :: "logs_args \<Rightarrow> log_entry list \<Rightarrow> log_entry list" where
  "logs_shown a b =
     (let l = filter (log_kept a) b in
      if 0 < la_limit a \<and> la_limit a < int (length l) then drop (length l - nat (la_limit a)) l else l)"

text \<open>
  The applet up to where it follows: its status if it ends there, the world, and the log. What
  happens to the log between its listing and its following is \<open>between\<close>.
\<close>

definition run_logs ::
  "(log_state \<Rightarrow> log_state) \<Rightarrow> string list \<Rightarrow> log_state \<Rightarrow> 'f sw \<Rightarrow> (int + nat) \<times> log_state \<times> 'f sw"
where
  "run_logs between args s w =
     (let a = parse_logs args no_logs_args in
      if la_clear a then (Inl 0, s\<lparr>lo_buf := []\<rparr>, put_ln ''console buffer cleared'' w)
      else
       (let l = logs_shown a (lo_buf s); w1 = put_lines (map (\<lambda>e. render_log e (la_plain a)) l) w in
        if \<not> la_follow a then
          (Inl 0, s, if l = [] then err_ln (''(console buffer empty '' @ em_dash @
             '' output is captured from the moment the shell starts)'') w1 else w1)
        else (let (i, s1) = subscribe_logs (between s) in (Inr i, s1, w1))))"

text \<open>What follows: entries logged, and the follower's turns; \<open>None\<close> is a turn.\<close>

fun follow_logs :: "logs_args \<Rightarrow> nat \<Rightarrow> log_entry option list \<Rightarrow> log_state \<Rightarrow> 'f sw \<Rightarrow> log_state \<times> 'f sw" where
  "follow_logs a i [] s w = (unsubscribe_logs i s, w)"
| "follow_logs a i (Some e # es) s w = follow_logs a i es (append_log e s) w"
| "follow_logs a i (None # es) s w =
     (case receive_log i s of
        (None, s1) \<Rightarrow> follow_logs a i es s1 w
      | (Some e, s1) \<Rightarrow>
          follow_logs a i es s1 (if log_kept a e then put_ln (render_log e (la_plain a)) w else w))"

text \<open>The buffer is the end of all that was logged.\<close>

lemma log_buffer_bound:
  "length (lo_buf s) \<le> log_max \<Longrightarrow>
   lo_buf (fold append_log es s) = drop (length (lo_buf s @ es) - log_max) (lo_buf s @ es) \<and>
   length (lo_buf (fold append_log es s)) \<le> log_max"
proof (induction es arbitrary: s)
  case (Cons e es)
  have b: "lo_buf (append_log e s) = drop (length (lo_buf s @ [e]) - log_max) (lo_buf s @ [e])"
    "length (lo_buf (append_log e s)) \<le> log_max"
    using Cons.prems by (auto simp: append_log_def Let_def)
  have "drop (length (lo_buf (append_log e s) @ es) - log_max) (lo_buf (append_log e s) @ es) =
      drop (length (lo_buf s @ e # es) - log_max) (lo_buf s @ e # es)"
    using Cons.prems unfolding b(1) by (cases "length (lo_buf s) = log_max") (auto simp: drop_Cons' tl_drop)
  with Cons.IH [OF b(2)] show ?case by simp
qed simp

text \<open>Nested calls reach the page's console and are not logged again.\<close>

lemma capture_nested: "fst (capture True c) = []"
  by (induction c) auto

lemma capture_logs_once: "fst (capture False (Console_Call lv t cs)) = [(lv, t)]"
  by (simp add: capture_nested)

text \<open>
  A follower's channel: what it has taken and what waits are, in order, some of what was logged
  since it came, and all of it as long as no more is logged than the channel holds.
\<close>

fun channel_run :: "log_entry option list \<Rightarrow> log_entry list \<Rightarrow> log_entry list \<times> log_entry list" where
  "channel_run [] q = ([], q)"
| "channel_run (Some e # es) q = channel_run es (log_send e q)"
| "channel_run (None # es) q =
     (case q of [] \<Rightarrow> channel_run es [] | e # q' \<Rightarrow> (case channel_run es q' of (t, r) \<Rightarrow> (e # t, r)))"

definition logged :: "log_entry option list \<Rightarrow> log_entry list" where
  "logged es = concat (map (\<lambda>x. case x of Some e \<Rightarrow> [e] | None \<Rightarrow> []) es)"

lemma channel_order:
  "subseq (fst (channel_run es q) @ snd (channel_run es q)) (q @ logged es) \<and>
   (length q + length (logged es) \<le> log_queue_max \<longrightarrow>
     fst (channel_run es q) @ snd (channel_run es q) = q @ logged es)"
proof (induction es q rule: channel_run.induct)
  case (2 e es q)
  show ?case
  proof (cases "length q < log_queue_max")
    case True
    then show ?thesis using 2 by (simp add: log_send_def logged_def)
  next
    case False
    have "subseq (q @ logged es) (q @ e # logged es)" by (intro list_emb_append_mono) auto
    then show ?thesis
      using False 2 subseq_order.trans by (fastforce simp: log_send_def logged_def)
  qed
next
  case (3 es q)
  then show ?case by (cases q) (auto simp: logged_def split: prod.split)
qed (simp add: logged_def)

lemma map_of_snd: "map_of (map (\<lambda>(i, q). (i, f i q)) xs) j = map_option (f j) (map_of xs j)"
  by (induction xs) auto

lemma follow_logs_prints:
  "map_of (lo_subs s) i = Some q \<Longrightarrow>
   snd (follow_logs a i es s w) =
     put_lines (map (\<lambda>e. render_log e (la_plain a)) (filter (log_kept a) (fst (channel_run es q)))) w"
proof (induction es arbitrary: s w q)
  case Nil
  then show ?case by (simp add: put_lines_def)
next
  case (Cons x es)
  show ?case
  proof (cases x)
    case (Some e)
    have "map_of (lo_subs (append_log e s)) i = Some (log_send e q)"
      using Cons.prems by (simp add: append_log_def Let_def map_of_snd)
    from Cons.IH [OF this] show ?thesis by (simp add: Some)
  next
    case None
    show ?thesis
    proof (cases q)
      case Nil
      with Cons.prems have "receive_log i s = (None, s)" by (simp add: receive_log_def)
      with Cons.IH [OF Cons.prems] show ?thesis by (simp add: None Nil)
    next
      case (Cons e q')
      define s1 where "s1 = s\<lparr>lo_subs := map (\<lambda>(j, r). (j, if j = i then q' else r)) (lo_subs s)\<rparr>"
      have r: "receive_log i s = (Some e, s1)"
        using Cons.prems Cons by (simp add: receive_log_def s1_def)
      have "map_of (lo_subs s1) i = Some q'" using Cons.prems by (simp add: s1_def map_of_snd)
      from Cons.IH [OF this] show ?thesis
        by (simp add: None Cons r put_lines_def split: prod.split)
    qed
  qed
qed

text \<open>
  A follower starts with an empty channel: what was logged between its listing and its following
  is in neither.
\<close>

lemma logs_gap_lost:
  assumes "run_logs between args s w = (Inr i, s1, w1)" "i \<notin> fst ` set (lo_subs (between s))"
  shows "map_of (lo_subs s1) i = Some [] \<and>
    w1 = put_lines (map (\<lambda>e. render_log e (la_plain (parse_logs args no_logs_args)))
      (logs_shown (parse_logs args no_logs_args) (lo_buf s))) w"
proof -
  have "map_of (lo_subs (between s)) i = None" using assms(2) by (simp add: map_of_eq_None_iff)
  then show ?thesis
    using assms(1) by (auto simp: run_logs_def Let_def subscribe_logs_def map_add_def split: if_splits)
qed

end
