(* ===== verification/Page_Session.thy ===== *)
theory Page_Session
  imports Console_Shell
begin

text \<open>
  A page's session, \<^verbatim>\<open>src/web/session.go\<close> with \<^verbatim>\<open>a11y.go\<close>'s marks: the prompt, what typed data
  becomes (a line to the editor, input to the running command), and the loop that runs the lines,
  one at a time, as the browser's events and the commands' ends interleave. What the host keeps
  for a program is in \<open>Host_Page\<close>; a key bar is applied to typed data before it comes here. The
  lemmas: lines are run in the order they were submitted and each once, whatever is typed while
  one runs; and what is typed to a command does not reach the line editor.
\<close>

subsection \<open>State\<close>

text \<open>
  \<open>ps_lines\<close> is the channel of lines, with those whose send still waits; \<open>ps_left\<close> is set once the
  embedder's \<^verbatim>\<open>OnExit\<close> has been called.
\<close>

record 'r page_session =
  ps_shell :: "'r shell_state"
  ps_ed :: editor
  ps_draws :: nat
  ps_lines :: "string list"
  ps_running :: bool
  ps_raw :: bool
  ps_cooked :: "rune list"
  ps_in :: in_queue
  ps_cmds :: nat
  ps_line :: string
  ps_cancelled :: bool
  ps_closed :: bool
  ps_left :: bool
  ps_out :: string

definition page_write :: "string \<Rightarrow> 'r page_session \<Rightarrow> 'r page_session" where
  "page_write t s = s\<lparr>ps_out := ps_out s @ t\<rparr>"

definition page_prompt :: "'r con_lib \<Rightarrow> nat \<Rightarrow> 'r shell_state \<Rightarrow> string" where
  "page_prompt Y n s =
     (if shell_pending s then CHR 0x1B # ''[1;33m>'' @ CHR 0x1B # ''[0m ''
      else (case y_ps1 Y n (ss_runner s) of
          Some p \<Rightarrow> p
        | None \<Rightarrow>
           (let d = y_dir Y (ss_runner s); home = ''/home/user'';
                dir = (if has_prefix d home then CHR 0x7E # drop (length home) d else d)
            in CHR 0x1B # ''[1;32m'' @ y_host Y @ CHR 0x1B # ''[0m:'' @ CHR 0x1B # ''[1;34m'' @ dir @
               CHR 0x1B # ''[0m$ '')))"

definition page_drawn :: "'r con_lib \<Rightarrow> nat \<Rightarrow> 'r shell_state \<Rightarrow> string" where
  "page_drawn Y n s = osc133 ''A'' @ prompt_text (page_prompt Y n s) @ osc133 ''B''"

definition page_write_prompt :: "'r con_lib \<Rightarrow> 'r page_session \<Rightarrow> 'r page_session" where
  "page_write_prompt Y s =
     (page_write (page_drawn Y (ps_draws s) (ps_shell s)) s)\<lparr>ps_draws := ps_draws s + 1\<rparr>"

subsection \<open>Typing\<close>

definition page_draws :: "ed_event list \<Rightarrow> nat" where
  "page_draws evs = length (filter (\<lambda>e. e \<in> {Interrupted, AtEOF, ScreenCleared}) evs)"

fun page_text :: "'r con_lib \<Rightarrow> nat \<Rightarrow> 'r shell_state \<Rightarrow> ed_event list \<Rightarrow> string" where
  "page_text Y n s [] = []"
| "page_text Y n s (Echoed t # evs) = t @ page_text Y n s evs"
| "page_text Y n s (Interrupted # evs) =
     page_drawn Y n (cancel_pending s) @ page_text Y (n + 1) (cancel_pending s) evs"
| "page_text Y n s (AtEOF # evs) =
     CHR 0x0D # CHR 0x0A # page_drawn Y n s @ page_text Y (n + 1) s evs"
| "page_text Y n s (ScreenCleared # evs) =
     CHR 0x1B # ''[2J'' @ CHR 0x1B # ''[H'' @ page_drawn Y n s @ page_text Y (n + 1) s evs"
| "page_text Y n s (_ # evs) = page_text Y n s evs"

definition page_conf0 :: "'r con_lib \<Rightarrow> nat \<Rightarrow> 'r shell_state \<Rightarrow> ed_conf" where
  "page_conf0 Y n s =
     \<lparr>k_prompt = Some (\<lambda>evs. page_prompt Y (n - 1 + page_draws evs) (evs_shell evs s)),
      k_cols = Some (y_cols Y), k_complete = Some (y_complete Y (ss_runner s)),
      k_submit = Some (\<lambda>line e. e), k_interrupt = True, k_eof = True, k_clear = None,
      k_redraw = False, k_width = y_width Y\<rparr>"

definition page_conf :: "'r con_lib \<Rightarrow> nat \<Rightarrow> 'r shell_state \<Rightarrow> ed_conf" where
  "page_conf Y n s = (page_conf0 Y n s)\<lparr>k_clear := Some (redisplay (page_conf0 Y n s))\<rparr>"

text \<open>Typed data at the prompt: the editor's, with what its events make the session do.\<close>

definition page_edit :: "'r con_lib \<Rightarrow> string \<Rightarrow> 'r page_session \<Rightarrow> 'r page_session" where
  "page_edit Y d s =
     (let e = editor_input (page_conf Y (ps_draws s) (ps_shell s)) d ((ps_ed s)\<lparr>e_evs := []\<rparr>); evs = e_evs e in
      s\<lparr>ps_ed := e, ps_shell := evs_shell evs (ps_shell s), ps_draws := ps_draws s + page_draws evs,
        ps_lines := ps_lines s @ submitted evs,
        ps_out := ps_out s @ page_text Y (ps_draws s) (ps_shell s) evs\<rparr>)"

definition page_data :: "'r con_lib \<Rightarrow> string \<Rightarrow> 'r page_session \<Rightarrow> 'r page_session" where
  "page_data Y d s =
     (if ps_running s then
        (case on_data (ps_raw s) d (ps_cooked s) of
           (c, its, ec, cancelled) \<Rightarrow>
             (page_write ec s)\<lparr>ps_cooked := c, ps_in := fold iq_push its (ps_in s),
               ps_cancelled := (ps_cancelled s \<or> cancelled)\<rparr>)
      else page_edit Y d s)"

text \<open>\<^verbatim>\<open>RawMode\<close>: what was typed toward a line is the program's once it reads keys.\<close>

definition page_raw :: "bool \<Rightarrow> 'r page_session \<Rightarrow> 'r page_session" where
  "page_raw on s =
     (if on \<and> \<not> ps_raw s \<and> ps_cooked s \<noteq> []
      then s\<lparr>ps_in := fold iq_push (stdin_items (string_of_runes (ps_cooked s))) (ps_in s), ps_cooked := [], ps_raw := on\<rparr>
      else s\<lparr>ps_raw := on\<rparr>)"

definition page_reply :: "string \<Rightarrow> 'r page_session \<Rightarrow> 'r page_session" where
  "page_reply d s = (if ps_running s then s\<lparr>ps_in := iq_push (reply_item d) (ps_in s)\<rparr> else s)"

definition page_submit :: "string \<Rightarrow> 'r page_session \<Rightarrow> 'r page_session" where
  "page_submit l s =
     (if ps_closed s \<or> l = [] then s
      else (page_write (l @ [CHR 0x0D, CHR 0x0A]) s)\<lparr>ps_lines := ps_lines s @ [l]\<rparr>)"

subsection \<open>Running\<close>

text \<open>The loop takes a line when none runs; a closed session's loop has ended.\<close>

definition page_start :: "'r page_session \<Rightarrow> 'r page_session" where
  "page_start s =
     (case ps_lines s of
        [] \<Rightarrow> s
      | l # ls \<Rightarrow>
         if ps_running s \<or> ps_closed s \<or> ps_left s then s
         else (page_write (osc133 ''C'') s)\<lparr>ps_lines := ls,
             ps_ed := (if shell_pending (ps_shell s) then ps_ed s else add_history l (ps_ed s)),
             ps_in := iq_next (ps_in s), ps_cooked := [], ps_cmds := ps_cmds s + 1, ps_line := l,
             ps_cancelled := False, ps_running := True\<rparr>)"

definition page_message :: "'e err_lib \<Rightarrow> string \<Rightarrow> 'e option \<Rightarrow> string" where
  "page_message X host err =
     (case err of
        None \<Rightarrow> []
      | Some e \<Rightarrow>
          if has_prefix (er_text X e) ''exit status'' then []
          else host @ '': '' @ replace_byte (er_text X e) (CHR 0x0A) [CHR 0x0D, CHR 0x0A] @ [CHR 0x0D, CHR 0x0A])"

text \<open>The line has run: \<open>hook\<close> is whether the embedder has an \<^verbatim>\<open>OnExit\<close>.\<close>

definition page_finish ::
  "('p, 'r, 'e) runner_lib \<Rightarrow> 'e err_lib \<Rightarrow> 'r con_lib \<Rightarrow> bool \<Rightarrow> 'r page_session \<Rightarrow> 'r page_session"
where
  "page_finish N X Y hook s =
     (if \<not> ps_running s then s
      else
       (let ((more, err), sh) = shell_run N (ps_line s) (ps_shell s);
            s1 = (page_write (osc133 (''D;'' @ itoa (exit_code X err)) @ page_message X (y_host Y) err) s)
                   \<lparr>ps_shell := sh, ps_running := False\<rparr> in
        if hook \<and> shell_exited sh then s1\<lparr>ps_left := True\<rparr>
        else page_write_prompt Y (if shell_pending sh then s1 else s1\<lparr>ps_shell := report_jobs N sh\<rparr>)))"

text \<open>The rc file runs as a line does, and then the first prompt is drawn.\<close>

definition page_rc :: "'r con_lib \<Rightarrow> (gerr option \<times> 'r) \<Rightarrow> bool \<Rightarrow> 'r page_session \<Rightarrow> 'r page_session" where
  "page_rc Y rc cancelled s =
     page_write_prompt Y
       (let s1 = s\<lparr>ps_shell := (ps_shell s)\<lparr>ss_runner := snd rc\<rparr>\<rparr> in
        case fst rc of
          Some e \<Rightarrow> if cancelled then s1 else
             page_write (''websh: .webshrc: '' @ replace_byte e (CHR 0x0A) [CHR 0x0D, CHR 0x0A] @ [CHR 0x0D, CHR 0x0A]) s1
        | None \<Rightarrow> s1)"

definition page_close :: "'r page_session \<Rightarrow> 'r page_session" where
  "page_close s = (if ps_closed s then s else s\<lparr>ps_closed := True, ps_in := iq_close (ps_in s)\<rparr>)"


subsection \<open>Any interleaving\<close>

text \<open>What the browser, the running command and the loop itself do, in the order it happens.\<close>

datatype page_event = Page_Data string | Page_Raw bool | Page_Reply string | Page_Submit string
  | Page_Start | Page_Finish

fun page_step ::
  "('p, 'r, 'e) runner_lib \<Rightarrow> 'e err_lib \<Rightarrow> 'r con_lib \<Rightarrow> bool \<Rightarrow> page_event \<Rightarrow> 'r page_session \<Rightarrow> 'r page_session"
where
  "page_step N X Y hook (Page_Data d) s = page_data Y d s"
| "page_step N X Y hook (Page_Raw on) s = page_raw on s"
| "page_step N X Y hook (Page_Reply d) s = page_reply d s"
| "page_step N X Y hook (Page_Submit l) s = page_submit l s"
| "page_step N X Y hook Page_Start s = page_start s"
| "page_step N X Y hook Page_Finish s = page_finish N X Y hook s"

definition page_run ::
  "('p, 'r, 'e) runner_lib \<Rightarrow> 'e err_lib \<Rightarrow> 'r con_lib \<Rightarrow> bool \<Rightarrow> page_event list \<Rightarrow> 'r page_session \<Rightarrow> 'r page_session"
where
  "page_run N X Y hook evs s = fold (page_step N X Y hook) evs s"

text \<open>The line a step gives the loop, and the lines it starts.\<close>

fun step_lines :: "'r con_lib \<Rightarrow> page_event \<Rightarrow> 'r page_session \<Rightarrow> string list" where
  "step_lines Y (Page_Data d) s =
     (if ps_running s then []
      else submitted (e_evs (editor_input (page_conf Y (ps_draws s) (ps_shell s)) d ((ps_ed s)\<lparr>e_evs := []\<rparr>))))"
| "step_lines Y (Page_Submit l) s = (if ps_closed s \<or> l = [] then [] else [l])"
| "step_lines Y _ s = []"

definition step_starts :: "page_event \<Rightarrow> 'r page_session \<Rightarrow> string list" where
  "step_starts ev s =
     (if ev = Page_Start \<and> ps_lines s \<noteq> [] \<and> \<not> ps_running s \<and> \<not> ps_closed s \<and> \<not> ps_left s
      then [hd (ps_lines s)] else [])"

fun lines_given ::
  "('p, 'r, 'e) runner_lib \<Rightarrow> 'e err_lib \<Rightarrow> 'r con_lib \<Rightarrow> bool \<Rightarrow> page_event list \<Rightarrow> 'r page_session \<Rightarrow> string list"
where
  "lines_given N X Y hook [] s = []"
| "lines_given N X Y hook (ev # evs) s =
     step_lines Y ev s @ lines_given N X Y hook evs (page_step N X Y hook ev s)"

fun lines_started ::
  "('p, 'r, 'e) runner_lib \<Rightarrow> 'e err_lib \<Rightarrow> 'r con_lib \<Rightarrow> bool \<Rightarrow> page_event list \<Rightarrow> 'r page_session \<Rightarrow> string list"
where
  "lines_started N X Y hook [] s = []"
| "lines_started N X Y hook (ev # evs) s =
     step_starts ev s @ lines_started N X Y hook evs (page_step N X Y hook ev s)"

lemma page_write_fields [simp]:
  "ps_lines (page_write t s) = ps_lines s" "ps_running (page_write t s) = ps_running s"
  "ps_ed (page_write t s) = ps_ed s" "ps_shell (page_write t s) = ps_shell s"
  "ps_closed (page_write t s) = ps_closed s" "ps_left (page_write t s) = ps_left s"
  "ps_line (page_write t s) = ps_line s" "ps_in (page_write t s) = ps_in s"
  "ps_cmds (page_write t s) = ps_cmds s" "ps_draws (page_write t s) = ps_draws s"
  by (simp_all add: page_write_def)

lemma page_write_prompt_fields [simp]:
  "ps_lines (page_write_prompt Y s) = ps_lines s" "ps_running (page_write_prompt Y s) = ps_running s"
  "ps_shell (page_write_prompt Y s) = ps_shell s" "ps_line (page_write_prompt Y s) = ps_line s"
  by (simp_all add: page_write_prompt_def)

lemma page_finish_lines [simp]: "ps_lines (page_finish N X Y hook s) = ps_lines s"
  by (simp add: page_finish_def Let_def split: prod.split)

lemma page_step_lines:
  "step_starts ev s @ ps_lines (page_step N X Y hook ev s) = ps_lines s @ step_lines Y ev s"
  by (cases ev)
    (auto simp: step_starts_def page_data_def page_edit_def page_raw_def page_reply_def page_submit_def
      page_start_def Let_def split: list.split prod.split)

text \<open>Lines are started in the order they were given, whoever gave them, and each at most once.\<close>

lemma page_lines_in_order:
  "lines_started N X Y hook evs s @ ps_lines (page_run N X Y hook evs s) =
   ps_lines s @ lines_given N X Y hook evs s"
proof (induction evs arbitrary: s)
  case Nil
  then show ?case by (simp add: page_run_def)
next
  case (Cons ev evs)
  have "lines_started N X Y hook (ev # evs) s @ ps_lines (page_run N X Y hook (ev # evs) s) =
    step_starts ev s @ (ps_lines (page_step N X Y hook ev s) @
      lines_given N X Y hook evs (page_step N X Y hook ev s))"
    using Cons.IH [of "page_step N X Y hook ev s"] by (simp add: page_run_def)
  also have "\<dots> = ps_lines s @ lines_given N X Y hook (ev # evs) s"
    using page_step_lines [of ev s N X Y hook] by (simp add: append_assoc [symmetric] del: append_assoc)
  finally show ?case .
qed

text \<open>While a line runs, nothing typed changes the line editor, the shell or the line being run.\<close>

lemma page_step_running:
  assumes "ps_running s" "ev \<noteq> Page_Finish"
  shows "ps_running (page_step N X Y hook ev s)" "ps_line (page_step N X Y hook ev s) = ps_line s"
    "ps_ed (page_step N X Y hook ev s) = ps_ed s" "ps_shell (page_step N X Y hook ev s) = ps_shell s"
    "step_starts ev s = []"
  using assms
  by (cases ev; auto simp: step_starts_def page_data_def page_raw_def page_reply_def page_submit_def
      page_start_def split: list.split prod.split)+

lemma page_run_running:
  assumes "ps_running s" "Page_Finish \<notin> set evs"
  shows "ps_running (page_run N X Y hook evs s) \<and> ps_line (page_run N X Y hook evs s) = ps_line s \<and>
    ps_ed (page_run N X Y hook evs s) = ps_ed s \<and> ps_shell (page_run N X Y hook evs s) = ps_shell s \<and>
    lines_started N X Y hook evs s = []"
  using assms
proof (induction evs arbitrary: s)
  case Nil
  then show ?case by (simp add: page_run_def)
next
  case (Cons ev evs)
  then have ev: "ev \<noteq> Page_Finish" by auto
  note st = page_step_running(1-4) [OF Cons.prems(1) ev, of N X Y hook] page_step_running(5) [OF Cons.prems(1) ev]
  from Cons.IH [OF st(1)] Cons.prems(2) st show ?case by (simp add: page_run_def)
qed

text \<open>The shell runs exactly the line started: what is typed or submitted meanwhile waits its turn.\<close>

lemma page_runs_line_started:
  assumes "ps_lines s = l # ls" "\<not> ps_running s" "\<not> ps_closed s" "\<not> ps_left s" "Page_Finish \<notin> set evs"
    "shell_run N l (ps_shell s) = ((b, err), sh)"
  shows "ps_shell (page_run N X Y hook (Page_Start # evs @ [Page_Finish]) s) =
    (if (hook \<and> shell_exited sh) \<or> shell_pending sh then sh else report_jobs N sh)"
proof -
  let ?s = "page_start s"
  have s: "ps_running ?s" "ps_line ?s = l" "ps_shell ?s = ps_shell s"
    using assms by (auto simp: page_start_def)
  let ?t = "page_run N X Y hook evs ?s"
  from page_run_running [OF s(1) assms(5), of N X Y hook] s
  have t: "ps_running ?t" "ps_line ?t = l" "ps_shell ?t = ps_shell s" by auto
  have "ps_shell (page_finish N X Y hook ?t) =
    (if (hook \<and> shell_exited sh) \<or> shell_pending sh then sh else report_jobs N sh)"
    using t assms(6) by (simp add: page_finish_def Let_def)
  then show ?thesis by (simp add: page_run_def)
qed

text \<open>What is typed at a command that reads lines, and ends without an Enter, is the program's
  once it asks for keys: none of it is lost.\<close>

lemma raw_mode_hands_over:
  assumes "\<not> ps_raw s"
  shows "ps_cooked (page_raw True s) = [] \<and> ps_raw (page_raw True s) \<and>
    ps_in (page_raw True s) = fold iq_push (stdin_items (string_of_runes (ps_cooked s))) (ps_in s)"
  using assms by (auto simp: page_raw_def stdin_items_def)

text \<open>The page shortens every directory that begins with the home's name, which the console does not.\<close>

lemma page_home_neighbour:
  assumes "y_ps1 Y n (ss_runner s) = None" "y_dir Y (ss_runner s) = ''/home/user2''" "\<not> shell_pending s"
    "y_host Y = ''websh''"
  shows "page_prompt Y n s =
    CHR 0x1B # ''[1;32mwebsh'' @ CHR 0x1B # ''[0m:'' @ CHR 0x1B # ''[1;34m~2'' @ CHR 0x1B # ''[0m$ ''"
  using assms by (simp add: page_prompt_def Let_def has_prefix_def)

end
