(* ===== verification/Inline_Images.thy ===== *)
theory Inline_Images
  imports Base64
begin

text \<open>
  Inline pictures, \<^verbatim>\<open>src/web/images.go\<close>: kitty's graphics protocol and iTerm2's inline file. The
  terminal that holds the pictures, the cells a picture takes (floating-point arithmetic), the
  image formats and zlib are parameters. The lemmas: a picture sent in chunks is the picture sent
  whole; what is kept of an unfinished one stays within the limit; and decoding does not panic
  as long as the size asked for does not overflow, which is not checked.
\<close>

subsection \<open>State\<close>

definition image_limit :: nat where
  "image_limit = 16 * 2 ^ 20"

record kitty_image =
  ki_url :: string
  ki_w :: int
  ki_h :: int

type_synonym kitty_ctl = "string \<Rightarrow> string option"

text \<open>\<open>im_parts\<close> is the picture arriving in chunks, with its keys; \<open>'h\<close> are the terminal's handles.\<close>

record 'h image_state =
  im_stored :: "nat \<Rightarrow> kitty_image option"
  im_part :: string
  im_ctl :: "kitty_ctl option"
  im_shown :: "nat \<Rightarrow> 'h list"

definition no_images :: "'h image_state" where
  "no_images = \<lparr>im_stored = (\<lambda>i. None), im_part = [], im_ctl = None, im_shown = (\<lambda>i. [])\<rparr>"

text \<open>
  The terminal: pictures are laid at its cursor, which moves; \<open>ti_input\<close> is what is sent to the
  program as if typed. \<open>ti_cells\<close> is \<^verbatim>\<open>cellsFor\<close>, \<open>ti_url\<close> \<^verbatim>\<open>blobURL\<close>.
\<close>

record ('t, 'h) term_images =
  ti_add :: "string \<Rightarrow> int \<Rightarrow> int \<Rightarrow> 't \<Rightarrow> 'h option \<times> 't"
  ti_remove :: "'h \<Rightarrow> 't \<Rightarrow> 't"
  ti_clear :: "'t \<Rightarrow> 't"
  ti_cursor :: "'t \<Rightarrow> int \<times> int"
  ti_set_cursor :: "int \<times> int \<Rightarrow> 't \<Rightarrow> 't"
  ti_input :: "string \<Rightarrow> 't \<Rightarrow> 't"
  ti_cells :: "'t \<Rightarrow> int \<Rightarrow> int \<Rightarrow> string \<Rightarrow> string \<Rightarrow> bool \<Rightarrow> int \<times> int"
  ti_url :: "string \<Rightarrow> string \<Rightarrow> string"

text \<open>
  The formats: the size and format a picture says it has, the PNG of pixels, and what unpacking
  gives before it ends or fails.
\<close>

record image_lib =
  il_config :: "string \<Rightarrow> (int \<times> int \<times> string) option"
  il_png :: "int \<Rightarrow> int \<Rightarrow> string list \<Rightarrow> string option"
  il_unzip :: "string \<Rightarrow> (string \<times> bool) option"

subsection \<open>Numbers and keys\<close>

definition img_atoi :: "string \<Rightarrow> int" where
  "img_atoi s = (case atoi s of Some n \<Rightarrow> n | None \<Rightarrow> 0)"

definition parse_u32 :: "string \<Rightarrow> nat" where
  "parse_u32 s = (case parse_uint s (2 ^ 32) of Some n \<Rightarrow> nat n | None \<Rightarrow> 0)"

definition ctl_get :: "kitty_ctl \<Rightarrow> string \<Rightarrow> string" where
  "ctl_get m k = (case m k of Some v \<Rightarrow> v | None \<Rightarrow> [])"

definition set_m :: "string \<Rightarrow> kitty_ctl \<Rightarrow> kitty_ctl" where
  "set_m v m = m(''m'' \<mapsto> v)"

definition parse_ctl :: "string \<Rightarrow> kitty_ctl" where
  "parse_ctl s = fold (\<lambda>kv m. case cut_byte kv (CHR ''='') of (k, v, True) \<Rightarrow> m(k \<mapsto> v) | _ \<Rightarrow> m)
     (split_byte s (CHR '','')) (\<lambda>k. None)"

definition mime_of :: "string \<Rightarrow> string" where
  "mime_of fmt = (if fmt \<in> {''png'', ''jpeg'', ''gif''} then ''image/'' @ fmt else [])"

subsection \<open>Decoding\<close>

text \<open>The pixels of raw data: the bytes of each, in order; an index out of range panics.\<close>

definition raw_pixel :: "nat \<Rightarrow> string \<Rightarrow> nat \<Rightarrow> string option" where
  "raw_pixel n b i =
     (if i * n + n \<le> length b then
        Some (take 3 (drop (i * n) b) @ [if n = 4 then b ! (i * n + 3) else CHR 0xFF])
      else None)"

fun raw_pixels :: "nat \<Rightarrow> string \<Rightarrow> nat list \<Rightarrow> string list option" where
  "raw_pixels n b [] = Some []"
| "raw_pixels n b (i # is) =
     (case raw_pixel n b i of
        None \<Rightarrow> None
      | Some p \<Rightarrow> map_option (\<lambda>ps. p # ps) (raw_pixels n b is))"

text \<open>
  \<^verbatim>\<open>kittyDecode\<close>: \<open>None\<close> is a panic, otherwise an error or a picture. \<^verbatim>\<open>image.NewNRGBA\<close> panics when
  the bytes of its pixels are more than an integer counts.
\<close>

definition decode_raw :: "('t, 'h) term_images \<Rightarrow> image_lib \<Rightarrow> nat \<Rightarrow> int \<Rightarrow> int \<Rightarrow> string \<Rightarrow> (string + kitty_image) option"
where
  "decode_raw T L n w h b =
     (if w \<le> 0 \<or> h \<le> 0 \<or> int (length b) < wrap64 (wrap64 (w * h) * int n) then
        Some (Inl ''EINVAL:raw data does not match its size'')
      else if 2 ^ 63 \<le> 4 * w * h then None
      else (case raw_pixels n b [0..<nat (wrap64 (w * h))] of
          None \<Rightarrow> None
        | Some ps \<Rightarrow>
           (case il_png L w h ps of
              None \<Rightarrow> Some (Inl ''EINVAL:could not encode'')
            | Some out \<Rightarrow> Some (Inr \<lparr>ki_url = ti_url T out ''image/png'', ki_w = w, ki_h = h\<rparr>))))"

definition decode_format ::
  "('t, 'h) term_images \<Rightarrow> image_lib \<Rightarrow> kitty_ctl \<Rightarrow> string \<Rightarrow> (string + kitty_image) option"
where
  "decode_format T L m b =
     (let f = ctl_get m ''f'' in
      if f \<in> {[], ''32'', ''24''} then
        decode_raw T L (if f = ''24'' then 3 else 4) (img_atoi (ctl_get m ''s'')) (img_atoi (ctl_get m ''v'')) b
      else if f = ''100'' then
        Some (case il_config L b of
            None \<Rightarrow> Inl ''EINVAL:not a PNG''
          | Some (w, h, _) \<Rightarrow> Inr \<lparr>ki_url = ti_url T b ''image/png'', ki_w = w, ki_h = h\<rparr>)
      else Some (Inl ''EINVAL:unknown format''))"

definition unzipped :: "image_lib \<Rightarrow> kitty_ctl \<Rightarrow> string \<Rightarrow> string option" where
  "unzipped L m b =
     (if ctl_get m ''o'' \<noteq> ''z'' then Some b
      else (case il_unzip L b of
          None \<Rightarrow> None
        | Some (out, ok) \<Rightarrow> if ok \<or> image_limit \<le> length out then Some (take image_limit out) else None))"

definition kitty_decode ::
  "('t, 'h) term_images \<Rightarrow> image_lib \<Rightarrow> kitty_ctl \<Rightarrow> string \<Rightarrow> (string + kitty_image) option"
where
  "kitty_decode T L m b =
     (if ctl_get m ''t'' \<noteq> [] \<and> ctl_get m ''t'' \<noteq> ''d'' then
        Some (Inl ''EBADF:only direct transmission in a browser'')
      else (case unzipped L m b of
          None \<Rightarrow> Some (Inl ''EINVAL:bad zlib data'')
        | Some b1 \<Rightarrow> decode_format T L m b1))"

subsection \<open>Commands\<close>

definition kitty_answer :: "('t, 'h) term_images \<Rightarrow> kitty_ctl \<Rightarrow> string \<Rightarrow> 't \<Rightarrow> 't" where
  "kitty_answer T m msg t =
     (let i = ctl_get m ''i''; q = ctl_get m ''q'' in
      if i = [] \<or> q = ''2'' \<or> (q = ''1'' \<and> msg = ''OK'') then t
      else ti_input T (CHR 0x1B # ''_Gi='' @ i @ '';'' @ msg @ [CHR 0x1B, CHR 0x5C]) t)"

definition kitty_put ::
  "('t, 'h) term_images \<Rightarrow> nat \<Rightarrow> kitty_image \<Rightarrow> kitty_ctl \<Rightarrow> 'h image_state \<times> 't \<Rightarrow> 'h image_state \<times> 't"
where
  "kitty_put T i img m st =
     (let (s, t) = st;
          size = (\<lambda>k. let v = img_atoi (ctl_get m k) in if 0 < v then itoa v else ''auto'');
          ws = size ''c''; hs = size ''r'';
          (cols, rows) = ti_cells T t (ki_w img) (ki_h img) ws hs (ws = ''auto'' \<or> hs = ''auto'');
          at = ti_cursor T t;
          (h, t1) = ti_add T (ki_url img) cols rows t;
          t2 = (if ctl_get m ''C'' = ''1'' then ti_set_cursor T at t1 else t1)
      in (case h of
            Some x \<Rightarrow> if i \<noteq> 0 then s\<lparr>im_shown := (im_shown s)(i := im_shown s i @ [x])\<rparr> else s
          | None \<Rightarrow> s, t2))"

definition hide_shown :: "('t, 'h) term_images \<Rightarrow> nat \<Rightarrow> 'h image_state \<times> 't \<Rightarrow> 'h image_state \<times> 't" where
  "hide_shown T i st =
     ((fst st)\<lparr>im_shown := (im_shown (fst st))(i := [])\<rparr>, fold (ti_remove T) (im_shown (fst st) i) (snd st))"

definition kitty_delete :: "('t, 'h) term_images \<Rightarrow> nat \<Rightarrow> string \<Rightarrow> 'h image_state \<times> 't \<Rightarrow> 'h image_state \<times> 't"
where
  "kitty_delete T i d st =
     (if d \<in> {[], ''a'', ''A''} then
        ((fst st)\<lparr>im_shown := (\<lambda>i. []),
           im_stored := (if d = ''A'' then (\<lambda>i. None) else im_stored (fst st))\<rparr>, ti_clear T (snd st))
      else if d \<in> {''i'', ''I''} then
        apfst (\<lambda>s. if d = ''I'' then s\<lparr>im_stored := (im_stored s)(i := None)\<rparr> else s) (hide_shown T i st)
      else st)"

text \<open>A picture that has come: it takes the place of the one of its id, and is shown if asked.\<close>

definition kitty_transmit ::
  "('t, 'h) term_images \<Rightarrow> nat \<Rightarrow> bool \<Rightarrow> kitty_ctl \<Rightarrow> kitty_image \<Rightarrow> 'h image_state \<times> 't \<Rightarrow> 'h image_state \<times> 't"
where
  "kitty_transmit T i put m img st =
     (let st1 = (if i \<noteq> 0 then
            apfst (\<lambda>s. s\<lparr>im_stored := (im_stored s)(i \<mapsto> img)\<rparr>) (hide_shown T i st) else st)
      in if put then kitty_put T i img m st1 else st1)"

text \<open>A whole command with its data; \<open>None\<close> is a panic.\<close>

definition kitty_act ::
  "('t, 'h) term_images \<Rightarrow> image_lib \<Rightarrow> kitty_ctl \<Rightarrow> string \<Rightarrow> 'h image_state \<times> 't \<Rightarrow> ('h image_state \<times> 't) option"
where
  "kitty_act T L m b st =
     (let a0 = ctl_get m ''a''; a = (if a0 = [] then ''t'' else a0); i = parse_u32 (ctl_get m ''i'');
          reply = (\<lambda>msg. apsnd (kitty_answer T m msg)) in
      if a = ''q'' then
        map_option (\<lambda>r. reply (case r of Inl e \<Rightarrow> e | Inr img \<Rightarrow> ''OK'') st) (kitty_decode T L m b)
      else if a = ''t'' \<or> a = ''T'' then
        map_option (\<lambda>r. case r of
            Inl e \<Rightarrow> reply e st
          | Inr img \<Rightarrow>
              reply ''OK'' (kitty_transmit T i (a = ''T'') m img st)) (kitty_decode T L m b)
      else if a = ''p'' then
        Some (case im_stored (fst st) i of
            None \<Rightarrow> reply ''ENOENT:no such image'' st
          | Some img \<Rightarrow> reply ''OK'' (kitty_put T i img m st))
      else if a = ''d'' then Some (kitty_delete T i (ctl_get m ''d'') st)
      else Some st)"

text \<open>The keys that hold: those of the first chunk, with the new \<^verbatim>\<open>q\<close> and \<^verbatim>\<open>m\<close>.\<close>

definition kitty_keys :: "kitty_ctl option \<Rightarrow> kitty_ctl \<Rightarrow> kitty_ctl" where
  "kitty_keys old new =
     (case old of
        None \<Rightarrow> new
      | Some m \<Rightarrow>
         (let m1 = (case new ''q'' of Some q \<Rightarrow> m(''q'' \<mapsto> q) | None \<Rightarrow> m) in
          set_m (if ctl_get new ''m'' = ''1'' then ''1'' else ''0'') m1))"

definition kitty_chunk ::
  "('t, 'h) term_images \<Rightarrow> image_lib \<Rightarrow> kitty_ctl \<Rightarrow> string \<Rightarrow> 'h image_state \<times> 't \<Rightarrow> ('h image_state \<times> 't) option"
where
  "kitty_chunk T L m payload st =
     (let s = fst st; t = snd st; none = s\<lparr>im_part := [], im_ctl := None\<rparr> in
      case b64_decode payload of
        None \<Rightarrow> Some (none, kitty_answer T m ''EINVAL:bad base64'' t)
      | Some b \<Rightarrow>
          if ctl_get m ''m'' = ''1'' then
            Some (if image_limit < length (im_part s) + length b then none
                  else s\<lparr>im_part := im_part s @ b, im_ctl := Some m\<rparr>, t)
          else kitty_act T L m (if im_ctl s \<noteq> None then im_part s @ b else b)
             (if im_ctl s \<noteq> None then none else s, t))"

definition kitty ::
  "('t, 'h) term_images \<Rightarrow> image_lib \<Rightarrow> string \<Rightarrow> 'h image_state \<times> 't \<Rightarrow> ('h image_state \<times> 't) option"
where
  "kitty T L d st =
     (if \<not> has_prefix d ''G'' then Some st
      else (case cut_byte (drop 1 d) (CHR '';'') of
          (keys, payload, _) \<Rightarrow>
            kitty_chunk T L (kitty_keys (im_ctl (fst st)) (parse_ctl keys)) payload st))"

definition iterm2_inline ::
  "('t, 'h) term_images \<Rightarrow> image_lib \<Rightarrow> kitty_ctl \<Rightarrow> string \<Rightarrow> 't \<Rightarrow> 't"
where
  "iterm2_inline T L args b t =
     (let (w, h, fmt) = (case il_config L b of Some c \<Rightarrow> c | None \<Rightarrow> (0, 0, []));
          url = ti_url T b (mime_of fmt);
          (cols, rows) = ti_cells T t w h (ctl_get args ''width'') (ctl_get args ''height'')
            (ctl_get args ''preserveAspectRatio'' \<noteq> ''0'') in
      snd (ti_add T url cols rows t))"

subsection \<open>What is kept of an unfinished picture\<close>

definition parts_ok :: "'h image_state \<Rightarrow> bool" where
  "parts_ok s = (length (im_part s) \<le> image_limit \<and> (im_ctl s = None \<longrightarrow> im_part s = []))"

lemma hide_shown_parts [simp]: "im_part (fst (hide_shown T i st)) = im_part (fst st)"
  "im_ctl (fst (hide_shown T i st)) = im_ctl (fst st)"
  by (simp_all add: hide_shown_def)

lemma kitty_put_parts [simp]: "im_part (fst (kitty_put T i img m st)) = im_part (fst st)"
  "im_ctl (fst (kitty_put T i img m st)) = im_ctl (fst st)"
  by (simp_all add: kitty_put_def Let_def split: prod.split option.split)

lemma kitty_delete_parts [simp]: "im_part (fst (kitty_delete T i d st)) = im_part (fst st)"
  "im_ctl (fst (kitty_delete T i d st)) = im_ctl (fst st)"
  by (simp_all add: kitty_delete_def)

lemma kitty_act_parts:
  "kitty_act T L m b st = Some st' \<Longrightarrow>
   im_part (fst st') = im_part (fst st) \<and> im_ctl (fst st') = im_ctl (fst st)"
  by (cases "kitty_decode T L m b")
    (auto simp: kitty_act_def Let_def kitty_transmit_def split: if_splits sum.splits option.splits)

lemma kitty_chunk_parts:
  assumes "kitty_chunk T L m p st = Some st'" "parts_ok (fst st)"
  shows "parts_ok (fst st')"
proof (cases "b64_decode p")
  case None
  then show ?thesis using assms by (auto simp: kitty_chunk_def Let_def parts_ok_def)
next
  case (Some b)
  show ?thesis
  proof (cases "ctl_get m ''m'' = ''1''")
    case True
    then show ?thesis using assms Some by (auto simp: kitty_chunk_def Let_def parts_ok_def split: if_splits)
  next
    case False
    with assms(1) Some obtain b' s where a: "kitty_act T L m b' (s, snd st) = Some st'"
      "s = (if im_ctl (fst st) \<noteq> None then (fst st)\<lparr>im_part := [], im_ctl := None\<rparr> else fst st)"
      by (simp add: kitty_chunk_def Let_def)
    have "parts_ok s" using assms(2) by (simp add: a(2) parts_ok_def)
    with kitty_act_parts [OF a(1)] show ?thesis by (simp add: parts_ok_def)
  qed
qed

lemma kitty_parts_ok:
  "\<lbrakk>kitty T L d st = Some st'; parts_ok (fst st)\<rbrakk> \<Longrightarrow> parts_ok (fst st')"
  by (auto simp: kitty_def kitty_chunk_parts split: if_splits prod.splits)

subsection \<open>A size that is not checked\<close>

text \<open>A raw picture whose size does not overflow is decoded or refused, whatever its bytes.\<close>

lemma raw_pixels_total:
  "\<lbrakk>\<forall>i \<in> set is. i < k; k * n \<le> length b\<rbrakk> \<Longrightarrow> raw_pixels n b is \<noteq> None"
proof (induction "is")
  case (Cons i js)
  have "i * n + n \<le> k * n"
    using Cons.prems(1) by (metis Suc_leI add.commute list.set_intros(1) mult_Suc mult_le_mono1)
  with Cons show ?case by (auto simp: raw_pixel_def)
qed simp

lemma decode_raw_total:
  assumes "4 * w * h < 2 ^ 63" "n \<in> {3, 4}"
  shows "decode_raw T L n w h b \<noteq> None"
proof (cases "w \<le> 0 \<or> h \<le> 0")
  case False
  then have wh: "0 < w * h" by simp
  have s: "w * h < 2 ^ 63" "w * h * int n < 2 ^ 63"
    using assms wh by (auto simp: algebra_simps)
  have "0 \<le> w * h" "0 \<le> w * h * int n" using wh by simp_all
  with s have wrap: "wrap64 (w * h) = w * h" "wrap64 (w * h * int n) = w * h * int n"
    by (intro wrap64_id; linarith)+
  have "raw_pixels n b [0..<nat (w * h)] \<noteq> None" if "w * h * int n \<le> int (length b)"
  proof (rule raw_pixels_total)
    have "int (nat (w * h) * n) \<le> int (length b)" using that wh by simp
    then show "nat (w * h) * n \<le> length b" by (simp only: of_nat_le_iff)
  qed simp
  then show ?thesis
    using assms(1) by (auto simp: decode_raw_def wrap split: option.split)
qed (auto simp: decode_raw_def)

text \<open>
  But the product is taken with wrap-around: four billion by four billion pixels are no bytes at
  all, which any data is enough for, and making the picture panics.
\<close>

lemma kitty_overflow_panics: "kitty T L ''Gs=4294967296,v=4294967296;'' (no_images, t) = None"
proof -
  have m: "parse_ctl ''s=4294967296,v=4294967296'' =
      (\<lambda>k. None)(''s'' \<mapsto> ''4294967296'', ''v'' \<mapsto> ''4294967296'')"
    by (simp add: parse_ctl_def cut_byte_def)
  have n: "atoi ''4294967296'' = Some 4294967296" by code_simp
  have "decode_raw T L 4 4294967296 4294967296 b = None" for b
    by (simp add: decode_raw_def wrap64_def)
  then show ?thesis
    by (simp add: kitty_def cut_byte_def m kitty_keys_def no_images_def kitty_chunk_def ctl_get_def
        b64_decode_def kitty_act_def kitty_decode_def unzipped_def decode_format_def img_atoi_def n)
qed

subsection \<open>A picture in chunks\<close>

text \<open>
  What a tool sends: the keys with the first chunk, \<^verbatim>\<open>m=1\<close> on all but the last; or everything at
  once.
\<close>

definition kitty_first :: "string \<Rightarrow> string \<Rightarrow> string \<Rightarrow> string" where
  "kitty_first keys m c = ''G'' @ keys @ '',m='' @ m @ '';'' @ b64_encode c"

definition kitty_next :: "string \<Rightarrow> string \<Rightarrow> string" where
  "kitty_next m c = ''Gm='' @ m @ '';'' @ b64_encode c"

fun kitty_all ::
  "('t, 'h) term_images \<Rightarrow> image_lib \<Rightarrow> string list \<Rightarrow> 'h image_state \<times> 't \<Rightarrow> ('h image_state \<times> 't) option"
where
  "kitty_all T L [] st = Some st"
| "kitty_all T L (d # ds) st = Option.bind (kitty T L d st) (kitty_all T L ds)"

lemma set_m_get [simp]: "ctl_get (set_m v m) ''m'' = v"
  by (simp add: ctl_get_def set_m_def)

lemma parse_ctl_more:
  assumes "CHR '','' \<notin> set v"
  shows "parse_ctl (keys @ '',m='' @ v) = set_m v (parse_ctl keys)"
proof -
  have "split_byte (keys @ CHR '','' # ''m='' @ v) (CHR '','') = split_byte keys (CHR '','') @ [''m='' @ v]"
    by (induction keys) (use assms in \<open>auto simp: split_byte_no_sep split: list.split\<close>)
  moreover have "cut_byte (''m='' @ v) (CHR ''='') = (''m'', v, True)"
    using cut_byte_found [of "CHR ''=''" "''m''" v] by simp
  ultimately show ?thesis by (simp add: parse_ctl_def set_m_def)
qed

lemma parse_ctl_m: "v \<in> {''0'', ''1''} \<Longrightarrow> parse_ctl (''m='' @ v) = set_m v (\<lambda>k. None)"
  by (auto simp: parse_ctl_def cut_byte_def set_m_def)

lemma kitty_first_eq:
  assumes "CHR '';'' \<notin> set keys" "v \<in> {''0'', ''1''}"
  shows "kitty T L (kitty_first keys v c) st =
    kitty_chunk T L (kitty_keys (im_ctl (fst st)) (set_m v (parse_ctl keys))) (b64_encode c) st"
proof -
  have "CHR '';'' \<notin> set (keys @ '',m='' @ v)" "CHR '','' \<notin> set v" using assms by auto
  from cut_byte_found [OF this(1), of "b64_encode c"] parse_ctl_more [OF this(2), of keys] show ?thesis
    by (simp add: kitty_def kitty_first_def)
qed

lemma kitty_next_eq:
  assumes "v \<in> {''0'', ''1''}"
  shows "kitty T L (kitty_next v c) st =
    kitty_chunk T L (kitty_keys (im_ctl (fst st)) (set_m v (\<lambda>k. None))) (b64_encode c) st"
proof -
  have "CHR '';'' \<notin> set (''m='' @ v)" using assms by auto
  from cut_byte_found [OF this, of "b64_encode c"] parse_ctl_m [OF assms] show ?thesis
    by (simp add: kitty_def kitty_next_def)
qed

lemma kitty_keys_next:
  "u \<in> {''0'', ''1''} \<Longrightarrow> kitty_keys (Some (set_m v m)) (set_m u (\<lambda>k. None)) = set_m u m"
  by (auto simp: kitty_keys_def set_m_def ctl_get_def)

lemma kitty_all_Nil: "Option.bind x (kitty_all T L []) = x"
  by (cases x) auto

lemma kitty_next_chunk:
  "\<lbrakk>im_ctl s = Some (set_m u m); v \<in> {''0'', ''1''}\<rbrakk> \<Longrightarrow>
   kitty T L (kitty_next v c) (s, t) = kitty_chunk T L (set_m v m) (b64_encode c) (s, t)"
  by (simp only: kitty_next_eq kitty_keys_next fst_conv)

lemma kitty_chunk_last:
  "im_ctl s \<noteq> None \<Longrightarrow> kitty_chunk T L (set_m ''0'' m) (b64_encode c) (s, t) =
     kitty_act T L (set_m ''0'' m) (im_part s @ c) (s\<lparr>im_part := [], im_ctl := None\<rparr>, t)"
  by (simp add: kitty_chunk_def Let_def)

lemma kitty_chunk_more:
  "length (im_part s) + length c \<le> image_limit \<Longrightarrow>
   kitty_chunk T L (set_m ''1'' m) (b64_encode c) (s, t) =
     Some (s\<lparr>im_part := im_part s @ c, im_ctl := Some (set_m ''1'' m)\<rparr>, t)"
  by (simp add: kitty_chunk_def Let_def)

lemma kitty_nexts:
  assumes "im_ctl s = Some (set_m ''1'' m)" "length (im_part s) + length (concat cs) \<le> image_limit"
  shows "kitty_all T L (map (kitty_next ''1'') cs @ [kitty_next ''0'' c]) (s, t) =
    kitty_act T L (set_m ''0'' m) (im_part s @ concat cs @ c) (s\<lparr>im_part := [], im_ctl := None\<rparr>, t)"
  using assms
proof (induction cs arbitrary: s)
  case Nil
  then have "kitty T L (kitty_next ''0'' c) (s, t) =
      kitty_act T L (set_m ''0'' m) (im_part s @ c) (s\<lparr>im_part := [], im_ctl := None\<rparr>, t)"
    using kitty_chunk_last [of s T L m c t] by (subst kitty_next_chunk [OF Nil.prems(1)]) simp_all
  then show ?case by (simp only: list.map append_Nil kitty_all.simps kitty_all_Nil concat.simps)
next
  case (Cons b cs)
  let ?s = "s\<lparr>im_part := im_part s @ b, im_ctl := Some (set_m ''1'' m)\<rparr>"
  have "kitty T L (kitty_next ''1'' b) (s, t) = Some (?s, t)"
    using Cons.prems(2) by (subst kitty_next_chunk [OF Cons.prems(1)]) (simp_all add: kitty_chunk_more)
  moreover have "length (im_part ?s) + length (concat cs) \<le> image_limit" using Cons.prems by simp
  ultimately show ?case using Cons.IH [of ?s] by simp
qed

lemma kitty_chunks_eq:
  assumes "CHR '';'' \<notin> set keys" "im_ctl s = None" "im_part s = []" "length (concat (c # cs)) \<le> image_limit"
  shows "kitty_all T L (kitty_first keys ''1'' c # map (kitty_next ''1'') cs @ [kitty_next ''0'' d]) (s, t) =
    kitty T L (kitty_first keys ''0'' (c @ concat cs @ d)) (s, t)"
proof -
  let ?m = "parse_ctl keys" and ?s = "s\<lparr>im_part := c, im_ctl := Some (set_m ''1'' (parse_ctl keys))\<rparr>"
  have s: "s\<lparr>im_part := [], im_ctl := None\<rparr> = s" using assms(2,3) by simp
  have "kitty T L (kitty_first keys ''1'' c) (s, t) = Some (?s, t)"
    using assms by (simp add: kitty_first_eq kitty_keys_def kitty_chunk_def Let_def)
  moreover have "kitty_all T L (map (kitty_next ''1'') cs @ [kitty_next ''0'' d]) (?s, t) =
      kitty_act T L (set_m ''0'' ?m) (c @ concat cs @ d) (s, t)"
    using kitty_nexts [of ?s ?m cs T L d t] assms s by simp
  moreover have "kitty T L (kitty_first keys ''0'' (c @ concat cs @ d)) (s, t) =
      kitty_act T L (set_m ''0'' ?m) (c @ concat cs @ d) (s, t)"
    using assms by (simp add: kitty_first_eq kitty_keys_def kitty_chunk_def Let_def)
  ultimately show ?thesis by simp
qed

text \<open>
  C28. A picture sent to the terminal in chunks (its data but for the last within the limit, however
  it is cut) is the picture sent whole: the same pictures are stored and shown, the same
  answer is given, and nothing of it is kept.
\<close>

theorem kitty_chunks_whole:
  assumes "CHR '';'' \<notin> set keys" "im_ctl s = None" "im_part s = []" "length (concat (c # cs)) \<le> image_limit"
  shows "kitty_all T L (kitty_first keys ''1'' c # map (kitty_next ''1'') cs @ [kitty_next ''0'' d]) (s, t) =
    kitty T L (kitty_first keys ''0'' (c @ concat cs @ d)) (s, t)"
  by (rule kitty_chunks_eq [OF assms])

text \<open>A terminal for the witness: the pictures laid, and what was sent to the program.\<close>

definition toy_images :: "((string \<times> nat) list \<times> string, nat) term_images" where
  "toy_images = \<lparr>ti_add = (\<lambda>url c r t. (Some (length (fst t)), ((url, length (fst t)) # fst t, snd t))),
     ti_remove = (\<lambda>h t. (filter (\<lambda>p. snd p \<noteq> h) (fst t), snd t)), ti_clear = (\<lambda>t. ([], snd t)),
     ti_cursor = (\<lambda>t. (0, 0)), ti_set_cursor = (\<lambda>c t. t), ti_input = (\<lambda>b t. (fst t, snd t @ b)),
     ti_cells = (\<lambda>t w h ws hs k. (1, 1)), ti_url = (\<lambda>b mime. ''blob:'' @ b)\<rparr>"

definition toy_formats :: image_lib where
  "toy_formats = \<lparr>il_config = (\<lambda>b. Some (1, 1, ''png'')), il_png = (\<lambda>w h ps. Some (concat ps)), il_unzip = (\<lambda>b. None)\<rparr>"

theorem kitty_chunks_whole_witness:
  "map_option snd (kitty_all toy_images toy_formats
     (kitty_first ''a=T,f=100,i=7'' ''1'' ''PN'' # map (kitty_next ''1'') [''Gx''] @ [kitty_next ''0'' ''yz''])
     (no_images, ([], []))) =
   Some ([(''blob:PNGxyz'', 0)], CHR 0x1B # ''_Gi=7;OK'' @ [CHR 0x1B, CHR 0x5C])"
proof -
  have "kitty_all toy_images toy_formats
      (kitty_first ''a=T,f=100,i=7'' ''1'' ''PN'' # map (kitty_next ''1'') [''Gx''] @ [kitty_next ''0'' ''yz''])
      (no_images, ([], [])) =
    kitty toy_images toy_formats (kitty_first ''a=T,f=100,i=7'' ''0'' (''PN'' @ concat [''Gx''] @ ''yz'')) (no_images, ([], []))"
    by (rule kitty_chunks_whole) (simp_all add: no_images_def image_limit_def)
  moreover have "map_option snd (kitty toy_images toy_formats (kitty_first ''a=T,f=100,i=7'' ''0'' (''PN'' @ concat [''Gx''] @ ''yz''))
      (no_images, ([], []))) = Some ([(''blob:PNGxyz'', 0)], CHR 0x1B # ''_Gi=7;OK'' @ [CHR 0x1B, CHR 0x5C])"
    by code_simp
  ultimately show ?thesis by simp
qed

end
