(* ===== verification/Fs_Persist.thy ===== *)
theory Fs_Persist
  imports Mem_Files
begin

text \<open>
  The page's file system kept in the browser, \<^verbatim>\<open>src/cmd/websh/persist.go\<close>: after each command the
  files are gone through and what has changed since the last time is stored, and a new page
  restores what is stored. IndexedDB is a map from paths to records whose writes and removals
  may fail. The lemmas: whatever fails on the way, the snapshot always describes what is stored,
  so the next sync without failures stores exactly the files there are, and they are there again
  after a reload; and three ways in which a file or its mode is lost all the same.
\<close>

subsection \<open>Records\<close>

text \<open>A step of the walk: an error, or a file's information and what reading it gives.\<close>

record fs_entry =
  fx_path :: string
  fx_err :: bool
  fx_dir :: bool
  fx_size :: int
  fx_mtime :: int
  fx_mode :: nat
  fx_data :: "gerr + string"

record file_sig =
  sg_dir :: bool
  sg_size :: int
  sg_mtime :: int

record file_record =
  pr_dir :: bool
  pr_mode :: nat
  pr_mtime :: int
  pr_data :: string

type_synonym fs_snapshot = "string \<Rightarrow> file_sig option"
type_synonym fs_stored = "string \<Rightarrow> file_record option"

definition entry_sig :: "fs_entry \<Rightarrow> file_sig" where
  "entry_sig e = \<lparr>sg_dir = fx_dir e, sg_size = fx_size e, sg_mtime = fx_mtime e\<rparr>"

text \<open>What is stored of a file; \<open>None\<close> when it cannot be read.\<close>

definition entry_record :: "fs_entry \<Rightarrow> file_record option" where
  "entry_record e =
     (let r = (\<lambda>b. \<lparr>pr_dir = fx_dir e, pr_mode = fx_mode e, pr_mtime = fx_mtime e, pr_data = b\<rparr>) in
      if fx_dir e then Some (r []) else (case fx_data e of Inr b \<Rightarrow> Some (r b) | Inl m \<Rightarrow> None))"

subsection \<open>Storing\<close>

definition sync_entry ::
  "(string \<Rightarrow> bool) \<Rightarrow> fs_snapshot \<Rightarrow> fs_entry \<Rightarrow> fs_snapshot \<times> fs_stored \<Rightarrow> fs_snapshot \<times> fs_stored"
where
  "sync_entry put_ok prev e ns =
     (let (nxt, st) = ns; p = fx_path e; sig = entry_sig e in
      if fx_err e \<or> p = ''/'' then ns
      else if prev p = Some sig then (nxt(p \<mapsto> sig), st)
      else (case entry_record e of
          None \<Rightarrow> (nxt(p \<mapsto> sig), st)
        | Some r \<Rightarrow> if put_ok p then (nxt(p \<mapsto> sig), st(p \<mapsto> r)) else (nxt(p := None), st)))"

definition drop_gone ::
  "(string \<Rightarrow> bool) \<Rightarrow> fs_snapshot \<Rightarrow> string \<Rightarrow> fs_snapshot \<times> fs_stored \<Rightarrow> fs_snapshot \<times> fs_stored"
where
  "drop_gone del_ok prev p ns =
     (let (nxt, st) = ns in
      if nxt p = None then (if del_ok p then (nxt, st(p := None)) else (nxt(p := prev p), st)) else ns)"

text \<open>
  \<^verbatim>\<open>syncFS\<close>: \<open>order\<close> is the order in which Go goes through the map of the last snapshot, \<open>put_ok\<close>
  and \<open>del_ok\<close> are the paths whose writes and removals succeed.
\<close>

definition sync_fs ::
  "fs_entry list \<Rightarrow> (string \<Rightarrow> bool) \<Rightarrow> (string \<Rightarrow> bool) \<Rightarrow> string list \<Rightarrow>
   fs_snapshot \<times> fs_stored \<Rightarrow> fs_snapshot \<times> fs_stored"
where
  "sync_fs walk put_ok del_ok order ps =
     (let (prev, st) = ps in
      fold (drop_gone del_ok prev) order (fold (sync_entry put_ok prev) walk (Map.empty, st)))"

subsection \<open>Restoring\<close>

text \<open>The permission bits of a stored mode.\<close>

definition mode_perm :: "nat \<Rightarrow> int" where
  "mode_perm m = int (m mod 512)"

definition load_entry ::
  "'f fs_ops \<Rightarrow> ('f \<Rightarrow> string \<Rightarrow> int \<Rightarrow> 'f) \<Rightarrow> string \<times> file_record \<Rightarrow> nat \<times> 'f \<Rightarrow> nat \<times> 'f"
where
  "load_entry F chtimes pr nf =
     (let (p, r) = pr; (n, fs) = nf in
      if pr_dir r then
        (case fs_mkdir_all F fs p (mode_perm (pr_mode r)) of
           (fs1, Some e) \<Rightarrow> (n, fs1)
         | (fs1, None) \<Rightarrow> (n + 1, fs1))
      else
        (case fs_write F fs p (pr_data r) (mode_perm (pr_mode r)) of
           (fs1, Some e) \<Rightarrow> (n, fs1)
         | (fs1, None) \<Rightarrow> (n + 1, chtimes fs1 p (pr_mtime r))))"

text \<open>\<^verbatim>\<open>loadAll\<close>, once the keys and values have been read: how many were restored.\<close>

definition load_all ::
  "'f fs_ops \<Rightarrow> ('f \<Rightarrow> string \<Rightarrow> int \<Rightarrow> 'f) \<Rightarrow> (string \<times> file_record) list \<Rightarrow> 'f \<Rightarrow> nat \<times> 'f"
where
  "load_all F chtimes es fs = fold (load_entry F chtimes) es (0, fs)"

subsection \<open>The snapshot describes what is stored\<close>

text \<open>The entries that count in a walk.\<close>

definition kept_entries :: "fs_entry list \<Rightarrow> fs_entry list" where
  "kept_entries walk = filter (\<lambda>e. \<not> fx_err e \<and> fx_path e \<noteq> ''/'') walk"

text \<open>
  \<open>E\<close> are the entries ever walked. What the code relies on: a file whose content has changed shows
  it in its size or its time, which is kept to the millisecond. A change of mode alone need not.
\<close>

definition changes_show :: "fs_entry set \<Rightarrow> bool" where
  "changes_show E = (\<forall>e \<in> E. \<forall>e' \<in> E.
     fx_path e = fx_path e' \<and> entry_sig e = entry_sig e' \<longrightarrow> fx_dir e \<or> fx_data e = fx_data e')"

text \<open>
  The snapshot has the signature of what is stored, the record of some entry that was walked, and
  nothing else is stored.
\<close>

definition good_at :: "fs_entry set \<Rightarrow> string \<Rightarrow> file_sig option \<times> file_record option \<Rightarrow> bool" where
  "good_at E p sr =
     (case fst sr of
        None \<Rightarrow> snd sr = None
      | Some s \<Rightarrow> \<exists>e \<in> E. fx_path e = p \<and> entry_sig e = s \<and> snd sr = entry_record e)"

definition describes :: "fs_entry set \<Rightarrow> fs_snapshot \<times> fs_stored \<Rightarrow> bool" where
  "describes E ns = (\<forall>p. good_at E p (fst ns p, snd ns p))"

text \<open>
  A sync path by path, whatever order the walk and the map are gone through in: what becomes of the
  snapshot and of the record of a path, given its entry in the walk.
\<close>

definition sync_path ::
  "bool \<Rightarrow> bool \<Rightarrow> fs_entry option \<Rightarrow> file_sig option \<times> file_record option \<Rightarrow> file_sig option \<times> file_record option"
where
  "sync_path ok gone en old =
     (case en of
        Some e \<Rightarrow>
          if fst old = Some (entry_sig e) then old
          else if ok then (Some (entry_sig e), entry_record e)
          else if fst old = None then old
          else if gone then (None, None) else old
      | None \<Rightarrow> if fst old \<noteq> None \<and> gone then (None, None) else old)"

definition entry_at :: "fs_entry list \<Rightarrow> string \<Rightarrow> fs_entry option" where
  "entry_at walk p = map_of (map (\<lambda>e. (fx_path e, e)) (kept_entries walk)) p"

definition at_path :: "(string \<Rightarrow> 'a) \<times> (string \<Rightarrow> 'b) \<Rightarrow> string \<Rightarrow> 'a \<times> 'b" where
  "at_path ns p = (fst ns p, snd ns p)"

lemma at_path_pair [simp]: "at_path (a, b) p = (a p, b p)"
  by (simp add: at_path_def)

lemma at_path_sel [simp]: "fst (at_path ns p) = fst ns p" "snd (at_path ns p) = snd ns p"
  by (simp_all add: at_path_def)

lemma at_path_eq [simp]: "at_path ns p = (a, b) \<longleftrightarrow> fst ns p = a \<and> snd ns p = b"
  by (simp add: at_path_def)

lemma sync_entry_skips: "fx_err e \<or> fx_path e = ''/'' \<Longrightarrow> sync_entry put_ok prev e ns = ns"
  by (simp add: sync_entry_def Let_def split: prod.split)

lemma sync_entry_at:
  assumes "\<not> fx_err e" "fx_path e \<noteq> ''/''" "entry_record e \<noteq> None"
  shows "at_path (sync_entry put_ok prev e ns) p =
    (if p \<noteq> fx_path e then at_path ns p
     else if prev p = Some (entry_sig e) then (Some (entry_sig e), snd ns p)
     else if put_ok p then (Some (entry_sig e), entry_record e) else (None, snd ns p))"
  using assms by (auto simp: sync_entry_def at_path_def Let_def split: prod.split)

lemma walk_at:
  assumes "distinct (map fx_path (kept_entries walk))" "\<forall>e \<in> set (kept_entries walk). entry_record e \<noteq> None"
  shows "at_path (fold (sync_entry put_ok prev) walk ns) p =
    (case entry_at walk p of
       None \<Rightarrow> at_path ns p
     | Some e \<Rightarrow>
         if prev p = Some (entry_sig e) then (Some (entry_sig e), snd ns p)
         else if put_ok p then (Some (entry_sig e), entry_record e) else (None, snd ns p))"
  using assms
proof (induction walk arbitrary: ns)
  case Nil
  then show ?case by (simp add: entry_at_def kept_entries_def)
next
  case (Cons e walk)
  show ?case
  proof (cases "fx_err e \<or> fx_path e = ''/''")
    case True
    then have "kept_entries (e # walk) = kept_entries walk" "sync_entry put_ok prev e ns = ns"
      by (auto simp: kept_entries_def sync_entry_skips)
    moreover from this have "entry_at (e # walk) = entry_at walk" by (simp add: entry_at_def fun_eq_iff)
    ultimately show ?thesis using Cons by simp
  next
    case False
    with Cons.prems have e: "entry_record e \<noteq> None" "fx_path e \<notin> fx_path ` set (kept_entries walk)"
      by (auto simp: kept_entries_def)
    define ns1 where "ns1 = sync_entry put_ok prev e ns"
    have rest: "distinct (map fx_path (kept_entries walk))" "\<forall>e \<in> set (kept_entries walk). entry_record e \<noteq> None"
      using Cons.prems by (auto simp: kept_entries_def split: if_splits)
    have n: "entry_at walk (fx_path e) = None"
      using e(2) by (auto simp: entry_at_def map_of_eq_None_iff)
    have c: "entry_at (e # walk) p = (if p = fx_path e then Some e else entry_at walk p)"
      using False by (auto simp: entry_at_def kept_entries_def)
    have ns1: "at_path ns1 p =
      (if p \<noteq> fx_path e then at_path ns p
       else if prev p = Some (entry_sig e) then (Some (entry_sig e), snd ns p)
       else if put_ok p then (Some (entry_sig e), entry_record e) else (None, snd ns p))"
      unfolding ns1_def using False e(1) by (intro sync_entry_at) auto
    have "snd ns1 p = snd ns p" if "p \<noteq> fx_path e"
      using arg_cong [OF ns1, of snd] that by simp
    moreover have "fold (sync_entry put_ok prev) (e # walk) ns = fold (sync_entry put_ok prev) walk ns1"
      by (simp add: ns1_def)
    ultimately show ?thesis
      using Cons.IH [OF rest, of ns1] n c ns1 by (cases "p = fx_path e") (auto split: option.split)
  qed
qed

lemma drop_at:
  assumes "set order \<subseteq> dom prev"
  shows "at_path (fold (drop_gone del_ok prev) order ns) p =
    (if p \<in> set order \<and> fst ns p = None then if del_ok p then (None, None) else (prev p, snd ns p)
     else at_path ns p)"
  using assms
proof (induction order arbitrary: ns)
  case (Cons q order)
  have q: "prev q \<noteq> None" using Cons.prems by auto
  have "at_path (drop_gone del_ok prev q ns) p =
    (if p = q \<and> fst ns p = None then if del_ok p then (None, None) else (prev p, snd ns p) else at_path ns p)"
    by (auto simp: drop_gone_def Let_def split: prod.split)
  then have "fst (drop_gone del_ok prev q ns) p =
      (if p = q \<and> fst ns p = None then if del_ok p then None else prev p else fst ns p)"
    "snd (drop_gone del_ok prev q ns) p = (if p = q \<and> fst ns p = None \<and> del_ok p then None else snd ns p)"
    by (auto simp: drop_gone_def Let_def split: prod.split)
  with Cons.IH [of "drop_gone del_ok prev q ns"] Cons.prems q show ?case
    by (auto simp: at_path_def)
qed simp

lemma sync_at:
  assumes "distinct (map fx_path (kept_entries walk))" "\<forall>e \<in> set (kept_entries walk). entry_record e \<noteq> None"
    "set order = dom (fst ps)"
  shows "at_path (sync_fs walk put_ok del_ok order ps) p =
    sync_path (put_ok p) (del_ok p) (entry_at walk p) (at_path ps p)"
proof -
  obtain prev st where ps: "ps = (prev, st)" by fastforce
  define ns where "ns = fold (sync_entry put_ok prev) walk (Map.empty, st)"
  have w: "at_path ns p = (case entry_at walk p of None \<Rightarrow> (None, st p) | Some e \<Rightarrow>
      if prev p = Some (entry_sig e) then (Some (entry_sig e), st p)
      else if put_ok p then (Some (entry_sig e), entry_record e) else (None, st p))"
    unfolding ns_def using walk_at [OF assms(1,2), of put_ok prev "(Map.empty, st)" p]
    by (simp split: option.splits)
  have d: "at_path (fold (drop_gone del_ok prev) order ns) p =
    (if p \<in> set order \<and> fst ns p = None then if del_ok p then (None, None) else (prev p, snd ns p)
     else at_path ns p)"
    using drop_at [of order prev del_ok ns p] assms(3) by (simp add: ps)
  have o: "p \<in> set order \<longleftrightarrow> prev p \<noteq> None" using assms(3) by (auto simp: ps)
  show ?thesis
  proof (cases "entry_at walk p")
    case None
    then have "fst ns p = None" "snd ns p = st p"
      using w by simp_all
    with w d o None show ?thesis by (auto simp: sync_fs_def ps ns_def [symmetric] sync_path_def)
  next
    case (Some e)
    then have "fst ns p = (if prev p = Some (entry_sig e) \<or> put_ok p then Some (entry_sig e) else None)"
      "snd ns p = (if prev p \<noteq> Some (entry_sig e) \<and> put_ok p then entry_record e else st p)"
      using arg_cong [OF w, of fst] arg_cong [OF w, of snd] by (auto split: if_splits)
    with w d o Some show ?thesis
      by (auto simp: sync_fs_def ps ns_def [symmetric] sync_path_def)
  qed
qed

subsection \<open>Any failures\<close>

type_synonym fs_sync = "fs_entry list \<times> (string \<Rightarrow> bool) \<times> (string \<Rightarrow> bool) \<times> string list"

definition sync_all :: "fs_sync list \<Rightarrow> fs_snapshot \<times> fs_stored \<Rightarrow> fs_snapshot \<times> fs_stored" where
  "sync_all xs ns = fold (\<lambda>(walk, put_ok, del_ok, order). sync_fs walk put_ok del_ok order) xs ns"

text \<open>Walks of files that can be read, each path once, and maps gone through whole.\<close>

definition walk_ok :: "fs_entry set \<Rightarrow> fs_entry list \<Rightarrow> bool" where
  "walk_ok E walk = (distinct (map fx_path (kept_entries walk)) \<and>
     (\<forall>e \<in> set (kept_entries walk). e \<in> E \<and> entry_record e \<noteq> None))"

fun syncs_ok :: "fs_entry set \<Rightarrow> fs_sync list \<Rightarrow> fs_snapshot \<times> fs_stored \<Rightarrow> bool" where
  "syncs_ok E [] ns = True"
| "syncs_ok E ((walk, put_ok, del_ok, order) # xs) ns =
     (walk_ok E walk \<and> set order = dom (fst ns) \<and> syncs_ok E xs (sync_fs walk put_ok del_ok order ns))"

lemma entry_atD: "entry_at walk p = Some e \<Longrightarrow> e \<in> set (kept_entries walk) \<and> fx_path e = p"
  by (auto simp: entry_at_def dest!: map_of_SomeD)

lemma entry_at_kept:
  "\<lbrakk>distinct (map fx_path (kept_entries walk)); e \<in> set (kept_entries walk)\<rbrakk> \<Longrightarrow> entry_at walk (fx_path e) = Some e"
  by (simp add: entry_at_def comp_def)

lemma sync_path_good:
  assumes "good_at E p old" "\<And>e. en = Some e \<Longrightarrow> e \<in> E \<and> fx_path e = p"
  shows "good_at E p (sync_path ok gone en old)"
proof (cases en)
  case None
  then show ?thesis using assms by (auto simp: sync_path_def good_at_def)
next
  case (Some e)
  then have e: "e \<in> E" "fx_path e = p" using assms(2) by auto
  then show ?thesis using assms(1) by (auto simp: sync_path_def good_at_def Some split: option.splits)
qed

lemma sync_describes:
  assumes "walk_ok E walk" "set order = dom (fst ns)" "describes E ns"
  shows "describes E (sync_fs walk put_ok del_ok order ns)"
  unfolding describes_def
proof
  fix p
  have "at_path (sync_fs walk put_ok del_ok order ns) p =
    sync_path (put_ok p) (del_ok p) (entry_at walk p) (at_path ns p)"
    using assms(1,2) by (intro sync_at) (auto simp: walk_ok_def)
  moreover have "good_at E p (at_path ns p)" using assms(3) by (simp add: describes_def at_path_def)
  then have "good_at E p (sync_path (put_ok p) (del_ok p) (entry_at walk p) (at_path ns p))"
    by (rule sync_path_good) (use assms(1) in \<open>auto simp: walk_ok_def dest: entry_atD\<close>)
  ultimately show "good_at E p (fst (sync_fs walk put_ok del_ok order ns) p, snd (sync_fs walk put_ok del_ok order ns) p)"
    by (simp add: at_path_def)
qed

lemma syncs_describe: "\<lbrakk>syncs_ok E xs ns; describes E ns\<rbrakk> \<Longrightarrow> describes E (sync_all xs ns)"
proof (induction E xs ns rule: syncs_ok.induct)
  case (2 E walk put_ok del_ok order xs ns)
  then show ?case using sync_describes [of E walk order ns put_ok del_ok] by (simp add: sync_all_def)
qed (simp add: sync_all_def)

lemma nothing_describes: "describes E (Map.empty, Map.empty)"
  by (simp add: describes_def good_at_def)

text \<open>
  A sync in which nothing fails stores exactly the files there are: of each, the record of its
  entry, or of an earlier one of the same size and time.
\<close>

definition records :: "fs_entry set \<Rightarrow> fs_entry \<Rightarrow> file_record option \<Rightarrow> bool" where
  "records E e r = (\<exists>e' \<in> E. fx_path e' = fx_path e \<and> entry_sig e' = entry_sig e \<and> r = entry_record e')"

lemma sync_path_full:
  assumes "good_at E p old" "\<And>e. en = Some e \<Longrightarrow> e \<in> E \<and> fx_path e = p"
  shows "case en of
      None \<Rightarrow> snd (sync_path True True en old) = None
    | Some e \<Rightarrow> records E e (snd (sync_path True True en old))"
proof (cases en)
  case None
  then show ?thesis using assms(1) by (cases old) (auto simp: sync_path_def good_at_def)
next
  case (Some e)
  then have "e \<in> E" "fx_path e = p" using assms(2) by auto
  then show ?thesis
    using assms(1) by (cases "fst old = Some (entry_sig e)") (auto simp: sync_path_def good_at_def records_def Some)
qed

lemma full_sync:
  assumes "walk_ok E walk" "set order = dom (fst ns)" "describes E ns"
  shows "case entry_at walk p of
      None \<Rightarrow> snd (sync_fs walk (\<lambda>p. True) (\<lambda>p. True) order ns) p = None
    | Some e \<Rightarrow> records E e (snd (sync_fs walk (\<lambda>p. True) (\<lambda>p. True) order ns) p)"
proof -
  have "at_path (sync_fs walk (\<lambda>p. True) (\<lambda>p. True) order ns) p =
    sync_path True True (entry_at walk p) (at_path ns p)"
    using assms(1,2) by (intro sync_at) (auto simp: walk_ok_def)
  from arg_cong [OF this, of snd]
  have eq: "snd (sync_fs walk (\<lambda>p. True) (\<lambda>p. True) order ns) p =
    snd (sync_path True True (entry_at walk p) (at_path ns p))" by simp
  have good: "good_at E p (at_path ns p)" using assms(3) by (simp add: describes_def at_path_def)
  show ?thesis unfolding eq
    by (rule sync_path_full [OF good]) (use assms(1) in \<open>auto simp: walk_ok_def dest: entry_atD\<close>)
qed

text \<open>What such a record says of the entry: all but its mode, which may be an earlier one.\<close>

lemma records_content:
  assumes "records E e r" "changes_show E" "e \<in> E" "entry_record e \<noteq> None" "\<forall>e \<in> E. entry_record e \<noteq> None"
  obtains rec where "r = Some rec" "pr_dir rec = fx_dir e" "pr_mtime rec = fx_mtime e"
    "\<And>b. \<lbrakk>\<not> fx_dir e; fx_data e = Inr b\<rbrakk> \<Longrightarrow> pr_data rec = b"
proof -
  obtain e' where e': "e' \<in> E" "fx_path e' = fx_path e" "entry_sig e' = entry_sig e" "r = entry_record e'"
    using assms(1) by (auto simp: records_def)
  then have sg: "fx_dir e' = fx_dir e" "fx_mtime e' = fx_mtime e" by (simp_all add: entry_sig_def)
  have same: "fx_dir e \<or> fx_data e' = fx_data e"
    using assms(2,3) e'(1,2,3) sg(1) unfolding changes_show_def by metis
  obtain rec where r: "entry_record e' = Some rec" using assms(5) e'(1) by auto
  then have "pr_dir rec = fx_dir e" "pr_mtime rec = fx_mtime e"
    "\<And>b. \<lbrakk>\<not> fx_dir e; fx_data e = Inr b\<rbrakk> \<Longrightarrow> pr_data rec = b"
    using sg same by (auto simp: entry_record_def Let_def split: if_splits sum.splits)
  with that e'(4) r show thesis by simp
qed

subsection \<open>Restoring is reading back\<close>

text \<open>Making a directory and setting a time change no file.\<close>

definition keeps_files :: "'f fs_view \<Rightarrow> 'f fs_ops \<Rightarrow> ('f \<Rightarrow> string \<Rightarrow> int \<Rightarrow> 'f) \<Rightarrow> bool" where
  "keeps_files V F chtimes =
     ((\<forall>fs d m fs'. fs_mkdir_all F fs d m = (fs', None) \<longrightarrow> only_at V F [] fs fs') \<and>
      (\<forall>fs p t. only_at V F [] fs (chtimes fs p t)))"

lemma load_count: "fst (fold (load_entry F ch) es (n, fs)) \<le> n + length es"
proof (induction es arbitrary: n fs)
  case (Cons pr es)
  obtain n1 fs1 where s: "load_entry F ch pr (n, fs) = (n1, fs1)" by fastforce
  then have "n1 \<le> n + 1" by (auto simp: load_entry_def Let_def split: prod.splits option.splits if_splits)
  with Cons.IH [of n1 fs1] show ?case by (simp add: s)
qed simp

lemma load_entry_all:
  assumes "fst (fold (load_entry F ch) (pr # es) (n, fs)) = n + length (pr # es)"
  obtains fs1 where "load_entry F ch pr (n, fs) = (n + 1, fs1)"
    "fst (fold (load_entry F ch) es (n + 1, fs1)) = n + 1 + length es"
proof -
  obtain n1 fs1 where s: "load_entry F ch pr (n, fs) = (n1, fs1)" by fastforce
  have "n1 \<le> n + 1"
    using s by (auto simp: load_entry_def Let_def split: prod.splits option.splits if_splits)
  moreover have "fst (fold (load_entry F ch) es (n1, fs1)) \<le> n1 + length es" by (rule load_count)
  ultimately have "n1 = n + 1" using assms by (simp add: s)
  with s assms that show thesis by simp
qed

lemma load_entry_holds:
  assumes "load_entry F ch (p, r) (n, fs) = (n + 1, fs1)" "fs_laws V F" "keeps_files V F ch" "fv_plain V fs p"
  shows "(\<not> pr_dir r \<longrightarrow> fs_text V F fs1 p (pr_data r)) \<and> only_at V F [p] fs fs1"
proof (cases "pr_dir r")
  case True
  then have "fs_mkdir_all F fs p (mode_perm (pr_mode r)) = (fs1, None)"
    using assms(1) by (auto simp: load_entry_def split: prod.splits option.splits)
  then have "only_at V F [] fs fs1" using assms(3) unfolding keeps_files_def by blast
  with True show ?thesis by (auto intro: only_at_mono)
next
  case False
  then obtain fs' where w: "fs_write F fs p (pr_data r) (mode_perm (pr_mode r)) = (fs', None)"
    "fs1 = ch fs' p (pr_mtime r)"
    using assms(1) by (auto simp: load_entry_def split: prod.splits option.splits)
  from fs_write_reads [OF assms(2,4) w(1)]
  have 1: "fs_text V F fs' p (pr_data r)" "only_at V F [p] fs fs'" by simp_all
  have 2: "only_at V F [] fs' fs1" using assms(3) unfolding keeps_files_def w(2) by blast
  have "fs_text V F fs1 p (pr_data r)"
    by (rule only_at_text [OF 2 only_at_plain [OF 1(2) assms(4)] _ 1(1)]) simp
  with only_at_trans [OF 1(2) 2] show ?thesis by simp
qed

text \<open>Restoring entries of different files, each one plain, one after the other.\<close>

lemma load_holds:
  assumes "fs_laws V F" "keeps_files V F ch"
    "fst (fold (load_entry F ch) es (n, fs)) = n + length es"
    "distinct (map (fv_node V fs \<circ> fst) es)" "\<forall>(p, r) \<in> set es. fv_plain V fs p"
  shows "(\<forall>(p, r) \<in> set es. \<not> pr_dir r \<longrightarrow> fs_text V F (snd (fold (load_entry F ch) es (n, fs))) p (pr_data r)) \<and>
    only_at V F (map fst es) fs (snd (fold (load_entry F ch) es (n, fs)))"
  using assms(3-5)
proof (induction es arbitrary: n fs)
  case (Cons pr es)
  obtain p r where pr: "pr = (p, r)" by fastforce
  obtain fs1 where l: "load_entry F ch pr (n, fs) = (n + 1, fs1)"
    "fst (fold (load_entry F ch) es (n + 1, fs1)) = n + 1 + length es"
    using load_entry_all [OF Cons.prems(1)] by blast
  let ?fin = "snd (fold (load_entry F ch) es (n + 1, fs1))"
  have p: "fv_plain V fs p" using Cons.prems(3) by (simp add: pr)
  from load_entry_holds [OF l(1) [unfolded pr] assms(1,2) p]
  have h: "\<not> pr_dir r \<Longrightarrow> fs_text V F fs1 p (pr_data r)" "only_at V F [p] fs fs1" by simp_all
  have "distinct (map (fv_node V fs1 \<circ> fst) es)" "\<forall>(q, r) \<in> set es. fv_plain V fs1 q"
    using Cons.prems(2,3) only_at_plain [OF h(2)] by (auto simp: only_at_node [OF h(2)] comp_def)
  from Cons.IH [OF l(2) this]
  have rest: "\<forall>(q, r) \<in> set es. \<not> pr_dir r \<longrightarrow> fs_text V F ?fin q (pr_data r)"
    "only_at V F (map fst es) fs1 ?fin" by simp_all
  have "fs_text V F ?fin p (pr_data r)" if "\<not> pr_dir r"
  proof (rule only_at_text [OF rest(2) only_at_plain [OF h(2) p] _ h(1) [OF that]])
    show "fv_node V fs1 p \<notin> fv_node V fs1 ` set (map fst es)"
      using Cons.prems(2) by (auto simp: pr only_at_node [OF h(2)] comp_def)
  qed
  with rest(1) only_at_trans [OF h(2) rest(2)] show ?case by (simp add: pr l(1) [unfolded pr])
qed simp

text \<open>What the store holds after a sync in which nothing fails.\<close>

lemma last_sync_stores:
  assumes "changes_show E" "\<forall>e \<in> E. entry_record e \<noteq> None"
    "syncs_ok E (xs @ [(walk, \<lambda>p. True, \<lambda>p. True, order)]) (Map.empty, Map.empty)"
    "ns = sync_all (xs @ [(walk, \<lambda>p. True, \<lambda>p. True, order)]) (Map.empty, Map.empty)"
  shows "dom (snd ns) = fx_path ` set (kept_entries walk)"
    and "e \<in> set (kept_entries walk) \<Longrightarrow> \<exists>r. snd ns (fx_path e) = Some r \<and> pr_dir r = fx_dir e \<and>
      pr_mtime r = fx_mtime e \<and> (\<forall>b. \<not> fx_dir e \<and> fx_data e = Inr b \<longrightarrow> pr_data r = b)"
proof -
  define mid where "mid = sync_all xs (Map.empty, Map.empty)"
  have split: "syncs_ok E xs ns0 \<and> walk_ok E walk \<and> set order = dom (fst (sync_all xs ns0))"
    if "syncs_ok E (xs @ [(walk, \<lambda>p. True, \<lambda>p. True, order)]) ns0" for ns0
    using that by (induction E xs ns0 rule: syncs_ok.induct) (auto simp: sync_all_def)
  have w: "syncs_ok E xs (Map.empty, Map.empty)" "walk_ok E walk" "set order = dom (fst mid)"
    using split [OF assms(3)] by (auto simp: mid_def)
  have ns: "ns = sync_fs walk (\<lambda>p. True) (\<lambda>p. True) order mid" by (simp add: assms(4) mid_def sync_all_def)
  have mid: "describes E mid" using syncs_describe [OF w(1) nothing_describes] by (simp add: mid_def)
  note st = full_sync [OF w(2,3) mid, folded ns]
  have k: "\<exists>r. snd ns (fx_path e) = Some r \<and> pr_dir r = fx_dir e \<and> pr_mtime r = fx_mtime e \<and>
      (\<forall>b. \<not> fx_dir e \<and> fx_data e = Inr b \<longrightarrow> pr_data r = b)" if e: "e \<in> set (kept_entries walk)" for e
  proof -
    have "records E e (snd ns (fx_path e))"
      using st [of "fx_path e"] w(2) entry_at_kept [of walk e] e by (simp add: walk_ok_def)
    moreover have "e \<in> E" "entry_record e \<noteq> None" using w(2) e by (auto simp: walk_ok_def)
    ultimately show ?thesis using assms(1,2) by (elim records_content) blast+
  qed
  show "dom (snd ns) = fx_path ` set (kept_entries walk)"
  proof
    show "dom (snd ns) \<subseteq> fx_path ` set (kept_entries walk)"
    proof
      fix p assume "p \<in> dom (snd ns)"
      then show "p \<in> fx_path ` set (kept_entries walk)"
        using st [of p] by (auto split: option.splits dest: entry_atD)
    qed
    show "fx_path ` set (kept_entries walk) \<subseteq> dom (snd ns)" using k by blast
  qed
  show "\<exists>r. snd ns (fx_path e) = Some r \<and> pr_dir r = fx_dir e \<and> pr_mtime r = fx_mtime e \<and>
      (\<forall>b. \<not> fx_dir e \<and> fx_data e = Inr b \<longrightarrow> pr_data r = b)" if "e \<in> set (kept_entries walk)"
    using that by (rule k)
qed

text \<open>What a page reads that restores every entry of a store.\<close>

lemma load_all_reads:
  assumes "fs_laws V F" "keeps_files V F chtimes" "distinct (map fst es)" "map_of es = st"
    "inj_on (fv_node V fs0) (dom st)" "\<forall>p \<in> dom st. fv_plain V fs0 p"
    "load_all F chtimes es fs0 = (length es, fs)"
    "st p = Some r" "\<not> pr_dir r"
  shows "fs_text V F fs p (pr_data r)"
proof -
  have es: "fst ` set es = dom st" using assms(4) dom_map_of_conv_image_fst [of es] by simp
  have "inj_on (fv_node V fs0) (fst ` set es)" using assms(5) es by simp
  then have dist: "distinct (map (fv_node V fs0 \<circ> fst) es)"
    using assms(3) by (simp add: distinct_map comp_inj_on)
  have plain: "\<forall>(p, r) \<in> set es. fv_plain V fs0 p" using assms(6) es by force
  have load: "fst (fold (load_entry F chtimes) es (0, fs0)) = 0 + length es"
    "snd (fold (load_entry F chtimes) es (0, fs0)) = fs"
    using assms(7) by (simp_all add: load_all_def)
  note rd = load_holds [OF assms(1,2) load(1) dist plain, unfolded load(2), THEN conjunct1]
  have "(p, r) \<in> set es" using assms(8,4) map_of_SomeD [of es p r] by simp
  with rd assms(9) show ?thesis by blast
qed

text \<open>
  C10. Files survive a reload. From an empty store on, whatever writes and removals failed in the
  syncs so far: after one in which none fails the store holds exactly the files and directories
  there are, each with its time and its content (its mode may be one it had before). And a page
  that restores every entry of it, in any order and with none failing, has each file, and whoever
  may read it reads what was in it. Relied on: a change of content shows in a file's size or
  time, every file can be read by the syncs, the paths restored are of different files, and the
  file system keeps what is written to it.
\<close>

theorem files_survive_reload:
  assumes "changes_show E" "\<forall>e \<in> E. entry_record e \<noteq> None"
    "syncs_ok E (xs @ [(walk, \<lambda>p. True, \<lambda>p. True, order)]) (Map.empty, Map.empty)"
    "ns = sync_all (xs @ [(walk, \<lambda>p. True, \<lambda>p. True, order)]) (Map.empty, Map.empty)"
    "fs_laws V F" "keeps_files V F chtimes" "distinct (map fst es)" "map_of es = snd ns"
    "inj_on (fv_node V fs0) (dom (snd ns))" "\<forall>p \<in> dom (snd ns). fv_plain V fs0 p"
    "load_all F chtimes es fs0 = (length es, fs)"
  shows "dom (snd ns) = fx_path ` set (kept_entries walk) \<and>
    (\<forall>e \<in> set (kept_entries walk). \<exists>r. snd ns (fx_path e) = Some r \<and>
       pr_dir r = fx_dir e \<and> pr_mtime r = fx_mtime e \<and>
       (\<forall>b. \<not> fx_dir e \<and> fx_data e = Inr b \<longrightarrow> pr_data r = b \<and> fs_text V F fs (fx_path e) b))"
proof -
  note st = last_sync_stores [OF assms(1-4)]
  note rd = load_all_reads [OF assms(5-11)]
  show ?thesis using st rd by metis
qed

definition demo_entry :: "string \<Rightarrow> string \<Rightarrow> int \<Rightarrow> fs_entry" where
  "demo_entry p b t = \<lparr>fx_path = p, fx_err = False, fx_dir = False, fx_size = int (length b), fx_mtime = t,
     fx_mode = 420, fx_data = Inr b\<rparr>"

text \<open>A write that fails, then a sync of a changed file beside it, and a reload.\<close>

theorem files_survive_reload_witness:
  "\<exists>ns es fs. map_of es = snd ns \<and> load_all mem_ops (\<lambda>fs p t. fs) es [] = (length es, fs) \<and>
    ns = sync_all [([demo_entry ''/a'' ''one'' 1, demo_entry ''/b'' ''x'' 1], \<lambda>p. p \<noteq> ''/b'', \<lambda>p. True, []),
      ([demo_entry ''/a'' ''two'' 2, demo_entry ''/b'' ''x'' 1], \<lambda>p. True, \<lambda>p. True, [''/a''])] (Map.empty, Map.empty) \<and>
    fs_text mem_view mem_ops fs ''/a'' ''two'' \<and>
    fs_read mem_ops fs ''/a'' = Inr ''two'' \<and> fs_read mem_ops fs ''/b'' = Inr ''x''"
proof -
  define xs where "xs = [([demo_entry ''/a'' ''one'' 1, demo_entry ''/b'' ''x'' 1], \<lambda>p. p \<noteq> ''/b'', \<lambda>p::string. True, []::string list)]"
  define walk where "walk = [demo_entry ''/a'' ''two'' 2, demo_entry ''/b'' ''x'' 1]"
  define E where "E = {demo_entry ''/a'' ''one'' 1, demo_entry ''/b'' ''x'' 1, demo_entry ''/a'' ''two'' 2}"
  define ns where "ns = sync_all (xs @ [(walk, \<lambda>p. True, \<lambda>p. True, [''/a''])]) (Map.empty, Map.empty)"
  define es where "es = [(''/a'', the (entry_record (demo_entry ''/a'' ''two'' 2))), (''/b'', the (entry_record (demo_entry ''/b'' ''x'' 1)))]"
  have E: "changes_show E" "\<forall>e \<in> E. entry_record e \<noteq> None"
    by (auto simp: changes_show_def E_def demo_entry_def entry_sig_def entry_record_def)
  have ok: "syncs_ok E (xs @ [(walk, \<lambda>p. True, \<lambda>p. True, [''/a''])]) (Map.empty, Map.empty)"
    by (auto simp: xs_def walk_def E_def walk_ok_def kept_entries_def demo_entry_def entry_record_def
        sync_fs_def sync_entry_def entry_sig_def Let_def split: if_splits)
  have es: "map_of es = snd ns"
    by (auto simp: es_def ns_def xs_def walk_def sync_all_def demo_entry_def entry_record_def
        sync_fs_def sync_entry_def entry_sig_def drop_gone_def fun_eq_iff Let_def)
  have mk: "fs_mkdir_all mem_ops fs d m = (if map_of fs d = None then mem_put d None fs else fs, None)" for fs d m
    by (simp add: mem_ops_def)
  have F: "keeps_files mem_view mem_ops (\<lambda>fs p t. fs)"
    unfolding keeps_files_def by (auto simp: mk map_of_mem_put intro!: mem_only_at split: if_splits)
  define fs where "fs = snd (load_all mem_ops (\<lambda>fs p t. fs) es [])"
  have l: "load_all mem_ops (\<lambda>fs p t. fs) es [] = (length es, fs)"
    by (simp add: fs_def load_all_def load_entry_def es_def demo_entry_def entry_record_def fs_write_def
        mem_ops_def mem_put_def)
  have rd: "fs_read mem_ops fs ''/a'' = Inr ''two''" "fs_read mem_ops fs ''/b'' = Inr ''x''"
    unfolding fs_def es_def demo_entry_def by code_simp+
  have "distinct (map fst es)" by (simp add: es_def)
  from files_survive_reload [OF E(1,2) ok ns_def mem_ops_laws F this es _ _ l]
  have "fs_text mem_view mem_ops fs ''/a'' ''two''"
    by (auto simp: walk_def kept_entries_def demo_entry_def inj_on_def)
  with es l ns_def rd show ?thesis unfolding xs_def walk_def by (metis append.simps(1,2))
qed

subsection \<open>What is lost all the same\<close>

text \<open>
  A file whose write fails leaves the snapshot, and what has left it is removed from the store:
  with the write failed and the removal not, the version stored before is gone too.
\<close>

lemma failed_write_loses_stored:
  assumes "walk_ok E walk" "set order = dom (fst ns)" "e \<in> set (kept_entries walk)"
    "fst ns (fx_path e) = Some s" "s \<noteq> entry_sig e" "\<not> put_ok (fx_path e)" "del_ok (fx_path e)"
  shows "snd (sync_fs walk put_ok del_ok order ns) (fx_path e) = None"
proof -
  have "at_path (sync_fs walk put_ok del_ok order ns) (fx_path e) =
    sync_path (put_ok (fx_path e)) (del_ok (fx_path e)) (entry_at walk (fx_path e)) (at_path ns (fx_path e))"
    using assms(1,2) by (intro sync_at) (auto simp: walk_ok_def)
  then show ?thesis
    using assms entry_at_kept [of walk e] by (simp add: sync_path_def walk_ok_def)
qed

text \<open>A file that cannot be read is noted as stored with what it is now, which it is not.\<close>

lemma unread_file_noted:
  assumes "\<not> fx_err e" "fx_path e \<noteq> ''/''" "entry_record e = None"
  shows "fst (sync_fs [e] put_ok del_ok [] (Map.empty, st)) (fx_path e) = Some (entry_sig e) \<and>
    snd (sync_fs [e] put_ok del_ok [] (Map.empty, st)) = st"
  using assms by (simp add: sync_fs_def sync_entry_def Let_def)

text \<open>A changed mode alone is no change: the old one is restored.\<close>

lemma mode_not_stored:
  assumes "prev (fx_path e) = Some (entry_sig e)"
  shows "sync_entry put_ok prev (e\<lparr>fx_mode := m\<rparr>) (nxt, st) = sync_entry put_ok prev e (nxt, st)"
  using assms by (simp add: sync_entry_def entry_sig_def Let_def)

end
