(* ===== verification/File_Drop.thy ===== *)
theory File_Drop
  imports Remote_Args Mem_Files
begin

text \<open>
  Files dropped on the terminal, \<^verbatim>\<open>src/web/drop.go\<close>: where one is saved and under which name, and
  who is told. The browser's events and its own file system are left out. The lemmas: a drop never
  touches a file that was there, for whatever names are taken the loop finds a free one; and the
  path typed for it is read by the shell as the one word it is.
\<close>

subsection \<open>Names\<close>

definition drop_limit :: int where
  "drop_limit = 64 * 2 ^ 20"

definition clean_rune :: "rune \<Rightarrow> rune" where
  "clean_rune r = (if r < 32 \<or> r = 47 \<or> r = 92 then 95 else r)"

definition clean_name :: "string \<Rightarrow> string" where
  "clean_name n =
     (let m = string_of_runes (map clean_rune (runes n)) in
      if m = [] \<or> m = ''.'' \<or> m = ''..'' then ''dropped'' else m)"

text \<open>\<^verbatim>\<open>path.Ext\<close>: from the last dot of the last element on.\<close>

definition path_ext :: "string \<Rightarrow> string" where
  "path_ext p =
     (let e = snd (path_split p) in case last_index_byte e (CHR ''.'') of None \<Rightarrow> [] | Some i \<Rightarrow> drop i e)"

definition numbered :: "string \<Rightarrow> string \<Rightarrow> nat \<Rightarrow> string" where
  "numbered base ext i = base @ ''-'' @ itoa (int i) @ ext"

text \<open>\<^verbatim>\<open>uniquePath\<close>: \<open>None\<close> is a loop that does not end, every name being taken.\<close>

partial_function (option) unique_from ::
  "'f fs_ops \<Rightarrow> 'f \<Rightarrow> string \<Rightarrow> string \<Rightarrow> string \<Rightarrow> nat \<Rightarrow> string \<Rightarrow> string option"
where
  "unique_from F fs dir base ext i p =
     (if isl (fs_stat F fs p) then Some p
      else unique_from F fs dir base ext (i + 1) (path_join [dir, numbered base ext i]))"

declare unique_from.simps [code]

definition unique_path :: "'f fs_ops \<Rightarrow> 'f \<Rightarrow> string \<Rightarrow> string \<Rightarrow> string option" where
  "unique_path F fs dir name =
     (let ext = path_ext name in
      unique_from F fs dir (take (length name - length ext) name) ext 1 (path_join [dir, name]))"

definition drop_safe :: string where
  "drop_safe = ''abcdefghijklmnopqrstuvwxyzABCDEFGHIJKLMNOPQRSTUVWXYZ0123456789/._-+,:@''"

text \<open>\<^verbatim>\<open>shellQuote\<close>: a byte of a rune outside ASCII is not one of the safe ones, nor is the rune.\<close>

definition drop_quote :: "string \<Rightarrow> string" where
  "drop_quote p =
     (if list_all (\<lambda>c. c \<in> set drop_safe) p then p
      else [CHR 0x27] @ replace_byte p (CHR 0x27) [CHR 0x27, CHR 0x5C, CHR 0x27, CHR 0x27] @ [CHR 0x27])"

subsection \<open>A drop\<close>

datatype dropped =
    Not_Saved string string
  | Drop_Event string string nat string \<comment> \<open>path, name, size and type\<close>
  | Drop_To_Program string
  | Drop_At_Prompt string

definition write_all :: "'f fs_ops \<Rightarrow> 'f \<Rightarrow> string \<Rightarrow> string \<Rightarrow> 'f \<times> gerr option" where
  "write_all F fs p b =
     (case fs_create F fs p of
        (fs1, Some e) \<Rightarrow> (fs1, Some e)
      | (fs1, None) \<Rightarrow>
         (let (fs2, e2) = fs_append F fs1 p b; (fs3, e3) = fs_close F fs2 p in
          (fs3, if e2 \<noteq> None then e2 else e3)))"

definition drop_dir :: "string option \<Rightarrow> string" where
  "drop_dir home =
     path_join [case home of Some h \<Rightarrow> if h = [] then ''/home/user'' else h | None \<Rightarrow> ''/home/user'', ''Downloads'']"

text \<open>\<^verbatim>\<open>dropped\<close>: \<open>running\<close> and \<open>listens\<close> are the session's.\<close>

definition drop_save ::
  "'f fs_ops \<Rightarrow> string option \<Rightarrow> bool \<Rightarrow> bool \<Rightarrow> string \<Rightarrow> string \<Rightarrow> string \<Rightarrow> 'f \<Rightarrow> ('f \<times> dropped) option"
where
  "drop_save F home running listens name mime b fs =
     (let dir = drop_dir home in
      case unique_path F fs dir name of
        None \<Rightarrow> None
      | Some p \<Rightarrow>
         Some (case fs_mkdir_all F fs dir 493 of
             (fs1, Some e) \<Rightarrow> (fs1, Not_Saved name e)
           | (fs1, None) \<Rightarrow>
              (case write_all F fs1 p b of
                 (fs2, Some e) \<Rightarrow> (fs2, Not_Saved name e)
               | (fs2, None) \<Rightarrow>
                  (fs2, if running \<and> listens then Drop_Event p name (length b) mime
                        else if running then Drop_To_Program (drop_quote p @ '' '')
                        else Drop_At_Prompt (drop_quote p @ '' '')))))"

definition drop_file ::
  "'f fs_ops \<Rightarrow> string option \<Rightarrow> bool \<Rightarrow> bool \<Rightarrow> string \<Rightarrow> string \<Rightarrow> int \<Rightarrow> string \<Rightarrow> 'f \<Rightarrow> ('f \<times> dropped) option"
where
  "drop_file F home running listens fname mime bytes b fs =
     (let name = clean_name fname in
      if drop_limit < bytes then Some (fs, Not_Saved name (''it is larger than '' @ itoa (drop_limit div 2 ^ 20) @ '' MB''))
      else drop_save F home running listens name mime b fs)"

subsection \<open>A free name\<close>

lemma unique_from_free: "unique_from F fs dir base ext i p = Some q \<Longrightarrow> isl (fs_stat F fs q)"
  by (rule unique_from.raw_induct [of "\<lambda>F fs dir base ext i p q. isl (fs_stat F fs q)"]) (auto split: if_splits)

lemma unique_path_free: "unique_path F fs dir name = Some q \<Longrightarrow> isl (fs_stat F fs q)"
  using unique_from_free by (fastforce simp: unique_path_def Let_def)

text \<open>The paths the loop tries are all different: a joined path ends with its name.\<close>

lemma split_byte_snoc: "c \<notin> set n \<Longrightarrow> split_byte (d @ c # n) c = split_byte d c @ [n]"
  by (induction d) (auto simp: split_byte_no_sep split: list.split)

lemma clean_elems_snoc:
  "proper_elem n \<Longrightarrow> clean_elems r st (es @ [n]) = n # clean_elems r st es"
  by (induction r st es rule: clean_elems.induct) (auto simp: proper_elem_def split: list.splits)

lemma path_join_name:
  assumes "is_abs d" "proper_elem n"
  shows "path_join [d, n] = slash # join_with (rev (clean_elems True [] (split_byte d slash)) @ [n]) [slash]"
proof -
  have "d \<noteq> []" "n \<noteq> []" "slash \<notin> set n" using assms by (auto simp: proper_elem_def)
  then show ?thesis
    using assms clean_elems_snoc [OF assms(2), of True "[]"]
    by (cases d) (simp_all add: path_join_def path_clean_def split_byte_snoc [of slash n "slash # _", simplified])
qed

lemma join_with_snoc_eq: "join_with (es @ [m]) sep = join_with (es @ [n]) sep \<Longrightarrow> m = n"
proof (induction es)
  case (Cons e es)
  then show ?case by (cases es) auto
qed simp

lemma path_join_inj:
  "\<lbrakk>is_abs d; proper_elem m; proper_elem n; path_join [d, m] = path_join [d, n]\<rbrakk> \<Longrightarrow> m = n"
  by (auto simp: path_join_name dest: join_with_snoc_eq)

lemma itoa_inj: "itoa (int i) = itoa (int j) \<Longrightarrow> i = j"
  by (metis digits_val_itoa_nat itoa_def nat_int of_nat_eq_iff of_nat_less_0_iff)

lemma numbered_proper:
  assumes "slash \<notin> set base" "slash \<notin> set ext"
  shows "proper_elem (numbered base ext i)"
proof -
  have d: "list_all is_digit (itoa (int i))" "itoa (int i) \<noteq> []"
    using itoa_nat_digits [of i] by (simp_all add: itoa_def)
  have "slash \<notin> set (itoa (int i))"
    using d(1) by (auto simp: list_all_iff slash_def is_digit_def)
  moreover have "CHR ''-'' \<in> set (numbered base ext i)" by (simp add: numbered_def)
  then have "numbered base ext i \<noteq> ''.''" "numbered base ext i \<noteq> ''..''" by auto
  ultimately show ?thesis using assms by (auto simp: proper_elem_def numbered_def slash_def)
qed

lemma numbered_inj: "numbered base ext i = numbered base ext j \<Longrightarrow> i = j"
  by (auto simp: numbered_def dest: itoa_inj)

lemma unique_from_None:
  "unique_from F fs dir base ext i p = None \<Longrightarrow>
   \<not> isl (fs_stat F fs p) \<and> unique_from F fs dir base ext (i + 1) (path_join [dir, numbered base ext i]) = None"
  by (subst (asm) unique_from.simps) (simp split: if_splits)

lemma unique_from_later:
  assumes "unique_from F fs dir base ext i p = None"
  shows "\<not> isl (fs_stat F fs (path_join [dir, numbered base ext (i + n)])) \<and>
    unique_from F fs dir base ext (i + n + 1) (path_join [dir, numbered base ext (i + n)]) = None"
proof (induction n)
  case 0
  have "unique_from F fs dir base ext (i + 1) (path_join [dir, numbered base ext i]) = None"
    using unique_from_None [OF assms] by blast
  with unique_from_None [OF this] show ?case by simp
next
  case (Suc n)
  then have "unique_from F fs dir base ext (i + n + 1 + 1) (path_join [dir, numbered base ext (i + n + 1)]) = None"
    by (metis unique_from_None)
  with unique_from_None [OF this] show ?case by simp
qed

text \<open>As only finitely many paths are taken, the loop ends.\<close>

lemma unique_path_ends:
  assumes "finite {p. \<not> isl (fs_stat F fs p)}" "is_abs dir" "slash \<notin> set name"
  shows "unique_path F fs dir name \<noteq> None"
proof
  define ext base where "ext = path_ext name" and "base = take (length name - length ext) name"
  have e: "slash \<notin> set base" "slash \<notin> set ext"
  proof -
    have "set (path_ext name) \<subseteq> set name"
      by (auto simp: path_ext_def path_split_def Let_def split: option.splits dest!: in_set_dropD)
    then show "slash \<notin> set base" "slash \<notin> set ext"
      using assms(3) by (auto simp: base_def ext_def dest: in_set_takeD)
  qed
  let ?f = "\<lambda>n. path_join [dir, numbered base ext (1 + n)]"
  assume "unique_path F fs dir name = None"
  then have "unique_from F fs dir base ext 1 (path_join [dir, name]) = None"
    by (simp add: unique_path_def base_def ext_def Let_def)
  from unique_from_later [OF this] have "range ?f \<subseteq> {p. \<not> isl (fs_stat F fs p)}" by auto
  with assms(1) have "finite (range ?f)" by (rule rev_finite_subset)
  moreover have "inj ?f"
    by (rule injI) (auto dest!: path_join_inj [OF assms(2) numbered_proper [OF e] numbered_proper [OF e]] numbered_inj)
  ultimately show False using finite_imageD [of ?f UNIV] by (simp add: infinite_UNIV_nat)
qed

text \<open>A name that has been cleaned is one element of a path.\<close>

lemma clean_name_proper: "proper_elem (clean_name n)"
proof -
  have enc: "slash \<notin> set (encode_rune (clean_rune r))" for r
  proof (cases "clean_rune r < 128")
    case True
    then have "encode_rune (clean_rune r) = [chr_of (clean_rune r)]" by (rule encode_rune_ascii)
    moreover have "byte_of (chr_of (clean_rune r)) = clean_rune r" using True by simp
    moreover have "clean_rune r \<noteq> byte_of slash" by (auto simp: clean_rune_def slash_def)
    ultimately show ?thesis by auto
  next
    case False
    then show ?thesis using encode_rune_high [of "clean_rune r" slash] by (auto simp: slash_def)
  qed
  have "slash \<notin> set (string_of_runes (map clean_rune rs))" for rs
    using enc by (induction rs) auto
  then show ?thesis by (auto simp: clean_name_def proper_elem_def Let_def slash_def)
qed

subsection \<open>The path as a word\<close>

lemma drop_quote_word: "p \<noteq> [] \<Longrightarrow> reads_as (drop_quote p) p"
proof (cases "list_all (\<lambda>c. c \<in> set drop_safe) p")
  case True
  have "set drop_safe \<subseteq> set safe_chars" by code_simp
  with True safe_chars_plain have "\<forall>c \<in> set p. \<not> sh_special c" by (auto simp: list_all_iff)
  moreover assume "p \<noteq> []"
  ultimately show ?thesis using True by (simp add: drop_quote_def reads_as_plain)
next
  case False
  then show ?thesis
    using sh_quoted_text [of "[]" p] by (auto simp: drop_quote_def reads_as_def)
qed

subsection \<open>Nothing is overwritten\<close>

text \<open>
  Creating a file empties it and touches no other; making directories changes no file. A file
  that opens is one that is there.
\<close>

definition drop_laws :: "'f fs_view \<Rightarrow> 'f fs_ops \<Rightarrow> bool" where
  "drop_laws V F =
     ((\<forall>fs p fs'. fv_plain V fs p \<and> fs_create F fs p = (fs', None) \<longrightarrow>
         fs_text V F fs' p [] \<and> only_at V F [p] fs fs') \<and>
      (\<forall>fs d m fs'. fs_mkdir_all F fs d m = (fs', None) \<longrightarrow> only_at V F [] fs fs') \<and>
      (\<forall>fs p q. fv_node V fs p = fv_node V fs q \<and> isl (fs_stat F fs p) \<longrightarrow> isl (fs_open F fs q)))"

lemma write_all_holds:
  assumes "fs_laws V F" "drop_laws V F" "fv_plain V fs p" "write_all F fs p b = (fs', None)"
  shows "fs_text V F fs' p b \<and> only_at V F [p] fs fs'"
proof -
  obtain fs1 where c: "fs_create F fs p = (fs1, None)"
    using assms(4) by (auto simp: write_all_def split: prod.splits option.splits)
  obtain fs2 e2 where a: "fs_append F fs1 p b = (fs2, e2)" by fastforce
  obtain fs3 e3 where l: "fs_close F fs2 p = (fs3, e3)" by fastforce
  have e: "e2 = None" "fs' = fs3"
    using assms(4) by (auto simp: write_all_def c a l split: if_splits)
  have "fs_text V F fs1 p []" "only_at V F [p] fs fs1"
    using assms(2,3) c unfolding drop_laws_def by blast+
  from append_close_reads [OF assms(1,3) this a [unfolded e(1)] l] show ?thesis by (simp add: e(2))
qed

text \<open>
  A file that could be read before a drop reads as it did; the dropped one is where nothing was,
  and whoever may read it reads what was dropped.
\<close>

lemma drop_never_overwrites:
  assumes "fs_laws V F" "drop_laws V F" "\<And>fs p. fv_plain V fs p"
    "drop_save F home running listens name mime b fs = Some (fs', r)" "\<And>n m. r \<noteq> Not_Saved n m"
  shows "\<exists>p. isl (fs_stat F fs p) \<and> fs_text V F fs' p b \<and>
    (\<forall>q x. fs_holds F fs q x \<longrightarrow> fs_holds F fs' q x)"
proof -
  obtain p where p: "unique_path F fs (drop_dir home) name = Some p"
    using assms(4) by (auto simp: drop_save_def Let_def split: option.splits)
  obtain fs1 e1 where m: "fs_mkdir_all F fs (drop_dir home) 493 = (fs1, e1)" by fastforce
  obtain fs2 e2 where w: "write_all F fs1 p b = (fs2, e2)" by fastforce
  have "e1 = None" "e2 = None" "fs2 = fs'"
    using assms(4,5) by (auto simp: drop_save_def p m w Let_def split: option.splits)
  note m = m [unfolded this] and w = w [unfolded this]
  have free: "isl (fs_stat F fs p)" by (rule unique_path_free [OF p])
  have h: "fs_text V F fs' p b" "only_at V F [p] fs1 fs'"
    using write_all_holds [OF assms(1,2,3) w] by simp_all
  have m1: "only_at V F [] fs fs1" using assms(2) m unfolding drop_laws_def by blast
  have "fs_holds F fs' q x" if hq: "fs_holds F fs q x" for q x
  proof (rule only_at_holds [OF h(2) assms(3)])
    have "\<not> isl (fs_open F fs q)" using hq by (simp add: fs_holds_def)
    then have "fv_node V fs q \<noteq> fv_node V fs p"
      using free assms(2) unfolding drop_laws_def by metis
    then show "fv_node V fs1 q \<notin> fv_node V fs1 ` set [p]" by (simp add: only_at_node [OF m1])
    show "fs_holds F fs1 q x" by (rule only_at_holds [OF m1 assms(3) _ hq]) simp
  qed
  with free h(1) show ?thesis by blast
qed

text \<open>
  A control character above the others is left in a name, and typed with it: the line editor takes
  the delete character for a Backspace.
\<close>

lemma clean_name_keeps_delete: "clean_name [CHR ''a'', CHR 0x7F] = [CHR ''a'', CHR 0x7F]"
  by code_simp

end
