(* ===== verification/Page_Notify.thy ===== *)
theory Page_Notify
  imports Base64 Utf8
begin

text \<open>
  Notifications (\<^verbatim>\<open>src/web/notify.go\<close>) and the key bar of a touch screen (\<^verbatim>\<open>src/web/keybar.go\<close>):
  what the three notification sequences make of their text, when a note is shown, and what a
  latched Ctrl or Alt makes of a typed key. The page's elements are left out; the kitty encoder of
  the terminal is a parameter. The lemmas: a notification in chunks is the notification whole,
  remote output is not shown more often than the gap allows, and a key latched once is let go of
  by the next key and no other.
\<close>

subsection \<open>Notifications\<close>

definition notify_max :: nat where
  "notify_max = 500"

text \<open>In nanoseconds.\<close>

definition notify_gap :: int where
  "notify_gap = 3000000000"

text \<open>\<open>nt_last\<close> is when a note was shown last, \<open>nt_chunks\<close> the title and body of those still arriving.\<close>

record notify_state =
  nt_last :: "int option"
  nt_chunks :: "string \<Rightarrow> (string \<times> string) option"

definition no_notes :: notify_state where
  "no_notes = \<lparr>nt_last = None, nt_chunks = (\<lambda>i. None)\<rparr>"

datatype page_note = Note_Browser string string | Note_Toast string string

text \<open>The page: whether the output is remote, the time, and whether the browser shows notes.\<close>

record notify_page =
  np_remote :: bool
  np_now :: int
  np_native :: bool

definition clip :: "string \<Rightarrow> string" where
  "clip s =
     (let t = string_of_runes (filter (\<lambda>r. \<not> (r < 32 \<and> r \<noteq> 10)) (runes s)) in
      if notify_max < length t then take notify_max t @ [CHR 0xE2, CHR 0x80, CHR 0xA6] else t)"

definition notify :: "notify_page \<Rightarrow> string \<Rightarrow> string \<Rightarrow> notify_state \<Rightarrow> notify_state \<times> page_note option" where
  "notify P title0 body0 s =
     (let title = clip title0; body = clip body0 in
      if title = [] \<and> body = [] then (s, None)
      else if np_remote P \<and> (case nt_last s of Some t \<Rightarrow> np_now P - t < notify_gap | None \<Rightarrow> False) then (s, None)
      else (s\<lparr>nt_last := Some (np_now P)\<rparr>,
        Some (if np_native P then (if title = [] then Note_Browser body [] else Note_Browser title body)
              else Note_Toast title body)))"

definition osc9 :: "notify_page \<Rightarrow> string \<Rightarrow> notify_state \<Rightarrow> notify_state \<times> page_note option" where
  "osc9 P data s =
     (case index_byte data (CHR '';'') of
        Some i \<Rightarrow> if 0 < i \<and> list_all is_digit (take i data) then (s, None) else notify P [] data s
      | None \<Rightarrow> notify P [] data s)"

definition osc777 :: "notify_page \<Rightarrow> string \<Rightarrow> notify_state \<Rightarrow> notify_state \<times> page_note option" where
  "osc777 P data s =
     (let (cmd, rest, _) = cut_byte data (CHR '';'') in
      if cmd \<noteq> ''notify'' then (s, None)
      else (let (title, body, _) = cut_byte rest (CHR '';'') in notify P title body s))"

definition note_keys :: "string \<Rightarrow> string \<Rightarrow> string" where
  "note_keys meta =
     fold (\<lambda>f m. case cut_byte f (CHR ''='') of (k, v, True) \<Rightarrow> m(k := v) | _ \<Rightarrow> m)
       (split_byte meta (CHR '':'')) ((\<lambda>k. [])(''d'' := ''1'', ''p'' := ''title''))"

definition osc99 :: "notify_page \<Rightarrow> string \<Rightarrow> notify_state \<Rightarrow> notify_state \<times> page_note option" where
  "osc99 P data s =
     (let (meta, payload0, _) = cut_byte data (CHR '';''); kv = note_keys meta in
      case (if kv ''e'' = ''1'' then b64_decode payload0 else Some payload0) of
        None \<Rightarrow> (s, None)
      | Some payload \<Rightarrow>
         (let i = kv ''i''; (t, b) = (case nt_chunks s i of Some n \<Rightarrow> n | None \<Rightarrow> ([], []));
              n = (if kv ''p'' = ''title'' then (t @ payload, b)
                   else if kv ''p'' = ''body'' then (t, b @ payload) else (t, b));
              s1 = s\<lparr>nt_chunks := (nt_chunks s)(i \<mapsto> n)\<rparr> in
          if kv ''p'' \<noteq> ''title'' \<and> kv ''p'' \<noteq> ''body'' then (s1, None)
          else if kv ''d'' = ''0'' then (s1, None)
          else notify P (fst n) (snd n) (s1\<lparr>nt_chunks := (nt_chunks s1)(i := None)\<rparr>)))"

subsection \<open>What is shown\<close>

lemma clip_length: "length (clip s) \<le> notify_max + 3"
  by (simp add: clip_def Let_def)

text \<open>
  A chunk as kitty sends it, and the chunks of one notification: each is of the title (\<open>False\<close>) or of
  the body.
\<close>

definition note_chunk :: "string \<Rightarrow> bool \<Rightarrow> bool \<Rightarrow> string \<Rightarrow> string" where
  "note_chunk i body final t =
     ''i='' @ i @ '':p='' @ (if body then ''body'' else ''title'') @ '':d='' @ (if final then ''1'' else ''0'') @ '';'' @ t"

lemma note_chunk_keys:
  assumes "CHR '':'' \<notin> set i" "CHR '';'' \<notin> set i"
  shows "\<exists>meta. cut_byte (note_chunk i body final t) (CHR '';'') = (meta, t, True) \<and>
    note_keys meta ''i'' = i \<and> note_keys meta ''e'' = [] \<and>
    note_keys meta ''p'' = (if body then ''body'' else ''title'') \<and>
    note_keys meta ''d'' = (if final then ''1'' else ''0'')"
proof -
  define meta where "meta = ''i='' @ i @ '':p='' @ (if body then ''body'' else ''title'') @ '':d='' @ (if final then ''1'' else ''0'')"
  have c: "cut_byte (note_chunk i body final t) (CHR '';'') = (meta, t, True)"
  proof -
    have "note_chunk i body final t = meta @ CHR '';'' # t" by (simp add: note_chunk_def meta_def)
    moreover have "CHR '';'' \<notin> set meta" using assms(2) by (simp add: meta_def)
    ultimately show ?thesis by (simp add: cut_byte_found)
  qed
  have sp: "split_byte meta (CHR '':'') =
      [''i='' @ i, ''p='' @ (if body then ''body'' else ''title''), ''d='' @ (if final then ''1'' else ''0'')]"
  proof -
    have "meta = (''i='' @ i) @ CHR '':'' # (''p='' @ (if body then ''body'' else ''title'')) @ CHR '':'' #
        (''d='' @ (if final then ''1'' else ''0''))" by (simp add: meta_def)
    moreover have "CHR '':'' \<notin> set (''i='' @ i)" using assms(1) by simp
    ultimately show ?thesis by (simp add: split_byte_append split_byte_no_sep)
  qed
  have k: "cut_byte (c # CHR ''='' # v) (CHR ''='') = ([c], v, True)" if "c \<noteq> CHR ''=''" for c v
    using that cut_byte_found [of "CHR ''=''" "[c]" v] by simp
  show ?thesis
    using c by (intro exI [of _ meta]) (simp add: note_keys_def sp k)
qed

fun note_run :: "notify_page \<Rightarrow> string \<Rightarrow> (bool \<times> string) list \<Rightarrow> notify_state \<Rightarrow> notify_state \<times> page_note option" where
  "note_run P i [] s = (s, None)"
| "note_run P i [(body, t)] s = osc99 P (note_chunk i body True t) s"
| "note_run P i ((body, t) # c # cs) s = note_run P i (c # cs) (fst (osc99 P (note_chunk i body False t) s))"

definition chunks_at :: "string \<Rightarrow> notify_state \<Rightarrow> string \<times> string" where
  "chunks_at i s = (case nt_chunks s i of Some n \<Rightarrow> n | None \<Rightarrow> ([], []))"

definition add_chunk :: "bool \<times> string \<Rightarrow> string \<times> string \<Rightarrow> string \<times> string" where
  "add_chunk c n = (if fst c then (fst n, snd n @ snd c) else (fst n @ snd c, snd n))"

lemma osc99_chunk:
  assumes "CHR '':'' \<notin> set i" "CHR '';'' \<notin> set i"
  shows "osc99 P (note_chunk i body final t) s =
    (let n = add_chunk (body, t) (chunks_at i s) in
     if final then notify P (fst n) (snd n) (s\<lparr>nt_chunks := (nt_chunks s)(i := None)\<rparr>)
     else (s\<lparr>nt_chunks := (nt_chunks s)(i \<mapsto> n)\<rparr>, None))"
proof -
  obtain meta where m: "cut_byte (note_chunk i body final t) (CHR '';'') = (meta, t, True)"
    "note_keys meta ''i'' = i" "note_keys meta ''e'' = []"
    "note_keys meta ''p'' = (if body then ''body'' else ''title'')"
    "note_keys meta ''d'' = (if final then ''1'' else ''0'')"
    using note_chunk_keys [OF assms, of body final t] by auto
  show ?thesis
    by (simp add: osc99_def m add_chunk_def chunks_at_def Let_def split: prod.split option.split)
qed

text \<open>
  A notification in chunks is shown once, after the last, with its title and body whole; the other
  notifications still arriving are not touched.
\<close>

lemma note_chunks_whole:
  assumes "CHR '':'' \<notin> set i" "CHR '';'' \<notin> set i" "cs \<noteq> []"
  shows "note_run P i cs s =
    (let n = fold add_chunk cs (chunks_at i s) in
     notify P (fst n) (snd n) (s\<lparr>nt_chunks := (nt_chunks s)(i := None)\<rparr>))"
  using assms(3)
proof (induction cs arbitrary: s)
  case (Cons c cs)
  obtain body t where c: "c = (body, t)" by fastforce
  show ?case
  proof (cases cs)
    case Nil
    then show ?thesis by (simp add: c osc99_chunk [OF assms(1,2)] Let_def fun_upd_def)
  next
    case (Cons c' cs')
    define s1 where "s1 = fst (osc99 P (note_chunk i body False t) s)"
    have s1: "s1 = s\<lparr>nt_chunks := (nt_chunks s)(i \<mapsto> add_chunk (body, t) (chunks_at i s))\<rparr>"
      by (simp add: s1_def osc99_chunk [OF assms(1,2)] Let_def)
    have "note_run P i (c # cs) s = note_run P i cs s1" by (simp add: c Cons s1_def)
    also have "\<dots> = (let n = fold add_chunk cs (chunks_at i s1) in
       notify P (fst n) (snd n) (s1\<lparr>nt_chunks := (nt_chunks s1)(i := None)\<rparr>))"
      using Cons.IH [of s1] Cons by (simp add: fun_upd_def)
    also have "chunks_at i s1 = add_chunk c (chunks_at i s)" by (simp add: chunks_at_def s1 c)
    also have "s1\<lparr>nt_chunks := (nt_chunks s1)(i := None)\<rparr> = s\<lparr>nt_chunks := (nt_chunks s)(i := None)\<rparr>"
      by (simp add: s1)
    finally show ?thesis by (simp add: fun_upd_def)
  qed
qed simp

text \<open>The times at which notes were shown, for calls at growing times; remote ones keep their distance.\<close>

fun shown_at :: "(notify_page \<times> string \<times> string) list \<Rightarrow> notify_state \<Rightarrow> int list" where
  "shown_at [] s = []"
| "shown_at ((P, title, body) # xs) s =
     (case notify P title body s of
        (s1, None) \<Rightarrow> shown_at xs s1
      | (s1, Some n) \<Rightarrow> np_now P # shown_at xs s1)"

lemma notify_shown:
  assumes "notify P title body s = (s1, r)"
  shows "(r = None \<longrightarrow> s1 = s) \<and>
    (r \<noteq> None \<longrightarrow> nt_last s1 = Some (np_now P) \<and>
       (np_remote P \<longrightarrow> (\<forall>t. nt_last s = Some t \<longrightarrow> t + notify_gap \<le> np_now P)))"
  using assms by (auto simp: notify_def Let_def split: if_splits option.splits)

lemma remote_notes_apart:
  "list_all (\<lambda>x. np_remote (fst x)) xs \<Longrightarrow>
   (\<forall>t. nt_last s = Some t \<longrightarrow> (\<forall>u \<in> set (shown_at xs s). t + notify_gap \<le> u)) \<and>
   sorted_wrt (\<lambda>t u. t + notify_gap \<le> u) (shown_at xs s)"
proof (induction xs arbitrary: s)
  case (Cons x xs)
  obtain P title body where x: "x = (P, title, body)" by (cases x) auto
  obtain s1 r where n: "notify P title body s = (s1, r)" by fastforce
  note sh = notify_shown [OF n]
  have IH: "(\<forall>t. nt_last s1 = Some t \<longrightarrow> (\<forall>u \<in> set (shown_at xs s1). t + notify_gap \<le> u)) \<and>
     sorted_wrt (\<lambda>t u. t + notify_gap \<le> u) (shown_at xs s1)"
    using Cons.IH [of s1] Cons.prems by simp
  show ?case
  proof (cases r)
    case None
    with IH sh show ?thesis by (simp add: x n)
  next
    case (Some m)
    have pos: "0 < notify_gap" by (simp add: notify_gap_def)
    from Some sh Cons.prems have "nt_last s1 = Some (np_now P)"
      "\<forall>t. nt_last s = Some t \<longrightarrow> t + notify_gap \<le> np_now P" by (auto simp: x)
    with IH pos show ?thesis by (auto simp: x n Some)
  qed
qed simp

subsection \<open>The key bar\<close>

datatype latch = Latch_Off | Latch_Once | Latch_Locked

record key_bar =
  kb_ctrl :: latch
  kb_alt :: latch

definition toggle :: "latch \<Rightarrow> latch" where
  "toggle l = (case l of Latch_Off \<Rightarrow> Latch_Once | Latch_Once \<Rightarrow> Latch_Locked | Latch_Locked \<Rightarrow> Latch_Off)"

definition let_go :: "latch \<Rightarrow> latch" where
  "let_go l = (if l = Latch_Once then Latch_Off else l)"

definition take_latches :: "key_bar \<Rightarrow> (bool \<times> bool) \<times> key_bar" where
  "take_latches b =
     ((kb_ctrl b \<noteq> Latch_Off, kb_alt b \<noteq> Latch_Off),
      b\<lparr>kb_ctrl := let_go (kb_ctrl b), kb_alt := let_go (kb_alt b)\<rparr>)"

text \<open>
  \<^verbatim>\<open>unicodeUpper\<close>, as far as the cases after it tell runes apart: besides the letters, only the
  dotless i and the long s have an upper case in ASCII.
\<close>

definition bar_upper :: "rune \<Rightarrow> rune" where
  "bar_upper r =
     (if 97 \<le> r \<and> r \<le> 122 then r - 32 else if r = 305 then 73 else if r = 383 then 83 else r)"

definition ctrl_key :: "rune \<Rightarrow> string \<Rightarrow> string" where
  "ctrl_key r d =
     (let c = bar_upper r in
      if 64 \<le> c \<and> c \<le> 95 then [chr_of (c - 64)]
      else if c = 32 \<or> c = 50 then [CHR 0x00]
      else if c = 63 then [CHR 0x7F]
      else d)"

text \<open>\<open>kitty\<close> is the kitty encoding of a key with its modifiers, where the program asked for it.\<close>

definition bar_apply :: "(string \<Rightarrow> bool \<Rightarrow> bool \<Rightarrow> string option) \<Rightarrow> string \<Rightarrow> key_bar \<Rightarrow> string \<times> key_bar" where
  "bar_apply kitty d b =
     (if kb_ctrl b = Latch_Off \<and> kb_alt b = Latch_Off then (d, b)
      else (case runes d of
          [r] \<Rightarrow>
            (let ((ctrl, alt), b1) = take_latches b in
             case kitty d ctrl alt of
               Some s \<Rightarrow> (s, b1)
             | None \<Rightarrow>
                (let out = (if ctrl then ctrl_key r d else d) in
                 (if alt then CHR 0x1B # out else out, b1)))
        | _ \<Rightarrow> (d, b)))"

text \<open>
  A key of the bar, \<open>box\<close> being whether the terminal's input is there: the key event it is turned into
  (its key, Ctrl, Alt, and whether a keypress follows).
\<close>

definition bar_press ::
  "bool \<Rightarrow> string \<Rightarrow> string \<Rightarrow> key_bar \<Rightarrow> (string \<times> bool \<times> bool \<times> bool) option \<times> key_bar"
where
  "bar_press box label key b =
     (if label = ''Ctrl'' then (None, b\<lparr>kb_ctrl := toggle (kb_ctrl b)\<rparr>)
      else if label = ''Alt'' then (None, b\<lparr>kb_alt := toggle (kb_alt b)\<rparr>)
      else (let ((ctrl, alt), b1) = take_latches b in
        (if box then Some (key, ctrl, alt, length key = 1 \<and> \<not> ctrl \<and> \<not> alt) else None, b1)))"

lemma toggle_cycle: "toggle (toggle (toggle l)) = l"
  by (cases l) (simp_all add: toggle_def)

text \<open>Without a latch nothing that is typed changes, and a paste neither uses nor loses one.\<close>

lemma bar_passes:
  "length (runes d) \<noteq> 1 \<or> (kb_ctrl b = Latch_Off \<and> kb_alt b = Latch_Off) \<Longrightarrow> bar_apply kitty d b = (d, b)"
  by (auto simp: bar_apply_def split: list.split)

text \<open>A latch set for one key is off after it, a locked one stays, whichever key it is.\<close>

lemma bar_lets_go:
  assumes "runes d = [r]"
  shows "snd (bar_apply kitty d b) = b\<lparr>kb_ctrl := let_go (kb_ctrl b), kb_alt := let_go (kb_alt b)\<rparr>"
  using assms by (auto simp: bar_apply_def take_latches_def let_go_def Let_def split: option.split)

lemma bar_control_letter:
  assumes "kb_ctrl b \<noteq> Latch_Off" "kb_alt b = Latch_Off" "kitty [c] True False = None"
    "97 \<le> byte_of c" "byte_of c \<le> 122"
  shows "fst (bar_apply kitty [c] b) = [chr_of (byte_of c - 96)]"
proof -
  note r = assms(4,5)
  then have "runes [c] = [byte_of c]" using runes_ascii [of "[c]"] by simp
  moreover obtain k where k: "byte_of c = 97 + k" "k < 26" using r nat_le_iff_add by auto
  moreover have "ctrl_key (97 + k) [c] = [chr_of (1 + k)]" using k(2) by (simp add: ctrl_key_def bar_upper_def)
  ultimately show ?thesis
    using assms(1-3) by (simp add: bar_apply_def take_latches_def Let_def)
qed

end
