(* ===== verification/Page_Requests.thy ===== *)
theory Page_Requests
  imports Host_Requests
begin

text \<open>
  What a program says of the page it runs in, \<^verbatim>\<open>src/progressive/page.go\<close>: its title, where it is,
  a file to save, text for the clipboard. \<open>json.Marshal\<close> of a page's path and title is a
  parameter. The lemmas: the page the program names is the one the host shows, and the number in a
  download is the decimal number of its bytes.
\<close>

definition title_seq :: "string \<Rightarrow> string" where
  "title_seq title = CHR 0x1B # '']2;'' @ title @ [CHR 0x1B, CHR 0x5C]"

definition page_body :: "(string \<Rightarrow> string \<Rightarrow> string) \<Rightarrow> string \<Rightarrow> string \<Rightarrow> string" where
  "page_body marshal path title = ''page;'' @ b64_encode (marshal path title)"

definition page_seq :: "(string \<Rightarrow> string \<Rightarrow> string) \<Rightarrow> string \<Rightarrow> string \<Rightarrow> string" where
  "page_seq marshal path title = osc (page_body marshal path title)"

text \<open>\<^verbatim>\<open>itoa\<close> of this package: the digits from the last one, put before those there are.\<close>

function digits_before :: "int \<Rightarrow> string \<Rightarrow> string" where
  "digits_before n b =
     (if 0 < n then digits_before (n div 10) (chr_of (48 + nat (n mod 10)) # b) else b)"
  by pat_completeness auto
termination by (relation "measure (\<lambda>(n, b). nat n)") auto

declare digits_before.simps [simp del]

definition lib_itoa :: "int \<Rightarrow> string" where
  "lib_itoa n = (if n = 0 then ''0'' else digits_before n [])"

definition download_seq :: "string \<Rightarrow> string \<Rightarrow> string" where
  "download_seq name b =
     CHR 0x1B # '']1337;File=name='' @ b64_encode name @ '';size='' @ lib_itoa (int (length b)) @
     '';inline=0:'' @ b64_encode b @ [CHR 0x07]"

definition copy_seq :: "string \<Rightarrow> string" where
  "copy_seq t = CHR 0x1B # '']52;c;'' @ b64_encode t @ [CHR 0x1B, CHR 0x5C]"

lemma digits_before_itoa: "digits_before (int n) b = (if n = 0 then [] else itoa_nat n) @ b"
proof (induction n arbitrary: b rule: less_induct)
  case (less n)
  show ?case
  proof (cases "n = 0")
    case False
    have step: "digits_before (int n) b = digits_before (int (n div 10)) (chr_of (48 + n mod 10) # b)"
      using False by (subst digits_before.simps) (simp add: zdiv_int nat_mod_distrib)
    show ?thesis
    proof (cases "n < 10")
      case True
      then have "n div 10 = 0" "n mod 10 = n" by simp_all
      with step False True show ?thesis
        by (simp add: itoa_nat.simps [of n] digits_before.simps [of 0])
    next
      case ge: False
      then have "n div 10 \<noteq> 0" "n div 10 < n" by (simp_all add: div_eq_0_iff)
      with step ge False less.IH [of "n div 10"] show ?thesis
        by (simp add: itoa_nat.simps [of n])
    qed
  qed (simp add: digits_before.simps)
qed

text \<open>The package's own conversion is the library's, for a size at least.\<close>

lemma lib_itoa_decimal: "lib_itoa (int n) = itoa (int n)"
proof -
  have "itoa_nat 0 = ''0''" by code_simp
  with digits_before_itoa [of n "[]"] show ?thesis by (simp add: lib_itoa_def itoa_def)
qed

text \<open>
  A program of the page that says where it is has the page's address and title say so, with the
  command it was started by and, if it has one, its own path.
\<close>

lemma page_request_shows:
  assumes "jn_page (he_json E) (marshal path title) = Some (path, title)" "hp_running s" "\<not> remote s"
    "length path \<le> 2048" "\<not> contains_any path [CHR 0x00, CHR 0x0D, CHR 0x0A]"
  shows "let s' = osc_7337 E (page_body marshal path title) s in
    dc_url (hp_doc s') = he_base E @ ''#run='' @ he_escape E (hp_line s) @
      (if path = [] then [] else ''&at='' @ he_escape E path) \<and>
    (title \<noteq> [] \<longrightarrow> dc_title (hp_doc s') = title)"
proof -
  have c: "cut_byte (page_body marshal path title) (CHR '';'') = (''page'', b64_encode (marshal path title), True)"
    using cut_byte_found [of "CHR '';''" "''page''" "b64_encode (marshal path title)"] by (simp add: page_body_def)
  have r: "hp_running (reposition s) = hp_running s" "remote (reposition s) = remote s"
    "hp_line (reposition s) = hp_line s"
    by (simp_all add: reposition_def note_screen_def remote_def)
  have l: "hp_line (page_save t) = hp_line t" for t by (simp add: page_save_def)
  show ?thesis
    using assms by (simp add: osc_7337_def c set_page_def r l b64_json_def b64_decode_encode Let_def)
qed

end
