(* ===== verification/Main_Programs.thy ===== *)
theory Main_Programs
  imports Fs_Persist Shell_Setup Keyed
begin

text \<open>
  The main programs: the start of the page with its files restored or seeded and the applet that
  wipes them (\<^verbatim>\<open>src/cmd/websh/main.go\<close>), the \<^verbatim>\<open>websh\<close> command and its exit status
  (\<^verbatim>\<open>src/commands/\<close>), the server of a terminal's page (\<^verbatim>\<open>src/term/term.go\<close>), what that page
  starts with (\<^verbatim>\<open>src/cmd/websh-term/main.go\<close>), and the registry of the widgets programs offer
  (\<^verbatim>\<open>src/widget/widget_js.go\<close>). Flags, HTTP and the page are their libraries'. The lemmas: a new
  page stores its seed and the next one restores it; a command fails exactly when its shell did;
  a packed asset goes only to a client that takes it, and an unchanged one is not sent again.
\<close>

subsection \<open>The start of the page\<close>

text \<open>
  What the database gives: it could not be opened, its entries could not be read, or its entries.
  \<open>sp_sigs\<close> is the snapshot, kept only where the files are.
\<close>

datatype opened_store = No_Store | Unread_Store | Store_Entries "(string \<times> file_record) list"

record 'f started_page =
  sp_fs :: 'f
  sp_sigs :: "fs_snapshot option"
  sp_stored :: fs_stored
  sp_console :: "gerr option" \<comment> \<open>the error of seeding, for the browser's console\<close>

definition restored_fs ::
  "'f fs_ops \<Rightarrow> ('f \<Rightarrow> string \<Rightarrow> int \<Rightarrow> 'f) \<Rightarrow> opened_store \<Rightarrow> 'f \<Rightarrow> bool \<times> bool \<times> 'f"
where
  "restored_fs F ch st fs =
     (case st of
        Store_Entries es \<Rightarrow> (let (n, fs1) = load_all F ch es fs in (True, n = 0, fs1))
      | _ \<Rightarrow> (False, True, fs))"

text \<open>\<open>walk\<close> is the walk of the files there are then.\<close>

definition start_page ::
  "'f fs_ops \<Rightarrow> ('f \<Rightarrow> string \<Rightarrow> int \<Rightarrow> 'f) \<Rightarrow> ((string \<times> string) list \<Rightarrow> (string \<times> string) list) \<Rightarrow>
   ('f \<Rightarrow> fs_entry list) \<Rightarrow> (string \<Rightarrow> bool) \<Rightarrow> opened_store \<Rightarrow> fs_stored \<Rightarrow> 'f \<Rightarrow> 'f started_page"
where
  "start_page F ch order walk put_ok st stored fs0 =
     (let (persisted, seed, fs1) = restored_fs F ch st fs0;
          (fs2, e) = (if seed then seed_fs F order fs1 else (fs1, None)) in
      if persisted then
        (let (sigs, stored1) = sync_fs (walk fs2) put_ok (\<lambda>p. True) [] (Map.empty, stored) in
         \<lparr>sp_fs = fs2, sp_sigs = Some sigs, sp_stored = stored1, sp_console = e\<rparr>)
      else \<lparr>sp_fs = fs2, sp_sigs = None, sp_stored = stored, sp_console = e\<rparr>)"

text \<open>After each command line; and \<^verbatim>\<open>reset-fs\<close>, which leaves the snapshot as it is.\<close>

definition after_command ::
  "('f \<Rightarrow> fs_entry list) \<Rightarrow> (string \<Rightarrow> bool) \<Rightarrow> (string \<Rightarrow> bool) \<Rightarrow> string list \<Rightarrow> 'f started_page \<Rightarrow> 'f started_page"
where
  "after_command walk put_ok del_ok order p =
     (case sp_sigs p of
        None \<Rightarrow> p
      | Some sigs \<Rightarrow>
         (let (sigs1, stored1) = sync_fs (walk (sp_fs p)) put_ok del_ok order (sigs, sp_stored p) in
          p\<lparr>sp_sigs := Some sigs1, sp_stored := stored1\<rparr>))"

definition run_reset_fs :: "gerr option \<Rightarrow> 'a started_page \<Rightarrow> 'f sw \<Rightarrow> 'a started_page \<times> bool \<times> 'f run" where
  "run_reset_fs cleared p w =
     (case cleared of
        Some e \<Rightarrow> (p, False, fail_with ''reset-fs'' e w)
      | None \<Rightarrow>
          (p\<lparr>sp_stored := Map.empty\<rparr>, True, finish 0 (put_ln ''persisted filesystem cleared; reloading...'' w)))"

text \<open>A page without a store never loses its seed, and never stores.\<close>

lemma no_store_not_synced:
  "st = No_Store \<or> st = Unread_Store \<Longrightarrow>
   after_command walk put_ok del_ok ord (start_page F ch order walk put_ok' st stored fs0) =
     start_page F ch order walk put_ok' st stored fs0"
  by (auto simp: start_page_def restored_fs_def after_command_def split: prod.split)

text \<open>
  A page that starts on an empty store, and whose writes all go well, has stored exactly the files
  of its seed: the next one restores them and does not seed.
\<close>

lemma first_start_stores_seed:
  assumes "walk_ok E (walk (fst (seed_fs F order fs0)))"
  shows "let p = start_page F ch order walk (\<lambda>p. True) (Store_Entries []) Map.empty fs0 in
    sp_fs p = fst (seed_fs F order fs0) \<and>
    (\<forall>q. sp_stored p q = Option.bind (entry_at (walk (sp_fs p)) q) entry_record)"
proof -
  obtain fs1 e where s: "seed_fs F order fs0 = (fs1, e)" by fastforce
  have at: "at_path (sync_fs (walk fs1) (\<lambda>p. True) (\<lambda>p. True) [] (Map.empty, Map.empty)) q =
      sync_path True True (entry_at (walk fs1) q) (None, None)" for q
    using assms sync_at [of "walk fs1" "[]" "(Map.empty, Map.empty)" "\<lambda>p. True" "\<lambda>p. True" q]
    by (auto simp: s walk_ok_def)
  have st: "snd (sync_fs (walk fs1) (\<lambda>p. True) (\<lambda>p. True) [] (Map.empty, Map.empty)) q =
      Option.bind (entry_at (walk fs1) q) entry_record" for q
    using arg_cong [OF at, of snd q] by (auto simp: sync_path_def split: option.splits)
  then show ?thesis
    by (auto simp: start_page_def restored_fs_def load_all_def s Let_def split: prod.split)
qed

text \<open>
  After \<^verbatim>\<open>reset-fs\<close> the snapshot still holds the files as stored: the flush after the command stores
  only what has changed since, such as a file its output went to. The page that is loaded next
  restores that one file, and so does not seed.
\<close>

lemma reset_keeps_only_changes:
  assumes "sp_sigs p = Some sigs" "walk_ok E (walk (sp_fs p))" "set ord = dom sigs"
    "e \<in> set (kept_entries (walk (sp_fs p)))"
  shows "sp_stored (after_command walk (\<lambda>p. True) (\<lambda>p. True) ord (fst (run_reset_fs None p w))) (fx_path e) =
    (if sigs (fx_path e) = Some (entry_sig e) then None else entry_record e)"
proof -
  have at: "at_path (sync_fs (walk (sp_fs p)) (\<lambda>p. True) (\<lambda>p. True) ord (sigs, Map.empty)) (fx_path e) =
      sync_path True True (entry_at (walk (sp_fs p)) (fx_path e)) (sigs (fx_path e), None)"
    using assms(2,3) sync_at [of "walk (sp_fs p)" ord "(sigs, Map.empty)" "\<lambda>p. True" "\<lambda>p. True" "fx_path e"]
    by (auto simp: walk_ok_def)
  have k: "entry_at (walk (sp_fs p)) (fx_path e) = Some e"
    using assms(2,4) by (auto simp: walk_ok_def intro: entry_at_kept)
  have "snd (sync_fs (walk (sp_fs p)) (\<lambda>p. True) (\<lambda>p. True) ord (sigs, Map.empty)) (fx_path e) =
      (if sigs (fx_path e) = Some (entry_sig e) then None else entry_record e)"
    using arg_cong [OF at, of snd] by (simp add: k sync_path_def)
  then show ?thesis
    by (auto simp: after_command_def run_reset_fs_def assms(1) split: prod.split if_splits)
qed

subsection \<open>The websh command\<close>

text \<open>What the command runs: a command line, a script, the terminal, or the script on its input.\<close>

datatype root_call =
    Run_Line string "string list"
  | Run_File string "string list"
  | Run_Terminal
  | Run_Input

definition choose_call :: "string option \<Rightarrow> string list \<Rightarrow> bool \<Rightarrow> root_call" where
  "choose_call command args tty =
     (case command of
        Some line \<Rightarrow> Run_Line line args
      | None \<Rightarrow> (case args of
           f # rest \<Rightarrow> Run_File f rest
         | [] \<Rightarrow> if tty then Run_Terminal else Run_Input))"

text \<open>The error that carries the status out, with the shell's own error if it had one.\<close>

type_synonym 'e exit_error = "int \<times> 'e option"

definition exit_text :: "('e \<Rightarrow> string) \<Rightarrow> 'e exit_error \<Rightarrow> string" where
  "exit_text txt ee = (case snd ee of Some e \<Rightarrow> txt e | None \<Rightarrow> ''exit status '' @ itoa (fst ee))"

definition root_run ::
  "(string \<Rightarrow> 'e + string) \<Rightarrow> (root_call \<Rightarrow> string \<Rightarrow> int \<times> 'e option) \<Rightarrow> string option \<Rightarrow> string list \<Rightarrow> bool \<Rightarrow>
   'e exit_error option"
where
  "root_run opens shell command args tty =
     (let c = choose_call command args tty;
          done = (\<lambda>r. if snd r \<noteq> None \<or> fst r \<noteq> 0 then Some r else None) in
      case c of
        Run_File f rest \<Rightarrow> (case opens f of Inl e \<Rightarrow> Some (127, Some e) | Inr src \<Rightarrow> done (shell c src))
      | _ \<Rightarrow> done (shell c []))"

text \<open>\<^verbatim>\<open>Execute\<close>: another error than an exit is cobra's, of the flags. The status and what is written.\<close>

datatype 'e root_error = Root_Exit "'e exit_error" | Root_Other 'e

definition execute :: "('e \<Rightarrow> string) \<Rightarrow> 'e root_error option \<Rightarrow> int \<times> string" where
  "execute txt err =
     (case err of
        None \<Rightarrow> (0, [])
      | Some (Root_Exit (code, e)) \<Rightarrow>
          (if code = 0 then 1 else code,
           case e of Some x \<Rightarrow> ''websh: '' @ txt x @ [CHR 0x0A] | None \<Rightarrow> [])
      | Some (Root_Other e) \<Rightarrow> (1, ''websh: '' @ txt e @ [CHR 0x0A]))"

text \<open>The command succeeds exactly when the shell it ran did, and otherwise exits with its status.\<close>

lemma root_status:
  assumes "opens = (\<lambda>f. Inr (src f))" "shell (choose_call command args tty)
      (case choose_call command args tty of Run_File f rest \<Rightarrow> src f | _ \<Rightarrow> []) = (code, e)"
  shows "fst (execute txt (map_option Root_Exit (root_run opens shell command args tty))) =
    (if code = 0 \<and> e \<noteq> None then 1 else code)"
  using assms by (cases "choose_call command args tty") (auto simp: root_run_def execute_def Let_def)

text \<open>\<^verbatim>\<open>serve\<close>: what it runs for a page, and the page.\<close>

definition serve_args :: "string option \<Rightarrow> string list \<Rightarrow> string list" where
  "serve_args shell_env args =
     (if args = [] then [case shell_env of Some s \<Rightarrow> if s = [] then ''/bin/sh'' else s | None \<Rightarrow> ''/bin/sh'']
      else args)"

record term_page =
  tp_title :: string
  tp_host :: string
  tp_run :: string

definition serve_page :: "string \<Rightarrow> term_page" where
  "serve_page host = \<lparr>tp_title = ''websh '' @ host, tp_host = host, tp_run = ''pty pty''\<rparr>"

lemma serve_args_nonempty: "serve_args shell_env args \<noteq> [] \<and> hd (serve_args shell_env args) \<noteq> [] \<or> args \<noteq> []"
  by (auto simp: serve_args_def split: option.split)

subsection \<open>The server of the page\<close>

record http_request =
  hr_asset :: string
  hr_none_match :: string
  hr_accept :: string

record http_answer =
  ha_status :: nat
  ha_head :: "(string \<times> string) list"
  ha_body :: string

text \<open>
  \<^verbatim>\<open>http.ServeContent\<close> of a whole asset, to a GET whose only condition is \<^verbatim>\<open>If-None-Match\<close>: 304 when
  one of the tags named there is the asset's, compared weakly, or \<^verbatim>\<open>*\<close>; else 200 and the bytes. The
  heads it adds of its own (the length, the ranges) are left out. \<open>tag\<close> is the asset's hash as
  \<^verbatim>\<open>Handler\<close> writes it.
\<close>

definition etag_char :: "char \<Rightarrow> bool" where
  "etag_char c = (byte_of c = 0x21 \<or> 0x23 \<le> byte_of c \<and> byte_of c \<le> 0x7E \<or> 0x80 \<le> byte_of c)"

definition strip_weak :: "string \<Rightarrow> string" where
  "strip_weak t = (if take 2 t = ''W/'' then drop 2 t else t)"

text \<open>The tag a header starts with and what follows it; None when it starts with no tag.\<close>

definition scan_etag :: "string \<Rightarrow> (string \<times> string) option" where
  "scan_etag s =
     (let t = strip_weak s in
      if take 1 t \<noteq> [CHR 0x22] then None
      else (let body = takeWhile etag_char (drop 1 t); rest = drop (1 + length body) t in
        if take 1 rest = [CHR 0x22] then Some ([CHR 0x22] @ body @ [CHR 0x22], drop 1 rest) else None))"

lemma scan_etag_shorter: "scan_etag s = Some (t, rest) \<Longrightarrow> length rest < length s"
  by (cases "s = []") (auto simp: scan_etag_def strip_weak_def Let_def split: if_splits)

function none_match :: "string \<Rightarrow> string \<Rightarrow> bool" where
  "none_match s tag =
     (case dropWhile (\<lambda>c. c = CHR '' '' \<or> c = CHR 0x09) s of
        [] \<Rightarrow> False
      | c # b \<Rightarrow>
         if c = CHR '','' then none_match b tag
         else if c = CHR ''*'' then True
         else (case scan_etag (c # b) of
             None \<Rightarrow> False
           | Some (t, rest) \<Rightarrow> t = strip_weak tag \<or> none_match rest tag))"
  by pat_completeness auto

termination
proof (relation "measure (\<lambda>(s, tag). length s)", goal_cases)
  case (2 s tag c b)
  then show ?case using length_dropWhile_le [of "\<lambda>c. c = CHR '' '' \<or> c = CHR 0x09" s] by simp
next
  case (3 s tag c b x t rest)
  then show ?case
    using length_dropWhile_le [of "\<lambda>c. c = CHR '' '' \<or> c = CHR 0x09" s] scan_etag_shorter [of "c # b" t rest] by simp
qed simp

declare none_match.simps [simp del]

definition serve_content :: "string \<Rightarrow> string \<Rightarrow> http_request \<Rightarrow> (string \<times> string) list \<Rightarrow> (string \<times> string) list \<Rightarrow> http_answer" where
  "serve_content b tag r kept entity =
     (if none_match (hr_none_match r) tag
      then \<lparr>ha_status = 304, ha_head = kept, ha_body = []\<rparr>
      else \<lparr>ha_status = 200, ha_head = kept @ entity, ha_body = b\<rparr>)"

definition http_error :: "nat \<Rightarrow> string \<Rightarrow> (string \<times> string) list \<Rightarrow> http_answer" where
  "http_error st msg h =
     \<lparr>ha_status = st,
      ha_head = h @ [(''Content-Type'', ''text/plain; charset=utf-8''), (''X-Content-Type-Options'', ''nosniff'')],
      ha_body = msg @ [CHR 0x0A]\<rparr>"

definition serve_asset :: "string \<Rightarrow> string \<Rightarrow> string \<Rightarrow> bool \<Rightarrow> http_request \<Rightarrow> http_answer" where
  "serve_asset b tag ctype gz r =
     (let h = [(''ETag'', tag), (''Cache-Control'', ''no-cache'')] in
      if hr_none_match r = tag then \<lparr>ha_status = 304, ha_head = h, ha_body = []\<rparr>
      else if gz \<and> index_of (hr_accept r) ''gzip'' = None then
        http_error 406 ''the terminal needs a browser that accepts gzip'' h
      else serve_content b tag r (h @ (if gz then [(''Vary'', ''Accept-Encoding'')] else []))
        ([(''Content-Type'', ctype)] @ (if gz then [(''Content-Encoding'', ''gzip'')] else [])))"

text \<open>\<open>render\<close> is the template, which escapes what it is given.\<close>

definition term_handler ::
  "string \<Rightarrow> string \<Rightarrow> (string \<Rightarrow> string) \<Rightarrow> (term_page \<Rightarrow> string) \<Rightarrow> term_page \<Rightarrow> http_request \<Rightarrow> http_answer"
where
  "term_handler wasm execjs tag render page r =
     (if hr_asset r = ''wasm_exec.js'' then serve_asset execjs (tag execjs) ''text/javascript; charset=utf-8'' False r
      else if hr_asset r = ''term.wasm'' then serve_asset wasm (tag wasm) ''application/wasm'' True r
      else if hr_asset r = [] then
        \<lparr>ha_status = 200, ha_head = [(''Content-Type'', ''text/html; charset=utf-8''), (''Cache-Control'', ''no-cache'')],
         ha_body = render (if tp_title page = [] then page\<lparr>tp_title := ''websh''\<rparr> else page)\<rparr>
      else http_error 404 ''404 page not found'' [])"

text \<open>The packed program is sent only to a client that unpacks it, and marked as packed.\<close>

lemma packed_only_to_gzip:
  assumes "hr_asset r = ''term.wasm''" "ha_status (term_handler wasm execjs tag render page r) = 200"
  shows "index_of (hr_accept r) ''gzip'' \<noteq> None \<and>
    (''Content-Encoding'', ''gzip'') \<in> set (ha_head (term_handler wasm execjs tag render page r)) \<and>
    ha_body (term_handler wasm execjs tag render page r) = wasm"
  using assms by (auto simp: term_handler_def serve_asset_def serve_content_def http_error_def Let_def split: if_splits)

text \<open>
  A client that names one tag is not sent this build's asset again, and is sent it when the tag is
  another build's. A tag is what \<^verbatim>\<open>Handler\<close> makes: a quoted run of hex digits.
\<close>

lemma scan_quoted:
  assumes "list_all etag_char x"
  shows "scan_etag ([CHR 0x22] @ x @ [CHR 0x22]) = Some ([CHR 0x22] @ x @ [CHR 0x22], [])"
proof -
  have "takeWhile etag_char (x @ [CHR 0x22]) = x"
    using assms by (simp add: list_all_iff takeWhile_append2 etag_char_def byte_of_def)
  then show ?thesis by (simp add: scan_etag_def strip_weak_def)
qed

lemma asset_sent_once:
  assumes "hr_asset r = ''wasm_exec.js''" "tag execjs = [CHR 0x22] @ x @ [CHR 0x22]"
    "hr_none_match r = [CHR 0x22] @ y @ [CHR 0x22]" "list_all etag_char x" "list_all etag_char y"
  shows "ha_status (term_handler wasm execjs tag render page r) = (if x = y then 304 else 200)"
proof -
  have "strip_weak (tag execjs) = tag execjs" by (simp add: assms(2) strip_weak_def)
  then have "none_match (hr_none_match r) (tag execjs) = (x = y)"
    using scan_quoted [OF assms(5)]
    by (auto simp: assms(2,3) none_match.simps [of "CHR 0x22 # y @ [CHR 0x22]"] none_match.simps [of "[]"])
  then show ?thesis
    using assms by (auto simp: term_handler_def serve_asset_def serve_content_def Let_def)
qed

text \<open>\<^verbatim>\<open>websh-term\<close>: the prompt's host and the line it submits, from the page's own markup.\<close>

definition term_start :: "(string \<Rightarrow> string option) \<Rightarrow> string \<times> string option" where
  "term_start meta =
     (let get = (\<lambda>n. case meta n of Some v \<Rightarrow> v | None \<Rightarrow> []); h = get ''websh-host''; r = get ''websh-run'' in
      (if h = [] then ''websh'' else h, if r = [] then None else Some r))"

subsection \<open>Widgets programs offer\<close>

text \<open>The registry on the page: names in the order they were first offered, with what mounts one and whose it is.\<close>

type_synonym 'm widget_registry = "(string \<times> 'm option \<times> string) list"

definition register_widget :: "string \<Rightarrow> 'm \<Rightarrow> string \<Rightarrow> 'm widget_registry \<Rightarrow> 'm widget_registry" where
  "register_widget name mount owner r =
     (if map_of r name = None then r @ [(name, Some mount, owner)]
      else map (\<lambda>(n, e). (n, if n = name then (Some mount, owner) else e)) r)"

text \<open>\<^verbatim>\<open>Find\<close>: an entry whose mount is a function.\<close>

definition find_widget :: "string \<Rightarrow> 'm widget_registry \<Rightarrow> 'm option" where
  "find_widget name r = Option.bind (map_of r name) fst"

definition drop_widgets :: "string \<Rightarrow> 'm widget_registry \<Rightarrow> 'm widget_registry" where
  "drop_widgets owner r = (if owner = [] then r else filter (\<lambda>(n, m, ow). ow \<noteq> owner) r)"

lemma map_of_map_entry: "map_of (map (\<lambda>(n, e). (n, if n = k then v else e)) r) j =
    (if j = k \<and> map_of r k \<noteq> None then Some v else map_of r j)"
  by (induction r) auto

lemma find_registered: "find_widget n (register_widget name mount owner r) =
    (if n = name then Some mount else find_widget n r)"
  by (auto simp: find_widget_def register_widget_def map_of_map_entry map_add_def split: option.split)

lemma map_of_filter_distinct:
  "distinct (map fst r) \<Longrightarrow>
   map_of (filter P r) n = (case map_of r n of Some v \<Rightarrow> if P (n, v) then Some v else None | None \<Rightarrow> None)"
proof (induction r)
  case (Cons x r)
  then have "map_of r (fst x) = None" by (simp add: map_of_eq_None_iff)
  with Cons show ?case by (cases x) (auto split: option.split)
qed simp

text \<open>When a process exits its offers are gone, and no other's; the page's own stay.\<close>

lemma find_dropped:
  assumes "distinct (map fst r)"
  shows "find_widget n (drop_widgets owner r) =
    (case map_of r n of Some (m, ow) \<Rightarrow> if owner \<noteq> [] \<and> ow = owner then None else m | None \<Rightarrow> None)"
  using assms by (auto simp: find_widget_def drop_widgets_def map_of_filter_distinct split: option.split)

lemma registry_distinct:
  assumes "distinct (map fst r)"
  shows "distinct (map fst (register_widget n m ow r)) \<and> distinct (map fst (drop_widgets ow r))"
proof -
  have f: "map fst (map (\<lambda>(k, e). (k, if k = n then (Some m, ow) else e)) r) = map fst r"
    by (induction r) auto
  have "distinct (map fst (map (\<lambda>(k, e). (k, if k = n then (Some m, ow) else e)) r))" unfolding f by (rule assms)
  then show ?thesis
    using assms by (auto simp: register_widget_def drop_widgets_def map_of_eq_None_iff distinct_map_filter simp del: map_map)
qed

definition registered :: "'m widget_registry \<Rightarrow> string \<Rightarrow> ('m \<times> string) option" where
  "registered r n = (case map_of r n of Some (Some m, ow) \<Rightarrow> Some (m, ow) | _ \<Rightarrow> None)"

interpretation widget_reg: keyed registered "\<lambda>n (m, ow). register_widget n m ow" "\<lambda>r. distinct (map fst r)"
proof unfold_locales
  fix r :: "'m widget_registry" and k :: string and v :: "'m \<times> string" and j
  show "registered ((case v of (m, ow) \<Rightarrow> register_widget k m ow) r) j = (if j = k then Some v else registered r j)"
    by (cases v) (auto simp: registered_def register_widget_def map_of_map_entry map_add_def split: option.split)
  assume "distinct (map fst r)"
  then show "distinct (map fst ((case v of (m, ow) \<Rightarrow> register_widget k m ow) r))"
    by (cases v) (simp add: registry_distinct)
qed

lemma find_registered_as: "find_widget n r = map_option fst (registered r n)"
  by (auto simp: find_widget_def registered_def split: option.split)

text \<open>
  Whatever programs have offered, and in whatever order: a name finds the widget offered under it
  last.
\<close>

lemma last_offer_found:
  assumes "distinct (map fst r)"
  shows "find_widget n (fold (\<lambda>(n, m, ow). register_widget n m ow) (offers @ [(n, m, ow)]) r) = Some m"
  using widget_reg.look_last [OF assms, of offers n "(m, ow)"] unfolding widget_reg.puts_def
  by (simp add: find_registered_as case_prod_beta')

end
