(* ===== verification/Prog_Check.thy ===== *)
theory Prog_Check
  imports Regexp_Lib Term_Protocol
begin

text \<open>
  The report of what a terminal can do, \<^verbatim>\<open>src/progcheck/check.go\<close>: the questions, the answers
  read until the terminal has said its attributes, and the table made of them. The regular
  expressions are run by the engine of \<open>Regexp_Lib\<close>; where the source writes \<^verbatim>\<open>\x1b\<close> and
  \<^verbatim>\<open>\x07\<close> the patterns here hold the characters. The lemmas: a report has one line for every
  question, in their order, and the two lines of the attributes exactly when they came; an answer
  counts whichever way the reads cut it; the values of the table stand in one column.
\<close>

definition esc :: char where "esc = CHR 0x1B"

definition esc_bs :: string where "esc_bs = [CHR 0x1B, CHR 0x5C]"

definition pc_queries :: "(string \<times> string) list" where
  "pc_queries =
    [(''progressive terminal (OSC 7337 caps)'', osc ''caps?''),
     (''device attributes 2'', esc # ''[>c''),
     (''terminal name (XTVERSION)'', esc # ''[>q''),
     (''kitty keyboard protocol'', esc # ''[?u''),
     (''kitty graphics protocol'', esc # ''_Gi=31,s=1,v=1,a=q,t=d,f=24;AAAA'' @ esc_bs),
     (''cell size in pixels'', esc # ''[16t''),
     (''text area in pixels'', esc # ''[14t''),
     (''size in cells'', esc # ''[18t''),
     (''foreground color'', esc # '']10;?'' @ esc_bs),
     (''background color'', esc # '']11;?'' @ esc_bs),
     (''pointer shapes (OSC 22)'', esc # '']22;?pointer,text'' @ esc_bs),
     (''synchronized output (2026)'', esc # ''[?2026$p''),
     (''bracketed paste (2004)'', esc # ''[?2004$p''),
     (''focus events (1004)'', esc # ''[?1004$p''),
     (''SGR mouse (1006)'', esc # ''[?1006$p''),
     (''grapheme clusters (2027)'', esc # ''[?2027$p'')]"

definition pc_da1 :: string where "pc_da1 = esc # ''[c''"

text \<open>\<^verbatim>\<open>regexp.MustCompile\<close> of the patterns below, none of which panics (\<open>patterns_compile\<close>).\<close>

definition rx_must :: "string \<Rightarrow> rx \<times> nat" where
  "rx_must p =
     (case re_alt (Suc (3 * length p)) \<lparr>fl_icase = False, fl_multi = False\<rparr> 0 p of
        Inr (r, n, []) \<Rightarrow> (r, n)
      | _ \<Rightarrow> (RSet [] False False, 0))"

definition csi_re :: string where "csi_re = [CHR 0x1B, CHR 0x5C, CHR ''['']"
definition osc_re :: string where "osc_re = [CHR 0x1B, CHR 0x5C, CHR '']'']"
definition st_re :: string where "st_re = [CHR 0x1B, CHR 0x5C, CHR 0x5C]"
definition end_re :: string where "end_re = ''(?:'' @ st_re @ ''|'' @ [CHR 0x07] @ '')''"
definition body_re :: string where "body_re = ''([^'' @ [CHR 0x1B] @ '']*)''"
definition color_re :: string where "color_re = ''([^'' @ [CHR 0x1B, CHR 0x07] @ '']*)''"

definition da1_re :: string where "da1_re = csi_re @ [CHR 0x5C] @ ''?([0-9;]*)c''"
definition caps_re :: string where "caps_re = osc_re @ ''7337;caps;([A-Za-z0-9+/=]*)'' @ end_re"
definition da2_re :: string where "da2_re = csi_re @ ''>([0-9;]*)c''"
definition xt_re :: string where "xt_re = CHR 0x1B # ''P>'' @ [CHR 0x5C, CHR ''|''] @ body_re @ st_re"
definition kkb_re :: string where "kkb_re = csi_re @ [CHR 0x5C] @ ''?([0-9]+)u''"
definition kgfx_re :: string where "kgfx_re = CHR 0x1B # ''_Gi=31;'' @ body_re @ st_re"
definition size_re :: "string \<Rightarrow> string" where "size_re n = csi_re @ n @ '';([0-9]+);([0-9]+)t''"
definition osc_body_re :: "string \<Rightarrow> string" where "osc_body_re n = osc_re @ n @ '';'' @ color_re @ end_re"
definition mode_re :: string where "mode_re = csi_re @ [CHR 0x5C] @ ''?([0-9]+);([0-9])'' @ [CHR 0x5C] @ ''$y''"

lemma patterns_compile:
  "list_all (\<lambda>p. \<not> isl (re_alt (Suc (3 * length p)) \<lparr>fl_icase = False, fl_multi = False\<rparr> 0 p) \<and>
      snd (snd (projr (re_alt (Suc (3 * length p)) \<lparr>fl_icase = False, fl_multi = False\<rparr> 0 p))) = [])
    [da1_re, caps_re, da2_re, xt_re, kkb_re, kgfx_re, size_re ''6'', size_re ''4'', size_re ''8'',
     osc_body_re ''10'', osc_body_re ''11'', osc_body_re ''22'', mode_re]"
  by code_simp

text \<open>
  \<open>sub\<close>: the groups of the first match; a group that took no part is the empty string, as
  \<^verbatim>\<open>string(nil)\<close> is. \<^verbatim>\<open>FindAllSubmatch\<close> likewise.
\<close>

definition group_text :: "string \<Rightarrow> (nat \<times> nat) option \<Rightarrow> string" where
  "group_text s g = (case g of None \<Rightarrow> [] | Some (a, b) \<Rightarrow> take (b - a) (drop a s))"

definition pc_all :: "string \<Rightarrow> string \<Rightarrow> string list list" where
  "pc_all p s = map (\<lambda>m. map (group_text s) (tl m)) (rx_find_all (rx_must p) s)"

definition pc_sub :: "string \<Rightarrow> string \<Rightarrow> string list option" where
  "pc_sub p s = (case pc_all p s of [] \<Rightarrow> None | m # _ \<Rightarrow> Some m)"

definition arg :: "string list \<Rightarrow> nat \<Rightarrow> string" where
  "arg m i = (if i < length m then m ! i else [])"

definition em_dash :: string where "em_dash = [CHR 0xE2, CHR 0x80, CHR 0x94]"
definition times_sign :: string where "times_sign = [CHR 0xC3, CHR 0x97]"

definition no_answer :: string where "no_answer = ''no answer''"

text \<open>\<^verbatim>\<open>parse\<close>, one definition per kind of line; \<open>un\<close> is \<^verbatim>\<open>json.Unmarshal\<close> into a \<^verbatim>\<open>Caps\<close>.\<close>

definition caps_value :: "(string \<Rightarrow> 'f caps option) \<Rightarrow> string \<Rightarrow> string" where
  "caps_value un s =
     (case pc_sub caps_re s of
        None \<Rightarrow> ''no '' @ em_dash @ '' cells only''
      | Some m \<Rightarrow>
         (case Option.bind (b64_decode (arg m 0)) un of
            None \<Rightarrow> ''an answer it could not read''
          | Some c \<Rightarrow> ''yes: '' @ ca_host c @ '' '' @ ca_version c @ '', trust '' @ ca_trust c @
              '', offers '' @ join_with (ca_features c) '' ''))"

definition plain_value :: "string \<Rightarrow> string \<Rightarrow> string" where
  "plain_value p s = (case pc_sub p s of Some m \<Rightarrow> arg m 0 | None \<Rightarrow> no_answer)"

definition kitty_value :: "string \<Rightarrow> string" where
  "kitty_value s =
     (case pc_sub kgfx_re s of
        None \<Rightarrow> ''no''
      | Some m \<Rightarrow> if arg m 0 = ''OK'' then ''yes'' else ''no: '' @ arg m 0)"

definition wrapped_value :: "string \<Rightarrow> string \<Rightarrow> string \<Rightarrow> string" where
  "wrapped_value p before s = (case pc_sub p s of Some m \<Rightarrow> before @ arg m 0 @ '')'' | None \<Rightarrow> ''no'')"

definition pair_value :: "string \<Rightarrow> string \<Rightarrow> string \<Rightarrow> string" where
  "pair_value p unit s =
     (case pc_sub p s of Some m \<Rightarrow> arg m 1 @ times_sign @ arg m 0 @ '' '' @ unit | None \<Rightarrow> no_answer)"

definition mode_answers :: "string \<Rightarrow> string \<rightharpoonup> string" where
  "mode_answers s = fold (\<lambda>m f. f(arg m 0 \<mapsto> arg m 1)) (pc_all mode_re s) Map.empty"

definition mode_value :: "string option \<Rightarrow> string" where
  "mode_value v =
     (case v of
        None \<Rightarrow> no_answer
      | Some x \<Rightarrow> if x = ''0'' then ''not recognized''
          else if x = ''1'' \<or> x = ''3'' then ''supported, on'' else ''supported, off'')"

definition da1_lines :: "string \<Rightarrow> (string \<times> string) list" where
  "da1_lines s =
     (case pc_sub da1_re s of
        None \<Rightarrow> []
      | Some m \<Rightarrow>
         [(''sixel graphics (DA1 attribute 4)'',
           if ''4'' \<in> set (tl (split_byte (arg m 0) (CHR '';''))) then ''yes'' else ''no''),
          (''device attributes 1'', arg m 0)])"

definition pc_parse :: "(string \<Rightarrow> 'f caps option) \<Rightarrow> string \<Rightarrow> (string \<times> string) list" where
  "pc_parse un s =
     zip (map fst pc_queries)
       ([caps_value un s, plain_value da2_re s, plain_value xt_re s,
         wrapped_value kkb_re ''yes (flags now '' s, kitty_value s,
         pair_value (size_re ''6'') ''px'' s, pair_value (size_re ''4'') ''px'' s,
         pair_value (size_re ''8'') ''cells'' s,
         plain_value (osc_body_re ''10'') s, plain_value (osc_body_re ''11'') s,
         wrapped_value (osc_body_re ''22'') ''yes ('' s] @
        map (\<lambda>m. mode_value (mode_answers s m)) [''2026'', ''2004'', ''1004'', ''1006'', ''2027'']) @
     da1_lines s"

text \<open>
  \<^verbatim>\<open>run\<close>: the questions are written, then the answers read until the attributes are among them
  or the terminal ends. \<open>n\<close> is how many reads come before the time is up, \<open>dur\<close> the time as \<^verbatim>\<open>%v\<close>
  writes it.
\<close>

definition has_da1 :: "string \<Rightarrow> bool" where
  "has_da1 s = (pc_sub da1_re s \<noteq> None)"

fun pc_gather :: "nat \<Rightarrow> string \<Rightarrow> (string \<times> string option) list \<Rightarrow> string option" where
  "pc_gather n buf [] = None" |
  "pc_gather n buf ((d, e) # src) =
     (if n = 0 then None
      else if has_da1 (buf @ d) \<or> e \<noteq> None then Some (buf @ d)
      else pc_gather (n - 1) (buf @ d) src)"

definition pc_run ::
  "(string \<Rightarrow> 'f caps option) \<Rightarrow> string option \<Rightarrow> nat \<Rightarrow> string \<Rightarrow> (string \<times> string option) list \<Rightarrow>
   string \<times> (string + (string \<times> string) list)"
where
  "pc_run un werr n dur src =
     (let q = concat (map snd pc_queries) @ pc_da1 in
      case werr of
        Some e \<Rightarrow> (q, Inl e)
      | None \<Rightarrow>
         (q, case pc_gather n [] src of
               Some s \<Rightarrow> Inr (pc_parse un s)
             | None \<Rightarrow> Inl (''the terminal did not answer DA1 in '' @ dur)))"

text \<open>\<^verbatim>\<open>report\<close>: the names, which are ASCII, padded to the longest.\<close>

definition pc_width :: "(string \<times> string) list \<Rightarrow> nat" where
  "pc_width res = fold (\<lambda>r w. max w (length (fst r))) res 0"

definition pc_line :: "nat \<Rightarrow> string \<times> string \<Rightarrow> string" where
  "pc_line w r = fst r @ replicate (w - length (fst r)) (CHR '' '') @ ''  '' @ snd r @ [CHR 0x0D, CHR 0x0A]"

definition pc_report :: "(string \<times> string) list \<Rightarrow> string" where
  "pc_report res = concat (map (pc_line (pc_width res)) res)"

text \<open>\<^verbatim>\<open>Main\<close>: the terminal is made raw, asked, and put back before anything is written.\<close>

datatype pc_act = Raw_On | Ask string | Raw_Off | Write_Report string

definition pc_main ::
  "string option \<Rightarrow> string option \<Rightarrow> string \<times> (string + (string \<times> string) list) \<Rightarrow> pc_act list \<times> string option"
where
  "pc_main no_tty no_raw asked =
     (case no_tty of
        Some e \<Rightarrow> ([], Some (''no terminal: '' @ e))
      | None \<Rightarrow>
         (case no_raw of
            Some e \<Rightarrow> ([], Some e)
          | None \<Rightarrow>
             (case snd asked of
                Inl e \<Rightarrow> ([Raw_On, Ask (fst asked), Raw_Off], Some e)
              | Inr res \<Rightarrow> ([Raw_On, Ask (fst asked), Raw_Off, Write_Report (pc_report res)], None))))"

subsection \<open>What a report says\<close>

lemma report_names:
  "map fst (pc_parse un s) = map fst pc_queries @
    (if has_da1 s then [''sixel graphics (DA1 attribute 4)'', ''device attributes 1''] else [])"
  by (auto simp: pc_parse_def pc_queries_def da1_lines_def has_da1_def split: option.split)

text \<open>
  \<^verbatim>\<open>run\<close> reports only on answers that hold the attributes or that the terminal ended, and on all
  that was read until then: a read that cuts an answer in two loses none of it.
\<close>

lemma gathered_prefix:
  "pc_gather n buf src = Some s \<Longrightarrow>
   \<exists>k. 0 < k \<and> k \<le> n \<and> k \<le> length src \<and> s = buf @ concat (map fst (take k src)) \<and>
     (has_da1 s \<or> snd (src ! (k - 1)) \<noteq> None) \<and>
     (\<forall>j. 0 < j \<and> j < k \<longrightarrow> \<not> has_da1 (buf @ concat (map fst (take j src))) \<and> snd (src ! (j - 1)) = None)"
proof (induction n buf src rule: pc_gather.induct)
  case (2 n buf d e src)
  show ?case
  proof (cases "has_da1 (buf @ d) \<or> e \<noteq> None")
    case True
    with 2 show ?thesis by (intro exI [of _ 1]) (auto split: if_splits)
  next
    case False
    with 2 obtain k where k: "0 < k" "k \<le> n - 1" "k \<le> length src" "s = (buf @ d) @ concat (map fst (take k src))"
      "has_da1 s \<or> snd (src ! (k - 1)) \<noteq> None"
      "\<forall>j. 0 < j \<and> j < k \<longrightarrow> \<not> has_da1 ((buf @ d) @ concat (map fst (take j src))) \<and> snd (src ! (j - 1)) = None"
      by (auto split: if_splits)
    show ?thesis
    proof (intro exI [of _ "Suc k"] conjI allI impI)
      fix j assume j: "0 < j \<and> j < Suc k"
      show "\<not> has_da1 (buf @ concat (map fst (take j ((d, e) # src))))"
        using j k(6) False by (cases "j = 1") (auto simp: take_Cons' dest!: spec [of _ "j - 1"])
      show "snd (((d, e) # src) ! (j - 1)) = None"
        using j k(6) False by (cases "j = 1") (auto simp: nth_Cons' dest!: spec [of _ "j - 1"])
    qed (use k 2 in \<open>auto split: if_splits\<close>)
  qed
qed simp

text \<open>A terminal that answers is waited for no longer than its attributes take; a silent one is an error.\<close>

lemma run_reports:
  assumes "pc_run un werr n dur src = (q, Inr res)"
  shows "\<exists>s. res = pc_parse un s \<and> (has_da1 s \<or> (\<exists>x\<in>set src. snd x \<noteq> None))"
proof -
  from assms obtain s where s: "pc_gather n [] src = Some s" "res = pc_parse un s"
    by (auto simp: pc_run_def Let_def split: option.splits)
  from gathered_prefix [OF s(1)] obtain k where
    "0 < k" "k \<le> length src" "has_da1 s \<or> snd (src ! (k - 1)) \<noteq> None" by blast
  then have "has_da1 s \<or> (\<exists>x\<in>set src. snd x \<noteq> None)"
    by (auto intro!: bexI [of _ "src ! (k - 1)"])
  with s(2) show ?thesis by blast
qed

lemma answered_in_time:
  "k < length src \<Longrightarrow> k < n \<Longrightarrow> has_da1 (buf @ concat (map fst (take (Suc k) src))) \<Longrightarrow> pc_gather n buf src \<noteq> None"
proof (induction n buf src arbitrary: k rule: pc_gather.induct)
  case (2 n buf d e src)
  show ?case
  proof (cases "has_da1 (buf @ d) \<or> e \<noteq> None")
    case False
    with 2(4) have "k \<noteq> 0" by (cases k) auto
    with False 2(1) [of "k - 1"] 2(2-) show ?thesis by (cases k) auto
  qed (use 2 in auto)
qed simp

text \<open>The last answer for a mode is the one reported.\<close>

lemma mode_last_answer:
  assumes "pc_all mode_re s = ms @ [[m, v]]"
  shows "mode_answers s m = Some v"
  by (simp add: mode_answers_def assms arg_def)

text \<open>The values of a report stand in one column.\<close>

lemma width_fold: "fold (\<lambda>r w. max w (length (fst r))) res k \<ge> k \<and>
    (\<forall>r\<in>set res. length (fst r) \<le> fold (\<lambda>r w. max w (length (fst r))) res k)"
proof (induction res arbitrary: k)
  case (Cons r res)
  from Cons [of "max k (length (fst r))"] show ?case by auto
qed simp

lemma report_column:
  assumes "r \<in> set res"
  shows "drop (pc_width res + 2) (pc_line (pc_width res) r) = snd r @ [CHR 0x0D, CHR 0x0A]"
proof -
  have "length (fst r) \<le> pc_width res"
    using width_fold [of 0 res] assms by (auto simp: pc_width_def)
  then show ?thesis by (simp add: pc_line_def)
qed

text \<open>The terminal is never left raw, and nothing is written to it but the questions while it is.\<close>

lemma never_left_raw:
  "fst (pc_main no_tty no_raw asked) = [] \<or>
   (\<exists>rest. fst (pc_main no_tty no_raw asked) = [Raw_On, Ask (fst asked), Raw_Off] @ rest \<and> Raw_On \<notin> set rest)"
  by (auto simp: pc_main_def split: option.split sum.split)

subsection \<open>Answers of terminals\<close>

lemma bare_terminal:
  "map snd (pc_parse (\<lambda>j. None :: nat caps option) (esc # ''[?6c'')) =
    [''no '' @ em_dash @ '' cells only'', no_answer, no_answer, ''no'', ''no'', no_answer, no_answer, no_answer,
     no_answer, no_answer, ''no'', no_answer, no_answer, no_answer, no_answer, no_answer, ''no'', ''6'']"
  by code_simp

lemma kitty_named: "plain_value xt_re (esc # ''P>|kitty'' @ esc_bs) = ''kitty''"
  by code_simp

lemma kitty_pictures: "kitty_value (esc # ''_Gi=31;OK'' @ esc_bs) = ''yes''"
  by code_simp

lemma size_answered: "pair_value (size_re ''8'') ''cells'' (esc # ''[8;24;80t'') = ''80'' @ times_sign @ ''24 cells''"
  by code_simp

lemma mode_answered:
  "mode_value (mode_answers (esc # ''[?2026;2$y'') ''2026'') = ''supported, off''"
  by code_simp

lemma sixel_answered: "map snd (da1_lines (esc # ''[?62;4;c'')) = [''yes'', ''62;4;'']"
  by code_simp

end
