(* ===== verification/Prog_Demo.thy ===== *)
theory Prog_Demo
  imports Page_Requests Inline_Images
begin

text \<open>
  The demonstration of a progressive terminal, \<^verbatim>\<open>src/progdemo/progdemo.go\<close>: its six pages, its keys
  and the host's events, what it says to the host, and the cells of each page. What the host offers
  (\<open>de_caps\<close>), the arithmetic on floating-point numbers (the colors, the picture, the size of a
  cell) and the JSON of an event are parameters. The lemmas: what the program believes the host
  shows is what it has asked it to show, so quitting leaves nothing behind; it uses nothing the
  host did not offer; the hue stays a hue; its pictures arrive whole.
\<close>

subsection \<open>Its state and its environment\<close>

type_synonym rgb = "nat \<times> nat \<times> nat"

record 'f demo_env =
  de_caps :: "'f caps option"
  de_pos :: "'f \<Rightarrow> bool" \<comment> \<open>greater than zero\<close>
  de_scale :: "int \<Rightarrow> 'f \<Rightarrow> int" \<comment> \<open>so many cells of that size, in whole pixels\<close>
  de_png :: "int \<Rightarrow> int \<Rightarrow> int \<Rightarrow> string" \<comment> \<open>the picture, by width, height and hue\<close>
  de_mandel :: "int \<Rightarrow> int \<Rightarrow> int \<Rightarrow> int \<Rightarrow> int \<Rightarrow> rgb" \<comment> \<open>its color at i of w, j of h\<close>
  de_bar :: "int \<Rightarrow> int \<Rightarrow> int \<Rightarrow> rgb" \<comment> \<open>the color of a hue at i of the bar\<close>
  de_fix1 :: "'f \<Rightarrow> string" \<comment> \<open>\<^verbatim>\<open>%.1f\<close>\<close>
  de_quote :: "string \<Rightarrow> string" \<comment> \<open>\<^verbatim>\<open>%q\<close>\<close>
  de_hue_in :: "string \<Rightarrow> int option" \<comment> \<open>the hue a message holds\<close>
  de_drop_in :: "string \<Rightarrow> (string \<times> int) option" \<comment> \<open>the path and size a drop tells\<close>

definition demo_pages :: "(string \<times> string) list" where
  "demo_pages = [(''host'', ''Host''), (''pictures'', ''Pictures''), (''widgets'', ''Widgets''),
     (''page'', ''The page''), (''media'', ''Media''), (''access'', ''Access'')]"

record demo =
  dm_at :: nat
  dm_hue :: int
  dm_note :: string
  dm_messages :: int
  dm_clicked :: string
  dm_dropped :: string
  dm_shipped :: bool
  dm_placed :: bool
  dm_picture :: string
  dm_pngs :: "string \<rightharpoonup> string"
  dm_mirrored :: string
  dm_last :: "string list"

definition page_name :: "demo \<Rightarrow> string" where
  "page_name d = fst (demo_pages ! dm_at d)"

definition page_title :: "demo \<Rightarrow> string" where
  "page_title d = snd (demo_pages ! dm_at d)"

definition demo_has :: "'f demo_env \<Rightarrow> string \<Rightarrow> bool" where
  "demo_has E f = caps_has (de_caps E) f"

definition demo_remote :: "'f demo_env \<Rightarrow> bool" where
  "demo_remote E = (case de_caps E of Some c \<Rightarrow> ca_trust c = ''remote'' | None \<Rightarrow> False)"

subsection \<open>What it says to the host\<close>

datatype said =
    Say_Title string
  | Say_Page string string
  | Say_Listen
  | Say_Remove string
  | Say_Clear
  | Say_Delete
  | Say_Post string "(string \<times> int) list"
  | Say_Icon
  | Say_Beep
  | Say_Notify string string
  | Say_Copy string
  | Say_Download string string
  | Say_Picture int int int int string
  | Say_Ship
  | Say_Place int int int
  | Say_Mirror string

text \<open>The sequences. None of the strings put in JSON here needs escaping.\<close>

definition json_field :: "string \<Rightarrow> string \<Rightarrow> string" where
  "json_field k v = dq @ k @ dq @ '':'' @ v"

definition json_text :: "string \<Rightarrow> string" where
  "json_text s = dq @ s @ dq"

definition json_object :: "string list \<Rightarrow> string" where
  "json_object fs = ''{'' @ join_with fs '','' @ ''}''"

definition demo_osc :: "string \<Rightarrow> string \<Rightarrow> string" where
  "demo_osc head js = osc (head @ b64_encode js)"

definition notify_seq :: "string \<Rightarrow> string \<Rightarrow> string" where
  "notify_seq title body = CHR 0x1B # '']777;notify;'' @ title @ '';'' @ body @ [CHR 0x1B, CHR 0x5C]"

definition demo_icon :: string where
  "demo_icon = ''data:image/svg+xml,'' @
     ''%3Csvg xmlns='http://www.w3.org/2000/svg' viewBox='0 0 16 16'%3E%3Crect width='16' height='16' rx='3' fill='%230b7285'/%3E'' @
     ''%3Ctext x='8' y='12.5' font-size='12' text-anchor='middle' fill='white' font-family='sans-serif'%3EP%3C/text%3E%3C/svg%3E''"

text \<open>A fifth of a second of 660 Hz as a WAV file.\<close>

definition le_bytes :: "nat \<Rightarrow> nat \<Rightarrow> string" where
  "le_bytes k n = map (\<lambda>i. chr_of (n div 256 ^ i mod 256)) [0..<k]"

definition wav_sample :: "nat \<Rightarrow> char" where
  "wav_sample i = chr_of (if i * 660 * 2 div 8000 mod 2 = 1 then 128 - 40 else 128 + 40)"

definition wav_beep :: string where
  "wav_beep = ''RIFF'' @ le_bytes 4 (36 + 1600) @ ''WAVEfmt '' @ le_bytes 4 16 @ le_bytes 2 1 @ le_bytes 2 1 @
     le_bytes 4 8000 @ le_bytes 4 8000 @ le_bytes 2 1 @ le_bytes 2 8 @ ''data'' @ le_bytes 4 1600 @
     map wav_sample [0..<1600]"

definition beep_meta :: "bool \<Rightarrow> string" where
  "beep_meta more' = json_object [json_field ''id'' (json_text ''beep''), json_field ''loop'' ''false'',
     json_field ''more'' (json_bool more'), json_field ''type'' (json_text ''audio/wav''),
     json_field ''volume'' ''0.3'']"

definition picture_keys :: "int \<Rightarrow> int \<Rightarrow> string" where
  "picture_keys w h = ''a=T,f=100,i=7337,c='' @ itoa w @ '',r='' @ itoa h @ '',C=1,q=2''"

definition apc :: "string \<Rightarrow> string" where
  "apc b = CHR 0x1B # ''_'' @ b @ [CHR 0x1B, CHR 0x5C]"

text \<open>\<^verbatim>\<open>kittyPicture\<close>: the loop over the data in base64; the first piece is sent even when it is empty.\<close>

function picture_pieces :: "string \<Rightarrow> string \<Rightarrow> bool \<Rightarrow> string list" where
  "picture_pieces keys enc first =
     (if enc = [] \<and> \<not> first then []
      else (let n = min (length enc) 4096; m = (if n < length enc then ''1'' else ''0'') in
        (''G'' @ (if first then keys @ '','' else []) @ ''m='' @ m @ '';'' @ take n enc) #
        picture_pieces keys (drop n enc) False))"
  by pat_completeness auto

termination
  by (relation "measure (\<lambda>(keys, enc, first). length enc + (if first then 1 else 0))") auto

declare picture_pieces.simps [simp del]

definition kitty_picture :: "int \<Rightarrow> int \<Rightarrow> int \<Rightarrow> int \<Rightarrow> string \<Rightarrow> string" where
  "kitty_picture row col w h d =
     [CHR 0x1B, CHR ''7'', CHR 0x1B, CHR ''[''] @ itoa (row + 1) @ '';'' @ itoa (col + 1) @ ''H'' @
     concat (map apc (picture_pieces (picture_keys w h) (b64_encode d) True)) @ [CHR 0x1B, CHR ''8'']"

definition place_json :: "int \<Rightarrow> int \<Rightarrow> int \<Rightarrow> string" where
  "place_json row col w = json_object [json_field ''row'' (itoa row), json_field ''col'' (itoa col),
     json_field ''w'' (itoa w), json_field ''h'' ''4'', json_field ''widget'' (json_text ''progdemo-slider''),
     json_field ''input'' ''true'', json_field ''events'' ''true'']"

text \<open>\<open>slider\<close> is the document of the widget it ships, a constant.\<close>

fun said_seqs :: "string \<Rightarrow> said \<Rightarrow> string list" where
  "said_seqs slider (Say_Title t) = [title_seq t]" |
  "said_seqs slider (Say_Page p t) =
     [page_seq (\<lambda>p t. json_object [json_field ''path'' (json_text p), json_field ''title'' (json_text t)]) p t]" |
  "said_seqs slider Say_Listen = [listen_drop]" |
  "said_seqs slider (Say_Remove i) = [remove_seq i]" |
  "said_seqs slider Say_Clear = [clear_seq]" |
  "said_seqs slider Say_Delete = [apc ''Ga=d,d=I,i=7337,q=2'']" |
  "said_seqs slider (Say_Post i fs) =
     [demo_osc (''post;'' @ i @ '';'') (json_object (map (\<lambda>(k, v). json_field k (itoa v)) fs))]" |
  "said_seqs slider Say_Icon = [demo_osc ''icon;'' (json_object [json_field ''url'' (json_text demo_icon)])]" |
  "said_seqs slider Say_Beep = sound_seqs beep_meta wav_beep" |
  "said_seqs slider (Say_Notify t b) = [notify_seq t b]" |
  "said_seqs slider (Say_Copy t) = [copy_seq t]" |
  "said_seqs slider (Say_Download n b) = [download_seq n b]" |
  "said_seqs slider (Say_Picture row col w h d) = [kitty_picture row col w h d]" |
  "said_seqs slider Say_Ship = ship_seqs ''html'' ''progdemo-slider'' slider" |
  "said_seqs slider (Say_Place row col w) = [demo_osc ''place;slider;'' (place_json row col w)]" |
  "said_seqs slider (Say_Mirror html) = mirror_seqs html"

subsection \<open>Keys and events\<close>

text \<open>\<^verbatim>\<open>arrive\<close>: the page is named, and what the page left had placed is taken away.\<close>

definition demo_arrive :: "'f demo_env \<Rightarrow> demo \<Rightarrow> demo \<times> said list" where
  "demo_arrive E d =
     (let n = page_name d; t = ''progdemo: '' @ page_title d;
          unplace = (dm_placed d \<and> n \<noteq> ''widgets''); unpic = (dm_picture d \<noteq> [] \<and> n \<noteq> ''pictures'') in
      (d\<lparr>dm_placed := dm_placed d \<and> \<not> unplace, dm_picture := (if unpic then [] else dm_picture d), dm_note := []\<rparr>,
       [Say_Title t] @ (if demo_has E ''page'' then [Say_Page (''/'' @ n) t] else []) @
       (if unplace then [Say_Remove ''slider''] else []) @ (if unpic then [Say_Delete] else [])))"

definition demo_asked :: "'f demo_env \<Rightarrow> string" where
  "demo_asked E = (if demo_remote E then '': from another machine, so the person is asked first'' else [])"

definition refused_if :: "bool \<Rightarrow> string \<Rightarrow> string \<Rightarrow> string" where
  "refused_if refused ok why = (if refused then why else ok)"

text \<open>The keys of the page and media pages.\<close>

definition demo_media :: "'f demo_env \<Rightarrow> string \<Rightarrow> demo \<Rightarrow> demo \<times> said list" where
  "demo_media E key d =
     (let c = page_name d @ '':'' @ key in
      if c = ''page:i'' then
        (d\<lparr>dm_note := refused_if (\<not> demo_has E ''page'') ''set the page's icon'' ''a terminal with no page has no icon to set''\<rparr>,
         [Say_Icon])
      else if c = ''media:s'' then
        (if demo_has E ''sound'' then (d\<lparr>dm_note := ''played a beep the program made itself''\<rparr>, [Say_Beep])
         else (d\<lparr>dm_note := ''this terminal plays no sounds the program brings''\<rparr>, []))
      else if c = ''media:n'' then
        (d\<lparr>dm_note := ''sent a notification (OSC 777, which many terminals show)''\<rparr>,
         [Say_Notify ''progdemo'' ''a notification from a terminal program''])
      else if c = ''media:c'' then
        (d\<lparr>dm_note := ''put a line on the clipboard (OSC 52)'' @ demo_asked E\<rparr>, [Say_Copy ''copied by progdemo''])
      else if c = ''media:d'' then
        (d\<lparr>dm_note := refused_if (\<not> demo_has E ''download'') (''offered progdemo.txt to save'' @ demo_asked E)
             ''this terminal saves no files a program offers''\<rparr>,
         [Say_Download ''progdemo.txt'' (''progdemo was here; the hue was '' @ itoa (dm_hue d) @ [CHR 0x0A])])
      else (d, []))"

datatype demo_key = Key_Tab | Key_Backtab | Key_Left | Key_Right | Key_Ctrl_C | Key_Other

definition demo_keypress :: "'f demo_env \<Rightarrow> demo_key \<Rightarrow> string \<Rightarrow> demo \<Rightarrow> demo \<times> said list" where
  "demo_keypress E k str d =
     (let digit = (case str of [c] \<Rightarrow> if 49 \<le> byte_of c \<and> byte_of c - 49 < length demo_pages
            then Some (byte_of c - 49) else None | _ \<Rightarrow> None) in
      if k = Key_Tab then demo_arrive E (d\<lparr>dm_at := (dm_at d + 1) mod length demo_pages\<rparr>)
      else if k = Key_Backtab then
        demo_arrive E (d\<lparr>dm_at := (dm_at d + length demo_pages - 1) mod length demo_pages\<rparr>)
      else (case digit of
          Some i \<Rightarrow> demo_arrive E (d\<lparr>dm_at := i\<rparr>)
        | None \<Rightarrow>
            if k = Key_Left \<or> k = Key_Right then
              (let hue = (dm_hue d + (if k = Key_Left then -15 else 15) + 360) mod 360 in
               (d\<lparr>dm_hue := hue, dm_note := ''the keys set the hue to '' @ itoa hue\<rparr>,
                if dm_placed d then [Say_Post ''slider'' [(''hue'', hue)]] else []))
            else demo_media E str d))"

text \<open>Go's remainder has the sign of the dividend.\<close>

definition go_rem :: "int \<Rightarrow> int \<Rightarrow> int" where
  "go_rem a b = sgn a * (\<bar>a\<bar> mod \<bar>b\<bar>)"

record host_event =
  hv_type :: string
  hv_data :: string
  hv_col :: int
  hv_row :: int

definition demo_event :: "'f demo_env \<Rightarrow> host_event \<Rightarrow> demo \<Rightarrow> demo \<times> said list" where
  "demo_event E ev d =
     (if hv_type ev = ''message'' then
        (case de_hue_in E (hv_data ev) of
           None \<Rightarrow> (d, [])
         | Some h \<Rightarrow>
            (let hue = go_rem (go_rem h 360 + 360) 360; n = dm_messages d + 1 in
             (d\<lparr>dm_hue := hue, dm_messages := n, dm_note := ''the slider set the hue to '' @ itoa hue\<rparr>,
              [Say_Post ''slider'' [(''hue'', hue), (''seen'', n)]])))
      else if hv_type ev = ''drop'' then
        (case de_drop_in E (hv_data ev) of
           None \<Rightarrow> (d, [])
         | Some (p, n) \<Rightarrow>
            (let t = p @ '', '' @ itoa n @ '' bytes'' in
             (d\<lparr>dm_dropped := t, dm_note := ''a file was dropped in: '' @ t\<rparr>, [])))
      else (d\<lparr>dm_clicked := hv_type ev @ '' at cell '' @ itoa (hv_col ev) @ '','' @ itoa (hv_row ev)\<rparr>, []))"

definition demo_quit :: "demo \<Rightarrow> said list" where
  "demo_quit d = (if dm_placed d then [Say_Clear] else []) @ (if dm_picture d \<noteq> [] then [Say_Delete] else [])"

subsection \<open>The cells of a page\<close>

datatype cell_style =
    St_Text | St_Dim | St_Head | St_Tab | St_Tab_On | St_Yes | St_No | St_Note | St_Border
  | St_Back rgb | St_Both rgb rgb

type_synonym cell_put = "int \<times> int \<times> rune \<times> cell_style"

text \<open>\<^verbatim>\<open>put\<close>: one cell a rune, up to the width \<open>w\<close>; the column after them.\<close>

definition put_text :: "int \<Rightarrow> int \<Rightarrow> int \<Rightarrow> string \<Rightarrow> cell_style \<Rightarrow> cell_put list" where
  "put_text w x y s sty = (let rs = take (nat (w - x)) (runes s) in
     map (\<lambda>i. (x + int i, y, rs ! i, sty)) [0..<length rs])"

definition put_end :: "int \<Rightarrow> int \<Rightarrow> string \<Rightarrow> int" where
  "put_end w x s = x + int (length (take (nat (w - x)) (runes s)))"

definition put_box :: "int \<Rightarrow> int \<Rightarrow> int \<Rightarrow> int \<Rightarrow> cell_put list" where
  "put_box x y w h =
     concat (map (\<lambda>i. [(i, y, 0x2500, St_Border), (i, y + h - 1, 0x2500, St_Border)]) [x..x + w - 1]) @
     concat (map (\<lambda>j. [(x, j, 0x2502, St_Border), (x + w - 1, j, 0x2502, St_Border)]) [y..y + h - 1]) @
     [(x, y, 0x250C, St_Border), (x + w - 1, y, 0x2510, St_Border),
      (x, y + h - 1, 0x2514, St_Border), (x + w - 1, y + h - 1, 0x2518, St_Border)]"

definition half_blocks :: "'f demo_env \<Rightarrow> int \<Rightarrow> int \<Rightarrow> int \<Rightarrow> int \<Rightarrow> int \<Rightarrow> cell_put list" where
  "half_blocks E hue x y w h =
     concat (map (\<lambda>j. map (\<lambda>i. (x + i, y + j, 0x2580,
       St_Both (de_mandel E i w (2 * j) (2 * h) hue) (de_mandel E i w (2 * j + 1) (2 * h) hue)))
         [0..w - 1]) [0..h - 1])"

text \<open>Go's division rounds toward zero.\<close>

definition go_quot :: "int \<Rightarrow> int \<Rightarrow> int" where
  "go_quot a b = sgn a * sgn b * (\<bar>a\<bar> div \<bar>b\<bar>)"

definition pic_box :: "int \<Rightarrow> int \<Rightarrow> int \<times> int" where
  "pic_box w h = (let bw = min (go_quot (w - 6) 2) 60 in (bw, min (h - 10) (go_quot bw 2)))"

text \<open>The characters beyond ASCII, in UTF-8.\<close>

definition u_dot :: string where "u_dot = [CHR 0xC2, CHR 0xB7]"
definition u_times :: string where "u_times = [CHR 0xC3, CHR 0x97]"
definition u_check :: string where "u_check = [CHR 0xE2, CHR 0x9C, CHR 0x93]"
definition u_bullet :: string where "u_bullet = [CHR 0xE2, CHR 0x80, CHR 0xA2]"
definition u_en :: string where "u_en = [CHR 0xE2, CHR 0x80, CHR 0x93]"
definition u_em :: string where "u_em = [CHR 0xE2, CHR 0x80, CHR 0x94]"
definition u_arrows :: string where "u_arrows = [CHR 0xE2, CHR 0x86, CHR 0x90, CHR ''/'', CHR 0xE2, CHR 0x86, CHR 0x92]"

definition put_row :: "int \<Rightarrow> int \<Rightarrow> string \<Rightarrow> bool \<Rightarrow> string \<Rightarrow> cell_put list" where
  "put_row w y what ok here =
     put_text w 2 y what St_Text @
     put_text w 26 y ((if ok then u_check else u_dot) @ '' '' @ here) (if ok then St_Yes else St_No)"

text \<open>\<^verbatim>\<open>strings.ReplaceAll\<close> of \<^verbatim>\<open>kitty-graphics\<close>.\<close>

function replace_word :: "string \<Rightarrow> string \<Rightarrow> string \<Rightarrow> string" where
  "replace_word s old new =
     (if old = [] then s
      else (case index_of s old of
          None \<Rightarrow> s
        | Some i \<Rightarrow> take i s @ new @ replace_word (drop (i + length old) s) old new))"
  by pat_completeness auto

termination
  by (relation "measure (\<lambda>(s, old, new). length s)") (auto dest!: index_of_bound simp flip: length_greater_0_conv)

declare replace_word.simps [simp del]

definition host_answer :: "'f demo_env \<Rightarrow> string" where
  "host_answer E =
     (case de_caps E of
        None \<Rightarrow> ''nothing beyond cells: every page falls back to them''
      | Some c \<Rightarrow>
         if 0 < ca_v c then
           ca_host c @ '' '' @ ca_version c @ '', a progressive host; output trusted as '' @ de_quote E (ca_trust c) @
           '', cells '' @ de_fix1 E (ca_cell_w c) @ u_times @ de_fix1 E (ca_cell_h c) @ '' px''
         else (if ca_host c = [] then ''a terminal'' else ca_host c) @ '', not a progressive host; it has '' @
           replace_word (join_with (ca_features c) '' and '') ''kitty-graphics'' ''kitty's graphics'' @ '' of its own'')"

text \<open>What each page draws, and the lines it publishes.\<close>

definition draw_host :: "'f demo_env \<Rightarrow> int \<Rightarrow> cell_put list \<times> string list" where
  "draw_host E w =
     (let kg = demo_has E ''kitty-graphics''; sh = demo_has E ''ship''; pa = demo_has E ''page'';
          so = demo_has E ''sound''; mi = demo_has E ''mirror'';
          pic = (if kg then ''a real picture, laid over its cells'' else ''the picture is drawn in cells'');
          wid = (if sh then ''a slider the program sends, talking both ways'' else ''the arrow keys are the control'');
          pg = (if pa then ''title, address and links into the program''
            else if demo_remote E then ''refused: a remote program may not change the page'' else ''the window's title only'');
          md = (if so then ''sound, notifications, clipboard, downloads, file drops''
            else ''notifications and the clipboard, if the terminal allows'');
          ac = (if mi then ''a structured rendition, read by screen readers''
            else ''nothing: a screen reader reads a grid of characters'') in
      (put_text w 2 2 (''This terminal answered: '' @ host_answer E) St_Text @
       (if demo_has E ''place'' then
          put_text w 2 3 (''It offers: '' @ join_with (case de_caps E of Some c \<Rightarrow> ca_features c | None \<Rightarrow> []) '' '') St_Dim
        else []) @
       put_text w 2 5 ''So here:'' St_Head @
       put_row w 6 ''2 Pictures'' kg pic @ put_row w 7 ''3 Widgets'' sh wid @ put_row w 8 ''4 The page'' pa pg @
       put_row w 9 ''5 Media'' so md @ put_row w 10 ''6 Access'' mi ac,
       [''progdemo, a progressive terminal program.'', ''This terminal answered: '' @ host_answer E @ ''.'',
        ''Pictures: '' @ pic @ ''.'', ''Widgets: '' @ wid @ ''.'', ''The page: '' @ pg @ ''.'',
        ''Media: '' @ md @ ''.'', ''Access: '' @ ac @ ''.'']))"

definition draw_pictures :: "'f demo_env \<Rightarrow> demo \<Rightarrow> int \<Rightarrow> int \<Rightarrow> cell_put list \<times> string list" where
  "draw_pictures E d w h =
     (let (bw, bh) = pic_box w h; rx = 2 + bw + 4;
          head = put_text w 2 2 ''The same picture, drawn by the program: in cells (half blocks), and as an image.'' St_Text in
      if bw < 8 \<or> bh < 4 then
        (head @ put_text w 2 4 ''make the terminal bigger to see them'' St_Note,
         [''The pictures page: the terminal is too small to show them.''])
      else
        (head @ put_box 2 4 (bw + 2) (bh + 2) @ half_blocks E (dm_hue d) 3 5 bw bh @ put_text w 3 4 '' cells '' St_Dim @
         put_box rx 4 (bw + 2) (bh + 2) @
         (if demo_has E ''kitty-graphics'' then put_text w (rx + 1) 4 '' image '' St_Dim
          else put_text w (rx + 2) 6 ''This terminal shows no pictures:'' St_No @
               put_text w (rx + 2) 7 ''the cells at left are the picture.'' St_No) @
         put_text w 2 (bh + 7) (''hue '' @ itoa (dm_hue d) @ '' '' @ u_em @ '' '' @ u_arrows @
           '' turn it, and the picture is made again'') St_Dim,
         [''The pictures page: a Mandelbrot set drawn by the program, in character cells and, where the terminal can, as an image.'',
          ''The hue is '' @ itoa (dm_hue d) @ ''.'']))"

definition draw_widgets :: "'f demo_env \<Rightarrow> demo \<Rightarrow> int \<Rightarrow> int \<Rightarrow> cell_put list \<times> string list" where
  "draw_widgets E d w h =
     (let bar = min (w - 6) 48 in
      (put_text w 2 2 ''A widget the program sends and the host runs, sandboxed. It and the program talk both ways.'' St_Text @
       put_text w 2 4 ''The program's cells, in the slider's color:'' St_Dim @
       map (\<lambda>i. (2 + i, 5, 32, St_Back (de_bar E (dm_hue d) i bar))) [0..bar - 1] @
       put_text w 2 6 (''hue '' @ itoa (dm_hue d) @ '' '' @ u_dot @ '' messages from the widget '' @ itoa (dm_messages d) @
         '' '' @ u_dot @ '' '' @ u_arrows @ '' move the slider from here'') St_Text @
       (if dm_clicked d \<noteq> [] then put_text w 2 7 (''last click on it: '' @ dm_clicked d) St_Dim else []) @
       (if \<not> demo_has E ''ship'' then
          put_text w 2 9 ''This terminal takes no widgets: the arrow keys are the control, and the cells show it.'' St_No
        else if 16 < h then put_box 2 9 (min (w - 4) 52) 6 else []),
       [''The widgets page: a slider the program sent, which sets the color of the program's cells; the arrow keys set it too.'',
        ''The hue is '' @ itoa (dm_hue d) @ ''; the widget has sent '' @ itoa (dm_messages d) @ '' messages.'']))"

definition draw_page :: "'f demo_env \<Rightarrow> int \<Rightarrow> cell_put list \<times> string list" where
  "draw_page E w =
     (put_text w 2 2 ''A program can name the page it is on, and be linked to there.'' St_Text @
      (if demo_has E ''page'' then
         put_text w 2 4 ''Each page of this demo has an address of its own: look at the address bar.'' St_Yes @
         put_text w 2 5 ''Reload, or send the link: progdemo opens again on the same page.'' St_Yes @
         put_text w 2 6 ''i sets the page's icon.'' St_Text
       else if demo_remote E then
         put_text w 2 4 ''From another machine, the page is not the program's to change: the host refused the address.'' St_No @
         put_text w 2 5 ''The window's title (OSC 2) is the terminal's own, so it is refused too.'' St_No
       else put_text w 2 4 ''This terminal has no page: the window's title (OSC 2) is set, if it shows one.'' St_No) @
      (if link_path_of (de_caps E) \<noteq> [] then
         put_text w 2 8 (''This run was opened by a link, at '' @ link_path_of (de_caps E)) St_Note else []),
      [''The page: each demo page has an address and a title of its own, and a link opens the demo there.''])"

definition media_keys :: "(string \<times> string \<times> string \<times> string) list" where
  "media_keys =
    [(''s'', ''play a sound the program made'', ''sound'', ''no: a terminal plays no sound a program brings''),
     (''n'', ''send a notification'', ''notify'', ''maybe: many terminals show OSC 777''),
     (''c'', ''copy a line to the clipboard'', ''clipboard'', ''maybe: OSC 52, if the terminal allows it''),
     (''d'', ''offer a file to save'', ''download'', ''maybe: iTerm2 saves OSC 1337 files; most do not'')]"

definition draw_media :: "'f demo_env \<Rightarrow> demo \<Rightarrow> int \<Rightarrow> cell_put list \<times> string list" where
  "draw_media E d w =
     (put_text w 2 2 ''Things beside the cells, each over a standard sequence other terminals know too.'' St_Text @
      concat (map (\<lambda>i. case media_keys ! i of (k, what, feature, without) \<Rightarrow>
        put_text w 2 (4 + int i) (k @ ''  '' @ what) St_Text @
        (if demo_has E feature then put_text w 36 (4 + int i) (u_check @ '' yes'' @ demo_asked E) St_Yes
         else put_text w 36 (4 + int i) (u_dot @ '' '' @ without) St_No)) [0..<4]) @
      put_text w 2 9 (if demo_has E ''drop'' then ''drop a file on the terminal: it comes to the program''
        else ''this terminal sends no dropped files'') St_Dim @
      (if dm_dropped d \<noteq> [] then put_text w 2 10 (''dropped: '' @ dm_dropped d) St_Yes else []),
      [''Media: keys s, n, c and d play a sound, notify, copy and offer a file; files dropped on the terminal reach the program.''])"

definition draw_access :: "'f demo_env \<Rightarrow> demo \<Rightarrow> int \<Rightarrow> cell_put list \<times> string list" where
  "draw_access E d w =
     (let head = put_text w 2 2 ''Cells are not structure. The program also publishes what it shows, as HTML, for screen readers.'' St_Text;
          ls = take 15 (dm_last d) in
      if \<not> demo_has E ''mirror'' then
        (head @ put_text w 2 4 ''This terminal takes none: a screen reader reads its grid of characters.'' St_No, [])
      else
        (head @ put_text w 2 4 ''Here is what a screen reader is given for the page you came from:'' St_Dim @
         concat (map (\<lambda>i. put_text w 4 (6 + int i) (u_bullet @ '' '' @ ls ! i) St_Text) [0..<length ls]) @
         put_text w 2 (6 + int (length ls) + 1) ''In websh, a11y on turns on the screen reader mode that reads it.'' St_Dim,
         [''Access: this page shows what a screen reader is given for the others.'']))"

fun draw_tabs :: "int \<Rightarrow> nat \<Rightarrow> nat \<Rightarrow> int \<Rightarrow> (string \<times> string) list \<Rightarrow> cell_put list" where
  "draw_tabs w at i x [] = []" |
  "draw_tabs w at i x ((n, t) # ps) =
     (let s = '' '' @ itoa (int (i + 1)) @ '' '' @ t @ '' '' in
      put_text w (x + 1) 0 s (if i = at then St_Tab_On else St_Tab) @
      draw_tabs w at (i + 1) (put_end w (x + 1) s) ps)"

definition draw_body :: "'f demo_env \<Rightarrow> demo \<Rightarrow> int \<Rightarrow> int \<Rightarrow> cell_put list \<times> string list" where
  "draw_body E d w h =
     (if page_name d = ''host'' then draw_host E w
      else if page_name d = ''pictures'' then draw_pictures E d w h
      else if page_name d = ''widgets'' then draw_widgets E d w h
      else if page_name d = ''page'' then draw_page E w
      else if page_name d = ''media'' then draw_media E d w
      else draw_access E d w)"

definition demo_screen :: "'f demo_env \<Rightarrow> demo \<Rightarrow> int \<Rightarrow> int \<Rightarrow> cell_put list" where
  "demo_screen E d w h =
     put_text w 0 0 '' progdemo '' St_Head @ draw_tabs w (dm_at d) 0 (put_end w 0 '' progdemo '') demo_pages @
     put_text w 0 (h - 1) (''Tab or 1'' @ u_en @ ''6 pages '' @ u_dot @ '' '' @ u_arrows @ '' hue '' @ u_dot @ '' q quit'') St_Dim @
     (if dm_note d \<noteq> [] then put_text w 0 (h - 2) (dm_note d) St_Note else []) @ fst (draw_body E d w h)"

subsection \<open>What goes over the cells, and the rendition beside them\<close>

definition box_pixels :: "'f demo_env \<Rightarrow> int \<Rightarrow> int \<Rightarrow> int \<times> int" where
  "box_pixels E bw bh =
     (case de_caps E of
        Some c \<Rightarrow> if de_pos E (ca_cell_w c) then (de_scale E bw (ca_cell_w c), de_scale E bh (ca_cell_h c)) else (bw * 9, bh * 18)
      | None \<Rightarrow> (bw * 9, bh * 18))"

definition demo_after :: "'f demo_env \<Rightarrow> int \<Rightarrow> int \<Rightarrow> demo \<Rightarrow> demo \<times> said list" where
  "demo_after E w h d =
     (if page_name d = ''pictures'' then
        (let (bw, bh) = pic_box w h;
             key = itoa bw @ ''x'' @ itoa bh @ ''/'' @ itoa (dm_hue d) in
         if \<not> demo_has E ''kitty-graphics'' \<or> bw < 8 \<or> bh < 4 \<or> key = dm_picture d then (d, [])
         else (let png = (case dm_pngs d key of Some p \<Rightarrow> p
                 | None \<Rightarrow> (case box_pixels E bw bh of (pw, ph) \<Rightarrow> de_png E pw ph (dm_hue d))) in
           (d\<lparr>dm_picture := key, dm_pngs := (dm_pngs d)(key \<mapsto> png)\<rparr>, [Say_Picture 5 (2 + bw + 5) bw bh png])))
      else if page_name d = ''widgets'' then
        (if \<not> demo_has E ''ship'' \<or> h \<le> 16 then (d, [])
         else (d\<lparr>dm_shipped := True, dm_placed := True\<rparr>,
           (if dm_shipped d then [] else [Say_Ship]) @
           (if dm_placed d then []
            else [Say_Place 10 3 (min (w - 4) 52 - 2), Say_Post ''slider'' [(''hue'', dm_hue d)]])))
      else (d, []))"

text \<open>\<^verbatim>\<open>html.EscapeString\<close>.\<close>

definition html_escape :: "string \<Rightarrow> string" where
  "html_escape s = concat (map (\<lambda>c.
     if c = CHR ''&'' then ''&amp;'' else if c = CHR 0x27 then ''&#39;'' else if c = CHR ''<'' then ''&lt;''
     else if c = CHR ''>'' then ''&gt;'' else if c = CHR 0x22 then ''&#34;'' else [c]) s)"

definition demo_rendition :: "demo \<Rightarrow> string list \<Rightarrow> string" where
  "demo_rendition d ls =
     ''<h1>progdemo: '' @ html_escape (page_title d) @ ''</h1>'' @
     concat (map (\<lambda>l. ''<p>'' @ html_escape l @ ''</p>'') ls)"

definition demo_mirror :: "'f demo_env \<Rightarrow> string list \<Rightarrow> demo \<Rightarrow> demo \<times> said list" where
  "demo_mirror E ls d =
     (let d1 = (if page_name d \<noteq> ''access'' then d\<lparr>dm_last := ls\<rparr> else d); r = demo_rendition d ls in
      if \<not> demo_has E ''mirror'' \<or> r = dm_mirrored d then (d1, [])
      else (d1\<lparr>dm_mirrored := r\<rparr>, [Say_Mirror r]))"

definition demo_draw :: "'f demo_env \<Rightarrow> int \<Rightarrow> int \<Rightarrow> demo \<Rightarrow> demo \<times> said list" where
  "demo_draw E w h d =
     (let (d1, o1) = demo_after E w h d; (d2, o2) = demo_mirror E (snd (draw_body E d w h)) d1 in (d2, o1 @ o2))"

subsection \<open>The program\<close>

text \<open>Its start; and its loop over the events, each with the size the screen has once it is handled.\<close>

definition demo_start :: "'f demo_env \<Rightarrow> demo \<times> said list" where
  "demo_start E =
     (let p = trim_chars (link_path_of (de_caps E)) ''/'';
          at = fold (\<lambda>i a. if p \<noteq> [] \<and> fst (demo_pages ! i) = p then i else a) [0..<length demo_pages] 0;
          d = \<lparr>dm_at = at, dm_hue = 200, dm_note = [], dm_messages = 0, dm_clicked = [], dm_dropped = [],
               dm_shipped = False, dm_placed = False, dm_picture = [], dm_pngs = Map.empty, dm_mirrored = [], dm_last = []\<rparr>;
          (d1, out) = demo_arrive E d in
      (d1, (if demo_has E ''drop'' then [Say_Listen] else []) @ out))"

datatype demo_ev = Dv_Resize | Dv_Host host_event | Dv_Key demo_key string

definition is_quit :: "demo_ev \<Rightarrow> bool" where
  "is_quit ev = (case ev of Dv_Key k s \<Rightarrow> k = Key_Ctrl_C \<or> s = ''q'' | _ \<Rightarrow> False)"

definition demo_handle :: "'f demo_env \<Rightarrow> demo_ev \<Rightarrow> demo \<Rightarrow> demo \<times> said list" where
  "demo_handle E ev d =
     (case ev of
        Dv_Resize \<Rightarrow> (d\<lparr>dm_picture := []\<rparr>, [])
      | Dv_Host e \<Rightarrow> demo_event E e d
      | Dv_Key k s \<Rightarrow> demo_keypress E k s d)"

subsection \<open>What the host has been asked to show\<close>

text \<open>
  The host's side of it: the widget sent, whether it is placed, whether the picture is shown, and
  the rendition. A screen that is resized is cleared, and its picture with it.
\<close>

record demo_host =
  ho_shipped :: bool
  ho_placed :: bool
  ho_picture :: bool
  ho_mirror :: string

fun host_hears :: "said \<Rightarrow> demo_host \<Rightarrow> demo_host" where
  "host_hears Say_Ship ho = ho\<lparr>ho_shipped := True\<rparr>" |
  "host_hears (Say_Place row col w) ho = ho\<lparr>ho_placed := True\<rparr>" |
  "host_hears (Say_Remove i) ho = ho\<lparr>ho_placed := False\<rparr>" |
  "host_hears Say_Clear ho = ho\<lparr>ho_placed := False\<rparr>" |
  "host_hears (Say_Picture row col w h p) ho = ho\<lparr>ho_picture := True\<rparr>" |
  "host_hears Say_Delete ho = ho\<lparr>ho_picture := False\<rparr>" |
  "host_hears (Say_Mirror r) ho = ho\<lparr>ho_mirror := r\<rparr>" |
  "host_hears m ho = ho"

definition host_sized :: "demo_ev \<Rightarrow> demo_host \<Rightarrow> demo_host" where
  "host_sized ev ho = (case ev of Dv_Resize \<Rightarrow> ho\<lparr>ho_picture := False\<rparr> | _ \<Rightarrow> ho)"

definition demo_turn :: "'f demo_env \<Rightarrow> demo_ev \<times> int \<times> int \<Rightarrow> demo \<times> demo_host \<Rightarrow> demo \<times> demo_host" where
  "demo_turn E e s =
     (case e of (ev, w, h) \<Rightarrow>
        (let (d1, o1) = demo_handle E ev (fst s); (d2, o2) = demo_draw E w h d1 in
         (d2, fold host_hears (o1 @ o2) (host_sized ev (snd s)))))"

text \<open>The loop; whether it has quit. \<open>Fini\<close> and the exit say nothing to the host.\<close>

fun demo_loop ::
  "'f demo_env \<Rightarrow> (demo_ev \<times> int \<times> int) list \<Rightarrow> demo \<times> demo_host \<Rightarrow> (demo \<times> demo_host) \<times> bool"
where
  "demo_loop E [] s = (s, False)" |
  "demo_loop E (e # es) s =
     (if is_quit (fst e) then ((fst s, fold host_hears (demo_quit (fst s)) (snd s)), True)
      else demo_loop E es (demo_turn E e s))"

definition demo_run :: "'f demo_env \<Rightarrow> int \<Rightarrow> int \<Rightarrow> (demo_ev \<times> int \<times> int) list \<Rightarrow> (demo \<times> demo_host) \<times> bool" where
  "demo_run E w h es =
     (let (d, o1) = demo_start E; (d1, o2) = demo_draw E w h d;
          ho = \<lparr>ho_shipped = False, ho_placed = False, ho_picture = False, ho_mirror = []\<rparr> in
      demo_loop E es (d1, fold host_hears (o1 @ o2) ho))"

definition demo_agrees :: "demo \<Rightarrow> demo_host \<Rightarrow> bool" where
  "demo_agrees d ho =
     (dm_shipped d = ho_shipped ho \<and> dm_placed d = ho_placed ho \<and> (dm_picture d \<noteq> []) = ho_picture ho \<and>
      dm_mirrored d = ho_mirror ho)"

definition demo_ok :: "'f demo_env \<Rightarrow> demo \<Rightarrow> bool" where
  "demo_ok E d =
     (dm_at d < length demo_pages \<and> 0 \<le> dm_hue d \<and> dm_hue d < 360 \<and>
      (dm_placed d \<longrightarrow> dm_shipped d \<and> demo_has E ''ship'' \<and> page_name d = ''widgets'') \<and>
      (dm_picture d \<noteq> [] \<longrightarrow> demo_has E ''kitty-graphics'' \<and> page_name d = ''pictures''))"

text \<open>What is said needs only what the host offers.\<close>

fun needs :: "said \<Rightarrow> string option" where
  "needs (Say_Page p t) = Some ''page''" |
  "needs Say_Listen = Some ''drop''" |
  "needs Say_Beep = Some ''sound''" |
  "needs (Say_Picture row col w h p) = Some ''kitty-graphics''" |
  "needs Say_Ship = Some ''ship''" |
  "needs (Say_Place row col w) = Some ''ship''" |
  "needs (Say_Mirror r) = Some ''mirror''" |
  "needs m = None"

definition within :: "'f demo_env \<Rightarrow> said list \<Rightarrow> bool" where
  "within E ms = list_all (\<lambda>m. case needs m of Some f \<Rightarrow> demo_has E f | None \<Rightarrow> True) ms"

lemma within_simps [simp]:
  "within E []" "within E (m # ms) = ((case needs m of Some f \<Rightarrow> demo_has E f | None \<Rightarrow> True) \<and> within E ms)"
  "within E (ms @ ns) = (within E ms \<and> within E ns)"
  by (simp_all add: within_def)

text \<open>A step keeps its promise when it keeps the agreement and the invariant, and says no more than the host offers.\<close>

definition keeps :: "'f demo_env \<Rightarrow> (demo \<Rightarrow> demo \<times> said list) \<Rightarrow> demo \<Rightarrow> bool" where
  "keeps E f d = (\<forall>ho. demo_agrees d ho \<longrightarrow>
     demo_agrees (fst (f d)) (fold host_hears (snd (f d)) ho) \<and> demo_ok E (fst (f d)) \<and> within E (snd (f d)))"

lemma keepsD:
  "\<lbrakk>keeps E f d; demo_agrees d ho; f d = (d1, out)\<rbrakk> \<Longrightarrow>
   demo_agrees d1 (fold host_hears out ho) \<and> demo_ok E d1 \<and> within E out"
  by (auto simp: keeps_def)

text \<open>The page may have changed just before.\<close>

lemma arrive_keeps:
  assumes "demo_ok E d" "i < length demo_pages"
  shows "keeps E (\<lambda>d. demo_arrive E (d\<lparr>dm_at := i\<rparr>)) d"
  using assms by (auto simp: keeps_def demo_arrive_def Let_def demo_agrees_def demo_ok_def page_name_def)

lemma hue_range: "0 \<le> go_rem (go_rem h 360 + 360) 360 \<and> go_rem (go_rem h 360 + 360) 360 < 360"
proof -
  have "- 360 < go_rem h 360" unfolding go_rem_def sgn_if
    using pos_mod_bound [of 360 "\<bar>h\<bar>"] pos_mod_sign [of 360 "\<bar>h\<bar>"] by auto
  then show ?thesis by (simp add: go_rem_def [of "go_rem h 360 + 360"] sgn_if)
qed

lemma media_keeps: "demo_ok E d \<Longrightarrow> keeps E (demo_media E key) d"
  by (auto simp: keeps_def demo_media_def Let_def demo_agrees_def demo_ok_def page_name_def)

lemma event_keeps: "demo_ok E d \<Longrightarrow> keeps E (demo_event E ev) d"
  using hue_range by (auto simp: keeps_def demo_event_def Let_def demo_agrees_def demo_ok_def page_name_def split: option.split)

lemma key_keeps:
  assumes "demo_ok E d"
  shows "keeps E (demo_keypress E k str) d"
proof -
  define digit where "digit = (case str of [c] \<Rightarrow> if 49 \<le> byte_of c \<and> byte_of c - 49 < length demo_pages
            then Some (byte_of c - 49) else None | _ \<Rightarrow> None)"
  have dg: "digit = Some i \<Longrightarrow> i < length demo_pages" for i
    by (auto simp: digit_def split: list.splits if_splits)
  have pos: "0 < length demo_pages" by (simp add: demo_pages_def)
  consider "k = Key_Tab" | "k = Key_Backtab" | i where "k \<noteq> Key_Tab" "k \<noteq> Key_Backtab" "digit = Some i"
    | "k = Key_Left \<or> k = Key_Right" "digit = None" | "k \<notin> {Key_Tab, Key_Backtab, Key_Left, Key_Right}" "digit = None"
    by (cases digit) auto
  then show ?thesis
  proof cases
    case 1
    then show ?thesis using arrive_keeps [OF assms, of "(dm_at d + 1) mod length demo_pages"] pos
      by (simp add: keeps_def demo_keypress_def Let_def)
  next
    case 2
    then show ?thesis using arrive_keeps [OF assms, of "(dm_at d + length demo_pages - 1) mod length demo_pages"] pos
      by (simp add: keeps_def demo_keypress_def Let_def)
  next
    case 3
    then show ?thesis using arrive_keeps [OF assms, of i] dg
      by (simp add: keeps_def demo_keypress_def Let_def flip: digit_def)
  next
    case 4
    then show ?thesis using assms
      by (auto simp: keeps_def demo_keypress_def Let_def demo_agrees_def demo_ok_def page_name_def simp flip: digit_def)
  next
    case 5
    then show ?thesis using media_keeps [OF assms, of str]
      by (simp add: keeps_def demo_keypress_def Let_def flip: digit_def)
  qed
qed

lemma after_keeps: "demo_ok E d \<Longrightarrow> keeps E (demo_after E w h) d"
  by (auto simp: keeps_def demo_after_def Let_def demo_agrees_def demo_ok_def page_name_def split: prod.split)

lemma mirror_keeps: "demo_ok E d \<Longrightarrow> keeps E (demo_mirror E ls) d"
  by (auto simp: keeps_def demo_mirror_def Let_def demo_agrees_def demo_ok_def page_name_def)

lemma draw_keeps:
  assumes "demo_ok E d"
  shows "keeps E (demo_draw E w h) d"
  unfolding keeps_def
proof (intro allI impI)
  fix ho assume a: "demo_agrees d ho"
  obtain d1 o1 where 1: "demo_after E w h d = (d1, o1)" by fastforce
  obtain d2 o2 where 2: "demo_mirror E (snd (draw_body E d w h)) d1 = (d2, o2)" by fastforce
  from keepsD [OF after_keeps [OF assms] a 1]
  have k: "demo_agrees d1 (fold host_hears o1 ho)" "demo_ok E d1" "within E o1" by blast+
  from keepsD [OF mirror_keeps [OF k(2)] k(1) 2] k(3)
  show "demo_agrees (fst (demo_draw E w h d)) (fold host_hears (snd (demo_draw E w h d)) ho) \<and>
      demo_ok E (fst (demo_draw E w h d)) \<and> within E (snd (demo_draw E w h d))"
    by (simp add: demo_draw_def 1 2)
qed

text \<open>A resized screen has lost its picture on both sides.\<close>

lemma handle_keeps:
  assumes "demo_ok E d" "demo_agrees d ho" "demo_handle E ev d = (d1, out)"
  shows "demo_agrees d1 (fold host_hears out (host_sized ev ho)) \<and> demo_ok E d1 \<and> within E out"
proof (cases ev)
  case Dv_Resize
  with assms show ?thesis
    by (auto simp: demo_handle_def host_sized_def demo_agrees_def demo_ok_def page_name_def)
next
  case (Dv_Host e)
  with assms keepsD [OF event_keeps [OF assms(1)] assms(2), of e] show ?thesis
    by (simp add: demo_handle_def host_sized_def)
next
  case (Dv_Key k str)
  with assms keepsD [OF key_keeps [OF assms(1)] assms(2), of k str] show ?thesis
    by (simp add: demo_handle_def host_sized_def)
qed

definition demo_inv :: "'f demo_env \<Rightarrow> demo \<times> demo_host \<Rightarrow> bool" where
  "demo_inv E s = (demo_ok E (fst s) \<and> demo_agrees (fst s) (snd s))"

lemma turn_inv:
  assumes "demo_inv E s"
  shows "demo_inv E (demo_turn E e s)"
proof -
  obtain ev w h where e: "e = (ev, w, h)" by (cases e)
  obtain d1 o1 where 1: "demo_handle E ev (fst s) = (d1, o1)" by fastforce
  obtain d2 o2 where 2: "demo_draw E w h d1 = (d2, o2)" by fastforce
  from handle_keeps [OF _ _ 1] assms
  have k: "demo_agrees d1 (fold host_hears o1 (host_sized ev (snd s)))" "demo_ok E d1"
    by (auto simp: demo_inv_def)
  from keepsD [OF draw_keeps [OF k(2)] k(1) 2] show ?thesis
    by (simp add: demo_turn_def e 1 2 demo_inv_def)
qed

lemma start_at: "fold (\<lambda>i a. if P i then i else a) is a < n" if "a < n" "\<forall>i\<in>set is. i < (n :: nat)"
  using that by (induction "is" arbitrary: a) auto

lemma start_ok:
  assumes "demo_start E = (d, out)"
  shows "demo_ok E d \<and> demo_agrees d (fold host_hears out
    \<lparr>ho_shipped = False, ho_placed = False, ho_picture = False, ho_mirror = []\<rparr>) \<and> within E out"
proof -
  let ?p = "trim_chars (link_path_of (de_caps E)) ''/''"
  let ?ho = "\<lparr>ho_shipped = False, ho_placed = False, ho_picture = False, ho_mirror = []\<rparr>"
  define at where "at = fold (\<lambda>i a. if ?p \<noteq> [] \<and> fst (demo_pages ! i) = ?p then i else a) [0..<length demo_pages] 0"
  define d0 where "d0 = \<lparr>dm_at = at, dm_hue = 200, dm_note = [], dm_messages = 0, dm_clicked = [], dm_dropped = [],
     dm_shipped = False, dm_placed = False, dm_picture = [], dm_pngs = Map.empty, dm_mirrored = [], dm_last = []\<rparr>"
  obtain d1 o1 where 1: "demo_arrive E d0 = (d1, o1)" by fastforce
  have at: "at < length demo_pages" unfolding at_def by (rule start_at) (auto simp: demo_pages_def)
  then have ok: "demo_ok E d0" "demo_agrees d0 ?ho" by (simp_all add: d0_def demo_ok_def demo_agrees_def)
  have same: "d0\<lparr>dm_at := at\<rparr> = d0" by (simp add: d0_def)
  from keepsD [OF arrive_keeps [OF ok(1) at] ok(2)] 1
  have k: "demo_agrees d1 (fold host_hears o1 ?ho) \<and> demo_ok E d1 \<and> within E o1" by (simp add: same)
  have "demo_start E = (d1, (if demo_has E ''drop'' then [Say_Listen] else []) @ o1)"
    using 1 by (simp add: demo_start_def Let_def d0_def at_def)
  with assms k show ?thesis by auto
qed

lemma loop_inv: "demo_inv E s \<Longrightarrow> \<not> snd (demo_loop E es s) \<Longrightarrow> demo_inv E (fst (demo_loop E es s))"
  by (induction es arbitrary: s) (auto simp: turn_inv split: if_splits)

lemma loop_quit:
  "demo_inv E s \<Longrightarrow> snd (demo_loop E es s) \<Longrightarrow>
   \<not> ho_placed (snd (fst (demo_loop E es s))) \<and> \<not> ho_picture (snd (fst (demo_loop E es s)))"
proof (induction es arbitrary: s)
  case (Cons e es)
  show ?case
  proof (cases "is_quit (fst e)")
    case True
    with Cons.prems show ?thesis by (auto simp: demo_inv_def demo_agrees_def demo_quit_def)
  next
    case False
    with Cons.prems Cons.IH [OF turn_inv [OF Cons.prems(1)], of e] show ?thesis by simp
  qed
qed simp

text \<open>
  Whatever keys are pressed, whatever the host reports and however the screen is resized,
  what the program takes to be placed, sent and shown is what it has asked the host for; its page
  and hue stay in range; and once it has quit, no widget and no picture of its is left.
\<close>

lemma demo_leaves_nothing:
  "case demo_run E w h es of ((d, ho), quit) \<Rightarrow>
     (if quit then \<not> ho_placed ho \<and> \<not> ho_picture ho else demo_ok E d \<and> demo_agrees d ho)"
proof -
  obtain d o1 where 1: "demo_start E = (d, o1)" by fastforce
  obtain d1 o2 where 2: "demo_draw E w h d = (d1, o2)" by fastforce
  let ?ho = "\<lparr>ho_shipped = False, ho_placed = False, ho_picture = False, ho_mirror = []\<rparr>"
  from start_ok [OF 1] have k: "demo_ok E d" "demo_agrees d (fold host_hears o1 ?ho)" by blast+
  from keepsD [OF draw_keeps [OF k(1)] k(2) 2]
  have "demo_inv E (d1, fold host_hears (o1 @ o2) ?ho)" by (simp add: demo_inv_def)
  from loop_inv [OF this, of es] loop_quit [OF this, of es] show ?thesis
    by (auto simp: demo_run_def 1 2 demo_inv_def split: prod.splits)
qed

subsection \<open>Its sound and its pictures\<close>

text \<open>The sizes written in the sound's head are those of the file and its samples.\<close>

lemma beep_sizes:
  "length wav_beep = 44 + 1600 \<and> take 4 (drop 4 wav_beep) = le_bytes 4 (length wav_beep - 8) \<and>
   take 4 (drop 40 wav_beep) = le_bytes 4 (length wav_beep - 44)"
  by (simp add: wav_beep_def le_bytes_def)

lemma le_bytes_value:
  "n < 256 ^ k \<Longrightarrow> (\<Sum>i<k. byte_of (le_bytes k n ! i) * 256 ^ i) = n"
proof (induction k arbitrary: n)
  case (Suc k)
  have nth: "\<And>i m. i < m \<Longrightarrow> byte_of (le_bytes m n ! i) = n div 256 ^ i mod 256" for n
    by (simp add: le_bytes_def)
  have "(\<Sum>i<Suc k. byte_of (le_bytes (Suc k) n ! i) * 256 ^ i) =
      n mod 256 + (\<Sum>i<k. (n div 256) div 256 ^ i mod 256 * 256 ^ Suc i)"
    by (subst sum.lessThan_Suc_shift) (simp add: nth div_mult2_eq)
  also have "(\<Sum>i<k. (n div 256) div 256 ^ i mod 256 * 256 ^ Suc i) =
      256 * (\<Sum>i<k. byte_of (le_bytes k (n div 256) ! i) * 256 ^ i)"
    by (simp add: sum_distrib_left nth mult.left_commute)
  also have "\<dots> = 256 * (n div 256)"
    using Suc.prems by (subst Suc.IH) (auto simp: less_mult_imp_div_less mult.commute)
  finally show ?case by simp
qed simp

text \<open>A picture cut in pieces of base64 is one cut in pieces of bytes.\<close>

lemma b64_encode_append: "length a mod 3 = 0 \<Longrightarrow> b64_encode (a @ b) = b64_encode a @ b64_encode b"
proof (induction a rule: b64_encode.induct)
  case (4 x y z s)
  then show ?case by (simp add: mod_Suc split: if_splits)
qed auto

lemma b64_encode_size: "length (b64_encode d) = 4 * ((length d + 2) div 3)"
proof (induction d rule: b64_encode.induct)
  case (4 a b c s)
  have "(length s + 5) div 3 = Suc ((length s + 2) div 3)" by presburger
  with 4 show ?case by (simp add: b64_group_def add.commute)
qed (auto simp: b64_group_def)

lemma b64_cut:
  assumes "3072 < length d"
  shows "4096 < length (b64_encode d)" "take 4096 (b64_encode d) = b64_encode (take 3072 d)"
    "drop 4096 (b64_encode d) = b64_encode (drop 3072 d)"
proof -
  have "b64_encode d = b64_encode (take 3072 d) @ b64_encode (drop 3072 d)"
    using b64_encode_append [of "take 3072 d" "drop 3072 d"] assms by simp
  moreover have "length (b64_encode (take 3072 d)) = 4096" using assms by (simp add: b64_encode_size)
  ultimately show "take 4096 (b64_encode d) = b64_encode (take 3072 d)"
    "drop 4096 (b64_encode d) = b64_encode (drop 3072 d)" by simp_all
  show "4096 < length (b64_encode d)" using assms by (simp add: b64_encode_size)
qed

lemma pieces_last:
  assumes "length d \<le> 3072" "d \<noteq> [] \<or> first"
  shows "picture_pieces keys (b64_encode d) first =
    [''G'' @ (if first then keys @ '','' else []) @ ''m=0;'' @ b64_encode d]"
proof -
  have "length (b64_encode d) \<le> 4096" using assms(1) by (simp add: b64_encode_size)
  moreover have "b64_encode d \<noteq> [] \<or> first" using assms(2) by (cases d rule: b64_encode.cases) (auto simp: b64_group_def)
  ultimately show ?thesis
    by (subst picture_pieces.simps) (auto simp: Let_def min_def picture_pieces.simps [of keys "[]" False])
qed

lemma pieces_more:
  assumes "3072 < length d"
  shows "picture_pieces keys (b64_encode d) first =
    (''G'' @ (if first then keys @ '','' else []) @ ''m=1;'' @ b64_encode (take 3072 d)) #
    picture_pieces keys (b64_encode (drop 3072 d)) False"
  using b64_cut [OF assms] by (subst picture_pieces.simps) (auto simp: Let_def min_def)

lemma pieces_rest:
  "d \<noteq> [] \<Longrightarrow> \<exists>cs c. concat cs @ c = d \<and>
     picture_pieces keys (b64_encode d) False = map (kitty_next ''1'') cs @ [kitty_next ''0'' c]"
proof (induction "length d" arbitrary: d rule: less_induct)
  case less
  show ?case
  proof (cases "length d \<le> 3072")
    case True
    with less.prems show ?thesis
      by (intro exI [of _ "[]"] exI [of _ d]) (simp add: pieces_last kitty_next_def)
  next
    case False
    then have "length (drop 3072 d) < length d" "drop 3072 d \<noteq> []" by simp_all
    from less.hyps [OF this] obtain cs c where cs: "concat cs @ c = drop 3072 d"
      "picture_pieces keys (b64_encode (drop 3072 d)) False = map (kitty_next ''1'') cs @ [kitty_next ''0'' c]"
      by blast
    then have "concat (take 3072 d # cs) @ c = d" by simp
    with cs False show ?thesis
      by (intro exI [of _ "take 3072 d # cs"] exI [of _ c]) (simp add: pieces_more kitty_next_def)
  qed
qed

lemma itoa_no_semicolon: "CHR '';'' \<notin> set (itoa n)"
  using itoa_nat_digits [of "nat n"] itoa_nat_digits [of "nat (- n)"]
  by (auto simp: itoa_def list_all_iff is_digit_def byte_of_def)

text \<open>
  The picture the program sends in pieces of base64 is, at the host, the picture sent whole: with no
  other picture under way there, and within its limit.
\<close>

lemma demo_picture_arrives:
  assumes "im_ctl s = None" "im_part s = []" "length d \<le> image_limit"
  shows "kitty_all T L (picture_pieces (picture_keys w h) (b64_encode d) True) (s, t) =
    kitty T L (kitty_first (picture_keys w h) ''0'' d) (s, t)"
proof (cases "length d \<le> 3072")
  case True
  then show ?thesis by (simp add: pieces_last kitty_first_def kitty_all_Nil)
next
  case False
  with pieces_rest [of "drop 3072 d" "picture_keys w h"] obtain cs c where cs: "concat cs @ c = drop 3072 d"
    "picture_pieces (picture_keys w h) (b64_encode (drop 3072 d)) False = map (kitty_next ''1'') cs @ [kitty_next ''0'' c]"
    by auto
  have d: "take 3072 d @ concat cs @ c = d" by (simp add: cs(1))
  have "length (concat (take 3072 d # cs)) + length c = length d"
    unfolding arg_cong [OF d, of length, symmetric] by simp
  with assms(3) have lim: "length (concat (take 3072 d # cs)) \<le> image_limit" by linarith
  have ks: "CHR '';'' \<notin> set (picture_keys w h)"
    by (simp add: picture_keys_def itoa_no_semicolon)
  from kitty_chunks_eq [OF ks assms(1,2) lim, of T L c t] False show ?thesis
    by (simp add: pieces_more cs(2) kitty_first_def d)
qed

text \<open>What is written on a line stays within the width of the screen.\<close>

lemma text_in_width: "0 \<le> x \<Longrightarrow> (i, j, r, sty) \<in> set (put_text w x y s sty') \<Longrightarrow> 0 \<le> i \<and> i < w \<and> j = y"
  by (auto simp: put_text_def Let_def)

text \<open>The rendition of a page holds none of its text as markup.\<close>

lemma escaped_no_markup: "CHR ''<'' \<notin> set (html_escape s) \<and> CHR ''>'' \<notin> set (html_escape s) \<and> CHR 0x22 \<notin> set (html_escape s)"
  by (auto simp: html_escape_def split: if_splits)

end
