(* ===== verification/Remote_Dial.thy ===== *)
theory Remote_Dial
  imports Ssh_Keys Known_Hosts Remote_Args Key_Escape
begin

text \<open>
  Reaching another machine: \<^verbatim>\<open>Dial\<close> of \<^verbatim>\<open>src/shell/ssh/client.go\<close> and of
  \<^verbatim>\<open>src/shell/mosh/client.go\<close>, the signatures of a locked key, and the ssh applet from its
  arguments to its status (\<^verbatim>\<open>src/shell/ssh/applet.go\<close>). The Wisp client, the ssh handshake and
  the signing are libraries, parameters that say how each step ends. The lemmas: whatever is
  opened on the way to a failure is closed, and nothing is after a success; a locked key is asked
  for once; the terminal is never left raw and the session's trust is taken back.
\<close>

subsection \<open>What is opened and closed\<close>

datatype net_act = Wisp_Open | Wisp_Close | Conn_Open string | Conn_Close | Ssh_Shake | Ssh_Close

definition net_open :: "net_act list \<Rightarrow> int \<times> int" where
  "net_open as =
     (int (length (filter (\<lambda>a. a = Wisp_Open) as)) - int (length (filter (\<lambda>a. a = Wisp_Close) as)),
      int (length (filter (\<lambda>a. case a of Conn_Open x \<Rightarrow> True | _ \<Rightarrow> False) as)) -
        int (length (filter (\<lambda>a. a = Conn_Close) as)))"

subsection \<open>Dialing ssh\<close>

text \<open>\<^verbatim>\<open>net.JoinHostPort\<close>.\<close>

definition join_host_port :: "string \<Rightarrow> string \<Rightarrow> string" where
  "join_host_port host port =
     (if CHR '':'' \<in> set host then ''['' @ host @ '']:'' @ port else host @ '':'' @ port)"

text \<open>
  \<^verbatim>\<open>ClientConfig\<close>, as far as it is data: the callbacks are \<open>host_key_check\<close>, \<open>interactive\<close> and
  \<open>tty_password\<close>. \<open>cf_auth\<close> is the methods in their order with the times each is tried.
\<close>

datatype auth_method = Auth_Keys | Auth_Interactive | Auth_Password string

record ('s, 'p) ssh_config =
  cf_user :: string
  cf_display :: string
  cf_addr :: string
  cf_algorithms :: "string list"
  cf_signers :: "('s, 'p) signer list"
  cf_auth :: "(auth_method \<times> nat) list"

text \<open>
  How the steps end, an error or not: the Wisp session, the stream to the host, the handshake (given
  the configuration and what is left to read), and whether the context is over by then.
\<close>

record ('s, 'p) ssh_net =
  dn_wisp :: "string option"
  dn_conn :: "string option"
  dn_shake :: "('s, 'p) ssh_config \<Rightarrow> tty_read list \<Rightarrow> string option"
  dn_ended :: "string option"

definition ssh_port :: "nat \<Rightarrow> nat" where
  "ssh_port p = (if p = 0 then 22 else p)"

definition ssh_connect :: "('s, 'p) ssh_net \<Rightarrow> ('s, 'p) ssh_config \<Rightarrow> tty_read list \<Rightarrow> net_act list \<times> string option" where
  "ssh_connect N c rs =
     (case dn_wisp N of
        Some e \<Rightarrow> ([], Some (''wisp: '' @ e))
      | None \<Rightarrow>
     (case dn_conn N of
        Some e \<Rightarrow> ([Wisp_Open, Wisp_Close], Some (''connect to '' @ cf_display c @ '': '' @ e))
      | None \<Rightarrow>
     (case dn_shake N c rs of
        Some e \<Rightarrow> ([Wisp_Open, Conn_Open (cf_addr c), Ssh_Shake, Conn_Close, Wisp_Close],
          Some (case dn_ended N of Some x \<Rightarrow> x | None \<Rightarrow> tidy_auth_error e (cf_user c) (cf_display c)))
      | None \<Rightarrow> ([Wisp_Open, Conn_Open (cf_addr c), Ssh_Shake], None))))"

text \<open>
  \<^verbatim>\<open>Dial\<close>: the network is reached only once the known hosts and the keys are read, so the
  passphrase of a key that hides its public half is asked for before. What it does, what it prints
  before it connects, the configuration and the error.
\<close>

record ('s, 'p) dialed =
  dd_acts :: "net_act list"
  dd_print :: string
  dd_config :: "('s, 'p) ssh_config option"
  dd_error :: "string option"

definition ssh_dial ::
  "'k ssh_lib \<Rightarrow> ('s, 'p) key_lib \<Rightarrow> file_read \<Rightarrow> (string \<Rightarrow> string + string) \<Rightarrow> (string \<Rightarrow> string) \<Rightarrow>
   ('s, 'p) ssh_net \<Rightarrow> ssh_args \<Rightarrow> string list \<Rightarrow> tty_read list \<Rightarrow> ('s, 'p) dialed"
where
  "ssh_dial Z K kh fs in_ssh N a files rs =
     (if d_wisp a = [] then
        \<lparr>dd_acts = [], dd_print = [], dd_config = None,
         dd_error = Some ''no Wisp server: give --wisp ws://HOST/PATH or set WISP_URL''\<rparr>
      else (let port = ssh_port (d_port a) in
        case load_known_hosts Z kh of
          Inl e \<Rightarrow> \<lparr>dd_acts = [], dd_print = [], dd_config = None, dd_error = Some e\<rparr>
        | Inr es \<Rightarrow>
           (let addr = join_host_port (d_host a) (itoa (int port));
                display = display_host (d_host a) port;
                ids = load_identities K fs in_ssh files rs;
                c = \<lparr>cf_user = d_user a, cf_display = display, cf_addr = addr,
                     cf_algorithms = host_algorithms Z es (z_normalize Z addr), cf_signers = id_list ids,
                     cf_auth = [(Auth_Keys, 1), (Auth_Interactive, 3),
                       (Auth_Password (d_user a @ ''@'' @ d_host a @ [CHR 0x27] @ ''s password: ''), 3)]\<rparr>;
                (acts, e) = ssh_connect N c (id_rest ids) in
            \<lparr>dd_acts = acts, dd_print = id_print ids, dd_config = Some c, dd_error = e\<rparr>)))"

text \<open>\<^verbatim>\<open>Client.Close\<close>: the ssh connection first, then the session under it; the first's error counts.\<close>

definition ssh_close :: "string option \<Rightarrow> net_act list \<times> string option" where
  "ssh_close e = ([Ssh_Close, Conn_Close, Wisp_Close], e)"

lemma connect_closes:
  "ssh_connect N c rs = (as, e) \<Longrightarrow> net_open as = (if e = None then (1, 1) else (0, 0))"
  by (auto simp: ssh_connect_def net_open_def split: option.splits)

text \<open>A dial that fails leaves no stream and no Wisp session; one that succeeds leaves one of each, which \<^verbatim>\<open>Close\<close> ends.\<close>

lemma dial_leaves_nothing:
  assumes "ssh_dial Z K kh fs in_ssh N a files rs = d"
  shows "net_open (dd_acts d) = (if dd_error d = None then (1, 1) else (0, 0))"
    and "dd_error d = None \<Longrightarrow> net_open (dd_acts d @ fst (ssh_close e)) = (0, 0)"
proof -
  have "dd_acts d = [] \<and> dd_error d \<noteq> None \<or> (\<exists>c rs'. ssh_connect N c rs' = (dd_acts d, dd_error d))"
    using assms by (auto simp: ssh_dial_def Let_def split: if_splits sum.splits prod.splits)
  then show 1: "net_open (dd_acts d) = (if dd_error d = None then (1, 1) else (0, 0))"
    using connect_closes by (fastforce simp: net_open_def)
  assume "dd_error d = None"
  with 1 have "net_open (dd_acts d) = (1, 1)" by simp
  then show "net_open (dd_acts d @ fst (ssh_close e)) = (0, 0)"
    by (simp add: net_open_def ssh_close_def)
qed

text \<open>The network is reached only when the known hosts could be read.\<close>

lemma dial_reads_hosts_first:
  assumes "dd_acts (ssh_dial Z K kh fs in_ssh N a files rs) \<noteq> []"
  shows "d_wisp a \<noteq> [] \<and> (\<exists>es. load_known_hosts Z kh = Inr es)"
  using assms by (auto simp: ssh_dial_def Let_def split: if_splits sum.splits)

subsection \<open>Signing with a locked key\<close>

text \<open>\<open>lk_tried\<close> is what the one \<open>unlock\<close> gave; None before it.\<close>

record 's locked_key =
  lk_file :: string
  lk_pem :: string
  lk_tried :: "'s option option"

definition locked_open ::
  "('s, 'p) key_lib \<Rightarrow> 's locked_key \<Rightarrow> tty_read list \<Rightarrow> (string + 's) \<times> 's locked_key \<times> tty_read list \<times> string"
where
  "locked_open K k rs =
     (let (r, rest, w) = (case lk_tried k of
            Some r \<Rightarrow> (r, rs, [])
          | None \<Rightarrow> unlock 3 K (lk_file k) (lk_pem k) rs) in
      (case r of Some s \<Rightarrow> Inr s | None \<Rightarrow> Inl (''no passphrase for '' @ lk_file k),
       k\<lparr>lk_tried := Some r\<rparr>, rest, w))"

text \<open>
  \<^verbatim>\<open>Sign\<close> and \<^verbatim>\<open>SignWithAlgorithm\<close>; \<open>alg\<close> is the algorithm where one is asked for, and \<open>with\<close> the
  key's own way to sign with it, if it has one.
\<close>

definition locked_sign ::
  "('s, 'p) key_lib \<Rightarrow> ('s \<Rightarrow> string \<Rightarrow> string + string) \<Rightarrow> ('s \<Rightarrow> (string \<Rightarrow> string \<Rightarrow> string + string) option) \<Rightarrow>
   string option \<Rightarrow> string \<Rightarrow> 's locked_key \<Rightarrow> tty_read list \<Rightarrow> (string + string) \<times> 's locked_key \<times> tty_read list \<times> string"
where
  "locked_sign K sign sign_as alg b k rs =
     (case locked_open K k rs of (r, k1, rest, w) \<Rightarrow>
       (case r of
          Inl e \<Rightarrow> Inl e
        | Inr s \<Rightarrow> (case alg of
            None \<Rightarrow> sign s b
          | Some a \<Rightarrow> (case sign_as s of Some f \<Rightarrow> f b a | None \<Rightarrow> sign s b)),
        k1, rest, w))"

text \<open>Once a key has been opened, or refused, nothing more is asked for it and the answer stays.\<close>

lemma locked_asked_once:
  assumes "locked_open K k rs = (r, k1, rest, w)"
  shows "locked_open K k1 rs' = (r, k1, rs', [])"
  using assms by (auto simp: locked_open_def Let_def split: prod.splits option.splits)

fun sign_all ::
  "('s, 'p) key_lib \<Rightarrow> ('s \<Rightarrow> string \<Rightarrow> string + string) \<Rightarrow> ('s \<Rightarrow> (string \<Rightarrow> string \<Rightarrow> string + string) option) \<Rightarrow>
   (string option \<times> string) list \<Rightarrow> 's locked_key \<Rightarrow> tty_read list \<Rightarrow> (string + string) list \<times> tty_read list \<times> string"
where
  "sign_all K sign sign_as [] k rs = ([], rs, [])" |
  "sign_all K sign sign_as ((alg, b) # bs) k rs =
     (case locked_sign K sign sign_as alg b k rs of (r, k1, rest, w) \<Rightarrow>
       (case sign_all K sign sign_as bs k1 rest of (rs', rest', w') \<Rightarrow> (r # rs', rest', w @ w')))"

lemma sign_all_opened:
  "lk_tried k \<noteq> None \<Longrightarrow> snd (sign_all K sign sign_as bs k rs) = (rs, [])"
proof (induction bs arbitrary: k)
  case (Cons x bs)
  obtain alg b where x: "x = (alg, b)" by (cases x)
  from Cons.prems obtain r where r: "lk_tried k = Some r" by auto
  then have "locked_sign K sign sign_as alg b k rs = (fst (locked_sign K sign sign_as alg b k rs), k\<lparr>lk_tried := Some r\<rparr>, rs, [])"
    by (simp add: locked_sign_def locked_open_def split: prod.split)
  with Cons.IH [of "k\<lparr>lk_tried := Some r\<rparr>"] show ?case
    by (simp add: x split: prod.splits) (metis append_Nil prod.sel snd_conv)
qed simp

text \<open>However many signatures the server asks of a locked key, the person is asked as for one.\<close>

lemma passphrase_asked_once:
  "snd (sign_all K sign sign_as ((alg, b) # bs) k rs) = snd (sign_all K sign sign_as [(alg, b)] k rs)"
proof -
  obtain r k1 rest w where s: "locked_sign K sign sign_as alg b k rs = (r, k1, rest, w)" by (cases "locked_sign K sign sign_as alg b k rs")
  then have "lk_tried k1 \<noteq> None"
    by (auto simp: locked_sign_def locked_open_def Let_def split: prod.splits)
  from sign_all_opened [OF this, of K sign sign_as bs rest] show ?thesis
    by (cases "sign_all K sign sign_as bs k1 rest") (simp add: s)
qed

subsection \<open>The ssh applet\<close>

definition needs_value_text :: "string \<Rightarrow> string" where
  "needs_value_text s = ''option '' @ s @ '' needs a value''"

text \<open>The messages of the argument errors; \<open>quote\<close> is \<^verbatim>\<open>strconv.Quote\<close>.\<close>

fun arg_text :: "(string \<Rightarrow> string) \<Rightarrow> arg_err \<Rightarrow> string" where
  "arg_text quote Arg_Help = ''help''" |
  "arg_text quote (Needs_Value s) = needs_value_text s" |
  "arg_text quote (Bad_Port s) = ''bad port '' @ quote s" |
  "arg_text quote (Unknown_Option s) = ''unknown option '' @ s" |
  "arg_text quote No_Host = ''no host''" |
  "arg_text quote No_Wisp = ''no Wisp server: give --wisp ws://HOST/PATH or set WISP_URL''" |
  "arg_text quote Too_Many = ''too many arguments''" |
  "arg_text quote No_Port = ''no port: give --port, from mosh-server's MOSH CONNECT line''"

text \<open>
  What the applet does, in its order: the trust of the output, the terminal's mode, the dial, the
  session, the closing, and what it writes. \<open>dialed\<close> and \<open>session\<close> say how those two end, the
  session with its status and error; \<open>has_raw\<close> is whether the shell has a terminal to make raw.
\<close>

datatype ssh_step =
    Trust_Remote | Trust_Back | Set_Raw bool | Ssh_Dial | Ssh_Session string | Client_Close
  | Write_Out string | Write_Err string

definition raw_step :: "bool \<Rightarrow> bool \<Rightarrow> ssh_step list" where
  "raw_step has_raw on = (if has_raw then [Set_Raw on] else [])"

definition run_ssh ::
  "(string \<Rightarrow> string) \<Rightarrow> string \<Rightarrow> bool \<Rightarrow> string list \<Rightarrow> env \<Rightarrow> (ssh_args \<Rightarrow> string option) \<Rightarrow>
   (ssh_args \<Rightarrow> int \<times> string option) \<Rightarrow> ssh_step list \<times> int"
where
  "run_ssh quote usage has_raw argv env dial session =
     (let line = (\<lambda>e. Write_Err (''ssh: '' @ e @ [CHR 0x0A])) in
      case ssh_parse_args argv env of
        Inl Arg_Help \<Rightarrow> ([Trust_Remote, Write_Out usage, Trust_Back], 0)
      | Inl e \<Rightarrow> ([Trust_Remote, line (arg_text quote e), Trust_Back], 255)
      | Inr a \<Rightarrow>
         (let raw = raw_step has_raw True; cooked = raw_step has_raw False in
          case dial a of
            Some e \<Rightarrow> ([Trust_Remote] @ raw @ [Ssh_Dial] @ cooked @ [line e, Trust_Back], 255)
          | None \<Rightarrow>
             (let (code, err) = session a;
                  ran = (if d_command a = [] then
                      [Ssh_Session []] @ cooked @
                      (if err = None \<and> code = 255 then [Write_Err (''Connection to '' @ d_host a @ '' closed.'' @ [CHR 0x0A])] else [])
                    else cooked @ [Ssh_Session (d_command a)]);
                  failed = (case err of Some e \<Rightarrow> [line e] | None \<Rightarrow> []) in
              ([Trust_Remote] @ raw @ [Ssh_Dial] @ ran @ failed @ [Client_Close, Trust_Back], code))))"

definition raw_after :: "ssh_step list \<Rightarrow> bool \<Rightarrow> bool" where
  "raw_after ss b = fold (\<lambda>s r. case s of Set_Raw x \<Rightarrow> x | _ \<Rightarrow> r) ss b"

text \<open>
  However it ends, the applet leaves the terminal as it found it, takes its trust back last, and
  runs a command with the terminal cooked: only a login shell is raw.
\<close>

lemma ssh_puts_back:
  assumes "run_ssh quote usage has_raw argv env dial session = (ss, code)"
  shows "\<not> raw_after ss False \<and> hd ss = Trust_Remote \<and> last ss = Trust_Back \<and>
    length (filter (\<lambda>s. s = Trust_Remote) ss) = length (filter (\<lambda>s. s = Trust_Back) ss)"
  using assms
  by (auto simp: run_ssh_def Let_def raw_step_def raw_after_def split: sum.splits arg_err.splits option.splits prod.splits if_splits)

lemma ssh_command_cooked:
  assumes "run_ssh quote usage has_raw argv env dial session = (pre @ Ssh_Session c # post, code)" "c \<noteq> []"
  shows "\<not> raw_after pre False"
proof -
  have "\<exists>a. pre = [Trust_Remote] @ raw_step has_raw True @ [Ssh_Dial] @ raw_step has_raw False"
    using assms
    by (auto simp: run_ssh_def Let_def raw_step_def append_eq_Cons_conv Cons_eq_append_conv
        split: sum.splits arg_err.splits option.splits prod.splits if_splits)
  then show ?thesis by (auto simp: raw_after_def raw_step_def)
qed

text \<open>The status of the session is the applet's; 255 is its own for what fails before.\<close>

lemma ssh_status:
  assumes "ssh_parse_args argv env = Inr a"
  shows "snd (run_ssh quote usage has_raw argv env dial session) =
    (if dial a = None then fst (session a) else 255)"
  using assms by (auto simp: run_ssh_def Let_def split: option.split prod.split)

end
