(* ===== verification/Mosh_Run.thy ===== *)
theory Mosh_Run
  imports Mosh_Link Remote_Dial
begin

text \<open>
  A mosh session, \<^verbatim>\<open>Run\<close> of \<^verbatim>\<open>src/shell/mosh/client.go\<close>, and the applet
  (\<^verbatim>\<open>src/shell/mosh/applet.go\<close>). The key reader, the receiver and the ticker run at once, so the
  session is a step relation over where each of them is; between two steps of one, the others
  may take theirs. The connection and the emulator are those of \<open>Mosh_Link\<close>. The lemmas: the
  session ends once, for one reason; when it has ended the terminal has been given its own screen
  back, and that is the last thing written; an error is shown before it is returned; no key is
  sent after the end; and from wherever it is, it can end.
\<close>

subsection \<open>Reaching the server\<close>

text \<open>
  How the steps end: the Wisp session (with its version and whether it does UDP), the stream, the
  cipher of the key, the mosh handshake.
\<close>

record mosh_net =
  mn_wisp :: "string + nat \<times> bool"
  mn_udp :: "string option"
  mn_cipher :: "string \<Rightarrow> string option"
  mn_client :: "string option"

definition mosh_dial :: "mosh_net \<Rightarrow> string \<Rightarrow> net_act list \<times> string option" where
  "mosh_dial N addr =
     (case mn_wisp N of
        Inl e \<Rightarrow> ([], Some (''wisp: '' @ e))
      | Inr (version, udp) \<Rightarrow>
         if 2 \<le> version \<and> \<not> udp then ([Wisp_Open, Wisp_Close], Some ''the Wisp server does not offer UDP streams'')
         else (case mn_udp N of
            Some e \<Rightarrow> ([Wisp_Open, Wisp_Close], Some e)
          | None \<Rightarrow> ([Wisp_Open, Conn_Open addr], None)))"

text \<open>\<^verbatim>\<open>Run\<close> up to the session: an error, with the deferred close of the Wisp session, or a client.\<close>

definition mosh_open :: "mosh_net \<Rightarrow> string \<Rightarrow> string \<Rightarrow> net_act list \<times> string option" where
  "mosh_open N key addr =
     (case decode_key key of
        None \<Rightarrow> ([], Some ''bad key: want the 22-character key from MOSH CONNECT'')
      | Some raw \<Rightarrow>
     (case mn_cipher N raw of
        Some e \<Rightarrow> ([], Some e)
      | None \<Rightarrow>
     (case mosh_dial N addr of
        (as, Some e) \<Rightarrow> (as, Some e)
      | (as, None) \<Rightarrow>
         (case mn_client N of
            Some e \<Rightarrow> (as @ [Conn_Close, Wisp_Close], Some e)
          | None \<Rightarrow> (as, None)))))"

text \<open>A session that cannot start leaves nothing open.\<close>

lemma mosh_dial_closes:
  "mosh_dial N addr = (as, e) \<Longrightarrow> net_open as = (if e = None then (1, 1) else (0, 0))"
  by (auto simp: mosh_dial_def net_open_def split: option.splits sum.splits prod.splits if_splits)

lemma mosh_open_closes:
  assumes "mosh_open N key addr = (as, e)"
  shows "net_open as = (if e = None then (1, 1) else (0, 0))"
proof (cases "\<exists>raw. decode_key key = Some raw \<and> mn_cipher N raw = None")
  case True
  obtain as1 e1 where d: "mosh_dial N addr = (as1, e1)" by fastforce
  from True assms d mosh_dial_closes [OF d] show ?thesis
    by (auto simp: mosh_open_def net_open_def split: option.splits)
next
  case False
  have "as = [] \<and> e \<noteq> None"
  proof (cases "decode_key key")
    case (Some raw)
    with False obtain x where x: "mn_cipher N raw = Some x" by (cases "mn_cipher N raw") auto
    from assms have "as = [] \<and> e = Some x" by (simp add: mosh_open_def Some x)
    then show ?thesis by simp
  qed (use assms in \<open>auto simp: mosh_open_def\<close>)
  then show ?thesis by (simp add: net_open_def)
qed

subsection \<open>The session\<close>

text \<open>Why it ended: a quit or end of input, the context (whether it was canceled), or an error.\<close>

datatype why = Why_Quit | Why_Canceled | Why_Error string

definition why_error :: "why \<Rightarrow> string option" where
  "why_error y = (case y of Why_Error e \<Rightarrow> Some e | _ \<Rightarrow> None)"

text \<open>
  Where each goroutine is: the receiver at the top of its loop, in \<^verbatim>\<open>RecvRaw\<close>, or writing why it
  stopped; the ticker waiting, past the size, with the output it took still to write, or writing why it
  stopped; and \<^verbatim>\<open>Run\<close> itself, in \<^verbatim>\<open>Read\<close>, with what it read (and whether the input ended), about to
  stop, waiting for the two others, or returned.
\<close>

datatype receiver = Recv_Top | Recv_Wait | Recv_Says string | Recv_Gone
datatype ticker = Tick_Wait | Tick_Sized | Tick_Has string | Tick_Says string | Tick_Gone
datatype runner = Run_Keys | Run_Has string bool | Run_Stops | Run_Waits | Run_Returned

record ('e, 'f) mosh_session =
  rm_screen :: "('e, 'f) screen"
  rm_size :: "nat \<times> nat"
  rm_out :: "string list" \<comment> \<open>the writes to the terminal\<close>
  rm_sent :: "string list" \<comment> \<open>the keys given to the client\<close>
  rm_sizes :: "(nat \<times> nat) list" \<comment> \<open>the sizes told to the server\<close>
  rm_why :: "why option" \<comment> \<open>None until \<open>done\<close> is closed\<close>
  rm_recv :: receiver
  rm_tick :: ticker
  rm_run :: runner
  rm_pending :: bool

definition alt_on :: "string \<Rightarrow> nat \<Rightarrow> string" where
  "alt_on host port = CHR 0x1B # ''[?1049h'' @ CHR 0x1B # ''[H'' @ CHR 0x1B # ''[2Jmosh: connecting to '' @
     host @ '':'' @ itoa (int port) @ '' ...'' @ [CHR 0x0D, CHR 0x0A]"

definition alt_off :: string where
  "alt_off = CHR 0x1B # ''[0m'' @ CHR 0x1B # ''[?25h'' @ CHR 0x1B # ''[?1049l''"

definition why_text :: "string \<Rightarrow> string" where
  "why_text e = [CHR 0x0D, CHR 0x0A, CHR 0x1B] @ ''[7m mosh: '' @ e @ '' '' @ [CHR 0xE2, CHR 0x80, CHR 0x94] @
     '' press any key '' @ CHR 0x1B # ''[0m''"

definition mosh_start :: "('e, 'f) vt_lib \<Rightarrow> string \<Rightarrow> nat \<Rightarrow> nat \<times> nat \<Rightarrow> ('e, 'f) mosh_session" where
  "mosh_start V host port sz =
     \<lparr>rm_screen = new_screen V (fst sz) (snd sz), rm_size = sz, rm_out = [alt_on host port], rm_sent = [],
      rm_sizes = [sz], rm_why = None, rm_recv = Recv_Top, rm_tick = Tick_Wait, rm_run = Run_Keys, rm_pending = False\<rparr>"

text \<open>\<^verbatim>\<open>stop\<close>: the first one says why, and closes \<open>done\<close>.\<close>

definition rm_stop :: "why \<Rightarrow> ('e, 'f) mosh_session \<Rightarrow> ('e, 'f) mosh_session" where
  "rm_stop y s = (case rm_why s of None \<Rightarrow> s\<lparr>rm_why := Some y\<rparr> | Some x \<Rightarrow> s)"

text \<open>Whether the one who stops it has something to write: it is the first, and has an error.\<close>

definition says :: "why \<Rightarrow> ('e, 'f) mosh_session \<Rightarrow> string option" where
  "says y s = (if rm_why s = None then why_error y else None)"

text \<open>The size, as polled at a tick; then what the screen has for the terminal.\<close>

definition rm_resize :: "('e, 'f) vt_lib \<Rightarrow> nat \<times> nat \<Rightarrow> ('e, 'f) mosh_session \<Rightarrow> ('e, 'f) mosh_session" where
  "rm_resize V sz s =
     (if sz = rm_size s then s
      else s\<lparr>rm_size := sz, rm_sizes := rm_sizes s @ [sz],
             rm_screen := screen_resize V (fst sz) (snd sz) (rm_screen s)\<rparr>)"

definition rm_take :: "('e, 'f) mosh_session \<Rightarrow> ('e, 'f) mosh_session" where
  "rm_take s = (let (out, sc) = screen_take (rm_screen s) in
     s\<lparr>rm_screen := sc, rm_tick := (if out = [] then Tick_Wait else Tick_Has out)\<rparr>)"

definition rm_write :: "string \<Rightarrow> ('e, 'f) mosh_session \<Rightarrow> ('e, 'f) mosh_session" where
  "rm_write b s = s\<lparr>rm_out := rm_out s @ [b]\<rparr>"

text \<open>What one read of keys gives the client, and whether the reader returns.\<close>

definition rm_keys :: "string \<Rightarrow> bool \<Rightarrow> ('e, 'f) mosh_session \<Rightarrow> ('e, 'f) mosh_session" where
  "rm_keys b eof s =
     (case mosh_keys (rm_pending s) [] b of (pend, sd, quit) \<Rightarrow>
       s\<lparr>rm_pending := pend, rm_sent := rm_sent s @ when_some sd, rm_run := (if quit \<or> eof then Run_Stops else Run_Keys)\<rparr>)"

text \<open>
  The steps. \<^verbatim>\<open>Once.Do\<close> holds a second caller back until the first has returned, so \<^verbatim>\<open>stop\<close> waits
  for who is writing why. The reader's own \<^verbatim>\<open>stop\<close> at the end of input is followed at once by that
  of \<^verbatim>\<open>Run\<close>, with the same reason, and is that one here.
\<close>

definition saying :: "('e, 'f) mosh_session \<Rightarrow> bool" where
  "saying s = ((\<exists>e. rm_recv s = Recv_Says e) \<or> (\<exists>e. rm_tick s = Tick_Says e))"

inductive mosh_step :: "('e, 'f) vt_lib \<Rightarrow> ('e, 'f) mosh_session \<Rightarrow> ('e, 'f) mosh_session \<Rightarrow> bool"
  for V :: "('e, 'f) vt_lib"
where
  ms_recv: "\<lbrakk>rm_recv s = Recv_Top; rm_why s = None\<rbrakk> \<Longrightarrow> mosh_step V s (s\<lparr>rm_recv := Recv_Wait\<rparr>)"
| ms_recv_done: "\<lbrakk>rm_recv s = Recv_Top; rm_why s \<noteq> None\<rbrakk> \<Longrightarrow> mosh_step V s (s\<lparr>rm_recv := Recv_Gone\<rparr>)"
| ms_nothing: "rm_recv s = Recv_Wait \<Longrightarrow> mosh_step V s (s\<lparr>rm_recv := Recv_Top\<rparr>)"
| ms_diff: "rm_recv s = Recv_Wait \<Longrightarrow>
    mosh_step V s (s\<lparr>rm_recv := Recv_Top, rm_screen := screen_apply V b old new thr (rm_screen s)\<rparr>)"
| ms_lost: "\<lbrakk>rm_recv s = Recv_Wait; y = Why_Error (''connection lost: '' @ e); \<not> saying s\<rbrakk> \<Longrightarrow>
    mosh_step V s ((rm_stop y s)\<lparr>rm_recv := (case says y s of Some m \<Rightarrow> Recv_Says m | None \<Rightarrow> Recv_Gone)\<rparr>)"
| ms_recv_says: "rm_recv s = Recv_Says e \<Longrightarrow> mosh_step V s ((rm_write (why_text e) s)\<lparr>rm_recv := Recv_Gone\<rparr>)"
| ms_tick: "rm_tick s = Tick_Wait \<Longrightarrow> mosh_step V s ((rm_resize V sz s)\<lparr>rm_tick := Tick_Sized\<rparr>)"
| ms_take: "rm_tick s = Tick_Sized \<Longrightarrow> mosh_step V s (rm_take s)"
| ms_draw: "rm_tick s = Tick_Has b \<Longrightarrow> mosh_step V s ((rm_write b s)\<lparr>rm_tick := Tick_Wait\<rparr>)"
| ms_tick_done: "\<lbrakk>rm_tick s = Tick_Wait; rm_why s \<noteq> None\<rbrakk> \<Longrightarrow> mosh_step V s (s\<lparr>rm_tick := Tick_Gone\<rparr>)"
| ms_context: "\<lbrakk>rm_tick s = Tick_Wait; y = Why_Canceled \<or> y = Why_Error e; \<not> saying s\<rbrakk> \<Longrightarrow>
    mosh_step V s ((rm_stop y s)\<lparr>rm_tick := (case says y s of Some m \<Rightarrow> Tick_Says m | None \<Rightarrow> Tick_Gone)\<rparr>)"
| ms_tick_says: "rm_tick s = Tick_Says e \<Longrightarrow> mosh_step V s ((rm_write (why_text e) s)\<lparr>rm_tick := Tick_Gone\<rparr>)"
| ms_read: "\<lbrakk>rm_run s = Run_Keys; rm_why s = None\<rbrakk> \<Longrightarrow> mosh_step V s (s\<lparr>rm_run := Run_Has b eof\<rparr>)"
| ms_send: "rm_run s = Run_Has b eof \<Longrightarrow> mosh_step V s (rm_keys b eof s)"
| ms_keys_done: "\<lbrakk>rm_run s = Run_Keys; rm_why s \<noteq> None\<rbrakk> \<Longrightarrow> mosh_step V s (s\<lparr>rm_run := Run_Stops\<rparr>)"
| ms_stop: "\<lbrakk>rm_run s = Run_Stops; \<not> saying s\<rbrakk> \<Longrightarrow> mosh_step V s ((rm_stop Why_Quit s)\<lparr>rm_run := Run_Waits\<rparr>)"
| ms_return: "\<lbrakk>rm_run s = Run_Waits; rm_recv s = Recv_Gone; rm_tick s = Tick_Gone\<rbrakk> \<Longrightarrow>
    mosh_step V s ((rm_write alt_off s)\<lparr>rm_run := Run_Returned\<rparr>)"

inductive_cases mosh_stepE: "mosh_step V s t"

inductive mosh_steps :: "('e, 'f) vt_lib \<Rightarrow> ('e, 'f) mosh_session \<Rightarrow> ('e, 'f) mosh_session \<Rightarrow> bool"
  for V :: "('e, 'f) vt_lib"
where
  ms_refl: "mosh_steps V s s"
| ms_more: "\<lbrakk>mosh_steps V s t; mosh_step V t u\<rbrakk> \<Longrightarrow> mosh_steps V s u"

text \<open>What \<^verbatim>\<open>Run\<close> returns.\<close>

definition mosh_result :: "('e, 'f) mosh_session \<Rightarrow> string option" where
  "mosh_result s = Option.bind (rm_why s) why_error"

subsection \<open>How it ends\<close>

definition mosh_ok :: "string \<Rightarrow> ('e, 'f) mosh_session \<Rightarrow> bool" where
  "mosh_ok start s =
     ((\<exists>mid. rm_out s = start # mid @ (if rm_run s = Run_Returned then [alt_off] else []) \<and>
        (\<forall>e. rm_why s = Some (Why_Error e) \<longrightarrow>
          why_text e \<in> set mid \<or> rm_recv s = Recv_Says e \<or> rm_tick s = Tick_Says e)) \<and>
      (rm_run s \<in> {Run_Waits, Run_Returned} \<longrightarrow> rm_why s \<noteq> None) \<and>
      (rm_run s = Run_Returned \<longrightarrow> rm_recv s = Recv_Gone \<and> rm_tick s = Tick_Gone) \<and>
      (saying s \<longrightarrow> rm_why s \<noteq> None))"

lemmas mosh_step_defs =
  rm_stop_def rm_resize_def rm_take_def rm_write_def rm_keys_def says_def saying_def screen_take_def why_error_def

lemma start_mosh_ok: "mosh_ok (alt_on host port) (mosh_start V host port sz)"
  by (simp add: mosh_ok_def mosh_start_def saying_def)

text \<open>A session that has returned takes no step; the reason it ended for stays.\<close>

lemma returned_final: "\<lbrakk>mosh_ok st s; rm_run s = Run_Returned\<rbrakk> \<Longrightarrow> \<not> mosh_step V s t"
  by (auto simp: mosh_ok_def elim: mosh_stepE)

lemma why_stays: "mosh_step V s t \<Longrightarrow> rm_why s = Some y \<Longrightarrow> rm_why t = Some y"
  by (induction rule: mosh_step.induct) (auto simp: mosh_step_defs split: prod.split option.split)

lemma step_mosh_ok:
  assumes "mosh_step V s t" "mosh_ok st s"
  shows "mosh_ok st t"
proof -
  have r: "rm_run s \<noteq> Run_Returned" using returned_final assms by blast
  from assms(2) r obtain mid where mid: "rm_out s = st # mid"
    "\<And>e. rm_why s = Some (Why_Error e) \<Longrightarrow> why_text e \<in> set mid \<or> rm_recv s = Recv_Says e \<or> rm_tick s = Tick_Says e"
    by (auto simp: mosh_ok_def)
  have ok: "rm_run s = Run_Waits \<Longrightarrow> rm_why s \<noteq> None" "saying s \<Longrightarrow> rm_why s \<noteq> None"
    using assms(2) by (auto simp: mosh_ok_def)
  show ?thesis
    using assms(1) r mid ok
    by (cases rule: mosh_step.cases)
      (auto simp: mosh_ok_def mosh_step_defs split: prod.splits option.splits why.splits if_splits)
qed

lemma steps_mosh_ok: "mosh_steps V s t \<Longrightarrow> mosh_ok st s \<Longrightarrow> mosh_ok st t"
  by (induction rule: mosh_steps.induct) (auto intro: step_mosh_ok)

lemma steps_trans: "mosh_steps V t u \<Longrightarrow> mosh_steps V s t \<Longrightarrow> mosh_steps V s u"
  by (induction rule: mosh_steps.induct) (auto intro: ms_more)

lemma one_step: "mosh_step V s t \<Longrightarrow> mosh_steps V s t"
  by (rule ms_more [OF ms_refl])

text \<open>
  When \<^verbatim>\<open>Run\<close> has returned, the terminal's own screen was the last thing asked back, once; and the
  error it returns was shown to the person before.
\<close>

lemma mosh_ends_clean:
  assumes "mosh_steps V (mosh_start V host port sz) s" "rm_run s = Run_Returned"
  shows "\<exists>mid. rm_out s = [alt_on host port] @ mid @ [alt_off] \<and>
    (\<forall>e. mosh_result s = Some e \<longrightarrow> why_text e \<in> set mid)"
proof -
  have ok: "mosh_ok (alt_on host port) s" by (rule steps_mosh_ok [OF assms(1) start_mosh_ok])
  have w: "\<And>e. mosh_result s = Some e \<Longrightarrow> rm_why s = Some (Why_Error e)"
    by (auto simp: mosh_result_def why_error_def split: option.splits why.splits bind_splits)
  from ok assms(2) w show ?thesis by (fastforce simp: mosh_ok_def)
qed

text \<open>Keys read once the session has ended are not sent.\<close>

lemma no_keys_after_end:
  assumes "mosh_step V s t" "rm_why s \<noteq> None" "\<forall>b eof. rm_run s \<noteq> Run_Has b eof"
  shows "rm_sent t = rm_sent s \<and> (\<forall>b eof. rm_run t \<noteq> Run_Has b eof)"
  using assms by (cases rule: mosh_step.cases) (auto simp: mosh_step_defs split: prod.splits option.splits)

text \<open>The server has been told the size the screen has, and every size between.\<close>

lemma size_told:
  "mosh_steps V (mosh_start V host port sz) s \<Longrightarrow>
   last (rm_sizes s) = rm_size s \<and> rm_sizes s \<noteq> [] \<and> distinct_adj (rm_sizes s)"
proof (induction "mosh_start V host port sz :: ('a, 'b) mosh_session" s rule: mosh_steps.induct)
  case ms_refl
  then show ?case by (simp add: mosh_start_def)
next
  case (ms_more s u)
  from ms_more.hyps(3) ms_more.hyps(2) show ?case
    by (cases rule: mosh_step.cases) (auto simp: mosh_step_defs distinct_adj_append_iff split: prod.splits option.splits)
qed

subsection \<open>It can always end\<close>

definition can_reach :: "('e, 'f) vt_lib \<Rightarrow> ('e, 'f) mosh_session \<Rightarrow> (('e, 'f) mosh_session \<Rightarrow> bool) \<Rightarrow> bool" where
  "can_reach V s P = (\<exists>t. mosh_steps V s t \<and> P t)"

lemma reach_now: "P s \<Longrightarrow> can_reach V s P"
  by (auto simp: can_reach_def intro: ms_refl)

lemma reach_step: "mosh_step V s t \<Longrightarrow> can_reach V t P \<Longrightarrow> can_reach V s P"
  by (auto simp: can_reach_def intro: steps_trans one_step)

lemma reach_then: "can_reach V s P \<Longrightarrow> (\<And>t. P t \<Longrightarrow> can_reach V t Q) \<Longrightarrow> can_reach V s Q"
  by (auto simp: can_reach_def intro: steps_trans)

definition past_keys :: "('e, 'f) mosh_session \<Rightarrow> bool" where
  "past_keys s = (rm_run s \<in> {Run_Stops, Run_Waits, Run_Returned})"

lemma reach_past_keys: "can_reach V s past_keys"
proof -
  have has: "rm_run s' = Run_Has b True \<Longrightarrow> can_reach V s' past_keys" for s' :: "('a, 'b) mosh_session" and b
    by (rule reach_step [OF ms_send], assumption, rule reach_now)
      (simp add: past_keys_def rm_keys_def split: prod.split)
  show ?thesis
  proof (cases "rm_run s")
    case Run_Keys
    then show ?thesis
    proof (cases "rm_why s")
      case None
      then show ?thesis by (intro reach_step [OF ms_read [OF Run_Keys None, where b = "[]" and eof = True]] has [where b = "[]"]) simp
    next
      case (Some y)
      then show ?thesis by (intro reach_step [OF ms_keys_done [OF Run_Keys]] reach_now) (simp_all add: past_keys_def)
    qed
  next
    case (Run_Has b eof)
    show ?thesis
    proof (cases "rm_why s")
      case None
      have "can_reach V (rm_keys b eof s) past_keys"
      proof (cases "rm_run (rm_keys b eof s) = Run_Keys")
        case True
        have "rm_why (rm_keys b eof s) = None" using None by (simp add: rm_keys_def split: prod.split)
        then show ?thesis by (intro reach_step [OF ms_read [OF True, where b = "[]" and eof = True]] has [where b = "[]"]) simp_all
      next
        case False
        then show ?thesis by (intro reach_now) (auto simp: past_keys_def rm_keys_def split: prod.splits if_splits)
      qed
      then show ?thesis by (rule reach_step [OF ms_send [OF Run_Has]])
    next
      case (Some y)
      have y: "rm_why (rm_keys b eof s) \<noteq> None" using Some by (simp add: rm_keys_def split: prod.split)
      have "can_reach V (rm_keys b eof s) past_keys"
      proof (cases "rm_run (rm_keys b eof s) = Run_Keys")
        case True
        then show ?thesis by (intro reach_step [OF ms_keys_done [OF True y]] reach_now) (simp add: past_keys_def)
      next
        case False
        then show ?thesis by (intro reach_now) (auto simp: past_keys_def rm_keys_def split: prod.splits if_splits)
      qed
      then show ?thesis by (rule reach_step [OF ms_send [OF Run_Has]])
    qed
  qed (auto intro: reach_now simp: past_keys_def)
qed

lemma reach_quiet:
  assumes "past_keys s"
  shows "can_reach V s (\<lambda>t. past_keys t \<and> \<not> saying t)"
proof -
  have tick: "can_reach V s' (\<lambda>t. past_keys t \<and> \<not> saying t)"
    if "past_keys s'" "\<forall>e. rm_recv s' \<noteq> Recv_Says e" for s' :: "('a, 'b) mosh_session"
  proof (cases "rm_tick s'")
    case (Tick_Says e)
    from reach_step [OF ms_tick_says [OF this] reach_now] that show ?thesis
      by (simp add: past_keys_def saying_def rm_write_def)
  qed (use that in \<open>auto intro: reach_now simp: saying_def\<close>)
  show ?thesis
  proof (cases "rm_recv s")
    case (Recv_Says e)
    show ?thesis by (rule reach_step [OF ms_recv_says [OF Recv_Says] tick]) (use assms in \<open>simp_all add: past_keys_def rm_write_def\<close>)
  qed (use assms tick in auto)
qed

lemma reach_waits:
  assumes "past_keys s" "\<not> saying s"
  shows "can_reach V s (\<lambda>t. rm_run t \<in> {Run_Waits, Run_Returned})"
proof (cases "rm_run s = Run_Stops")
  case True
  show ?thesis by (rule reach_step [OF ms_stop [OF True assms(2)] reach_now]) simp
qed (use assms(1) in \<open>auto intro: reach_now simp: past_keys_def\<close>)

text \<open>Once the reader is done, the receiver and then the ticker leave.\<close>

definition waits :: "('e, 'f) mosh_session \<Rightarrow> bool" where
  "waits s = (rm_run s = Run_Waits \<and> rm_why s \<noteq> None)"

lemma reach_recv_gone:
  assumes "waits s"
  shows "can_reach V s (\<lambda>t. waits t \<and> rm_recv t = Recv_Gone)"
proof -
  have top: "can_reach V s' (\<lambda>t. waits t \<and> rm_recv t = Recv_Gone)"
    if "rm_recv s' = Recv_Top" "waits s'" for s' :: "('a, 'b) mosh_session"
    by (rule reach_step [OF ms_recv_done [OF that(1)] reach_now]) (use that in \<open>auto simp: waits_def\<close>)
  show ?thesis
  proof (cases "rm_recv s")
    case Recv_Top
    with assms top show ?thesis by blast
  next
    case Recv_Wait
    show ?thesis by (rule reach_step [OF ms_nothing [OF Recv_Wait] top]) (use assms in \<open>auto simp: waits_def\<close>)
  next
    case (Recv_Says e)
    show ?thesis
      by (rule reach_step [OF ms_recv_says [OF Recv_Says] reach_now]) (use assms in \<open>auto simp: waits_def rm_write_def\<close>)
  qed (use assms in \<open>auto intro: reach_now\<close>)
qed

definition leaves :: "('e, 'f) mosh_session \<Rightarrow> bool" where
  "leaves s = (waits s \<and> rm_recv s = Recv_Gone)"

lemma reach_tick_gone:
  assumes "leaves s"
  shows "can_reach V s (\<lambda>t. leaves t \<and> rm_tick t = Tick_Gone)"
proof -
  let ?P = "\<lambda>t. leaves t \<and> rm_tick t = Tick_Gone"
  have wait: "can_reach V s' ?P" if "rm_tick s' = Tick_Wait" "leaves s'" for s' :: "('a, 'b) mosh_session"
    by (rule reach_step [OF ms_tick_done [OF that(1)] reach_now]) (use that in \<open>auto simp: leaves_def waits_def\<close>)
  have has: "can_reach V s' ?P" if "rm_tick s' = Tick_Has b" "leaves s'" for s' :: "('a, 'b) mosh_session" and b
    by (rule reach_step [OF ms_draw [OF that(1)] wait]) (use that in \<open>auto simp: leaves_def waits_def rm_write_def\<close>)
  show ?thesis
  proof (cases "rm_tick s")
    case Tick_Sized
    have l: "leaves (rm_take s)" using assms by (auto simp: leaves_def waits_def rm_take_def screen_take_def)
    have "rm_tick (rm_take s) = Tick_Wait \<or> (\<exists>b. rm_tick (rm_take s) = Tick_Has b)"
      by (simp add: rm_take_def split: prod.split)
    with l have "can_reach V (rm_take s) ?P" using wait has by blast
    then show ?thesis by (rule reach_step [OF ms_take [OF Tick_Sized]])
  next
    case (Tick_Says e)
    show ?thesis
      by (rule reach_step [OF ms_tick_says [OF Tick_Says] reach_now])
        (use assms in \<open>auto simp: leaves_def waits_def rm_write_def\<close>)
  qed (use assms wait has in \<open>auto intro: reach_now\<close>)
qed

text \<open>
  C25. From wherever a session is, \<^verbatim>\<open>Run\<close> can return, whatever the connection and the context do: a read
  that returns is all it needs. It has then asked for the terminal's own screen back, once, as the
  last thing, and shown the error it returns.
\<close>

theorem mosh_can_end:
  assumes "mosh_steps V (mosh_start V host port sz) s"
  shows "\<exists>t mid. mosh_steps V s t \<and> rm_run t = Run_Returned \<and>
    rm_out t = [alt_on host port] @ mid @ [alt_off] \<and> (\<forall>e. mosh_result t = Some e \<longrightarrow> why_text e \<in> set mid)"
proof -
  have "can_reach V s (\<lambda>t. rm_run t \<in> {Run_Waits, Run_Returned})"
    by (rule reach_then [OF reach_then [OF reach_past_keys reach_quiet]], assumption, rule reach_waits) blast+
  then obtain t where t: "mosh_steps V s t" "rm_run t \<in> {Run_Waits, Run_Returned}" by (auto simp: can_reach_def)
  have ok: "mosh_ok (alt_on host port) t"
    by (rule steps_mosh_ok [OF steps_trans [OF t(1) assms] start_mosh_ok])
  have "can_reach V t (\<lambda>u. rm_run u = Run_Returned)"
  proof (cases "rm_run t = Run_Returned")
    case False
    with t(2) ok have w: "waits t" by (auto simp: waits_def mosh_ok_def)
    have "can_reach V t leaves" using reach_recv_gone [OF w] by (simp add: can_reach_def leaves_def)
    then have g: "can_reach V t (\<lambda>u. leaves u \<and> rm_tick u = Tick_Gone)" by (rule reach_then) (rule reach_tick_gone)
    show ?thesis
      by (rule reach_then [OF g]) (rule reach_step [OF ms_return reach_now], auto simp: leaves_def waits_def)
  qed (simp add: reach_now)
  then obtain u where u: "mosh_steps V t u" "rm_run u = Run_Returned" by (auto simp: can_reach_def)
  from mosh_ends_clean [OF steps_trans [OF steps_trans [OF u(1) t(1)] assms] u(2)] steps_trans [OF u(1) t(1)] u(2)
  show ?thesis by blast
qed

text \<open>A session whose connection was lost while a key was awaited.\<close>

theorem mosh_can_end_witness:
  "let s = (mosh_start text_vt ''host'' 60001 (80, 24))\<lparr>rm_recv := Recv_Wait\<rparr>;
       s1 = s\<lparr>rm_why := Some (Why_Error ''connection lost: reset''), rm_recv := Recv_Says ''connection lost: reset''\<rparr> in
   \<exists>t mid. mosh_steps text_vt s1 t \<and> rm_run t = Run_Returned \<and>
     rm_out t = [alt_on ''host'' 60001] @ mid @ [alt_off] \<and> (\<forall>e. mosh_result t = Some e \<longrightarrow> why_text e \<in> set mid)"
proof -
  let ?a = "mosh_start text_vt ''host'' 60001 (80, 24)"
  let ?s = "?a\<lparr>rm_recv := Recv_Wait\<rparr>"
  have 1: "mosh_steps text_vt ?a ?s"
  proof (rule one_step, rule ms_recv)
    show "rm_recv ?a = Recv_Top" "rm_why ?a = None" by (simp_all add: mosh_start_def)
  qed
  have "mosh_step text_vt ?s ((rm_stop (Why_Error (''connection lost: '' @ ''reset'')) ?s)\<lparr>rm_recv :=
      (case says (Why_Error (''connection lost: '' @ ''reset'')) ?s of Some m \<Rightarrow> Recv_Says m | None \<Rightarrow> Recv_Gone)\<rparr>)"
    by (rule ms_lost) (simp_all add: saying_def mosh_start_def)
  from mosh_can_end [OF ms_more [OF 1 this]] show ?thesis
    by (simp add: Let_def rm_stop_def says_def why_error_def mosh_start_def)
qed

text \<open>The applet: its arguments, the server started over ssh when there is no key, the session.\<close>

definition run_mosh ::
  "(string \<Rightarrow> string) \<Rightarrow> string \<Rightarrow> bool \<Rightarrow> string list \<Rightarrow> env \<Rightarrow> (mosh_args \<Rightarrow> string + nat \<times> string) \<Rightarrow>
   (mosh_args \<Rightarrow> string option) \<Rightarrow> ssh_step list \<times> int"
where
  "run_mosh quote usage has_raw argv env start session =
     (let line = (\<lambda>e. Write_Err (''mosh: '' @ e @ [CHR 0x0A]));
          raw = raw_step has_raw True; cooked = raw_step has_raw False in
      case mosh_parse_args argv env of
        Inl Arg_Help \<Rightarrow> ([Trust_Remote, Write_Out usage, Trust_Back], 0)
      | Inl e \<Rightarrow> ([Trust_Remote, line (arg_text quote e), Trust_Back], 1)
      | Inr a \<Rightarrow>
         (case (if mosh_bootstrap a then map_sum id (\<lambda>(p, k). a\<lparr>f_port := p, f_key := k\<rparr>) (start a) else Inr a) of
            Inl e \<Rightarrow> ([Trust_Remote] @ raw @ [line e] @ cooked @ [Trust_Back], 1)
          | Inr b \<Rightarrow>
             (case session b of
                Some e \<Rightarrow> ([Trust_Remote] @ raw @ [Ssh_Session (f_host b), line e] @ cooked @ [Trust_Back], 1)
              | None \<Rightarrow> ([Trust_Remote] @ raw @ [Ssh_Session (f_host b)] @ cooked @ [Trust_Back], 0))))"

text \<open>What \<^verbatim>\<open>startServer\<close> runs on the other machine.\<close>

definition mosh_remote_command :: "env \<Rightarrow> mosh_args \<Rightarrow> string" where
  "mosh_remote_command env a = mosh_server_command (term_colors (env ''TERM'')) (f_port a) (mosh_locale env)"

lemma mosh_puts_back:
  assumes "run_mosh quote usage has_raw argv env start session = (ss, code)"
  shows "\<not> raw_after ss False \<and> hd ss = Trust_Remote \<and> last ss = Trust_Back"
  using assms
  by (auto simp: run_mosh_def Let_def raw_step_def raw_after_def split: sum.splits arg_err.splits option.splits if_splits)

end
