(* ===== verification/Page_Access.thy ===== *)
theory Page_Access
  imports Term_Protocol Host_Page Keyed
begin

text \<open>
  What stands around a terminal: the map from shells to sessions (\<^verbatim>\<open>src/web/sessionfor.go\<close>), the
  screen reader switch, the prompt keys and the note of a copied output (\<^verbatim>\<open>a11y.go\<close>), the zoom keys
  and their listeners (\<^verbatim>\<open>zoom.go\<close>), the loader of a shipped module (\<^verbatim>\<open>ship.go\<close>), a program's
  own terminal (\<^verbatim>\<open>src/childtty/\<close>) and a widget's line to its program (\<^verbatim>\<open>src/widget/widget_js.go\<close>).
  The page's elements are parameters. The lemmas: closing a session leaves no pairing and no
  listener; the preference stored is the mode shown; a program reads what was typed, with the
  answers to its probe and the host's events cut out; a closed line carries nothing.
\<close>

subsection \<open>Which session drives a shell\<close>

text \<open>Shells by what they are, sessions with their shell (None for a session without one).\<close>

type_synonym ('sh, 'se) sessions = "'sh \<rightharpoonup> 'se"

definition register_session :: "'sh option \<Rightarrow> 'se \<Rightarrow> ('sh, 'se) sessions \<Rightarrow> ('sh, 'se) sessions" where
  "register_session sh s m = (case sh of Some k \<Rightarrow> m(k \<mapsto> s) | None \<Rightarrow> m)"

definition forget_session :: "'sh option \<Rightarrow> ('sh, 'se) sessions \<Rightarrow> ('sh, 'se) sessions" where
  "forget_session sh m = (case sh of Some k \<Rightarrow> m(k := None) | None \<Rightarrow> m)"

definition session_for :: "'sh option \<Rightarrow> ('sh, 'se) sessions \<Rightarrow> 'se option" where
  "session_for sh m = Option.bind sh m"

definition terminal_for :: "('se \<Rightarrow> 't) \<Rightarrow> 'sh option \<Rightarrow> ('sh, 'se) sessions \<Rightarrow> 't option" where
  "terminal_for trm sh m = map_option trm (session_for sh m)"

interpretation session_map: keyed_del "\<lambda>m k. session_for (Some k) m" "\<lambda>k. register_session (Some k)" "\<lambda>m. True"
  "\<lambda>k. forget_session (Some k)"
  by unfold_locales (simp_all add: session_for_def register_session_def forget_session_def)

text \<open>
  An applet finds the session of the shell it runs in, whatever others come and go; a session that
  is closed leaves the map as it was.
\<close>

lemma session_of_own_shell:
  assumes "k \<notin> fst ` set others"
  shows "session_for (Some k) (fold (\<lambda>(j, s). register_session (Some j) s) others (register_session (Some k) s m)) = Some s"
proof -
  have "map_of (rev others) k = None"
    using assms by (simp add: map_of_eq_None_iff image_iff)
  with session_map.look_puts [where kvs = others and m = "register_session (Some k) s m" and j = k] show ?thesis
    unfolding session_map.puts_def by (simp add: session_map.look_put)
qed

lemma closed_sessions_gone:
  "session_for (Some k) (fold (\<lambda>k. forget_session (Some k)) ks m) = (if k \<in> set ks then None else session_for (Some k) m)"
  by (rule session_map.del_all) simp

lemma forgotten_leaves_nothing: "m k = None \<Longrightarrow> forget_session (Some k) (register_session (Some k) s m) = m"
  by (auto simp: register_session_def forget_session_def)

subsection \<open>Screen reader mode\<close>

text \<open>
  The browser's storage: absent or blocked, or its items. \<open>sr_on\<close> is the terminal's mode and
  \<open>sr_label\<close> the button's text.
\<close>

type_synonym browser_store = "(string \<rightharpoonup> string) option"

definition store_get :: "string \<Rightarrow> browser_store \<Rightarrow> string" where
  "store_get k bs = (case bs of None \<Rightarrow> [] | Some m \<Rightarrow> (case m k of Some v \<Rightarrow> v | None \<Rightarrow> []))"

definition store_set :: "string \<Rightarrow> string \<Rightarrow> browser_store \<Rightarrow> browser_store" where
  "store_set k v bs = map_option (\<lambda>m. m(k := (if v = [] then None else Some v))) bs"

record reader_mode =
  rd_on :: bool
  rd_label :: string
  rd_store :: browser_store

definition a11y_key :: string where
  "a11y_key = ''websh.screenReader''"

definition reader_label :: "bool \<Rightarrow> string" where
  "reader_label on = (if on then ''Turn off screen reader mode'' else ''Turn on screen reader mode'')"

definition set_reader :: "bool \<Rightarrow> reader_mode \<Rightarrow> reader_mode" where
  "set_reader on r = r\<lparr>rd_on := on, rd_label := reader_label on,
     rd_store := store_set a11y_key (if on then ''1'' else []) (rd_store r)\<rparr>"

definition wire_reader :: "bool \<Rightarrow> browser_store \<Rightarrow> reader_mode" where
  "wire_reader was bs =
     (let on = (store_get a11y_key bs = ''1'' \<or> was) in \<lparr>rd_on = on, rd_label = reader_label on, rd_store = bs\<rparr>)"

definition press_reader :: "reader_mode \<Rightarrow> reader_mode" where
  "press_reader r = set_reader (\<not> rd_on r) r"

text \<open>The applet; \<open>r\<close> is None where there is no terminal. The status, what it writes, the mode.\<close>

definition run_a11y :: "string list \<Rightarrow> reader_mode option \<Rightarrow> int \<times> string \<times> string \<times> reader_mode option" where
  "run_a11y args r =
     (case r of
        None \<Rightarrow> (1, [], ''a11y: no terminal here'' @ [CHR 0x0A], None)
      | Some x \<Rightarrow>
         (let say = (\<lambda>y. (0, ''screen reader mode is '' @ (if rd_on y then ''on'' else ''off'') @ [CHR 0x0A], [], Some y)) in
          case args of
            [] \<Rightarrow> say x
          | a # _ \<Rightarrow> if a = ''on'' then say (set_reader True x)
              else if a = ''off'' then say (set_reader False x)
              else (2, [], ''usage: a11y [on|off]'' @ [CHR 0x0A], r)))"

text \<open>The mode set is the one the next page opens with, where the browser keeps it; the button says what it does.\<close>

lemma reader_kept:
  "rd_store r = Some m \<Longrightarrow> rd_on (wire_reader False (rd_store (set_reader on r))) = on"
  by (simp add: wire_reader_def set_reader_def store_set_def store_get_def Let_def)

lemma reader_labelled:
  "rd_label (set_reader on r) = reader_label (rd_on (set_reader on r))"
  "rd_label (wire_reader was bs) = reader_label (rd_on (wire_reader was bs))"
  by (simp_all add: set_reader_def wire_reader_def Let_def)

lemma press_twice: "rd_on (press_reader (press_reader r)) = rd_on r"
  by (simp add: press_reader_def set_reader_def)

lemma a11y_says_mode:
  assumes "run_a11y args (Some r) = (0, out, err, Some r')"
  shows "out = ''screen reader mode is '' @ (if rd_on r' then ''on'' else ''off'') @ [CHR 0x0A] \<and>
    (args = [''on''] \<longrightarrow> rd_on r') \<and> (args = [''off''] \<longrightarrow> \<not> rd_on r')"
  using assms by (auto simp: run_a11y_def Let_def set_reader_def split: list.splits if_splits)

text \<open>The prompt keys, ahead of the terminal's: what they do, or nothing.\<close>

datatype prompt_act = To_Previous | To_Next | Copy_Output

definition prompt_key :: "bool \<Rightarrow> bool \<Rightarrow> bool \<Rightarrow> string \<Rightarrow> prompt_act option" where
  "prompt_key ctl shift alt k =
     (if \<not> ctl \<or> \<not> shift \<or> alt then None
      else if k = ''ArrowUp'' then Some To_Previous
      else if k = ''ArrowDown'' then Some To_Next
      else if k = ''O'' \<or> k = ''o'' then Some Copy_Output
      else None)"

text \<open>\<^verbatim>\<open>copyLastOutput\<close>: what goes on the clipboard, if there is one, and the note shown.\<close>

definition copied_note :: "string \<Rightarrow> int \<Rightarrow> string" where
  "copied_note txt exit =
     (let n = length (filter (\<lambda>c. c = CHR 0x0A) txt) + 1 in
      (if 1 < n then itoa (int n) @ '' lines'' else ''1 line'') @
      (if 0 < exit then '', exit status '' @ itoa exit else []))"

definition copy_last_output :: "(string \<times> int) option \<Rightarrow> bool \<Rightarrow> string option \<times> (string \<times> string) option" where
  "copy_last_output lst clip =
     (case lst of
        None \<Rightarrow> (None, Some (''Nothing to copy'', ''no command has finished on this screen''))
      | Some (txt, exit) \<Rightarrow>
         (if clip then (Some txt, Some (''Copied the last command's output'', copied_note txt exit)) else (None, None)))"

subsection \<open>The zoom keys\<close>

datatype zoom_act = Zoom_In | Zoom_Out | Zoom_Reset

definition wheel_zoom :: "bool \<Rightarrow> bool \<Rightarrow> zoom_act option" where
  "wheel_zoom ctl down = (if \<not> ctl then None else Some (if down then Zoom_Out else Zoom_In))"

definition key_zoom :: "bool \<Rightarrow> string \<Rightarrow> zoom_act option" where
  "key_zoom ctl k =
     (if \<not> ctl then None
      else if k = ''+'' \<or> k = ''='' then Some Zoom_In
      else if k = ''-'' \<or> k = ''_'' then Some Zoom_Out
      else if k = ''0'' then Some Zoom_Reset
      else None)"

definition zoom_step :: "'f :: linordered_idom host_env \<Rightarrow> zoom_act \<Rightarrow> 'f host \<Rightarrow> 'f host" where
  "zoom_step E a s = (case a of Zoom_In \<Rightarrow> zoom_by 1 s | Zoom_Out \<Rightarrow> zoom_by (- 1) s | Zoom_Reset \<Rightarrow> zoom_reset E s)"

text \<open>However it is turned, the size stays in its range, if the one the terminal opened at is.\<close>

lemma zoom_in_range:
  assumes "4 \<le> he_size E" "he_size E \<le> 32"
  shows "4 \<le> hp_size (zoom_step E a s) \<and> hp_size (zoom_step E a s) \<le> 32"
  using assms by (cases a) (auto simp: zoom_step_def zoom_by_def zoom_reset_def clamp_zoom_def)

text \<open>
  The listeners: a binding is an event, its function and whether it captures; the element holds the
  ones it was given, and removing one takes the entries that are the same in all three.
\<close>

type_synonym 'fn zoom_binding = "string \<times> 'fn \<times> bool"

definition bind_zoom :: "'fn zoom_binding \<Rightarrow> 'fn zoom_binding list \<times> 'fn zoom_binding list \<Rightarrow>
    'fn zoom_binding list \<times> 'fn zoom_binding list" where
  "bind_zoom b s = (fst s @ [b], snd s @ [b])"

text \<open>\<^verbatim>\<open>releaseZoom\<close>: of the bindings kp and the element's listeners; and the functions released.\<close>

definition release_zoom :: "'fn zoom_binding list \<times> 'fn zoom_binding list \<Rightarrow>
    ('fn zoom_binding list \<times> 'fn zoom_binding list) \<times> 'fn list" where
  "release_zoom s = (([], filter (\<lambda>l. l \<notin> set (fst s)) (snd s)), map (\<lambda>(ev, fn, c). fn) (fst s))"

lemma zoom_released:
  assumes "set bs \<inter> set others = {}"
  shows "release_zoom (fold bind_zoom bs ([], others)) = (([], others), map (\<lambda>(ev, fn, c). fn) bs)"
proof -
  have "fold bind_zoom bs (xs, ys) = (xs @ bs, ys @ bs)" for xs ys
    by (induction bs arbitrary: xs ys) (auto simp: bind_zoom_def)
  moreover have "filter (\<lambda>l. l \<notin> set bs) others = others"
    using assms by (auto intro: filter_True)
  ultimately show ?thesis by (simp add: release_zoom_def)
qed

subsection \<open>The document of a shipped module\<close>

text \<open>
  Which loader runs it: one built by TinyGo imports WASI. The page's assets are the loaders it names
  (None where it names none), and the address is made absolute by \<open>absolute\<close>.
\<close>

record page_assets =
  as_go :: "string option"
  as_tinygo :: "string option"
  as_any :: "string option"

definition loader_name :: "bool \<Rightarrow> page_assets option \<Rightarrow> string" where
  "loader_name tinygo a =
     (case a of
        None \<Rightarrow> ''wasm_exec.js''
      | Some x \<Rightarrow>
         (case (if tinygo then as_tinygo x else as_go x) of
            Some v \<Rightarrow> if v \<noteq> [] then v
              else if \<not> tinygo then (case as_any x of Some w \<Rightarrow> w | None \<Rightarrow> ''wasm_exec.js'') else ''wasm_exec.js''
          | None \<Rightarrow> if \<not> tinygo then (case as_any x of Some w \<Rightarrow> w | None \<Rightarrow> ''wasm_exec.js'') else ''wasm_exec.js''))"

definition needs_wasi :: "string \<Rightarrow> bool" where
  "needs_wasi md = (index_of md ''wasi_snapshot_preview1'' \<noteq> None)"

definition module_loader :: "(string \<Rightarrow> string) \<Rightarrow> page_assets option \<Rightarrow> string \<Rightarrow> string" where
  "module_loader absolute a md = absolute (loader_name (needs_wasi md) a)"

subsection \<open>A program's own terminal\<close>

text \<open>\<^verbatim>\<open>device\<close>: the terminal its host gave it (what \<^verbatim>\<open>Terminal\<close> returns, a descriptor or a closed file), or the machine's.\<close>

definition tty_device :: "nat option option option \<Rightarrow> string" where
  "tty_device t =
     (case t of
        Some (Some (Some fd)) \<Rightarrow> ''/dev/fd/'' @ itoa (int fd)
      | _ \<Rightarrow> ''/dev/tty'')"

text \<open>
  \<^verbatim>\<open>Open\<close>: the terminal is asked what it offers, then read through the event filter over what the
  probe left. \<open>ns\<close> are the sizes the filter reads with; a read nothing has come for gives the
  filter nothing.
\<close>

definition child_src :: "ev_read list \<Rightarrow> (string \<times> string option) list" where
  "child_src rs = concat (map (\<lambda>r. case r of Ev_Data d \<Rightarrow> [(d, None)] | Ev_Wake \<Rightarrow> [([], None)]
     | Ev_Error e \<Rightarrow> [([], Some e)] | Ev_Blocked \<Rightarrow> []) rs)"

definition child_reads ::
  "(string \<Rightarrow> ('f :: zero) caps option) \<Rightarrow> (string \<Rightarrow> 'e option) \<Rightarrow> nat \<Rightarrow> nat \<Rightarrow> (string \<times> string option) list \<Rightarrow>
   nat list \<Rightarrow> ev_op list \<Rightarrow> ev_read list \<times> (string \<times> 'e) list \<times> 'e ev_filter"
where
  "child_reads un_caps un n m src ns xs =
     (case probe un_caps n [] src of (res, kp, e, left) \<Rightarrow>
        ev_run un xs new_ev_filter (child_src (after_reads ns (after_probe m kp e left))))"

lemma child_src_bytes: "src_bytes (child_src (after_reads ns a)) = read_bytes (after_reads ns a)"
proof (induction ns arbitrary: a)
  case Nil
  then show ?case by (simp add: child_src_def read_bytes_def)
next
  case (Cons n ns)
  obtain r b where r: "after_read n a = (r, b)" by fastforce
  from Cons [of b] show ?case by (cases r) (auto simp: r child_src_def read_bytes_def)
qed

text \<open>
  What the program reads of its terminal is a beginning of what was typed: of the bytes the probe
  did not use and those that came after, with the host's events cut out and nothing else.
\<close>

lemma child_reads_typed:
  assumes "probe un_caps n [] src = (res, kp, e, left)"
    "clean_src [] (child_src (after_reads ns (after_probe m kp e left)))"
    "child_reads un_caps un n m src ns xs = (rs, evs, g)"
  shows "\<exists>input. has_prefix (kp @ (if e = None then src_bytes left else [])) input \<and>
    has_prefix (fst (cut_events input)) (read_bytes rs)"
proof -
  let ?a = "after_probe m kp e left"
  let ?src = "child_src (after_reads ns ?a)"
  have "\<not> af_done ?a" by (simp add: after_probe_def)
  from after_reads_ahead [of ?a ns] this obtain X where X: "ahead ?a = read_bytes (after_reads ns ?a) @ X" by auto
  have "ahead ?a = kp @ (if e = None then src_bytes left else [])" by (simp add: ahead_def after_probe_def)
  with X have p: "has_prefix (kp @ (if e = None then src_bytes left else [])) (src_bytes ?src)"
    by (simp add: child_src_bytes has_prefix_iff)
  have inv: "ef_inv (new_ev_filter :: 'b ev_filter) ?src"
    using assms(2) by (auto simp: ef_inv_def new_ev_filter_def quiet_def has_suffix_def)
  have "ev_run un xs new_ev_filter ?src = (rs, evs, g)" using assms(1,3) by (simp add: child_reads_def)
  from ev_run_ok [OF inv this] have "has_prefix (fst (cut_events (src_bytes ?src))) (read_bytes rs)"
    by (auto simp: new_ev_filter_def to_come_def has_prefix_iff)
  with p show ?thesis by blast
qed

text \<open>A resize is told without waiting: into a channel with room, or not at all.\<close>

definition tell_resize :: "(nat \<times> nat) option \<Rightarrow> (nat \<times> nat) option" where
  "tell_resize ch = map_option (\<lambda>(cap, n). (cap, if n < cap then n + 1 else n)) ch"

lemma resize_never_blocks: "tell_resize (Some (cap, n)) = Some (cap, n') \<Longrightarrow> n \<le> cap \<Longrightarrow> n' \<le> cap"
  by (auto simp: tell_resize_def split: if_splits)

subsection \<open>A widget's line to its program\<close>

text \<open>
  \<^verbatim>\<open>Conn\<close>: the port, if the host gave one, with what was posted on it; and the function the
  program's messages go to. \<open>marshal\<close> is \<^verbatim>\<open>json.Marshal\<close>.
\<close>

record widget_conn =
  wc_port :: "string list option"
  wc_listens :: bool
  wc_open :: bool
  wc_heard :: "string list"

definition conn_send :: "(string + string) \<Rightarrow> widget_conn \<Rightarrow> string option \<times> widget_conn" where
  "conn_send js c =
     (case wc_port c of
        None \<Rightarrow> (None, c)
      | Some ps \<Rightarrow> (case js of
          Inl e \<Rightarrow> (Some e, c)
        | Inr b \<Rightarrow> (None, c\<lparr>wc_port := Some (if wc_open c then ps @ [b] else ps)\<rparr>)))"

definition conn_on_message :: "widget_conn \<Rightarrow> widget_conn" where
  "conn_on_message c = (if wc_port c = None then c else c\<lparr>wc_listens := True\<rparr>)"

text \<open>A message from the program: its data, when that is text.\<close>

definition conn_message :: "string option \<Rightarrow> widget_conn \<Rightarrow> widget_conn" where
  "conn_message d c =
     (case d of Some b \<Rightarrow> if wc_listens c \<and> wc_open c then c\<lparr>wc_heard := wc_heard c @ [b]\<rparr> else c | None \<Rightarrow> c)"

definition conn_close :: "widget_conn \<Rightarrow> widget_conn" where
  "conn_close c = c\<lparr>wc_open := False, wc_listens := False\<rparr>"

text \<open>
  The function \<^verbatim>\<open>RegisterConn\<close> offers: with no element it does nothing; else the widget is mounted
  on a line with the port, if one came, and what it returns (None for nothing) is called with the
  line closed after it.
\<close>

definition mount_widget :: "nat \<Rightarrow> bool \<Rightarrow> (widget_conn \<Rightarrow> bool \<times> widget_conn) \<Rightarrow> (bool \<times> widget_conn) option" where
  "mount_widget nargs port w =
     (if nargs = 0 then None
      else Some (w \<lparr>wc_port = (if 1 < nargs \<and> port then Some [] else None), wc_listens = False, wc_open = True, wc_heard = []\<rparr>))"

definition unmount_widget :: "(widget_conn \<Rightarrow> widget_conn) \<Rightarrow> widget_conn \<Rightarrow> widget_conn" where
  "unmount_widget un c = conn_close (un c)"

text \<open>Once it is taken away, nothing the widget sends or the program posts comes through.\<close>

lemma closed_line_silent:
  "conn_message d (conn_close c) = conn_close c"
  "wc_port (snd (conn_send js (conn_close c))) = wc_port c"
  by (auto simp: conn_message_def conn_close_def conn_send_def split: option.split sum.split)

text \<open>Without a line a widget works all the same: its sends are dropped.\<close>

lemma no_line_dropped: "wc_port c = None \<Longrightarrow> conn_send js c = (None, c) \<and> conn_on_message c = c"
  by (simp add: conn_send_def conn_on_message_def)

end
