(* ===== verification/Page_Files.thy ===== *)
theory Page_Files
  imports Complex_Main Inline_Images Page_Requests "HOL-Library.Multiset"
begin

text \<open>
  What a program offers the person at the page, \<^verbatim>\<open>src/web/page.go\<close>: a file to save (iTerm2's
  OSC 1337 File=) and the clipboard, to fill or to read (OSC 52); and the life of a widget over the
  cells, \<^verbatim>\<open>src/web/place.go\<close>: its mounting on a later turn, the mouse it takes, its clicks and
  messages; with the cells a picture covers (\<^verbatim>\<open>cellsFor\<close> of \<^verbatim>\<open>src/web/images.go\<close>). What the browser
  is made to do is a list of effects; \<open>yes\<close> is the person's answer to a question. The lemmas: the
  file the library's \<^verbatim>\<open>Download\<close> sends is the one saved, under a name that stays in its directory;
  each yes gives the clipboard once, to the command that asked; an offered widget is taken down
  once, whichever comes first; a click is reported in a cell of its placement.
\<close>

datatype page_effect =
    Ask string
  | Save_File string string
  | Fill_Clipboard string
  | Inline_Picture kitty_ctl string

subsection \<open>Files\<close>

definition file_args :: "string \<Rightarrow> kitty_ctl" where
  "file_args hdr = fold (\<lambda>kv m. case cut_byte kv (CHR ''='') of (k, v, _) \<Rightarrow> m(k \<mapsto> v))
     (split_byte (trim_prefix hdr ''File='') (CHR '';'')) (\<lambda>k. None)"

definition file_rune :: "rune \<Rightarrow> rune" where
  "file_rune r = (if r < 0x20 \<or> r = 0x2F \<or> r = 0x5C then 0x5F else r)"

definition file_rune_name :: "string \<Rightarrow> string" where
  "file_rune_name s = string_of_runes (map file_rune (runes s))"

definition offered_name :: "string \<Rightarrow> string" where
  "offered_name enc =
     (case b64_decode enc of
        None \<Rightarrow> ''download''
      | Some nb \<Rightarrow> if file_rune_name nb = [] then ''download'' else file_rune_name nb)"

text \<open>\<^verbatim>\<open>download\<close>: \<open>rem\<close> says that the output may be another machine's.\<close>

definition save_question :: "string \<Rightarrow> string \<Rightarrow> string" where
  "save_question name b = ''A program on another machine offers a file: '' @ name @ '' ('' @
     itoa (int (length b)) @ '' bytes). Save it?''"

definition asked :: "bool \<Rightarrow> (string \<Rightarrow> bool) \<Rightarrow> string \<Rightarrow> page_effect list \<Rightarrow> page_effect list" where
  "asked rem yes q es = (if rem then Ask q # (if yes q then es else []) else es)"

definition download :: "bool \<Rightarrow> (string \<Rightarrow> bool) \<Rightarrow> string \<Rightarrow> page_effect list" where
  "download rem yes data =
     (case cut_byte data (CHR '':'') of (hdr, body, ok) \<Rightarrow>
        if \<not> ok \<or> \<not> has_prefix hdr ''File='' then []
        else
          (let args = file_args hdr in
           if ctl_get args ''inline'' = ''1'' then
             (case b64_decode body of
                Some b \<Rightarrow> if length b \<le> image_limit then [Inline_Picture args b] else []
              | None \<Rightarrow> [])
           else
             (let name = offered_name (ctl_get args ''name'') in
              case b64_decode body of
                None \<Rightarrow> []
              | Some b \<Rightarrow> asked rem yes (save_question name b) [Save_File name b])))"

subsection \<open>The clipboard\<close>

text \<open>
  \<^verbatim>\<open>clipboard\<close> but for its query, and the query. \<open>cb_waiting\<close> are the reads the person allowed and
  the browser has not answered, with the selection and the number of the command that asked;
  \<open>cb_there\<close> says whether the browser gives the page a clipboard at all.
\<close>

record clip_state =
  cb_there :: bool
  cb_cmds :: nat
  cb_running :: bool
  cb_waiting :: "(string \<times> nat) list"

definition fill_question :: "string \<Rightarrow> string" where
  "fill_question b = ''A program on another machine wants to put '' @ itoa (int (length b)) @
     '' bytes on the clipboard. Allow it?''"

definition fill_clipboard :: "bool \<Rightarrow> (string \<Rightarrow> bool) \<Rightarrow> bool \<Rightarrow> string \<Rightarrow> page_effect list" where
  "fill_clipboard rem yes there enc =
     (case b64_decode enc of
        None \<Rightarrow> []
      | Some b \<Rightarrow> asked rem yes (fill_question b) (if there then [Fill_Clipboard b] else []))"

definition read_question :: "bool \<Rightarrow> string" where
  "read_question rem = (if rem then ''A program on another machine'' else ''The program in the terminal'') @
     '' asks to read your clipboard. Allow it this once?''"

definition clipboard_read :: "bool \<Rightarrow> (string \<Rightarrow> bool) \<Rightarrow> string \<Rightarrow> clip_state \<Rightarrow> page_effect list \<times> clip_state" where
  "clipboard_read rem yes sel s =
     (if \<not> cb_there s then ([], s)
      else ([Ask (read_question rem)],
        if yes (read_question rem) then s\<lparr>cb_waiting := cb_waiting s @ [(sel, cb_cmds s)]\<rparr> else s))"

definition clipboard :: "bool \<Rightarrow> (string \<Rightarrow> bool) \<Rightarrow> string \<Rightarrow> clip_state \<Rightarrow> page_effect list \<times> clip_state" where
  "clipboard rem yes data s =
     (case cut_byte data (CHR '';'') of (sel, enc, ok) \<Rightarrow>
        if \<not> ok then ([], s)
        else if enc = ''?'' then clipboard_read rem yes sel s
        else (fill_clipboard rem yes (cb_there s) enc, s))"

definition clip_reply :: "string \<Rightarrow> string \<Rightarrow> string" where
  "clip_reply sel txt = CHR 0x1B # '']52;'' @ sel @ '';'' @ b64_encode txt @ [CHR 0x1B, CHR 0x5C]"

text \<open>
  The browser answers the i-th read waiting, with the text or a refusal: what goes to the
  terminal's input.
\<close>

definition clip_answer :: "nat \<Rightarrow> string option \<Rightarrow> clip_state \<Rightarrow> string option \<times> clip_state" where
  "clip_answer i txt s =
     (if length (cb_waiting s) \<le> i then (None, s)
      else
        (let (sel, cmd) = cb_waiting s ! i;
             s' = s\<lparr>cb_waiting := take i (cb_waiting s) @ drop (Suc i) (cb_waiting s)\<rparr> in
         case txt of
           Some t \<Rightarrow> (if cb_running s \<and> cb_cmds s = cmd then Some (clip_reply sel t) else None, s')
         | None \<Rightarrow> (None, s')))"

datatype clip_op =
    Clip_Osc bool bool string
  | Clip_Comes nat "string option"
  | Clip_Starts
  | Clip_Stops

text \<open>
  What is seen of it: a read allowed, by its command, and an answer, with the command it reached. A
  read is allowed when the question of a read is asked and answered with yes, whatever the state
  does of it.
\<close>

datatype clip_trace = Allowed nat | Answered nat string

definition said_yes :: "bool \<Rightarrow> bool \<Rightarrow> page_effect list \<Rightarrow> bool" where
  "said_yes rem y effs \<longleftrightarrow> 
     y \<and> list_ex (\<lambda>e. case e of Ask q \<Rightarrow> q = read_question rem | _ \<Rightarrow> False) effs"

definition clip_step :: "clip_op \<Rightarrow> clip_state \<Rightarrow> clip_trace list \<times> clip_state" where
  "clip_step a s =
     (case a of
        Clip_Osc rem y data \<Rightarrow>
          (case clipboard rem (\<lambda>q. y) data s of (effs, s') \<Rightarrow>
             (if said_yes rem y effs then [Allowed (cb_cmds s)] else [], s'))
      | Clip_Comes i txt \<Rightarrow>
          (case clip_answer i txt s of (r, s') \<Rightarrow>
             (case r of Some b \<Rightarrow> [Answered (cb_cmds s) b] | None \<Rightarrow> [], s'))
      | Clip_Starts \<Rightarrow> ([], s\<lparr>cb_cmds := cb_cmds s + 1, cb_running := True\<rparr>)
      | Clip_Stops \<Rightarrow> ([], s\<lparr>cb_running := False\<rparr>))"

fun clip_run :: "clip_op list \<Rightarrow> clip_state \<Rightarrow> clip_trace list \<times> clip_state" where
  "clip_run [] s = ([], s)"
| "clip_run (a # xs) s =
     (case clip_step a s of (es, s') \<Rightarrow> case clip_run xs s' of (fs, s'') \<Rightarrow> (es @ fs, s''))"

subsection \<open>Lemmas on files\<close>

lemma b64_no_colon: "CHR '':'' \<notin> set (b64_encode s)"
proof -
  have "list_all (\<lambda>n. b64_char n \<noteq> CHR '':'') [0..<64]" by code_simp
  then have t: "b64_char n \<noteq> CHR '':''" if "n < 64" for n
    using that by (simp add: list_all_iff)
  show ?thesis
  proof (induction s rule: b64_encode.induct)
    case (2 a)
    then show ?case using b64_digits [of "byte_of a" 0 0] t [THEN not_sym] by (auto simp: b64_group_def)
  next
    case (3 a b)
    then show ?case using b64_digits [of "byte_of a" "byte_of b" 0] t [THEN not_sym] by (auto simp: b64_group_def)
  next
    case (4 a b c s)
    then show ?case
      using b64_digits [of "byte_of a" "byte_of b" "byte_of c"] t [THEN not_sym] by (auto simp: b64_group_def)
  qed simp
qed

lemma itoa_no_mark: "set (itoa n) \<inter> {CHR '':'', CHR '';'', CHR ''=''} = {}"
  using itoa_nat_digits [of "nat n"] itoa_nat_digits [of "nat (- n)"]
  by (auto simp: itoa_def list_all_iff is_digit_def byte_of_def)

text \<open>What \<^verbatim>\<open>Download\<close> sends, without the sequence around it.\<close>

definition download_data :: "string \<Rightarrow> string \<Rightarrow> string" where
  "download_data name b = ''File=name='' @ b64_encode name @ '';size='' @ itoa (int (length b)) @
     '';inline=0:'' @ b64_encode b"

lemma download_seq_data: "download_seq name b = CHR 0x1B # '']1337;'' @ download_data name b @ [CHR 0x07]"
  by (simp add: download_seq_def download_data_def lib_itoa_decimal)

lemma download_head:
  "cut_byte (download_data name b) (CHR '':'') =
     (''File=name='' @ b64_encode name @ '';size='' @ itoa (int (length b)) @ '';inline=0'', b64_encode b, True)"
  using cut_byte_found [of "CHR '':''" "''File=name='' @ b64_encode name @ '';size='' @ itoa (int (length b)) @ '';inline=0''"
      "b64_encode b"] b64_no_colon [of name] itoa_no_mark [of "int (length b)"]
  by (simp add: download_data_def)

lemma download_args:
  "file_args (''File=name='' @ b64_encode name @ '';size='' @ itoa n @ '';inline=0'') =
     [''name'' \<mapsto> b64_encode name, ''size'' \<mapsto> itoa n, ''inline'' \<mapsto> ''0'']"
proof -
  have "trim_prefix (''File=name='' @ b64_encode name @ '';size='' @ itoa n @ '';inline=0'') ''File='' =
      ''name='' @ b64_encode name @ '';size='' @ itoa n @ '';inline=0''"
    by (simp add: trim_prefix_def)
  moreover have "split_byte (''name='' @ b64_encode name @ '';size='' @ itoa n @ '';inline=0'') (CHR '';'') =
      [''name='' @ b64_encode name, ''size='' @ itoa n, ''inline=0'']"
    using b64_encode_plain [of name] itoa_no_mark [of n]
      split_byte_append [of "CHR '';''" "''name='' @ b64_encode name" "''size='' @ itoa n @ '';inline=0''"]
      split_byte_append [of "CHR '';''" "''size='' @ itoa n" "''inline=0''"]
      split_byte_no_sep [of "CHR '';''" "''inline=0''"]
    by simp
  moreover have c: "cut_byte (''name='' @ v) (CHR ''='') = (''name'', v, True)"
    "cut_byte (''size='' @ v) (CHR ''='') = (''size'', v, True)"
    "cut_byte (''inline='' @ v) (CHR ''='') = (''inline'', v, True)" for v
    using cut_byte_found [of "CHR ''=''" "''name''" v] cut_byte_found [of "CHR ''=''" "''size''" v]
      cut_byte_found [of "CHR ''=''" "''inline''" v] by simp_all
  ultimately show ?thesis using c(3) [of "''0''"] by (simp add: file_args_def)
qed

text \<open>A file the program offers is saved as it is, at once where the program runs at the page.\<close>

lemma download_saves:
  "download rem yes (download_data name b) =
     (let n = offered_name (b64_encode name) in asked rem yes (save_question n b) [Save_File n b])"
  using download_head [of name b] download_args [of name "int (length b)"]
  by (simp add: download_def ctl_get_def Let_def)

lemma file_rune_ok: "r \<noteq> 0x2F \<and> r \<noteq> 0x5C \<and> 0x20 \<le> r \<Longrightarrow> file_rune r = r"
  by (simp add: file_rune_def)

text \<open>The name stays in its directory: it has no control character, no slash and no backslash.\<close>

lemma file_rune_name_bytes:
  assumes "c \<in> set (file_rune_name s)"
  shows "0x20 \<le> byte_of c \<and> c \<noteq> CHR ''/'' \<and> c \<noteq> CHR 0x5C"
proof -
  obtain r where r: "r \<in> set (map file_rune (runes s))" "c \<in> set (encode_rune r)"
    using assms by (auto simp: file_rune_name_def string_of_runes_def)
  then have ok: "0x20 \<le> r" "r \<noteq> 0x2F" "r \<noteq> 0x5C" by (auto simp: file_rune_def split: if_splits)
  show ?thesis
  proof (cases "r < 128")
    case True
    with r have "c = chr_of r" by (simp add: encode_rune_ascii)
    with True have "byte_of c = r" by simp
    with ok show ?thesis by (auto simp: byte_of_def)
  next
    case False
    with r have "128 \<le> byte_of c" using encode_rune_high [of r c] by simp
    then show ?thesis by (auto simp: byte_of_def)
  qed
qed

lemma saved_name_stays:
  assumes "Save_File name b \<in> set (download rem yes data)"
  shows "name \<noteq> [] \<and> (\<forall>c \<in> set name. 0x20 \<le> byte_of c \<and> c \<noteq> CHR ''/'' \<and> c \<noteq> CHR 0x5C)"
proof -
  from assms obtain enc where "name = offered_name enc"
    by (auto simp: download_def asked_def Let_def split: prod.splits option.splits if_splits)
  then show ?thesis
    using file_rune_name_bytes by (auto simp: offered_name_def byte_of_def split: option.splits)
qed

text \<open>Another machine's program saves nothing and fills nothing unasked.\<close>

lemma remote_asks:
  assumes "e \<in> set (download True yes data) \<or> e \<in> set (fill_clipboard True yes there enc)"
    "\<forall>a b. e \<noteq> Inline_Picture a b"
  shows "(\<exists>q. e = Ask q) \<or> (\<exists>q. yes q)"
  using assms by (auto simp: download_def fill_clipboard_def asked_def Let_def split: prod.splits option.splits if_splits)

lemma copy_fills:
  "copy_seq t = CHR 0x1B # '']52;'' @ (''c;'' @ b64_encode t) @ [CHR 0x1B, CHR 0x5C]"
  "clipboard False yes (''c;'' @ b64_encode t) s = (if cb_there s then [Fill_Clipboard t] else [], s)"
proof -
  show "copy_seq t = CHR 0x1B # '']52;'' @ (''c;'' @ b64_encode t) @ [CHR 0x1B, CHR 0x5C]"
    by (simp add: copy_seq_def)
  have "b64_encode t \<noteq> ''?''"
  proof
    assume "b64_encode t = ''?''"
    with b64_decode_encode [of t] have "b64_decode ''?'' = Some t" by simp
    then show False by (simp add: b64_decode_def)
  qed
  then show "clipboard False yes (''c;'' @ b64_encode t) s = (if cb_there s then [Fill_Clipboard t] else [], s)"
    using cut_byte_found [of "CHR '';''" "''c''" "b64_encode t"]
    by (simp add: clipboard_def fill_clipboard_def asked_def)
qed

subsection \<open>Lemmas on the clipboard\<close>

text \<open>The commands of the reads allowed, of those still waiting, and of the answers given.\<close>

definition allowed_by :: "clip_trace list \<Rightarrow> nat list" where
  "allowed_by es = concat (map (\<lambda>e. case e of Allowed c \<Rightarrow> [c] | _ \<Rightarrow> []) es)"

definition answered_to :: "clip_trace list \<Rightarrow> nat list" where
  "answered_to es = concat (map (\<lambda>e. case e of Answered c b \<Rightarrow> [c] | _ \<Rightarrow> []) es)"

lemma trace_simps [simp]:
  "allowed_by [] = []" "answered_to [] = []"
  "allowed_by (es @ fs) = allowed_by es @ allowed_by fs"
  "answered_to (es @ fs) = answered_to es @ answered_to fs"
  "allowed_by [Allowed c] = [c]" "answered_to [Allowed c] = []"
  "allowed_by [Answered c b] = []" "answered_to [Answered c b] = [c]"
  by (simp_all add: allowed_by_def answered_to_def)

definition waiting_of :: "clip_state \<Rightarrow> nat multiset" where
  "waiting_of s = mset (map snd (cb_waiting s))"

lemma waiting_split:
  assumes "i < length xs"
  shows "mset (map snd xs) = {# snd (xs ! i) #} + mset (map snd (take i xs @ drop (Suc i) xs))"
proof -
  have "xs = take i xs @ xs ! i # drop (Suc i) xs" using assms by (rule id_take_nth_drop)
  then have "mset (map snd xs) = mset (map snd (take i xs @ xs ! i # drop (Suc i) xs))" by (rule arg_cong)
  then show ?thesis by simp
qed

lemma clip_osc_waiting:
  assumes "clipboard rem (\<lambda>q. y) data s = (effs, s')"
  shows "cb_waiting s' = cb_waiting s \<or>
    said_yes rem y effs \<and> (\<exists>sel. cb_waiting s' = cb_waiting s @ [(sel, cb_cmds s)])"
  using assms by (auto simp: clipboard_def clipboard_read_def said_yes_def split: prod.splits if_splits)

lemma clip_step_waiting:
  assumes "clip_step a s = (es, s')"
  shows "mset (answered_to es) + waiting_of s' \<subseteq># mset (allowed_by es) + waiting_of s"
proof (cases a)
  case (Clip_Osc rem y data)
  obtain effs s1 where c: "clipboard rem (\<lambda>q. y) data s = (effs, s1)" by fastforce
  show ?thesis
    using clip_osc_waiting [OF c] assms
    by (auto simp: Clip_Osc clip_step_def c waiting_of_def)
next
  case (Clip_Comes i ans)
  show ?thesis
  proof (cases "i < length (cb_waiting s)")
    case True
    obtain sel cmd where w: "cb_waiting s ! i = (sel, cmd)" by fastforce
    from waiting_split [OF True] have "waiting_of s = {# cmd #} +
        mset (map snd (take i (cb_waiting s) @ drop (Suc i) (cb_waiting s)))"
      by (simp add: waiting_of_def w)
    then show ?thesis
      using assms True w
      by (cases ans) (auto simp: Clip_Comes clip_step_def clip_answer_def waiting_of_def split: if_splits)
  next
    case False
    then show ?thesis using assms by (simp add: Clip_Comes clip_step_def clip_answer_def)
  qed
next
  case Clip_Starts
  then show ?thesis using assms by (auto simp: clip_step_def waiting_of_def)
next
  case Clip_Stops
  then show ?thesis using assms by (auto simp: clip_step_def waiting_of_def)
qed

lemma clip_run_waiting:
  "clip_run xs s = (es, s') \<Longrightarrow>
   mset (answered_to es) + waiting_of s' \<subseteq># mset (allowed_by es) + waiting_of s"
proof (induction xs arbitrary: s es)
  case (Cons a xs)
  obtain e1 s1 where a: "clip_step a s = (e1, s1)" by fastforce
  obtain e2 s2 where b: "clip_run xs s1 = (e2, s2)" by fastforce
  from Cons.prems a b have es: "es = e1 @ e2" "s' = s2" by auto
  from Cons.IH b es have "mset (answered_to e2) + waiting_of s' \<subseteq># mset (allowed_by e2) + waiting_of s1" by simp
  then have "mset (answered_to e1) + (mset (answered_to e2) + waiting_of s') \<subseteq>#
      mset (answered_to e1) + (mset (allowed_by e2) + waiting_of s1)"
    by (rule subset_mset.add_left_mono)
  also have "mset (answered_to e1) + (mset (allowed_by e2) + waiting_of s1) =
      mset (allowed_by e2) + (mset (answered_to e1) + waiting_of s1)"
    by (simp only: ac_simps)
  also have "mset (allowed_by e2) + (mset (answered_to e1) + waiting_of s1) \<subseteq>#
      mset (allowed_by e2) + (mset (allowed_by e1) + waiting_of s)"
    using clip_step_waiting [OF a] by (rule subset_mset.add_left_mono)
  finally have "mset (answered_to e1) + (mset (answered_to e2) + waiting_of s') \<subseteq>#
      mset (allowed_by e2) + (mset (allowed_by e1) + waiting_of s)" .
  with es show ?case by (simp add: ac_simps)
qed simp

text \<open>
  C8. However the requests for the clipboard, its answers and the starts and ends of commands
  interleave: every text that reaches a command's input reaches the command the person allowed to
  read it, and each yes gives at most one: for each command, the answers given to it and the reads
  it still waits for are at most the reads allowed to it and those it waited for before. A yes
  given to one command is never used for the next.
\<close>

theorem clipboard_each_yes_once:
  "case clip_run xs s of (es, s') \<Rightarrow>
     mset (answered_to es) + waiting_of s' \<subseteq># mset (allowed_by es) + waiting_of s"
  by (cases "clip_run xs s") (simp add: clip_run_waiting)

text \<open>A read allowed, the command ended and another begun before the browser answers: nothing comes.\<close>

lemma late_answer_dropped:
  "clip_run [Clip_Starts, Clip_Osc True True ''c;?'', Clip_Stops, Clip_Starts, Clip_Comes 0 (Some ''secret'')]
      \<lparr>cb_there = True, cb_cmds = 0, cb_running = False, cb_waiting = []\<rparr> =
    ([Allowed 1], \<lparr>cb_there = True, cb_cmds = 2, cb_running = True, cb_waiting = []\<rparr>)"
  by code_simp

subsection \<open>A widget over the cells\<close>

text \<open>
  \<^verbatim>\<open>mountOffered\<close>: the widget is up when its mount's promise says so, perhaps after its placement
  was taken away. \<open>'u\<close> are the functions that take a widget down (None for one that gave none), and
  \<open>ow_down\<close> those called.
\<close>

record 'u offered_widget =
  ow_gone :: bool
  ow_un :: "'u option"
  ow_down :: "'u list"

definition new_offered :: "'u offered_widget" where
  "new_offered = \<lparr>ow_gone = False, ow_un = None, ow_down = []\<rparr>"

definition offer_unmount :: "'u option \<Rightarrow> 'u offered_widget \<Rightarrow> 'u offered_widget" where
  "offer_unmount u w = (case u of Some f \<Rightarrow> w\<lparr>ow_down := ow_down w @ [f]\<rparr> | None \<Rightarrow> w)"

definition widget_up :: "'u option \<Rightarrow> 'u offered_widget \<Rightarrow> 'u offered_widget" where
  "widget_up u w = (if ow_gone w then offer_unmount u w else w\<lparr>ow_un := u\<rparr>)"

definition widget_away :: "'u offered_widget \<Rightarrow> 'u offered_widget" where
  "widget_away w = offer_unmount (ow_un w) (w\<lparr>ow_gone := True\<rparr>)"

text \<open>Taken away before it is up or after, it is taken down, and once.\<close>

lemma offered_down_once:
  "ow_down (widget_away (widget_up u new_offered)) = (case u of Some f \<Rightarrow> [f] | None \<Rightarrow> [])"
  "ow_down (widget_up u (widget_away new_offered)) = (case u of Some f \<Rightarrow> [f] | None \<Rightarrow> [])"
  by (cases u; simp add: widget_away_def widget_up_def offer_unmount_def new_offered_def)+

text \<open>
  \<^verbatim>\<open>takeInput\<close>: what a placement that has the mouse does with an event, whether it goes on to the
  terminal and whether it is marked handled; None for one it does not listen to.
\<close>

definition page_mouse :: "string list" where
  "page_mouse = [''mousedown'', ''mousemove'', ''mouseup'', ''click'', ''dblclick'', ''contextmenu'', ''wheel'',
     ''touchstart'', ''touchmove'', ''touchend'']"

definition own_mouse :: "string list" where
  "own_mouse = [''mousedown'', ''click'', ''dblclick'', ''contextmenu'', ''wheel'', ''touchstart'']"

definition take_input :: "bool \<Rightarrow> string \<Rightarrow> (bool \<times> bool) option" where
  "take_input page ty =
     (if page then (if ty \<in> set page_mouse then Some (True, True) else None)
      else if ty \<in> set own_mouse then Some (False, ty = ''mousedown'')
      else if ty \<in> set [''mousemove'', ''mouseup''] then Some (True, True)
      else None)"

text \<open>
  A mouse event the placement takes reaches the terminal only marked handled, which the terminal
  reads as not its own.
\<close>

lemma placed_mouse_not_terminal: "take_input page ty = Some (goes_on, handled) \<Longrightarrow> goes_on \<Longrightarrow> handled"
  by (auto simp: take_input_def split: if_splits)

text \<open>\<^verbatim>\<open>post\<close>: what goes on a placement's port, if there is one; and \<^verbatim>\<open>onMsg\<close>, the event of a widget's message.\<close>

definition post_message :: "(string \<Rightarrow> bool) \<Rightarrow> string \<Rightarrow> string \<Rightarrow> (string \<times> placement) list \<Rightarrow> string option" where
  "post_message json_ok i data by' =
     (case map_of by' i of
        Some pl \<Rightarrow> if pl_port pl \<and> json_ok data then Some data else None
      | None \<Rightarrow> None)"

definition widget_message :: "(string \<Rightarrow> bool) \<Rightarrow> bool \<Rightarrow> string \<Rightarrow> string option \<Rightarrow> (string \<times> string) option" where
  "widget_message json_ok events i d =
     (if \<not> events then None
      else (case d of Some js \<Rightarrow> if json_ok js then Some (i, js) else None | None \<Rightarrow> None))"

text \<open>
  \<^verbatim>\<open>reportClicks\<close>: the element's box on the page (left, top, width, height) and the point clicked;
  \<open>to_int\<close> is Go's conversion of a float. The point in the box and the cell under it.
\<close>

definition cell_in :: "int \<Rightarrow> int \<Rightarrow> int \<Rightarrow> int" where
  "cell_in first n k = wrap64 (first + min (n - 1) (max 0 k))"

definition click_at ::
  "('f :: linordered_field \<Rightarrow> int) \<Rightarrow> place_data \<Rightarrow> 'f \<times> 'f \<times> 'f \<times> 'f \<Rightarrow> 'f \<times> 'f \<Rightarrow> ('f \<times> 'f \<times> int \<times> int) option"
where
  "click_at to_int d box p =
     (case (box, p) of ((l, t, w, h), (cx, cy)) \<Rightarrow>
        if w \<le> 0 \<or> h \<le> 0 then None
        else
          (let x = (cx - l) / w; y = (cy - t) / h in
           Some (x, y, cell_in (pd_col d) (pd_w d) (to_int (x * of_int (pd_w d))),
             cell_in (pd_row d) (pd_h d) (to_int (y * of_int (pd_h d))))))"

lemma cell_in_range:
  assumes "0 < n" "- (2 ^ 63) \<le> first" "first + n \<le> 2 ^ 63"
  shows "first \<le> cell_in first n k \<and> cell_in first n k < first + n"
proof -
  have "- (2 ^ 63) \<le> first + min (n - 1) (max 0 k)" "first + min (n - 1) (max 0 k) < 2 ^ 63" using assms by linarith+
  then show ?thesis using assms by (simp add: cell_in_def)
qed

text \<open>Wherever the point is, the cell told is one of the placement's.\<close>

lemma click_in_placement:
  assumes "click_at to_int d box p = Some (x, y, col, row)" "0 < pd_w d" "0 < pd_h d"
    "- (2 ^ 63) \<le> pd_col d" "pd_col d + pd_w d \<le> 2 ^ 63" "- (2 ^ 63) \<le> pd_row d" "pd_row d + pd_h d \<le> 2 ^ 63"
  shows "pd_col d \<le> col \<and> col < pd_col d + pd_w d \<and> pd_row d \<le> row \<and> row < pd_row d + pd_h d"
  using assms cell_in_range [of "pd_w d" "pd_col d"] cell_in_range [of "pd_h d" "pd_row d"]
  by (auto simp: click_at_def Let_def split: prod.splits if_splits)

text \<open>With the screen's coordinates exact, a click on a cell of the placement is told as that cell.\<close>

lemma click_on_cell:
  assumes "0 < w" "0 < h" "0 \<le> i" "i < pd_w d" "0 \<le> j" "j < pd_h d" "0 \<le> dx" "dx < 1" "0 \<le> dy" "dy < 1"
    "- (2 ^ 63) \<le> pd_col d" "pd_col d + pd_w d \<le> 2 ^ 63" "- (2 ^ 63) \<le> pd_row d" "pd_row d + pd_h d \<le> 2 ^ 63"
  shows "\<exists>x y. click_at floor d (l, t, w * of_int (pd_w d), h * of_int (pd_h d))
      (l + w * (of_int i + dx), t + h * (of_int j + dy :: 'f :: floor_ceiling)) =
    Some (x, y, pd_col d + i, pd_row d + j)"
proof -
  have cell: "\<lfloor>(a + c * (of_int k + e) - a) / (c * of_int n) * of_int n\<rfloor> = k"
    if "0 < c" "0 < n" "0 \<le> e" "e < (1 :: 'f)" for a c e and k n :: int
  proof -
    have "(a + c * (of_int k + e) - a) / (c * of_int n) * of_int n = of_int k + e" using that by simp
    with that(3,4) show ?thesis by (simp add: floor_eq_iff)
  qed
  have "0 < w * of_int (pd_w d)" "0 < h * of_int (pd_h d)" using assms by simp_all
  moreover have "cell_in (pd_col d) (pd_w d) i = pd_col d + i" "cell_in (pd_row d) (pd_h d) j = pd_row d + j"
    using assms by (simp_all add: cell_in_def)
  ultimately show ?thesis
    using cell [of w "pd_w d" dx l i] cell [of h "pd_h d" dy t j] assms
    by (simp add: click_at_def Let_def not_le)
qed

subsection \<open>The cells a picture covers\<close>

text \<open>
  Go's \<^verbatim>\<open>float64\<close>, with its comparisons as they are (false of a number that is none):
  \<open>fl_ceil\<close> is \<^verbatim>\<open>int(math.Ceil(x))\<close>.
\<close>

record 'f floats =
  fl_int :: "int \<Rightarrow> 'f"
  fl_times :: "'f \<Rightarrow> 'f \<Rightarrow> 'f"
  fl_div :: "'f \<Rightarrow> 'f \<Rightarrow> 'f"
  fl_le :: "'f \<Rightarrow> 'f \<Rightarrow> bool"
  fl_less :: "'f \<Rightarrow> 'f \<Rightarrow> bool"
  fl_min :: "'f \<Rightarrow> 'f \<Rightarrow> 'f"
  fl_ceil :: "'f \<Rightarrow> int"
  fl_parse :: "string \<Rightarrow> 'f option"

text \<open>
  The length asked for: the number, and whether there was one. \<^verbatim>\<open>ParseFloat\<close> gives 0 with an
  error of syntax; the infinity it gives with an error of range is \<open>bad\<close> here, for both.
\<close>

definition spec_px :: "'f floats \<Rightarrow> (string \<Rightarrow> 'f) \<Rightarrow> string \<Rightarrow> 'f \<Rightarrow> 'f \<Rightarrow> 'f \<Rightarrow> 'f \<times> bool" where
  "spec_px F bad spec tot own cell =
     (let num = (\<lambda>x. case fl_parse F x of Some v \<Rightarrow> (v, True) | None \<Rightarrow> (bad x, False)) in
      if spec = [] \<or> spec = ''auto'' then (own, False)
      else if has_suffix spec ''px'' then num (trim_suffix spec ''px'')
      else if has_suffix spec ''%'' then
        (case num (trim_suffix spec ''%'') of (v, ok) \<Rightarrow> (fl_div F (fl_times F tot v) (fl_int F 100), ok))
      else (case num spec of (v, ok) \<Rightarrow> (fl_times F v cell, ok)))"

text \<open>The shape kept: the picture's own size, the size asked, and which of it was.\<close>

definition keep_shape :: "'f floats \<Rightarrow> bool \<Rightarrow> 'f \<Rightarrow> 'f \<Rightarrow> 'f \<times> bool \<Rightarrow> 'f \<times> bool \<Rightarrow> 'f \<times> 'f" where
  "keep_shape F keep pw ph ws hs =
     (case (ws, hs) of ((W, w_set), (H, h_set)) \<Rightarrow>
        if keep \<and> fl_less F (fl_int F 0) pw \<and> fl_less F (fl_int F 0) ph then
          (if w_set \<and> \<not> h_set then (W, fl_div F (fl_times F W ph) pw)
           else if h_set \<and> \<not> w_set then (fl_div F (fl_times F H pw) ph, H)
           else if w_set \<and> h_set then
             (let k = fl_min F (fl_div F W pw) (fl_div F H ph) in (fl_times F pw k, fl_times F ph k))
           else (W, H))
        else (W, H))"

text \<open>Within the terminal's width, in whole cells, one at least.\<close>

definition fit_width :: "'f floats \<Rightarrow> 'f \<times> 'f \<Rightarrow> int \<Rightarrow> 'f \<Rightarrow> 'f \<Rightarrow> int \<times> int" where
  "fit_width F cell tc W0 H0 =
     (let maxw = fl_times F (fl_int F tc) (fst cell);
          (W, H) = (if fl_less F maxw W0 then (maxw, fl_div F (fl_times F H0 maxw) W0) else (W0, H0)) in
      (max 1 (fl_ceil F (fl_div F W (fst cell))), max 1 (fl_ceil F (fl_div F H (snd cell)))))"

text \<open>\<open>cell\<close> is the size of a cell, \<open>trm\<close> the terminal's columns and rows, \<open>dpr\<close> the page's pixel ratio.\<close>

definition cells_for ::
  "'f floats \<Rightarrow> (string \<Rightarrow> 'f) \<Rightarrow> 'f \<times> 'f \<Rightarrow> int \<times> int \<Rightarrow> 'f \<Rightarrow> int \<Rightarrow> int \<Rightarrow> string \<Rightarrow> string \<Rightarrow> bool \<Rightarrow> int \<times> int"
where
  "cells_for F bad cell trm dpr0 w h ws hs keep =
     (case (cell, trm) of ((cw, ch), (tc, tr)) \<Rightarrow>
        if fl_le F cw (fl_int F 0) \<or> fl_le F ch (fl_int F 0) then (0, 0)
        else
          (let dpr = (if fl_le F dpr0 (fl_int F 0) then fl_int F 1 else dpr0);
               pw = fl_div F (fl_int F w) dpr; ph = fl_div F (fl_int F h) dpr;
               (W, H) = keep_shape F keep pw ph (spec_px F bad ws (fl_times F (fl_int F tc) cw) pw cw)
                 (spec_px F bad hs (fl_times F (fl_int F tr) ch) ph ch);
               (W, H) = (if fl_le F W (fl_int F 0) \<or> fl_le F H (fl_int F 0)
                 then (fl_times F (fl_int F (min 40 tc)) cw, fl_times F (fl_int F (min 12 tr)) ch) else (W, H)) in
           fit_width F (cw, ch) tc W H))"

lemma cells_fitted:
  "\<exists>W H. cells_for F bad (cw, ch) (tc, tr) dpr w h ws hs keep =
     (if fl_le F cw (fl_int F 0) \<or> fl_le F ch (fl_int F 0) then (0, 0) else fit_width F (cw, ch) tc W H)"
  unfolding cells_for_def Let_def split_beta by (simp only: prod.case fst_conv snd_conv) blast

text \<open>A picture is given a cell at least, whatever numbers were asked for.\<close>

lemma fit_some: "1 \<le> fst (fit_width F cell tc W H) \<and> 1 \<le> snd (fit_width F cell tc W H)"
  by (simp add: fit_width_def Let_def)

lemma picture_has_cells:
  assumes "cells_for F bad (cw, ch) (tc, tr) dpr w h ws hs keep = (cols, rows)"
  shows "(cols, rows) = (0, 0) \<or> 1 \<le> cols \<and> 1 \<le> rows"
proof -
  obtain W H where "(cols, rows) = (if fl_le F cw (fl_int F 0) \<or> fl_le F ch (fl_int F 0) then (0, 0)
      else fit_width F (cw, ch) tc W H)"
    using cells_fitted [of F bad cw ch tc tr dpr w h ws hs keep] assms by auto
  with fit_some [of F "(cw, ch)" tc W H] show ?thesis by (metis fst_conv snd_conv)
qed

text \<open>With exact numbers it is never wider than the terminal.\<close>

definition exact_floats :: "(string \<Rightarrow> 'f option) \<Rightarrow> ('f :: floor_ceiling) floats" where
  "exact_floats p = \<lparr>fl_int = of_int, fl_times = (*), fl_div = (/), fl_le = (\<le>), fl_less = (<), fl_min = min,
     fl_ceil = ceiling, fl_parse = p\<rparr>"

lemma fit_within:
  assumes "0 < cw" "1 \<le> tc"
  shows "fst (fit_width (exact_floats p) (cw, ch) tc W H) \<le> tc"
proof -
  have "\<lceil>(if of_int tc * cw < W then of_int tc * cw else W) / cw\<rceil> \<le> tc"
    using assms(1) by (auto simp: ceiling_le_iff field_simps)
  with assms show ?thesis
    by (simp add: fit_width_def exact_floats_def Let_def split: if_split_asm)
qed

lemma picture_within_width:
  assumes "cells_for (exact_floats p) bad (cw, ch) (tc, tr) dpr w h ws hs keep = (cols, rows)" "1 \<le> tc"
  shows "cols \<le> tc"
proof (cases "cw \<le> 0 \<or> ch \<le> 0")
  case True
  with cells_fitted [of "exact_floats p" bad cw ch tc tr dpr w h ws hs keep] assms show ?thesis
    by (simp add: exact_floats_def)
next
  case False
  then obtain W H where "(cols, rows) = fit_width (exact_floats p) (cw, ch) tc W H"
    using cells_fitted [of "exact_floats p" bad cw ch tc tr dpr w h ws hs keep] assms
    by (auto simp: exact_floats_def)
  with fit_within [of cw tc p ch W H] False assms(2) show ?thesis by (metis fst_conv not_le)
qed

end
