(* ===== verification/Console_Tty.thy ===== *)
theory Console_Tty
  imports Go_Prelude
begin

text \<open>
  The console's terminal, \<^verbatim>\<open>Run\<close> of \<^verbatim>\<open>src/console/console.go\<close>: what is opened and put back, the modes
  of the terminal at the prompt and while a line runs, and Ctrl+C, which a goroutine of its own
  handles while lines begin and end; and, beside both, programs left running in the background.
  What is read and run is in \<open>Console_Shell\<close>. The lemmas: where Run returns, on every path and whatever
  runs in the background, the terminal is cooked and blocking and the second descriptor closed;
  a Ctrl+C that is dealt with before its line ends never reaches the prompt; and one that is not can
  end the console.
\<close>

subsection \<open>State\<close>

text \<open>
  The terminal: raw (in another mode than the one it was found in, which is cooked), non-blocking,
  the reads of it ended by a deadline that has passed, and the second descriptor open.
\<close>

record con_term =
  ct_raw :: bool
  ct_nonblock :: bool
  ct_ended :: bool
  ct_dup :: bool

text \<open>
  Where the shell's goroutine is: about to run the rc file; at the top of the loop; reading a line;
  with a line to run; running one; after \<^verbatim>\<open>Run\<close> of the shell; with \<^verbatim>\<open>cancel\<close> cleared; returned.
\<close>

datatype con_job = Rc_File | Typed_Line

datatype con_phase =
    Con_Begins
  | Con_Ready
  | Con_Reads
  | Con_Has_Line
  | Con_Runs con_job
  | Con_Has_Run con_job
  | Con_Cleared con_job
  | Con_Returned

text \<open>
  The goroutine of signals: waiting; with a line's \<^verbatim>\<open>cancel\<close> in its hand (\<^verbatim>\<open>interrupt\<close> has read it and
  let go of the mutex); having called it. Contexts are numbered as they are made.
\<close>

datatype sig_phase = Sig_Waits | Sig_Holds nat | Sig_Called nat

record con_world =
  cw_term :: con_term
  cw_phase :: con_phase
  cw_first :: bool
  cw_made :: nat
  cw_cancel :: "nat option"
  cw_cut :: "nat set"
  cw_sig :: sig_phase

subsection \<open>The start and the end of Run\<close>

text \<open>
  What each step of the start gives: whether the input is a terminal, its state, a second
  descriptor, that descriptor made non-blocking (which the first one then is too), the shell.
\<close>

datatype con_error = Not_A_Terminal | State_Error | Dup_Error | Nonblock_Error | Shell_Error

definition put_back :: "con_term \<Rightarrow> con_term" where
  "put_back t = t\<lparr>ct_dup := False, ct_nonblock := False, ct_raw := False\<rparr>"

definition con_open :: "bool \<Rightarrow> bool \<Rightarrow> bool \<Rightarrow> bool \<Rightarrow> bool \<Rightarrow> con_term \<Rightarrow> con_error option \<times> con_term" where
  "con_open is_term got dup nonblock made t =
     (if \<not> is_term then (Some Not_A_Terminal, t)
      else if \<not> got then (Some State_Error, t)
      else if \<not> dup then (Some Dup_Error, t\<lparr>ct_raw := False\<rparr>)
      else if \<not> nonblock then (Some Nonblock_Error, t\<lparr>ct_raw := False\<rparr>)
      else
        (let t1 = t\<lparr>ct_dup := True, ct_nonblock := True\<rparr> in
         if \<not> made then (Some Shell_Error, put_back t1) else (None, t1)))"

definition con_begin :: "bool \<Rightarrow> con_term \<Rightarrow> con_world" where
  "con_begin fst_line t = \<lparr>cw_term = t, cw_phase = Con_Begins, cw_first = fst_line, cw_made = 0,
     cw_cancel = None, cw_cut = {}, cw_sig = Sig_Waits\<rparr>"

definition con_return :: "con_world \<Rightarrow> con_world" where
  "con_return s = s\<lparr>cw_phase := Con_Returned, cw_term := put_back (cw_term s)\<rparr>"

subsection \<open>Steps\<close>

definition job_starts :: "con_job \<Rightarrow> con_world \<Rightarrow> con_world" where
  "job_starts j s = s\<lparr>cw_phase := Con_Runs j, cw_made := Suc (cw_made s), cw_cancel := Some (Suc (cw_made s))\<rparr>"

text \<open>The reads can wait again; after a line the terminal is also cooked and non-blocking.\<close>

definition after_job :: "con_job \<Rightarrow> con_term \<Rightarrow> con_term" where
  "after_job j t = (case j of
     Rc_File \<Rightarrow> t\<lparr>ct_ended := False\<rparr>
   | Typed_Line \<Rightarrow> t\<lparr>ct_ended := False, ct_nonblock := True, ct_raw := False\<rparr>)"

text \<open>
  A read whose deadline has passed fails whatever there is to read. While a line runs its programs may
  leave the terminal in any mode, and an applet may wake its own reader (\<^verbatim>\<open>WakeStdin\<close>).
\<close>

inductive con_step :: "con_world \<Rightarrow> con_world \<Rightarrow> bool" where
  rc_starts: "cw_phase s = Con_Begins \<Longrightarrow> con_step s (job_starts Rc_File s)"
| first_line: "\<lbrakk>cw_phase s = Con_Ready; cw_first s\<rbrakk> \<Longrightarrow>
    con_step s (s\<lparr>cw_phase := Con_Has_Line, cw_first := False\<rparr>)"
| prompt: "\<lbrakk>cw_phase s = Con_Ready; \<not> cw_first s\<rbrakk> \<Longrightarrow>
    con_step s (s\<lparr>cw_phase := Con_Reads, cw_term := (cw_term s)\<lparr>ct_raw := True\<rparr>\<rparr>)"
| no_raw: "\<lbrakk>cw_phase s = Con_Ready; \<not> cw_first s\<rbrakk> \<Longrightarrow> con_step s (con_return s)"
| keys: "\<lbrakk>cw_phase s = Con_Reads; \<not> ct_ended (cw_term s)\<rbrakk> \<Longrightarrow> con_step s s"
| submit: "\<lbrakk>cw_phase s = Con_Reads; \<not> ct_ended (cw_term s)\<rbrakk> \<Longrightarrow>
    con_step s (s\<lparr>cw_phase := Con_Has_Line, cw_term := (cw_term s)\<lparr>ct_raw := False\<rparr>\<rparr>)"
| eof: "\<lbrakk>cw_phase s = Con_Reads; \<not> ct_ended (cw_term s)\<rbrakk> \<Longrightarrow> con_step s (con_return s)"
| read_fails: "cw_phase s = Con_Reads \<Longrightarrow> con_step s (con_return s)"
| line_starts: "cw_phase s = Con_Has_Line \<Longrightarrow> con_step s (job_starts Typed_Line s)"
| program_sets: "cw_phase s = Con_Runs j \<Longrightarrow>
    con_step s (s\<lparr>cw_term := (cw_term s)\<lparr>ct_raw := r, ct_nonblock := n\<rparr>\<rparr>)"
| applet_wakes: "cw_phase s = Con_Runs j \<Longrightarrow> con_step s (s\<lparr>cw_term := (cw_term s)\<lparr>ct_ended := True\<rparr>\<rparr>)"
| job_returns: "cw_phase s = Con_Runs j \<Longrightarrow> con_step s (s\<lparr>cw_phase := Con_Has_Run j\<rparr>)"
| job_cleared: "cw_phase s = Con_Has_Run j \<Longrightarrow>
    con_step s (s\<lparr>cw_phase := Con_Cleared j, cw_cancel := None\<rparr>)"
| job_over: "cw_phase s = Con_Cleared j \<Longrightarrow>
    con_step s (s\<lparr>cw_phase := Con_Ready, cw_term := after_job j (cw_term s)\<rparr>)"
| shell_exits: "cw_phase s = Con_Cleared Typed_Line \<Longrightarrow>
    con_step s (con_return (s\<lparr>cw_term := after_job Typed_Line (cw_term s)\<rparr>))"
| sig_at_prompt: "\<lbrakk>cw_sig s = Sig_Waits; cw_cancel s = None\<rbrakk> \<Longrightarrow> con_step s s"
| sig_comes: "\<lbrakk>cw_sig s = Sig_Waits; cw_cancel s = Some k\<rbrakk> \<Longrightarrow> con_step s (s\<lparr>cw_sig := Sig_Holds k\<rparr>)"
| sig_cancels: "cw_sig s = Sig_Holds k \<Longrightarrow>
    con_step s (s\<lparr>cw_sig := Sig_Called k, cw_cut := insert k (cw_cut s)\<rparr>)"
| sig_ends_reads: "cw_sig s = Sig_Called k \<Longrightarrow>
    con_step s (s\<lparr>cw_sig := Sig_Waits, cw_term := (cw_term s)\<lparr>ct_ended := True\<rparr>\<rparr>)"

text \<open>
  A line can leave programs running in the background (\<^verbatim>\<open>&\<close>): at any time before Run has returned they
  too may change the terminal's modes, and an applet among them may wake a reader.
\<close>

inductive console_step :: "con_world \<Rightarrow> con_world \<Rightarrow> bool" where
  in_front: "con_step s s' \<Longrightarrow> console_step s s'"
| background_sets: "cw_phase s \<noteq> Con_Returned \<Longrightarrow>
    console_step s (s\<lparr>cw_term := (cw_term s)\<lparr>ct_raw := r, ct_nonblock := n\<rparr>\<rparr>)"
| background_wakes: "cw_phase s \<noteq> Con_Returned \<Longrightarrow>
    console_step s (s\<lparr>cw_term := (cw_term s)\<lparr>ct_ended := True\<rparr>\<rparr>)"

text \<open>
  Steps without such programs, in which no signal is between its own steps as a line's \<^verbatim>\<open>cancel\<close> is
  cleared.
\<close>

definition calm_step :: "con_world \<Rightarrow> con_world \<Rightarrow> bool" where
  "calm_step s s' = (con_step s s' \<and>
     (\<forall>j. cw_phase s = Con_Has_Run j \<and> cw_phase s' \<noteq> cw_phase s \<longrightarrow> cw_sig s = Sig_Waits))"

subsection \<open>The terminal is given back\<close>

lemma con_open_fails:
  assumes "con_open is_term got dup nonblock made t = (Some e, t')" "\<not> ct_raw t" "\<not> ct_nonblock t" "\<not> ct_dup t"
  shows "t' = t"
  using assms by (cases t) (auto simp: con_open_def put_back_def Let_def split: if_splits)

lemma con_open_ok:
  assumes "con_open is_term got dup nonblock made t = (None, t')"
  shows "ct_dup t' \<and> ct_nonblock t' \<and> ct_raw t' = ct_raw t \<and> ct_ended t' = ct_ended t"
  using assms by (auto simp: con_open_def Let_def split: if_splits)

text \<open>The mode each place of the loop is in, whatever the signals do.\<close>

definition mode_ok :: "con_world \<Rightarrow> bool" where
  "mode_ok s =
     (let t = cw_term s in
      (case cw_phase s of
         Con_Returned \<Rightarrow> \<not> ct_raw t \<and> \<not> ct_nonblock t \<and> \<not> ct_dup t
       | Con_Reads \<Rightarrow> ct_dup t \<and> ct_raw t
       | _ \<Rightarrow> ct_dup t))"

lemma mode_step:
  assumes "con_step s s'" "mode_ok s"
  shows "mode_ok s'"
  using assms
  by (cases rule: con_step.cases)
    (auto simp: mode_ok_def Let_def con_return_def put_back_def job_starts_def after_job_def split: con_job.splits con_phase.splits)

lemma mode_always:
  assumes "con_step\<^sup>*\<^sup>* (con_begin f t) s" "ct_dup t"
  shows "mode_ok s"
  using assms(1)
proof (induction rule: rtranclp_induct)
  case base
  then show ?case using assms(2) by (simp add: con_begin_def mode_ok_def)
next
  case (step s s')
  then show ?case by (blast intro: mode_step)
qed

text \<open>Once returned, the console has given the terminal back, whatever ran in the background.\<close>

definition given_back :: "con_world \<Rightarrow> bool" where
  "given_back s = (cw_phase s = Con_Returned \<longrightarrow>
     \<not> ct_raw (cw_term s) \<and> \<not> ct_nonblock (cw_term s) \<and> \<not> ct_dup (cw_term s))"

lemma given_back_con_step:
  assumes "con_step s s'" "given_back s"
  shows "given_back s'"
  using assms
  by (cases rule: con_step.cases) (auto simp: given_back_def con_return_def put_back_def job_starts_def)

lemma terminal_given_back:
  assumes "console_step\<^sup>*\<^sup>* (con_begin f t) s"
  shows "given_back s"
  using assms
proof (induction rule: rtranclp_induct)
  case base
  then show ?case by (simp add: con_begin_def given_back_def)
next
  case (step s s')
  from step(2) show ?case
  proof (cases rule: console_step.cases)
    case in_front
    then show ?thesis using given_back_con_step step(3) by blast
  qed (auto simp: given_back_def)
qed

subsection \<open>Ctrl+C\<close>

definition running :: "con_phase \<Rightarrow> bool" where
  "running p = (\<exists>j. p = Con_Runs j \<or> p = Con_Has_Run j)"

lemma running_simps [simp]:
  "running (Con_Runs j)" "running (Con_Has_Run j)" "\<not> running (Con_Cleared j)" "\<not> running Con_Begins"
  "\<not> running Con_Ready" "\<not> running Con_Reads" "\<not> running Con_Has_Line" "\<not> running Con_Returned"
  by (auto simp: running_def)

text \<open>There is something to cancel exactly while a job runs, and it is that job's.\<close>

definition cancel_ok :: "con_world \<Rightarrow> bool" where
  "cancel_ok s = (cw_cancel s = (if running (cw_phase s) then Some (cw_made s) else None))"

lemma cancel_step:
  assumes "con_step s s'" "cancel_ok s"
  shows "cancel_ok s'"
  using assms
  by (cases rule: con_step.cases) (auto simp: cancel_ok_def con_return_def job_starts_def split: if_splits)

definition sig_of :: "sig_phase \<Rightarrow> nat option" where
  "sig_of g = (case g of Sig_Waits \<Rightarrow> None | Sig_Holds k \<Rightarrow> Some k | Sig_Called k \<Rightarrow> Some k)"

lemma sig_of_simps [simp]:
  "sig_of Sig_Waits = None" "sig_of (Sig_Holds k) = Some k" "sig_of (Sig_Called k) = Some k"
  by (simp_all add: sig_of_def)

text \<open>
  With a signal in hand the job it is for still runs; and reads are ended only while one runs, or
  before they are let wait again.
\<close>

definition calm :: "con_world \<Rightarrow> bool" where
  "calm s = (cancel_ok s \<and>
     (\<forall>k. sig_of (cw_sig s) = Some k \<longrightarrow> running (cw_phase s) \<and> k = cw_made s) \<and>
     (ct_ended (cw_term s) \<longrightarrow> running (cw_phase s) \<or> (\<exists>j. cw_phase s = Con_Cleared j)))"

lemma calm_begin: "\<lbrakk>\<not> ct_ended t\<rbrakk> \<Longrightarrow> calm (con_begin f t)"
  by (simp add: calm_def cancel_ok_def con_begin_def)

lemma calm_preserved:
  assumes "calm_step s s'" "calm s"
  shows "calm s'"
proof -
  have step: "con_step s s'" and guard: "\<And>j. cw_phase s = Con_Has_Run j \<Longrightarrow> cw_phase s' \<noteq> cw_phase s \<Longrightarrow> cw_sig s = Sig_Waits"
    using assms(1) by (auto simp: calm_step_def)
  have c: "cancel_ok s'" using cancel_step [OF step] assms(2) by (simp add: calm_def)
  from step show ?thesis
  proof (cases rule: con_step.cases)
    case (job_cleared j)
    then have "cw_sig s = Sig_Waits" using guard by simp
    with job_cleared c show ?thesis by (simp add: calm_def)
  next
    case (job_over j)
    with c assms(2) show ?thesis by (cases j) (auto simp: calm_def after_job_def)
  next
    case (sig_comes k)
    with c assms(2) show ?thesis by (auto simp: calm_def cancel_ok_def split: if_splits)
  next
    case rc_starts
    with c assms(2) show ?thesis by (auto simp: calm_def job_starts_def)
  next
    case line_starts
    with c assms(2) show ?thesis by (auto simp: calm_def job_starts_def)
  next
    case (job_returns j)
    with c assms(2) show ?thesis by (auto simp: calm_def)
  next
    case shell_exits
    with c assms(2) show ?thesis by (auto simp: calm_def con_return_def put_back_def after_job_def)
  qed (use c assms(2) in \<open>auto simp: calm_def con_return_def put_back_def\<close>)
qed

lemma calm_always:
  assumes "calm_step\<^sup>*\<^sup>* (con_begin f t) s" "\<not> ct_ended t"
  shows "calm s"
  using assms(1)
proof (induction rule: rtranclp_induct)
  case base
  then show ?case using assms(2) by (rule calm_begin)
next
  case (step s s')
  then show ?case by (blast intro: calm_preserved)
qed

lemma calm_run: "calm_step\<^sup>*\<^sup>* s s' \<Longrightarrow> con_step\<^sup>*\<^sup>* s s'"
  by (erule rtranclp_mono [THEN predicate2D, rotated]) (auto simp: calm_step_def)

text \<open>
  C6. The console's terminal is what each place of \<^verbatim>\<open>Run\<close> needs. Once \<^verbatim>\<open>Run\<close> has returned, on every path
  and whatever programs it ran set, those left in the background too, the terminal is in the mode it
  was found in, blocking, with the second descriptor closed. And at the prompt it is raw, its reads
  wait and no signal is on its way, whatever the programs of the lines left it as: as long as none of
  them runs on in the background and every Ctrl+C that came while a line ran was dealt with before the
  line's \<^verbatim>\<open>cancel\<close> was cleared.
\<close>

theorem console_prompt_waits:
  assumes "con_open is_term got dup nonblock made t = (None, t')" "\<not> ct_ended t"
  shows "(\<forall>s. console_step\<^sup>*\<^sup>* (con_begin f t') s \<and> cw_phase s = Con_Returned \<longrightarrow>
      \<not> ct_raw (cw_term s) \<and> \<not> ct_nonblock (cw_term s) \<and> \<not> ct_dup (cw_term s)) \<and>
    (\<forall>s. calm_step\<^sup>*\<^sup>* (con_begin f t') s \<and> cw_phase s = Con_Reads \<longrightarrow>
      ct_raw (cw_term s) \<and> \<not> ct_ended (cw_term s) \<and> cw_sig s = Sig_Waits \<and> cw_cancel s = None)"
proof (intro conjI allI impI)
  fix s assume "console_step\<^sup>*\<^sup>* (con_begin f t') s \<and> cw_phase s = Con_Returned"
  then show "\<not> ct_raw (cw_term s)" "\<not> ct_nonblock (cw_term s)" "\<not> ct_dup (cw_term s)"
    using terminal_given_back [of f t' s] by (simp_all add: given_back_def)
next
  fix s assume s: "calm_step\<^sup>*\<^sup>* (con_begin f t') s \<and> cw_phase s = Con_Reads"
  have o: "ct_dup t'" "\<not> ct_ended t'" using con_open_ok [OF assms(1)] assms(2) by simp_all
  have m: "mode_ok s" using mode_always [OF calm_run o(1)] s by blast
  have c: "calm s" using calm_always o(2) s by blast
  show "ct_raw (cw_term s)" using m s by (simp add: mode_ok_def Let_def)
  show "\<not> ct_ended (cw_term s)" using c s by (simp add: calm_def)
  show "cw_cancel s = None" using c s by (simp add: calm_def cancel_ok_def)
  show "cw_sig s = Sig_Waits" using c s by (cases "cw_sig s") (auto simp: calm_def)
qed

subsection \<open>A Ctrl+C that comes as its line ends\<close>

definition found_term :: con_term where
  "found_term = \<lparr>ct_raw = False, ct_nonblock = False, ct_ended = False, ct_dup = False\<rparr>"

definition opened_term :: con_term where
  "opened_term = snd (con_open True True True True True found_term)"

lemmas con_fields = con_begin_def opened_term_def found_term_def con_open_def job_starts_def after_job_def
  con_return_def put_back_def

text \<open>What the fields are once the rc file has run and a line was given, and after that.\<close>

definition con_at :: "con_phase \<Rightarrow> nat \<Rightarrow> nat option \<Rightarrow> nat set \<Rightarrow> sig_phase \<Rightarrow> bool \<Rightarrow> bool \<Rightarrow> con_world" where
  "con_at p n c X g raw ended = \<lparr>cw_term = \<lparr>ct_raw = raw, ct_nonblock = True, ct_ended = ended, ct_dup = True\<rparr>,
     cw_phase = p, cw_first = False, cw_made = n, cw_cancel = c, cw_cut = X, cw_sig = g\<rparr>"

lemma con_at_begin: "con_begin False opened_term = con_at Con_Begins 0 None {} Sig_Waits False False"
  by (simp add: con_at_def con_fields)

lemma con_at_steps:
  "con_step (con_at Con_Begins n c X g r e) (con_at (Con_Runs Rc_File) (Suc n) (Some (Suc n)) X g r e)"
  "con_step (con_at (Con_Runs j) n c X g r e) (con_at (Con_Has_Run j) n c X g r e)"
  "con_step (con_at (Con_Has_Run j) n c X g r e) (con_at (Con_Cleared j) n None X g r e)"
  "con_step (con_at (Con_Cleared Rc_File) n c X g r e) (con_at Con_Ready n c X g r False)"
  "con_step (con_at (Con_Cleared Typed_Line) n c X g r e) (con_at Con_Ready n c X g False False)"
  "con_step (con_at (Con_Runs j) n c X g r e) (con_at (Con_Runs j) n c X g True e)"
  "con_step (con_at Con_Ready n c X g r e) (con_at Con_Reads n c X g True e)"
  "con_step (con_at Con_Reads n c X g r False) (con_at Con_Has_Line n c X g False False)"
  "con_step (con_at Con_Has_Line n c X g r e) (con_at (Con_Runs Typed_Line) (Suc n) (Some (Suc n)) X g r e)"
  "con_step (con_at p n (Some k) X Sig_Waits r e) (con_at p n (Some k) X (Sig_Holds k) r e)"
  "con_step (con_at p n c X (Sig_Holds k) r e) (con_at p n c (insert k X) (Sig_Called k) r e)"
  "con_step (con_at p n c X (Sig_Called k) r e) (con_at p n c X Sig_Waits r True)"
  using con_step.rc_starts [of "con_at Con_Begins n c X g r e"]
    con_step.job_returns [of "con_at (Con_Runs j) n c X g r e"]
    con_step.job_cleared [of "con_at (Con_Has_Run j) n c X g r e"]
    con_step.job_over [of "con_at (Con_Cleared Rc_File) n c X g r e"]
    con_step.job_over [of "con_at (Con_Cleared Typed_Line) n c X g r e"]
    con_step.program_sets [of "con_at (Con_Runs j) n c X g r e" j True True]
    con_step.prompt [of "con_at Con_Ready n c X g r e"]
    con_step.submit [of "con_at Con_Reads n c X g r False"]
    con_step.line_starts [of "con_at Con_Has_Line n c X g r e"]
    con_step.sig_comes [of "con_at p n (Some k) X Sig_Waits r e"]
    con_step.sig_cancels [of "con_at p n c X (Sig_Holds k) r e"]
    con_step.sig_ends_reads [of "con_at p n c X (Sig_Called k) r e"]
  by (simp_all add: con_at_def job_starts_def after_job_def)

text \<open>
  A Ctrl+C is taken up while a line runs, and the line ends before its reads are ended: the reads
  ended are the prompt's. Nothing is left for the console there but to return, as at the end of its
  input, though the person only stopped a command.
\<close>

lemma calm_if: "\<lbrakk>con_step a b; (\<forall>j. cw_phase a \<noteq> Con_Has_Run j) \<or> cw_sig a = Sig_Waits\<rbrakk> \<Longrightarrow> calm_step a b"
  by (auto simp: calm_step_def)

lemma calm_trans: "\<lbrakk>con_step a b; (\<forall>j. cw_phase a \<noteq> Con_Has_Run j) \<or> cw_sig a = Sig_Waits; calm_step\<^sup>*\<^sup>* b c\<rbrakk> \<Longrightarrow> calm_step\<^sup>*\<^sup>* a c"
  by (rule converse_rtranclp_into_rtranclp [where r = calm_step]) (rule calm_if)

lemma con_steps_trans: "con_step a b \<Longrightarrow> con_step\<^sup>*\<^sup>* b c \<Longrightarrow> con_step\<^sup>*\<^sup>* a c"
  by (rule converse_rtranclp_into_rtranclp)

lemma con_at_fields [simp]:
  "cw_phase (con_at p n c X g r e) = p" "cw_sig (con_at p n c X g r e) = g"
  by (simp_all add: con_at_def)

lemma con_to_line:
  "calm_step\<^sup>*\<^sup>* (con_begin False opened_term) (con_at (Con_Runs Typed_Line) 2 (Some 2) {} Sig_Waits False False)"
proof -
  have "calm_step\<^sup>*\<^sup>* (con_at Con_Begins 0 None {} Sig_Waits False False)
      (con_at (Con_Runs Typed_Line) (Suc (Suc 0)) (Some (Suc (Suc 0))) {} Sig_Waits False False)"
    by (rule calm_trans [OF con_at_steps(1)], simp, rule calm_trans [OF con_at_steps(2)], simp,
      rule calm_trans [OF con_at_steps(3)], simp, rule calm_trans [OF con_at_steps(4)], simp,
      rule calm_trans [OF con_at_steps(7)], simp, rule calm_trans [OF con_at_steps(8)], simp,
      rule calm_trans [OF con_at_steps(9)], simp, rule rtranclp.rtrancl_refl)
  then show ?thesis by (simp add: con_at_begin numeral_2_eq_2)
qed

lemma line_stopped:
  "calm_step\<^sup>*\<^sup>* (con_begin False opened_term) (con_at Con_Reads 2 None {2} Sig_Waits True False)"
proof -
  have "calm_step\<^sup>*\<^sup>* (con_at (Con_Runs Typed_Line) 2 (Some 2) {} Sig_Waits False False)
      (con_at Con_Reads 2 None {2} Sig_Waits True False)"
    by (rule calm_trans [OF con_at_steps(10)], simp, rule calm_trans [OF con_at_steps(11)], simp,
      rule calm_trans [OF con_at_steps(12)], simp, rule calm_trans [OF con_at_steps(6)], simp,
      rule calm_trans [OF con_at_steps(2)], simp, rule calm_trans [OF con_at_steps(3)], simp,
      rule calm_trans [OF con_at_steps(5)], simp, rule calm_trans [OF con_at_steps(7)], simp,
      rule rtranclp.rtrancl_refl)
  with con_to_line show ?thesis by (rule rtranclp_trans)
qed

text \<open>
  A line is interrupted and leaves the terminal raw; the next prompt is there, and waits. There a
  program in the background sets the terminal, and at the end of the input Run gives it back.
\<close>

theorem console_prompt_waits_witness:
  "let s = con_at Con_Reads 2 None {2} Sig_Waits True False in
   calm_step\<^sup>*\<^sup>* (con_begin False opened_term) s \<and> ct_raw (cw_term s) \<and> \<not> ct_ended (cw_term s) \<and>
   (\<exists>s'. console_step\<^sup>*\<^sup>* (s\<lparr>cw_term := (cw_term s)\<lparr>ct_raw := False, ct_nonblock := False\<rparr>\<rparr>) s' \<and>
     cw_phase s' = Con_Returned \<and> \<not> ct_dup (cw_term s'))"
proof -
  let ?s = "con_at Con_Reads 2 None {2} Sig_Waits True False"
  let ?b = "?s\<lparr>cw_term := (cw_term ?s)\<lparr>ct_raw := False, ct_nonblock := False\<rparr>\<rparr>"
  have op: "con_open True True True True True found_term = (None, opened_term)"
    by (simp add: con_fields)
  have "\<not> ct_ended found_term" by (simp add: found_term_def)
  note both = console_prompt_waits [OF op this, of False]
  have front: "console_step\<^sup>*\<^sup>* a b" if "calm_step\<^sup>*\<^sup>* a b" for a b
    using that by (rule rtranclp_mono [THEN predicate2D, rotated]) (auto simp: calm_step_def intro: in_front)
  have bg: "console_step ?s ?b" by (rule background_sets) simp
  have ret: "console_step ?b (con_return ?b)" by (rule in_front, rule con_step.read_fails) simp
  have "console_step\<^sup>*\<^sup>* (con_begin False opened_term) (con_return ?b)"
    using front [OF line_stopped] bg ret by (meson rtranclp.rtrancl_into_rtrancl)
  moreover have "cw_phase (con_return ?b) = Con_Returned" by (simp add: con_return_def)
  ultimately have "\<not> ct_dup (cw_term (con_return ?b))" using both by blast
  moreover have "ct_raw (cw_term ?s) \<and> \<not> ct_ended (cw_term ?s)" using both line_stopped by simp
  ultimately show ?thesis using line_stopped ret unfolding Let_def
    by (intro conjI exI [of _ "con_return ?b"]) (auto simp: con_return_def)
qed

lemma ctrl_c_reaches_prompt:
  "con_step\<^sup>*\<^sup>* (con_begin False opened_term) (con_at Con_Reads 2 None {2} Sig_Waits True True)"
proof -
  have "con_step\<^sup>*\<^sup>* (con_at (Con_Runs Typed_Line) 2 (Some 2) {} Sig_Waits False False) (con_at Con_Reads 2 None {2} Sig_Waits True True)"
    by (rule con_steps_trans, rule con_at_steps(10), rule con_steps_trans, rule con_at_steps(11),
      rule con_steps_trans, rule con_at_steps(2), rule con_steps_trans, rule con_at_steps(3),
      rule con_steps_trans, rule con_at_steps(5), rule con_steps_trans, rule con_at_steps(7),
      rule con_steps_trans, rule con_at_steps(12), rule rtranclp.rtrancl_refl)
  with calm_run [OF con_to_line] show ?thesis by (rule rtranclp_trans)
qed

lemma ended_prompt_returns:
  assumes "con_step s s'" "cw_phase s = Con_Reads" "ct_ended (cw_term s)"
  shows "(cw_phase s' = Con_Reads \<and> ct_ended (cw_term s')) \<or> cw_phase s' = Con_Returned"
  using assms by (cases rule: con_step.cases) (auto simp: con_return_def)

text \<open>Reads once ended, by an applet that wakes its reader too, stay ended for what else its line runs.\<close>

lemma wake_lasts:
  assumes "con_step s s'" "ct_ended (cw_term s)" "cw_phase s = Con_Runs j" "cw_phase s' = Con_Runs i"
  shows "ct_ended (cw_term s')"
  using assms by (cases rule: con_step.cases) auto

end
