(* ===== verification/Spec2Isabelle.thy ===== *)
theory Spec2Isabelle
  imports Sed_Correct Editor_Correct Pager Pty_Client Known_Hosts Ssh_Keys Remote_Args Mosh_Link
    Session_Io Term_Protocol Host_Requests Text_Applets_Correct Fs_Applets Find_Applets Sed_Applet
    Prompt_Complete Shell_Core Console_Shell Shell_Setup Page_Applets Page_Session Inline_Images
    Fs_Persist File_Drop Page_Notify Page_Requests
    Main_Programs Prog_Check Prog_Demo Mosh_Run
    Page_Access Page_Files Console_Tty
begin

text \<open>
  Verification of websh: a Unix shell written in Go that runs in a browser page (compiled to
  WebAssembly), in a console and behind a terminal served over HTTP, with its applets, a sed of its
  own, ssh, mosh and pty clients, and a protocol by which a program in the terminal asks the page
  for more than cells.

  How the parts interact. A session (\<^verbatim>\<open>web/session.go\<close>, or \<^verbatim>\<open>console/console.go\<close>) reads keys. At the
  prompt they go to the line editor (\<^verbatim>\<open>shell/editor.go\<close>), which hands a finished line to the shell
  (\<^verbatim>\<open>shell/shell.go\<close>); the shell gives it to the interpreter of module \<^verbatim>\<open>sh\<close> (not of this repository)
  and is called back for each command, which it dispatches to an applet, a program of the page or a
  program of the machine. While a command runs, keys go to its input queue (\<^verbatim>\<open>web/stdin.go\<close>). What it
  writes goes to the terminal, whose escape sequences of the protocol (\<^verbatim>\<open>PROTOCOL.md\<close>) come back to
  the session: the page host (\<^verbatim>\<open>web/place.go\<close>, \<^verbatim>\<open>page.go\<close>, \<^verbatim>\<open>font.go\<close>, \<^verbatim>\<open>sound.go\<close>, \<^verbatim>\<open>mirror.go\<close>,
  \<^verbatim>\<open>images.go\<close>, \<^verbatim>\<open>notify.go\<close>) changes what the person sees and takes it back when the program ends.
  Output that may be another machine's is trusted with less (\<^verbatim>\<open>web/trust.go\<close>).
\<close>

section \<open>The theories and the code\<close>

text \<open>
  \<^bold>\<open>Libraries of Go.\<close> \<open>Go_Prelude\<close> (byte strings, \<^verbatim>\<open>int\<close> as 64-bit integers with \<open>wrap64\<close>,
  \<^verbatim>\<open>strings\<close>, \<^verbatim>\<open>strconv\<close>), \<open>Utf8\<close>, \<open>Go_Text\<close>, \<open>Go_Path\<close> (\<^verbatim>\<open>path/filepath\<close>), \<open>Base64\<close>. A \<^verbatim>\<open>string\<close> or
  \<^verbatim>\<open>[]byte\<close> is a list of characters, one per byte; a \<^verbatim>\<open>rune\<close> is a natural number. \<open>Keyed\<close> states the
  contract of maps filled by registration, \<open>Mem_Files\<close> the contract of a file system: a view says
  which file a path names (\<open>fs_view\<close>: two paths may name one) and which paths are plain, and
  \<open>fs_laws\<close> that writing at a path changes the text of that file and of no other (\<open>only_at\<close>);
  directories made on the way are no files. It holds a flat file system and one that normalises
  paths and makes missing parents, as the shell's default one does.

  \<^bold>\<open>sed\<close> (\<^verbatim>\<open>src/shell/sed/\<close>). \<open>Sed_Regex\<close> (\<^verbatim>\<open>regex.go\<close>), \<open>Sed_Parse\<close> (\<^verbatim>\<open>parse.go\<close>),
  \<open>Sed_Exec\<close> (\<^verbatim>\<open>sed.go\<close>), \<open>Sed_Correct\<close>, and the applet \<open>Sed_Applet\<close> (\<^verbatim>\<open>sedapplet.go\<close>). The
  interpreter's state is a record with the two spaces, the stack of open inputs and the flags of the
  cycle; every panic of the Go code is a value \<open>Panics\<close>. Lemmas: a parsed script is well formed (its
  branches, groups and back references are in range), so running it never panics; without backward
  branches and \<^verbatim>\<open>D\<close> it ends; what a few scripts compute; an edit in place of a file replaces its
  text, or a script that fails leaves it as it was.

  \<^bold>\<open>Editing.\<close> \<open>Cells\<close> (\<^verbatim>\<open>cells.go\<close>), \<open>Line_Editor\<close> and \<open>Editor_Correct\<close> (\<^verbatim>\<open>editor.go\<close>),
  \<open>Text_Edit\<close> (\<^verbatim>\<open>edit.go\<close>), \<open>Pager\<close> (\<^verbatim>\<open>pager.go\<close>), \<open>Prompt_Complete\<close> (\<^verbatim>\<open>prompt.go\<close>, \<^verbatim>\<open>complete.go\<close>).
  Lemmas: indices stay in range, the keys refine operations on a text with a cursor, and what is
  drawn after a prompt of one line of text and colours leaves the terminal's cursor where the editor
  takes it to be.

  \<^bold>\<open>The shell and its applets\<close> (\<^verbatim>\<open>src/shell/\<close>). \<open>Shell_Env\<close> (what applets share),
  \<open>Text_Applets\<close> with \<open>Text_Applets_Correct\<close>, \<open>Fs_Applets\<close>, \<open>Find_Applets\<close> (\<^verbatim>\<open>applets.go\<close>,
  \<^verbatim>\<open>applets2.go\<close>), \<open>Shell_Core\<close> (\<^verbatim>\<open>shell.go\<close>), \<open>Shell_Setup\<close> (\<^verbatim>\<open>exec_js.go\<close>, \<^verbatim>\<open>exec_other.go\<close>,
  \<^verbatim>\<open>helpers.go\<close>, \<^verbatim>\<open>awk.go\<close>, \<^verbatim>\<open>jq.go\<close>), \<open>Console_Shell\<close> with \<open>Console_Tty\<close> (\<^verbatim>\<open>console/console.go\<close>), \<open>Main_Programs\<close> (the
  commands). Lemmas: no typed line is lost or doubled on its way from the terminal to the interpreter;
  the console gives its terminal back, whatever its programs set; the applets of the two files
  return, but for the few that loop over what need not end (a walk of the file system, \<open>fs_walk\<close>, is
  one that comes back, its entries or its end an error); what each computes. An index of Go that a
  guard keeps in range is a case of the list, or None where it is out of range (\<open>split_last\<close>,
  \<open>head_slice\<close>, \<open>tail_slice\<close>).

  \<^bold>\<open>Other machines.\<close> \<open>Key_Escape\<close> and \<open>Ssh_Tty\<close> (keys and prompts), \<open>Known_Hosts\<close>, \<open>Ssh_Keys\<close>,
  \<open>Remote_Args\<close>, \<open>Remote_Dial\<close> (\<^verbatim>\<open>src/shell/ssh/\<close>), \<open>Mosh_Link\<close>, \<open>Mosh_Run\<close> (\<^verbatim>\<open>src/shell/mosh/\<close>),
  \<open>Pty_Client\<close> (\<^verbatim>\<open>src/shell/pty/\<close>). The concurrent ones are step relations, or a step function under
  a schedule: a step is one branch of a \<^verbatim>\<open>select\<close> or one event of a callback. Lemmas: a host key that
  changed is never accepted; the screen mosh shows is the one its diffs say; escapes are found
  however the input is cut; a connection sends the keys typed in order, less what is typed as its socket closes; a mosh session can always end.

  \<^bold>\<open>The protocol and the page.\<close> \<open>Term_Protocol\<close>, \<open>Host_Requests\<close>, \<open>Page_Requests\<close>
  (\<^verbatim>\<open>src/progressive/\<close>: the program's side), \<open>Host_Page\<close>, \<open>Mirror\<close>, \<open>Inline_Images\<close>, \<open>Page_Notify\<close>,
  \<open>Page_Files\<close>, \<open>Page_Access\<close>, \<open>File_Drop\<close>, \<open>Session_Io\<close>, \<open>Page_Session\<close> (\<^verbatim>\<open>src/web/\<close>: the page's),
  \<open>Page_Applets\<close> (\<^verbatim>\<open>src/shell/browser/\<close>), \<open>Fs_Persist\<close> (\<^verbatim>\<open>src/cmd/websh/persist.go\<close>), \<open>Prog_Check\<close> and
  \<open>Prog_Demo\<close> (programs that use the protocol). The browser is kept as the values it holds. Lemmas:
  what a program sends in pieces arrives whole; the end of a program takes back what it changed;
  another machine's output changes nothing it may not; a mirror is plain by a description of its own,
  and text the DOM refuses ends the page's program (\<open>hp_panicked\<close>); each yes gives the clipboard
  once, to the command that asked; files survive a reload; lines are run in order, and what is typed to a command stays out of the editor.
\<close>

section \<open>Interfaces\<close>

text \<open>
  Locales state what one part relies on of another, and each is interpreted on the model's own
  definitions: \<open>line_host\<close> (who a line is handed to: the console), \<open>rune_cutter\<close> (who
  keeps back half a character: the page's writer and the console's), \<open>key_filter\<close> (the escapes of
  pty, ssh and mosh), \<open>sed_sink\<close> (where sed writes), \<open>go_regexp\<close> (Go's \<^verbatim>\<open>regexp\<close>, interpreted on the
  engine of \<open>Regexp_Lib\<close>), \<open>keyed\<close> and \<open>keyed_del\<close> (the tables of applets, of widgets and of
  sessions).

  What is not in the repository is an argument: \<^verbatim>\<open>regexp\<close>, Unicode tables, \<^verbatim>\<open>encoding/json\<close>,
  \<^verbatim>\<open>net/url\<close>, the file system (\<^verbatim>\<open>afero\<close>), the interpreter \<^verbatim>\<open>sh\<close>, the ssh and mosh libraries, the
  terminal emulator, image formats and zlib, \<^verbatim>\<open>float64\<close>, the browser. Its documented behaviour, where
  a theorem needs it, is a named predicate: \<open>fs_laws\<close> and \<open>drop_laws\<close> (who reads a file gets
  what was written to it, and other files keep theirs), \<open>vt_law\<close> (a diff drawn on an emulator with the
  default pen gives the next framebuffer, with that pen), \<open>line_law\<close> (a written known-hosts line
  reads back), \<open>go_regexp\<close>. Each has an instance in the development, on which the witnesses evaluate.
\<close>

section \<open>Termination, fuel and bounds\<close>

text \<open>
  Loops that end are total functions; their measures are the bytes left, the lines left or the
  attempts left. Loops that a user's input can keep going are partial functions whose value is None
  when they do not return: sed's commands and cycle (\<open>exec\<close>, \<open>run_loop\<close>), \<^verbatim>\<open>seq\<close> with a step that
  does not reach its end (\<open>seq_loop\<close>), a copy and a walk over a tree that grows (\<open>copy_any\<close>,
  \<open>tree_walk\<close>), the search for a free name (\<open>unique_from\<close>). That they return is proved as such for
  scripts without backward branches, for ranges that do not overflow, for file systems where no
  directory is below itself (tree) and for any names taken; a copy into a directory below its source
  need not end, and nothing is claimed of it.

  Fuel is used in two places only. \<open>rx_compile\<close> reads a pattern with one more than three times its
  length; a call that consumes no byte is followed by at most two others that consume none, so a
  pattern's calls are fewer. \<open>rep_iter\<close> iterates a matcher at most as often as there are bytes left
  and repetitions required, since an optional iteration that consumes nothing is not taken. Both
  belong to the sample engine the witnesses evaluate, not to the model of the code.

  Integers keep Go's width where a sum can leave it (\<open>wrap64\<close>); where a bound in the code prevents
  that, the lemma says so. Sizes the code limits are constants of the model: \<open>image_limit\<close>,
  \<open>font_limit\<close>, \<open>sound_limit\<close>, \<open>ship_limit\<close>, \<open>mirror_limit\<close>, \<open>in_queue_limit\<close>.
\<close>

section \<open>Not modelled\<close>

text \<open>
  Page elements and listeners (their creation, styles and removal), since they only call the
  browser; system calls on terminals, signals and processes; command-line flags (\<^verbatim>\<open>cobra\<close>) and
  listening (\<^verbatim>\<open>net/http\<close>); the goroutines that only copy between two ends (a step relation stands
  where their order matters); the interpreter's own start and its background jobs; the example
  mains (\<^verbatim>\<open>cmd/ttydemo\<close>, \<^verbatim>\<open>cmd/wasmwidget\<close>), which draw on a terminal through other libraries. Memory
  limits and the scheduling of the browser are not modelled: a step may be followed by any other that
  is enabled.
\<close>

end
